(* ===== verification/Prelude.thy ===== *)
theory Prelude
  imports Main "HOL-Library.Word" "HOL-Library.Monad_Syntax"
begin

text \<open>
  What every component shares: the machine integer types, the reading of a C++ execution as
  an \<open>option\<close> (\<open>None\<close> is an execution that the source gives no result to: a failed
  \<open>CR_FAIL_FAST_ASSERT_LIGHT\<close>, which aborts a debug build and is \<open>std::unreachable()\<close> in a
  release build, or undefined behaviour such as a read through a dangling pointer), the
  \<open>for\<close> loops over a vector as folds, and the lemma collections.
\<close>

unbundle bit_operations_syntax

type_synonym u8 = "8 word"
type_synonym u16 = "16 word"
type_synonym u32 = "32 word"
type_synonym u64 = "64 word"

text \<open>\<open>std::byte\<close>\<close>

type_synonym byte = u8

named_theorems unfold_defs \<open>definitions that are always unfolded in symbolic execution\<close>
named_theorems frame \<open>what an operation leaves unchanged\<close>

subsection \<open>Fail-fast assertions (\<open>include/corertt/fail_fast.h\<close>)\<close>

definition fail_fast_assert :: "bool \<Rightarrow> unit option" where
  "fail_fast_assert c = (if c then Some () else None)"

lemma fail_fast_assert_bind [simp]:
  "fail_fast_assert c \<bind> f = (if c then f () else None)"
  by (simp add: fail_fast_assert_def)

lemma fail_fast_assert_Some [simp]: "fail_fast_assert c = Some u \<longleftrightarrow> c"
  by (simp add: fail_fast_assert_def)

subsection \<open>Loops over a vector\<close>

text \<open>\<open>for (auto &x : xs) body\<close>, where the body may have no result.\<close>

fun foldM :: "('a \<Rightarrow> 's \<Rightarrow> 's option) \<Rightarrow> 'a list \<Rightarrow> 's \<Rightarrow> 's option" where
  "foldM f [] s = Some s"
| "foldM f (x # xs) s = f x s \<bind> foldM f xs"

lemma foldM_append: "foldM f (xs @ ys) s = foldM f xs s \<bind> foldM f ys"
  by (induction xs arbitrary: s) (auto split: bind_split)

lemma foldM_invariant:
  assumes "foldM f xs s = Some t" and "I s"
    and "\<And>x s t. x \<in> set xs \<Longrightarrow> I s \<Longrightarrow> f x s = Some t \<Longrightarrow> I t"
  shows "I t"
  using assms
proof (induction xs arbitrary: s)
  case Nil
  then show ?case by simp
next
  case (Cons x xs)
  then obtain u where u: "f x s = Some u" "foldM f xs u = Some t"
    by (auto simp: bind_eq_Some_conv)
  have "I u" using Cons.prems u by auto
  then show ?case using Cons u by auto
qed

lemma foldM_cong [fundef_cong]:
  "xs = ys \<Longrightarrow> s = t \<Longrightarrow> (\<And>x u. x \<in> set ys \<Longrightarrow> f x u = g x u) \<Longrightarrow> foldM f xs s = foldM g ys t"
  by (induction xs arbitrary: ys s t) (auto split: bind_split)

text \<open>A loop that fills one entry of a result vector in each round.\<close>

fun traverse :: "('a \<Rightarrow> 'b option) \<Rightarrow> 'a list \<Rightarrow> 'b list option" where
  "traverse f [] = Some []"
| "traverse f (x # xs) = do { y \<leftarrow> f x; ys \<leftarrow> traverse f xs; Some (y # ys) }"

lemma traverse_length: "traverse f xs = Some ys \<Longrightarrow> length ys = length xs"
  by (induction xs arbitrary: ys) (auto simp: bind_eq_Some_conv)

lemma traverse_nth: "traverse f xs = Some ys \<Longrightarrow> i < length xs \<Longrightarrow> f (xs ! i) = Some (ys ! i)"
  by (induction xs arbitrary: ys i) (auto simp: bind_eq_Some_conv nth_Cons split: nat.splits)

lemma traverse_total: "(\<And>x. x \<in> set xs \<Longrightarrow> f x \<noteq> None) \<Longrightarrow> \<exists>ys. traverse f xs = Some ys"
  by (induction xs) fastforce+

lemma foldM_total:
  assumes "I s" "\<And>x s. x \<in> set xs \<Longrightarrow> I s \<Longrightarrow> \<exists>t. f x s = Some t \<and> I t"
  shows "\<exists>t. foldM f xs s = Some t \<and> I t"
  using assms
proof (induction xs arbitrary: s)
  case (Cons x xs)
  obtain u where u: "f x s = Some u" "I u" using Cons.prems by force
  then show ?case using Cons.IH [OF u(2)] Cons.prems(2) by auto
qed auto

text \<open>A loop whose body may throw: \<open>Inl\<close> leaves it.\<close>

fun try_fold :: "('a \<Rightarrow> 's \<Rightarrow> ('e + 's) option) \<Rightarrow> 'a list \<Rightarrow> 's \<Rightarrow> ('e + 's) option" where
  "try_fold f [] s = Some (Inr s)"
| "try_fold f (x # xs) s = (case f x s of
     None \<Rightarrow> None | Some (Inl e) \<Rightarrow> Some (Inl e) | Some (Inr s) \<Rightarrow> try_fold f xs s)"

lemma try_fold_append:
  "try_fold f (xs @ ys) s = (case try_fold f xs s of
     None \<Rightarrow> None | Some (Inl e) \<Rightarrow> Some (Inl e) | Some (Inr s) \<Rightarrow> try_fold f ys s)"
  by (induction xs arbitrary: s) (auto split: option.split sum.split)

text \<open>The invariant may speak of the part of the loop that is done.\<close>

lemma try_fold_invariant:
  assumes "try_fold f xs s = Some (Inr t)" "I [] s"
    and "\<And>ys x zs s t. xs = ys @ x # zs \<Longrightarrow> I ys s \<Longrightarrow> f x s = Some (Inr t) \<Longrightarrow> I (ys @ [x]) t"
  shows "I xs t"
proof -
  have "try_fold f zs s = Some (Inr t) \<Longrightarrow> xs = ys @ zs \<Longrightarrow> I ys s \<Longrightarrow> I xs t" for ys zs s
  proof (induction zs arbitrary: ys s)
    case (Cons x zs)
    then obtain u where u: "f x s = Some (Inr u)" "try_fold f zs u = Some (Inr t)"
      by (auto split: option.splits sum.splits)
    have "I (ys @ [x]) u" using assms(3) Cons.prems(2,3) u(1) by blast
    then show ?case using Cons.IH [OF u(2)] Cons.prems(2) by simp
  qed simp
  then show ?thesis using assms(1,2) by (metis append_Nil)
qed

lemma try_fold_total:
  assumes "I [] s"
    and "\<And>ys x zs s. xs = ys @ x # zs \<Longrightarrow> I ys s \<Longrightarrow> \<exists>t. f x s = Some (Inr t) \<and> I (ys @ [x]) t"
  shows "\<exists>t. try_fold f xs s = Some (Inr t) \<and> I xs t"
proof -
  have "xs = ys @ zs \<Longrightarrow> I ys s \<Longrightarrow> \<exists>t. try_fold f zs s = Some (Inr t) \<and> I xs t" for ys zs s
  proof (induction zs arbitrary: ys s)
    case (Cons x zs)
    then obtain u where u: "f x s = Some (Inr u)" "I (ys @ [x]) u" using assms(2) by blast
    then show ?case using Cons.IH [of "ys @ [x]" u] Cons.prems(1) by simp
  qed simp
  then show ?thesis using assms(1) by (metis append_Nil)
qed

lemma try_fold_defined:
  assumes "I [] s"
    and "\<And>ys x zs s. xs = ys @ x # zs \<Longrightarrow> I ys s \<Longrightarrow>
      (\<exists>e. f x s = Some (Inl e)) \<or> (\<exists>t. f x s = Some (Inr t) \<and> I (ys @ [x]) t)"
  shows "\<exists>r. try_fold f xs s = Some r"
proof -
  have "xs = ys @ zs \<Longrightarrow> I ys s \<Longrightarrow> \<exists>r. try_fold f zs s = Some r" for ys zs s
  proof (induction zs arbitrary: ys s)
    case (Cons x zs)
    from assms(2) [OF Cons.prems] show ?case
      using Cons.IH [of "ys @ [x]"] Cons.prems(1) by auto
  qed simp
  then show ?thesis using assms(1) by (metis append_Nil)
qed

text \<open>\<open>for (int i = 0; i < n; ++i) body\<close>.\<close>

definition forM :: "nat \<Rightarrow> (nat \<Rightarrow> 's \<Rightarrow> 's option) \<Rightarrow> 's \<Rightarrow> 's option" where
  "forM n f s = foldM f [0..<n] s"

subsection \<open>Words\<close>

lemma unat_minus_le: "b \<le> a \<Longrightarrow> unat (a - b) = unat a - unat b"
  for a b :: "'n :: len word"
  by (simp add: unat_sub)

lemma word_minus_nonzero: "b < a \<Longrightarrow> a - b \<noteq> 0"
  for a b :: "'n :: len word"
  by simp

lemma unat_u8_lt: "unat (x :: u8) < 256"
  by (rule order.strict_trans2 [OF unsigned_less]) simp

lemma unat_u16_lt: "unat (x :: u16) < 65536"
  by (rule order.strict_trans2 [OF unsigned_less]) simp

lemma unat_u32_lt: "unat (x :: u32) < 4294967296"
  by (rule order.strict_trans2 [OF unsigned_less]) simp

lemma unat_ucast_8_16 [simp]: "unat (ucast (x :: u8) :: u16) = unat x"
  using unat_u8_lt [of x] by (simp add: unsigned_ucast_eq take_bit_eq_mod)

lemma unat_ucast_8_32 [simp]: "unat (ucast (x :: u8) :: u32) = unat x"
  using unat_u8_lt [of x] by (simp add: unsigned_ucast_eq take_bit_eq_mod)

lemma word_of_nat_unat_le: "n < 2 ^ LENGTH('n) \<Longrightarrow> unat (word_of_nat n :: 'n :: len word) = n"
  by (simp add: unat_of_nat take_bit_nat_eq_self)

lemma and_255: "x AND 255 = take_bit 8 x" for x :: "'n :: len word"
proof -
  have "255 = (mask 8 :: 'n word)" by (simp add: mask_eq_exp_minus_1)
  then show ?thesis by (simp add: take_bit_eq_mask)
qed

text \<open>A signed argument that was checked against a word is that number as a word.\<close>

lemma uint_word_of_int_le:
  "0 \<le> n \<Longrightarrow> n \<le> uint x \<Longrightarrow> uint (word_of_int n :: 'n word) = n" for x :: "'n :: len word"
  by (simp add: uint_word_of_int) (metis mod_pos_pos_trivial order.strict_trans1 uint_bounded)

lemma word_of_int_le_uint: "0 \<le> n \<Longrightarrow> n \<le> uint x \<Longrightarrow> word_of_int n \<le> x"
  by (simp add: word_le_def uint_word_of_int_le)

lemma uint_word_of_int_u16: "0 \<le> n \<Longrightarrow> n < 65536 \<Longrightarrow> uint (word_of_int n :: u16) = n"
  by (simp add: uint_word_of_int)

lemma uint_u16_lt: "uint (x :: u16) < 65536"
  by (rule order.strict_trans2 [OF uint_bounded]) simp

subsection \<open>What holds of a result, if there is one\<close>

definition on_result :: "('a \<Rightarrow> bool) \<Rightarrow> 'a option \<Rightarrow> bool" where
  "on_result Q m \<longleftrightarrow> (\<forall>x. m = Some x \<longrightarrow> Q x)"

lemma on_result_simps [simp]:
  "on_result Q (Some x) = Q x" "on_result Q None"
  "on_result Q (m \<bind> f) = on_result (\<lambda>x. on_result Q (f x)) m"
  "on_result Q (map_option g m) = on_result (\<lambda>x. Q (g x)) m"
  by (auto simp: on_result_def bind_eq_Some_conv)

lemma on_result_assert [simp]: "on_result Q (fail_fast_assert c) = (c \<longrightarrow> Q ())"
  by (auto simp: on_result_def)

lemma on_resultI: "(\<And>x. m = Some x \<Longrightarrow> Q x) \<Longrightarrow> on_result Q m"
  by (simp add: on_result_def)

lemma on_resultD: "on_result Q m \<Longrightarrow> m = Some x \<Longrightarrow> Q x"
  by (simp add: on_result_def)

lemma on_result_mono: "on_result Q m \<Longrightarrow> (\<And>x. Q x \<Longrightarrow> R x) \<Longrightarrow> on_result R m"
  by (simp add: on_result_def)

lemma on_result_foldM:
  assumes "I s" "\<And>x s. x \<in> set xs \<Longrightarrow> I s \<Longrightarrow> on_result I (f x s)"
  shows "on_result I (foldM f xs s)"
  using foldM_invariant [of f xs s _ I] assms by (auto simp: on_result_def)

end
