(* ===== verification/Stream_Adapter.thy ===== *)
theory Stream_Adapter
  imports Prelude
begin

text \<open>
  Byte sources (\<open>include/corertt/stream_adapter.h\<close>, \<open>src/stream_adapter.cpp\<close>). The abstract
  class \<open>StreamAdapter\<close> is a record of operations (its virtual table) over a state type; its two
  implementations are \<open>MemoryStreamAdapter\<close> and \<open>IstreamAdapter\<close>. The locale
  \<open>stream_adapter\<close> states what a client may rely on, and both classes are interpretations of it.
  Sizes and cursors are \<open>nat\<close>: every size in the program is below $2^{33}$, so \<open>std::size_t\<close>
  does not wrap.
\<close>

subsection \<open>The virtual table\<close>

record 's stream_ops =
  so_ndebug :: bool
  so_has :: "nat \<Rightarrow> 's \<Rightarrow> bool \<times> 's"
  so_peek :: "nat \<Rightarrow> 's \<Rightarrow> (byte list \<times> 's) option"
  so_peek_range :: "nat \<Rightarrow> nat \<Rightarrow> 's \<Rightarrow> (byte list \<times> 's) option"
  so_take :: "nat \<Rightarrow> nat \<Rightarrow> 's \<Rightarrow> (byte list \<times> 's) option"
  so_skip :: "nat \<Rightarrow> 's \<Rightarrow> 's option"
  so_position :: "'s \<Rightarrow> nat"
  so_end :: "'s \<Rightarrow> bool \<times> 's"

text \<open>
  \<open>so_take n out_size\<close> returns the \<open>n\<close> bytes that the C++ copies to the front of an output span
  of \<open>out_size\<close> bytes.

  \<open>CR_FAIL_FAST_ASSERT_HEAVY(has(n), \<dots>)\<close> evaluates \<open>has(n)\<close>, which may read from the stream, in
  a debug build only; with \<open>NDEBUG\<close> it is nothing. The build is the parameter \<open>ndebug\<close>, and the
  table carries it in \<open>so_ndebug\<close> for its clients.
\<close>

definition heavy_has :: "bool \<Rightarrow> (nat \<Rightarrow> 's \<Rightarrow> bool \<times> 's) \<Rightarrow> nat \<Rightarrow> 's \<Rightarrow> 's option" where
  "heavy_has ndebug has n s =
     (if ndebug then Some s
      else (let (ok, s') = has n s in if ok then Some s' else None))"

text \<open>\<open>std::span::subspan(offset, count)\<close>: undefined outside the span.\<close>

definition subspan :: "byte list \<Rightarrow> nat \<Rightarrow> nat \<Rightarrow> byte list option" where
  "subspan bs off n = (if off + n \<le> length bs then Some (take n (drop off bs)) else None)"

subsection \<open>\<open>MemoryStreamAdapter\<close>\<close>

record memory_stream =
  ms_bytes :: "byte list"
  ms_cursor :: nat

definition memory_stream_new :: "byte list \<Rightarrow> memory_stream" where
  "memory_stream_new bs = \<lparr>ms_bytes = bs, ms_cursor = 0\<rparr>"

definition ms_has :: "nat \<Rightarrow> memory_stream \<Rightarrow> bool \<times> memory_stream" where
  "ms_has n s = (ms_cursor s + n \<le> length (ms_bytes s), s)"

definition ms_peek :: "bool \<Rightarrow> nat \<Rightarrow> memory_stream \<Rightarrow> (byte list \<times> memory_stream) option" where
  "ms_peek ndebug n s = do {
     s \<leftarrow> heavy_has ndebug ms_has n s;
     bs \<leftarrow> subspan (ms_bytes s) (ms_cursor s) n;
     Some (bs, s)
   }"

definition ms_peek_range ::
  "bool \<Rightarrow> nat \<Rightarrow> nat \<Rightarrow> memory_stream \<Rightarrow> (byte list \<times> memory_stream) option" where
  "ms_peek_range ndebug left right s = do {
     fail_fast_assert (left \<le> right);
     s \<leftarrow> heavy_has ndebug ms_has right s;
     bs \<leftarrow> subspan (ms_bytes s) (ms_cursor s + left) (right - left);
     Some (bs, s)
   }"

definition ms_take :: "bool \<Rightarrow> nat \<Rightarrow> nat \<Rightarrow> memory_stream \<Rightarrow> (byte list \<times> memory_stream) option"
  where
  "ms_take ndebug n out_size s = do {
     fail_fast_assert (n \<le> out_size);
     (bs, s) \<leftarrow> ms_peek ndebug n s;
     Some (bs, s\<lparr>ms_cursor := ms_cursor s + n\<rparr>)
   }"

text \<open>
  \<open>skip\<close> moves the cursor without a bounds check of its own: in a release build nothing stops it
  from passing the end.
\<close>

definition ms_skip :: "bool \<Rightarrow> nat \<Rightarrow> memory_stream \<Rightarrow> memory_stream option" where
  "ms_skip ndebug n s = do {
     s \<leftarrow> heavy_has ndebug ms_has n s;
     Some (s\<lparr>ms_cursor := ms_cursor s + n\<rparr>)
   }"

definition ms_position :: "memory_stream \<Rightarrow> nat" where
  "ms_position s = ms_cursor s"

definition ms_end :: "memory_stream \<Rightarrow> bool \<times> memory_stream" where
  "ms_end s = (ms_cursor s = length (ms_bytes s), s)"

definition memory_ops :: "bool \<Rightarrow> memory_stream stream_ops" where
  "memory_ops ndebug =
     \<lparr>so_ndebug = ndebug, so_has = ms_has, so_peek = ms_peek ndebug, so_peek_range = ms_peek_range ndebug,
      so_take = ms_take ndebug, so_skip = ms_skip ndebug, so_position = ms_position,
      so_end = ms_end\<rparr>"

subsection \<open>\<open>std::istream\<close>\<close>

text \<open>
  What the source uses of \<open>std::istream\<close>: \<open>read(buf, n)\<close> extracts up to \<open>n\<close> characters while
  the stream is good; reaching the end sets \<open>eofbit\<close> and \<open>failbit\<close>; on a stream that is not good
  it extracts nothing and sets \<open>failbit\<close>.
\<close>

record istream =
  is_data :: "byte list"
  is_eof :: bool
  is_fail :: bool

definition istream_good :: "istream \<Rightarrow> bool" where
  "istream_good i \<longleftrightarrow> \<not> is_eof i \<and> \<not> is_fail i"

definition istream_read :: "nat \<Rightarrow> istream \<Rightarrow> byte list \<times> istream" where
  "istream_read n i =
     (if \<not> istream_good i then ([], i\<lparr>is_fail := True\<rparr>)
      else if length (is_data i) < n
        then (is_data i, i\<lparr>is_data := [], is_eof := True, is_fail := True\<rparr>)
        else (take n (is_data i), i\<lparr>is_data := drop n (is_data i)\<rparr>))"

definition istream_of :: "byte list \<Rightarrow> istream" where
  "istream_of bs = \<lparr>is_data = bs, is_eof = False, is_fail = False\<rparr>"

subsection \<open>\<open>IstreamAdapter\<close>\<close>

record istream_adapter =
  ia_stream :: istream
  ia_buffer :: "byte list"
  ia_cursor :: nat
  ia_absolute_position :: nat
  ia_stream_ended :: bool

definition istream_adapter_new :: "istream \<Rightarrow> istream_adapter" where
  "istream_adapter_new i =
     \<lparr>ia_stream = i, ia_buffer = [], ia_cursor = 0, ia_absolute_position = 0,
      ia_stream_ended = False\<rparr>"

text \<open>
  The loop of \<open>ensureBuffered\<close>: chunks of 4096 characters are appended until the request is
  covered, a read extracts nothing, or the stream has ended. Each further iteration has
  extracted at least one character.
\<close>

function ia_fill :: "nat \<Rightarrow> istream_adapter \<Rightarrow> istream_adapter" where
  "ia_fill n s =
     (if length (ia_buffer s) < ia_cursor s + n \<and> \<not> ia_stream_ended s
      then (let (chunk, i) = istream_read 4096 (ia_stream s) in
        if chunk = []
        then (if is_eof i \<or> \<not> istream_good i
              then s\<lparr>ia_stream := i, ia_stream_ended := True\<rparr>
              else s\<lparr>ia_stream := i\<rparr>)
        else ia_fill n (s\<lparr>ia_stream := i, ia_buffer := ia_buffer s @ chunk\<rparr>))
      else s)"
  by pat_completeness auto
termination
  by (relation "measure (\<lambda>(n, s). length (is_data (ia_stream s)))")
     (auto simp: istream_read_def split: if_splits)

declare ia_fill.simps [simp del]

definition ia_ensure_buffered :: "nat \<Rightarrow> istream_adapter \<Rightarrow> bool \<times> istream_adapter" where
  "ia_ensure_buffered n s =
     (if ia_cursor s + n \<le> length (ia_buffer s) then (True, s)
      else if ia_stream_ended s then (False, s)
      else (let s' = ia_fill n s in (ia_cursor s' + n \<le> length (ia_buffer s'), s')))"

text \<open>\<open>compactBuffer\<close>; \<open>erase(begin, begin + cursor)\<close> is undefined past the end of the vector.\<close>

definition ia_compact_buffer :: "istream_adapter \<Rightarrow> istream_adapter option" where
  "ia_compact_buffer s =
     (if ia_cursor s = 0 then Some s
      else if ia_cursor s * 2 < length (ia_buffer s) then Some s
      else if length (ia_buffer s) < ia_cursor s then None
      else Some (s\<lparr>ia_buffer := drop (ia_cursor s) (ia_buffer s), ia_cursor := 0\<rparr>))"

definition ia_has :: "nat \<Rightarrow> istream_adapter \<Rightarrow> bool \<times> istream_adapter" where
  "ia_has n s = ia_ensure_buffered n s"

definition ia_peek :: "bool \<Rightarrow> nat \<Rightarrow> istream_adapter \<Rightarrow> (byte list \<times> istream_adapter) option" where
  "ia_peek ndebug n s = do {
     s \<leftarrow> heavy_has ndebug ia_has n s;
     bs \<leftarrow> subspan (ia_buffer s) (ia_cursor s) n;
     Some (bs, s)
   }"

definition ia_peek_range ::
  "bool \<Rightarrow> nat \<Rightarrow> nat \<Rightarrow> istream_adapter \<Rightarrow> (byte list \<times> istream_adapter) option" where
  "ia_peek_range ndebug left right s = do {
     fail_fast_assert (left \<le> right);
     s \<leftarrow> heavy_has ndebug ia_has right s;
     bs \<leftarrow> subspan (ia_buffer s) (ia_cursor s + left) (right - left);
     Some (bs, s)
   }"

definition ia_take ::
  "bool \<Rightarrow> nat \<Rightarrow> nat \<Rightarrow> istream_adapter \<Rightarrow> (byte list \<times> istream_adapter) option" where
  "ia_take ndebug n out_size s = do {
     fail_fast_assert (n \<le> out_size);
     (bs, s) \<leftarrow> ia_peek ndebug n s;
     s \<leftarrow> ia_compact_buffer (s\<lparr>ia_cursor := ia_cursor s + n,
       ia_absolute_position := ia_absolute_position s + n\<rparr>);
     Some (bs, s)
   }"

definition ia_skip :: "bool \<Rightarrow> nat \<Rightarrow> istream_adapter \<Rightarrow> istream_adapter option" where
  "ia_skip ndebug n s = do {
     s \<leftarrow> heavy_has ndebug ia_has n s;
     ia_compact_buffer (s\<lparr>ia_cursor := ia_cursor s + n,
       ia_absolute_position := ia_absolute_position s + n\<rparr>)
   }"

definition ia_position :: "istream_adapter \<Rightarrow> nat" where
  "ia_position s = ia_absolute_position s"

definition ia_end :: "istream_adapter \<Rightarrow> bool \<times> istream_adapter" where
  "ia_end s =
     (let s = (if ia_stream_ended s then s else snd (ia_has 1 s))
      in (ia_stream_ended s \<and> ia_cursor s = length (ia_buffer s), s))"

definition istream_ops :: "bool \<Rightarrow> istream_adapter stream_ops" where
  "istream_ops ndebug =
     \<lparr>so_ndebug = ndebug, so_has = ia_has, so_peek = ia_peek ndebug, so_peek_range = ia_peek_range ndebug,
      so_take = ia_take ndebug, so_skip = ia_skip ndebug, so_position = ia_position,
      so_end = ia_end\<rparr>"

subsection \<open>The interface\<close>

text \<open>
  \<open>view s bs k p\<close>: the adapter in state \<open>s\<close> has the bytes \<open>bs\<close> still to read, at least the
  first \<open>k\<close> of them are buffered, and \<open>p\<close> bytes have been consumed. A read of \<open>n\<close> bytes is
  defined when \<open>n\<close> bytes are buffered, which a successful \<open>has(n)\<close> establishes; this holds in
  both builds.
\<close>

locale stream_adapter =
  fixes ops :: "'s stream_ops"
    and view :: "'s \<Rightarrow> byte list \<Rightarrow> nat \<Rightarrow> nat \<Rightarrow> bool"
  assumes view_weaken: "view s bs k p \<Longrightarrow> j \<le> k \<Longrightarrow> view s bs j p"
    and view_length: "view s bs k p \<Longrightarrow> k \<le> length bs"
    and has_view: "view s bs k p \<Longrightarrow> \<exists>s'. so_has ops n s = (n \<le> length bs, s')
      \<and> view s' bs (if n \<le> length bs then max n k else k) p"
    and peek_view: "view s bs k p \<Longrightarrow> n \<le> k \<Longrightarrow>
      \<exists>s'. so_peek ops n s = Some (take n bs, s') \<and> view s' bs k p"
    and peek_range_view: "view s bs k p \<Longrightarrow> left \<le> right \<Longrightarrow> right \<le> k \<Longrightarrow>
      \<exists>s'. so_peek_range ops left right s = Some (drop left (take right bs), s') \<and> view s' bs k p"
    and take_view: "view s bs k p \<Longrightarrow> n \<le> k \<Longrightarrow> n \<le> out_size \<Longrightarrow>
      \<exists>s'. so_take ops n out_size s = Some (take n bs, s') \<and> view s' (drop n bs) (k - n) (p + n)"
    and skip_view: "view s bs k p \<Longrightarrow> n \<le> k \<Longrightarrow>
      \<exists>s'. so_skip ops n s = Some s' \<and> view s' (drop n bs) (k - n) (p + n)"
    and position_view: "view s bs k p \<Longrightarrow> so_position ops s = p"
    and end_view: "view s bs k p \<Longrightarrow> \<exists>s'. so_end ops s = (bs = [], s') \<and> view s' bs k p"

lemma subspan_window:
  "left \<le> right \<Longrightarrow> off + right \<le> length bs \<Longrightarrow>
     subspan bs (off + left) (right - left) = Some (drop left (take right (drop off bs)))"
  by (simp add: subspan_def drop_take add.commute)

subsection \<open>\<open>MemoryStreamAdapter\<close> provides it\<close>

definition ms_view :: "memory_stream \<Rightarrow> byte list \<Rightarrow> nat \<Rightarrow> nat \<Rightarrow> bool" where
  "ms_view s bs k p \<longleftrightarrow>
     ms_cursor s \<le> length (ms_bytes s) \<and> bs = drop (ms_cursor s) (ms_bytes s)
     \<and> k \<le> length bs \<and> p = ms_cursor s"

lemmas memory_defs = memory_ops_def ms_has_def ms_peek_def ms_peek_range_def ms_take_def
  ms_skip_def ms_position_def ms_end_def heavy_has_def ms_view_def subspan_def

interpretation memory: stream_adapter "memory_ops ndebug" ms_view for ndebug
  by unfold_locales (auto simp: memory_defs drop_take add.commute)

lemma memory_stream_new_view: "ms_view (memory_stream_new bs) bs (length bs) 0"
  by (simp add: ms_view_def memory_stream_new_def)

subsection \<open>\<open>IstreamAdapter\<close> provides it\<close>

definition istream_rest :: "istream \<Rightarrow> byte list" where
  "istream_rest i = (if istream_good i then is_data i else [])"

definition ia_view :: "istream_adapter \<Rightarrow> byte list \<Rightarrow> nat \<Rightarrow> nat \<Rightarrow> bool" where
  "ia_view s bs k p \<longleftrightarrow>
     ia_cursor s \<le> length (ia_buffer s)
     \<and> bs = drop (ia_cursor s) (ia_buffer s) @ istream_rest (ia_stream s)
     \<and> k \<le> length (ia_buffer s) - ia_cursor s
     \<and> p = ia_absolute_position s
     \<and> (ia_stream_ended s \<longrightarrow> \<not> istream_good (ia_stream s))"

lemma istream_read_rest:
  "istream_read n i = (chunk, i') \<Longrightarrow> istream_rest i = chunk @ istream_rest i'"
  by (auto simp: istream_read_def istream_rest_def istream_good_def split: if_splits)

lemma istream_read_empty:
  "istream_read n i = ([], i') \<Longrightarrow> 0 < n \<Longrightarrow> \<not> istream_good i' \<and> istream_rest i = []"
  by (auto simp: istream_read_def istream_rest_def istream_good_def split: if_splits)

text \<open>
  The fill loop keeps the view, adds to the buffer only, and stops with the request covered or
  the stream ended with nothing left behind.
\<close>

lemma ia_fill_view:
  assumes "ia_view s bs k p"
  shows "ia_view (ia_fill n s) bs k p
    \<and> (ia_cursor (ia_fill n s) + n \<le> length (ia_buffer (ia_fill n s))
       \<or> ia_stream_ended (ia_fill n s))"
  using assms
proof (induction n s rule: ia_fill.induct)
  case (1 n s)
  obtain chunk i where rd: "istream_read 4096 (ia_stream s) = (chunk, i)"
    by (cases "istream_read 4096 (ia_stream s)")
  note rest = istream_read_rest [OF rd]
  show ?case
  proof (cases "length (ia_buffer s) < ia_cursor s + n \<and> \<not> ia_stream_ended s")
    case False
    then show ?thesis using 1(2) by (auto simp: ia_fill.simps [of n s])
  next
    case go: True
    show ?thesis
    proof (cases "chunk = []")
      case True
      then have "\<not> istream_good i \<and> istream_rest (ia_stream s) = []"
        using istream_read_empty rd by force
      then show ?thesis using True go rd rest 1(2)
        by (auto simp: ia_fill.simps [of n s] ia_view_def istream_rest_def)
    next
      case False
      let ?t = "s\<lparr>ia_stream := i, ia_buffer := ia_buffer s @ chunk\<rparr>"
      have "ia_view ?t bs k p" using 1(2) rest go by (auto simp: ia_view_def)
      then show ?thesis using 1(1) [OF go rd [symmetric] refl False] False go rd
        by (simp add: ia_fill.simps [of n s])
    qed
  qed
qed

lemma ia_view_buffered:
  assumes "ia_view s bs k p" and "ia_cursor s + n \<le> length (ia_buffer s)"
  shows "ia_view s bs (max n k) p" and "n \<le> length bs"
  using assms by (auto simp: ia_view_def)

lemma ia_view_ended:
  "ia_view s bs k p \<Longrightarrow> ia_stream_ended s \<Longrightarrow>
     n \<le> length bs \<longleftrightarrow> ia_cursor s + n \<le> length (ia_buffer s)"
  by (auto simp: ia_view_def istream_rest_def)

lemma ia_view_window:
  "ia_view s bs k p \<Longrightarrow> n \<le> k \<Longrightarrow>
     ia_cursor s + n \<le> length (ia_buffer s) \<and> take n (drop (ia_cursor s) (ia_buffer s)) = take n bs"
  by (auto simp: ia_view_def)

lemma ia_view_le: "ia_view s bs k p \<Longrightarrow> k \<le> length bs"
  by (auto simp: ia_view_def)

lemma ia_has_view:
  assumes "ia_view s bs k p"
  shows "\<exists>s'. ia_has n s = (n \<le> length bs, s')
    \<and> ia_view s' bs (if n \<le> length bs then max n k else k) p
    \<and> (\<not> n \<le> length bs \<longrightarrow> ia_stream_ended s')"
proof -
  have covered: ?thesis
    if "ia_view t bs k p" "ia_cursor t + n \<le> length (ia_buffer t)" "ia_has n s = (True, t)" for t
    using ia_view_buffered [OF that(1,2)] that(3) by auto
  have ended: ?thesis
    if "ia_view t bs k p" "ia_stream_ended t" "\<not> ia_cursor t + n \<le> length (ia_buffer t)"
      "ia_has n s = (False, t)" for t
    using that ia_view_ended [OF that(1,2), of n] by auto
  define t where "t = ia_fill n s"
  have t: "ia_view t bs k p" "ia_cursor t + n \<le> length (ia_buffer t) \<or> ia_stream_ended t"
    using ia_fill_view [OF assms, of n] by (auto simp: t_def)
  consider "ia_cursor s + n \<le> length (ia_buffer s)"
    | "\<not> ia_cursor s + n \<le> length (ia_buffer s)" "ia_stream_ended s"
    | "\<not> ia_cursor s + n \<le> length (ia_buffer s)" "\<not> ia_stream_ended s"
    by blast
  then show ?thesis
  proof cases
    case 1
    then show ?thesis by (intro covered [of s] assms) (simp_all add: ia_has_def ia_ensure_buffered_def)
  next
    case 2
    then show ?thesis by (intro ended [of s] assms) (simp_all add: ia_has_def ia_ensure_buffered_def)
  next
    case 3
    then have "ia_has n s = (ia_cursor t + n \<le> length (ia_buffer t), t)"
      by (simp add: ia_has_def ia_ensure_buffered_def t_def Let_def)
    then show ?thesis using covered [OF t(1)] ended [OF t(1)] t(2) by fastforce
  qed
qed

lemma ia_compact_view:
  "ia_view s bs k p \<Longrightarrow> \<exists>s'. ia_compact_buffer s = Some s' \<and> ia_view s' bs k p"
  by (auto simp: ia_compact_buffer_def ia_view_def)

lemma ia_advance_view:
  assumes "ia_view s bs k p" "n \<le> k"
  shows "ia_view (s\<lparr>ia_cursor := ia_cursor s + n,
    ia_absolute_position := ia_absolute_position s + n\<rparr>) (drop n bs) (k - n) (p + n)"
  using assms by (auto simp: ia_view_def add.commute)

lemma ia_heavy_view:
  assumes "ia_view s bs k p" "n \<le> k"
  shows "\<exists>s'. heavy_has ndebug ia_has n s = Some s' \<and> ia_view s' bs k p"
proof -
  have "n \<le> length bs" using ia_view_le [OF assms(1)] assms(2) by simp
  moreover from this obtain s' where "ia_has n s = (True, s')" "ia_view s' bs (max n k) p"
    using ia_has_view [OF assms(1), of n] by auto
  ultimately show ?thesis using assms by (simp add: heavy_has_def max_absorb2)
qed

lemma ia_peek_view:
  assumes "ia_view s bs k p" "n \<le> k"
  shows "\<exists>s'. ia_peek ndebug n s = Some (take n bs, s') \<and> ia_view s' bs k p"
proof -
  obtain s' where "heavy_has ndebug ia_has n s = Some s'" and v: "ia_view s' bs k p"
    using ia_heavy_view [OF assms] by blast
  then show ?thesis using ia_view_window [OF v assms(2)] by (simp add: ia_peek_def subspan_def)
qed

lemma ia_peek_range_view:
  assumes "ia_view s bs k p" "left \<le> right" "right \<le> k"
  shows "\<exists>s'. ia_peek_range ndebug left right s = Some (drop left (take right bs), s')
    \<and> ia_view s' bs k p"
proof -
  obtain s' where h: "heavy_has ndebug ia_has right s = Some s'" and v: "ia_view s' bs k p"
    using ia_heavy_view [OF assms(1,3)] by blast
  note w = ia_view_window [OF v assms(3)]
  have "subspan (ia_buffer s') (ia_cursor s' + left) (right - left)
      = Some (drop left (take right bs))"
    using subspan_window [OF assms(2), of "ia_cursor s'" "ia_buffer s'"] w by metis
  then show ?thesis using h v assms(2) by (simp add: ia_peek_range_def)
qed

lemma ia_take_view:
  assumes "ia_view s bs k p" "n \<le> k" "n \<le> out_size"
  shows "\<exists>s'. ia_take ndebug n out_size s = Some (take n bs, s')
    \<and> ia_view s' (drop n bs) (k - n) (p + n)"
proof -
  obtain s' where pk: "ia_peek ndebug n s = Some (take n bs, s')" and v: "ia_view s' bs k p"
    using ia_peek_view [OF assms(1,2)] by blast
  obtain t where "ia_compact_buffer (s'\<lparr>ia_cursor := ia_cursor s' + n,
       ia_absolute_position := ia_absolute_position s' + n\<rparr>) = Some t"
    "ia_view t (drop n bs) (k - n) (p + n)"
    using ia_compact_view [OF ia_advance_view [OF v assms(2)]] by blast
  then show ?thesis using pk assms(3) by (simp add: ia_take_def)
qed

lemma ia_skip_view:
  assumes "ia_view s bs k p" "n \<le> k"
  shows "\<exists>s'. ia_skip ndebug n s = Some s' \<and> ia_view s' (drop n bs) (k - n) (p + n)"
proof -
  obtain s' where h: "heavy_has ndebug ia_has n s = Some s'" and v: "ia_view s' bs k p"
    using ia_heavy_view [OF assms] by blast
  show ?thesis using ia_compact_view [OF ia_advance_view [OF v assms(2)]] h
    by (simp add: ia_skip_def)
qed

lemma ia_end_ended:
  "ia_view s bs k p \<Longrightarrow> ia_stream_ended s \<Longrightarrow> ia_cursor s = length (ia_buffer s) \<longleftrightarrow> bs = []"
  by (auto simp: ia_view_def istream_rest_def)

lemma ia_end_view:
  assumes "ia_view s bs k p"
  shows "\<exists>s'. ia_end s = (bs = [], s') \<and> ia_view s' bs k p"
proof (cases "ia_stream_ended s")
  case True
  then show ?thesis using ia_end_ended [OF assms True] assms by (simp add: ia_end_def)
next
  case False
  obtain s' where h: "ia_has 1 s = (1 \<le> length bs, s')"
    and v: "ia_view s' bs (if 1 \<le> length bs then max 1 k else k) p"
    and e: "\<not> 1 \<le> length bs \<longrightarrow> ia_stream_ended s'"
    using ia_has_view [OF assms, of 1] by blast
  have v': "ia_view s' bs k p" using v by (auto simp: ia_view_def split: if_splits)
  have "(ia_stream_ended s' \<and> ia_cursor s' = length (ia_buffer s')) = (bs = [])"
    using e ia_end_ended [OF v'] by (cases bs) auto
  then show ?thesis using False h v' by (simp add: ia_end_def)
qed

interpretation istream: stream_adapter "istream_ops ndebug" ia_view for ndebug
proof (unfold_locales, goal_cases)
  case (1 s bs k p j)
  then show ?case by (auto simp: ia_view_def)
next
  case (2 s bs k p)
  then show ?case by (rule ia_view_le)
next
  case (3 s bs k p n)
  then show ?case using ia_has_view [of s bs k p n] by (auto simp: istream_ops_def)
next
  case 4
  then show ?case by (simp add: istream_ops_def ia_peek_view)
next
  case 5
  then show ?case by (simp add: istream_ops_def ia_peek_range_view)
next
  case 6
  then show ?case by (simp add: istream_ops_def ia_take_view)
next
  case 7
  then show ?case by (simp add: istream_ops_def ia_skip_view)
next
  case 8
  then show ?case by (simp add: istream_ops_def ia_position_def ia_view_def)
next
  case 9
  then show ?case by (simp add: istream_ops_def ia_end_view)
qed

lemma istream_adapter_new_view: "ia_view (istream_adapter_new (istream_of bs)) bs 0 0"
  by (simp add: ia_view_def istream_adapter_new_def istream_of_def istream_rest_def
      istream_good_def)

end
