(* ===== verification/Buffer.thy ===== *)
theory Buffer
  imports Stream_Adapter
begin

text \<open>
  \<open>WriteBuffer\<close> and \<open>ReadBuffer\<close> (\<open>include/corertt/buffer.h\<close>, \<open>src/buffer.cpp\<close>): little-endian
  integers over a byte vector and over a \<open>StreamAdapter\<close>. A write buffer is the list of its
  bytes; a read buffer is the adapter it refers to (its scratch vector only backs the span that
  \<open>readBytes\<close> returns). The last part proves, inside the locale \<open>stream_adapter\<close>, that each
  read over any adapter does what the read over the plain list of bytes does.
\<close>

subsection \<open>\<open>WriteBuffer\<close>\<close>

type_synonym write_buffer = "byte list"

definition writeU8 :: "u8 \<Rightarrow> write_buffer \<Rightarrow> write_buffer" where
  "writeU8 value b = b @ [value]"

definition writeI8 :: "8 word \<Rightarrow> write_buffer \<Rightarrow> write_buffer" where
  "writeI8 value b = writeU8 value b"

definition writeU16 :: "u16 \<Rightarrow> write_buffer \<Rightarrow> write_buffer" where
  "writeU16 value b = b @ [ucast (value AND 0xFF), ucast (drop_bit 8 value AND 0xFF)]"

definition writeI16 :: "16 word \<Rightarrow> write_buffer \<Rightarrow> write_buffer" where
  "writeI16 value b = writeU16 value b"

definition u32_bytes :: "u32 \<Rightarrow> byte list" where
  "u32_bytes value = [ucast (value AND 0xFF), ucast (drop_bit 8 value AND 0xFF),
     ucast (drop_bit 16 value AND 0xFF), ucast (drop_bit 24 value AND 0xFF)]"

definition writeU32 :: "u32 \<Rightarrow> write_buffer \<Rightarrow> write_buffer" where
  "writeU32 value b = b @ u32_bytes value"

definition writeI32 :: "32 word \<Rightarrow> write_buffer \<Rightarrow> write_buffer" where
  "writeI32 value b = writeU32 value b"

definition writeBytes :: "byte list \<Rightarrow> write_buffer \<Rightarrow> write_buffer" where
  "writeBytes bs b = b @ bs"

text \<open>\<open>patchU32\<close> overwrites four bytes that are already in the buffer.\<close>

definition patchU32 :: "nat \<Rightarrow> u32 \<Rightarrow> write_buffer \<Rightarrow> write_buffer option" where
  "patchU32 off value b = do {
     fail_fast_assert (off + 4 \<le> length b);
     Some (b[off := u32_bytes value ! 0, off + 1 := u32_bytes value ! 1,
             off + 2 := u32_bytes value ! 2, off + 3 := u32_bytes value ! 3])
   }"

lemmas write_defs = writeU8_def writeI8_def writeU16_def writeI16_def writeU32_def writeI32_def
  writeBytes_def

lemma length_u32_bytes [simp]: "length (u32_bytes v) = 4"
  by (simp add: u32_bytes_def)

text \<open>Patching the placeholder written before the payload puts the value there.\<close>

lemma patchU32_placeholder:
  "patchU32 (length b) v (b @ u32_bytes w @ payload) = Some (b @ u32_bytes v @ payload)"
  by (simp add: patchU32_def u32_bytes_def list_update_append)

subsection \<open>\<open>ReadBuffer\<close>\<close>

definition rb_has :: "'s stream_ops \<Rightarrow> nat \<Rightarrow> 's \<Rightarrow> bool \<times> 's" where
  "rb_has ops n s = so_has ops n s"

definition rb_require :: "'s stream_ops \<Rightarrow> nat \<Rightarrow> 's \<Rightarrow> 's option" where
  "rb_require ops n s = heavy_has (so_ndebug ops) (rb_has ops) n s"

definition readU8 :: "'s stream_ops \<Rightarrow> 's \<Rightarrow> (u8 \<times> 's) option" where
  "readU8 ops s = do {
     s \<leftarrow> rb_require ops 1 s;
     (bytes, s) \<leftarrow> so_peek ops 1 s;
     s \<leftarrow> so_skip ops 1 s;
     Some (bytes ! 0, s)
   }"

definition readI8 :: "'s stream_ops \<Rightarrow> 's \<Rightarrow> (8 word \<times> 's) option" where
  "readI8 ops s = readU8 ops s"

definition u16_of_bytes :: "byte list \<Rightarrow> u16" where
  "u16_of_bytes bytes = ucast (bytes ! 0) OR push_bit 8 (ucast (bytes ! 1))"

definition readU16 :: "'s stream_ops \<Rightarrow> 's \<Rightarrow> (u16 \<times> 's) option" where
  "readU16 ops s = do {
     s \<leftarrow> rb_require ops 2 s;
     (bytes, s) \<leftarrow> so_peek ops 2 s;
     s \<leftarrow> so_skip ops 2 s;
     Some (u16_of_bytes bytes, s)
   }"

definition readI16 :: "'s stream_ops \<Rightarrow> 's \<Rightarrow> (16 word \<times> 's) option" where
  "readI16 ops s = readU16 ops s"

definition u32_of_bytes :: "byte list \<Rightarrow> u32" where
  "u32_of_bytes bytes = ucast (bytes ! 0) OR push_bit 8 (ucast (bytes ! 1))
     OR push_bit 16 (ucast (bytes ! 2)) OR push_bit 24 (ucast (bytes ! 3))"

definition readU32 :: "'s stream_ops \<Rightarrow> 's \<Rightarrow> (u32 \<times> 's) option" where
  "readU32 ops s = do {
     s \<leftarrow> rb_require ops 4 s;
     (bytes, s) \<leftarrow> so_peek ops 4 s;
     s \<leftarrow> so_skip ops 4 s;
     Some (u32_of_bytes bytes, s)
   }"

definition readI32 :: "'s stream_ops \<Rightarrow> 's \<Rightarrow> (32 word \<times> 's) option" where
  "readI32 ops s = readU32 ops s"

definition rb_peek :: "'s stream_ops \<Rightarrow> nat \<Rightarrow> 's \<Rightarrow> (byte list \<times> 's) option" where
  "rb_peek ops n s = do {
     s \<leftarrow> rb_require ops n s;
     so_peek ops n s
   }"

definition rb_peek_range :: "'s stream_ops \<Rightarrow> nat \<Rightarrow> nat \<Rightarrow> 's \<Rightarrow> (byte list \<times> 's) option" where
  "rb_peek_range ops left right s = do {
     fail_fast_assert (left \<le> right);
     s \<leftarrow> rb_require ops right s;
     so_peek_range ops left right s
   }"

definition readBytes :: "'s stream_ops \<Rightarrow> nat \<Rightarrow> 's \<Rightarrow> (byte list \<times> 's) option" where
  "readBytes ops n s = do {
     s \<leftarrow> rb_require ops n s;
     so_take ops n n s
   }"

definition rb_take :: "'s stream_ops \<Rightarrow> nat \<Rightarrow> nat \<Rightarrow> 's \<Rightarrow> (byte list \<times> 's) option" where
  "rb_take ops n out_size s = do {
     s \<leftarrow> rb_require ops n s;
     fail_fast_assert (n \<le> out_size);
     so_take ops n out_size s
   }"

definition rb_skip :: "'s stream_ops \<Rightarrow> nat \<Rightarrow> 's \<Rightarrow> 's option" where
  "rb_skip ops n s = do {
     s \<leftarrow> rb_require ops n s;
     so_skip ops n s
   }"

definition rb_position :: "'s stream_ops \<Rightarrow> 's \<Rightarrow> nat" where
  "rb_position ops s = so_position ops s"

definition rb_end :: "'s stream_ops \<Rightarrow> 's \<Rightarrow> bool \<times> 's" where
  "rb_end ops s = so_end ops s"

subsection \<open>Little-endian round trips\<close>

lemma u16_bytes_roundtrip:
  "u16_of_bytes (ucast (v AND 0xFF) # ucast (drop_bit 8 v AND 0xFF) # bs) = v"
proof (rule bit_word_eqI)
  fix n :: nat
  assume "n < LENGTH(16)"
  then show "bit (u16_of_bytes (ucast (v AND 0xFF) # ucast (drop_bit 8 v AND 0xFF) # bs)) n = bit v n"
    by (cases "n < 8") (auto simp: u16_of_bytes_def and_255 bit_simps)
qed

lemma u32_bytes_roundtrip: "u32_of_bytes (u32_bytes v @ bs) = v"
proof (rule bit_word_eqI)
  fix n :: nat
  assume "n < LENGTH(32)"
  then consider "n < 8" | "8 \<le> n" "n < 16" | "16 \<le> n" "n < 24" | "24 \<le> n" "n < 32"
    by fastforce
  then show "bit (u32_of_bytes (u32_bytes v @ bs)) n = bit v n"
    by cases (auto simp: u32_of_bytes_def u32_bytes_def and_255 bit_simps)
qed

subsection \<open>The reference reader\<close>

text \<open>
  The adapter whose state is just the list of bytes still to read, in a build that checks
  nothing twice. Decoders are evaluated on it, and \<open>read_rel\<close> carries the result to every
  adapter: whatever the reader over the list returns, the reader over the adapter returns too,
  and is left in a state with the same bytes to read, \<open>k a\<close> of them buffered.
\<close>

definition list_ops :: "byte list stream_ops" where
  "list_ops =
     \<lparr>so_ndebug = True,
      so_has = (\<lambda>n bs. (n \<le> length bs, bs)),
      so_peek = (\<lambda>n bs. if n \<le> length bs then Some (take n bs, bs) else None),
      so_peek_range = (\<lambda>l r bs. if l \<le> r \<and> r \<le> length bs then Some (drop l (take r bs), bs) else None),
      so_take = (\<lambda>n out bs. if n \<le> length bs \<and> n \<le> out then Some (take n bs, drop n bs) else None),
      so_skip = (\<lambda>n bs. if n \<le> length bs then Some (drop n bs) else None),
      so_position = (\<lambda>_. 0),
      so_end = (\<lambda>bs. (bs = [], bs))\<rparr>"

definition read_rel ::
  "('s \<Rightarrow> byte list \<Rightarrow> nat \<Rightarrow> nat \<Rightarrow> bool) \<Rightarrow> ('a \<Rightarrow> nat) \<Rightarrow> ('a \<times> 's) option
   \<Rightarrow> ('a \<times> byte list) option \<Rightarrow> bool" where
  "read_rel view k r r' \<longleftrightarrow>
     (\<forall>a bs. r' = Some (a, bs) \<longrightarrow> (\<exists>s p. r = Some (a, s) \<and> view s bs (k a) p))"

lemma list_has [simp]: "rb_has list_ops n bs = (n \<le> length bs, bs)"
  by (simp add: rb_has_def list_ops_def)

lemma list_require [simp]: "rb_require list_ops n bs = Some bs"
  by (simp add: rb_require_def heavy_has_def list_ops_def)

lemma list_readU8 [simp]: "readU8 list_ops (b # bs) = Some (b, bs)"
  by (simp add: readU8_def) (simp add: list_ops_def)

lemma list_readU16_bytes:
  "readU16 list_ops bs = (if 2 \<le> length bs then Some (u16_of_bytes bs, drop 2 bs) else None)"
  by (simp add: readU16_def) (auto simp: list_ops_def u16_of_bytes_def)

lemma list_readU32_bytes:
  "readU32 list_ops bs = (if 4 \<le> length bs then Some (u32_of_bytes bs, drop 4 bs) else None)"
  by (simp add: readU32_def) (auto simp: list_ops_def u32_of_bytes_def)

lemma list_readBytes [simp]:
  "readBytes list_ops n bs = (if n \<le> length bs then Some (take n bs, drop n bs) else None)"
  by (simp add: readBytes_def) (simp add: list_ops_def)

lemma list_skip [simp]:
  "rb_skip list_ops n bs = (if n \<le> length bs then Some (drop n bs) else None)"
  by (simp add: rb_skip_def) (simp add: list_ops_def)

lemma list_peek [simp]:
  "rb_peek list_ops n bs = (if n \<le> length bs then Some (take n bs, bs) else None)"
  by (simp add: rb_peek_def) (simp add: list_ops_def)

lemma list_end [simp]: "rb_end list_ops bs = (bs = [], bs)"
  by (simp add: rb_end_def list_ops_def)

text \<open>What a write puts in front of the rest, the matching read takes back.\<close>

lemma list_readU16 [simp]:
  "readU16 list_ops (ucast (v AND 0xFF) # ucast (drop_bit 8 v AND 0xFF) # bs) = Some (v, bs)"
  by (simp add: list_readU16_bytes u16_bytes_roundtrip)

lemma list_readU32 [simp]: "readU32 list_ops (u32_bytes v @ bs) = Some (v, bs)"
  by (simp add: list_readU32_bytes u32_bytes_roundtrip)

lemma read_rel_Some:
  "view s bs (k a) p \<Longrightarrow> read_rel view k (Some (a, s)) (Some (a, bs))"
  by (auto simp: read_rel_def)

lemma read_rel_None [simp]: "read_rel view k r None"
  by (simp add: read_rel_def)

lemma read_rel_bind:
  assumes "read_rel view k m m'"
    and "\<And>a s bs p. view s bs (k a) p \<Longrightarrow> read_rel view j (f a s) (f' a bs)"
  shows "read_rel view j (m \<bind> (\<lambda>(a, s). f a s)) (m' \<bind> (\<lambda>(a, bs). f' a bs))"
  using assms by (fastforce simp: read_rel_def bind_eq_Some_conv)

lemma read_relD:
  "read_rel view k r (Some (a, bs)) \<Longrightarrow> \<exists>s p. r = Some (a, s) \<and> view s bs (k a) p"
  by (auto simp: read_rel_def)

context stream_adapter
begin

lemma require_view:
  assumes "view s bs k p" "n \<le> k"
  shows "\<exists>s'. rb_require ops n s = Some s' \<and> view s' bs k p"
proof -
  have "n \<le> length bs" using view_length [OF assms(1)] assms(2) by simp
  then obtain s' where "so_has ops n s = (True, s')" "view s' bs (max n k) p"
    using has_view [OF assms(1), of n] by auto
  then show ?thesis using assms by (simp add: rb_require_def heavy_has_def rb_has_def max_absorb2)
qed

lemma peek_skip_view:
  assumes "view s bs k p" "n \<le> k"
  shows "\<exists>s1 s2 s3. rb_require ops n s = Some s1 \<and> so_peek ops n s1 = Some (take n bs, s2)
    \<and> so_skip ops n s2 = Some s3 \<and> view s3 (drop n bs) (k - n) (p + n)"
  using require_view [OF assms] peek_view skip_view assms(2) by metis

lemma readU8_view:
  "view s bs k p \<Longrightarrow> 1 \<le> k \<Longrightarrow>
     read_rel view (\<lambda>_. k - 1) (readU8 ops s) (readU8 list_ops bs)"
  using peek_skip_view [of s bs k p 1] view_length [of s bs k p]
  by (cases bs) (auto simp: readU8_def [of ops] read_rel_def)

lemma readU16_view:
  "view s bs k p \<Longrightarrow> 2 \<le> k \<Longrightarrow>
     read_rel view (\<lambda>_. k - 2) (readU16 ops s) (readU16 list_ops bs)"
  using peek_skip_view [of s bs k p 2]
  by (auto simp: readU16_def [of ops] list_readU16_bytes read_rel_def u16_of_bytes_def)

lemma readU32_view:
  "view s bs k p \<Longrightarrow> 4 \<le> k \<Longrightarrow>
     read_rel view (\<lambda>_. k - 4) (readU32 ops s) (readU32 list_ops bs)"
  using peek_skip_view [of s bs k p 4]
  by (auto simp: readU32_def [of ops] list_readU32_bytes read_rel_def u32_of_bytes_def)

lemma readBytes_view:
  assumes "view s bs k p" "n \<le> k"
  shows "read_rel view (\<lambda>_. k - n) (readBytes ops n s) (readBytes list_ops n bs)"
proof -
  obtain s1 where 1: "rb_require ops n s = Some s1" "view s1 bs k p"
    using require_view [OF assms] by blast
  obtain s2 where "so_take ops n n s1 = Some (take n bs, s2)" "view s2 (drop n bs) (k - n) (p + n)"
    using take_view [OF 1(2) assms(2) order.refl] by blast
  with 1 show ?thesis by (auto simp: readBytes_def [of ops] read_rel_def)
qed

lemma rb_peek_view:
  assumes "view s bs k p" "n \<le> k"
  shows "read_rel view (\<lambda>_. k) (rb_peek ops n s) (rb_peek list_ops n bs)"
proof -
  obtain s1 where 1: "rb_require ops n s = Some s1" "view s1 bs k p"
    using require_view [OF assms] by blast
  obtain s2 where "so_peek ops n s1 = Some (take n bs, s2)" "view s2 bs k p"
    using peek_view [OF 1(2) assms(2)] by blast
  with 1 show ?thesis by (auto simp: rb_peek_def [of ops] read_rel_def)
qed

lemma rb_skip_view:
  assumes "view s bs k p" "n \<le> k"
    and "\<And>s'. view s' (drop n bs) (k - n) (p + n) \<Longrightarrow> read_rel view j (f s') (f' (drop n bs))"
  shows "read_rel view j (rb_skip ops n s \<bind> f) (rb_skip list_ops n bs \<bind> f')"
proof -
  obtain s1 where 1: "rb_require ops n s = Some s1" "view s1 bs k p"
    using require_view [OF assms(1,2)] by blast
  obtain s2 where "so_skip ops n s1 = Some s2" "view s2 (drop n bs) (k - n) (p + n)"
    using skip_view [OF 1(2) assms(2)] by blast
  with 1 assms(3) show ?thesis by (simp add: rb_skip_def [of ops])
qed

lemma rb_has_view:
  assumes "view s bs k p"
    and "\<And>s'. view s' bs (if n \<le> length bs then max n k else k) p \<Longrightarrow>
      read_rel view j (f (n \<le> length bs) s') (f' (n \<le> length bs) bs)"
  shows "read_rel view j (let (ok, s) = rb_has ops n s in f ok s)
    (let (ok, bs) = rb_has list_ops n bs in f' ok bs)"
  using has_view [OF assms(1), of n] assms(2) by (auto simp: rb_has_def [of ops])

end

end
