(* ===== verification/Tile_Codec.thy ===== *)
theory Tile_Codec
  imports Prelude
begin

text \<open>
  One tile as a packed byte (\<open>include/corertt/tile_codec.h\<close>, \<open>src/tile_codec.cpp\<close>): two bits of
  terrain, two of side, one each for resource and base, the top two reserved. Both the replay
  header and the binary map file store tiles this way.
\<close>

record tile_flags =
  tf_terrain :: u8
  tf_side :: u8
  tf_is_resource :: bool
  tf_is_base :: bool

definition tile_pack :: "tile_flags \<Rightarrow> u8" where
  "tile_pack tile =
     (tf_terrain tile AND 0b11)
     OR push_bit 2 (tf_side tile AND 0b11)
     OR (if tf_is_resource tile then 0b00010000 else 0)
     OR (if tf_is_base tile then 0b00100000 else 0)"

definition tile_unpack :: "u8 \<Rightarrow> tile_flags" where
  "tile_unpack packed =
     \<lparr>tf_terrain = packed AND 0b11,
      tf_side = drop_bit 2 packed AND 0b11,
      tf_is_resource = (packed AND 0b00010000 \<noteq> 0),
      tf_is_base = (packed AND 0b00100000 \<noteq> 0)\<rparr>"

text \<open>The values the two-bit fields can hold.\<close>

definition tile_flags_wf :: "tile_flags \<Rightarrow> bool" where
  "tile_flags_wf f \<longleftrightarrow> tf_terrain f < 4 \<and> tf_side f < 4"

lemma u8_less_4: "(x :: u8) < 4 \<Longrightarrow> x = 0 \<or> x = 1 \<or> x = 2 \<or> x = 3"
proof -
  assume "x < 4"
  then have "unat x < 4" by (simp add: word_less_nat_alt)
  then have "unat x = 0 \<or> unat x = 1 \<or> unat x = 2 \<or> unat x = 3" by arith
  then show ?thesis by (simp add: word_unat_eq_iff)
qed

lemma and_3_less_4: "(x AND 3 :: u8) < 4"
proof -
  have "x AND 3 \<le> (3 :: u8)" by (rule word_and_le1)
  then show ?thesis by (rule order.strict_trans1) simp
qed

lemma tile_unpack_wf: "tile_flags_wf (tile_unpack b)"
  by (simp add: tile_flags_wf_def tile_unpack_def and_3_less_4)

lemma tile_unpack_pack: "tile_flags_wf f \<Longrightarrow> tile_unpack (tile_pack f) = f"
  by (cases f) (auto simp: tile_flags_wf_def tile_pack_def tile_unpack_def dest!: u8_less_4)

text \<open>Only the two reserved bits are lost.\<close>

lemma tile_pack_unpack: "tile_pack (tile_unpack b) = b AND 0b00111111"
proof (rule bit_word_eqI)
  fix n :: nat
  have m: "(3 :: u8) = mask 2" "(63 :: u8) = mask 6"
    by (simp_all add: mask_eq_exp_minus_1)
  have flags: "b AND 16 = 0 \<longleftrightarrow> \<not> bit b 4" "b AND 32 = 0 \<longleftrightarrow> \<not> bit b 5"
    using and_exp_eq_0_iff_not_bit [of b 4] and_exp_eq_0_iff_not_bit [of b 5] by simp_all
  assume n: "n < LENGTH(8)"
  then have "n = 0 \<or> n = 1 \<or> n = 2 \<or> n = 3 \<or> n = 4 \<or> n = 5 \<or> n = 6 \<or> n = 7" by auto
  then show "bit (tile_pack (tile_unpack b)) n = bit (b AND 0b00111111) n"
    unfolding tile_pack_def tile_unpack_def m
    by (elim disjE) (simp_all add: bit_simps flags)
qed

end
