(* ===== verification/Game_Rules.thy ===== *)
theory Game_Rules
  imports Prelude
begin

text \<open>
  The configurable parameters of a match (\<open>include/corertt/game_rules.h\<close>,
  \<open>src/game_rules.cpp\<close>), with their widths and default values.
\<close>

type_synonym energy_t = u16
type_synonym health_t = u8

text \<open>
  Positions are \<open>std::int16_t\<close> in the program. The sizes of a map are positions themselves and a step
  changes a coordinate by one, so no position ever leaves $[-1, 32767]$: they are modelled as
  \<open>int\<close>, where the \<open>int16\<close> arithmetic is exact.
\<close>

type_synonym pos_t = int

record game_rules =
  gr_width :: u8
  gr_height :: u8
  gr_base_size :: u8
  gr_unit_health :: health_t
  gr_natural_energy_rate :: u8
  gr_resource_zone_energy_rate :: u8
  gr_attack_cooldown :: u8
  gr_capture_turn_threshold :: u8
  gr_vision_lv1 :: u8
  gr_vision_lv2 :: u8
  gr_capacity_lv1 :: energy_t
  gr_capacity_lv2 :: energy_t
  gr_capacity_upgrade_cost :: energy_t
  gr_vision_upgrade_cost :: energy_t
  gr_damage_upgrade_cost :: energy_t
  gr_manufact_cost :: energy_t

definition default_rules :: game_rules where
  "default_rules =
     \<lparr>gr_width = 64, gr_height = 64, gr_base_size = 5, gr_unit_health = 100,
      gr_natural_energy_rate = 1, gr_resource_zone_energy_rate = 25, gr_attack_cooldown = 3,
      gr_capture_turn_threshold = 8, gr_vision_lv1 = 5, gr_vision_lv2 = 9,
      gr_capacity_lv1 = 200, gr_capacity_lv2 = 1000, gr_capacity_upgrade_cost = 400,
      gr_vision_upgrade_cost = 1000, gr_damage_upgrade_cost = 600, gr_manufact_cost = 500\<rparr>"

definition isInRange :: "'a :: linorder \<Rightarrow> 'a \<Rightarrow> 'a \<Rightarrow> bool" where
  "isInRange value min_value max_value \<longleftrightarrow> value \<ge> min_value \<and> value \<le> max_value"

definition rules_validate :: "game_rules \<Rightarrow> bool" where
  "rules_validate r \<longleftrightarrow>
     isInRange (gr_width r) 4 255
     \<and> isInRange (gr_height r) 4 255
     \<and> isInRange (gr_base_size r) 2 8
     \<and> isInRange (gr_unit_health r) 1 255
     \<and> isInRange (ucast (gr_natural_energy_rate r) :: u32) 1 255
     \<and> isInRange (ucast (gr_resource_zone_energy_rate r) :: energy_t) 1 255
     \<and> isInRange (gr_attack_cooldown r) 1 255
     \<and> isInRange (gr_capture_turn_threshold r) 1 255
     \<and> isInRange (gr_vision_lv1 r) 1 255
     \<and> isInRange (gr_vision_lv2 r) 1 255
     \<and> isInRange (gr_capacity_lv1 r) 1 65535
     \<and> isInRange (gr_capacity_lv2 r) 1 65535
     \<and> isInRange (gr_capacity_upgrade_cost r) 1 65535
     \<and> isInRange (gr_vision_upgrade_cost r) 1 65535
     \<and> isInRange (gr_damage_upgrade_cost r) 1 65535
     \<and> isInRange (gr_manufact_cost r) 1 65535
     \<and> gr_capacity_lv2 r \<ge> gr_capacity_lv1 r \<and> gr_vision_lv2 r \<ge> gr_vision_lv1 r"

lemma default_rules_valid: "rules_validate default_rules"
  by (simp add: rules_validate_def default_rules_def isInRange_def)

text \<open>What the simulation uses of validated rules.\<close>

lemma rules_validate_nonzero:
  assumes "rules_validate r"
  shows "0 < gr_unit_health r" "0 < gr_natural_energy_rate r" "0 < gr_capture_turn_threshold r"
    "0 < gr_vision_lv1 r" "0 < gr_vision_lv2 r" "0 < gr_base_size r" "0 < gr_attack_cooldown r"
    "gr_capacity_lv1 r \<le> gr_capacity_lv2 r"
proof -
  have *: "0 < x" if "1 \<le> x" for x :: u8
    using that by (metis word_gt_0 word_le_0_iff zero_neq_one)
  have "(1 :: u8) \<le> gr_base_size r" using assms
    by (auto simp: rules_validate_def isInRange_def intro: order.trans [of 1 2])
  moreover have "gr_natural_energy_rate r \<noteq> 0"
    using assms by (auto simp: rules_validate_def isInRange_def)
  ultimately show "0 < gr_unit_health r" "0 < gr_natural_energy_rate r" "0 < gr_capture_turn_threshold r"
    "0 < gr_vision_lv1 r" "0 < gr_vision_lv2 r" "0 < gr_base_size r" "0 < gr_attack_cooldown r"
    "gr_capacity_lv1 r \<le> gr_capacity_lv2 r"
    using assms * by (auto simp: rules_validate_def isInRange_def word_gt_0)
qed

end
