(* ===== verification/Replay_Log.thy ===== *)
theory Replay_Log
  imports Prelude
begin

text \<open>
  The log entries a tick records (\<open>ReplayLogEntry\<close> in \<open>include/corertt/replay.h\<close> and
  \<open>src/replay.cpp\<close>), the stop reasons of a sandboxed program (\<open>include/corertt/runtime.h\<close>), and
  the rendering of an entry as text lines (\<open>FormatReplayLogEntryLines\<close>).
\<close>

subsection \<open>Stop reasons\<close>

datatype stopped_reason =
    NOT_STOPPED
  | ABORTED
  | PAGE_PROTECTION_FAULT
  | ALIGNMENT_FAULT
  | ILLEGAL_INSTRUCTION
  | OUT_OF_MEMORY
  | INVALID_PROGRAM
  | UNKNOWN_EXCEPTION

fun stopped_reason_string :: "stopped_reason \<Rightarrow> string" where
  "stopped_reason_string NOT_STOPPED = ''NOT_STOPPED''"
| "stopped_reason_string ABORTED = ''ABORTED''"
| "stopped_reason_string PAGE_PROTECTION_FAULT = ''PAGE_PROTECTION_FAULT''"
| "stopped_reason_string ALIGNMENT_FAULT = ''ALIGNMENT_FAULT''"
| "stopped_reason_string ILLEGAL_INSTRUCTION = ''ILLEGAL_INSTRUCTION''"
| "stopped_reason_string OUT_OF_MEMORY = ''OUT_OF_MEMORY''"
| "stopped_reason_string INVALID_PROGRAM = ''INVALID_PROGRAM''"
| "stopped_reason_string UNKNOWN_EXCEPTION = ''UNKNOWN_EXCEPTION''"

subsection \<open>Log entries\<close>

datatype log_source = SourceSystem | SourcePlayer

datatype log_type =
    LogCustom
  | LogUnitCreation
  | LogUnitDestruction
  | LogExecutionException
  | LogBaseCaptured

record log_entry =
  le_tick :: u32
  le_player_id :: u8
  le_unit_id :: u8
  le_source :: log_source
  le_type :: log_type
  le_payload :: "byte list"

definition toBytes :: "string \<Rightarrow> byte list" where
  "toBytes text = map of_char text"

definition customLog :: "u32 \<Rightarrow> u8 \<Rightarrow> u8 \<Rightarrow> nat \<Rightarrow> log_entry" where
  "customLog tick player_id unit_id n =
     \<lparr>le_tick = tick, le_player_id = player_id, le_unit_id = unit_id,
      le_source = SourcePlayer, le_type = LogCustom, le_payload = replicate n 0\<rparr>"

definition unitCreationLog :: "u32 \<Rightarrow> u8 \<Rightarrow> u8 \<Rightarrow> log_entry" where
  "unitCreationLog tick player_id unit_id =
     \<lparr>le_tick = tick, le_player_id = player_id, le_unit_id = unit_id,
      le_source = SourceSystem, le_type = LogUnitCreation, le_payload = toBytes ''Unit created''\<rparr>"

definition unitDestructionLog :: "u32 \<Rightarrow> u8 \<Rightarrow> u8 \<Rightarrow> log_entry" where
  "unitDestructionLog tick player_id unit_id =
     \<lparr>le_tick = tick, le_player_id = player_id, le_unit_id = unit_id,
      le_source = SourceSystem, le_type = LogUnitDestruction,
      le_payload = toBytes ''Unit destroyed''\<rparr>"

definition executionExceptionLog :: "u32 \<Rightarrow> u8 \<Rightarrow> u8 \<Rightarrow> stopped_reason \<Rightarrow> log_entry option" where
  "executionExceptionLog tick player_id unit_id reason = do {
     fail_fast_assert (stopped_reason_string reason \<noteq> []);
     Some \<lparr>le_tick = tick, le_player_id = player_id, le_unit_id = unit_id,
       le_source = SourceSystem, le_type = LogExecutionException,
       le_payload = toBytes (stopped_reason_string reason)\<rparr>
   }"

definition baseCapturedLog :: "u32 \<Rightarrow> u8 \<Rightarrow> log_entry option" where
  "baseCapturedLog tick winner_player_id = do {
     fail_fast_assert (\<not> (winner_player_id = 0 \<or> winner_player_id > 2));
     Some \<lparr>le_tick = tick, le_player_id = 3 - winner_player_id, le_unit_id = 0,
       le_source = SourceSystem, le_type = LogBaseCaptured,
       le_payload = toBytes ([''Base captured, player 1 wins'', ''Base captured, player 2 wins'']
                       ! (unat winner_player_id - 1))\<rparr>
   }"

lemma executionExceptionLog_Some [simp]:
  "executionExceptionLog t p u r =
     Some \<lparr>le_tick = t, le_player_id = p, le_unit_id = u, le_source = SourceSystem,
       le_type = LogExecutionException, le_payload = toBytes (stopped_reason_string r)\<rparr>"
  by (cases r) (simp_all add: executionExceptionLog_def)

lemma system_payload_bound:
  "length (le_payload (unitCreationLog t p u)) \<le> 512"
  "length (le_payload (unitDestructionLog t p u)) \<le> 512"
  "executionExceptionLog t p u r = Some e \<Longrightarrow> length (le_payload e) \<le> 512"
  by (cases r; auto simp: unitCreationLog_def unitDestructionLog_def toBytes_def)+

subsection \<open>Text rendering\<close>

text \<open>\<open>std::format("{}")\<close> of a number, and \<open>"{:0n}"\<close>.\<close>

definition dec_char :: "nat \<Rightarrow> char" where
  "dec_char d = ''0123456789'' ! d"

fun dec_digits :: "nat \<Rightarrow> string" where
  "dec_digits n = (if n < 10 then [dec_char n] else dec_digits (n div 10) @ [dec_char (n mod 10)])"

declare dec_digits.simps [simp del]

definition dec_padded :: "nat \<Rightarrow> nat \<Rightarrow> string" where
  "dec_padded n v = (let d = dec_digits v in replicate (n - length d) CHR ''0'' @ d)"

definition computePrefix :: "log_entry \<Rightarrow> string" where
  "computePrefix e =
     (let dev_name = (if le_unit_id e = 0 then ''base'' else dec_padded 2 (unat (le_unit_id e)))
      in ''['' @ dec_padded 4 (unat (le_tick e)) @ '' P'' @ dec_digits (unat (le_player_id e))
         @ ''-'' @ dev_name @ '' '' @ (case le_source e of SourceSystem \<Rightarrow> ''SYS'' | SourcePlayer \<Rightarrow> ''USR'')
         @ ''] '')"

text \<open>
  \<open>buildCurrentLine\<close> appends to the current line until a newline, which it consumes, or the end
  of the payload. Tabs, carriage returns and the printable characters of the "C" locale are kept,
  every other byte becomes \<open>\x\<close> and two upper-case digits.
\<close>

definition byte_isprint :: "byte \<Rightarrow> bool" where
  "byte_isprint ch \<longleftrightarrow> 0x20 \<le> ch \<and> ch \<le> 0x7E"

definition hex_upper :: "nat \<Rightarrow> char" where
  "hex_upper d = ''0123456789ABCDEF'' ! d"

definition escape_byte :: "byte \<Rightarrow> string" where
  "escape_byte ch =
     (if ch = 9 \<or> ch = 13 \<or> byte_isprint ch then [char_of (unat ch)]
      else [CHR 0x5C, CHR ''x'', hex_upper (unat ch div 16), hex_upper (unat ch mod 16)])"

fun build_line :: "string \<Rightarrow> byte list \<Rightarrow> string \<times> byte list" where
  "build_line cur [] = (cur, [])"
| "build_line cur (ch # rest) =
     (if ch = 10 then (cur, rest) else build_line (cur @ escape_byte ch) rest)"

lemma build_line_length: "length (snd (build_line cur p)) \<le> length p"
  by (induction cur p rule: build_line.induct) auto

lemma build_line_shorter: "p \<noteq> [] \<Longrightarrow> length (snd (build_line cur p)) < length p"
proof (cases p)
  case (Cons ch rest)
  then show ?thesis using build_line_length [of "cur @ escape_byte ch" rest] by auto
qed simp

text \<open>
  The lines that the iterator yields from \<open>begin()\<close> to \<open>end()\<close>: the first starts with the prefix,
  later ones with as many blanks, and the iterator stops when the payload is used up.
\<close>

function continuation_lines :: "nat \<Rightarrow> byte list \<Rightarrow> string list" where
  "continuation_lines n p =
     (if p = [] then []
      else (case build_line (replicate n CHR '' '') p of
              (line, rest) \<Rightarrow> line # continuation_lines n rest))"
  by pat_completeness auto
termination
  by (relation "measure (\<lambda>(n, p). length p)") (auto dest: build_line_shorter simp: split_beta
      intro: le_less_trans [OF _ build_line_shorter] dest!: arg_cong [where f = snd])

declare continuation_lines.simps [simp del]

definition format_log_lines :: "log_entry \<Rightarrow> string list" where
  "format_log_lines e =
     (let prefix = computePrefix e;
          (line, rest) = build_line prefix (le_payload e)
      in line # continuation_lines (length prefix) rest)"

end
