(* ===== verification/Replay_Codec.thy ===== *)
theory Replay_Codec
  imports Buffer Tile_Codec Game_Rules Replay_Log
begin

text \<open>
  The replay records and their byte encoding (\<open>include/corertt/replay.h\<close> and the first half of
  \<open>src/replay.cpp\<close>). An encoder appends to a write buffer and fails where the source asserts. A
  decoder reads from any \<open>StreamAdapter\<close>; it has no result where a read would leave the buffered
  bytes, and otherwise returns \<open>Inl\<close> of a \<open>DecodeErrorCode\<close> or \<open>Inr\<close> of the record, as
  \<open>std::expected\<close> does.
\<close>

subsection \<open>Records\<close>

record replay_tilemap =
  rt_width :: u16
  rt_height :: u16
  rt_base_size :: u16
  rt_tiles :: "tile_flags list"

record replay_player =
  rp_id :: u8
  rp_base_energy :: u16
  rp_base_capture_counter :: u8

record replay_unit =
  ru_id :: u8
  ru_player_id :: u8
  ru_x :: u8
  ru_y :: u8
  ru_health :: u8
  ru_attack_cooldown :: u8
  ru_upgrades :: u8
  ru_energy :: u16

record replay_bullet =
  rb_x :: u8
  rb_y :: u8
  rb_direction :: u8
  rb_player_id :: u8
  rb_damage :: u8

record tick_frame =
  fr_tick :: u32
  fr_players :: "replay_player \<times> replay_player"
  fr_units :: "replay_unit list"
  fr_bullets :: "replay_bullet list"
  fr_logs :: "log_entry list"

record replay_header =
  rh_version :: u16
  rh_tilemap :: replay_tilemap
  rh_game_rules :: game_rules

datatype replay_termination = EndCompleted | EndAborted | EndRuleDraw

fun replay_termination_code :: "replay_termination \<Rightarrow> u8" where
  "replay_termination_code EndCompleted = 0"
| "replay_termination_code EndAborted = 1"
| "replay_termination_code EndRuleDraw = 2"

record end_marker =
  em_termination :: replay_termination
  em_winner_player_id :: u8

definition record_type_tick :: u8 where "record_type_tick = 1"
definition record_type_end :: u8 where "record_type_end = 255"

datatype decode_error =
    TruncatedInput
  | BadMagic
  | UnsupportedVersion
  | TruncatedHeaderPayload
  | TruncatedTilemapHeader
  | TilemapDimensionsExceedMaximum
  | TilemapTileCountExceedsMaximum
  | TilemapDataTruncated
  | TruncatedLogEntry
  | InvalidLogSourceValue
  | InvalidLogTypeValue
  | LogPayloadTruncated
  | TickPayloadTooSmall
  | UnitCountExceedsMaximum
  | BulletCountExceedsMaximum
  | LogCountExceedsMaximum
  | LogPayloadSizeExceedsMaximum
  | TruncatedEndMarker
  | InvalidReplayTermination
  | InvalidEndMarkerPayload
  | UnknownRecordType
  | MissingHeader
  | MissingEndMarker

fun log_source_code :: "log_source \<Rightarrow> u8" where
  "log_source_code SourceSystem = 0"
| "log_source_code SourcePlayer = 1"

fun log_type_code :: "log_type \<Rightarrow> u8" where
  "log_type_code LogCustom = 0"
| "log_type_code LogUnitCreation = 1"
| "log_type_code LogUnitDestruction = 2"
| "log_type_code LogExecutionException = 3"
| "log_type_code LogBaseCaptured = 4"

text \<open>\<open>static_cast\<close> to the enumerations, after the range check of the callers.\<close>

definition log_source_of :: "u8 \<Rightarrow> log_source" where
  "log_source_of n = (if n = 0 then SourceSystem else SourcePlayer)"

definition log_type_of :: "u8 \<Rightarrow> log_type" where
  "log_type_of n = (if n = 0 then LogCustom else if n = 1 then LogUnitCreation
     else if n = 2 then LogUnitDestruction else if n = 3 then LogExecutionException
     else LogBaseCaptured)"

definition replay_termination_of :: "u8 \<Rightarrow> replay_termination" where
  "replay_termination_of n = (if n = 0 then EndCompleted else if n = 1 then EndAborted else EndRuleDraw)"

subsection \<open>Encoding\<close>

definition replay_magic :: "byte list" where
  "replay_magic = [0x43, 0x52, 0x50, 0x4C]"

definition replay_version :: u16 where "replay_version = 5"

text \<open>Dimensions are at most 512, so the \<open>int\<close> product of the source does not overflow.\<close>

definition tileCount :: "replay_tilemap \<Rightarrow> nat" where
  "tileCount m = unat (rt_width m) * unat (rt_height m)"

definition tilemapEncodedSize :: "replay_tilemap \<Rightarrow> nat" where
  "tilemapEncodedSize m = 8 + tileCount m"

definition sizeof_game_rules :: nat where "sizeof_game_rules = 22"

definition encodeTilemap :: "replay_tilemap \<Rightarrow> write_buffer \<Rightarrow> write_buffer option" where
  "encodeTilemap m b = do {
     let b = writeU16 0 (writeU16 (rt_base_size m) (writeU16 (rt_height m) (writeU16 (rt_width m) b)));
     fail_fast_assert (length (rt_tiles m) = tileCount m);
     Some (fold (\<lambda>t. writeU8 (tile_pack t)) (rt_tiles m) b)
   }"

definition encodeGameRules :: "game_rules \<Rightarrow> write_buffer \<Rightarrow> write_buffer" where
  "encodeGameRules r b =
     fold writeU16
       [gr_capacity_lv1 r, gr_capacity_lv2 r, gr_capacity_upgrade_cost r, gr_vision_upgrade_cost r,
        gr_damage_upgrade_cost r, gr_manufact_cost r]
     (fold writeU8
       [gr_width r, gr_height r, gr_base_size r, gr_unit_health r, gr_natural_energy_rate r,
        gr_resource_zone_energy_rate r, gr_attack_cooldown r, gr_capture_turn_threshold r,
        gr_vision_lv1 r, gr_vision_lv2 r] b)"

definition encodeLogEntry :: "log_entry \<Rightarrow> write_buffer \<Rightarrow> write_buffer option" where
  "encodeLogEntry e b = do {
     fail_fast_assert (length (le_payload e) \<le> 65535);
     let b = writeU16 (word_of_nat (length (le_payload e)))
       (writeU8 (log_type_code (le_type e)) (writeU8 (log_source_code (le_source e))
         (writeU8 (le_unit_id e) (writeU8 (le_player_id e) (writeU32 (le_tick e) b)))));
     Some (if le_payload e \<noteq> [] then writeBytes (le_payload e) b else b)
   }"

definition encodePlayer :: "replay_player \<Rightarrow> write_buffer \<Rightarrow> write_buffer" where
  "encodePlayer p b =
     writeU8 (rp_base_capture_counter p) (writeU16 (rp_base_energy p) (writeU8 (rp_id p) b))"

definition encodeUnit :: "replay_unit \<Rightarrow> write_buffer \<Rightarrow> write_buffer" where
  "encodeUnit u b = writeU16 (ru_energy u)
     (fold writeU8 [ru_id u, ru_player_id u, ru_x u, ru_y u, ru_health u, ru_attack_cooldown u,
        ru_upgrades u] b)"

definition encodeBullet :: "replay_bullet \<Rightarrow> write_buffer \<Rightarrow> write_buffer" where
  "encodeBullet bl b =
     fold writeU8 [rb_x bl, rb_y bl, rb_direction bl, rb_player_id bl, rb_damage bl] b"

definition encodeReplayTick :: "tick_frame \<Rightarrow> write_buffer \<Rightarrow> write_buffer option" where
  "encodeReplayTick t b = do {
     fail_fast_assert (length (fr_units t) \<le> 65535);
     fail_fast_assert (length (fr_bullets t) \<le> 65535);
     fail_fast_assert (length (fr_logs t) \<le> 65535);
     let b = writeU32 (fr_tick t) (writeU8 record_type_tick b);
     let payload_size_offset = length b;
     let b = writeU32 0 b;
     let payload_begin = length b;
     let b = encodePlayer (snd (fr_players t)) (encodePlayer (fst (fr_players t)) b);
     let b = fold encodeUnit (fr_units t) (writeU16 (word_of_nat (length (fr_units t))) b);
     let b = fold encodeBullet (fr_bullets t) (writeU16 (word_of_nat (length (fr_bullets t))) b);
     b \<leftarrow> foldM encodeLogEntry (fr_logs t) (writeU16 (word_of_nat (length (fr_logs t))) b);
     let payload_size = length b - payload_begin;
     fail_fast_assert (payload_size \<le> 4294967295);
     patchU32 payload_size_offset (word_of_nat payload_size) b
   }"

definition encodeReplayHeader :: "replay_header \<Rightarrow> write_buffer \<Rightarrow> write_buffer option" where
  "encodeReplayHeader h b = do {
     let b = writeBytes replay_magic b;
     let header_size = tilemapEncodedSize (rh_tilemap h) + sizeof_game_rules;
     fail_fast_assert (header_size \<le> 65535);
     let b = writeU16 (word_of_nat header_size) (writeU16 (rh_version h) b);
     b \<leftarrow> encodeTilemap (rh_tilemap h) b;
     Some (encodeGameRules (rh_game_rules h) b)
   }"

definition encodeReplayEndMarker :: "end_marker \<Rightarrow> write_buffer \<Rightarrow> write_buffer" where
  "encodeReplayEndMarker e b =
     writeU8 (em_winner_player_id e)
       (writeU8 (replay_termination_code (em_termination e)) (writeU8 record_type_end b))"

subsection \<open>Decoding\<close>

type_synonym ('a, 's) decode_result = "((decode_error + 'a) \<times> 's) option"

text \<open>A loop that reads \<open>n\<close> items, and one whose items may be rejected.\<close>

fun read_list :: "nat \<Rightarrow> ('s \<Rightarrow> ('a \<times> 's) option) \<Rightarrow> 's \<Rightarrow> ('a list \<times> 's) option" where
  "read_list 0 f s = Some ([], s)"
| "read_list (Suc n) f s = do {
     (x, s) \<leftarrow> f s;
     (xs, s) \<leftarrow> read_list n f s;
     Some (x # xs, s)
   }"

fun decode_list :: "nat \<Rightarrow> ('s \<Rightarrow> ('a, 's) decode_result) \<Rightarrow> 's \<Rightarrow> ('a list, 's) decode_result" where
  "decode_list 0 f s = Some (Inr [], s)"
| "decode_list (Suc n) f s = do {
     (r, s) \<leftarrow> f s;
     (case r of
        Inl e \<Rightarrow> Some (Inl e, s)
      | Inr x \<Rightarrow> do {
          (rs, s) \<leftarrow> decode_list n f s;
          Some (map_sum id ((#) x) rs, s)
        })
   }"

definition read_tile :: "'s stream_ops \<Rightarrow> 's \<Rightarrow> (tile_flags \<times> 's) option" where
  "read_tile ops s = do { (b, s) \<leftarrow> readU8 ops s; Some (tile_unpack b, s) }"

definition decodeTilemap :: "'s stream_ops \<Rightarrow> 's \<Rightarrow> (replay_tilemap, 's) decode_result" where
  "decodeTilemap ops s =
     (let (ok, s) = rb_has ops 8 s in
      if \<not> ok then Some (Inl TruncatedTilemapHeader, s)
      else do {
        (width, s) \<leftarrow> readU16 ops s;
        (height, s) \<leftarrow> readU16 ops s;
        (base_size, s) \<leftarrow> readU16 ops s;
        s \<leftarrow> rb_skip ops 2 s;
        if width > 512 \<or> height > 512 then Some (Inl TilemapDimensionsExceedMaximum, s)
        else
          let m = \<lparr>rt_width = width, rt_height = height, rt_base_size = base_size, rt_tiles = []\<rparr>;
              (ok, s) = rb_has ops (tileCount m) s in
          if \<not> ok then Some (Inl TilemapDataTruncated, s)
          else do {
            (tiles, s) \<leftarrow> read_list (tileCount m) (read_tile ops) s;
            Some (Inr (m\<lparr>rt_tiles := tiles\<rparr>), s)
          }
      })"

definition decodeGameRules :: "'s stream_ops \<Rightarrow> 's \<Rightarrow> (game_rules, 's) decode_result" where
  "decodeGameRules ops s =
     (let (ok, s) = rb_has ops sizeof_game_rules s in
      if \<not> ok then Some (Inl TruncatedHeaderPayload, s)
      else do {
        (width, s) \<leftarrow> readU8 ops s;
        (height, s) \<leftarrow> readU8 ops s;
        (base_size, s) \<leftarrow> readU8 ops s;
        (unit_health, s) \<leftarrow> readU8 ops s;
        (natural_energy_rate, s) \<leftarrow> readU8 ops s;
        (resource_zone_energy_rate, s) \<leftarrow> readU8 ops s;
        (attack_cooldown, s) \<leftarrow> readU8 ops s;
        (capture_turn_threshold, s) \<leftarrow> readU8 ops s;
        (vision_lv1, s) \<leftarrow> readU8 ops s;
        (vision_lv2, s) \<leftarrow> readU8 ops s;
        (capacity_lv1, s) \<leftarrow> readU16 ops s;
        (capacity_lv2, s) \<leftarrow> readU16 ops s;
        (capacity_upgrade_cost, s) \<leftarrow> readU16 ops s;
        (vision_upgrade_cost, s) \<leftarrow> readU16 ops s;
        (damage_upgrade_cost, s) \<leftarrow> readU16 ops s;
        (manufact_cost, s) \<leftarrow> readU16 ops s;
        Some (Inr \<lparr>gr_width = width, gr_height = height, gr_base_size = base_size,
          gr_unit_health = unit_health, gr_natural_energy_rate = natural_energy_rate,
          gr_resource_zone_energy_rate = resource_zone_energy_rate,
          gr_attack_cooldown = attack_cooldown, gr_capture_turn_threshold = capture_turn_threshold,
          gr_vision_lv1 = vision_lv1, gr_vision_lv2 = vision_lv2, gr_capacity_lv1 = capacity_lv1,
          gr_capacity_lv2 = capacity_lv2, gr_capacity_upgrade_cost = capacity_upgrade_cost,
          gr_vision_upgrade_cost = vision_upgrade_cost, gr_damage_upgrade_cost = damage_upgrade_cost,
          gr_manufact_cost = manufact_cost\<rparr>, s)
      })"

definition decodeLogEntry :: "'s stream_ops \<Rightarrow> 's \<Rightarrow> (log_entry, 's) decode_result" where
  "decodeLogEntry ops s =
     (let (ok, s) = rb_has ops 10 s in
      if \<not> ok then Some (Inl TruncatedLogEntry, s)
      else do {
        (tick, s) \<leftarrow> readU32 ops s;
        (player_id, s) \<leftarrow> readU8 ops s;
        (unit_id, s) \<leftarrow> readU8 ops s;
        (raw_source, s) \<leftarrow> readU8 ops s;
        if raw_source > log_source_code SourcePlayer then Some (Inl InvalidLogSourceValue, s)
        else do {
          (raw_type, s) \<leftarrow> readU8 ops s;
          if raw_type > log_type_code LogBaseCaptured then Some (Inl InvalidLogTypeValue, s)
          else do {
            (payload_size, s) \<leftarrow> readU16 ops s;
            let entry = \<lparr>le_tick = tick, le_player_id = player_id, le_unit_id = unit_id,
              le_source = log_source_of raw_source, le_type = log_type_of raw_type, le_payload = []\<rparr>;
            if payload_size > 512 then Some (Inl LogPayloadSizeExceedsMaximum, s)
            else if payload_size > 0 then
              (let (ok, s) = rb_has ops (unat payload_size) s in
               if \<not> ok then Some (Inl LogPayloadTruncated, s)
               else do {
                 (bytes, s) \<leftarrow> readBytes ops (unat payload_size) s;
                 Some (Inr (entry\<lparr>le_payload := bytes\<rparr>), s)
               })
            else Some (Inr entry, s)
          }
        }
      })"

definition read_player :: "'s stream_ops \<Rightarrow> 's \<Rightarrow> (replay_player \<times> 's) option" where
  "read_player ops s = do {
     (i, s) \<leftarrow> readU8 ops s;
     (base_energy, s) \<leftarrow> readU16 ops s;
     (base_capture_counter, s) \<leftarrow> readU8 ops s;
     Some (\<lparr>rp_id = i, rp_base_energy = base_energy, rp_base_capture_counter = base_capture_counter\<rparr>, s)
   }"

definition read_unit :: "'s stream_ops \<Rightarrow> 's \<Rightarrow> (replay_unit \<times> 's) option" where
  "read_unit ops s = do {
     (i, s) \<leftarrow> readU8 ops s;
     (player_id, s) \<leftarrow> readU8 ops s;
     (x, s) \<leftarrow> readU8 ops s;
     (y, s) \<leftarrow> readU8 ops s;
     (health, s) \<leftarrow> readU8 ops s;
     (attack_cooldown, s) \<leftarrow> readU8 ops s;
     (upgrades, s) \<leftarrow> readU8 ops s;
     (energy, s) \<leftarrow> readU16 ops s;
     Some (\<lparr>ru_id = i, ru_player_id = player_id, ru_x = x, ru_y = y, ru_health = health,
       ru_attack_cooldown = attack_cooldown, ru_upgrades = upgrades, ru_energy = energy\<rparr>, s)
   }"

definition read_bullet :: "'s stream_ops \<Rightarrow> 's \<Rightarrow> (replay_bullet \<times> 's) option" where
  "read_bullet ops s = do {
     (x, s) \<leftarrow> readU8 ops s;
     (y, s) \<leftarrow> readU8 ops s;
     (dir, s) \<leftarrow> readU8 ops s;
     (player_id, s) \<leftarrow> readU8 ops s;
     (damage, s) \<leftarrow> readU8 ops s;
     Some (\<lparr>rb_x = x, rb_y = y, rb_direction = dir, rb_player_id = player_id, rb_damage = damage\<rparr>, s)
   }"

text \<open>
  A counted section of fixed-size items: the count, its maximum, and the bytes that must be there.
\<close>

definition read_section ::
    "'s stream_ops \<Rightarrow> u16 \<Rightarrow> decode_error \<Rightarrow> nat \<Rightarrow> ('s \<Rightarrow> ('a \<times> 's) option) \<Rightarrow> 's
       \<Rightarrow> ('a list, 's) decode_result" where
  "read_section ops max_count too_many item_bytes item s =
     (let (ok, s) = rb_has ops 2 s in
      if \<not> ok then Some (Inl TickPayloadTooSmall, s)
      else do {
        (count, s) \<leftarrow> readU16 ops s;
        if count > max_count then Some (Inl too_many, s)
        else (let (ok, s) = rb_has ops (unat count * item_bytes) s in
          if \<not> ok then Some (Inl TickPayloadTooSmall, s)
          else do {
            (items, s) \<leftarrow> read_list (unat count) item s;
            Some (Inr items, s)
          })
      })"

definition decodeReplayTickPayload :: "'s stream_ops \<Rightarrow> u32 \<Rightarrow> 's \<Rightarrow> (tick_frame, 's) decode_result" where
  "decodeReplayTickPayload ops tick_id s =
     (let (ok, s) = rb_has ops 8 s in
      if \<not> ok then Some (Inl TickPayloadTooSmall, s)
      else do {
        (player1, s) \<leftarrow> read_player ops s;
        (player2, s) \<leftarrow> read_player ops s;
        (units, s) \<leftarrow> read_section ops 30 UnitCountExceedsMaximum 9 (read_unit ops) s;
        (case units of
           Inl e \<Rightarrow> Some (Inl e, s)
         | Inr units \<Rightarrow> do {
             (bullets, s) \<leftarrow> read_section ops 4096 BulletCountExceedsMaximum 5 (read_bullet ops) s;
             (case bullets of
                Inl e \<Rightarrow> Some (Inl e, s)
              | Inr bullets \<Rightarrow>
                  (let (ok, s) = rb_has ops 2 s in
                   if \<not> ok then Some (Inl TickPayloadTooSmall, s)
                   else do {
                     (log_count, s) \<leftarrow> readU16 ops s;
                     if log_count > 64 then Some (Inl LogCountExceedsMaximum, s)
                     else do {
                       (logs, s) \<leftarrow> decode_list (unat log_count) (decodeLogEntry ops) s;
                       Some (map_sum id (\<lambda>logs. \<lparr>fr_tick = tick_id, fr_players = (player1, player2),
                         fr_units = units, fr_bullets = bullets, fr_logs = logs\<rparr>) logs, s)
                     }
                   }))
           })
      })"

definition decodeReplayEndMarker :: "'s stream_ops \<Rightarrow> 's \<Rightarrow> (end_marker, 's) decode_result" where
  "decodeReplayEndMarker ops s =
     (let (ok, s) = rb_has ops 2 s in
      if \<not> ok then Some (Inl TruncatedEndMarker, s)
      else do {
        (raw_termination, s) \<leftarrow> readU8 ops s;
        if raw_termination > replay_termination_code EndRuleDraw then Some (Inl InvalidReplayTermination, s)
        else do {
          (winner, s) \<leftarrow> readU8 ops s;
          let termination = replay_termination_of raw_termination;
          (case termination of
             EndCompleted \<Rightarrow>
               if winner = 0 \<or> winner > 2 then Some (Inl InvalidEndMarkerPayload, s)
               else Some (Inr \<lparr>em_termination = termination, em_winner_player_id = winner\<rparr>, s)
           | EndAborted \<Rightarrow>
               if winner \<noteq> 0 then Some (Inl InvalidEndMarkerPayload, s)
               else Some (Inr \<lparr>em_termination = termination, em_winner_player_id = winner\<rparr>, s)
           | EndRuleDraw \<Rightarrow>
               if winner \<noteq> 0 then Some (Inl InvalidEndMarkerPayload, s)
               else Some (Inr \<lparr>em_termination = termination, em_winner_player_id = winner\<rparr>, s))
        }
      })"

text \<open>The four magic bytes are read one by one, up to the first that differs.\<close>

fun check_magic :: "'s stream_ops \<Rightarrow> byte list \<Rightarrow> 's \<Rightarrow> (bool \<times> 's) option" where
  "check_magic ops [] s = Some (True, s)"
| "check_magic ops (magic # rest) s = do {
     (b, s) \<leftarrow> readU8 ops s;
     if b \<noteq> magic then Some (False, s) else check_magic ops rest s
   }"

definition decodeHeaderPayload :: "'s stream_ops \<Rightarrow> u16 \<Rightarrow> 's \<Rightarrow> (replay_header, 's) decode_result" where
  "decodeHeaderPayload ops version s = do {
     (m, s) \<leftarrow> decodeTilemap ops s;
     (case m of
        Inl e \<Rightarrow> Some (Inl e, s)
      | Inr m \<Rightarrow> do {
          (r, s) \<leftarrow> decodeGameRules ops s;
          Some (map_sum id (\<lambda>r. \<lparr>rh_version = version, rh_tilemap = m, rh_game_rules = r\<rparr>) r, s)
        })
   }"

definition decodeReplayHeader :: "'s stream_ops \<Rightarrow> 's \<Rightarrow> (replay_header, 's) decode_result" where
  "decodeReplayHeader ops s =
     (let (ok, s) = rb_has ops 8 s in
      if \<not> ok then Some (Inl TruncatedInput, s)
      else do {
        (magic_ok, s) \<leftarrow> check_magic ops replay_magic s;
        if \<not> magic_ok then Some (Inl BadMagic, s)
        else do {
          (version, s) \<leftarrow> readU16 ops s;
          (header_size, s) \<leftarrow> readU16 ops s;
          if version \<noteq> replay_version then Some (Inl UnsupportedVersion, s)
          else (let (ok, s) = rb_has ops (unat header_size) s in
            if \<not> ok then Some (Inl TruncatedHeaderPayload, s)
            else do {
              (bytes, s) \<leftarrow> readBytes ops (unat header_size) s;
              (header, _) \<leftarrow> decodeHeaderPayload (memory_ops (so_ndebug ops)) version (memory_stream_new bytes);
              Some (header, s)
            })
        }
      })"

end
