(* ===== verification/Replay_Safe.thy ===== *)
theory Replay_Safe
  imports Replay_Codec
begin

text \<open>
  The decoders on arbitrary input. Over the reference reader every decoder has a result for every
  list of bytes; over every \<open>StreamAdapter\<close>, in a debug and a release build, it has the same
  result. So no input makes a decoder read outside the bytes it has buffered. The numbers of bytes
  are in successor form (\<open>count_bytes\<close>), so that each read takes its bytes off by unification.
\<close>

lemmas count_bytes = eval_nat_numeral BitM.simps One_nat_def

subsection \<open>Every input is answered\<close>

text \<open>A read that succeeds and leaves at least \<open>n\<close> bytes.\<close>

definition leaves :: "nat \<Rightarrow> ('a \<times> byte list) option \<Rightarrow> bool" where
  "leaves n r \<longleftrightarrow> (\<exists>a rest. r = Some (a, rest) \<and> n \<le> length rest)"

lemma leaves_bind:
  assumes "leaves m r" "\<And>a rest. m \<le> length rest \<Longrightarrow> leaves n (f a rest)"
  shows "leaves n (r \<bind> (\<lambda>(a, s). f a s))"
  using assms by (auto simp: leaves_def)

lemma leaves_Some: "n \<le> length bs \<Longrightarrow> leaves n (Some (a, bs))"
  by (simp add: leaves_def)

lemma leaves_any: "leaves 0 (Some (a, bs))"
  by (simp add: leaves_def)

lemma leaves_weaken: "leaves k r \<Longrightarrow> leaves 0 r"
  by (auto simp: leaves_def)

lemma list_readU8_bytes:
  "readU8 list_ops bs = (if 1 \<le> length bs then Some (hd bs, tl bs) else None)"
  by (cases bs) (simp_all, simp add: readU8_def, simp add: list_ops_def)

lemma leaves_reads:
  "Suc k \<le> length bs \<Longrightarrow> leaves k (readU8 list_ops bs)"
  "Suc (Suc k) \<le> length bs \<Longrightarrow> leaves k (readU16 list_ops bs)"
  "Suc (Suc (Suc (Suc k))) \<le> length bs \<Longrightarrow> leaves k (readU32 list_ops bs)"
  by (auto simp: leaves_def list_readU8_bytes list_readU16_bytes list_readU32_bytes)

lemma leaves_readBytes: "n \<le> length bs \<Longrightarrow> leaves 0 (readBytes list_ops n bs)"
  by (simp add: leaves_def)

lemma leaves_skip:
  "Suc (Suc k) \<le> length bs \<Longrightarrow> (\<And>rest. k \<le> length rest \<Longrightarrow> leaves j (f rest)) \<Longrightarrow>
     leaves j (rb_skip list_ops (Suc (Suc 0)) bs \<bind> f)"
  by simp

lemma leaves_has:
  "(n \<le> length bs \<Longrightarrow> leaves 0 (r bs)) \<Longrightarrow>
     leaves 0 (case rb_has list_ops n bs of (ok, s) \<Rightarrow> if \<not> ok then Some (e, s) else r s)"
  by (simp add: leaves_any)

lemma leaves_if: "(c \<Longrightarrow> leaves n a) \<Longrightarrow> (\<not> c \<Longrightarrow> leaves n b) \<Longrightarrow> leaves n (if c then a else b)"
  by simp

lemma leaves_sum:
  "(\<And>e. leaves n (f e)) \<Longrightarrow> (\<And>x. leaves n (g x)) \<Longrightarrow> leaves n (case r of Inl e \<Rightarrow> f e | Inr x \<Rightarrow> g x)"
  by (cases r) simp_all

lemma leaves_read_list:
  assumes "\<And>bs k. c + k \<le> length bs \<Longrightarrow> leaves k (f bs)"
  shows "n * c + k \<le> length bs \<Longrightarrow> leaves k (read_list n f bs)"
proof (induction n arbitrary: bs)
  case (Suc n)
  show ?case
    unfolding read_list.simps
    by (rule leaves_bind [OF assms [of "n * c + k"]])
      (use Suc.prems in simp, rule leaves_bind, erule Suc.IH, erule leaves_Some)
qed (simp add: leaves_def)

lemma leaves_items0:
  assumes "\<And>bs k. c + k \<le> length bs \<Longrightarrow> leaves k (f bs)"
  shows "n * c \<le> length bs \<Longrightarrow> leaves 0 (read_list n f bs)"
  using leaves_read_list [of c f n 0 bs, OF assms] by simp

lemma leaves_decode_list:
  assumes "\<And>bs. leaves 0 (f bs)"
  shows "leaves 0 (decode_list n f bs)"
proof (induction n arbitrary: bs)
  case (Suc n)
  show ?case
    unfolding decode_list.simps
    by (rule leaves_bind [OF assms], rule leaves_sum, rule leaves_any,
        rule leaves_bind [OF Suc.IH], rule leaves_any)
qed (simp add: leaves_def)

lemma leaves_items:
  "Suc k \<le> length bs \<Longrightarrow> leaves k (read_tile list_ops bs)"
  "Suc (Suc (Suc (Suc k))) \<le> length bs \<Longrightarrow> leaves k (read_player list_ops bs)"
  "9 + k \<le> length bs \<Longrightarrow> leaves k (read_unit list_ops bs)"
  "5 + k \<le> length bs \<Longrightarrow> leaves k (read_bullet list_ops bs)"
  unfolding read_tile_def read_player_def read_unit_def read_bullet_def count_bytes add_Suc add_0
  by ((rule leaves_bind, erule leaves_reads)+, erule leaves_Some)+

lemma leaves_section:
  assumes "\<And>bs k. c + k \<le> length bs \<Longrightarrow> leaves k (f bs)"
  shows "leaves 0 (read_section list_ops mx err c f bs)"
proof -
  have items: "n * c \<le> length bs \<Longrightarrow> leaves 0 (read_list n f bs)" for n bs
    by (rule leaves_items0 [OF assms])
  show ?thesis
    unfolding read_section_def Let_def count_bytes
    by (rule leaves_has leaves_any leaves_if | (rule leaves_bind, erule leaves_reads)
        | (rule leaves_bind, erule items))+
qed

lemma decodeTilemap_total: "leaves 0 (decodeTilemap list_ops bs)"
proof -
  have tiles: "n \<le> length bs \<Longrightarrow> leaves 0 (read_list n (read_tile list_ops) bs)" for n bs
    using leaves_items0 [of 1 "read_tile list_ops" n bs] leaves_items(1) by simp
  show ?thesis
    unfolding decodeTilemap_def Let_def count_bytes
    by (rule leaves_has leaves_any leaves_if | (rule leaves_bind, erule leaves_reads)
        | (rule leaves_skip, assumption) | (rule leaves_bind, erule tiles))+
qed

lemma decodeGameRules_total: "leaves 0 (decodeGameRules list_ops bs)"
  unfolding decodeGameRules_def Let_def sizeof_game_rules_def count_bytes
  by (rule leaves_has leaves_any | (rule leaves_bind, erule leaves_reads))+

lemma decodeLogEntry_total: "leaves 0 (decodeLogEntry list_ops bs)"
  unfolding decodeLogEntry_def Let_def count_bytes
  by (rule leaves_has leaves_any leaves_if | (rule leaves_bind, erule leaves_reads)
      | (rule leaves_bind, erule leaves_readBytes))+

lemma leaves_termination:
  "leaves n a \<Longrightarrow> leaves n b \<Longrightarrow> leaves n c \<Longrightarrow>
     leaves n (case t of EndCompleted \<Rightarrow> a | EndAborted \<Rightarrow> b | EndRuleDraw \<Rightarrow> c)"
  by (cases t) simp_all

lemma decodeReplayEndMarker_total: "leaves 0 (decodeReplayEndMarker list_ops bs)"
  unfolding decodeReplayEndMarker_def Let_def count_bytes
  by (rule leaves_has leaves_any leaves_if leaves_termination | (rule leaves_bind, erule leaves_reads))+

lemma decodeReplayTickPayload_total: "leaves 0 (decodeReplayTickPayload list_ops t bs)"
proof -
  have units: "leaves 0 (read_section list_ops mx err 9 (read_unit list_ops) bs)" for mx err bs
    by (rule leaves_section) (rule leaves_items(3))
  have bullets: "leaves 0 (read_section list_ops mx err 5 (read_bullet list_ops) bs)" for mx err bs
    by (rule leaves_section) (rule leaves_items(4))
  have eight: "(8 :: nat) = Suc (Suc (Suc (Suc (Suc (Suc (Suc (Suc 0)))))))"
    "(2 :: nat) = Suc (Suc 0)" by simp_all
  show ?thesis
    unfolding decodeReplayTickPayload_def Let_def eight
    by (rule leaves_has leaves_any leaves_if leaves_sum
        | (rule leaves_bind, erule leaves_items(2)) | (rule leaves_bind, erule leaves_reads)
        | rule leaves_bind [OF units] leaves_bind [OF bullets]
            leaves_bind [OF leaves_decode_list [OF decodeLogEntry_total]])+
qed

lemma decodeHeaderPayload_total: "leaves 0 (decodeHeaderPayload list_ops v bs)"
  unfolding decodeHeaderPayload_def
  by (rule leaves_bind [OF decodeTilemap_total] leaves_sum leaves_any leaves_bind [OF decodeGameRules_total])+

subsection \<open>Every adapter gives the same answer\<close>

context stream_adapter begin

lemma has_rule:
  assumes "view s bs k p" "\<And>s'. view s' bs n p \<Longrightarrow> read_rel view (\<lambda>_. 0) (f s') (f' bs)"
  shows "read_rel view (\<lambda>_. 0) (case rb_has ops n s of (ok, s) \<Rightarrow> if \<not> ok then Some (e, s) else f s)
    (case rb_has list_ops n bs of (ok, bs) \<Rightarrow> if \<not> ok then Some (e, bs) else f' bs)"
proof -
  obtain s' where s': "rb_has ops n s = (n \<le> length bs, s')" "view s' bs (if n \<le> length bs then max n k else k) p"
    using has_view [OF assms(1), of n] by (auto simp: rb_has_def)
  show ?thesis
  proof (cases "n \<le> length bs")
    case True
    then have "view s' bs n p" using s'(2) by (auto intro: view_weaken)
    then show ?thesis using assms(2) True s'(1) by simp
  next
    case False
    then have "view s' bs 0 p" using s'(2) by (auto intro: view_weaken)
    then show ?thesis using False s'(1) by (auto simp: read_rel_def)
  qed
qed

lemma done_rule: "view s bs k p \<Longrightarrow> read_rel view (\<lambda>_. k) (Some (a, s)) (Some (a, bs))"
  by (rule read_rel_Some)

lemma done_rule_0: "view s bs k p \<Longrightarrow> read_rel view (\<lambda>_. 0) (Some (a, s)) (Some (a, bs))"
  by (rule read_rel_Some, rule view_weaken) simp_all

lemma if_rule:
  "(c \<Longrightarrow> read_rel view j a a') \<Longrightarrow> (\<not> c \<Longrightarrow> read_rel view j b b') \<Longrightarrow>
     read_rel view j (if c then a else b) (if c then a' else b')"
  by simp

lemma sum_rule:
  "(\<And>e. read_rel view j (f e) (f' e)) \<Longrightarrow> (\<And>x. read_rel view j (g x) (g' x)) \<Longrightarrow>
     read_rel view j (case r of Inl e \<Rightarrow> f e | Inr x \<Rightarrow> g x) (case r of Inl e \<Rightarrow> f' e | Inr x \<Rightarrow> g' x)"
  by (cases r) simp_all

lemma termination_rule:
  "read_rel view j a a' \<Longrightarrow> read_rel view j b b' \<Longrightarrow> read_rel view j c c' \<Longrightarrow>
     read_rel view j (case t of EndCompleted \<Rightarrow> a | EndAborted \<Rightarrow> b | EndRuleDraw \<Rightarrow> c)
       (case t of EndCompleted \<Rightarrow> a' | EndAborted \<Rightarrow> b' | EndRuleDraw \<Rightarrow> c')"
  by (cases t) simp_all

lemma reads:
  "view s bs (Suc k) p \<Longrightarrow> read_rel view (\<lambda>_. k) (readU8 ops s) (readU8 list_ops bs)"
  "view s bs (Suc (Suc k)) p \<Longrightarrow> read_rel view (\<lambda>_. k) (readU16 ops s) (readU16 list_ops bs)"
  "view s bs (Suc (Suc (Suc (Suc k)))) p \<Longrightarrow> read_rel view (\<lambda>_. k) (readU32 ops s) (readU32 list_ops bs)"
  using readU8_view [of s bs "Suc k" p] readU16_view [of s bs "Suc (Suc k)" p]
    readU32_view [of s bs "Suc (Suc (Suc (Suc k)))" p] by simp_all

lemma readBytes_rule: "view s bs n p \<Longrightarrow> read_rel view (\<lambda>_. 0) (readBytes ops n s) (readBytes list_ops n bs)"
  using readBytes_view [of s bs n p n] by simp

lemma skip_rule:
  "view s bs (Suc (Suc k)) p \<Longrightarrow>
     (\<And>s' rest p. view s' rest k p \<Longrightarrow> read_rel view j (f s') (f' rest)) \<Longrightarrow>
     read_rel view j (rb_skip ops (Suc (Suc 0)) s \<bind> f) (rb_skip list_ops (Suc (Suc 0)) bs \<bind> f')"
  by (rule rb_skip_view [where k = "Suc (Suc k)"], assumption, simp, simp del: list_skip)

lemma read_list_view:
  assumes "\<And>s bs k p. view s bs (c + k) p \<Longrightarrow> read_rel view (\<lambda>_. k) (f s) (f' bs)"
  shows "view s bs (n * c + k) p \<Longrightarrow> read_rel view (\<lambda>_. k) (read_list n f s) (read_list n f' bs)"
proof (induction n arbitrary: s bs p)
  case (Suc n)
  have v: "view s bs (c + (n * c + k)) p" using Suc.prems by (simp add: add.assoc)
  show ?case
    unfolding read_list.simps
    by (rule read_rel_bind [OF assms [OF v]], rule read_rel_bind, erule Suc.IH, erule done_rule)
qed (simp add: read_rel_Some)

lemma items_view0:
  assumes "\<And>s bs k p. view s bs (c + k) p \<Longrightarrow> read_rel view (\<lambda>_. k) (f s) (f' bs)"
  shows "view s bs (n * c) p \<Longrightarrow> read_rel view (\<lambda>_. 0) (read_list n f s) (read_list n f' bs)"
  using read_list_view [of c f f' s bs n 0 p, OF assms] by simp

lemma decode_list_view:
  assumes "\<And>s bs k p. view s bs k p \<Longrightarrow> read_rel view (\<lambda>_. 0) (f s) (f' bs)"
  shows "view s bs k p \<Longrightarrow> read_rel view (\<lambda>_. 0) (decode_list n f s) (decode_list n f' bs)"
proof (induction n arbitrary: s bs k p)
  case 0
  then show ?case by (auto intro: done_rule_0)
next
  case (Suc n)
  show ?case
    unfolding decode_list.simps
    by (rule read_rel_bind [OF assms [OF Suc.prems]], rule sum_rule, erule done_rule,
        rule read_rel_bind, erule Suc.IH, erule done_rule)
qed

lemma items_view:
  "view s bs (Suc k) p \<Longrightarrow> read_rel view (\<lambda>_. k) (read_tile ops s) (read_tile list_ops bs)"
  "view s bs (Suc (Suc (Suc (Suc k)))) p \<Longrightarrow>
     read_rel view (\<lambda>_. k) (read_player ops s) (read_player list_ops bs)"
  "view s bs (9 + k) p \<Longrightarrow> read_rel view (\<lambda>_. k) (read_unit ops s) (read_unit list_ops bs)"
  "view s bs (5 + k) p \<Longrightarrow> read_rel view (\<lambda>_. k) (read_bullet ops s) (read_bullet list_ops bs)"
  unfolding read_tile_def read_player_def read_unit_def read_bullet_def count_bytes add_Suc add_0
  by ((rule read_rel_bind, erule reads)+, erule done_rule)+

lemma section_view:
  assumes item: "\<And>s bs k p. view s bs (c + k) p \<Longrightarrow> read_rel view (\<lambda>_. k) (f s) (f' bs)"
    and "view s bs k p"
  shows "read_rel view (\<lambda>_. 0) (read_section ops mx err c f s) (read_section list_ops mx err c f' bs)"
proof -
  have items: "view s bs (n * c) p \<Longrightarrow> read_rel view (\<lambda>_. 0) (read_list n f s) (read_list n f' bs)" for s bs n p
    by (rule items_view0 [OF item])
  show ?thesis
    unfolding read_section_def Let_def count_bytes
    by (rule has_rule [OF assms(2)])
      (rule if_rule | erule done_rule_0 has_rule
       | (rule read_rel_bind, erule reads) | (rule read_rel_bind, erule items))+
qed

lemma decodeTilemap_view:
  assumes "view s bs k p"
  shows "read_rel view (\<lambda>_. 0) (decodeTilemap ops s) (decodeTilemap list_ops bs)"
proof -
  have tiles: "view s bs n p \<Longrightarrow> read_rel view (\<lambda>_. 0) (read_list n (read_tile ops) s)
      (read_list n (read_tile list_ops) bs)" for s bs n p
    using items_view0 [of 1 "read_tile ops" "read_tile list_ops" s bs n p] items_view(1) by simp
  show ?thesis
    unfolding decodeTilemap_def Let_def count_bytes
    by (rule has_rule [OF assms])
      (rule if_rule | erule done_rule_0 has_rule
       | (rule read_rel_bind, erule reads) | (erule skip_rule) | (rule read_rel_bind, erule tiles))+
qed

lemma decodeGameRules_view:
  assumes "view s bs k p"
  shows "read_rel view (\<lambda>_. 0) (decodeGameRules ops s) (decodeGameRules list_ops bs)"
  unfolding decodeGameRules_def Let_def sizeof_game_rules_def count_bytes
  by (rule has_rule [OF assms]) (erule done_rule_0 | (rule read_rel_bind, erule reads))+

lemma decodeLogEntry_view:
  assumes "view s bs k p"
  shows "read_rel view (\<lambda>_. 0) (decodeLogEntry ops s) (decodeLogEntry list_ops bs)"
  unfolding decodeLogEntry_def Let_def count_bytes
  by (rule has_rule [OF assms])
    (rule if_rule | erule done_rule_0 has_rule
     | (rule read_rel_bind, erule reads) | (rule read_rel_bind, erule readBytes_rule))+

lemma decodeReplayEndMarker_view:
  assumes "view s bs k p"
  shows "read_rel view (\<lambda>_. 0) (decodeReplayEndMarker ops s) (decodeReplayEndMarker list_ops bs)"
  unfolding decodeReplayEndMarker_def Let_def count_bytes
  by (rule has_rule [OF assms])
    (rule if_rule termination_rule | erule done_rule_0 | (rule read_rel_bind, erule reads))+

lemma decodeReplayTickPayload_view:
  assumes "view s bs k p"
  shows "read_rel view (\<lambda>_. 0) (decodeReplayTickPayload ops t s) (decodeReplayTickPayload list_ops t bs)"
proof -
  have units: "view s bs k p \<Longrightarrow> read_rel view (\<lambda>_. 0) (read_section ops mx err 9 (read_unit ops) s)
      (read_section list_ops mx err 9 (read_unit list_ops) bs)" for s bs k p mx err
    by (rule section_view) (erule items_view(3))
  have bullets: "view s bs k p \<Longrightarrow> read_rel view (\<lambda>_. 0) (read_section ops mx err 5 (read_bullet ops) s)
      (read_section list_ops mx err 5 (read_bullet list_ops) bs)" for s bs k p mx err
    by (rule section_view) (erule items_view(4))
  have logs: "view s bs k p \<Longrightarrow> read_rel view (\<lambda>_. 0) (decode_list n (decodeLogEntry ops) s)
      (decode_list n (decodeLogEntry list_ops) bs)" for s bs k p n
    by (rule decode_list_view) (rule decodeLogEntry_view)
  have eight: "(8 :: nat) = Suc (Suc (Suc (Suc (Suc (Suc (Suc (Suc 0)))))))"
    "(2 :: nat) = Suc (Suc 0)" by simp_all
  show ?thesis
    unfolding decodeReplayTickPayload_def Let_def eight
    by (rule has_rule [OF assms])
      (rule if_rule sum_rule | erule done_rule_0 has_rule
       | (rule read_rel_bind, erule items_view(2)) | (rule read_rel_bind, erule reads)
       | (rule read_rel_bind, erule units) | (rule read_rel_bind, erule bullets)
       | (rule read_rel_bind, erule logs))+
qed

lemma decodeHeaderPayload_view:
  assumes "view s bs k p"
  shows "read_rel view (\<lambda>_. 0) (decodeHeaderPayload ops v s) (decodeHeaderPayload list_ops v bs)"
  unfolding decodeHeaderPayload_def
  by (rule read_rel_bind [OF decodeTilemap_view [OF assms]])
    (rule sum_rule | erule done_rule_0 | (rule read_rel_bind, erule decodeGameRules_view))+

end

end
