(* ===== verification/Replay_Roundtrip.thy ===== *)
theory Replay_Roundtrip
  imports Replay_Codec
begin

text \<open>
  Decoding takes back what encoding wrote, over the reference reader (a plain list of bytes).
  Each encoder is first shown to append a fixed list of bytes; each decoder then consumes exactly
  that list.
\<close>

subsection \<open>What the encoders append\<close>

definition u16_bytes :: "u16 \<Rightarrow> byte list" where
  "u16_bytes v = [ucast (v AND 0xFF), ucast (drop_bit 8 v AND 0xFF)]"

lemma length_u16_bytes [simp]: "length (u16_bytes v) = 2"
  by (simp add: u16_bytes_def)

lemma readU16_bytes [simp]: "readU16 list_ops (u16_bytes v @ bs) = Some (v, bs)"
  by (simp add: u16_bytes_def)

lemma write_append [simp]:
  "writeU8 a b = b @ [a]" "writeU16 v b = b @ u16_bytes v" "writeU32 x b = b @ u32_bytes x"
  "writeBytes bs b = b @ bs"
  by (simp_all add: write_defs u16_bytes_def)

lemma fold_append_map:
  "(\<And>x b. f x b = b @ g x) \<Longrightarrow> fold f xs b = b @ concat (map g xs)"
  by (induction xs arbitrary: b) simp_all

lemma foldM_append_map:
  "(\<And>x b. x \<in> set xs \<Longrightarrow> f x b = Some (b @ g x)) \<Longrightarrow> foldM f xs b = Some (b @ concat (map g xs))"
  by (induction xs arbitrary: b) simp_all

definition tilemap_bytes :: "replay_tilemap \<Rightarrow> byte list" where
  "tilemap_bytes m = u16_bytes (rt_width m) @ u16_bytes (rt_height m) @ u16_bytes (rt_base_size m)
     @ u16_bytes 0 @ map tile_pack (rt_tiles m)"

lemma encodeTilemap_bytes:
  "length (rt_tiles m) = tileCount m \<Longrightarrow> encodeTilemap m b = Some (b @ tilemap_bytes m)"
  using fold_append_map [of "\<lambda>t. writeU8 (tile_pack t)" "\<lambda>t. [tile_pack t]" "rt_tiles m"]
  by (simp add: encodeTilemap_def tilemap_bytes_def concat_map_singleton)

definition rules_bytes :: "game_rules \<Rightarrow> byte list" where
  "rules_bytes r =
     [gr_width r, gr_height r, gr_base_size r, gr_unit_health r, gr_natural_energy_rate r,
      gr_resource_zone_energy_rate r, gr_attack_cooldown r, gr_capture_turn_threshold r,
      gr_vision_lv1 r, gr_vision_lv2 r]
     @ u16_bytes (gr_capacity_lv1 r) @ u16_bytes (gr_capacity_lv2 r)
     @ u16_bytes (gr_capacity_upgrade_cost r) @ u16_bytes (gr_vision_upgrade_cost r)
     @ u16_bytes (gr_damage_upgrade_cost r) @ u16_bytes (gr_manufact_cost r)"

lemma encodeGameRules_bytes: "encodeGameRules r b = b @ rules_bytes r"
  by (simp add: encodeGameRules_def rules_bytes_def)

lemma length_rules_bytes [simp]: "length (rules_bytes r) = sizeof_game_rules"
  by (simp add: rules_bytes_def sizeof_game_rules_def)

definition log_bytes :: "log_entry \<Rightarrow> byte list" where
  "log_bytes e = u32_bytes (le_tick e)
     @ [le_player_id e, le_unit_id e, log_source_code (le_source e), log_type_code (le_type e)]
     @ u16_bytes (word_of_nat (length (le_payload e))) @ le_payload e"

lemma encodeLogEntry_bytes:
  "length (le_payload e) \<le> 65535 \<Longrightarrow> encodeLogEntry e b = Some (b @ log_bytes e)"
  by (simp add: encodeLogEntry_def log_bytes_def Let_def)

definition player_bytes :: "replay_player \<Rightarrow> byte list" where
  "player_bytes p = [rp_id p] @ u16_bytes (rp_base_energy p) @ [rp_base_capture_counter p]"

definition unit_bytes :: "replay_unit \<Rightarrow> byte list" where
  "unit_bytes u = [ru_id u, ru_player_id u, ru_x u, ru_y u, ru_health u, ru_attack_cooldown u,
     ru_upgrades u] @ u16_bytes (ru_energy u)"

definition bullet_bytes :: "replay_bullet \<Rightarrow> byte list" where
  "bullet_bytes b = [rb_x b, rb_y b, rb_direction b, rb_player_id b, rb_damage b]"

lemma encode_item_bytes:
  "encodePlayer p b = b @ player_bytes p" "encodeUnit u b = b @ unit_bytes u"
  "encodeBullet bl b = b @ bullet_bytes bl"
  by (simp_all add: encodePlayer_def player_bytes_def encodeUnit_def unit_bytes_def
      encodeBullet_def bullet_bytes_def)

lemma item_lengths [simp]:
  "length (player_bytes p) = 4" "length (unit_bytes u) = 9" "length (bullet_bytes bl) = 5"
  by (simp_all add: player_bytes_def unit_bytes_def bullet_bytes_def)

definition tick_payload :: "tick_frame \<Rightarrow> byte list" where
  "tick_payload t = player_bytes (fst (fr_players t)) @ player_bytes (snd (fr_players t))
     @ u16_bytes (word_of_nat (length (fr_units t))) @ concat (map unit_bytes (fr_units t))
     @ u16_bytes (word_of_nat (length (fr_bullets t))) @ concat (map bullet_bytes (fr_bullets t))
     @ u16_bytes (word_of_nat (length (fr_logs t))) @ concat (map log_bytes (fr_logs t))"

definition tick_bytes :: "tick_frame \<Rightarrow> byte list" where
  "tick_bytes t = record_type_tick # u32_bytes (fr_tick t)
     @ u32_bytes (word_of_nat (length (tick_payload t))) @ tick_payload t"

text \<open>The frames that a decoder accepts: the maxima of the decoder hold.\<close>

definition frame_ok :: "tick_frame \<Rightarrow> bool" where
  "frame_ok t \<longleftrightarrow> length (fr_units t) \<le> 30 \<and> length (fr_bullets t) \<le> 4096
     \<and> length (fr_logs t) \<le> 64 \<and> (\<forall>e\<in>set (fr_logs t). length (le_payload e) \<le> 512)"

lemma sum_list_map_bound:
  fixes k :: nat
  shows "(\<And>x. x \<in> set xs \<Longrightarrow> f x \<le> k) \<Longrightarrow> sum_list (map f xs) \<le> length xs * k"
proof (induction xs)
  case (Cons x xs)
  then have "sum_list (map f xs) \<le> length xs * k" "f x \<le> k" by simp_all
  then show ?case by simp
qed simp

lemma tick_payload_length: "frame_ok t \<Longrightarrow> length (tick_payload t) \<le> 100000"
proof -
  assume ok: "frame_ok t"
  have "length (log_bytes e) \<le> 522" if "e \<in> set (fr_logs t)" for e
    using ok that by (simp add: frame_ok_def log_bytes_def)
  then have "length (concat (map log_bytes (fr_logs t))) \<le> length (fr_logs t) * 522"
    by (simp add: length_concat comp_def sum_list_map_bound)
  moreover have "length (fr_logs t) * 522 \<le> 64 * 522" using ok by (simp add: frame_ok_def)
  ultimately show ?thesis
    using ok by (simp add: tick_payload_def frame_ok_def length_concat comp_def sum_list_triv)
qed

lemma encodeReplayTick_bytes:
  assumes "frame_ok t" shows "encodeReplayTick t b = Some (b @ tick_bytes t)"
proof -
  have logs: "foldM encodeLogEntry (fr_logs t) c = Some (c @ concat (map log_bytes (fr_logs t)))" for c
    using assms by (intro foldM_append_map) (auto simp: frame_ok_def intro!: encodeLogEntry_bytes)
  have items: "fold encodeUnit us c = c @ concat (map unit_bytes us)"
    "fold encodeBullet bls c = c @ concat (map bullet_bytes bls)" for us bls c
    by (rule fold_append_map, simp add: encode_item_bytes)+
  have "length (fr_units t) \<le> 65535 \<and> length (fr_bullets t) \<le> 65535 \<and> length (fr_logs t) \<le> 65535"
    using assms by (simp add: frame_ok_def)
  moreover have "length (tick_payload t) \<le> 4294967295" using tick_payload_length [OF assms] by simp
  moreover have "patchU32 (length b + 5) v ((b @ record_type_tick # u32_bytes (fr_tick t)) @ u32_bytes 0 @ p)
      = Some ((b @ record_type_tick # u32_bytes (fr_tick t)) @ u32_bytes v @ p)" for v p
    using patchU32_placeholder [of "b @ record_type_tick # u32_bytes (fr_tick t)"] by simp
  ultimately show ?thesis
    by (simp add: encodeReplayTick_def Let_def logs items encode_item_bytes tick_payload_def tick_bytes_def)
qed

subsection \<open>Reading back\<close>

lemma read_list_map:
  assumes "\<And>x bs. x \<in> set xs \<Longrightarrow> f (g x @ bs) = Some (x, bs)"
  shows "read_list (length xs) f (concat (map g xs) @ bs) = Some (xs, bs)"
  using assms by (induction xs) simp_all

lemma decode_list_map:
  assumes "\<And>x bs. x \<in> set xs \<Longrightarrow> f (g x @ bs) = Some (Inr x, bs)"
  shows "decode_list (length xs) f (concat (map g xs) @ bs) = Some (Inr xs, bs)"
  using assms by (induction xs) simp_all

definition tilemap_ok :: "replay_tilemap \<Rightarrow> bool" where
  "tilemap_ok m \<longleftrightarrow> rt_width m \<le> 512 \<and> rt_height m \<le> 512 \<and> length (rt_tiles m) = tileCount m
     \<and> (\<forall>t\<in>set (rt_tiles m). tile_flags_wf t)"

lemma decodeTilemap_bytes:
  assumes "tilemap_ok m"
  shows "decodeTilemap list_ops (tilemap_bytes m @ bs) = Some (Inr m, bs)"
proof -
  have t: "read_list (length (rt_tiles m)) (read_tile list_ops) (concat (map (\<lambda>t. [tile_pack t]) (rt_tiles m)) @ bs)
      = Some (rt_tiles m, bs)"
    by (rule read_list_map) (use assms in \<open>simp add: read_tile_def tile_unpack_pack tilemap_ok_def\<close>)
  have n: "tileCount \<lparr>rt_width = rt_width m, rt_height = rt_height m, rt_base_size = rt_base_size m, rt_tiles = []\<rparr>
      = length (rt_tiles m)"
    using assms by (simp add: tilemap_ok_def tileCount_def)
  show ?thesis
    using assms t
    by (simp add: decodeTilemap_def tilemap_bytes_def Let_def n concat_map_singleton tilemap_ok_def not_less)
qed

lemma decodeGameRules_bytes: "decodeGameRules list_ops (rules_bytes r @ bs) = Some (Inr r, bs)"
  by (simp add: decodeGameRules_def rules_bytes_def sizeof_game_rules_def)

lemma log_codes [simp]:
  "log_source_of (log_source_code src) = src" "log_type_of (log_type_code ty) = ty"
  "log_source_code src \<le> 1" "log_type_code ty \<le> 4"
proof -
  show "log_source_of (log_source_code src) = src" "log_source_code src \<le> 1"
    by (cases src; simp add: log_source_of_def)+
  show "log_type_of (log_type_code ty) = ty" "log_type_code ty \<le> 4"
    by (cases ty; simp add: log_type_of_def)+
qed

lemma decodeLogEntry_bytes:
  assumes "length (le_payload e) \<le> 512"
  shows "decodeLogEntry list_ops (log_bytes e @ bs) = Some (Inr e, bs)"
proof -
  let ?n = "word_of_nat (length (le_payload e)) :: u16"
  have n: "unat ?n = length (le_payload e)" using assms by (intro word_of_nat_unat_le) simp
  then have "?n \<le> 512" "?n = 0 \<longleftrightarrow> le_payload e = []"
    using assms by (auto simp: word_le_nat_alt unat_eq_0 [symmetric])
  then show ?thesis using n
    by (simp add: decodeLogEntry_def log_bytes_def Let_def not_less word_gt_0)
qed

lemma read_items:
  "read_player list_ops (player_bytes p @ bs) = Some (p, bs)"
  "read_unit list_ops (unit_bytes u @ bs) = Some (u, bs)"
  "read_bullet list_ops (bullet_bytes bl @ bs) = Some (bl, bs)"
  by (simp_all add: read_player_def player_bytes_def read_unit_def unit_bytes_def read_bullet_def bullet_bytes_def)

lemma read_section_bytes:
  assumes "length xs \<le> unat mx" "\<And>x bs. x \<in> set xs \<Longrightarrow> f (g x @ bs) = Some (x, bs)"
    "\<And>x. length (g x) = k"
  shows "read_section list_ops mx err k f (u16_bytes (word_of_nat (length xs)) @ concat (map g xs) @ bs)
    = Some (Inr xs, bs)"
proof -
  let ?n = "word_of_nat (length xs) :: u16"
  have "unat mx < 65536" by (rule unat_u16_lt)
  then have n: "unat ?n = length xs" using assms(1) by (intro word_of_nat_unat_le) simp
  then have "?n \<le> mx" using assms(1) by (simp add: word_le_nat_alt)
  then show ?thesis using n read_list_map [OF assms(2)]
    by (simp add: read_section_def Let_def not_less length_concat comp_def assms(3) sum_list_triv)
qed

lemma decodeReplayTickPayload_bytes:
  assumes "frame_ok t"
  shows "decodeReplayTickPayload list_ops (fr_tick t) (tick_payload t @ bs) = Some (Inr t, bs)"
proof -
  let ?n = "word_of_nat (length (fr_logs t)) :: u16"
  have n: "unat ?n = length (fr_logs t)" using assms by (intro word_of_nat_unat_le) (simp add: frame_ok_def)
  then have le: "\<not> ?n > 64" using assms by (simp add: word_less_nat_alt frame_ok_def)
  have us: "read_section list_ops 30 UnitCountExceedsMaximum 9 (read_unit list_ops)
      (u16_bytes (word_of_nat (length (fr_units t))) @ concat (map unit_bytes (fr_units t)) @ rest)
      = Some (Inr (fr_units t), rest)" for rest
    by (rule read_section_bytes) (use assms in \<open>simp_all add: frame_ok_def read_items\<close>)
  have bls: "read_section list_ops 4096 BulletCountExceedsMaximum 5 (read_bullet list_ops)
      (u16_bytes (word_of_nat (length (fr_bullets t))) @ concat (map bullet_bytes (fr_bullets t)) @ rest)
      = Some (Inr (fr_bullets t), rest)" for rest
    by (rule read_section_bytes) (use assms in \<open>simp_all add: frame_ok_def read_items\<close>)
  have logs: "decode_list (length (fr_logs t)) (decodeLogEntry list_ops)
      (concat (map log_bytes (fr_logs t)) @ rest) = Some (Inr (fr_logs t), rest)" for rest
    by (rule decode_list_map, rule decodeLogEntry_bytes) (use assms in \<open>simp add: frame_ok_def\<close>)
  have t: "t = \<lparr>fr_tick = fr_tick t, fr_players = (fst (fr_players t), snd (fr_players t)),
      fr_units = fr_units t, fr_bullets = fr_bullets t, fr_logs = fr_logs t\<rparr>" by simp
  show ?thesis
    by (simp add: decodeReplayTickPayload_def tick_payload_def Let_def us bls logs n le read_items)
qed

definition end_ok :: "end_marker \<Rightarrow> bool" where
  "end_ok e \<longleftrightarrow> (if em_termination e = EndCompleted then em_winner_player_id e \<in> {1, 2}
     else em_winner_player_id e = 0)"

definition end_bytes :: "end_marker \<Rightarrow> byte list" where
  "end_bytes e = [record_type_end, replay_termination_code (em_termination e), em_winner_player_id e]"

lemma encodeReplayEndMarker_bytes: "encodeReplayEndMarker e b = b @ end_bytes e"
  by (simp add: encodeReplayEndMarker_def end_bytes_def)

lemma decodeReplayEndMarker_bytes:
  "end_ok e \<Longrightarrow> decodeReplayEndMarker list_ops (tl (end_bytes e) @ bs) = Some (Inr e, bs)"
  by (cases e; cases "em_termination e")
    (auto simp: decodeReplayEndMarker_def end_bytes_def end_ok_def replay_termination_of_def)

definition header_ok :: "replay_header \<Rightarrow> bool" where
  "header_ok h \<longleftrightarrow> rh_version h = replay_version \<and> tilemap_ok (rh_tilemap h)
     \<and> tilemapEncodedSize (rh_tilemap h) + sizeof_game_rules \<le> 65535"

definition header_payload :: "replay_header \<Rightarrow> byte list" where
  "header_payload h = tilemap_bytes (rh_tilemap h) @ rules_bytes (rh_game_rules h)"

definition header_bytes :: "replay_header \<Rightarrow> byte list" where
  "header_bytes h = replay_magic @ u16_bytes (rh_version h)
     @ u16_bytes (word_of_nat (length (header_payload h))) @ header_payload h"

lemma length_header_payload:
  "tilemap_ok (rh_tilemap h) \<Longrightarrow>
     length (header_payload h) = tilemapEncodedSize (rh_tilemap h) + sizeof_game_rules"
  by (simp add: header_payload_def tilemap_bytes_def tilemapEncodedSize_def tilemap_ok_def)

lemma encodeReplayHeader_bytes:
  "header_ok h \<Longrightarrow> encodeReplayHeader h b = Some (b @ header_bytes h)"
  using length_header_payload [of h]
  by (simp add: encodeReplayHeader_def header_ok_def Let_def encodeTilemap_bytes encodeGameRules_bytes
      header_bytes_def header_payload_def tilemap_ok_def)

lemma decodeHeaderPayload_bytes:
  "tilemap_ok (rh_tilemap h) \<Longrightarrow>
     decodeHeaderPayload list_ops (rh_version h) (header_payload h @ bs) = Some (Inr h, bs)"
  by (simp add: decodeHeaderPayload_def header_payload_def decodeTilemap_bytes decodeGameRules_bytes)

end
