(* ===== verification/Replay_Stream.thy ===== *)
theory Replay_Stream
  imports Replay_Safe Replay_Roundtrip
begin

text \<open>
  \<open>ReplayStreamDecoder\<close> (\<open>include/corertt/replay.h\<close>, the end of \<open>src/replay.cpp\<close>) as a state
  machine over its stream adapter, and the loop of \<open>runPlaybackMode\<close> (\<open>src/cli/main.cpp\<close>) that
  drives it. A decoder method has no result where an assertion of the source fails.
\<close>

subsection \<open>The state machine\<close>

datatype parse_phase = PhaseHeader | PhaseTick | PhaseEnd

record 's decoder =
  dc_phase :: parse_phase
  dc_stream :: 's
  dc_header :: replay_header
  dc_end_marker :: end_marker

definition default_header :: replay_header where
  "default_header = \<lparr>rh_version = 5,
     rh_tilemap = \<lparr>rt_width = 0, rt_height = 0, rt_base_size = 0, rt_tiles = []\<rparr>,
     rh_game_rules = default_rules\<rparr>"

definition default_end_marker :: end_marker where
  "default_end_marker = \<lparr>em_termination = EndAborted, em_winner_player_id = 0\<rparr>"

definition new_decoder :: "'s \<Rightarrow> 's decoder" where
  "new_decoder s = \<lparr>dc_phase = PhaseHeader, dc_stream = s, dc_header = default_header,
     dc_end_marker = default_end_marker\<rparr>"

definition hasHeader :: "'s decoder \<Rightarrow> bool" where
  "hasHeader d \<longleftrightarrow> dc_phase d \<noteq> PhaseHeader"

definition ended :: "'s decoder \<Rightarrow> bool" where
  "ended d \<longleftrightarrow> dc_phase d = PhaseEnd"

definition decoder_header :: "'s decoder \<Rightarrow> replay_header option" where
  "decoder_header d = (if hasHeader d then Some (dc_header d) else None)"

definition decoder_endMarker :: "'s decoder \<Rightarrow> end_marker option" where
  "decoder_endMarker d = (if ended d then Some (dc_end_marker d) else None)"

definition canReadHeader :: "'s stream_ops \<Rightarrow> 's decoder \<Rightarrow> (bool \<times> 's decoder) option" where
  "canReadHeader ops d =
     (if hasHeader d then Some (True, d)
      else (case so_has ops 8 (dc_stream d) of (ok, s) \<Rightarrow>
        if \<not> ok then Some (False, d\<lparr>dc_stream := s\<rparr>)
        else do {
          (prefix, s) \<leftarrow> so_peek ops 8 s;
          let header_size = unat (u16_of_bytes (drop 6 prefix));
          (case so_has ops (8 + header_size) s of (ok, s) \<Rightarrow> Some (ok, d\<lparr>dc_stream := s\<rparr>))
        }))"

definition canReadNextRecord :: "'s stream_ops \<Rightarrow> 's decoder \<Rightarrow> (bool \<times> 's decoder) option" where
  "canReadNextRecord ops d =
     (if \<not> hasHeader d \<or> ended d then Some (False, d)
      else (case so_has ops 1 (dc_stream d) of (ok, s) \<Rightarrow>
        if \<not> ok then Some (False, d\<lparr>dc_stream := s\<rparr>)
        else do {
          (kind, s) \<leftarrow> so_peek ops 1 s;
          if kind ! 0 = record_type_end then
            (case so_has ops 2 s of (ok, s) \<Rightarrow> Some (ok, d\<lparr>dc_stream := s\<rparr>))
          else if kind ! 0 \<noteq> record_type_tick then Some (False, d\<lparr>dc_stream := s\<rparr>)
          else (case so_has ops 9 s of (ok, s) \<Rightarrow>
            if \<not> ok then Some (False, d\<lparr>dc_stream := s\<rparr>)
            else do {
              (prefix, s) \<leftarrow> so_peek ops 9 s;
              let payload_size = unat (u32_of_bytes (drop 5 prefix));
              (case so_has ops (9 + payload_size) s of (ok, s) \<Rightarrow> Some (ok, d\<lparr>dc_stream := s\<rparr>))
            })
        }))"

text \<open>\<open>CR_FAIL_FAST_ASSERT_HEAVY\<close> around one of the two tests above.\<close>

definition heavy_check ::
    "'s stream_ops \<Rightarrow> ('s stream_ops \<Rightarrow> 's decoder \<Rightarrow> (bool \<times> 's decoder) option) \<Rightarrow> 's decoder
       \<Rightarrow> 's decoder option" where
  "heavy_check ops test d =
     (if so_ndebug ops then Some d
      else do { (ok, d) \<leftarrow> test ops d; if ok then Some d else None })"

definition readHeader :: "'s stream_ops \<Rightarrow> 's decoder \<Rightarrow> ((decode_error + unit) \<times> 's decoder) option" where
  "readHeader ops d = do {
     fail_fast_assert (\<not> hasHeader d);
     d \<leftarrow> heavy_check ops canReadHeader d;
     (r, s) \<leftarrow> decodeReplayHeader ops (dc_stream d);
     (case r of
        Inl e \<Rightarrow> Some (Inl e, d\<lparr>dc_stream := s\<rparr>)
      | Inr h \<Rightarrow> Some (Inr (), d\<lparr>dc_stream := s, dc_header := h, dc_phase := PhaseTick\<rparr>))
   }"

datatype read_result = ReadTick tick_frame | ReadEnd | ReadError decode_error

text \<open>
  The part of \<open>nextTick\<close> that reads: an error, or a tick frame, or an end marker. A payload that
  is rejected is not skipped.
\<close>

definition read_record :: "'s stream_ops \<Rightarrow> 's \<Rightarrow> (tick_frame + end_marker, 's) decode_result" where
  "read_record ops s = do {
     (kind, s) \<leftarrow> readU8 ops s;
     if kind = record_type_end then do {
       (r, s) \<leftarrow> decodeReplayEndMarker ops s;
       Some (map_sum id Inr r, s)
     }
     else if kind \<noteq> record_type_tick then Some (Inl UnknownRecordType, s)
     else do {
       (tick_id, s) \<leftarrow> readU32 ops s;
       (payload_size, s) \<leftarrow> readU32 ops s;
       (case rb_has ops (unat payload_size) s of (ok, s) \<Rightarrow>
         if \<not> ok then Some (Inl TickPayloadTooSmall, s)
         else do {
           (bytes, s) \<leftarrow> rb_peek ops (unat payload_size) s;
           (r, _) \<leftarrow> decodeReplayTickPayload (memory_ops (so_ndebug ops)) tick_id (memory_stream_new bytes);
           (case r of
              Inl e \<Rightarrow> Some (Inl e, s)
            | Inr t \<Rightarrow> do {
                s \<leftarrow> rb_skip ops (unat payload_size) s;
                Some (Inr (Inl t), s)
              })
         })
     }
   }"

definition nextTick :: "'s stream_ops \<Rightarrow> 's decoder \<Rightarrow> (read_result \<times> 's decoder) option" where
  "nextTick ops d = do {
     fail_fast_assert (hasHeader d);
     fail_fast_assert (\<not> ended d);
     d \<leftarrow> heavy_check ops canReadNextRecord d;
     (r, s) \<leftarrow> read_record ops (dc_stream d);
     let d = d\<lparr>dc_stream := s\<rparr>;
     (case r of
        Inl e \<Rightarrow> Some (ReadError e, d)
      | Inr (Inr e) \<Rightarrow> Some (ReadEnd, d\<lparr>dc_end_marker := e, dc_phase := PhaseEnd\<rparr>)
      | Inr (Inl t) \<Rightarrow> Some (ReadTick t, d))
   }"

subsection \<open>The playback loop\<close>

datatype published =
    PubHeader replay_header
  | PubTick tick_frame
  | PubEnd end_marker
  | PubError decode_error
  | PubIOError

text \<open>
  \<open>fuel\<close> is the number of times \<open>ui.shouldStop()\<close> returns false; \<open>eof\<close> and \<open>good\<close> are the states of
  the input file. The result is what was published and the exit code.
\<close>

fun playback_loop ::
    "'s stream_ops \<Rightarrow> ('s \<Rightarrow> bool) \<Rightarrow> ('s \<Rightarrow> bool) \<Rightarrow> nat \<Rightarrow> 's decoder \<Rightarrow> (published list \<times> int) option" where
  "playback_loop ops eof good 0 d = Some ([], 0)"
| "playback_loop ops eof good (Suc fuel) d =
     (if ended d then do { e \<leftarrow> decoder_endMarker d; Some ([PubEnd e], 0) }
      else do {
        (ok, d) \<leftarrow> canReadNextRecord ops d;
        if ok then do {
          (r, d) \<leftarrow> nextTick ops d;
          (case r of
             ReadError e \<Rightarrow> Some ([PubError e], 1)
           | ReadTick t \<Rightarrow> do {
               (rest, code) \<leftarrow> playback_loop ops eof good fuel d;
               Some (PubTick t # rest, code)
             }
           | ReadEnd \<Rightarrow> do { e \<leftarrow> decoder_endMarker d; Some ([PubEnd e], 0) })
        }
        else if eof (dc_stream d) then Some ([PubError MissingEndMarker], 1)
        else if \<not> good (dc_stream d) then Some ([PubIOError], 1)
        else playback_loop ops eof good fuel d
      })"

definition runPlayback ::
    "'s stream_ops \<Rightarrow> ('s \<Rightarrow> bool) \<Rightarrow> ('s \<Rightarrow> bool) \<Rightarrow> nat \<Rightarrow> 's \<Rightarrow> (published list \<times> int) option" where
  "runPlayback ops eof good fuel s = do {
     (ok, d) \<leftarrow> canReadHeader ops (new_decoder s);
     if \<not> ok then Some ([PubError MissingHeader], 1)
     else do {
       (r, d) \<leftarrow> readHeader ops d;
       (case r of
          Inl e \<Rightarrow> Some ([PubError e], 1)
        | Inr _ \<Rightarrow> do {
            h \<leftarrow> decoder_header d;
            (rest, code) \<leftarrow> playback_loop ops eof good fuel d;
            Some (PubHeader h # rest, code)
          })
     }
   }"

subsection \<open>The header over every adapter\<close>

text \<open>
  The payload is decoded from memory. In both builds the result is the one over the list of its bytes.
\<close>

lemma memory_decode:
  assumes view: "\<And>nd s bs k p. ms_view s bs k p \<Longrightarrow> read_rel ms_view (\<lambda>_. 0) (D (memory_ops nd) s) (D' bs)"
    and total: "\<And>bs. leaves 0 (D' bs)"
  shows "\<exists>r rest s'. D' bs = Some (r, rest) \<and> D (memory_ops nd) (memory_stream_new bs) = Some (r, s')"
proof -
  obtain r rest where r: "D' bs = Some (r, rest)" using total [of bs] by (auto simp: leaves_def)
  from view [OF memory_stream_new_view, of nd bs] show ?thesis
    unfolding r by (auto dest: read_relD)
qed

lemma header_memory:
  "\<exists>r rest s'. decodeHeaderPayload list_ops v bs = Some (r, rest)
     \<and> decodeHeaderPayload (memory_ops nd) v (memory_stream_new bs) = Some (r, s')"
  by (rule memory_decode [of "\<lambda>ops. decodeHeaderPayload ops v"])
    (rule memory.decodeHeaderPayload_view decodeHeaderPayload_total, assumption?)+

lemma payload_memory:
  "\<exists>r rest s'. decodeReplayTickPayload list_ops t bs = Some (r, rest)
     \<and> decodeReplayTickPayload (memory_ops nd) t (memory_stream_new bs) = Some (r, s')"
  by (rule memory_decode [of "\<lambda>ops. decodeReplayTickPayload ops t"])
    (rule memory.decodeReplayTickPayload_view decodeReplayTickPayload_total, assumption?)+

lemma check_magic_total:
  "length magic + k \<le> length bs \<Longrightarrow> leaves k (check_magic list_ops magic bs)
     \<or> (\<exists>rest. check_magic list_ops magic bs = Some (False, rest))"
proof (induction magic arbitrary: bs)
  case (Cons m magic)
  then obtain b bs' where "bs = b # bs'" by (cases bs) auto
  then show ?case using Cons.IH [of bs'] Cons.prems by auto
qed (simp add: leaves_Some)

lemma byte_counts:
  "(4 :: nat) = Suc (Suc (Suc (Suc 0)))"
  "(9 :: nat) = Suc (Suc (Suc (Suc (Suc (Suc (Suc (Suc (Suc 0))))))))"
  by simp_all

lemma decodeReplayHeader_total: "leaves 0 (decodeReplayHeader list_ops bs)"
proof -
  have inner: "leaves 0 (decodeHeaderPayload (memory_ops nd) v (memory_stream_new b) \<bind> (\<lambda>(h, _). Some (h, rest)))"
    for nd v b rest
    using header_memory [of v b nd] by (auto simp: leaves_def)
  have after_magic: "leaves 0
      (do { (version, s) \<leftarrow> readU16 list_ops rest; (n, s) \<leftarrow> readU16 list_ops s;
        if version \<noteq> replay_version then Some (Inl UnsupportedVersion, s)
        else (case rb_has list_ops (unat n) s of (ok, s) \<Rightarrow>
          if \<not> ok then Some (Inl TruncatedHeaderPayload, s)
          else readBytes list_ops (unat n) s \<bind> (\<lambda>(bytes, s). decodeHeaderPayload (memory_ops (so_ndebug list_ops)) version
            (memory_stream_new bytes) \<bind> (\<lambda>(h, _). Some (h, s)))) })"
    if "4 \<le> length rest" for rest
    using that unfolding byte_counts
    by - ((rule leaves_bind, erule leaves_reads)+,
        (rule leaves_if leaves_has leaves_any inner | (rule leaves_bind, erule leaves_readBytes))+)
  show ?thesis
    unfolding decodeReplayHeader_def Let_def
  proof (rule leaves_has)
    assume l: "8 \<le> length bs"
    have magic: "length replay_magic + 4 \<le> length bs" using l by (simp add: replay_magic_def)
    from check_magic_total [OF this]
    have "\<exists>ok rest. check_magic list_ops replay_magic bs = Some (ok, rest) \<and> (ok \<longrightarrow> 4 \<le> length rest)"
      by (auto simp: leaves_def)
    then show "leaves 0 (check_magic list_ops replay_magic bs \<bind> (\<lambda>(magic_ok, s).
        if \<not> magic_ok then Some (Inl BadMagic, s)
        else readU16 list_ops s \<bind> (\<lambda>(version, s). readU16 list_ops s \<bind> (\<lambda>(header_size, s).
          if version \<noteq> replay_version then Some (Inl UnsupportedVersion, s)
          else case rb_has list_ops (unat header_size) s of (ok, s) \<Rightarrow>
            if \<not> ok then Some (Inl TruncatedHeaderPayload, s)
            else readBytes list_ops (unat header_size) s \<bind> (\<lambda>(bytes, s).
              decodeHeaderPayload (memory_ops (so_ndebug list_ops)) version (memory_stream_new bytes) \<bind>
              (\<lambda>(header, uu). Some (header, s)))))))"
      using after_magic by (auto simp: leaves_any simp del: list_has list_readBytes)
  qed
qed

definition record_complete :: "byte list \<Rightarrow> bool" where
  "record_complete bs \<longleftrightarrow> 1 \<le> length bs \<and>
     (bs ! 0 = record_type_end \<and> 2 \<le> length bs
      \<or> bs ! 0 = record_type_tick \<and> 9 + unat (u32_of_bytes (drop 5 bs)) \<le> length bs)"

lemma read_record_total:
  assumes "record_complete bs" shows "leaves 0 (read_record list_ops bs)"
proof -
  obtain kind rest where bs: "bs = kind # rest" using assms by (cases bs) (auto simp: record_complete_def)
  have inner: "leaves 0 (decodeReplayTickPayload (memory_ops nd) v (memory_stream_new b) \<bind> (\<lambda>(r, _).
      case r of Inl e \<Rightarrow> Some (Inl e, rest) | Inr t \<Rightarrow> rb_skip list_ops n rest \<bind> (\<lambda>s. Some (Inr (Inl t), s))))"
    if "n \<le> length rest" for nd v b rest n
    using payload_memory [of v b nd] that by (auto simp: leaves_def split: sum.split)
  have peek: "leaves 0 (rb_peek list_ops n rest \<bind> (\<lambda>(bytes, s).
      decodeReplayTickPayload (memory_ops nd) v (memory_stream_new bytes) \<bind> (\<lambda>(r, _).
      case r of Inl e \<Rightarrow> Some (Inl e, s) | Inr t \<Rightarrow> rb_skip list_ops n s \<bind> (\<lambda>s. Some (Inr (Inl t), s)))))"
    if "n \<le> length rest" for nd v rest n
    using that inner [OF that] by simp
  have e: "leaves 0 (decodeReplayEndMarker list_ops rest \<bind> (\<lambda>(r, s). Some (map_sum id Inr r, s)))" for rest
    by (rule leaves_bind [OF decodeReplayEndMarker_total leaves_any])
  show ?thesis
  proof (cases "kind = record_type_tick")
    case True
    then have "Suc (Suc (Suc (Suc (Suc (Suc (Suc (Suc 0))))))) \<le> length rest"
      using assms by (auto simp: record_complete_def bs record_type_tick_def record_type_end_def)
    then show ?thesis
      unfolding read_record_def bs list_readU8 option.simps Option.bind.simps prod.case
      by - (rule leaves_if, rule e, rule leaves_if, rule leaves_any,
          (rule leaves_bind, erule leaves_reads)+, rule leaves_has, erule peek)
  next
    case False
    then show ?thesis
      unfolding read_record_def bs list_readU8 option.simps Option.bind.simps prod.case
      by - (rule leaves_if, rule e, rule leaves_if, rule leaves_any, simp)
  qed
qed

context stream_adapter begin

lemma check_magic_view:
  "view s bs (length magic + k) p \<Longrightarrow>
     read_rel view (\<lambda>_. 0) (check_magic ops magic s) (check_magic list_ops magic bs)
     \<and> (\<forall>rest. check_magic list_ops magic bs = Some (True, rest) \<longrightarrow>
          (\<exists>s' p'. check_magic ops magic s = Some (True, s') \<and> view s' rest k p'))"
proof (induction magic arbitrary: s bs p)
  case Nil
  then show ?case using done_rule_0 [OF Nil] by auto
next
  case (Cons m magic)
  have "1 \<le> length bs" using view_length [OF Cons.prems] by simp
  then obtain b bs' where bs: "bs = b # bs'" by (cases bs) auto
  have "read_rel view (\<lambda>_. length magic + k) (readU8 ops s) (readU8 list_ops bs)"
    using reads(1) [of s bs "length magic + k" p] Cons.prems by simp
  then obtain s1 p1 where s1: "readU8 ops s = Some (b, s1)" "view s1 bs' (length magic + k) p1"
    unfolding bs list_readU8 by (auto dest: read_relD)
  show ?case using Cons.IH [OF s1(2)] by (auto simp: s1(1) bs intro: done_rule_0 [OF s1(2)])
qed

lemma magic_rule:
  assumes "view s bs (length magic + k) p" "\<And>s' rest p. view s' rest k p \<Longrightarrow> read_rel view (\<lambda>_. 0) (f s') (f' rest)"
  shows "read_rel view (\<lambda>_. 0) (check_magic ops magic s \<bind> (\<lambda>(ok, s). if \<not> ok then Some (e, s) else f s))
    (check_magic list_ops magic bs \<bind> (\<lambda>(ok, s). if \<not> ok then Some (e, s) else f' s))"
proof -
  obtain ok rest where m: "check_magic list_ops magic bs = Some (ok, rest)"
    using check_magic_total [OF view_length [OF assms(1)]] by (auto simp: leaves_def)
  show ?thesis
  proof (cases ok)
    case True
    then obtain s1 p1 where "check_magic ops magic s = Some (True, s1)" "view s1 rest k p1"
      using check_magic_view [OF assms(1)] m by auto
    then show ?thesis using assms(2) m True by simp
  next
    case False
    then obtain s1 p1 where "check_magic ops magic s = Some (False, s1)" "view s1 rest 0 p1"
      using check_magic_view [OF assms(1)] m by (auto dest: read_relD)
    then show ?thesis using m False done_rule_0 by simp
  qed
qed

lemma decodeReplayHeader_view:
  assumes v: "view s bs k p"
  shows "read_rel view (\<lambda>_. 0) (decodeReplayHeader ops s) (decodeReplayHeader list_ops bs)"
proof -
  have inner: "read_rel view (\<lambda>_. 0)
      (decodeHeaderPayload (memory_ops (so_ndebug ops)) v (memory_stream_new b) \<bind> (\<lambda>(h, _). Some (h, s')))
      (decodeHeaderPayload (memory_ops (so_ndebug list_ops)) v (memory_stream_new b) \<bind> (\<lambda>(h, _). Some (h, rest)))"
    if "view s' rest j q" for v b s' rest j q
  proof -
    obtain r where "\<exists>s'. decodeHeaderPayload (memory_ops (so_ndebug ops)) v (memory_stream_new b) = Some (r, s')"
      "\<exists>s'. decodeHeaderPayload (memory_ops (so_ndebug list_ops)) v (memory_stream_new b) = Some (r, s')"
      using header_memory [of v b "so_ndebug ops"] header_memory [of v b "so_ndebug list_ops"] by auto
    then show ?thesis using done_rule_0 [OF that] by auto
  qed
  have tail: "read_rel view (\<lambda>_. 0)
      (readBytes ops n s' \<bind> (\<lambda>(bytes, s). decodeHeaderPayload (memory_ops (so_ndebug ops)) v (memory_stream_new bytes)
         \<bind> (\<lambda>(h, _). Some (h, s))))
      (readBytes list_ops n rest \<bind> (\<lambda>(bytes, s). decodeHeaderPayload (memory_ops (so_ndebug list_ops)) v (memory_stream_new bytes)
         \<bind> (\<lambda>(h, _). Some (h, s))))"
    if "view s' rest n q" for s' rest n q v
    by (rule read_rel_bind [OF readBytes_rule [OF that]]) (erule inner)
  show ?thesis
    unfolding decodeReplayHeader_def Let_def
  proof (rule has_rule [OF v], rule magic_rule)
    fix s' assume "view s' bs 8 p"
    moreover have "length replay_magic + Suc (Suc (Suc (Suc 0))) = 8" by (simp add: replay_magic_def)
    ultimately show "view s' bs (length replay_magic + Suc (Suc (Suc (Suc 0)))) p" by simp
  qed ((rule read_rel_bind, erule reads)+, (rule if_rule | erule done_rule_0 has_rule tail)+)
qed

end

end
