(* ===== verification/Plain_UI.thy ===== *)
theory Plain_UI
  imports Replay_Stream
begin

text \<open>
  The interface of a user interface (\<open>UIRunner\<close> in \<open>include/corertt/ui.h\<close>) and the one that prints
  lines (\<open>PlainUIRunner\<close> in \<open>src/plain_ui.cpp\<close>). The state of the plain one is the text it has given to
  its two streams, so flushing leaves it as it is. The locale \<open>steady_ui\<close> is the contract of a user
  interface that never asks to stop and is never waited for; \<open>staged_ui\<close> that of an invariant of one.
\<close>

subsection \<open>The interface\<close>

text \<open>
  One operation per virtual function of \<open>UIRunner\<close>; \<open>None\<close> is a \<open>wait\<close> that does not return.
  \<open>ui_publishTilemapSource\<close> is the extra function of
  \<open>TuiRunner\<close>: \<open>None\<close> where the \<open>dynamic_cast\<close> to that class gives a null pointer.
\<close>

record 'u ui_ops =
  ui_start :: "'u \<Rightarrow> 'u"
  ui_wait :: "'u \<Rightarrow> (int \<times> 'u) option"
  ui_publishHeader :: "replay_header \<Rightarrow> 'u \<Rightarrow> 'u"
  ui_publishTick :: "tick_frame \<Rightarrow> 'u \<Rightarrow> 'u"
  ui_publishEnd :: "end_marker \<Rightarrow> 'u \<Rightarrow> 'u"
  ui_publishError :: "string \<Rightarrow> 'u \<Rightarrow> 'u"
  ui_shouldStop :: "'u \<Rightarrow> bool \<times> 'u"
  ui_requestStop :: "'u \<Rightarrow> 'u"
  ui_publishTilemapSource :: "(string \<Rightarrow> 'u \<Rightarrow> 'u) option"

text \<open>\<open>to_string\<close> of a \<open>DecodeErrorCode\<close>.\<close>

fun decode_error_text :: "decode_error \<Rightarrow> string" where
  "decode_error_text TruncatedInput = ''TruncatedInput''"
| "decode_error_text BadMagic = ''BadMagic''"
| "decode_error_text UnsupportedVersion = ''UnsupportedVersion''"
| "decode_error_text TruncatedHeaderPayload = ''TruncatedHeaderPayload''"
| "decode_error_text TruncatedTilemapHeader = ''TruncatedTilemapHeader''"
| "decode_error_text TilemapDimensionsExceedMaximum = ''TilemapDimensionsExceedMaximum''"
| "decode_error_text TilemapTileCountExceedsMaximum = ''TilemapTileCountExceedsMaximum''"
| "decode_error_text TilemapDataTruncated = ''TilemapDataTruncated''"
| "decode_error_text TruncatedLogEntry = ''TruncatedLogEntry''"
| "decode_error_text InvalidLogSourceValue = ''InvalidLogSourceValue''"
| "decode_error_text InvalidLogTypeValue = ''InvalidLogTypeValue''"
| "decode_error_text LogPayloadTruncated = ''LogPayloadTruncated''"
| "decode_error_text TickPayloadTooSmall = ''TickPayloadTooSmall''"
| "decode_error_text UnitCountExceedsMaximum = ''UnitCountExceedsMaximum''"
| "decode_error_text BulletCountExceedsMaximum = ''BulletCountExceedsMaximum''"
| "decode_error_text LogCountExceedsMaximum = ''LogCountExceedsMaximum''"
| "decode_error_text LogPayloadSizeExceedsMaximum = ''LogPayloadSizeExceedsMaximum''"
| "decode_error_text TruncatedEndMarker = ''TruncatedEndMarker''"
| "decode_error_text InvalidReplayTermination = ''InvalidReplayTermination''"
| "decode_error_text InvalidEndMarkerPayload = ''InvalidEndMarkerPayload''"
| "decode_error_text UnknownRecordType = ''UnknownRecordType''"
| "decode_error_text MissingHeader = ''MissingHeader''"
| "decode_error_text MissingEndMarker = ''MissingEndMarker''"

text \<open>What is published, whichever user interface it goes to, in the words of \<open>runPlaybackMode\<close>.\<close>

definition header_error_text :: "decode_error \<Rightarrow> string" where
  "header_error_text e = ''Header decode error: '' @ decode_error_text e"

definition tick_error_text :: "decode_error \<Rightarrow> string" where
  "tick_error_text e = ''Tick decode error: '' @ decode_error_text e"

definition io_error_text :: "string \<Rightarrow> string" where
  "io_error_text path = ''I/O error while reading replay file: '' @ path"

locale steady_ui =
  fixes ui :: "'u ui_ops"
  assumes never_stops: "ui_shouldStop ui u = (False, u)"
    and waits: "ui_wait ui u = Some (0, u)"
    and no_source: "ui_publishTilemapSource ui = None"
begin

lemma goes_on [simp]: "ui_shouldStop ui u = (stop, u') \<longleftrightarrow> \<not> stop \<and> u' = u"
  by (auto simp: never_stops)

end

text \<open>
  What holds before the header, between the header and the end marker, and after it, when the operations are
  called in this order; \<open>fits\<close> is what is asked of the header.
\<close>

locale staged_ui =
  fixes ui :: "'u ui_ops" and stage :: "parse_phase \<Rightarrow> 'u \<Rightarrow> bool" and fits :: "replay_header \<Rightarrow> bool"
  assumes start: "stage PhaseHeader u \<Longrightarrow> stage PhaseHeader (ui_start ui u)"
    and wait: "stage ph u \<Longrightarrow> ui_wait ui u = Some (code, u') \<Longrightarrow> stage ph u'"
    and header: "stage PhaseHeader u \<Longrightarrow> fits h \<Longrightarrow> stage PhaseTick (ui_publishHeader ui h u)"
    and tick: "stage PhaseTick u \<Longrightarrow> stage PhaseTick (ui_publishTick ui t u)"
    and end_marker: "stage PhaseTick u \<Longrightarrow> stage PhaseEnd (ui_publishEnd ui e u)"
    and error: "stage ph u \<Longrightarrow> stage ph (ui_publishError ui message u)"
    and asked: "stage ph u \<Longrightarrow> stage ph (snd (ui_shouldStop ui u))"
    and request: "stage ph u \<Longrightarrow> stage ph (ui_requestStop ui u)"
    and source: "stage ph u \<Longrightarrow> ui_publishTilemapSource ui = Some publish \<Longrightarrow> stage ph (publish label u)"

subsection \<open>The plain user interface\<close>

record plain_ui =
  pu_output :: string
  pu_error :: string

definition plain_ui_new :: plain_ui where
  "plain_ui_new = \<lparr>pu_output = [], pu_error = []\<rparr>"

definition newline :: string where "newline = [CHR 0x0A]"

definition fmt_nat :: "('n::len) word \<Rightarrow> string" where
  "fmt_nat v = dec_digits (unat v)"

definition plain_out :: "string \<Rightarrow> plain_ui \<Rightarrow> plain_ui" where
  "plain_out text u = u\<lparr>pu_output := pu_output u @ text @ newline\<rparr>"

fun plain_termination :: "replay_termination \<Rightarrow> string" where
  "plain_termination EndCompleted = ''completed''"
| "plain_termination EndRuleDraw = ''rule-draw''"
| "plain_termination EndAborted = ''aborted''"

definition plain_header_lines :: "replay_header \<Rightarrow> string list" where
  "plain_header_lines h =
     (let m = rh_tilemap h; g = rh_game_rules h in
      [''H v='' @ fmt_nat (rh_version h) @ '' map='' @ fmt_nat (rt_width m) @ ''x'' @ fmt_nat (rt_height m)
         @ '' base='' @ fmt_nat (rt_base_size m),
       ''G width='' @ fmt_nat (gr_width g) @ '' height='' @ fmt_nat (gr_height g) @ '' base='' @ fmt_nat (gr_base_size g)
         @ '' unit_health='' @ fmt_nat (gr_unit_health g)
         @ '' natural_energy_rate='' @ fmt_nat (gr_natural_energy_rate g)
         @ '' resource_zone_energy_rate='' @ fmt_nat (gr_resource_zone_energy_rate g)
         @ '' attack_cooldown='' @ fmt_nat (gr_attack_cooldown g)
         @ '' capture_turn_threshold='' @ fmt_nat (gr_capture_turn_threshold g)
         @ '' vision_lv1='' @ fmt_nat (gr_vision_lv1 g) @ '' vision_lv2='' @ fmt_nat (gr_vision_lv2 g)
         @ '' capacity_lv1='' @ fmt_nat (gr_capacity_lv1 g) @ '' capacity_lv2='' @ fmt_nat (gr_capacity_lv2 g)
         @ '' capacity_upgrade_cost='' @ fmt_nat (gr_capacity_upgrade_cost g)
         @ '' vision_upgrade_cost='' @ fmt_nat (gr_vision_upgrade_cost g)
         @ '' damage_upgrade_cost='' @ fmt_nat (gr_damage_upgrade_cost g)
         @ '' manufact_cost='' @ fmt_nat (gr_manufact_cost g)])"

definition plain_player :: "replay_player \<Rightarrow> string" where
  "plain_player p = ''(e='' @ fmt_nat (rp_base_energy p) @ '',c='' @ fmt_nat (rp_base_capture_counter p) @ '')''"

definition plain_tick_line :: "tick_frame \<Rightarrow> string" where
  "plain_tick_line t = ''T t='' @ fmt_nat (fr_tick t) @ '' p1'' @ plain_player (fst (fr_players t))
     @ '' p2'' @ plain_player (snd (fr_players t)) @ '' u='' @ dec_digits (length (fr_units t))
     @ '' b='' @ dec_digits (length (fr_bullets t)) @ '' logs='' @ dec_digits (length (fr_logs t))"

definition plain_position :: "u8 \<Rightarrow> u8 \<Rightarrow> string" where
  "plain_position x y = ''('' @ fmt_nat x @ '','' @ fmt_nat y @ '')''"

definition plain_unit_line :: "replay_unit \<Rightarrow> string" where
  "plain_unit_line u = ''U id='' @ fmt_nat (ru_id u) @ '' p='' @ fmt_nat (ru_player_id u)
     @ '' '' @ plain_position (ru_x u) (ru_y u) @ '' hp='' @ fmt_nat (ru_health u) @ '' en='' @ fmt_nat (ru_energy u)
     @ '' cd='' @ fmt_nat (ru_attack_cooldown u) @ '' up='' @ fmt_nat (ru_upgrades u)"

definition plain_bullet_line :: "nat \<Rightarrow> replay_bullet \<Rightarrow> string" where
  "plain_bullet_line index b = ''B #'' @ dec_digits index @ '' p='' @ fmt_nat (rb_player_id b)
     @ '' '' @ plain_position (rb_x b) (rb_y b) @ '' dir='' @ fmt_nat (rb_direction b) @ '' dmg='' @ fmt_nat (rb_damage b)"

text \<open>The three loops of \<open>publishTick\<close>.\<close>

fun plain_bullets :: "nat \<Rightarrow> replay_bullet list \<Rightarrow> plain_ui \<Rightarrow> plain_ui" where
  "plain_bullets index [] u = u"
| "plain_bullets index (b # bs) u = plain_bullets (index + 1) bs (plain_out (plain_bullet_line index b) u)"

fun plain_logs :: "log_entry list \<Rightarrow> plain_ui \<Rightarrow> plain_ui" where
  "plain_logs [] u = u"
| "plain_logs (e # es) u = plain_logs es (fold (\<lambda>line. plain_out (''L '' @ line)) (format_log_lines e) u)"

definition plain_publishHeader :: "replay_header \<Rightarrow> plain_ui \<Rightarrow> plain_ui" where
  "plain_publishHeader h = fold plain_out (plain_header_lines h)"

definition plain_publishTick :: "tick_frame \<Rightarrow> plain_ui \<Rightarrow> plain_ui" where
  "plain_publishTick t u =
     (let u = plain_out (plain_tick_line t) u;
          u = fold (\<lambda>unit. plain_out (plain_unit_line unit)) (fr_units t) u;
          u = plain_bullets 0 (fr_bullets t) u
      in plain_logs (fr_logs t) u)"

definition plain_publishEnd :: "end_marker \<Rightarrow> plain_ui \<Rightarrow> plain_ui" where
  "plain_publishEnd e = plain_out (''E term='' @ plain_termination (em_termination e)
     @ '' winner='' @ fmt_nat (em_winner_player_id e))"

definition plain_publishError :: "string \<Rightarrow> plain_ui \<Rightarrow> plain_ui" where
  "plain_publishError message u = u\<lparr>pu_error := pu_error u @ ''ERR '' @ message @ newline\<rparr>"

definition plain_ui_ops :: "plain_ui ui_ops" where
  "plain_ui_ops =
     \<lparr>ui_start = plain_out ''UI mode: plain'', ui_wait = (\<lambda>u. Some (0, u)),
      ui_publishHeader = plain_publishHeader, ui_publishTick = plain_publishTick,
      ui_publishEnd = plain_publishEnd, ui_publishError = plain_publishError,
      ui_shouldStop = (\<lambda>u. (False, u)), ui_requestStop = (\<lambda>u. u), ui_publishTilemapSource = None\<rparr>"

lemma plain_ui_simps [simp]:
  "ui_start plain_ui_ops = plain_out ''UI mode: plain''"
  "ui_wait plain_ui_ops u = Some (0, u)"
  "ui_publishHeader plain_ui_ops = plain_publishHeader"
  "ui_publishTick plain_ui_ops = plain_publishTick"
  "ui_publishEnd plain_ui_ops = plain_publishEnd"
  "ui_publishError plain_ui_ops = plain_publishError"
  "ui_requestStop plain_ui_ops u = u"
  by (simp_all add: plain_ui_ops_def)

interpretation plain: steady_ui plain_ui_ops
  by unfold_locales (simp_all add: plain_ui_ops_def)

subsection \<open>What is printed\<close>

text \<open>Everything that a tick prints is a list of lines appended to the output.\<close>

definition plain_tick_lines :: "tick_frame \<Rightarrow> string list" where
  "plain_tick_lines t = plain_tick_line t # map plain_unit_line (fr_units t)
     @ map2 plain_bullet_line [0..<length (fr_bullets t)] (fr_bullets t)
     @ map ((@) ''L '') (concat (map format_log_lines (fr_logs t)))"

definition print_lines :: "string list \<Rightarrow> plain_ui \<Rightarrow> plain_ui" where
  "print_lines lines u = u\<lparr>pu_output := pu_output u @ concat (map (\<lambda>line. line @ newline) lines)\<rparr>"

lemma print_lines_append: "print_lines (xs @ ys) u = print_lines ys (print_lines xs u)"
  by (simp add: print_lines_def)

lemma print_lines_fold: "fold (\<lambda>x. plain_out (f x)) xs u = print_lines (map f xs) u"
  by (induction xs arbitrary: u) (simp_all add: print_lines_def plain_out_def)

lemma plain_out_lines: "plain_out line = print_lines [line]"
  by (simp add: fun_eq_iff print_lines_def plain_out_def)

lemma plain_bullets_lines:
  "plain_bullets n bs u = print_lines (map2 plain_bullet_line [n..<n + length bs] bs) u"
proof (induction bs arbitrary: n u)
  case (Cons b bs)
  then show ?case
    by (simp add: plain_out_lines print_lines_append [symmetric] upt_rec [of n] del: upt_Suc)
qed (simp add: print_lines_def)

lemma plain_logs_lines: "plain_logs es u = print_lines (map ((@) ''L '') (concat (map format_log_lines es))) u"
proof (induction es arbitrary: u)
  case (Cons e es)
  have "(@) ''L '' = (\<lambda>line. ''L '' @ line)" by (simp add: fun_eq_iff)
  then show ?case using Cons by (simp only: plain_logs.simps print_lines_fold list.map concat.simps map_append print_lines_append)
qed (simp add: print_lines_def)

lemma plain_publishTick_lines: "plain_publishTick t = print_lines (plain_tick_lines t)"
proof
  fix u
  have "plain_tick_lines t = [plain_tick_line t] @ map plain_unit_line (fr_units t)
      @ map2 plain_bullet_line [0..<length (fr_bullets t)] (fr_bullets t)
      @ map ((@) ''L '') (concat (map format_log_lines (fr_logs t)))"
    by (simp add: plain_tick_lines_def)
  then show "plain_publishTick t u = print_lines (plain_tick_lines t) u"
    by (simp only: print_lines_append plain_publishTick_def Let_def plain_out_lines [symmetric]
        print_lines_fold plain_bullets_lines plain_logs_lines add_0)
qed

end
