(* ===== verification/Entity.thy ===== *)
theory Entity
  imports Game_Rules
begin

text \<open>
  Directions, units and bullets (\<open>include/corertt/entity.h\<close>, \<open>src/entity.cpp\<close>) and the two
  players' sides. A unit's sandbox machine and system call context, private members of the
  class, are kept apart in the theory of the turn, because only \<open>Unit::step\<close> touches them.
\<close>

subsection \<open>Directions\<close>

datatype direction = Up | Right | Down | Left

fun direction_of :: "int \<Rightarrow> direction option" where
  "direction_of d =
     (if d = 0 then Some Up else if d = 1 then Some Right
      else if d = 2 then Some Down else if d = 3 then Some Left else None)"

fun direction_code :: "direction \<Rightarrow> int" where
  "direction_code Up = 0"
| "direction_code Right = 1"
| "direction_code Down = 2"
| "direction_code Left = 3"

lemma direction_of_code [simp]: "direction_of (direction_code d) = Some d"
  by (cases d) simp_all

text \<open>\<open>getDirectionOffset\<close> of \<open>src/world.cpp\<close>.\<close>

fun getDirectionOffset :: "direction \<Rightarrow> pos_t \<times> pos_t" where
  "getDirectionOffset Up = (0, -1)"
| "getDirectionOffset Down = (0, 1)"
| "getDirectionOffset Left = (-1, 0)"
| "getDirectionOffset Right = (1, 0)"

lemma getDirectionOffset_nonzero: "getDirectionOffset d = (dx, dy) \<Longrightarrow> dx \<noteq> 0 \<or> dy \<noteq> 0"
  by (cases d) auto

definition step_pos :: "direction \<Rightarrow> pos_t \<times> pos_t \<Rightarrow> pos_t \<times> pos_t" where
  "step_pos d p = (fst p + fst (getDirectionOffset d), snd p + snd (getDirectionOffset d))"

lemma step_pos_neq [simp]: "step_pos d p \<noteq> p" "p \<noteq> step_pos d p"
  by (cases d; cases p; simp add: step_pos_def)+

subsection \<open>Players' sides\<close>

text \<open>
  A player id is 1 or 2 wherever the program stores one (\<open>Player::id\<close>, \<open>Unit::player_id\<close>,
  \<open>Bullet::player_id\<close>); \<open>side_of\<close> is the access \<open>_players[id - 1]\<close>, which has no meaning for any
  other number.
\<close>

datatype side = P1 | P2

fun side_id :: "side \<Rightarrow> u8" where
  "side_id P1 = 1"
| "side_id P2 = 2"

definition side_of :: "u8 \<Rightarrow> side option" where
  "side_of n = (if n = 1 then Some P1 else if n = 2 then Some P2 else None)"

fun opponent :: "side \<Rightarrow> side" where
  "opponent P1 = P2"
| "opponent P2 = P1"

lemma side_of_id [simp]: "side_of (side_id s) = Some s"
  by (cases s) (simp_all add: side_of_def)

lemma side_id_inj [simp]: "side_id s = side_id t \<longleftrightarrow> s = t"
  by (cases s; cases t) simp_all

lemma side_id_opponent: "side_id (opponent s) = 3 - side_id s"
  by (cases s) simp_all

lemma opponent_neq [simp]: "opponent s \<noteq> s" "s \<noteq> opponent s"
  by (cases s; simp)+

lemma opponent_opponent [simp]: "opponent (opponent s) = s"
  by (cases s) simp_all

lemma side_eq_opponent: "s \<noteq> t \<longleftrightarrow> t = opponent s"
  by (cases s; cases t) simp_all

instantiation side :: linorder
begin
definition less_eq_side :: "side \<Rightarrow> side \<Rightarrow> bool" where
  "less_eq_side a b \<longleftrightarrow> side_id a \<le> side_id b"
definition less_side :: "side \<Rightarrow> side \<Rightarrow> bool" where
  "less_side a b \<longleftrightarrow> side_id a < side_id b"
instance
  by standard (auto simp: less_eq_side_def less_side_def less_le)
end

subsection \<open>Units\<close>

record upgrades =
  up_capacity :: bool
  up_vision :: bool
  up_damage :: bool

definition no_upgrades :: upgrades where
  "no_upgrades = \<lparr>up_capacity = False, up_vision = False, up_damage = False\<rparr>"

definition upgrades_byte :: "upgrades \<Rightarrow> u8" where
  "upgrades_byte u =
     (if up_capacity u then 0b001 else 0) OR (if up_vision u then 0b010 else 0)
     OR (if up_damage u then 0b100 else 0)"

record pending_attack =
  pa_damage :: health_t
  pa_direction :: direction

record game_unit =
  u_id :: u8
  u_player :: side
  u_x :: pos_t
  u_y :: pos_t
  u_health :: health_t
  u_energy :: energy_t
  u_cooldown :: u8
  u_upgrades :: upgrades
  u_pending_move :: "direction option"
  u_pending_attack :: pending_attack

definition new_unit :: "u8 \<Rightarrow> side \<Rightarrow> pos_t \<Rightarrow> pos_t \<Rightarrow> health_t \<Rightarrow> game_unit" where
  "new_unit i s x y initial_health =
     \<lparr>u_id = i, u_player = s, u_x = x, u_y = y, u_health = initial_health, u_energy = 0,
      u_cooldown = 0, u_upgrades = no_upgrades, u_pending_move = None,
      u_pending_attack = \<lparr>pa_damage = 0, pa_direction = Up\<rparr>\<rparr>"

abbreviation u_pos :: "game_unit \<Rightarrow> pos_t \<times> pos_t" where
  "u_pos u \<equiv> (u_x u, u_y u)"

definition maxCapacity :: "game_rules \<Rightarrow> game_unit \<Rightarrow> energy_t" where
  "maxCapacity rules u =
     (if up_capacity (u_upgrades u) then gr_capacity_lv2 rules else gr_capacity_lv1 rules)"

definition visionRange :: "game_rules \<Rightarrow> game_unit \<Rightarrow> int" where
  "visionRange rules u =
     uint (if up_vision (u_upgrades u) then gr_vision_lv2 rules else gr_vision_lv1 rules)"

definition maxHealth :: "game_rules \<Rightarrow> game_unit \<Rightarrow> health_t" where
  "maxHealth rules u = gr_unit_health rules"

definition canAttack :: "game_unit \<Rightarrow> bool" where
  "canAttack u \<longleftrightarrow> u_cooldown u = 0"

lemma visionRange_bound: "0 \<le> visionRange r u" "visionRange r u < 256"
proof -
  have "uint (x :: u8) < 256" for x using uint_lt2p [of x] by simp
  then show "0 \<le> visionRange r u" "visionRange r u < 256" by (simp_all add: visionRange_def)
qed

lemma new_unit_simps [simp]:
  "u_id (new_unit i s x y h) = i" "u_player (new_unit i s x y h) = s"
  "u_x (new_unit i s x y h) = x" "u_y (new_unit i s x y h) = y"
  "u_health (new_unit i s x y h) = h" "u_energy (new_unit i s x y h) = 0"
  "u_pending_move (new_unit i s x y h) = None"
  by (simp_all add: new_unit_def)

subsection \<open>Bullets\<close>

record bullet =
  b_x :: pos_t
  b_y :: pos_t
  b_direction :: direction
  b_player :: side
  b_damage :: health_t

abbreviation b_pos :: "bullet \<Rightarrow> pos_t \<times> pos_t" where
  "b_pos b \<equiv> (b_x b, b_y b)"

end
