(* ===== verification/Tilemap.thy ===== *)
theory Tilemap
  imports Entity
begin

text \<open>
  The map of a match (\<open>Tile\<close> and \<open>Tilemap\<close> in \<open>include/corertt/tilemap.h\<close>). The tag
  \<open>occupied_state\<close> and the union of pointers it selects are one datatype, because every
  assignment of the source sets both. Addresses are numbers; whether an address is still
  allocated is a question to the world's heap.
\<close>

type_synonym addr = nat

datatype occupant = NOT_OCCUPIED | OCCUPIED_BY_UNIT addr | OCCUPIED_BY_BULLET addr

definition EMPTY :: u8 where "EMPTY = 0"
definition WATER :: u8 where "WATER = 1"
definition OBSTACLE :: u8 where "OBSTACLE = 3"

record tile =
  t_terrain :: u8
  t_side :: u8
  t_is_resource :: bool
  t_is_base :: bool
  t_occupant :: occupant

definition new_tile :: tile where
  "new_tile = \<lparr>t_terrain = EMPTY, t_side = 0, t_is_resource = False, t_is_base = False,
     t_occupant = NOT_OCCUPIED\<rparr>"

definition unsetOccupant :: "tile \<Rightarrow> tile" where
  "unsetOccupant t = t\<lparr>t_occupant := NOT_OCCUPIED\<rparr>"

record tilemap =
  tm_width :: pos_t
  tm_height :: pos_t
  tm_base_size :: pos_t
  tm_tiles :: "tile list"

definition tm_inb :: "tilemap \<Rightarrow> pos_t \<times> pos_t \<Rightarrow> bool" where
  "tm_inb m p \<longleftrightarrow> fst p \<ge> 0 \<and> fst p < tm_width m \<and> snd p \<ge> 0 \<and> snd p < tm_height m"

definition tile_index :: "tilemap \<Rightarrow> pos_t \<times> pos_t \<Rightarrow> nat" where
  "tile_index m p = nat (snd p * tm_width m + fst p)"

text \<open>
  \<open>tileOf\<close> asserts that the position is on the map. The reference it returns is modelled by
  the pair of a read (\<open>tileOf\<close>) and an update of the same position (\<open>updTile\<close>).
\<close>

definition tileOf :: "tilemap \<Rightarrow> pos_t \<times> pos_t \<Rightarrow> tile option" where
  "tileOf m p = (if tm_inb m p then Some (tm_tiles m ! tile_index m p) else None)"

definition updTile :: "pos_t \<times> pos_t \<Rightarrow> (tile \<Rightarrow> tile) \<Rightarrow> tilemap \<Rightarrow> tilemap option" where
  "updTile p f m =
     (if tm_inb m p
      then Some (m\<lparr>tm_tiles := (tm_tiles m)[tile_index m p := f (tm_tiles m ! tile_index m p)]\<rparr>)
      else None)"

text \<open>The constructor allocates as many tiles as the map has positions.\<close>

definition new_tilemap :: "pos_t \<Rightarrow> pos_t \<Rightarrow> tilemap" where
  "new_tilemap width height =
     \<lparr>tm_width = width, tm_height = height, tm_base_size = 0,
      tm_tiles = replicate (nat (width * height)) new_tile\<rparr>"

definition tilemap_wf :: "tilemap \<Rightarrow> bool" where
  "tilemap_wf m \<longleftrightarrow>
     0 \<le> tm_width m \<and> 0 \<le> tm_height m \<and> length (tm_tiles m) = nat (tm_width m * tm_height m)"

subsection \<open>Tiles as a map from positions\<close>

lemma tile_index_less:
  assumes "tilemap_wf m" "tm_inb m p"
  shows "tile_index m p < length (tm_tiles m)"
proof -
  obtain x y where p: "p = (x, y)" by (cases p)
  have "y * tm_width m + x < y * tm_width m + tm_width m"
    using assms by (simp add: tm_inb_def p)
  also have "\<dots> = (y + 1) * tm_width m" by (simp add: algebra_simps)
  also have "\<dots> \<le> tm_height m * tm_width m"
    using assms by (intro mult_right_mono) (auto simp: tm_inb_def p tilemap_wf_def)
  finally have *: "y * tm_width m + x < tm_width m * tm_height m" by (simp add: mult.commute)
  have "0 \<le> y * tm_width m + x" using assms by (simp add: tm_inb_def p tilemap_wf_def)
  then show ?thesis using * assms by (simp add: tile_index_def p tilemap_wf_def)
qed

lemma tile_index_inj:
  assumes "tm_inb m p" "tm_inb m q"
  shows "tile_index m p = tile_index m q \<longleftrightarrow> p = q"
proof
  obtain x y x' y' where pq: "p = (x, y)" "q = (x', y')" by (cases p, cases q)
  have b: "0 \<le> x" "x < tm_width m" "0 \<le> x'" "x' < tm_width m" "0 \<le> y" "0 \<le> y'"
    using assms by (auto simp: tm_inb_def pq)
  assume "tile_index m p = tile_index m q"
  moreover have "0 \<le> y * tm_width m + x" "0 \<le> y' * tm_width m + x'" using b by simp_all
  ultimately have eq: "y * tm_width m + x = y' * tm_width m + x'"
    by (simp add: tile_index_def pq eq_nat_nat_iff)
  have "y = (y * tm_width m + x) div tm_width m" using b by simp
  moreover have "y' = (y' * tm_width m + x') div tm_width m" using b by simp
  ultimately have "y = y'" using eq by simp
  then show "p = q" using eq by (simp add: pq)
qed simp

lemma tileOf_inb: "tileOf m p = Some t \<Longrightarrow> tm_inb m p"
  by (simp add: tileOf_def split: if_splits)

lemma tileOf_None [simp]: "tileOf m p = None \<longleftrightarrow> \<not> tm_inb m p"
  by (simp add: tileOf_def)

lemma updTile_inb: "updTile p f m = Some m' \<Longrightarrow> tm_inb m p"
  by (simp add: updTile_def split: if_splits)

lemma updTile_None [simp]: "updTile p f m = None \<longleftrightarrow> \<not> tm_inb m p"
  by (simp add: updTile_def)

lemma updTile_frame [frame]:
  assumes "updTile p f m = Some m'"
  shows "tm_width m' = tm_width m" "tm_height m' = tm_height m" "tm_base_size m' = tm_base_size m"
    "tm_inb m' = tm_inb m" "tilemap_wf m' = tilemap_wf m"
proof -
  show 1: "tm_width m' = tm_width m" "tm_height m' = tm_height m" "tm_base_size m' = tm_base_size m"
    using assms by (auto simp: updTile_def split: if_splits)
  then show "tm_inb m' = tm_inb m" by (simp add: tm_inb_def fun_eq_iff)
  have "length (tm_tiles m') = length (tm_tiles m)"
    using assms by (auto simp: updTile_def split: if_splits)
  then show "tilemap_wf m' = tilemap_wf m" using 1 by (simp add: tilemap_wf_def)
qed

lemma tileOf_updTile:
  assumes "updTile p f m = Some m'" "tilemap_wf m"
  shows "tileOf m' q = (if q = p then map_option f (tileOf m p) else tileOf m q)"
proof -
  have p: "tm_inb m p" using assms(1) by (rule updTile_inb)
  have inb: "tm_inb m' = tm_inb m" and w: "tm_width m' = tm_width m"
    using updTile_frame [OF assms(1)] by auto
  have idx: "tile_index m' = tile_index m" using w by (simp add: tile_index_def fun_eq_iff)
  have tiles: "tm_tiles m' = (tm_tiles m)[tile_index m p := f (tm_tiles m ! tile_index m p)]"
    using assms(1) p by (auto simp: updTile_def)
  show ?thesis
  proof (cases "tm_inb m q")
    case True
    then show ?thesis
      using p tile_index_less [OF assms(2) p] tile_index_inj [OF p True]
      by (simp add: tileOf_def inb idx tiles nth_list_update)
  next
    case False
    then show ?thesis using p by (auto simp: tileOf_def inb)
  qed
qed

text \<open>What does not change about a tile when only its occupant changes.\<close>

definition same_ground :: "tilemap \<Rightarrow> tilemap \<Rightarrow> bool" where
  "same_ground m m' \<longleftrightarrow>
     tm_width m' = tm_width m \<and> tm_height m' = tm_height m \<and> tm_base_size m' = tm_base_size m
     \<and> (tilemap_wf m \<longrightarrow> tilemap_wf m')
     \<and> (\<forall>p t t'. tilemap_wf m \<longrightarrow> tileOf m p = Some t \<longrightarrow> tileOf m' p = Some t' \<longrightarrow>
          t' = t\<lparr>t_occupant := t_occupant t'\<rparr>)"

lemma same_ground_refl [simp]: "same_ground m m"
  by (simp add: same_ground_def)

lemma new_tilemap_wf: "0 \<le> w \<Longrightarrow> 0 \<le> h \<Longrightarrow> tilemap_wf (new_tilemap w h)"
  by (simp add: tilemap_wf_def new_tilemap_def)

subsection \<open>The two nested loops over a map\<close>

definition row_major :: "tilemap \<Rightarrow> (pos_t \<times> pos_t) list" where
  "row_major m = [(x, y). y \<leftarrow> [0..tm_height m - 1], x \<leftarrow> [0..tm_width m - 1]]"

lemma row_major_length:
  assumes "tilemap_wf m" shows "length (row_major m) = length (tm_tiles m)"
  using assms by (simp add: row_major_def tilemap_wf_def length_concat comp_def sum_list_triv nat_mult_distrib)

lemma set_row_major: "set (row_major m) = {p. tm_inb m p}"
  by (auto simp: row_major_def tm_inb_def)

lemma row_major_cong:
  "tm_width m' = tm_width m \<Longrightarrow> tm_height m' = tm_height m \<Longrightarrow> row_major m' = row_major m"
  by (simp add: row_major_def)

text \<open>They meet the tiles in the order in which the map stores them.\<close>

lemma upto_from_0: "[0..int n - 1] = map int [0..<n]"
proof (induction n)
  case (Suc n)
  have "[0..int (Suc n) - 1] = [0..int n - 1] @ [int n]" using upto_rec2 [of 0 "int n"] by simp
  then show ?case using Suc by simp
qed simp

lemma nth_concat_rows:
  "i < h * w \<Longrightarrow> concat (map (\<lambda>y. map (f y) [0..<w]) [0..<h]) ! i = f (i div w) (i mod w)"
proof (induction h arbitrary: i)
  case (Suc h)
  have len: "length (concat (map (\<lambda>y. map (f y) [0..<w]) [0..<h])) = h * w"
    by (simp add: length_concat comp_def sum_list_triv)
  show ?case
  proof (cases "i < h * w")
    case True
    then show ?thesis using Suc.IH len by (simp add: nth_append)
  next
    case False
    then have j: "i - h * w < w" using Suc.prems by simp
    then have "i = i - h * w + h * w" "0 < w" using False by simp_all
    then have "i div w = h" "i mod w = i - h * w" using j
      by (metis add.commute add_0 div_less div_mult_self3 less_nat_zero_code neq0_conv,
          metis j mod_less mod_mult_self1)
    then show ?thesis using False len j by (simp add: nth_append)
  qed
qed simp

lemma row_major_nth:
  assumes "tilemap_wf m" "i < length (tm_tiles m)"
  shows "row_major m ! i = (int (i mod nat (tm_width m)), int (i div nat (tm_width m)))"
proof -
  obtain w h where wh: "tm_width m = int w" "tm_height m = int h"
    using assms(1) by (metis tilemap_wf_def nonneg_int_cases)
  have "row_major m = concat (map (\<lambda>y. map (\<lambda>x. (int x, int y)) [0..<w]) [0..<h])"
    by (simp add: row_major_def wh upto_from_0 comp_def)
  moreover have "i < h * w" using assms wh by (simp add: tilemap_wf_def nat_mult_distrib mult.commute)
  ultimately show ?thesis using nth_concat_rows [of i h w "\<lambda>y x. (int x, int y)"] wh by simp
qed

lemma tile_index_row_major:
  assumes "tilemap_wf m" "i < length (tm_tiles m)"
  shows "tile_index m (row_major m ! i) = i"
proof -
  obtain w h where wh: "tm_width m = int w" "tm_height m = int h"
    using assms(1) by (metis tilemap_wf_def nonneg_int_cases)
  have "i = i div w * w + i mod w" by simp
  then have "nat (int (i div w) * int w + int (i mod w)) = i"
    by (metis nat_int of_nat_add of_nat_mult)
  then show ?thesis
    using row_major_nth [OF assms] wh by (simp add: tile_index_def)
qed

lemma distinct_row_major: "tilemap_wf m \<Longrightarrow> distinct (row_major m)"
  by (metis distinct_conv_nth row_major_length tile_index_row_major)

lemma row_major_tile:
  assumes "tilemap_wf m" "i < length (tm_tiles m)"
  shows "tileOf m (row_major m ! i) = Some (tm_tiles m ! i)"
proof -
  have "row_major m ! i \<in> set (row_major m)" using assms row_major_length by simp
  then have "tm_inb m (row_major m ! i)" using set_row_major by blast
  then show ?thesis using tile_index_row_major [OF assms] by (simp add: tileOf_def)
qed

lemma list_all_tileOf:
  assumes "tilemap_wf m" shows "list_all P (tm_tiles m) \<longleftrightarrow> (\<forall>p t. tileOf m p = Some t \<longrightarrow> P t)"
proof
  show "list_all P (tm_tiles m) \<Longrightarrow> \<forall>p t. tileOf m p = Some t \<longrightarrow> P t"
    using tile_index_less [OF assms] by (auto simp: tileOf_def list_all_length split: if_splits)
  show "\<forall>p t. tileOf m p = Some t \<longrightarrow> P t \<Longrightarrow> list_all P (tm_tiles m)"
    unfolding list_all_length using row_major_tile [OF assms] by metis
qed

end
