(* ===== verification/Vision.thy ===== *)
theory Vision
  imports Tilemap
begin

text \<open>
  The vision cache of a unit: the breadth-first search at the start of \<open>Unit::step\<close>
  (\<open>src/entity.cpp\<close>), and the reachability it computes, which \<open>docs/rule-spec.md\<close> describes
  under "Unit". A window cell is a pair of column and row within the \<open>range\<close> by \<open>range\<close>
  square; the vectors are indexed by \<open>cy * range + cx\<close>, and an index out of range has no result.
\<close>

definition cell_index :: "int \<Rightarrow> pos_t \<times> pos_t \<Rightarrow> nat" where
  "cell_index rng c = nat (snd c * rng + fst c)"

definition in_window :: "int \<Rightarrow> pos_t \<times> pos_t \<Rightarrow> bool" where
  "in_window rng c \<longleftrightarrow> \<not> (fst c < 0 \<or> fst c \<ge> rng \<or> snd c < 0 \<or> snd c \<ge> rng)"

definition window_neighbours :: "pos_t \<times> pos_t \<Rightarrow> (pos_t \<times> pos_t) list" where
  "window_neighbours c =
     map (\<lambda>(dx, dy). (fst c + dx, snd c + dy)) [(0, -1), (0, 1), (-1, 0), (1, 0)]"

definition shift :: "pos_t \<times> pos_t \<Rightarrow> pos_t \<times> pos_t \<Rightarrow> pos_t \<times> pos_t" where
  "shift topleft c = (fst topleft + fst c, snd topleft + snd c)"

text \<open>The neighbours that the inner \<open>for\<close> loop pushes.\<close>

definition pushed :: "int \<Rightarrow> bool list \<Rightarrow> pos_t \<times> pos_t \<Rightarrow> (pos_t \<times> pos_t) list" where
  "pushed rng visited c =
     filter (\<lambda>n. \<not> (\<not> in_window rng n \<or> visited ! cell_index rng n)) (window_neighbours c)"

lemma count_unvisited_decreases:
  assumes "i < length v" "\<not> v ! i"
  shows "length (filter Not (v[i := True])) < length (filter Not v)"
proof -
  have v: "v = take i v @ v ! i # drop (Suc i) v" using assms(1) by (rule id_take_nth_drop)
  have "v[i := True] = take i v @ True # drop (Suc i) v" using assms(1) by (rule upd_conv_take_nth_drop)
  then have "length (filter Not (v[i := True]))
    = length (filter Not (take i v)) + length (filter Not (drop (Suc i) v))" by simp
  moreover have "length (filter Not v)
    = length (filter Not (take i v)) + Suc (length (filter Not (drop (Suc i) v)))"
    using assms(2) by (subst v) simp
  ultimately show ?thesis by linarith
qed

function vision_loop ::
    "tilemap \<Rightarrow> int \<Rightarrow> pos_t \<times> pos_t \<Rightarrow> (pos_t \<times> pos_t) list \<Rightarrow> bool list \<Rightarrow> bool list
       \<Rightarrow> bool list option" where
  "vision_loop m rng topleft [] visited visible = Some visible"
| "vision_loop m rng topleft (c # queue) visited visible =
     (let idx = cell_index rng c in
      if \<not> (idx < length visited \<and> idx < length visible) then None
      else if visited ! idx then vision_loop m rng topleft queue visited visible
      else
        let visited = visited[idx := True] in
        (case tileOf m (shift topleft c) of
           None \<Rightarrow> vision_loop m rng topleft queue visited visible
         | Some tile \<Rightarrow>
             let visible = visible[idx := True] in
             if t_terrain tile = OBSTACLE then vision_loop m rng topleft queue visited visible
             else vision_loop m rng topleft (queue @ pushed rng visited c) visited visible))"
  by pat_completeness auto

termination
  by (relation "measures [\<lambda>(m, rng, t, q, visited, visible). length (filter Not visited),
                          \<lambda>(m, rng, t, q, visited, visible). length q]")
    (auto simp: count_unvisited_decreases)

text \<open>The test \<open>isInBounds\<close> and the following \<open>tileOf\<close> are the one case distinction above.\<close>

definition compute_vision :: "tilemap \<Rightarrow> int \<Rightarrow> pos_t \<Rightarrow> pos_t \<Rightarrow> bool list option" where
  "compute_vision m rng x y =
     (let total_tiles = nat (rng * rng) in
      vision_loop m rng (x - rng div 2, y - rng div 2) [(rng div 2, rng div 2)]
        (replicate total_tiles False) (replicate total_tiles False))"

subsection \<open>What a unit is meant to see\<close>

text \<open>The cells above, below, left and right of a cell.\<close>

definition adjacent :: "pos_t \<times> pos_t \<Rightarrow> pos_t \<times> pos_t \<Rightarrow> bool" where
  "adjacent c n \<longleftrightarrow> \<bar>fst n - fst c\<bar> + \<bar>snd n - snd c\<bar> = 1"

lemma set_window_neighbours: "n \<in> set (window_neighbours c) \<longleftrightarrow> adjacent c n"
  by (cases n; cases c) (auto simp: window_neighbours_def adjacent_def)

inductive sees :: "tilemap \<Rightarrow> int \<Rightarrow> pos_t \<times> pos_t \<Rightarrow> pos_t \<times> pos_t \<Rightarrow> bool"
  for m rng topleft where
  start: "tm_inb m (shift topleft (rng div 2, rng div 2))
    \<Longrightarrow> sees m rng topleft (rng div 2, rng div 2)"
| neighbour: "sees m rng topleft c \<Longrightarrow> tileOf m (shift topleft c) = Some t
    \<Longrightarrow> t_terrain t \<noteq> OBSTACLE \<Longrightarrow> adjacent c n \<Longrightarrow> in_window rng n
    \<Longrightarrow> tm_inb m (shift topleft n) \<Longrightarrow> sees m rng topleft n"

subsection \<open>Correctness of the search\<close>

lemma in_window_index:
  assumes "in_window rng c" shows "cell_index rng c < nat (rng * rng)"
proof -
  obtain x y where c: "c = (x, y)" by (cases c)
  have b: "0 \<le> x" "x < rng" "0 \<le> y" "y + 1 \<le> rng" using assms by (auto simp: in_window_def c)
  have "y * rng + x < (y + 1) * rng" using b by (simp add: algebra_simps)
  also have "\<dots> \<le> rng * rng" using b by (intro mult_right_mono) auto
  finally show ?thesis using b by (simp add: cell_index_def c)
qed

lemma in_window_index_inj:
  assumes "in_window rng c" "in_window rng d"
  shows "cell_index rng c = cell_index rng d \<longleftrightarrow> c = d"
proof
  obtain x y x' y' where cd: "c = (x, y)" "d = (x', y')" by (cases c, cases d)
  have b: "0 \<le> x" "x < rng" "0 \<le> x'" "x' < rng" "0 \<le> y" "0 \<le> y'"
    using assms by (auto simp: in_window_def cd)
  assume "cell_index rng c = cell_index rng d"
  then have eq: "y * rng + x = y' * rng + x'" using b by (simp add: cell_index_def cd eq_nat_nat_iff)
  have "y = (y * rng + x) div rng" "y' = (y' * rng + x') div rng" using b by simp_all
  then have "y = y'" using eq by simp
  then show "c = d" using eq by (simp add: cd)
qed simp

abbreviation cell_at :: "int \<Rightarrow> bool list \<Rightarrow> pos_t \<times> pos_t \<Rightarrow> bool" where
  "cell_at rng v c \<equiv> v ! cell_index rng c"

definition vision_inv :: "tilemap \<Rightarrow> int \<Rightarrow> pos_t \<times> pos_t \<Rightarrow> (pos_t \<times> pos_t) list
    \<Rightarrow> bool list \<Rightarrow> bool list \<Rightarrow> bool" where
  "vision_inv m rng topleft queue visited visible \<longleftrightarrow>
     length visited = nat (rng * rng) \<and> length visible = nat (rng * rng)
     \<and> (\<forall>c\<in>set queue. in_window rng c
          \<and> (tm_inb m (shift topleft c) \<longrightarrow> sees m rng topleft c))
     \<and> (\<forall>c. in_window rng c \<longrightarrow>
          (cell_at rng visible c \<longleftrightarrow> cell_at rng visited c \<and> tm_inb m (shift topleft c)))
     \<and> (\<forall>c. in_window rng c \<longrightarrow> cell_at rng visible c \<longrightarrow> sees m rng topleft c)
     \<and> (\<forall>c t n. in_window rng c \<longrightarrow> cell_at rng visible c \<longrightarrow> tileOf m (shift topleft c) = Some t
          \<longrightarrow> t_terrain t \<noteq> OBSTACLE \<longrightarrow> n \<in> set (window_neighbours c) \<longrightarrow> in_window rng n
          \<longrightarrow> cell_at rng visited n \<or> n \<in> set queue)
     \<and> (cell_at rng visited (rng div 2, rng div 2) \<or> (rng div 2, rng div 2) \<in> set queue)"

lemma vision_invD:
  assumes "vision_inv m rng topleft queue visited visible"
  shows "length visited = nat (rng * rng)" "length visible = nat (rng * rng)"
    "c \<in> set queue \<Longrightarrow> in_window rng c"
    "c \<in> set queue \<Longrightarrow> tm_inb m (shift topleft c) \<Longrightarrow> sees m rng topleft c"
    "in_window rng c \<Longrightarrow> cell_at rng visible c \<longleftrightarrow> cell_at rng visited c \<and> tm_inb m (shift topleft c)"
    "in_window rng c \<Longrightarrow> cell_at rng visible c \<Longrightarrow> sees m rng topleft c"
    "in_window rng c \<Longrightarrow> cell_at rng visible c \<Longrightarrow> tileOf m (shift topleft c) = Some t
      \<Longrightarrow> t_terrain t \<noteq> OBSTACLE \<Longrightarrow> n \<in> set (window_neighbours c) \<Longrightarrow> in_window rng n
      \<Longrightarrow> cell_at rng visited n \<or> n \<in> set queue"
    "cell_at rng visited (rng div 2, rng div 2) \<or> (rng div 2, rng div 2) \<in> set queue"
  using assms unfolding vision_inv_def by blast+

lemma centre_in_window: "0 < rng \<Longrightarrow> in_window rng (rng div 2, rng div 2)"
  by (auto simp: in_window_def)

lemma sees_in_window: "sees m rng topleft c \<Longrightarrow> 0 < rng \<Longrightarrow> in_window rng c"
  by (induction rule: sees.induct) (auto simp: centre_in_window)

lemma inv_start:
  "0 < rng \<Longrightarrow> vision_inv m rng topleft [(rng div 2, rng div 2)] (replicate (nat (rng * rng)) False)
     (replicate (nat (rng * rng)) False)"
  using centre_in_window by (auto simp: vision_inv_def in_window_index intro: sees.start)

lemma cell_at_update:
  assumes "in_window rng c" "in_window rng d" "length v = nat (rng * rng)"
  shows "cell_at rng (v[cell_index rng c := b]) d = (if d = c then b else cell_at rng v d)"
  using assms in_window_index_inj [OF assms(1,2)] in_window_index [OF assms(1)]
  by (auto simp: nth_list_update)

lemma inv_queue_in_window: "vision_inv m rng topleft (c # queue) visited visible \<Longrightarrow> in_window rng c"
  by (simp add: vision_inv_def)

lemma inv_skip:
  assumes I: "vision_inv m rng topleft (c # queue) visited visible" and c: "cell_at rng visited c"
  shows "vision_inv m rng topleft queue visited visible"
proof -
  have q: "cell_at rng visited n \<or> n \<in> set queue"
    if "cell_at rng visited n \<or> n \<in> set (c # queue)" for n
    using that c by auto
  have sub: "d \<in> set (c # queue)" if "d \<in> set queue" for d using that by simp
  note D = vision_invD [OF I]
  show ?thesis
    unfolding vision_inv_def
    using D(1,2) D(3) [OF sub] D(4) [OF sub] D(5,6) q [OF D(7)] q [OF D(8)] by blast
qed

lemma inv_visit:
  assumes pos: "0 < rng" and I: "vision_inv m rng topleft (c # queue) visited visible" and new: "\<not> cell_at rng visited c"
    and vis: "visible' = (if tm_inb m (shift topleft c)
                then visible[cell_index rng c := True] else visible)"
    and q: "queue' = (case tileOf m (shift topleft c) of None \<Rightarrow> queue
              | Some t \<Rightarrow> if t_terrain t = OBSTACLE then queue
                  else queue @ pushed rng (visited[cell_index rng c := True]) c)"
  shows "vision_inv m rng topleft queue' (visited[cell_index rng c := True]) visible'"
proof -
  let ?visited = "visited[cell_index rng c := True]"
  have c: "in_window rng c" using I by (simp add: vision_inv_def)
  have len: "length visited = nat (rng * rng)" "length visible = nat (rng * rng)"
    using I by (simp_all add: vision_inv_def)
  have visited_at: "cell_at rng ?visited d \<longleftrightarrow> d = c \<or> cell_at rng visited d" if "in_window rng d" for d
    using cell_at_update [OF c that len(1)] by simp
  have visible_at: "cell_at rng visible' d \<longleftrightarrow>
      (d = c \<and> tm_inb m (shift topleft c)) \<or> cell_at rng visible d" if "in_window rng d" for d
    using cell_at_update [OF c that len(2)] by (simp add: vis)
  have old_visible: "cell_at rng visible d \<longleftrightarrow> cell_at rng visited d \<and> tm_inb m (shift topleft d)"
    if "in_window rng d" for d
    using vision_invD(5) [OF I that] .
  have sees_c: "sees m rng topleft c" if "tm_inb m (shift topleft c)"
    using vision_invD(4) [OF I _ that] by simp
  have sees_old: "sees m rng topleft d" if "in_window rng d" "cell_at rng visible d" for d
    using vision_invD(6) [OF I that] .
  have sub: "set queue \<subseteq> set queue'" by (auto simp: q split: option.splits if_splits)
  have pushed_ok: "n \<in> set (pushed rng ?visited c) \<longleftrightarrow>
      n \<in> set (window_neighbours c) \<and> in_window rng n \<and> \<not> cell_at rng ?visited n" for n
    by (auto simp: pushed_def)
  have queue_ok: "in_window rng d \<and> (tm_inb m (shift topleft d) \<longrightarrow> sees m rng topleft d)"
    if d: "d \<in> set queue'" for d
  proof (cases "d \<in> set queue")
    case True
    then show ?thesis using vision_invD(3,4) [OF I, of d] by simp
  next
    case False
    then obtain t where t: "tileOf m (shift topleft c) = Some t" "t_terrain t \<noteq> OBSTACLE"
      and dp: "d \<in> set (pushed rng ?visited c)"
      using d by (auto simp: q split: option.splits if_splits)
    have "tm_inb m (shift topleft c)" using t(1) by (rule tileOf_inb)
    then show ?thesis using dp pushed_ok sees.neighbour [OF sees_c t] set_window_neighbours by blast
  qed
  have closed: "cell_at rng ?visited n \<or> n \<in> set queue'"
    if d: "in_window rng d" "cell_at rng visible' d" and t: "tileOf m (shift topleft d) = Some t"
      "t_terrain t \<noteq> OBSTACLE" and n: "n \<in> set (window_neighbours d)" "in_window rng n" for d t n
  proof (cases "d = c")
    case True
    then show ?thesis using pushed_ok n t by (auto simp: q)
  next
    case False
    then have "cell_at rng visible d" using visible_at d by simp
    then have "cell_at rng visited n \<or> n \<in> set (c # queue)"
      using vision_invD(7) [OF I d(1) _ t n] by blast
    then show ?thesis using visited_at [OF n(2)] sub by auto
  qed
  have start: "cell_at rng ?visited (rng div 2, rng div 2) \<or> (rng div 2, rng div 2) \<in> set queue'"
    using vision_invD(8) [OF I] visited_at [OF centre_in_window [OF pos]] sub by auto
  have len': "length ?visited = nat (rng * rng)" "length visible' = nat (rng * rng)"
    using len vis by auto
  have vis': "cell_at rng visible' d \<longleftrightarrow> cell_at rng ?visited d \<and> tm_inb m (shift topleft d)"
    if "in_window rng d" for d
    using visible_at [OF that] visited_at [OF that] old_visible [OF that] by blast
  have sees': "sees m rng topleft d" if "in_window rng d" "cell_at rng visible' d" for d
    using visible_at [OF that(1)] that sees_c sees_old by blast
  show ?thesis
    unfolding vision_inv_def using len' queue_ok vis' sees' closed start by blast
qed

lemma vision_loop_correct:
  assumes pos: "0 < rng" and "vision_inv m rng topleft queue visited visible"
  shows "\<exists>vis vd. vision_loop m rng topleft queue visited visible = Some vis \<and> vision_inv m rng topleft [] vd vis"
  using assms(2)
proof (induction "length (filter Not visited)" arbitrary: queue visited visible rule: less_induct)
  case (less visited)
  from less.prems show ?case
  proof (induction queue)
    case Nil
    then show ?case by auto
  next
    case (Cons c queue)
    note I = Cons.prems
    have c: "in_window rng c" using I by (rule inv_queue_in_window)
    have idx: "cell_index rng c < length visited \<and> cell_index rng c < length visible"
      using I in_window_index [OF c] by (simp add: vision_inv_def)
    show ?case
    proof (cases "cell_at rng visited c")
      case True
      then show ?thesis using Cons.IH [OF inv_skip [OF I True]] idx by simp
    next
      case False
      let ?visited = "visited[cell_index rng c := True]"
      let ?visible = "if tm_inb m (shift topleft c) then visible[cell_index rng c := True] else visible"
      let ?queue = "case tileOf m (shift topleft c) of None \<Rightarrow> queue
              | Some t \<Rightarrow> if t_terrain t = OBSTACLE then queue
                  else queue @ pushed rng ?visited c"
      have "length (filter Not ?visited) < length (filter Not visited)"
        using idx False by (simp add: count_unvisited_decreases)
      from less.hyps [OF this inv_visit [OF pos I False refl refl]]
      obtain vis vd where "vision_loop m rng topleft ?queue ?visited ?visible = Some vis" "vision_inv m rng topleft [] vd vis"
        by blast
      moreover have "vision_loop m rng topleft (c # queue) visited visible
          = vision_loop m rng topleft ?queue ?visited ?visible"
        using idx False by (auto simp: Let_def tileOf_def)
      ultimately show ?thesis by auto
    qed
  qed
qed

lemma inv_final:
  assumes pos: "0 < rng" and I: "vision_inv m rng topleft [] vd vis" and c: "in_window rng c"
  shows "cell_at rng vis c \<longleftrightarrow> sees m rng topleft c"
proof
  assume "cell_at rng vis c"
  then show "sees m rng topleft c" by (rule vision_invD(6) [OF I c])
next
  assume "sees m rng topleft c"
  then show "cell_at rng vis c"
  proof (induction rule: sees.induct)
    case start
    then show ?case using vision_invD(5,8) [OF I] centre_in_window [OF pos] by auto
  next
    case (neighbour c t n)
    have "in_window rng c" using neighbour.hyps(1) pos by (rule sees_in_window)
    then have "cell_at rng vd n" using vision_invD(7) [OF I _ neighbour.IH] neighbour.hyps set_window_neighbours by auto
    then show ?case using vision_invD(5) [OF I neighbour.hyps(5)] neighbour.hyps(6) by simp
  qed
qed

text \<open>The search is total, and marks exactly the cells of the window that are in sight.\<close>

lemma compute_vision_sees:
  assumes "0 < rng"
  shows "\<exists>vis. compute_vision m rng x y = Some vis \<and> length vis = nat (rng * rng)
    \<and> (\<forall>c. in_window rng c \<longrightarrow>
         vis ! cell_index rng c = sees m rng (x - rng div 2, y - rng div 2) c)"
proof -
  let ?topleft = "(x - rng div 2, y - rng div 2)"
  obtain vis vd where v: "compute_vision m rng x y = Some vis" "vision_inv m rng ?topleft [] vd vis"
    using vision_loop_correct [OF assms inv_start [OF assms]]
    unfolding compute_vision_def Let_def by blast
  then show ?thesis using vision_invD(2) [OF v(2)] inv_final [OF assms v(2)] by blast
qed

end
