(* ===== verification/Xoroshiro.thy ===== *)
theory Xoroshiro
  imports Prelude
begin

text \<open>
  The Xoroshiro128++ generator and its seeds (\<open>include/corertt/xoroshiro.h\<close>,
  \<open>src/xoroshiro.cpp\<close>). The generator's state is the seed it holds. \<open>std::random_device\<close> is not
  modelled: \<open>Seed::deviceRandom\<close> is a value given to the functions that use it.
\<close>

record seed =
  seed_s0 :: u64
  seed_s1 :: u64

subsection \<open>Seeds as text\<close>

definition is_hex_char :: "char \<Rightarrow> bool" where
  "is_hex_char c =
     (let n = of_char c :: nat in
      (n \<ge> of_char CHR ''0'' \<and> n \<le> of_char CHR ''9'')
      \<or> (n \<ge> of_char CHR ''a'' \<and> n \<le> of_char CHR ''f'')
      \<or> (n \<ge> of_char CHR ''A'' \<and> n \<le> of_char CHR ''F''))"

definition is_raw_seed_format :: "string \<Rightarrow> bool" where
  "is_raw_seed_format text \<longleftrightarrow> length text = 32 \<and> list_all is_hex_char text"

text \<open>
  \<open>std::from_chars(begin, end, value, 16)\<close>, which reads digits of either case up to the first
  other character, fails when it finds none, and fails when the value does not fit.
\<close>

definition hex_digit_value :: "char \<Rightarrow> nat" where
  "hex_digit_value c =
     (let n = of_char c :: nat in
      if n \<ge> of_char CHR ''0'' \<and> n \<le> of_char CHR ''9'' then n - of_char CHR ''0''
      else if n \<ge> of_char CHR ''a'' \<and> n \<le> of_char CHR ''f'' then n - of_char CHR ''a'' + 10
      else n - of_char CHR ''A'' + 10)"

definition hex_value :: "string \<Rightarrow> nat" where
  "hex_value text = foldl (\<lambda>v c. v * 16 + hex_digit_value c) 0 text"

definition parse_hex_u64_16 :: "string \<Rightarrow> u64" where
  "parse_hex_u64_16 text =
     (let digits = takeWhile is_hex_char text
      in if digits = [] \<or> hex_value digits \<ge> 2 ^ 64 then 0
         else if length digits \<noteq> length text then 0
         else word_of_nat (hex_value digits))"

fun seed_hash_step :: "seed \<Rightarrow> char \<Rightarrow> seed" where
  "seed_hash_step res ch =
     (let c = (of_char ch :: u8);
          s0 = seed_s0 res XOR ucast c;
          s1 = seed_s1 res XOR ucast c
      in \<lparr>seed_s0 = s0 * 0xb2209ed48ff3455b, seed_s1 = s1 * 0x9f9a70d28f55f29f\<rparr>)"

definition seed_fromString :: "string \<Rightarrow> seed" where
  "seed_fromString str =
     (if is_raw_seed_format str
      then \<lparr>seed_s0 = parse_hex_u64_16 (take 16 str), seed_s1 = parse_hex_u64_16 (take 16 (drop 16 str))\<rparr>
      else foldl seed_hash_step
             \<lparr>seed_s0 = 0xfcc3a80ff25bae88, seed_s1 = 0x78ac504431a5b8e6\<rparr> str)"

text \<open>\<open>std::format("{:016x}")\<close>: sixteen lower-case digits, zero padded.\<close>

definition hex_char :: "nat \<Rightarrow> char" where
  "hex_char d = ''0123456789abcdef'' ! d"

fun hex_digits :: "nat \<Rightarrow> nat \<Rightarrow> string" where
  "hex_digits 0 n = []"
| "hex_digits (Suc k) n = hex_digits k (n div 16) @ [hex_char (n mod 16)]"

definition seed_toString :: "seed \<Rightarrow> string" where
  "seed_toString s = hex_digits 16 (unat (seed_s0 s)) @ hex_digits 16 (unat (seed_s1 s))"

subsection \<open>The generator\<close>

definition xoro_next :: "seed \<Rightarrow> u64 \<times> seed" where
  "xoro_next sd =
     (let s0 = seed_s0 sd;
          s1 = seed_s1 sd;
          result = word_rotl 17 (s0 + s1) + s0;
          s1 = s1 XOR s0
      in (result,
          \<lparr>seed_s0 = word_rotl 49 s0 XOR s1 XOR push_bit 21 s1, seed_s1 = word_rotl 28 s1\<rparr>))"

definition seed_xor :: "seed \<Rightarrow> seed \<Rightarrow> seed" where
  "seed_xor a b = \<lparr>seed_s0 = seed_s0 a XOR seed_s0 b, seed_s1 = seed_s1 a XOR seed_s1 b\<rparr>"

text \<open>
  The shared body of \<open>jump64\<close> and \<open>jump96\<close>: for every bit of the two constants, low bit first,
  the original seed is added to the moving state when the bit is set, and the state steps.
\<close>

definition jump_bit :: "seed \<Rightarrow> bool \<Rightarrow> seed \<Rightarrow> seed" where
  "jump_bit sd is_set res = snd (xoro_next (if is_set then seed_xor res sd else res))"

definition jump_with :: "u64 \<Rightarrow> u64 \<Rightarrow> seed \<Rightarrow> seed" where
  "jump_with j0 j1 sd =
     fold (jump_bit sd) (map (bit j0) [0..<64] @ map (bit j1) [0..<64]) sd"

definition jump64 :: "seed \<Rightarrow> seed" where
  "jump64 sd = jump_with 0x180ec6d33cfd0aba 0xd5a61266f0c9392c sd"

definition jump96 :: "seed \<Rightarrow> seed" where
  "jump96 sd = jump_with 0x360fd5f2cf8d5d99 0x9c6e6877736c46e3 sd"

subsection \<open>Seed text round trip\<close>

lemma hex_char_small: "d < 16 \<Longrightarrow> is_hex_char (hex_char d) \<and> hex_digit_value (hex_char d) = d"
proof -
  assume "d < 16"
  then have "d \<in> set [0..<16]" by simp
  moreover have "list_all (\<lambda>d. is_hex_char (hex_char d) \<and> hex_digit_value (hex_char d) = d) [0..<16]"
    by code_simp
  ultimately show ?thesis by (simp only: list_all_iff)
qed

lemma hex_digits_hex: "list_all is_hex_char (hex_digits k n)"
  by (induction k arbitrary: n) (auto simp: hex_char_small)

lemma length_hex_digits [simp]: "length (hex_digits k n) = k"
  by (induction k arbitrary: n) auto

lemma hex_value_digits: "hex_value (hex_digits k n) = n mod 16 ^ k"
proof (induction k arbitrary: n)
  case 0
  then show ?case by (simp add: hex_value_def)
next
  case (Suc k)
  have "hex_value (hex_digits (Suc k) n) = (n div 16) mod 16 ^ k * 16 + n mod 16"
    using Suc by (simp add: hex_value_def hex_char_small)
  also have "\<dots> = n mod (16 * 16 ^ k)"
    by (simp add: mod_mult2_eq)
  finally show ?case by simp
qed

lemma parse_hex_digits: "parse_hex_u64_16 (hex_digits 16 (unat w)) = w"
proof -
  have lt: "unat w < 16 ^ 16" using unsigned_less [of w] by simp
  have tw: "takeWhile is_hex_char (hex_digits 16 (unat w)) = hex_digits 16 (unat w)"
    using hex_digits_hex by (simp add: list_all_iff)
  have "hex_digits 16 (unat w) \<noteq> []"
    by (metis length_hex_digits list.size(3) zero_neq_numeral)
  then show ?thesis
    using lt unfolding parse_hex_u64_16_def tw Let_def by (simp add: hex_value_digits)
qed

lemma seed_toString_raw: "is_raw_seed_format (seed_toString s)"
  using hex_digits_hex by (simp add: is_raw_seed_format_def seed_toString_def)

lemma seed_fromString_toString: "seed_fromString (seed_toString s) = s"
proof -
  have "seed_fromString (seed_toString s)
    = \<lparr>seed_s0 = parse_hex_u64_16 (take 16 (seed_toString s)),
       seed_s1 = parse_hex_u64_16 (take 16 (drop 16 (seed_toString s)))\<rparr>"
    using seed_toString_raw by (simp add: seed_fromString_def)
  then show ?thesis by (simp add: seed_toString_def parse_hex_digits)
qed

subsection \<open>The state transition is a bijection\<close>

definition xoro_state_prev :: "seed \<Rightarrow> seed" where
  "xoro_state_prev sd =
     (let x = word_rotr 28 (seed_s1 sd);
          s0 = word_rotr 49 (seed_s0 sd XOR x XOR push_bit 21 x)
      in \<lparr>seed_s0 = s0, seed_s1 = x XOR s0\<rparr>)"

lemma xor_cancel: "(a XOR b XOR c) XOR b XOR c = a" for a :: "'n :: len word"
  by (simp add: xor.commute xor.left_commute)

lemma xoro_prev_next: "xoro_state_prev (snd (xoro_next sd)) = sd"
  by (cases sd) (simp add: xoro_state_prev_def xoro_next_def Let_def
      xor.commute xor.left_commute)

lemma xoro_next_prev: "snd (xoro_next (xoro_state_prev sd)) = sd"
  by (cases sd) (simp add: xoro_state_prev_def xoro_next_def Let_def
      xor.commute xor.left_commute)

end
