(* ===== verification/World.thy ===== *)
theory World
  imports Vision Replay_Log Xoroshiro
begin

text \<open>
  The state of a match (\<open>include/corertt/world.h\<close>) and its basic operations (\<open>src/world.cpp\<close>):
  construction, spawning, the base actions, the bounds tests, the log.

  Units and bullets are shared objects: the vectors \<open>_units\<close> and \<open>_bullets\<close> own them, while tiles
  and players keep plain pointers. They are kept in two heaps from addresses; an address that
  is not allocated (any more) maps to \<open>None\<close>, and a read or write through it has no result.
  Addresses are handed out in increasing order. The process-wide generator
  \<open>Xoroshiro128PP::globalInstance()\<close> is the field \<open>w_rng\<close>.
\<close>

definition max_units :: nat where "max_units = 15"

datatype action_result =
    OK
  | INVALID_POINTER
  | INVALID_UNIT
  | INSUFFICIENT_ENERGY
  | ON_COOLDOWN
  | CAPACITY_FULL
  | INVALID_ID
  | OUT_OF_RANGE
  | UNSUPPORTED_RUNTIME

fun action_result_code :: "action_result \<Rightarrow> int" where
  "action_result_code OK = 0"
| "action_result_code INVALID_POINTER = -1"
| "action_result_code INVALID_UNIT = -2"
| "action_result_code INSUFFICIENT_ENERGY = -3"
| "action_result_code ON_COOLDOWN = -4"
| "action_result_code CAPACITY_FULL = -5"
| "action_result_code INVALID_ID = -6"
| "action_result_code OUT_OF_RANGE = -7"
| "action_result_code UNSUPPORTED_RUNTIME = -8"

datatype termination_reason = Ongoing | Victory | RuleDraw

record turn_events =
  ev_unit_left_base :: bool
  ev_unit_entered_resource_zone :: bool
  ev_unit_upgraded_or_repaired_at_base :: bool
  ev_unit_manufactured :: bool
  ev_unit_destroyed :: bool
  ev_base_entered_capture_condition :: bool

definition no_events :: turn_events where
  "no_events =
     \<lparr>ev_unit_left_base = False, ev_unit_entered_resource_zone = False,
      ev_unit_upgraded_or_repaired_at_base = False, ev_unit_manufactured = False,
      ev_unit_destroyed = False, ev_base_entered_capture_condition = False\<rparr>"

text \<open>
  A message keeps the bytes that were copied into its array; its length is stored in one byte
  (\<open>mp_length\<close>), whatever the number of bytes.
\<close>

record message_packet =
  mp_length :: u8
  mp_data :: "byte list"

definition packet_size :: nat where "packet_size = 512"

record player =
  p_base_x :: pos_t
  p_base_y :: pos_t
  p_base_energy :: energy_t
  p_units :: "addr option list"
  p_base_capture_counter :: int
  p_unit_elf_crash_flag :: bool
  p_base_elf_crash_flag :: bool
  p_unit_elf :: "byte list"
  p_base_elf :: "byte list"
  p_incoming :: "message_packet list"
  p_outgoing :: "message_packet list"

definition new_player :: player where
  "new_player =
     \<lparr>p_base_x = 0, p_base_y = 0, p_base_energy = 0, p_units = replicate max_units None,
      p_base_capture_counter = 0, p_unit_elf_crash_flag = False, p_base_elf_crash_flag = False,
      p_unit_elf = [], p_base_elf = [], p_incoming = [], p_outgoing = []\<rparr>"

record world =
  w_tick :: u32
  w_map :: tilemap
  w_rules :: game_rules
  w_players :: "side \<Rightarrow> player"
  w_units :: "addr list"
  w_uheap :: "addr \<Rightarrow> game_unit option"
  w_bullets :: "addr list"
  w_bheap :: "addr \<Rightarrow> bullet option"
  w_next :: addr
  w_logs :: "log_entry list"
  w_events :: turn_events
  w_reason :: termination_reason
  w_winner :: u8
  w_rng :: seed

subsection \<open>Access to shared objects\<close>

definition upd_player :: "side \<Rightarrow> (player \<Rightarrow> player) \<Rightarrow> world \<Rightarrow> world" where
  "upd_player s f w = w\<lparr>w_players := (w_players w)(s := f (w_players w s))\<rparr>"

definition upd_unit :: "addr \<Rightarrow> (game_unit \<Rightarrow> game_unit) \<Rightarrow> world \<Rightarrow> world option" where
  "upd_unit a f w =
     map_option (\<lambda>u. w\<lparr>w_uheap := (w_uheap w)(a := Some (f u))\<rparr>) (w_uheap w a)"

definition upd_bullet :: "addr \<Rightarrow> (bullet \<Rightarrow> bullet) \<Rightarrow> world \<Rightarrow> world option" where
  "upd_bullet a f w =
     map_option (\<lambda>b. w\<lparr>w_bheap := (w_bheap w)(a := Some (f b))\<rparr>) (w_bheap w a)"

definition world_tile :: "world \<Rightarrow> pos_t \<times> pos_t \<Rightarrow> tile option" where
  "world_tile w p = tileOf (w_map w) p"

definition upd_tile :: "pos_t \<times> pos_t \<Rightarrow> (tile \<Rightarrow> tile) \<Rightarrow> world \<Rightarrow> world option" where
  "upd_tile p f w = map_option (\<lambda>m. w\<lparr>w_map := m\<rparr>) (updTile p f (w_map w))"

text \<open>
  The three statements that change a tile's occupant: \<open>unsetOccupant()\<close>, and setting the pointer
  and the tag for a unit or a bullet.
\<close>

definition set_occ :: "pos_t \<times> pos_t \<Rightarrow> occupant \<Rightarrow> world \<Rightarrow> world option" where
  "set_occ p occupant w = upd_tile p (\<lambda>t. t\<lparr>t_occupant := occupant\<rparr>) w"

definition set_event :: "(turn_events \<Rightarrow> turn_events) \<Rightarrow> world \<Rightarrow> world" where
  "set_event f w = w\<lparr>w_events := f (w_events w)\<rparr>"

text \<open>\<open>units[id - 1] = p\<close> of a player's fixed array.\<close>

definition set_slot :: "side \<Rightarrow> u8 \<Rightarrow> addr option \<Rightarrow> world \<Rightarrow> world option" where
  "set_slot s i p w = do {
     fail_fast_assert (1 \<le> unat i \<and> unat i \<le> length (p_units (w_players w s)));
     Some (upd_player s (\<lambda>pl. pl\<lparr>p_units := (p_units pl)[unat i - 1 := p]\<rparr>) w)
   }"

subsection \<open>Queries\<close>

definition gameOver :: "world \<Rightarrow> bool" where
  "gameOver w \<longleftrightarrow> w_reason w \<noteq> Ongoing"

definition capturedPlayerId :: "world \<Rightarrow> u8" where
  "capturedPlayerId w = (if w_winner w = 0 then 0 else 3 - w_winner w)"

definition isInBounds :: "world \<Rightarrow> pos_t \<times> pos_t \<Rightarrow> bool" where
  "isInBounds w p = tm_inb (w_map w) p"

definition isInBase :: "world \<Rightarrow> pos_t \<times> pos_t \<Rightarrow> side \<Rightarrow> bool" where
  "isInBase w p s =
     (let pl = w_players w s; base_size = tm_base_size (w_map w) in
      fst p \<ge> p_base_x pl \<and> fst p < p_base_x pl + base_size
      \<and> snd p \<ge> p_base_y pl \<and> snd p < p_base_y pl + base_size)"

definition findUnit :: "world \<Rightarrow> u8 \<Rightarrow> u8 \<Rightarrow> addr option" where
  "findUnit w unit_id player_id =
     (if unit_id < 1 \<or> unat unit_id > max_units then None
      else (case side_of player_id of
              None \<Rightarrow> None
            | Some s \<Rightarrow> p_units (w_players w s) ! (unat unit_id - 1)))"

subsection \<open>Log and termination\<close>

definition appendLog :: "log_entry \<Rightarrow> world \<Rightarrow> world" where
  "appendLog entry w = w\<lparr>w_logs := w_logs w @ [entry]\<rparr>"

definition takeTickLogs :: "world \<Rightarrow> log_entry list \<times> world" where
  "takeTickLogs w = (w_logs w, w\<lparr>w_logs := []\<rparr>)"

definition markVictory :: "u8 \<Rightarrow> world \<Rightarrow> world option" where
  "markVictory winner_player_id w = do {
     fail_fast_assert (winner_player_id = 1 \<or> winner_player_id = 2);
     Some (w\<lparr>w_winner := winner_player_id, w_reason := Victory\<rparr>)
   }"

definition markRuleDraw :: "world \<Rightarrow> world" where
  "markRuleDraw w = (if gameOver w then w else w\<lparr>w_reason := RuleDraw\<rparr>)"

definition setPlayerProgram :: "u8 \<Rightarrow> byte list \<Rightarrow> byte list \<Rightarrow> world \<Rightarrow> world option" where
  "setPlayerProgram player_id base_elf unit_elf w = do {
     s \<leftarrow> side_of player_id;
     Some (upd_player s (\<lambda>pl. pl\<lparr>p_base_elf := base_elf, p_unit_elf := unit_elf\<rparr>) w)
   }"

subsection \<open>Spawning\<close>

definition spawnUnit :: "side \<Rightarrow> u8 \<Rightarrow> pos_t \<times> pos_t \<Rightarrow> world \<Rightarrow> world option" where
  "spawnUnit s unit_id p w = do {
     let a = w_next w;
     let u = new_unit unit_id s (fst p) (snd p) (gr_unit_health (w_rules w));
     let w = w\<lparr>w_next := a + 1, w_uheap := (w_uheap w)(a := Some u)\<rparr>;
     w \<leftarrow> set_occ p (OCCUPIED_BY_UNIT a) w;
     w \<leftarrow> set_slot s unit_id (Some a) w;
     let w = appendLog (unitCreationLog (w_tick w) (side_id s) unit_id) w;
     Some (w\<lparr>w_units := w_units w @ [a]\<rparr>)
   }"

text \<open>The positions of a base in the order of the two loops, and those that are not occupied.\<close>

definition base_tiles :: "world \<Rightarrow> side \<Rightarrow> (pos_t \<times> pos_t) list" where
  "base_tiles w s =
     (let pl = w_players w s; n = tm_base_size (w_map w) in
      [(p_base_x pl + dx, p_base_y pl + dy). dx \<leftarrow> [0..n - 1], dy \<leftarrow> [0..n - 1]])"

definition collect_empty :: "world \<Rightarrow> pos_t \<times> pos_t \<Rightarrow> (pos_t \<times> pos_t) list
    \<Rightarrow> (pos_t \<times> pos_t) list option" where
  "collect_empty w p acc =
     map_option (\<lambda>t. if t_occupant t = NOT_OCCUPIED then acc @ [p] else acc) (world_tile w p)"

text \<open>
  \<open>std::uniform_int_distribution<size_t>(0, n - 1)\<close> applied to the generator, whose algorithm the
  C++ standard leaves open, is the parameter \<open>uniform_int\<close>: from \<open>n\<close> and the generator's state
  to the number and the new state.
\<close>

type_synonym uniform = "nat \<Rightarrow> seed \<Rightarrow> nat \<times> seed"

definition uniform_ok :: "uniform \<Rightarrow> bool" where
  "uniform_ok uniform_int \<longleftrightarrow> (\<forall>n s. 0 < n \<longrightarrow> fst (uniform_int n s) < n)"

definition spawnUnitAtBase :: "uniform \<Rightarrow> side \<Rightarrow> u8 \<Rightarrow> world \<Rightarrow> world option" where
  "spawnUnitAtBase uniform_int s unit_id w = do {
     empty_tiles \<leftarrow> foldM (collect_empty w) (base_tiles w s) [];
     fail_fast_assert (empty_tiles \<noteq> []);
     let (k, rng) = uniform_int (length empty_tiles) (w_rng w);
     spawnUnit s unit_id (empty_tiles ! k) (w\<lparr>w_rng := rng\<rparr>)
   }"

subsection \<open>Construction\<close>

type_synonym found_bases = "side \<Rightarrow> (pos_t \<times> pos_t) option"

definition find_base :: "tilemap \<Rightarrow> pos_t \<times> pos_t \<Rightarrow> found_bases \<Rightarrow> found_bases option" where
  "find_base m p found = do {
     t \<leftarrow> tileOf m p;
     if \<not> t_is_base t then Some found
     else do {
       s \<leftarrow> side_of (t_side t);
       Some (if found s \<noteq> None then found else found(s := Some p))
     }
   }"

definition new_world :: "uniform \<Rightarrow> tilemap \<Rightarrow> game_rules \<Rightarrow> seed \<Rightarrow> world option" where
  "new_world uniform_int m rules rng = do {
     let rules = rules\<lparr>gr_width := word_of_int (tm_width m), gr_height := word_of_int (tm_height m),
                       gr_base_size := word_of_int (tm_base_size m)\<rparr>;
     fail_fast_assert (rules_validate rules);
     found \<leftarrow> foldM (find_base m)
       [(x, y). x \<leftarrow> [0..tm_width m - 1], y \<leftarrow> [0..tm_height m - 1]] (\<lambda>_. None);
     fail_fast_assert (found P1 \<noteq> None \<and> found P2 \<noteq> None);
     let w = \<lparr>w_tick = 0, w_map = m, w_rules = rules,
              w_players = (\<lambda>s. new_player\<lparr>p_base_x := fst (the (found s)),
                                          p_base_y := snd (the (found s))\<rparr>),
              w_units = [], w_uheap = (\<lambda>_. None), w_bullets = [], w_bheap = (\<lambda>_. None),
              w_next = 0, w_logs = [], w_events = no_events, w_reason = Ongoing, w_winner = 0,
              w_rng = rng\<rparr>;
     foldM (\<lambda>(s, i). spawnUnitAtBase uniform_int s i)
       [(s, i). s \<leftarrow> [P1, P2], i \<leftarrow> [1, 2, 3]] w
   }"

end
