(* ===== verification/World_Inv.thy ===== *)
theory World_Inv
  imports World
begin

text \<open>
  The well-formedness of a match: how tiles, units, bullets and the players' arrays refer to one
  another. It is stated on the parts of a state that matter (\<open>wf_heap\<close>), with one lemma for every
  way in which the operations change those parts, so that an operation's own proof is a choice
  among these lemmas. A bullet that has left its tile and not yet reached the next one is the
  argument \<open>fl\<close> (in flight).
\<close>

definition wf_heap ::
  "addr option \<Rightarrow> (pos_t \<times> pos_t \<Rightarrow> occupant option) \<Rightarrow> addr list \<Rightarrow> (addr \<Rightarrow> game_unit option)
     \<Rightarrow> addr list \<Rightarrow> (addr \<Rightarrow> bullet option) \<Rightarrow> (side \<Rightarrow> addr option list) \<Rightarrow> addr \<Rightarrow> bool" where
  "wf_heap fl oc us uh bs bh sl nx \<longleftrightarrow>
     distinct us \<and> distinct bs
     \<and> (\<forall>a. nx \<le> a \<longrightarrow> uh a = None \<and> bh a = None)
     \<and> (\<forall>a\<in>set us. \<exists>u. uh a = Some u \<and> oc (u_pos u) \<noteq> None
          \<and> 1 \<le> unat (u_id u) \<and> unat (u_id u) \<le> max_units
          \<and> (u_health u \<noteq> 0 \<longrightarrow> oc (u_pos u) = Some (OCCUPIED_BY_UNIT a)
               \<and> sl (u_player u) ! (unat (u_id u) - 1) = Some a))
     \<and> (\<forall>p a. oc p = Some (OCCUPIED_BY_UNIT a) \<longrightarrow> a \<in> set us \<and> (\<exists>u. uh a = Some u \<and> u_pos u = p))
     \<and> (\<forall>b\<in>set bs. \<exists>bl. bh b = Some bl \<and> oc (b_pos bl) \<noteq> None
          \<and> (b_damage bl \<noteq> 0 \<longrightarrow> fl \<noteq> Some b \<longrightarrow> oc (b_pos bl) = Some (OCCUPIED_BY_BULLET b)))
     \<and> (\<forall>s. length (sl s) = max_units)
     \<and> (\<forall>s i a. i < max_units \<longrightarrow> sl s ! i = Some a \<longrightarrow>
          a \<in> set us \<and> (\<exists>u. uh a = Some u \<and> u_player u = s \<and> unat (u_id u) = Suc i))
     \<and> (\<forall>a\<in>set us. \<forall>a'\<in>set us. \<forall>u u'. uh a = Some u \<longrightarrow> uh a' = Some u' \<longrightarrow>
          u_player u = u_player u' \<longrightarrow> u_id u = u_id u' \<longrightarrow> a = a')
     \<and> (\<forall>p b. oc p = Some (OCCUPIED_BY_BULLET b) \<longrightarrow>
          b < nx \<and> fl \<noteq> Some b \<and> (\<forall>bl. bh b = Some bl \<longrightarrow> b_pos bl = p))"

lemma wf_heapI:
  assumes "distinct us" "distinct bs"
    "\<And>a. nx \<le> a \<Longrightarrow> uh a = None" "\<And>a. nx \<le> a \<Longrightarrow> bh a = None"
    "\<And>a. a \<in> set us \<Longrightarrow> \<exists>u. uh a = Some u \<and> oc (u_pos u) \<noteq> None
          \<and> 1 \<le> unat (u_id u) \<and> unat (u_id u) \<le> max_units
          \<and> (u_health u \<noteq> 0 \<longrightarrow> oc (u_pos u) = Some (OCCUPIED_BY_UNIT a)
               \<and> sl (u_player u) ! (unat (u_id u) - 1) = Some a)"
    "\<And>p a. oc p = Some (OCCUPIED_BY_UNIT a) \<Longrightarrow> a \<in> set us \<and> (\<exists>u. uh a = Some u \<and> u_pos u = p)"
    "\<And>b. b \<in> set bs \<Longrightarrow> \<exists>bl. bh b = Some bl \<and> oc (b_pos bl) \<noteq> None
          \<and> (b_damage bl \<noteq> 0 \<longrightarrow> fl \<noteq> Some b \<longrightarrow> oc (b_pos bl) = Some (OCCUPIED_BY_BULLET b))"
    "\<And>s. length (sl s) = max_units"
    "\<And>s i a. i < max_units \<Longrightarrow> sl s ! i = Some a \<Longrightarrow>
          a \<in> set us \<and> (\<exists>u. uh a = Some u \<and> u_player u = s \<and> unat (u_id u) = Suc i)"
    "\<And>a a' u u'. a \<in> set us \<Longrightarrow> a' \<in> set us \<Longrightarrow> uh a = Some u \<Longrightarrow> uh a' = Some u' \<Longrightarrow>
          u_player u = u_player u' \<Longrightarrow> u_id u = u_id u' \<Longrightarrow> a = a'"
    "\<And>p b. oc p = Some (OCCUPIED_BY_BULLET b) \<Longrightarrow>
          b < nx \<and> fl \<noteq> Some b \<and> (\<forall>bl. bh b = Some bl \<longrightarrow> b_pos bl = p)"
  shows "wf_heap fl oc us uh bs bh sl nx"
  unfolding wf_heap_def using assms by blast

lemma wf_heapD:
  assumes "wf_heap fl oc us uh bs bh sl nx"
  shows wf_heap_distinct: "distinct us" "distinct bs"
    and wf_heap_fresh: "nx \<le> a \<Longrightarrow> uh a = None" "nx \<le> a \<Longrightarrow> bh a = None"
    and wf_heap_unit: "a \<in> set us \<Longrightarrow> \<exists>u. uh a = Some u \<and> oc (u_pos u) \<noteq> None
          \<and> 1 \<le> unat (u_id u) \<and> unat (u_id u) \<le> max_units
          \<and> (u_health u \<noteq> 0 \<longrightarrow> oc (u_pos u) = Some (OCCUPIED_BY_UNIT a)
               \<and> sl (u_player u) ! (unat (u_id u) - 1) = Some a)"
    and wf_heap_occ: "oc p = Some (OCCUPIED_BY_UNIT a) \<Longrightarrow>
          a \<in> set us \<and> (\<exists>u. uh a = Some u \<and> u_pos u = p)"
    and wf_heap_bullet: "b \<in> set bs \<Longrightarrow> \<exists>bl. bh b = Some bl \<and> oc (b_pos bl) \<noteq> None
          \<and> (b_damage bl \<noteq> 0 \<longrightarrow> fl \<noteq> Some b \<longrightarrow> oc (b_pos bl) = Some (OCCUPIED_BY_BULLET b))"
    and wf_heap_slots: "length (sl s) = max_units"
    and wf_heap_slot: "i < max_units \<Longrightarrow> sl s ! i = Some a \<Longrightarrow>
          a \<in> set us \<and> (\<exists>u. uh a = Some u \<and> u_player u = s \<and> unat (u_id u) = Suc i)"
    and wf_heap_unique: "a \<in> set us \<Longrightarrow> a' \<in> set us \<Longrightarrow> uh a = Some u \<Longrightarrow> uh a' = Some u' \<Longrightarrow>
          u_player u = u_player u' \<Longrightarrow> u_id u = u_id u' \<Longrightarrow> a = a'"
    and wf_heap_ref: "oc p = Some (OCCUPIED_BY_BULLET b) \<Longrightarrow>
          b < nx \<and> fl \<noteq> Some b \<and> (\<forall>bl. bh b = Some bl \<longrightarrow> b_pos bl = p)"
  using assms unfolding wf_heap_def by blast+

lemma wf_heap_unit':
  assumes "wf_heap fl oc us uh bs bh sl nx" "a \<in> set us" "uh a = Some u"
  shows "oc (u_pos u) \<noteq> None" "1 \<le> unat (u_id u)" "unat (u_id u) \<le> max_units"
    "u_health u \<noteq> 0 \<Longrightarrow> oc (u_pos u) = Some (OCCUPIED_BY_UNIT a)"
    "u_health u \<noteq> 0 \<Longrightarrow> sl (u_player u) ! (unat (u_id u) - 1) = Some a"
  using wf_heap_unit [OF assms(1,2)] assms(3) by auto

lemma wf_heap_bullet':
  assumes "wf_heap fl oc us uh bs bh sl nx" "b \<in> set bs" "bh b = Some bl"
  shows "oc (b_pos bl) \<noteq> None"
    "b_damage bl \<noteq> 0 \<Longrightarrow> fl \<noteq> Some b \<Longrightarrow> oc (b_pos bl) = Some (OCCUPIED_BY_BULLET b)"
  using wf_heap_bullet [OF assms(1,2)] assms(3) by auto

subsection \<open>How well-formedness survives each kind of change\<close>

text \<open>A unit changes but stays where it is and does not come back to life.\<close>

lemma wf_heap_upd_unit:
  assumes W: "wf_heap fl oc us uh bs bh sl nx" and u: "uh a = Some u"
    and same: "u_pos u' = u_pos u" "u_id u' = u_id u" "u_player u' = u_player u"
    and alive: "u_health u' \<noteq> 0 \<Longrightarrow> u_health u \<noteq> 0"
  shows "wf_heap fl oc us (uh(a \<mapsto> u')) bs bh sl nx"
proof (rule wf_heapI)
  fix c
  show "\<exists>v. (uh(a \<mapsto> u')) c = Some v \<and> oc (u_pos v) \<noteq> None
          \<and> 1 \<le> unat (u_id v) \<and> unat (u_id v) \<le> max_units
          \<and> (u_health v \<noteq> 0 \<longrightarrow> oc (u_pos v) = Some (OCCUPIED_BY_UNIT c)
               \<and> sl (u_player v) ! (unat (u_id v) - 1) = Some c)" if "c \<in> set us"
    using wf_heap_unit [OF W that] same alive u by (cases "c = a") auto
  show "(uh(a \<mapsto> u')) c = None" if "nx \<le> c"
    using wf_heap_fresh [OF W that] u by auto
next
  fix p c assume "oc p = Some (OCCUPIED_BY_UNIT c)"
  from wf_heap_occ [OF W this] show "c \<in> set us \<and> (\<exists>v. (uh(a \<mapsto> u')) c = Some v \<and> u_pos v = p)"
    using same u by (cases "c = a") auto
next
  fix s i c assume "i < max_units" "sl s ! i = Some c"
  from wf_heap_slot [OF W this]
  show "c \<in> set us \<and> (\<exists>v. (uh(a \<mapsto> u')) c = Some v \<and> u_player v = s \<and> unat (u_id v) = Suc i)"
    using same u by (cases "c = a") auto
next
  fix c d v w assume "c \<in> set us" "d \<in> set us" "(uh(a \<mapsto> u')) c = Some v" "(uh(a \<mapsto> u')) d = Some w"
    "u_player v = u_player w" "u_id v = u_id w"
  moreover have "\<exists>v0. uh c = Some v0 \<and> u_player v0 = u_player v \<and> u_id v0 = u_id v"
    using calculation same u by (cases "c = a") auto
  moreover have "\<exists>w0. uh d = Some w0 \<and> u_player w0 = u_player w \<and> u_id w0 = u_id w"
    using calculation same u by (cases "d = a") auto
  ultimately show "c = d" using wf_heap_unique [OF W, of c d] by metis
qed (use wf_heapD [OF W] in blast)+

text \<open>A bullet's damage drops; or a bullet in flight changes in any way but stays on the map.\<close>

lemma wf_heap_upd_bullet:
  assumes W: "wf_heap fl oc us uh bs bh sl nx" and b: "bh b = Some bl"
    and pos: "b_pos bl' = b_pos bl" and alive: "b_damage bl' \<noteq> 0 \<Longrightarrow> b_damage bl \<noteq> 0 \<or> fl = Some b"
  shows "wf_heap fl oc us uh bs (bh(b \<mapsto> bl')) sl nx"
proof (rule wf_heapI)
  fix c
  show "\<exists>v. (bh(b \<mapsto> bl')) c = Some v \<and> oc (b_pos v) \<noteq> None
          \<and> (b_damage v \<noteq> 0 \<longrightarrow> fl \<noteq> Some c \<longrightarrow> oc (b_pos v) = Some (OCCUPIED_BY_BULLET c))"
    if "c \<in> set bs"
    using wf_heap_bullet [OF W that] pos alive b by (cases "c = b") auto
  show "(bh(b \<mapsto> bl')) c = None" if "nx \<le> c"
    using wf_heap_fresh [OF W that] b by auto
next
  fix p c assume "oc p = Some (OCCUPIED_BY_BULLET c)"
  from wf_heap_ref [OF W this]
  show "c < nx \<and> fl \<noteq> Some c \<and> (\<forall>v. (bh(b \<mapsto> bl')) c = Some v \<longrightarrow> b_pos v = p)"
    using b pos by auto
qed (use wf_heapD [OF W] in blast)+

text \<open>The unit on a tile is destroyed.\<close>

lemma wf_heap_kill_unit:
  assumes W: "wf_heap fl oc us uh bs bh sl nx" and occ: "oc p = Some (OCCUPIED_BY_UNIT a)"
    and u: "uh a = Some u"
  shows "wf_heap fl (oc(p \<mapsto> NOT_OCCUPIED)) us (uh(a \<mapsto> u\<lparr>u_health := 0\<rparr>)) bs bh
    (sl(u_player u := (sl (u_player u))[unat (u_id u) - 1 := None])) nx"
proof (rule wf_heapI)
  have a: "a \<in> set us" "u_pos u = p" using wf_heap_occ [OF W occ] u by auto
  have id: "1 \<le> unat (u_id u)" "unat (u_id u) \<le> max_units" using wf_heap_unit' [OF W a(1) u] by auto
  let ?sl = "sl(u_player u := (sl (u_player u))[unat (u_id u) - 1 := None])"
  fix c
  show "\<exists>v. (uh(a \<mapsto> u\<lparr>u_health := 0\<rparr>)) c = Some v \<and> (oc(p \<mapsto> NOT_OCCUPIED)) (u_pos v) \<noteq> None
          \<and> 1 \<le> unat (u_id v) \<and> unat (u_id v) \<le> max_units
          \<and> (u_health v \<noteq> 0 \<longrightarrow> (oc(p \<mapsto> NOT_OCCUPIED)) (u_pos v) = Some (OCCUPIED_BY_UNIT c)
               \<and> ?sl (u_player v) ! (unat (u_id v) - 1) = Some c)" if c: "c \<in> set us"
  proof (cases "c = a")
    case True
    then show ?thesis using id a by simp
  next
    case False
    obtain v where v: "uh c = Some v" using wf_heap_unit [OF W c] by auto
    note D = wf_heap_unit' [OF W c v]
    have "u_pos v \<noteq> p" if "u_health v \<noteq> 0" using D(4) [OF that] occ False by auto
    moreover have "u_player v = u_player u \<Longrightarrow> unat (u_id v) - 1 \<noteq> unat (u_id u) - 1"
    proof
      assume pl: "u_player v = u_player u" and "unat (u_id v) - 1 = unat (u_id u) - 1"
      then have "u_id v = u_id u" using D(2) id(1) by (simp add: word_unat_eq_iff)
      then show False using wf_heap_unique [OF W c a(1) v u pl] False by simp
    qed
    ultimately show ?thesis using False v D by (auto simp: nth_list_update)
  qed
  show "(uh(a \<mapsto> u\<lparr>u_health := 0\<rparr>)) c = None" if "nx \<le> c"
    using wf_heap_fresh [OF W that] u by auto
next
  fix q c assume "(oc(p \<mapsto> NOT_OCCUPIED)) q = Some (OCCUPIED_BY_UNIT c)"
  then have "oc q = Some (OCCUPIED_BY_UNIT c)" by (auto split: if_splits)
  from wf_heap_occ [OF W this]
  show "c \<in> set us \<and> (\<exists>v. (uh(a \<mapsto> u\<lparr>u_health := 0\<rparr>)) c = Some v \<and> u_pos v = q)"
    using u by (cases "c = a") auto
next
  fix c assume c: "c \<in> set bs"
  show "\<exists>v. bh c = Some v \<and> (oc(p \<mapsto> NOT_OCCUPIED)) (b_pos v) \<noteq> None
      \<and> (b_damage v \<noteq> 0 \<longrightarrow> fl \<noteq> Some c \<longrightarrow>
           (oc(p \<mapsto> NOT_OCCUPIED)) (b_pos v) = Some (OCCUPIED_BY_BULLET c))"
    using wf_heap_bullet [OF W c] occ by (auto simp del: fun_upd_apply simp add: fun_upd_def)
next
  fix s i c
  assume i: "i < max_units"
    and "(sl(u_player u := (sl (u_player u))[unat (u_id u) - 1 := None])) s ! i = Some c"
  then have "sl s ! i = Some c"
    using wf_heap_slots [OF W, of s]
    by (cases "i = unat (u_id u) - 1") (auto split: if_splits)
  from wf_heap_slot [OF W i this]
  show "c \<in> set us \<and> (\<exists>v. (uh(a \<mapsto> u\<lparr>u_health := 0\<rparr>)) c = Some v \<and> u_player v = s \<and> unat (u_id v) = Suc i)"
    using u by (cases "c = a") auto
next
  fix c d v w assume "c \<in> set us" "d \<in> set us"
    "(uh(a \<mapsto> u\<lparr>u_health := 0\<rparr>)) c = Some v" "(uh(a \<mapsto> u\<lparr>u_health := 0\<rparr>)) d = Some w"
    "u_player v = u_player w" "u_id v = u_id w"
  moreover have "\<exists>v0. uh c = Some v0 \<and> u_player v0 = u_player v \<and> u_id v0 = u_id v"
    using calculation u by (cases "c = a") auto
  moreover have "\<exists>w0. uh d = Some w0 \<and> u_player w0 = u_player w \<and> u_id w0 = u_id w"
    using calculation u by (cases "d = a") auto
  ultimately show "c = d" using wf_heap_unique [OF W, of c d] by metis
next
  fix s show "length ((sl(u_player u := (sl (u_player u))[unat (u_id u) - 1 := None])) s) = max_units"
    using wf_heap_slots [OF W] by simp
next
  fix q c assume "(oc(p \<mapsto> NOT_OCCUPIED)) q = Some (OCCUPIED_BY_BULLET c)"
  then show "c < nx \<and> fl \<noteq> Some c \<and> (\<forall>v. bh c = Some v \<longrightarrow> b_pos v = q)"
    using wf_heap_ref [OF W, of q c] by (auto split: if_splits)
qed (use wf_heapD [OF W] in blast)+

text \<open>A tile that a bullet occupies becomes free, and with it that bullet is gone or in flight.\<close>

lemma wf_heap_free_bullet_tile:
  assumes W: "wf_heap fl oc us uh bs bh sl nx" and occ: "oc p = Some (OCCUPIED_BY_BULLET b)"
    and gone: "fl' = Some b \<and> bh b \<noteq> None \<and> (\<forall>c. fl = Some c \<longrightarrow> c = b)
       \<or> fl' = fl \<and> (\<forall>bl. b \<in> set bs \<longrightarrow> bh b = Some bl \<longrightarrow> b_damage bl = 0)"
  shows "wf_heap fl' (oc(p \<mapsto> NOT_OCCUPIED)) us uh bs bh sl nx"
proof (rule wf_heapI)
  fix c assume c: "c \<in> set us"
  from wf_heap_unit [OF W c]
  show "\<exists>v. uh c = Some v \<and> (oc(p \<mapsto> NOT_OCCUPIED)) (u_pos v) \<noteq> None
          \<and> 1 \<le> unat (u_id v) \<and> unat (u_id v) \<le> max_units
          \<and> (u_health v \<noteq> 0 \<longrightarrow> (oc(p \<mapsto> NOT_OCCUPIED)) (u_pos v) = Some (OCCUPIED_BY_UNIT c)
               \<and> sl (u_player v) ! (unat (u_id v) - 1) = Some c)"
    using occ by (auto simp del: fun_upd_apply simp add: fun_upd_def)
next
  fix q c assume "(oc(p \<mapsto> NOT_OCCUPIED)) q = Some (OCCUPIED_BY_UNIT c)"
  then show "c \<in> set us \<and> (\<exists>v. uh c = Some v \<and> u_pos v = q)"
    using wf_heap_occ [OF W] by (auto split: if_splits)
next
  fix c assume c: "c \<in> set bs"
  obtain v where v: "bh c = Some v" using wf_heap_bullet [OF W c] by auto
  note D = wf_heap_bullet' [OF W c v]
  have fl: "fl \<noteq> Some c" if "fl' \<noteq> Some c"
    using that gone by auto
  moreover have "b_pos v \<noteq> p" if "b_damage v \<noteq> 0" "fl' \<noteq> Some c"
    using that gone D(2) [OF that(1) fl [OF that(2)]] occ c v by auto
  ultimately show "\<exists>v. bh c = Some v \<and> (oc(p \<mapsto> NOT_OCCUPIED)) (b_pos v) \<noteq> None
      \<and> (b_damage v \<noteq> 0 \<longrightarrow> fl' \<noteq> Some c \<longrightarrow>
           (oc(p \<mapsto> NOT_OCCUPIED)) (b_pos v) = Some (OCCUPIED_BY_BULLET c))"
    using v D by (auto simp del: fun_upd_apply simp add: fun_upd_def)
next
  fix q c assume "(oc(p \<mapsto> NOT_OCCUPIED)) q = Some (OCCUPIED_BY_BULLET c)"
  then have q: "q \<noteq> p" "oc q = Some (OCCUPIED_BY_BULLET c)" by (auto split: if_splits)
  show "c < nx \<and> fl' \<noteq> Some c \<and> (\<forall>v. bh c = Some v \<longrightarrow> b_pos v = q)"
    using wf_heap_ref [OF W q(2)] wf_heap_ref [OF W occ] q(1) gone by auto
qed (use wf_heapD [OF W] in blast)+

text \<open>A bullet in flight reaches a free tile; it may be a new one that joins the vector.\<close>

lemma wf_heap_place_bullet:
  assumes W: "wf_heap fl oc us uh bs bh sl nx" and occ: "oc p = Some NOT_OCCUPIED"
    and fl: "fl = Some b \<or> fl = None" and b: "b < nx" "b_pos bl = p"
    and unref: "\<And>q. oc q \<noteq> Some (OCCUPIED_BY_BULLET b)"
    and bs': "(bs' = bs \<and> b \<in> set bs \<and> fl = Some b) \<or> (bs' = bs @ [b] \<and> b \<notin> set bs)"
  shows "wf_heap None (oc(p \<mapsto> OCCUPIED_BY_BULLET b)) us uh bs' (bh(b \<mapsto> bl)) sl nx"
proof (rule wf_heapI)
  show "distinct bs'" using bs' wf_heap_distinct(2) [OF W] by auto
next
  fix c assume "nx \<le> c"
  then show "(bh(b \<mapsto> bl)) c = None" using wf_heap_fresh(2) [OF W] b by auto
next
  fix c assume c: "c \<in> set us"
  from wf_heap_unit [OF W c]
  show "\<exists>v. uh c = Some v \<and> (oc(p \<mapsto> OCCUPIED_BY_BULLET b)) (u_pos v) \<noteq> None
          \<and> 1 \<le> unat (u_id v) \<and> unat (u_id v) \<le> max_units
          \<and> (u_health v \<noteq> 0 \<longrightarrow> (oc(p \<mapsto> OCCUPIED_BY_BULLET b)) (u_pos v) = Some (OCCUPIED_BY_UNIT c)
               \<and> sl (u_player v) ! (unat (u_id v) - 1) = Some c)"
    using occ by (auto simp del: fun_upd_apply simp add: fun_upd_def)
next
  fix q c assume "(oc(p \<mapsto> OCCUPIED_BY_BULLET b)) q = Some (OCCUPIED_BY_UNIT c)"
  then show "c \<in> set us \<and> (\<exists>v. uh c = Some v \<and> u_pos v = q)"
    using wf_heap_occ [OF W] by (auto split: if_splits)
next
  fix c assume c: "c \<in> set bs'"
  show "\<exists>v. (bh(b \<mapsto> bl)) c = Some v \<and> (oc(p \<mapsto> OCCUPIED_BY_BULLET b)) (b_pos v) \<noteq> None
      \<and> (b_damage v \<noteq> 0 \<longrightarrow> None \<noteq> Some c \<longrightarrow>
           (oc(p \<mapsto> OCCUPIED_BY_BULLET b)) (b_pos v) = Some (OCCUPIED_BY_BULLET c))"
  proof (cases "c = b")
    case True
    then show ?thesis using b by simp
  next
    case False
    then have "c \<in> set bs" "fl \<noteq> Some c" using c bs' fl by auto
    then show ?thesis using wf_heap_bullet [OF W, of c] False occ
      by (auto simp del: fun_upd_apply simp add: fun_upd_def)
  qed
next
  fix q c assume "(oc(p \<mapsto> OCCUPIED_BY_BULLET b)) q = Some (OCCUPIED_BY_BULLET c)"
  then show "c < nx \<and> None \<noteq> Some c \<and> (\<forall>v. (bh(b \<mapsto> bl)) c = Some v \<longrightarrow> b_pos v = q)"
    using wf_heap_ref [OF W, of q c] unref [of q] b by (auto split: if_splits)
qed (use wf_heapD [OF W] in blast)+

text \<open>Allocation, release of what nobody owns, and removal of the dead from the vectors.\<close>

lemma wf_heap_alloc_bullet:
  assumes W: "wf_heap fl oc us uh bs bh sl nx"
  shows "wf_heap fl oc us uh bs (bh(nx \<mapsto> bl)) sl (nx + 1)"
proof (rule wf_heapI)
  fix c assume c: "c \<in> set bs"
  then have "c \<noteq> nx" using wf_heap_bullet [OF W c] wf_heap_fresh(2) [OF W, of c] by auto
  then show "\<exists>v. (bh(nx \<mapsto> bl)) c = Some v \<and> oc (b_pos v) \<noteq> None
      \<and> (b_damage v \<noteq> 0 \<longrightarrow> fl \<noteq> Some c \<longrightarrow> oc (b_pos v) = Some (OCCUPIED_BY_BULLET c))"
    using wf_heap_bullet [OF W c] by simp
next
  fix c assume "nx + 1 \<le> c"
  then show "uh c = None" "(bh(nx \<mapsto> bl)) c = None"
    using wf_heap_fresh [OF W, of c] by auto
next
  fix p c assume "oc p = Some (OCCUPIED_BY_BULLET c)"
  from wf_heap_ref [OF W this]
  show "c < nx + 1 \<and> fl \<noteq> Some c \<and> (\<forall>v. (bh(nx \<mapsto> bl)) c = Some v \<longrightarrow> b_pos v = p)"
    by auto
qed (use wf_heapD [OF W] in blast)+

lemma wf_heap_release_bullets:
  assumes W: "wf_heap fl oc us uh bs bh sl nx"
    and bs': "set bs' \<subseteq> set bs" "distinct bs'"
    and bh': "\<And>c. c \<in> set bs' \<Longrightarrow> bh' c = bh c" "\<And>c. bh' c = None \<or> bh' c = bh c"
  shows "wf_heap fl oc us uh bs' bh' sl nx"
proof (rule wf_heapI)
  fix c assume "nx \<le> c"
  then show "bh' c = None" using wf_heap_fresh(2) [OF W] bh'(2) by metis
next
  fix c assume "c \<in> set bs'"
  then show "\<exists>v. bh' c = Some v \<and> oc (b_pos v) \<noteq> None
      \<and> (b_damage v \<noteq> 0 \<longrightarrow> fl \<noteq> Some c \<longrightarrow> oc (b_pos v) = Some (OCCUPIED_BY_BULLET c))"
    using wf_heap_bullet [OF W, of c] bh'(1) bs' by auto
next
  fix p c assume "oc p = Some (OCCUPIED_BY_BULLET c)"
  from wf_heap_ref [OF W this]
  show "c < nx \<and> fl \<noteq> Some c \<and> (\<forall>v. bh' c = Some v \<longrightarrow> b_pos v = p)"
    using bh'(2) [of c] by auto
qed (use wf_heapD [OF W] bs'(2) in blast)+

lemma wf_heap_release_units:
  assumes W: "wf_heap fl oc us uh bs bh sl nx"
    and us': "set us' \<subseteq> set us" "distinct us'"
    and uh': "\<And>c. c \<in> set us' \<Longrightarrow> uh' c = uh c" "\<And>c. uh' c = None \<or> uh' c = uh c"
    and occ: "\<And>p c. oc p = Some (OCCUPIED_BY_UNIT c) \<Longrightarrow> c \<in> set us'"
    and slot: "\<And>s i c. i < max_units \<Longrightarrow> sl s ! i = Some c \<Longrightarrow> c \<in> set us'"
  shows "wf_heap fl oc us' uh' bs bh sl nx"
proof (rule wf_heapI)
  fix c assume "nx \<le> c"
  then show "uh' c = None" using wf_heap_fresh(1) [OF W] uh'(2) by metis
next
  fix c assume c: "c \<in> set us'"
  then have "c \<in> set us" "uh' c = uh c" using us' uh' by auto
  then show "\<exists>v. uh' c = Some v \<and> oc (u_pos v) \<noteq> None
          \<and> 1 \<le> unat (u_id v) \<and> unat (u_id v) \<le> max_units
          \<and> (u_health v \<noteq> 0 \<longrightarrow> oc (u_pos v) = Some (OCCUPIED_BY_UNIT c)
               \<and> sl (u_player v) ! (unat (u_id v) - 1) = Some c)"
    using wf_heap_unit [OF W] by metis
next
  fix p c assume p: "oc p = Some (OCCUPIED_BY_UNIT c)"
  show "c \<in> set us' \<and> (\<exists>v. uh' c = Some v \<and> u_pos v = p)"
    using wf_heap_occ [OF W p] occ [OF p] uh'(1) by metis
next
  fix s i c assume i: "i < max_units" "sl s ! i = Some c"
  show "c \<in> set us' \<and> (\<exists>v. uh' c = Some v \<and> u_player v = s \<and> unat (u_id v) = Suc i)"
    using wf_heap_slot [OF W i] slot [OF i] uh'(1) by metis
next
  fix a a' u u' assume a: "a \<in> set us'" "a' \<in> set us'" "uh' a = Some u" "uh' a' = Some u'"
    "u_player u = u_player u'" "u_id u = u_id u'"
  then show "a = a'" using wf_heap_unique [OF W, of a a' u u'] us' uh' by auto
qed (use wf_heapD [OF W] us'(2) in blast)+

text \<open>A new unit appears on a free tile, with an id that its player does not use.\<close>

lemma wf_heap_spawn:
  assumes W: "wf_heap fl oc us uh bs bh sl nx" and occ: "oc (u_pos u) = Some NOT_OCCUPIED"
    and id: "1 \<le> unat (u_id u)" "unat (u_id u) \<le> max_units"
    and free: "\<And>a v. a \<in> set us \<Longrightarrow> uh a = Some v \<Longrightarrow> u_player v = u_player u \<Longrightarrow> u_id v \<noteq> u_id u"
  shows "wf_heap fl (oc(u_pos u \<mapsto> OCCUPIED_BY_UNIT nx)) (us @ [nx]) (uh(nx \<mapsto> u)) bs bh
    (sl(u_player u := (sl (u_player u))[unat (u_id u) - 1 := Some nx])) (nx + 1)"
proof (rule wf_heapI)
  let ?oc = "oc(u_pos u \<mapsto> OCCUPIED_BY_UNIT nx)"
  let ?sl = "sl(u_player u := (sl (u_player u))[unat (u_id u) - 1 := Some nx])"
  have nx: "nx \<notin> set us" using wf_heap_unit [OF W, of nx] wf_heap_fresh(1) [OF W, of nx] by auto
  show "distinct (us @ [nx])" using nx wf_heap_distinct [OF W] by simp
  show "(uh(nx \<mapsto> u)) c = None" "bh c = None" if "nx + 1 \<le> c" for c
    using wf_heap_fresh [OF W, of c] that by auto
  have other: "u_player v = u_player u \<Longrightarrow> unat (u_id v) \<noteq> unat (u_id u)"
    if "c \<in> set us" "uh c = Some v" for c v
    using free [OF that] by (simp add: word_unat_eq_iff)
  show "\<exists>v. (uh(nx \<mapsto> u)) c = Some v \<and> ?oc (u_pos v) \<noteq> None
          \<and> 1 \<le> unat (u_id v) \<and> unat (u_id v) \<le> max_units
          \<and> (u_health v \<noteq> 0 \<longrightarrow> ?oc (u_pos v) = Some (OCCUPIED_BY_UNIT c)
               \<and> ?sl (u_player v) ! (unat (u_id v) - 1) = Some c)" if c: "c \<in> set (us @ [nx])" for c
  proof (cases "c = nx")
    case True
    then show ?thesis using id wf_heap_slots [OF W] by simp
  next
    case False
    then have c: "c \<in> set us" using c by simp
    obtain v where v: "uh c = Some v" using wf_heap_unit [OF W c] by auto
    note D = wf_heap_unit' [OF W c v]
    have "u_pos v \<noteq> u_pos u" if "u_health v \<noteq> 0" using D(4) [OF that] occ by auto
    moreover have "u_player v = u_player u \<Longrightarrow> unat (u_id v) - 1 \<noteq> unat (u_id u) - 1"
      using other [OF c v] D(2) id(1) by linarith
    ultimately show ?thesis using False v D by (auto simp: nth_list_update)
  qed
  show "c \<in> set (us @ [nx]) \<and> (\<exists>v. (uh(nx \<mapsto> u)) c = Some v \<and> u_pos v = p)"
    if "?oc p = Some (OCCUPIED_BY_UNIT c)" for p c
  proof (cases "p = u_pos u")
    case True
    then show ?thesis using that by simp
  next
    case False
    then have "oc p = Some (OCCUPIED_BY_UNIT c)" using that by simp
    from wf_heap_occ [OF W this] show ?thesis using nx by (cases "c = nx") auto
  qed
  show "\<exists>v. bh c = Some v \<and> ?oc (b_pos v) \<noteq> None
      \<and> (b_damage v \<noteq> 0 \<longrightarrow> fl \<noteq> Some c \<longrightarrow> ?oc (b_pos v) = Some (OCCUPIED_BY_BULLET c))"
    if "c \<in> set bs" for c
    using wf_heap_bullet [OF W that] occ by (auto simp del: fun_upd_apply simp add: fun_upd_def)
  show "length (?sl s) = max_units" for s
    using wf_heap_slots [OF W] by simp
  show "c \<in> set (us @ [nx]) \<and> (\<exists>v. (uh(nx \<mapsto> u)) c = Some v \<and> u_player v = s \<and> unat (u_id v) = Suc i)"
    if i: "i < max_units" "?sl s ! i = Some c" for s i c
  proof (cases "s = u_player u \<and> i = unat (u_id u) - 1")
    case True
    then have "c = nx" using i wf_heap_slots [OF W] by simp
    then show ?thesis using True id by simp
  next
    case False
    then have "sl s ! i = Some c" using i(2) by (auto split: if_splits)
    from wf_heap_slot [OF W i(1) this] show ?thesis using nx by (cases "c = nx") auto
  qed
  show "a = a'" if "a \<in> set (us @ [nx])" "a' \<in> set (us @ [nx])" "(uh(nx \<mapsto> u)) a = Some v"
    "(uh(nx \<mapsto> u)) a' = Some v'" "u_player v = u_player v'" "u_id v = u_id v'" for a a' v v'
    using that free wf_heap_unique [OF W, of a a' v v'] nx by (auto split: if_splits)
  show "c < nx + 1 \<and> fl \<noteq> Some c \<and> (\<forall>v. bh c = Some v \<longrightarrow> b_pos v = p)"
    if "?oc p = Some (OCCUPIED_BY_BULLET c)" for p c
    using wf_heap_ref [OF W, of p c] that by (auto split: if_splits)
qed (use wf_heapD [OF W] in blast)+

subsection \<open>The views of a world\<close>

definition occ :: "world \<Rightarrow> pos_t \<times> pos_t \<Rightarrow> occupant option" where
  "occ w p = map_option t_occupant (world_tile w p)"

definition slots :: "world \<Rightarrow> side \<Rightarrow> addr option list" where
  "slots w s = p_units (w_players w s)"

text \<open>What no step of a match changes: the ground, the rules and where the bases are.\<close>

definition ground :: "world \<Rightarrow> pos_t \<times> pos_t \<Rightarrow> tile option" where
  "ground w p = map_option (\<lambda>t. t\<lparr>t_occupant := NOT_OCCUPIED\<rparr>) (world_tile w p)"

type_synonym static = "(pos_t \<times> pos_t \<Rightarrow> tile option) \<times> (pos_t \<times> pos_t \<times> pos_t) \<times> bool
  \<times> game_rules \<times> (side \<Rightarrow> pos_t \<times> pos_t)"

definition static :: "world \<Rightarrow> static" where
  "static w = (ground w, (tm_width (w_map w), tm_height (w_map w), tm_base_size (w_map w)),
     tilemap_wf (w_map w), w_rules w, (\<lambda>s. (p_base_x (w_players w s), p_base_y (w_players w s))))"

definition bases_on_map :: "world \<Rightarrow> bool" where
  "bases_on_map w \<longleftrightarrow> 0 < tm_base_size (w_map w) \<and>
     (\<forall>s. 0 \<le> p_base_x (w_players w s) \<and> 0 \<le> p_base_y (w_players w s)
        \<and> p_base_x (w_players w s) + tm_base_size (w_map w) \<le> tm_width (w_map w)
        \<and> p_base_y (w_players w s) + tm_base_size (w_map w) \<le> tm_height (w_map w))"

definition static_ok :: "world \<Rightarrow> bool" where
  "static_ok w \<longleftrightarrow> tilemap_wf (w_map w) \<and> rules_validate (w_rules w) \<and> bases_on_map w"

definition winv_in_flight :: "addr option \<Rightarrow> world \<Rightarrow> bool" where
  "winv_in_flight fl w \<longleftrightarrow> static_ok w \<and>
     wf_heap fl (occ w) (w_units w) (w_uheap w) (w_bullets w) (w_bheap w) (slots w) (w_next w)"

abbreviation winv :: "world \<Rightarrow> bool" where
  "winv \<equiv> winv_in_flight None"

lemma static_okD:
  "static w' = static w \<Longrightarrow> static_ok w' = static_ok w"
  by (simp add: static_def static_ok_def bases_on_map_def fun_eq_iff)

lemma static_facts:
  assumes "static w' = static w"
  shows "w_rules w' = w_rules w" "tm_inb (w_map w') = tm_inb (w_map w)"
    "isInBounds w' = isInBounds w" "isInBase w' = isInBase w" "base_tiles w' = base_tiles w"
    "tm_base_size (w_map w') = tm_base_size (w_map w)" "ground w' = ground w"
    "tilemap_wf (w_map w') = tilemap_wf (w_map w)"
  using assms
  by (auto simp: static_def tm_inb_def isInBounds_def isInBase_def base_tiles_def fun_eq_iff Let_def)

lemma winv_tilemap_wf: "winv_in_flight fl w \<Longrightarrow> tilemap_wf (w_map w)"
  by (simp add: winv_in_flight_def static_ok_def)

lemma winv_heap: "winv_in_flight fl w \<Longrightarrow>
    wf_heap fl (occ w) (w_units w) (w_uheap w) (w_bullets w) (w_bheap w) (slots w) (w_next w)"
  by (simp add: winv_in_flight_def)

lemma occ_None [simp]: "occ w p = None \<longleftrightarrow> \<not> tm_inb (w_map w) p"
  by (simp add: occ_def world_tile_def)

lemma occ_inb: "occ w p = Some k \<Longrightarrow> tm_inb (w_map w) p"
  using occ_None [of w p] by (metis option.distinct(1))

lemma world_tile_occ: "world_tile w p = Some t \<Longrightarrow> occ w p = Some (t_occupant t)"
  by (simp add: occ_def)

lemma set_occ_Some:
  assumes "set_occ p k w = Some w'" "tilemap_wf (w_map w)"
  obtains m where "w' = w\<lparr>w_map := m\<rparr>" "occ w' = (occ w)(p \<mapsto> k)" "static w' = static w"
    "tm_inb (w_map w) p"
proof -
  obtain m where m: "updTile p (\<lambda>t. t\<lparr>t_occupant := k\<rparr>) (w_map w) = Some m" "w' = w\<lparr>w_map := m\<rparr>"
    using assms(1) by (auto simp: set_occ_def upd_tile_def)
  note fr = updTile_frame [OF m(1)] and at = tileOf_updTile [OF m(1) assms(2)]
  have inb: "tm_inb (w_map w) p" using m(1) by (rule updTile_inb)
  then obtain t where t: "tileOf (w_map w) p = Some t" by (auto simp: tileOf_def)
  have "occ w' q = ((occ w)(p \<mapsto> k)) q" for q
    using t by (simp add: occ_def world_tile_def m(2) at)
  moreover have "ground w' q = ground w q" for q
    using t by (simp add: ground_def world_tile_def m(2) at)
  ultimately show thesis
    using that [OF m(2)] inb fr by (simp add: fun_eq_iff static_def m(2))
qed

lemma set_occ_None [simp]: "set_occ p k w = None \<longleftrightarrow> \<not> tm_inb (w_map w) p"
  by (simp add: set_occ_def upd_tile_def)

end
