(* ===== verification/World_Bullets.thy ===== *)
theory World_Bullets
  imports World_Inv
begin

text \<open>
  The bullet phase of a turn (\<open>_processBulletMovement\<close> and its helpers in \<open>src/world.cpp\<close>). The
  references \<open>Bullet &\<close> and \<open>other\<close> are addresses into the bullet heap, so an alias is an equal
  address.
\<close>

definition handleBulletCollision :: "addr \<Rightarrow> pos_t \<times> pos_t \<Rightarrow> world \<Rightarrow> world option" where
  "handleBulletCollision a p w = do {
     t \<leftarrow> world_tile w p;
     (case t_occupant t of
        NOT_OCCUPIED \<Rightarrow> Some w
      | OCCUPIED_BY_UNIT c \<Rightarrow> do {
          u \<leftarrow> w_uheap w c;
          b \<leftarrow> w_bheap w a;
          if b_damage b > u_health u then do {
            w \<leftarrow> upd_bullet a (\<lambda>b. b\<lparr>b_damage := b_damage b - u_health u\<rparr>) w;
            w \<leftarrow> upd_unit c (\<lambda>u. u\<lparr>u_health := 0\<rparr>) w;
            w \<leftarrow> set_occ p NOT_OCCUPIED w;
            set_slot (u_player u) (u_id u) None w
          } else do {
            w \<leftarrow> upd_unit c (\<lambda>u. u\<lparr>u_health := u_health u - b_damage b\<rparr>) w;
            upd_bullet a (\<lambda>b. b\<lparr>b_damage := 0\<rparr>) w
          }
        }
      | OCCUPIED_BY_BULLET c \<Rightarrow> do {
          oth \<leftarrow> w_bheap w c;
          b \<leftarrow> w_bheap w a;
          if b_damage b > b_damage oth then do {
            w \<leftarrow> upd_bullet a (\<lambda>b. b\<lparr>b_damage := b_damage b - b_damage oth\<rparr>) w;
            w \<leftarrow> upd_bullet c (\<lambda>b. b\<lparr>b_damage := 0\<rparr>) w;
            set_occ p NOT_OCCUPIED w
          } else do {
            w \<leftarrow> upd_bullet c (\<lambda>oth. oth\<lparr>b_damage := b_damage oth - b_damage b\<rparr>) w;
            w \<leftarrow> upd_bullet a (\<lambda>b. b\<lparr>b_damage := 0\<rparr>) w;
            oth \<leftarrow> w_bheap w c;
            if b_damage oth = 0 then set_occ p NOT_OCCUPIED w else Some w
          }
        })
   }"

definition moveBulletOneStep :: "addr \<Rightarrow> world \<Rightarrow> world option" where
  "moveBulletOneStep a w = do {
     b \<leftarrow> w_bheap w a;
     let new = step_pos (b_direction b) (b_pos b);
     if \<not> isInBounds w new then upd_bullet a (\<lambda>b. b\<lparr>b_damage := 0\<rparr>) w
     else do {
       t \<leftarrow> world_tile w new;
       if t_terrain t = OBSTACLE then upd_bullet a (\<lambda>b. b\<lparr>b_damage := 0\<rparr>) w
       else do {
         w \<leftarrow> set_occ (b_pos b) NOT_OCCUPIED w;
         w \<leftarrow> handleBulletCollision a new w;
         b \<leftarrow> w_bheap w a;
         if b_damage b = 0 then Some w
         else do {
           w \<leftarrow> upd_bullet a (\<lambda>b. b\<lparr>b_x := fst new, b_y := snd new\<rparr>) w;
           set_occ new (OCCUPIED_BY_BULLET a) w
         }
       }
     }
   }"

definition commitPendingAttack :: "addr \<Rightarrow> world \<Rightarrow> world option" where
  "commitPendingAttack c w = do {
     u \<leftarrow> w_uheap w c;
     if u_health u = 0 \<or> pa_damage (u_pending_attack u) = 0 then Some w
     else do {
       let bullet_damage = pa_damage (u_pending_attack u);
       let dir = pa_direction (u_pending_attack u);
       let target = step_pos dir (u_pos u);
       t \<leftarrow> world_tile w target;
       if t_terrain t = OBSTACLE then Some w
       else do {
         let a = w_next w;
         let b = \<lparr>b_x = fst target, b_y = snd target, b_direction = dir, b_player = u_player u,
                  b_damage = bullet_damage\<rparr>;
         let w = w\<lparr>w_next := a + 1, w_bheap := (w_bheap w)(a := Some b)\<rparr>;
         w \<leftarrow> handleBulletCollision a target w;
         b \<leftarrow> w_bheap w a;
         if b_damage b = 0 then Some (w\<lparr>w_bheap := (w_bheap w)(a := None)\<rparr>)
         else do {
           w \<leftarrow> set_occ target (OCCUPIED_BY_BULLET a) w;
           let w = w\<lparr>w_bullets := w_bullets w @ [a]\<rparr>;
           upd_unit c (\<lambda>u. u\<lparr>u_cooldown := gr_attack_cooldown (w_rules w),
             u_pending_attack := (u_pending_attack u)\<lparr>pa_damage := 0\<rparr>\<rparr>) w
         }
       }
     }
   }"

definition commitPendingAttacks :: "world \<Rightarrow> world option" where
  "commitPendingAttacks w = foldM commitPendingAttack (w_units w) w"

definition stepBullet :: "addr \<Rightarrow> world \<Rightarrow> world option" where
  "stepBullet a w = do {
     b \<leftarrow> w_bheap w a;
     if b_damage b = 0 then Some w else moveBulletOneStep a w
   }"

definition bullet_substep :: "nat \<Rightarrow> world \<Rightarrow> world option" where
  "bullet_substep i w = do {
     w \<leftarrow> foldM stepBullet (w_bullets w) w;
     if i = 0 then commitPendingAttacks w else Some w
   }"

text \<open>\<open>std::remove_if\<close> and \<open>erase\<close>: the destroyed bullets leave the vector and are freed.\<close>

definition bullet_destroyed :: "world \<Rightarrow> addr \<Rightarrow> bool" where
  "bullet_destroyed w b = (case w_bheap w b of None \<Rightarrow> False | Some bl \<Rightarrow> b_damage bl = 0)"

definition erase_bullets :: "world \<Rightarrow> world option" where
  "erase_bullets w = do {
     fail_fast_assert (list_all (\<lambda>b. w_bheap w b \<noteq> None) (w_bullets w));
     Some (w\<lparr>w_bullets := filter (\<lambda>b. \<not> bullet_destroyed w b) (w_bullets w),
             w_bheap := (\<lambda>b. if b \<in> set (w_bullets w) \<and> bullet_destroyed w b then None
                             else w_bheap w b)\<rparr>)
   }"

definition processBulletMovement :: "world \<Rightarrow> world option" where
  "processBulletMovement w = do {
     w \<leftarrow> forM 5 bullet_substep w;
     erase_bullets w
   }"

subsection \<open>One collision\<close>

lemma nat_sub_word: "unat (a - b :: 'n :: len word) = unat a - unat b" if "b \<le> a"
  using that by (rule unat_minus_le)

lemma slots_simps [simp]:
  "slots (w\<lparr>w_map := m\<rparr>) = slots w" "slots (w\<lparr>w_uheap := uh\<rparr>) = slots w"
  "slots (w\<lparr>w_bheap := bh\<rparr>) = slots w" "slots (w\<lparr>w_bullets := bs\<rparr>) = slots w"
  "slots (w\<lparr>w_next := n\<rparr>) = slots w" "slots (w\<lparr>w_units := us\<rparr>) = slots w"
  "slots (w\<lparr>w_logs := l\<rparr>) = slots w" "slots (w\<lparr>w_rng := r\<rparr>) = slots w"
  "slots (w\<lparr>w_events := e\<rparr>) = slots w"
  by (simp_all add: slots_def fun_eq_iff)

lemma occ_simps [simp]:
  "occ (w\<lparr>w_uheap := uh\<rparr>) = occ w" "occ (w\<lparr>w_bheap := bh\<rparr>) = occ w"
  "occ (w\<lparr>w_bullets := bs\<rparr>) = occ w" "occ (w\<lparr>w_next := n\<rparr>) = occ w"
  "occ (w\<lparr>w_units := us\<rparr>) = occ w" "occ (w\<lparr>w_logs := l\<rparr>) = occ w"
  "occ (w\<lparr>w_rng := r\<rparr>) = occ w" "occ (w\<lparr>w_events := e\<rparr>) = occ w"
  "occ (w\<lparr>w_players := ps\<rparr>) = occ w"
  by (simp_all add: occ_def world_tile_def fun_eq_iff)

lemma static_simps [simp]:
  "static (w\<lparr>w_uheap := uh\<rparr>) = static w" "static (w\<lparr>w_bheap := bh\<rparr>) = static w"
  "static (w\<lparr>w_bullets := bs\<rparr>) = static w" "static (w\<lparr>w_next := n\<rparr>) = static w"
  "static (w\<lparr>w_units := us\<rparr>) = static w" "static (w\<lparr>w_logs := l\<rparr>) = static w"
  "static (w\<lparr>w_rng := r\<rparr>) = static w" "static (w\<lparr>w_events := e\<rparr>) = static w"
  by (simp_all add: static_def ground_def world_tile_def fun_eq_iff)

lemma set_slot_Some:
  assumes "set_slot s i p w = Some w'"
  shows "w' = w\<lparr>w_players := w_players w'\<rparr>" "occ w' = occ w" "static w' = static w"
    "slots w' = (slots w)(s := (slots w s)[unat i - 1 := p])"
proof -
  have w': "w' = upd_player s (\<lambda>pl. pl\<lparr>p_units := (p_units pl)[unat i - 1 := p]\<rparr>) w"
    using assms by (auto simp: set_slot_def split: if_splits)
  then show "w' = w\<lparr>w_players := w_players w'\<rparr>" "occ w' = occ w" "static w' = static w"
    "slots w' = (slots w)(s := (slots w s)[unat i - 1 := p])"
    by (simp_all add: upd_player_def occ_def world_tile_def static_def ground_def slots_def fun_eq_iff)
qed

text \<open>
  What a collision does, in the subtraction of the rule specification: attacker and victim lose
  each other's strength, and neither goes below zero.
\<close>

inductive collision_effect :: "addr \<Rightarrow> pos_t \<times> pos_t \<Rightarrow> world \<Rightarrow> world \<Rightarrow> bool"
  for a p w w' where
  free: "occ w p = Some NOT_OCCUPIED \<Longrightarrow> w' = w \<Longrightarrow> collision_effect a p w w'"
| unit_destroyed: "occ w p = Some (OCCUPIED_BY_UNIT c) \<Longrightarrow> w_uheap w c = Some u
    \<Longrightarrow> w_bheap w a = Some b \<Longrightarrow> u_health u < b_damage b
    \<Longrightarrow> w_bheap w' = (w_bheap w)(a \<mapsto> b\<lparr>b_damage := b_damage b - u_health u\<rparr>)
    \<Longrightarrow> w_uheap w' = (w_uheap w)(c \<mapsto> u\<lparr>u_health := 0\<rparr>)
    \<Longrightarrow> occ w' = (occ w)(p \<mapsto> NOT_OCCUPIED)
    \<Longrightarrow> slots w' = (slots w)(u_player u := (slots w (u_player u))[unat (u_id u) - 1 := None])
    \<Longrightarrow> collision_effect a p w w'"
| unit_hit: "occ w p = Some (OCCUPIED_BY_UNIT c) \<Longrightarrow> w_uheap w c = Some u
    \<Longrightarrow> w_bheap w a = Some b \<Longrightarrow> b_damage b \<le> u_health u
    \<Longrightarrow> w_bheap w' = (w_bheap w)(a \<mapsto> b\<lparr>b_damage := 0\<rparr>)
    \<Longrightarrow> w_uheap w' = (w_uheap w)(c \<mapsto> u\<lparr>u_health := u_health u - b_damage b\<rparr>)
    \<Longrightarrow> occ w' = occ w \<Longrightarrow> slots w' = slots w
    \<Longrightarrow> collision_effect a p w w'"
| bullet_destroyed: "occ w p = Some (OCCUPIED_BY_BULLET c) \<Longrightarrow> w_bheap w c = Some oth
    \<Longrightarrow> w_bheap w a = Some b \<Longrightarrow> c \<noteq> a \<Longrightarrow> b_damage oth < b_damage b
    \<Longrightarrow> w_bheap w' = (w_bheap w)(a \<mapsto> b\<lparr>b_damage := b_damage b - b_damage oth\<rparr>,
                                 c \<mapsto> oth\<lparr>b_damage := 0\<rparr>)
    \<Longrightarrow> w_uheap w' = w_uheap w
    \<Longrightarrow> occ w' = (occ w)(p \<mapsto> NOT_OCCUPIED) \<Longrightarrow> slots w' = slots w
    \<Longrightarrow> collision_effect a p w w'"
| bullet_hit: "occ w p = Some (OCCUPIED_BY_BULLET c) \<Longrightarrow> w_bheap w c = Some oth
    \<Longrightarrow> w_bheap w a = Some b \<Longrightarrow> c \<noteq> a \<Longrightarrow> b_damage b \<le> b_damage oth
    \<Longrightarrow> w_bheap w' = (w_bheap w)(c \<mapsto> oth\<lparr>b_damage := b_damage oth - b_damage b\<rparr>,
                                 a \<mapsto> b\<lparr>b_damage := 0\<rparr>)
    \<Longrightarrow> w_uheap w' = w_uheap w
    \<Longrightarrow> occ w' = (if b_damage oth = b_damage b then (occ w)(p \<mapsto> NOT_OCCUPIED) else occ w)
    \<Longrightarrow> slots w' = slots w
    \<Longrightarrow> collision_effect a p w w'"

text \<open>The parts of a world that the bullet phase never touches.\<close>

definition bullet_frame :: "world \<Rightarrow> world \<Rightarrow> bool" where
  "bullet_frame w w' \<longleftrightarrow>
     static w' = static w \<and> w_tick w' = w_tick w \<and> w_units w' = w_units w \<and> w_logs w' = w_logs w
     \<and> w_events w' = w_events w \<and> w_reason w' = w_reason w \<and> w_winner w' = w_winner w
     \<and> w_rng w' = w_rng w
     \<and> (\<forall>s. p_base_energy (w_players w' s) = p_base_energy (w_players w s)
          \<and> p_base_capture_counter (w_players w' s) = p_base_capture_counter (w_players w s))"

lemma bullet_frame_refl [simp]: "bullet_frame w w"
  by (simp add: bullet_frame_def)

lemma bullet_frame_trans: "bullet_frame w w' \<Longrightarrow> bullet_frame w' w'' \<Longrightarrow> bullet_frame w w''"
  by (simp add: bullet_frame_def)

lemma upd_bullet_Some [simp]:
  "upd_bullet a f w = Some w' \<longleftrightarrow>
     (\<exists>b. w_bheap w a = Some b \<and> w' = w\<lparr>w_bheap := (w_bheap w)(a \<mapsto> f b)\<rparr>)"
  by (auto simp: upd_bullet_def)

lemma upd_unit_Some [simp]:
  "upd_unit a f w = Some w' \<longleftrightarrow>
     (\<exists>u. w_uheap w a = Some u \<and> w' = w\<lparr>w_uheap := (w_uheap w)(a \<mapsto> f u)\<rparr>)"
  by (auto simp: upd_unit_def)

lemma collision_destroy_unit:
  assumes wf: "tilemap_wf (w_map w)" and occ: "occ w p = Some (OCCUPIED_BY_UNIT c)"
    and u: "w_uheap w c = Some u" and b: "w_bheap w a = Some b"
    and gt: "u_health u < b_damage b" and res: "handleBulletCollision a p w = Some w'"
  shows "collision_effect a p w w' \<and> bullet_frame w w' \<and> w_bullets w' = w_bullets w \<and> w_next w' = w_next w"
proof -
  obtain t where t: "world_tile w p = Some t" "t_occupant t = OCCUPIED_BY_UNIT c"
    using occ by (auto simp: occ_def)
  let ?w1 = "w\<lparr>w_bheap := (w_bheap w)(a \<mapsto> b\<lparr>b_damage := b_damage b - u_health u\<rparr>),
               w_uheap := (w_uheap w)(c \<mapsto> u\<lparr>u_health := 0\<rparr>)\<rparr>"
  obtain w2 where w2: "set_occ p NOT_OCCUPIED ?w1 = Some w2" "set_slot (u_player u) (u_id u) None w2 = Some w'"
    using res gt u b t
    by (auto simp: handleBulletCollision_def bind_eq_Some_conv upd_bullet_def upd_unit_def)
  obtain m where m: "w2 = ?w1\<lparr>w_map := m\<rparr>" "occ w2 = (occ w)(p \<mapsto> NOT_OCCUPIED)" "static w2 = static w"
    using set_occ_Some [OF w2(1)] wf by auto
  have pl: "w' = upd_player (u_player u) (\<lambda>pl. pl\<lparr>p_units := (p_units pl)[unat (u_id u) - 1 := None]\<rparr>) w2"
    using w2(2) by (auto simp: set_slot_def split: if_splits)
  note sl = set_slot_Some [OF w2(2)]
  have "collision_effect a p w w'"
    using occ u b gt m sl by (intro collision_effect.unit_destroyed) (auto simp: pl upd_player_def)
  then show ?thesis using sl m by (auto simp: bullet_frame_def pl upd_player_def)
qed

lemma collision_hit_unit:
  assumes occ: "occ w p = Some (OCCUPIED_BY_UNIT c)"
    and u: "w_uheap w c = Some u" and b: "w_bheap w a = Some b"
    and le: "\<not> u_health u < b_damage b" and res: "handleBulletCollision a p w = Some w'"
  shows "collision_effect a p w w' \<and> bullet_frame w w' \<and> w_bullets w' = w_bullets w \<and> w_next w' = w_next w"
proof -
  obtain t where t: "world_tile w p = Some t" "t_occupant t = OCCUPIED_BY_UNIT c"
    using occ by (auto simp: occ_def)
  have w': "w' = w\<lparr>w_uheap := (w_uheap w)(c \<mapsto> u\<lparr>u_health := u_health u - b_damage b\<rparr>),
      w_bheap := (w_bheap w)(a \<mapsto> b\<lparr>b_damage := 0\<rparr>)\<rparr>"
    using res le u b t
    by (auto simp: handleBulletCollision_def bind_eq_Some_conv)
  have "collision_effect a p w w'"
    using occ u b le by (intro collision_effect.unit_hit) (auto simp: w')
  then show ?thesis by (auto simp: bullet_frame_def w')
qed

lemma collision_destroy_bullet:
  assumes wf: "tilemap_wf (w_map w)" and occ: "occ w p = Some (OCCUPIED_BY_BULLET c)" and ca: "c \<noteq> a"
    and u: "w_bheap w c = Some oth" and b: "w_bheap w a = Some b"
    and gt: "b_damage oth < b_damage b" and res: "handleBulletCollision a p w = Some w'"
  shows "collision_effect a p w w' \<and> bullet_frame w w' \<and> w_bullets w' = w_bullets w \<and> w_next w' = w_next w"
proof -
  obtain t where t: "world_tile w p = Some t" "t_occupant t = OCCUPIED_BY_BULLET c"
    using occ by (auto simp: occ_def)
  let ?w1 = "w\<lparr>w_bheap := (w_bheap w)(a \<mapsto> b\<lparr>b_damage := b_damage b - b_damage oth\<rparr>,
               c \<mapsto> oth\<lparr>b_damage := 0\<rparr>)\<rparr>"
  have w2: "set_occ p NOT_OCCUPIED ?w1 = Some w'"
    using res gt u b t ca
    by (auto simp: handleBulletCollision_def bind_eq_Some_conv upd_bullet_def)
  obtain m where m: "w' = ?w1\<lparr>w_map := m\<rparr>" "occ w' = (occ w)(p \<mapsto> NOT_OCCUPIED)" "static w' = static w"
    using set_occ_Some [OF w2] wf by auto
  have "collision_effect a p w w'"
    using occ u b gt m(2) ca by (intro collision_effect.bullet_destroyed) (auto simp: m(1))
  then show ?thesis using m by (auto simp: bullet_frame_def)
qed

lemma collision_hit_bullet:
  assumes wf: "tilemap_wf (w_map w)" and occ: "occ w p = Some (OCCUPIED_BY_BULLET c)" and ca: "c \<noteq> a"
    and u: "w_bheap w c = Some oth" and b: "w_bheap w a = Some b"
    and le: "\<not> b_damage oth < b_damage b" and res: "handleBulletCollision a p w = Some w'"
  shows "collision_effect a p w w' \<and> bullet_frame w w' \<and> w_bullets w' = w_bullets w \<and> w_next w' = w_next w"
proof -
  obtain t where t: "world_tile w p = Some t" "t_occupant t = OCCUPIED_BY_BULLET c"
    using occ by (auto simp: occ_def)
  let ?w1 = "w\<lparr>w_bheap := (w_bheap w)(c \<mapsto> oth\<lparr>b_damage := b_damage oth - b_damage b\<rparr>,
               a \<mapsto> b\<lparr>b_damage := 0\<rparr>)\<rparr>"
  have w2: "(if b_damage oth = b_damage b then set_occ p NOT_OCCUPIED ?w1 else Some ?w1) = Some w'"
    using res le u b t ca
    by (auto simp: handleBulletCollision_def bind_eq_Some_conv upd_bullet_def)
  show ?thesis
  proof (cases "b_damage oth = b_damage b")
    case True
    then have s: "set_occ p NOT_OCCUPIED ?w1 = Some w'" using w2 by simp
    obtain m where m: "w' = ?w1\<lparr>w_map := m\<rparr>" "occ w' = (occ w)(p \<mapsto> NOT_OCCUPIED)" "static w' = static w"
      using set_occ_Some [OF s] wf by auto
    have "collision_effect a p w w'"
      using occ u b le m(2) ca True by (intro collision_effect.bullet_hit) (auto simp: m(1))
    then show ?thesis using m by (auto simp: bullet_frame_def)
  next
    case False
    then have w': "w' = ?w1" using w2 by simp
    have "collision_effect a p w w'"
      using occ u b le ca False by (intro collision_effect.bullet_hit) (auto simp: w')
    then show ?thesis by (auto simp: bullet_frame_def w')
  qed
qed

lemma collision_correct:
  assumes wf: "tilemap_wf (w_map w)" and a: "occ w p \<noteq> Some (OCCUPIED_BY_BULLET a)"
    and res: "handleBulletCollision a p w = Some w'"
  shows "collision_effect a p w w'" "bullet_frame w w'" "w_bullets w' = w_bullets w" "w_next w' = w_next w"
proof -
  obtain t where t: "world_tile w p = Some t" using res by (auto simp: handleBulletCollision_def bind_eq_Some_conv)
  then have o': "occ w p = Some (t_occupant t)" by (simp add: occ_def)
  have "collision_effect a p w w' \<and> bullet_frame w w' \<and> w_bullets w' = w_bullets w \<and> w_next w' = w_next w"
  proof (cases "t_occupant t")
    case NOT_OCCUPIED
    then have "w' = w" using res t by (simp add: handleBulletCollision_def)
    then show ?thesis using NOT_OCCUPIED o' by (auto intro: collision_effect.free)
  next
    case (OCCUPIED_BY_UNIT c)
    then obtain u b where ub: "w_uheap w c = Some u" "w_bheap w a = Some b"
      using res t by (auto simp: handleBulletCollision_def bind_eq_Some_conv)
    show ?thesis
      using collision_destroy_unit [OF wf _ ub _ res] collision_hit_unit [OF _ ub _ res] o' OCCUPIED_BY_UNIT
      by (cases "u_health u < b_damage b") auto
  next
    case (OCCUPIED_BY_BULLET c)
    then obtain oth b where ub: "w_bheap w c = Some oth" "w_bheap w a = Some b"
      using res t by (auto simp: handleBulletCollision_def bind_eq_Some_conv)
    have c: "c \<noteq> a" using a o' OCCUPIED_BY_BULLET by auto
    show ?thesis
      using collision_destroy_bullet [OF wf _ c ub _ res] collision_hit_bullet [OF wf _ c ub _ res]
        o' OCCUPIED_BY_BULLET
      by (cases "b_damage oth < b_damage b") auto
  qed
  then show "collision_effect a p w w'" "bullet_frame w w'" "w_bullets w' = w_bullets w" "w_next w' = w_next w"
    by auto
qed

subsection \<open>Well-formedness through the phase\<close>

lemma winv_frame:
  assumes "winv_in_flight fl w" "static w' = static w"
    "wf_heap fl' (occ w') (w_units w') (w_uheap w') (w_bullets w') (w_bheap w') (slots w') (w_next w')"
  shows "winv_in_flight fl' w'"
  using assms(1,3) static_okD [OF assms(2)] by (simp add: winv_in_flight_def)

text \<open>What the mover knows after a collision on \<open>p\<close>.\<close>

definition collided :: "addr option \<Rightarrow> addr \<Rightarrow> pos_t \<times> pos_t \<Rightarrow> bullet \<Rightarrow> world \<Rightarrow> bool" where
  "collided fl a p b w' \<longleftrightarrow> winv_in_flight fl w'
     \<and> (\<exists>b'. w_bheap w' a = Some b' \<and> b_pos b' = b_pos b \<and> b_direction b' = b_direction b
           \<and> b_player b' = b_player b \<and> (b_damage b' \<noteq> 0 \<longrightarrow> occ w' p = Some NOT_OCCUPIED))
     \<and> (\<forall>q. occ w' q \<noteq> Some (OCCUPIED_BY_BULLET a))"

lemma collidedI:
  assumes "winv_in_flight fl w" "static w' = static w"
    "wf_heap fl (occ w') (w_units w') (w_uheap w') (w_bullets w') (w_bheap w') (slots w') (w_next w')"
    "w_bheap w' a = Some (b\<lparr>b_damage := d\<rparr>)" "d \<noteq> 0 \<Longrightarrow> occ w' p = Some NOT_OCCUPIED"
    "\<And>q. occ w' q = occ w q \<or> occ w' q = Some NOT_OCCUPIED"
    "\<And>q. occ w q \<noteq> Some (OCCUPIED_BY_BULLET a)"
  shows "collided fl a p b w'"
proof -
  have "occ w' q \<noteq> Some (OCCUPIED_BY_BULLET a)" for q
    using assms(6) [of q] assms(7) [of q] by auto
  then show ?thesis
    unfolding collided_def using winv_frame [OF assms(1-3)] assms(4,5) by simp
qed

definition collision_pre :: "addr option \<Rightarrow> addr \<Rightarrow> bullet \<Rightarrow> world \<Rightarrow> world \<Rightarrow> bool" where
  "collision_pre fl a b w w' \<longleftrightarrow> winv_in_flight fl w
     \<and> (\<forall>q. occ w q \<noteq> Some (OCCUPIED_BY_BULLET a)) \<and> w_bheap w a = Some b \<and> b_damage b \<noteq> 0
     \<and> static w' = static w \<and> w_units w' = w_units w \<and> w_bullets w' = w_bullets w
     \<and> w_next w' = w_next w"

lemma collision_preD:
  assumes "collision_pre fl a b w w'"
  shows "winv_in_flight fl w" "\<And>q. occ w q \<noteq> Some (OCCUPIED_BY_BULLET a)"
    "w_bheap w a = Some b" "b_damage b \<noteq> 0" "static w' = static w" "w_units w' = w_units w"
    "w_bullets w' = w_bullets w" "w_next w' = w_next w"
  using assms unfolding collision_pre_def by blast+

lemma collided_unit_destroyed:
  assumes pre: "collision_pre fl a b w w'" and o: "occ w p = Some (OCCUPIED_BY_UNIT c)" and u: "w_uheap w c = Some u"
    and bh: "w_bheap w' = (w_bheap w)(a \<mapsto> b\<lparr>b_damage := d\<rparr>)"
    and uh: "w_uheap w' = (w_uheap w)(c \<mapsto> u\<lparr>u_health := 0\<rparr>)"
    and oc: "occ w' = (occ w)(p \<mapsto> NOT_OCCUPIED)"
    and sl: "slots w' = (slots w)(u_player u := (slots w (u_player u))[unat (u_id u) - 1 := None])"
  shows "collided fl a p b w'"
proof (rule collidedI [OF collision_preD(1,5) [OF pre]])
  note W = collision_preD(1) [OF pre] and b = collision_preD(3,4) [OF pre]
    and units = collision_preD(6) [OF pre] and bullets = collision_preD(7) [OF pre]
    and nxt = collision_preD(8) [OF pre]
  show "wf_heap fl (occ w') (w_units w') (w_uheap w') (w_bullets w') (w_bheap w') (slots w') (w_next w')"
    unfolding units bullets nxt bh uh oc sl
    by (rule wf_heap_kill_unit [OF wf_heap_upd_bullet [OF winv_heap [OF W] b(1)] o u]) (use b in auto)
qed (use bh oc collision_preD(2) [OF pre] in auto)

lemma collided_unit_hit:
  assumes pre: "collision_pre fl a b w w'" and o: "occ w p = Some (OCCUPIED_BY_UNIT c)" and u: "w_uheap w c = Some u"
    and le: "b_damage b \<le> u_health u"
    and bh: "w_bheap w' = (w_bheap w)(a \<mapsto> b\<lparr>b_damage := 0\<rparr>)"
    and uh: "w_uheap w' = (w_uheap w)(c \<mapsto> u\<lparr>u_health := h\<rparr>)"
    and oc: "occ w' = occ w" and sl: "slots w' = slots w"
  shows "collided fl a p b w'"
proof (rule collidedI [OF collision_preD(1,5) [OF pre]])
  note W = collision_preD(1) [OF pre] and b = collision_preD(3,4) [OF pre]
    and units = collision_preD(6) [OF pre] and bullets = collision_preD(7) [OF pre]
    and nxt = collision_preD(8) [OF pre]
  have h: "u_health u \<noteq> 0" using le b(2) by (auto simp: word_le_0_iff)
  show "wf_heap fl (occ w') (w_units w') (w_uheap w') (w_bullets w') (w_bheap w') (slots w') (w_next w')"
    unfolding units bullets nxt bh uh oc sl
    by (rule wf_heap_upd_unit [OF wf_heap_upd_bullet [OF winv_heap [OF W] b(1)] u]) (use h in auto)
qed (use bh oc collision_preD(2) [OF pre] in auto)

lemma collided_bullet_destroyed:
  assumes pre: "collision_pre fl a b w w'" and o: "occ w p = Some (OCCUPIED_BY_BULLET c)" and u: "w_bheap w c = Some oth" and ca: "c \<noteq> a"
    and bh: "w_bheap w' = (w_bheap w)(a \<mapsto> b\<lparr>b_damage := d\<rparr>, c \<mapsto> oth\<lparr>b_damage := 0\<rparr>)"
    and uh: "w_uheap w' = w_uheap w"
    and oc: "occ w' = (occ w)(p \<mapsto> NOT_OCCUPIED)" and sl: "slots w' = slots w"
  shows "collided fl a p b w'"
proof (rule collidedI [OF collision_preD(1,5) [OF pre]])
  note W = collision_preD(1) [OF pre] and b = collision_preD(3,4) [OF pre]
    and units = collision_preD(6) [OF pre] and bullets = collision_preD(7) [OF pre]
    and nxt = collision_preD(8) [OF pre]
  have 1: "wf_heap fl (occ w) (w_units w) (w_uheap w) (w_bullets w) (w_bheap w') (slots w) (w_next w)"
    unfolding bh
    by (rule wf_heap_upd_bullet [OF wf_heap_upd_bullet [OF winv_heap [OF W] b(1)], of _ c oth])
      (use u ca b(2) in auto)
  show "wf_heap fl (occ w') (w_units w') (w_uheap w') (w_bullets w') (w_bheap w') (slots w') (w_next w')"
    unfolding units bullets nxt uh oc sl
    by (rule wf_heap_free_bullet_tile [OF 1 o]) (simp add: bh)
qed (use bh oc collision_preD(2) [OF pre] ca in auto)

lemma collided_bullet_hit:
  assumes pre: "collision_pre fl a b w w'" and o: "occ w p = Some (OCCUPIED_BY_BULLET c)" and u: "w_bheap w c = Some oth" and ca: "c \<noteq> a"
    and le: "b_damage b \<le> b_damage oth"
    and bh: "w_bheap w' = (w_bheap w)(c \<mapsto> oth\<lparr>b_damage := b_damage oth - b_damage b\<rparr>,
               a \<mapsto> b\<lparr>b_damage := 0\<rparr>)"
    and uh: "w_uheap w' = w_uheap w"
    and oc: "occ w' = (if b_damage oth = b_damage b then (occ w)(p \<mapsto> NOT_OCCUPIED) else occ w)"
    and sl: "slots w' = slots w"
  shows "collided fl a p b w'"
proof (rule collidedI [OF collision_preD(1,5) [OF pre]])
  note W = collision_preD(1) [OF pre] and b = collision_preD(3,4) [OF pre]
    and units = collision_preD(6) [OF pre] and bullets = collision_preD(7) [OF pre]
    and nxt = collision_preD(8) [OF pre]
  have h: "b_damage oth \<noteq> 0" using le b(2) by (auto simp: word_le_0_iff)
  have 1: "wf_heap fl (occ w) (w_units w) (w_uheap w) (w_bullets w) (w_bheap w') (slots w) (w_next w)"
    unfolding bh
    by (rule wf_heap_upd_bullet [OF wf_heap_upd_bullet [OF winv_heap [OF W] u], of _ a b])
      (use ca b h in auto)
  show "wf_heap fl (occ w') (w_units w') (w_uheap w') (w_bullets w') (w_bheap w') (slots w') (w_next w')"
  proof (cases "b_damage oth = b_damage b")
    case True
    have "wf_heap fl ((occ w)(p \<mapsto> NOT_OCCUPIED)) (w_units w) (w_uheap w) (w_bullets w) (w_bheap w')
        (slots w) (w_next w)"
      by (rule wf_heap_free_bullet_tile [OF 1 o]) (use True ca in \<open>simp add: bh\<close>)
    then show ?thesis unfolding units bullets nxt uh oc sl using True by simp
  next
    case False
    then show ?thesis unfolding units bullets nxt uh oc sl using 1 by simp
  qed
qed (use bh oc collision_preD(2) [OF pre] in auto)

lemma collision_winv:
  assumes W: "winv_in_flight fl w"
    and ref: "\<And>q. occ w q \<noteq> Some (OCCUPIED_BY_BULLET a)"
    and b: "w_bheap w a = Some b" "b_damage b \<noteq> 0"
    and res: "handleBulletCollision a p w = Some w'"
  shows "collided fl a p b w'" "bullet_frame w w'" "w_bullets w' = w_bullets w" "w_next w' = w_next w"
proof -
  note C = collision_correct [OF winv_tilemap_wf [OF W] ref res]
  have fr: "static w' = static w" "w_units w' = w_units w" using C(2) by (simp_all add: bullet_frame_def)
  have I: "collision_pre fl a b w w'"
    unfolding collision_pre_def using W ref b fr C(3,4) by blast
  show "collided fl a p b w'"
    using C(1)
  proof cases
    case free
    then show ?thesis using W ref b by (auto simp: collided_def)
  next
    case (unit_destroyed c u bl)
    have "bl = b" using unit_destroyed(3) b by simp
    then show ?thesis using collided_unit_destroyed [OF I unit_destroyed(1,2)] unit_destroyed(5-8) by blast
  next
    case (unit_hit c u bl)
    have bl: "bl = b" using unit_hit(3) b by simp
    show ?thesis using collided_unit_hit [OF I unit_hit(1,2) _ _ _ unit_hit(7,8)] unit_hit(4-6)
      unfolding bl by blast
  next
    case (bullet_destroyed c oth bl)
    have bl: "bl = b" using bullet_destroyed(3) b by simp
    show ?thesis using collided_bullet_destroyed [OF I bullet_destroyed(1,2,4) _ bullet_destroyed(7-9)]
        bullet_destroyed(6) unfolding bl by blast
  next
    case (bullet_hit c oth bl)
    have bl: "bl = b" using bullet_hit(3) b by simp
    show ?thesis
      using collided_bullet_hit [OF I bullet_hit(1,2,4) _ _ bullet_hit(7) _ bullet_hit(9)]
        bullet_hit(5,6,8) unfolding bl by blast
  qed
  show "bullet_frame w w'" "w_bullets w' = w_bullets w" "w_next w' = w_next w" using C by auto
qed

lemma winv_upd_bullet:
  assumes W: "winv_in_flight fl w" and b: "w_bheap w a = Some b" and pos: "b_pos b' = b_pos b"
    and alive: "b_damage b' \<noteq> 0 \<Longrightarrow> b_damage b \<noteq> 0 \<or> fl = Some a"
  shows "winv_in_flight fl (w\<lparr>w_bheap := (w_bheap w)(a \<mapsto> b')\<rparr>)"
  by (rule winv_frame [OF W]) (use wf_heap_upd_bullet [OF winv_heap [OF W] b pos alive] in auto)

lemma winv_upd_unit:
  assumes W: "winv_in_flight fl w" and u: "w_uheap w a = Some u"
    and same: "u_pos u' = u_pos u" "u_id u' = u_id u" "u_player u' = u_player u"
    and alive: "u_health u' \<noteq> 0 \<Longrightarrow> u_health u \<noteq> 0"
  shows "winv_in_flight fl (w\<lparr>w_uheap := (w_uheap w)(a \<mapsto> u')\<rparr>)"
  by (rule winv_frame [OF W]) (use wf_heap_upd_unit [OF winv_heap [OF W] u same alive] in auto)

lemma bullet_frame_simps [simp]:
  "bullet_frame w (w\<lparr>w_bheap := bh\<rparr>)" "bullet_frame w (w\<lparr>w_bullets := bs\<rparr>)"
  "bullet_frame w (w\<lparr>w_next := n\<rparr>)" "bullet_frame w (w\<lparr>w_uheap := uh\<rparr>)"
  by (simp_all add: bullet_frame_def)

lemma set_occ_frame:
  assumes "set_occ p k w = Some w'" "tilemap_wf (w_map w)"
  shows "bullet_frame w w'" "w_bullets w' = w_bullets w" "w_bheap w' = w_bheap w"
    "w_uheap w' = w_uheap w" "slots w' = slots w" "w_next w' = w_next w" "w_units w' = w_units w"
proof -
  obtain m where "w' = w\<lparr>w_map := m\<rparr>" "static w' = static w"
    using set_occ_Some [OF assms] by metis
  then show "bullet_frame w w'" "w_bullets w' = w_bullets w" "w_bheap w' = w_bheap w"
    "w_uheap w' = w_uheap w" "slots w' = slots w" "w_next w' = w_next w" "w_units w' = w_units w"
    by (simp_all add: bullet_frame_def)
qed

lemma moveBulletOneStep_winv:
  assumes W: "winv w" and a: "a \<in> set (w_bullets w)" and b: "w_bheap w a = Some b" "b_damage b \<noteq> 0"
    and res: "moveBulletOneStep a w = Some w'"
  shows "winv w'" "bullet_frame w w'" "w_bullets w' = w_bullets w"
proof -
  let ?new = "step_pos (b_direction b) (b_pos b)"
  note H = winv_heap [OF W] and T = winv_tilemap_wf [OF W]
  have at: "occ w (b_pos b) = Some (OCCUPIED_BY_BULLET a)"
    using wf_heap_bullet' [OF H a b(1)] b(2) by simp
  have "winv w' \<and> bullet_frame w w' \<and> w_bullets w' = w_bullets w"
  proof (cases "\<not> isInBounds w ?new \<or> (\<exists>t. world_tile w ?new = Some t \<and> t_terrain t = OBSTACLE)")
    case True
    then have "w' = w\<lparr>w_bheap := (w_bheap w)(a \<mapsto> b\<lparr>b_damage := 0\<rparr>)\<rparr>"
      using res b by (auto simp: moveBulletOneStep_def Let_def bind_eq_Some_conv split: if_splits)
    then show ?thesis using winv_upd_bullet [OF W b(1), of "b\<lparr>b_damage := 0\<rparr>"] by simp
  next
    case False
    then obtain w1 w2 where w1: "set_occ (b_pos b) NOT_OCCUPIED w = Some w1"
      and w2: "handleBulletCollision a ?new w1 = Some w2"
      and rest: "(do { b \<leftarrow> w_bheap w2 a; if b_damage b = 0 then Some w2
           else do { w \<leftarrow> upd_bullet a (\<lambda>b. b\<lparr>b_x := fst ?new, b_y := snd ?new\<rparr>) w2;
                     set_occ ?new (OCCUPIED_BY_BULLET a) w } }) = Some w'"
      using res b by (auto simp: moveBulletOneStep_def Let_def bind_eq_Some_conv split: if_splits)
    obtain m where m: "w1 = w\<lparr>w_map := m\<rparr>" "occ w1 = (occ w)(b_pos b \<mapsto> NOT_OCCUPIED)" "static w1 = static w"
      using set_occ_Some [OF w1 T] by metis
    have "wf_heap (Some a) (occ w1) (w_units w1) (w_uheap w1) (w_bullets w1) (w_bheap w1) (slots w1) (w_next w1)"
      using wf_heap_free_bullet_tile [OF H at, of "Some a"] b(1) by (simp add: m(2), simp add: m(1))
    then have W1: "winv_in_flight (Some a) w1" using winv_frame [OF W m(3)] by blast
    have ref: "occ w1 q \<noteq> Some (OCCUPIED_BY_BULLET a)" for q
      using wf_heap_ref [OF winv_heap [OF W1], of q a] by auto
    have b1: "w_bheap w1 a = Some b" using b by (simp add: m(1))
    obtain b2 where W2: "winv_in_flight (Some a) w2" and b2: "w_bheap w2 a = Some b2"
      and free: "b_damage b2 \<noteq> 0 \<Longrightarrow> occ w2 ?new = Some NOT_OCCUPIED"
      and ref2: "\<And>q. occ w2 q \<noteq> Some (OCCUPIED_BY_BULLET a)"
      and fr2: "bullet_frame w1 w2" "w_bullets w2 = w_bullets w1" "w_next w2 = w_next w1"
      using collision_winv [OF W1 ref b1 b(2) w2] unfolding collided_def by blast
    note H2 = winv_heap [OF W2]
    have fr: "bullet_frame w w2" using bullet_frame_trans [OF set_occ_frame(1) [OF w1 T] fr2(1)] .
    have bs: "w_bullets w2 = w_bullets w" using fr2 by (simp add: m(1))
    show ?thesis
    proof (cases "b_damage b2 = 0")
      case True
      then have "w' = w2" using rest b2 by simp
      moreover have "winv w2"
      proof (rule winv_frame [OF W2 refl], rule wf_heapI)
        fix c assume c: "c \<in> set (w_bullets w2)"
        show "\<exists>bl. w_bheap w2 c = Some bl \<and> occ w2 (b_pos bl) \<noteq> None \<and> (b_damage bl \<noteq> 0 \<longrightarrow>
            None \<noteq> Some c \<longrightarrow> occ w2 (b_pos bl) = Some (OCCUPIED_BY_BULLET c))"
          using wf_heap_bullet [OF H2 c] True b2 by (cases "c = a") auto
      next
        fix q c assume "occ w2 q = Some (OCCUPIED_BY_BULLET c)"
        from wf_heap_ref [OF H2 this] show "c < w_next w2 \<and> None \<noteq> Some c
            \<and> (\<forall>bl. w_bheap w2 c = Some bl \<longrightarrow> b_pos bl = q)" by auto
      qed (use wf_heapD [OF H2] in blast)+
      ultimately show ?thesis using fr bs by simp
    next
      case False
      let ?b3 = "b2\<lparr>b_x := fst ?new, b_y := snd ?new\<rparr>"
      let ?w3 = "w2\<lparr>w_bheap := (w_bheap w2)(a \<mapsto> ?b3)\<rparr>"
      have w3: "set_occ ?new (OCCUPIED_BY_BULLET a) ?w3 = Some w'"
        using rest b2 False by (auto simp: upd_bullet_def bind_eq_Some_conv)
      have T3: "tilemap_wf (w_map ?w3)" using winv_tilemap_wf [OF W2] by simp
      obtain m' where m': "w' = ?w3\<lparr>w_map := m'\<rparr>" "occ w' = (occ w2)(?new \<mapsto> OCCUPIED_BY_BULLET a)"
        "static w' = static w2"
        using set_occ_Some [OF w3 T3] by auto
      have lt: "a < w_next w2" using wf_heap_fresh(2) [OF H2, of a] b2 by (cases "a < w_next w2") auto
      have "wf_heap None (occ w') (w_units w') (w_uheap w') (w_bullets w') (w_bheap w') (slots w') (w_next w')"
        using wf_heap_place_bullet [OF H2 free [OF False] _ lt, of ?b3 "w_bullets w2"] ref2 a bs
        by (simp add: m'(2), simp add: m'(1))
      then have "winv w'" using winv_frame [OF W2 m'(3)] by blast
      moreover have "bullet_frame w w'"
        using fr m'(3) by (simp add: bullet_frame_def m'(1))
      ultimately show ?thesis using bs by (simp add: m'(1))
    qed
  qed
  then show "winv w'" "bullet_frame w w'" "w_bullets w' = w_bullets w" by auto
qed

lemma stepBullet_winv:
  assumes "winv w" "a \<in> set (w_bullets w)" "stepBullet a w = Some w'"
  shows "winv w' \<and> bullet_frame w w' \<and> w_bullets w' = w_bullets w"
proof -
  obtain b where b: "w_bheap w a = Some b" using assms(3) by (auto simp: stepBullet_def bind_eq_Some_conv)
  show ?thesis
    using moveBulletOneStep_winv [OF assms(1,2) b] assms(1,3) b
    by (cases "b_damage b = 0") (auto simp: stepBullet_def)
qed

lemma commitPendingAttack_winv:
  assumes W: "winv w" and res: "commitPendingAttack c w = Some w'"
  shows "winv w' \<and> bullet_frame w w'"
proof -
  obtain u where u: "w_uheap w c = Some u" using res by (auto simp: commitPendingAttack_def bind_eq_Some_conv)
  let ?target = "step_pos (pa_direction (u_pending_attack u)) (u_pos u)"
  let ?b = "\<lparr>b_x = fst ?target, b_y = snd ?target, b_direction = pa_direction (u_pending_attack u),
      b_player = u_player u, b_damage = pa_damage (u_pending_attack u)\<rparr>"
  let ?a = "w_next w"
  let ?w1 = "w\<lparr>w_next := ?a + 1, w_bheap := (w_bheap w)(?a \<mapsto> ?b)\<rparr>"
  note H = winv_heap [OF W]
  show ?thesis
  proof (cases "w' = w")
    case True
    then show ?thesis using W by simp
  next
    case False
    then have dmg: "pa_damage (u_pending_attack u) \<noteq> 0" using res u
      by (auto simp: commitPendingAttack_def)
    obtain w2 where w2: "handleBulletCollision ?a ?target ?w1 = Some w2"
      and rest: "(do { b \<leftarrow> w_bheap w2 ?a;
         if b_damage b = 0 then Some (w2\<lparr>w_bheap := (w_bheap w2)(?a := None)\<rparr>)
         else do {
           w \<leftarrow> set_occ ?target (OCCUPIED_BY_BULLET ?a) w2;
           let w = w\<lparr>w_bullets := w_bullets w @ [?a]\<rparr>;
           upd_unit c (\<lambda>u. u\<lparr>u_cooldown := gr_attack_cooldown (w_rules w),
             u_pending_attack := (u_pending_attack u)\<lparr>pa_damage := 0\<rparr>\<rparr>) w
         } }) = Some w'"
      using res u False
      by (auto simp: commitPendingAttack_def Let_def bind_eq_Some_conv split: if_splits)
    have W1: "winv ?w1"
      by (rule winv_frame [OF W]) (use wf_heap_alloc_bullet [OF H, of ?b] in simp_all)
    have ref: "occ ?w1 q \<noteq> Some (OCCUPIED_BY_BULLET ?a)" for q
      using wf_heap_ref [OF H, of q ?a] by auto
    have b1: "w_bheap ?w1 ?a = Some ?b" "b_damage ?b \<noteq> 0" using dmg by simp_all
    note C = collision_winv [OF W1 ref b1 w2]
    obtain b2 where W2: "winv w2" and b2: "w_bheap w2 ?a = Some b2" "b_pos b2 = b_pos ?b"
      and free: "b_damage b2 \<noteq> 0 \<Longrightarrow> occ w2 ?target = Some NOT_OCCUPIED"
      and ref2: "\<And>q. occ w2 q \<noteq> Some (OCCUPIED_BY_BULLET ?a)"
      using C(1) unfolding collided_def by blast
    note H2 = winv_heap [OF W2]
    have fr: "bullet_frame w w2" using C(2) by (simp add: bullet_frame_def)
    have new: "?a \<notin> set (w_bullets w2)"
      using wf_heap_bullet [OF H, of ?a] wf_heap_fresh(2) [OF H, of ?a] C(3) by auto
    show ?thesis
    proof (cases "b_damage b2 = 0")
      case True
      then have w': "w' = w2\<lparr>w_bheap := (w_bheap w2)(?a := None)\<rparr>" using rest b2 by simp
      have "wf_heap None (occ w2) (w_units w2) (w_uheap w2) (w_bullets w2) ((w_bheap w2)(?a := None))
          (slots w2) (w_next w2)"
        by (rule wf_heap_release_bullets [OF H2]) (use new wf_heap_distinct(2) [OF H2] in auto)
      then have "winv w'" unfolding w' by (intro winv_frame [OF W2]) simp_all
      then show ?thesis using fr by (simp add: w' bullet_frame_def)
    next
      case False
      obtain w3 where w3: "set_occ ?target (OCCUPIED_BY_BULLET ?a) w2 = Some w3"
        using rest b2 False by (auto simp: bind_eq_Some_conv)
      obtain m where m: "w3 = w2\<lparr>w_map := m\<rparr>" "occ w3 = (occ w2)(?target \<mapsto> OCCUPIED_BY_BULLET ?a)"
        "static w3 = static w2"
        using set_occ_Some [OF w3 winv_tilemap_wf [OF W2]] by metis
      let ?w4 = "w3\<lparr>w_bullets := w_bullets w3 @ [?a]\<rparr>"
      have lt: "?a < w_next w2" using C(4) by simp
      have pos: "b_pos b2 = ?target" using b2(2) by simp
      have "wf_heap None (occ ?w4) (w_units ?w4) (w_uheap ?w4) (w_bullets ?w4) (w_bheap ?w4)
          (slots ?w4) (w_next ?w4)"
        using wf_heap_place_bullet [OF H2 free [OF False] _ lt pos ref2, of "w_bullets w2 @ [?a]"] new
        by (simp add: m(2), simp add: m(1) fun_upd_idem b2(1))
      moreover have st4: "static ?w4 = static w2" by (simp add: m(3))
      ultimately have W4: "winv ?w4" using winv_frame [OF W2] by blast
      obtain v where v: "w_uheap ?w4 c = Some v" and w': "w' = ?w4\<lparr>w_uheap := (w_uheap ?w4)(c \<mapsto>
          v\<lparr>u_cooldown := gr_attack_cooldown (w_rules ?w4),
            u_pending_attack := (u_pending_attack v)\<lparr>pa_damage := 0\<rparr>\<rparr>)\<rparr>"
        using rest b2(1) False w3 by (auto simp: Let_def)
      have "winv w'" unfolding w'
        by (rule winv_upd_unit [OF W4 v]) simp_all
      moreover have "bullet_frame w w'"
        using fr m(3) by (simp add: bullet_frame_def w' m(1))
      ultimately show ?thesis by simp
    qed
  qed
qed

lemma bullet_substep_winv:
  assumes W: "winv w" and res: "bullet_substep i w = Some w'"
  shows "winv w' \<and> bullet_frame w w'"
proof -
  obtain w1 where w1: "foldM stepBullet (w_bullets w) w = Some w1"
    and rest: "(if i = 0 then commitPendingAttacks w1 else Some w1) = Some w'"
    using res by (auto simp: bullet_substep_def bind_eq_Some_conv)
  have 1: "winv w1 \<and> bullet_frame w w1 \<and> w_bullets w1 = w_bullets w"
    by (rule foldM_invariant [OF w1])
      (use W in simp, metis stepBullet_winv bullet_frame_trans)
  show ?thesis
  proof (cases "i = 0")
    case True
    then have "foldM commitPendingAttack (w_units w1) w1 = Some w'"
      using rest by (simp add: commitPendingAttacks_def)
    then have "winv w' \<and> bullet_frame w1 w'"
      by (rule foldM_invariant) (use 1 in simp, metis commitPendingAttack_winv bullet_frame_trans)
    then show ?thesis using 1 bullet_frame_trans by blast
  qed (use 1 rest in auto)
qed

lemma erase_bullets_winv:
  assumes W: "winv w" and res: "erase_bullets w = Some w'"
  shows "winv w' \<and> bullet_frame w w'
    \<and> (\<forall>b\<in>set (w_bullets w'). \<exists>bl. w_bheap w' b = Some bl \<and> b_damage bl \<noteq> 0)"
proof -
  let ?bs = "filter (\<lambda>b. \<not> bullet_destroyed w b) (w_bullets w)"
  let ?bh = "\<lambda>b. if b \<in> set (w_bullets w) \<and> bullet_destroyed w b then None else w_bheap w b"
  have w': "w' = w\<lparr>w_bullets := ?bs, w_bheap := ?bh\<rparr>"
    using res by (simp add: erase_bullets_def split: if_splits)
  note H = winv_heap [OF W]
  have "winv w'" unfolding w'
    by (rule winv_frame [OF W])
      (use wf_heap_release_bullets [OF H, of ?bs ?bh] wf_heap_distinct(2) [OF H] in auto)
  moreover have "\<exists>bl. w_bheap w' b = Some bl \<and> b_damage bl \<noteq> 0" if "b \<in> set (w_bullets w')" for b
    using that wf_heap_bullet [OF H, of b] by (auto simp: w' bullet_destroyed_def)
  ultimately show ?thesis by (simp add: w' bullet_frame_def)
qed

lemma processBulletMovement_winv:
  assumes W: "winv w" and res: "processBulletMovement w = Some w'"
  shows "winv w' \<and> bullet_frame w w'
    \<and> (\<forall>b\<in>set (w_bullets w'). \<exists>bl. w_bheap w' b = Some bl \<and> b_damage bl \<noteq> 0)"
proof -
  obtain w1 where w1: "foldM bullet_substep [0..<5] w = Some w1" and e: "erase_bullets w1 = Some w'"
    using res by (auto simp: processBulletMovement_def forM_def bind_eq_Some_conv)
  have "winv w1 \<and> bullet_frame w w1"
    using w1 by (rule foldM_invariant) (use W in simp, metis bullet_substep_winv bullet_frame_trans)
  then show ?thesis using erase_bullets_winv [OF _ e] bullet_frame_trans by blast
qed

end
