(* ===== verification/World_Movement.thy ===== *)
theory World_Movement
  imports World_Bullets
begin

text \<open>
  The movement phase (\<open>_processUnitMovement\<close> in \<open>src/world.cpp\<close>): the destroyed units are
  removed, the intended moves are planned, conflicting and blocked moves are cancelled, and the
  rest are carried out. The vectors \<open>tgt_x\<close> and \<open>tgt_y\<close> are one list of positions.
\<close>

subsection \<open>Removing destroyed units\<close>

definition cleanup_unit :: "addr \<Rightarrow> world \<Rightarrow> world option" where
  "cleanup_unit a w = do {
     u \<leftarrow> w_uheap w a;
     if u_health u \<noteq> 0 then Some w
     else do {
       let w = set_event (\<lambda>e. e\<lparr>ev_unit_destroyed := True\<rparr>) w;
       let w = appendLog (unitDestructionLog (w_tick w) (side_id (u_player u)) (u_id u)) w;
       w \<leftarrow> set_slot (u_player u) (u_id u) None w;
       t \<leftarrow> world_tile w (u_pos u);
       if t_occupant t = OCCUPIED_BY_UNIT a then set_occ (u_pos u) NOT_OCCUPIED w else Some w
     }
   }"

definition unit_destroyed :: "world \<Rightarrow> addr \<Rightarrow> bool" where
  "unit_destroyed w a = (case w_uheap w a of None \<Rightarrow> False | Some u \<Rightarrow> u_health u = 0)"

definition erase_units :: "world \<Rightarrow> world option" where
  "erase_units w = do {
     fail_fast_assert (list_all (\<lambda>a. w_uheap w a \<noteq> None) (w_units w));
     Some (w\<lparr>w_units := filter (\<lambda>a. \<not> unit_destroyed w a) (w_units w),
             w_uheap := (\<lambda>a. if a \<in> set (w_units w) \<and> unit_destroyed w a then None
                             else w_uheap w a)\<rparr>)
   }"

definition cleanup_units :: "world \<Rightarrow> world option" where
  "cleanup_units w = foldM cleanup_unit (w_units w) w \<bind> erase_units"

subsection \<open>Planning\<close>

text \<open>Steps 1 and 2: the target of one unit, and whether its move is still possible.\<close>

definition plan_move :: "world \<Rightarrow> addr \<Rightarrow> ((pos_t \<times> pos_t) \<times> bool) option" where
  "plan_move w a = do {
     u \<leftarrow> w_uheap w a;
     (case u_pending_move u of
        None \<Rightarrow> Some (u_pos u, False)
      | Some d \<Rightarrow>
          let n = step_pos d (u_pos u) in
          if \<not> isInBounds w n then Some (u_pos u, False)
          else do {
            t \<leftarrow> world_tile w n;
            if t_terrain t = OBSTACLE \<or> t_terrain t = WATER then Some (u_pos u, False)
            else (case t_occupant t of
                NOT_OCCUPIED \<Rightarrow> Some (n, True)
              | OCCUPIED_BY_BULLET b \<Rightarrow> Some (u_pos u, False)
              | OCCUPIED_BY_UNIT c \<Rightarrow> do {
                  oc \<leftarrow> w_uheap w c;
                  (case u_pending_move oc of
                     None \<Rightarrow> Some (u_pos u, False)
                   | Some od \<Rightarrow> if step_pos od (u_pos oc) = u_pos u then Some (u_pos u, False)
                                else Some (n, True))
                })
          })
   }"

text \<open>Step 3: the linear scan for the occupant, and the dependency lists.\<close>

fun index_of :: "addr \<Rightarrow> addr list \<Rightarrow> nat option" where
  "index_of a [] = None"
| "index_of a (x # xs) = (if x = a then Some 0 else map_option Suc (index_of a xs))"

definition add_dependency ::
    "world \<Rightarrow> (pos_t \<times> pos_t) list \<Rightarrow> bool list \<Rightarrow> nat \<Rightarrow> nat list list \<Rightarrow> nat list list option" where
  "add_dependency w tgt active i blocked_by =
     (if \<not> active ! i then Some blocked_by
      else do {
        t \<leftarrow> world_tile w (tgt ! i);
        (case t_occupant t of
           OCCUPIED_BY_UNIT c \<Rightarrow> do {
             j \<leftarrow> index_of c (w_units w);
             Some (blocked_by[j := blocked_by ! j @ [i]])
           }
         | _ \<Rightarrow> Some blocked_by)
      })"

text \<open>Step 4: the tiles that more than one remaining move targets.\<close>

definition count_target ::
    "(pos_t \<times> pos_t) list \<Rightarrow> bool list \<Rightarrow> nat \<Rightarrow> (pos_t \<times> pos_t) set \<times> (pos_t \<times> pos_t) set
       \<Rightarrow> (pos_t \<times> pos_t) set \<times> (pos_t \<times> pos_t) set" where
  "count_target tgt active i = (\<lambda>(targeted, cancelled).
     if \<not> active ! i then (targeted, cancelled)
     else if tgt ! i \<in> targeted then (targeted, insert (tgt ! i) cancelled)
     else (insert (tgt ! i) targeted, cancelled))"

definition cancel_conflicts :: "(pos_t \<times> pos_t) list \<Rightarrow> bool list \<Rightarrow> bool list" where
  "cancel_conflicts tgt active =
     (let (targeted, cancelled) = fold (count_target tgt active) [0..<length active] ({}, {})
      in map (\<lambda>i. active ! i \<and> tgt ! i \<notin> cancelled) [0..<length active])"

text \<open>Step 5: the queue of cancelled units.\<close>

definition cancel_dependant :: "nat \<Rightarrow> nat list \<times> bool list \<Rightarrow> (nat list \<times> bool list) option" where
  "cancel_dependant dep = (\<lambda>(queue, active). do {
     fail_fast_assert (dep < length active);
     Some (if active ! dep then (queue @ [dep], active[dep := False]) else (queue, active))
   })"

definition queue_measure :: "nat list \<times> bool list \<Rightarrow> nat" where
  "queue_measure = (\<lambda>(queue, active). length queue + 2 * length (filter id active))"

lemma cancel_decreases:
  "i < length v \<Longrightarrow> v ! i \<Longrightarrow> Suc (length (filter id (v[i := False]))) = length (filter id v)"
proof -
  assume i: "i < length v" "v ! i"
  have v: "v = take i v @ v ! i # drop (Suc i) v" using i(1) by (rule id_take_nth_drop)
  have "v[i := False] = take i v @ False # drop (Suc i) v" using i(1) by (rule upd_conv_take_nth_drop)
  then have "length (filter id (v[i := False]))
    = length (filter id (take i v)) + length (filter id (drop (Suc i) v))" by simp
  moreover have "length (filter id v)
    = length (filter id (take i v)) + Suc (length (filter id (drop (Suc i) v)))"
    using i(2) by (subst v) simp
  ultimately show ?thesis by linarith
qed

lemma cancel_dependants_measure:
  "foldM cancel_dependant deps s = Some t \<Longrightarrow> queue_measure t \<le> queue_measure s"
proof (induction deps arbitrary: s)
  case (Cons d deps)
  then obtain u where u: "cancel_dependant d s = Some u" "foldM cancel_dependant deps u = Some t"
    by (auto simp: bind_eq_Some_conv)
  have "queue_measure u \<le> queue_measure s"
    using u(1) cancel_decreases [of d "snd s"]
    by (cases s) (auto simp: cancel_dependant_def queue_measure_def split: if_splits)
  then show ?case using Cons.IH [OF u(2)] by simp
qed simp

function cancel_loop :: "nat list list \<Rightarrow> nat list \<Rightarrow> bool list \<Rightarrow> bool list option" where
  "cancel_loop blocked_by [] active = Some active"
| "cancel_loop blocked_by (cur # queue) active =
     (if \<not> cur < length blocked_by then None
      else (case foldM cancel_dependant (blocked_by ! cur) (queue, active) of
              None \<Rightarrow> None
            | Some (queue, active) \<Rightarrow> cancel_loop blocked_by queue active))"
  by pat_completeness auto
termination
  by (relation "measure (\<lambda>(b, q, a). queue_measure (q, a))")
    (auto dest!: cancel_dependants_measure simp: queue_measure_def)

subsection \<open>Execution\<close>

definition reset_pending :: "addr \<Rightarrow> world \<Rightarrow> world option" where
  "reset_pending a w = upd_unit a (\<lambda>u. u\<lparr>u_pending_move := None\<rparr>) w"

definition leave_tile :: "addr list \<Rightarrow> bool list \<Rightarrow> nat \<Rightarrow> world \<Rightarrow> world option" where
  "leave_tile us active i w =
     (if \<not> active ! i then Some w
      else do { u \<leftarrow> w_uheap w (us ! i); set_occ (u_pos u) NOT_OCCUPIED w })"

definition enter_tile ::
    "addr list \<Rightarrow> (pos_t \<times> pos_t) list \<Rightarrow> bool list \<Rightarrow> nat \<Rightarrow> world \<Rightarrow> world option" where
  "enter_tile us tgt active i w =
     (if \<not> active ! i then Some w
      else do {
        u \<leftarrow> w_uheap w (us ! i);
        let w = (if isInBase w (u_pos u) (u_player u) \<and> \<not> isInBase w (tgt ! i) (u_player u)
                 then set_event (\<lambda>e. e\<lparr>ev_unit_left_base := True\<rparr>) w else w);
        old_tile \<leftarrow> world_tile w (u_pos u);
        new_tile \<leftarrow> world_tile w (tgt ! i);
        let w = (if \<not> t_is_resource old_tile \<and> t_is_resource new_tile
                 then set_event (\<lambda>e. e\<lparr>ev_unit_entered_resource_zone := True\<rparr>) w else w);
        w \<leftarrow> upd_unit (us ! i) (\<lambda>u. u\<lparr>u_x := fst (tgt ! i), u_y := snd (tgt ! i)\<rparr>) w;
        set_occ (tgt ! i) (OCCUPIED_BY_UNIT (us ! i)) w
      })"

definition resolve_moves :: "world \<Rightarrow> (bool list \<times> (pos_t \<times> pos_t) list) option" where
  "resolve_moves w = do {
     let n = length (w_units w);
     plan \<leftarrow> traverse (plan_move w) (w_units w);
     let tgt = map fst plan;
     let active = map snd plan;
     blocked_by \<leftarrow> foldM (add_dependency w tgt active) [0..<n] (replicate n []);
     let active = cancel_conflicts tgt active;
     active \<leftarrow> cancel_loop blocked_by (filter (\<lambda>i. \<not> active ! i) [0..<n]) active;
     Some (active, tgt)
   }"

definition execute_moves :: "bool list \<Rightarrow> (pos_t \<times> pos_t) list \<Rightarrow> world \<Rightarrow> world option" where
  "execute_moves active tgt w = do {
     let n = length (w_units w);
     w \<leftarrow> foldM reset_pending (w_units w) w;
     w \<leftarrow> foldM (leave_tile (w_units w) active) [0..<n] w;
     foldM (enter_tile (w_units w) tgt active) [0..<n] w
   }"

definition processUnitMovement :: "world \<Rightarrow> world option" where
  "processUnitMovement w = do {
     w \<leftarrow> cleanup_units w;
     (active, tgt) \<leftarrow> resolve_moves w;
     execute_moves active tgt w
   }"

subsection \<open>The cancellation queue computes the dependants of cancelled moves\<close>

inductive killed :: "nat list list \<Rightarrow> bool list \<Rightarrow> nat \<Rightarrow> bool" for blocked_by active where
  start: "i < length active \<Longrightarrow> \<not> active ! i \<Longrightarrow> killed blocked_by active i"
| dependant: "killed blocked_by active j \<Longrightarrow> j < length blocked_by \<Longrightarrow> i \<in> set (blocked_by ! j)
    \<Longrightarrow> i < length active \<Longrightarrow> killed blocked_by active i"

definition cancel_inv ::
    "nat list list \<Rightarrow> bool list \<Rightarrow> nat set \<Rightarrow> nat list \<Rightarrow> bool list \<Rightarrow> bool" where
  "cancel_inv blocked_by active0 pending queue active \<longleftrightarrow>
     length active = length active0
     \<and> (\<forall>i<length active. active ! i \<longrightarrow> active0 ! i)
     \<and> (\<forall>i<length active. \<not> active ! i \<longrightarrow> killed blocked_by active0 i)
     \<and> (\<forall>i\<in>set queue. i < length active \<and> \<not> active ! i)
     \<and> (\<forall>j<length active. \<not> active ! j \<longrightarrow> j \<notin> set queue \<longrightarrow>
          (\<forall>i\<in>set (blocked_by ! j). active ! i \<longrightarrow> i \<in> pending))"

lemma cancel_invD:
  assumes "cancel_inv blocked_by active0 pending queue active"
  shows "length active = length active0"
    "i < length active \<Longrightarrow> active ! i \<Longrightarrow> active0 ! i"
    "i < length active \<Longrightarrow> \<not> active ! i \<Longrightarrow> killed blocked_by active0 i"
    "i \<in> set queue \<Longrightarrow> i < length active" "i \<in> set queue \<Longrightarrow> \<not> active ! i"
    "j < length active \<Longrightarrow> \<not> active ! j \<Longrightarrow> j \<notin> set queue \<Longrightarrow> i \<in> set (blocked_by ! j)
      \<Longrightarrow> active ! i \<Longrightarrow> i \<in> pending"
  using assms unfolding cancel_inv_def by blast+

lemma cancel_inv_dependant:
  assumes I: "cancel_inv blocked_by active0 (insert d pending) queue active"
    and d: "d < length active" "killed blocked_by active0 d" "active ! d"
  shows "cancel_inv blocked_by active0 pending (queue @ [d]) (active[d := False])"
proof -
  note D = cancel_invD [OF I]
  have at: "active[d := False] ! i \<longleftrightarrow> i \<noteq> d \<and> active ! i" if "i < length active" for i
    using that d(1) by (simp add: nth_list_update)
  have out: "active[d := False] ! i = active ! i" if "\<not> i < length active" for i
    using that d(1) by (metis list_update_beyond not_less nth_list_update_neq)
  have "i \<in> pending" if j: "j < length active" "\<not> active[d := False] ! j" "j \<notin> set (queue @ [d])"
    and i: "i \<in> set (blocked_by ! j)" "active[d := False] ! i" for j i
  proof -
    have "\<not> active ! j" using j at by auto
    moreover have "active ! i \<and> i \<noteq> d" using i(2) at out d(1) by (cases "i < length active") auto
    ultimately show ?thesis using D(6) [OF j(1) _ _ i(1)] j(3) by auto
  qed
  then show ?thesis
    unfolding cancel_inv_def using D(1-5) at d by auto
qed

lemma cancel_dependants_inv:
  assumes "cancel_inv blocked_by active0 (set deps) queue active"
    and "\<forall>i\<in>set deps. i < length active \<and> killed blocked_by active0 i"
  shows "\<exists>queue' active'. foldM cancel_dependant deps (queue, active) = Some (queue', active')
    \<and> cancel_inv blocked_by active0 {} queue' active'"
  using assms
proof (induction deps arbitrary: queue active)
  case Nil
  then show ?case by auto
next
  case (Cons d deps)
  have d: "d < length active" "killed blocked_by active0 d" using Cons.prems(2) by auto
  have I: "cancel_inv blocked_by active0 (insert d (set deps)) queue active" using Cons.prems(1) by simp
  show ?case
  proof (cases "active ! d")
    case True
    then show ?thesis
      using Cons.IH [OF cancel_inv_dependant [OF I d True]] Cons.prems(2) d by (simp add: cancel_dependant_def)
  next
    case False
    have "cancel_inv blocked_by active0 (set deps) queue active"
      unfolding cancel_inv_def using cancel_invD [OF I] False by blast
    then show ?thesis using Cons.IH Cons.prems(2) d False by (simp add: cancel_dependant_def)
  qed
qed

lemma cancel_loop_inv:
  assumes "cancel_inv blocked_by active0 {} queue active"
    and "length blocked_by = length active0"
    and "\<forall>j<length blocked_by. \<forall>i\<in>set (blocked_by ! j). i < length active0"
  shows "\<exists>active'. cancel_loop blocked_by queue active = Some active'
    \<and> cancel_inv blocked_by active0 {} [] active'"
  using assms
proof (induction blocked_by queue active rule: cancel_loop.induct)
  case (1 blocked_by active)
  then show ?case by simp
next
  case (2 blocked_by cur queue active)
  note D = cancel_invD [OF 2(2)]
  have cur: "cur < length active" "\<not> active ! cur" and len: "length active = length active0"
    using D(1,4,5) by auto
  have "killed blocked_by active0 cur" using D(3) [OF cur] .
  then have deps: "\<forall>i\<in>set (blocked_by ! cur). i < length active \<and> killed blocked_by active0 i"
    using killed.dependant [of blocked_by active0 cur] 2(3,4) cur len by metis
  have "cancel_inv blocked_by active0 (set (blocked_by ! cur)) queue active"
  proof -
    have "i \<in> set (blocked_by ! cur)"
      if "j < length active" "\<not> active ! j" "j \<notin> set queue" "i \<in> set (blocked_by ! j)" "active ! i"
      for j i
      using D(6) [of j i] that by (cases "j = cur") auto
    moreover have "i < length active" "\<not> active ! i" if "i \<in> set queue" for i
      using D(4,5) [of i] that by auto
    ultimately show ?thesis unfolding cancel_inv_def using D(1-3) by blast
  qed
  from cancel_dependants_inv [OF this deps] obtain q a where
    qa: "foldM cancel_dependant (blocked_by ! cur) (queue, active) = Some (q, a)"
    "cancel_inv blocked_by active0 {} q a" by blast
  have lt: "cur < length blocked_by" using 2(3) cur(1) len by simp
  have "\<exists>active'. cancel_loop blocked_by q a = Some active' \<and> cancel_inv blocked_by active0 {} [] active'"
    using 2(1) [OF _ qa(1) refl qa(2) 2(3,4)] lt by blast
  moreover have "cancel_loop blocked_by (cur # queue) active = cancel_loop blocked_by q a"
    using lt qa(1) by simp
  ultimately show ?case by simp
qed

lemma cancel_inv_final:
  assumes I: "cancel_inv blocked_by active0 {} [] active" and len: "length blocked_by = length active0"
    and i: "i < length active0"
  shows "active ! i \<longleftrightarrow> \<not> killed blocked_by active0 i"
proof
  note D = cancel_invD [OF I]
  assume act: "active ! i"
  have "\<not> active ! k" if "killed blocked_by active0 k" for k
    using that
  proof induction
    case (start k)
    then show ?case using D(1,2) by auto
  next
    case (dependant j k)
    then show ?case using D(6) [of j k] D(1) len by auto
  qed
  then show "\<not> killed blocked_by active0 i" using act by blast
next
  assume "\<not> killed blocked_by active0 i"
  then show "active ! i" using cancel_invD(1,3) [OF I] i by auto
qed

lemma cancel_loop_correct:
  assumes len: "length blocked_by = length active0"
    and deps: "\<forall>j<length blocked_by. \<forall>i\<in>set (blocked_by ! j). i < length active0"
  shows "\<exists>active.
    cancel_loop blocked_by (filter (\<lambda>i. \<not> active0 ! i) [0..<length active0]) active0 = Some active
    \<and> length active = length active0
    \<and> (\<forall>i<length active0. active ! i \<longleftrightarrow> \<not> killed blocked_by active0 i)"
proof -
  let ?queue = "filter (\<lambda>i. \<not> active0 ! i) [0..<length active0]"
  have "cancel_inv blocked_by active0 {} ?queue active0"
    unfolding cancel_inv_def by (simp add: killed.start)
  from cancel_loop_inv [OF this len deps] obtain active where
    a: "cancel_loop blocked_by ?queue active0 = Some active" "cancel_inv blocked_by active0 {} [] active"
    by blast
  show ?thesis
    using a(1) cancel_invD(1) [OF a(2)] cancel_inv_final [OF a(2) len] by blast
qed

end
