(* ===== verification/World_Movement_Rules.thy ===== *)
theory World_Movement_Rules
  imports World_Movement
begin

text \<open>
  The movement phase against the section "Unit Movement Resolution" of \<open>docs/rule-spec.md\<close>. The
  document's "a move is cancelled if ..." is the least relation closed under its clauses
  (\<open>rule_cancelled\<close>); the lemmas show that the planning, counting and queue of the code leave
  exactly the moves that are intended and not cancelled.
\<close>

declare split_paired_All [simp del] split_paired_Ex [simp del]

subsection \<open>The rule specification\<close>

definition intends :: "world \<Rightarrow> addr \<Rightarrow> pos_t \<times> pos_t \<Rightarrow> bool" where
  "intends w a p \<longleftrightarrow> a \<in> set (w_units w)
     \<and> (\<exists>u d. w_uheap w a = Some u \<and> u_pending_move u = Some d \<and> p = step_pos d (u_pos u))"

definition stands_on :: "world \<Rightarrow> addr \<Rightarrow> pos_t \<times> pos_t \<Rightarrow> bool" where
  "stands_on w a p \<longleftrightarrow> (\<exists>u. w_uheap w a = Some u \<and> u_pos u = p)"

definition passable :: "world \<Rightarrow> pos_t \<times> pos_t \<Rightarrow> bool" where
  "passable w p \<longleftrightarrow>
     (\<exists>t. world_tile w p = Some t \<and> t_terrain t \<noteq> OBSTACLE \<and> t_terrain t \<noteq> WATER)"

inductive rule_cancelled :: "world \<Rightarrow> addr \<Rightarrow> bool" for w where
  impassable: "intends w a p \<Longrightarrow> \<not> passable w p \<Longrightarrow> rule_cancelled w a"
| bullet: "intends w a p \<Longrightarrow> occ w p = Some (OCCUPIED_BY_BULLET b) \<Longrightarrow> rule_cancelled w a"
| conflict: "intends w a p \<Longrightarrow> intends w c p \<Longrightarrow> c \<noteq> a \<Longrightarrow> rule_cancelled w a"
| idle: "intends w a p \<Longrightarrow> occ w p = Some (OCCUPIED_BY_UNIT c) \<Longrightarrow> \<not> (\<exists>q. intends w c q)
    \<Longrightarrow> rule_cancelled w a"
| against: "intends w a p \<Longrightarrow> occ w p = Some (OCCUPIED_BY_UNIT c) \<Longrightarrow> intends w c q
    \<Longrightarrow> stands_on w a q \<Longrightarrow> rule_cancelled w a"
| chain: "intends w a p \<Longrightarrow> occ w p = Some (OCCUPIED_BY_UNIT c) \<Longrightarrow> rule_cancelled w c
    \<Longrightarrow> rule_cancelled w a"

text \<open>Between turns every unit in the vector is alive.\<close>

definition settled :: "world \<Rightarrow> bool" where
  "settled w \<longleftrightarrow> (\<forall>a\<in>set (w_units w). \<forall>u. w_uheap w a = Some u \<longrightarrow> u_health u \<noteq> 0)"

lemma intends_fun: "intends w a p \<Longrightarrow> intends w a q \<Longrightarrow> p = q"
  by (auto simp: intends_def)

lemma settled_unit:
  assumes "winv w" "settled w" "a \<in> set (w_units w)"
  obtains u where "w_uheap w a = Some u" "occ w (u_pos u) = Some (OCCUPIED_BY_UNIT a)"
    "u_health u \<noteq> 0" "stands_on w a (u_pos u)"
  using wf_heap_unit [OF winv_heap [OF assms(1)] assms(3)] assms(2,3)
  by (auto simp: settled_def stands_on_def)

subsection \<open>Planning\<close>

definition plan_ok :: "world \<Rightarrow> addr \<Rightarrow> pos_t \<times> pos_t \<Rightarrow> bool" where
  "plan_ok w a p \<longleftrightarrow> intends w a p \<and> passable w p
     \<and> (\<forall>b. occ w p \<noteq> Some (OCCUPIED_BY_BULLET b))
     \<and> (\<forall>c. occ w p = Some (OCCUPIED_BY_UNIT c) \<longrightarrow>
          (\<exists>q. intends w c q \<and> \<not> stands_on w a q))"

lemma plan_move_impassable:
  assumes "w_uheap w a = Some u" "u_pending_move u = Some d" "\<not> passable w (step_pos d (u_pos u))"
  shows "plan_move w a = Some (u_pos u, False)"
proof (cases "isInBounds w (step_pos d (u_pos u))")
  case True
  then obtain t where "world_tile w (step_pos d (u_pos u)) = Some t"
    by (auto simp: isInBounds_def world_tile_def tileOf_def)
  then show ?thesis using assms True by (auto simp: plan_move_def passable_def Let_def)
qed (use assms in \<open>simp add: plan_move_def Let_def\<close>)

lemma plan_move_passable:
  assumes "w_uheap w a = Some u" "u_pending_move u = Some d" "passable w (step_pos d (u_pos u))"
  shows "plan_move w a =
    (case the (occ w (step_pos d (u_pos u))) of
       NOT_OCCUPIED \<Rightarrow> Some (step_pos d (u_pos u), True)
     | OCCUPIED_BY_BULLET b \<Rightarrow> Some (u_pos u, False)
     | OCCUPIED_BY_UNIT c \<Rightarrow> do {
         oc \<leftarrow> w_uheap w c;
         (case u_pending_move oc of
            None \<Rightarrow> Some (u_pos u, False)
          | Some od \<Rightarrow> if step_pos od (u_pos oc) = u_pos u then Some (u_pos u, False)
                       else Some (step_pos d (u_pos u), True))
       })"
proof -
  obtain t where t: "world_tile w (step_pos d (u_pos u)) = Some t" "t_terrain t \<noteq> OBSTACLE"
    "t_terrain t \<noteq> WATER"
    using assms(3) unfolding passable_def by blast
  have "isInBounds w (step_pos d (u_pos u))"
    using t(1) unfolding world_tile_def isInBounds_def by (rule tileOf_inb)
  then show ?thesis using assms t by (simp add: plan_move_def Let_def occ_def)
qed

lemma plan_ok_blocked:
  assumes a: "a \<in> set (w_units w)" and u: "w_uheap w a = Some u" "u_pending_move u = Some d"
    and p: "passable w (step_pos d (u_pos u))"
    and oc: "occ w (step_pos d (u_pos u)) = Some (OCCUPIED_BY_UNIT c)"
    and c: "c \<in> set (w_units w)" "w_uheap w c = Some v"
  shows "plan_ok w a (step_pos d (u_pos u))
    \<longleftrightarrow> (\<exists>od. u_pending_move v = Some od \<and> step_pos od (u_pos v) \<noteq> u_pos u)"
proof -
  have int: "intends w a (step_pos d (u_pos u))" using a u by (simp add: intends_def)
  have st: "stands_on w a q \<longleftrightarrow> q = u_pos u" for q using u unfolding stands_on_def by auto
  have ic: "intends w c q \<longleftrightarrow> (\<exists>od. u_pending_move v = Some od \<and> q = step_pos od (u_pos v))" for q
    using c unfolding intends_def by simp
  have "plan_ok w a (step_pos d (u_pos u)) \<longleftrightarrow> (\<exists>q. intends w c q \<and> \<not> stands_on w a q)"
    unfolding plan_ok_def using int p oc by simp
  also have "\<dots> \<longleftrightarrow> (\<exists>od. u_pending_move v = Some od \<and> step_pos od (u_pos v) \<noteq> u_pos u)"
    using st ic by metis
  finally show ?thesis .
qed

lemma plan_move_correct:
  assumes W: "winv w" and a: "a \<in> set (w_units w)"
  shows "\<exists>p act. plan_move w a = Some (p, act) \<and> (act \<longleftrightarrow> plan_ok w a p)
    \<and> (\<forall>q. plan_ok w a q \<longrightarrow> act)"
proof -
  note H = winv_heap [OF W]
  obtain u where u: "w_uheap w a = Some u" using wf_heap_unit [OF H a] by blast
  show ?thesis
  proof (cases "u_pending_move u")
    case None
    then have "\<not> plan_ok w a q" for q using u unfolding plan_ok_def intends_def by auto
    then show ?thesis
      using None u by (intro exI [of _ "u_pos u"] exI [of _ False]) (simp add: plan_move_def)
  next
    case (Some d)
    let ?n = "step_pos d (u_pos u)"
    have int: "intends w a q \<longleftrightarrow> q = ?n" for q using a u Some unfolding intends_def by auto
    have only: "plan_ok w a q \<longleftrightarrow> q = ?n \<and> plan_ok w a ?n" for q
      unfolding plan_ok_def int by blast
    have no: "\<not> plan_ok w a (u_pos u)" using only [of "u_pos u"] step_pos_neq(2) by auto
    have "plan_move w a = (if plan_ok w a ?n then Some (?n, True) else Some (u_pos u, False))"
    proof (cases "passable w ?n")
      case False
      then show ?thesis using plan_move_impassable [OF u Some] by (simp add: plan_ok_def)
    next
      case True
      then obtain k where k: "occ w ?n = Some k" unfolding passable_def occ_def by auto
      note eval = plan_move_passable [OF u Some True]
      show ?thesis
      proof (cases k)
        case NOT_OCCUPIED
        then show ?thesis using eval k True int by (simp add: plan_ok_def)
      next
        case (OCCUPIED_BY_BULLET b)
        then show ?thesis using eval k by (simp add: plan_ok_def)
      next
        case (OCCUPIED_BY_UNIT c)
        obtain v where c: "c \<in> set (w_units w)" "w_uheap w c = Some v"
          using wf_heap_occ [OF H, of ?n c] k OCCUPIED_BY_UNIT by blast
        have oc: "occ w ?n = Some (OCCUPIED_BY_UNIT c)" using k OCCUPIED_BY_UNIT by simp
        show ?thesis
          unfolding plan_ok_blocked [OF a u Some True oc c] using eval oc c(2)
          by (cases "u_pending_move v") simp_all
      qed
    qed
    moreover have "plan_ok w a q \<Longrightarrow> plan_ok w a ?n" for q using only [of q] by blast
    ultimately show ?thesis using no by (metis (full_types))
  qed
qed

subsection \<open>Dependencies and conflicts\<close>

lemma index_of_nth: "distinct xs \<Longrightarrow> j < length xs \<Longrightarrow> index_of (xs ! j) xs = Some j"
proof (induction xs arbitrary: j)
  case (Cons x xs)
  then show ?case by (cases j) (auto simp: nth_mem)
qed simp

lemma add_dependency_skip:
  assumes "active ! k \<Longrightarrow> occ w (tgt ! k) \<noteq> None"
    and "\<not> (active ! k \<and> (\<exists>c. occ w (tgt ! k) = Some (OCCUPIED_BY_UNIT c)))"
  shows "add_dependency w tgt active k bl = Some bl"
proof (cases "active ! k")
  case True
  then obtain t where t: "world_tile w (tgt ! k) = Some t" using assms(1) unfolding occ_def by auto
  then show ?thesis
    using True assms(2) by (cases "t_occupant t") (simp_all add: add_dependency_def occ_def)
qed (simp add: add_dependency_def)

lemma add_dependency_add:
  assumes "active ! k" "occ w (tgt ! k) = Some (OCCUPIED_BY_UNIT c)" "index_of c (w_units w) = Some j"
  shows "add_dependency w tgt active k bl = Some (bl[j := bl ! j @ [k]])"
  using assms by (auto simp: add_dependency_def occ_def)

definition dependants :: "world \<Rightarrow> (pos_t \<times> pos_t) list \<Rightarrow> bool list \<Rightarrow> nat \<Rightarrow> nat \<Rightarrow> nat set" where
  "dependants w tgt active k j =
     {i. i < k \<and> active ! i \<and> occ w (tgt ! i) = Some (OCCUPIED_BY_UNIT (w_units w ! j))}"

lemma dependants_Suc:
  "dependants w tgt active (Suc k) j =
     (if active ! k \<and> occ w (tgt ! k) = Some (OCCUPIED_BY_UNIT (w_units w ! j))
      then insert k (dependants w tgt active k j) else dependants w tgt active k j)"
  by (auto simp: dependants_def less_Suc_eq)

lemma dependencies_correct:
  assumes dist: "distinct (w_units w)" and n: "n = length (w_units w)"
    and act: "\<And>i. i < n \<Longrightarrow> active ! i \<Longrightarrow> occ w (tgt ! i) \<noteq> None"
    and unit: "\<And>p c. occ w p = Some (OCCUPIED_BY_UNIT c) \<Longrightarrow> c \<in> set (w_units w)"
    and k: "k \<le> n"
  shows "\<exists>bl. foldM (add_dependency w tgt active) [0..<k] (replicate n []) = Some bl \<and> length bl = n
    \<and> (\<forall>j<n. set (bl ! j) = dependants w tgt active k j)"
  using k
proof (induction k)
  case 0
  then show ?case by (simp add: dependants_def)
next
  case (Suc k)
  then obtain bl where bl: "foldM (add_dependency w tgt active) [0..<k] (replicate n []) = Some bl"
    "length bl = n" "\<And>j. j < n \<Longrightarrow> set (bl ! j) = dependants w tgt active k j"
    using Suc_leD by blast
  have fold: "foldM (add_dependency w tgt active) [0..<Suc k] (replicate n []) = add_dependency w tgt active k bl"
    using bl(1) by (cases "add_dependency w tgt active k bl") (simp_all add: foldM_append)
  have actk: "active ! k \<Longrightarrow> occ w (tgt ! k) \<noteq> None" using act Suc.prems by simp
  show ?case
  proof (cases "active ! k \<and> (\<exists>c. occ w (tgt ! k) = Some (OCCUPIED_BY_UNIT c))")
    case False
    then have "dependants w tgt active (Suc k) j = dependants w tgt active k j" for j
      unfolding dependants_Suc by auto
    then show ?thesis using fold add_dependency_skip [OF actk False] bl by simp
  next
    case True
    then obtain c where c: "active ! k" "occ w (tgt ! k) = Some (OCCUPIED_BY_UNIT c)" by blast
    then obtain j where j: "j < n" "w_units w ! j = c"
      using unit [OF c(2)] n unfolding in_set_conv_nth by blast
    have idx: "index_of c (w_units w) = Some j" using index_of_nth [OF dist, of j] j n by simp
    have "set (bl[j := bl ! j @ [k]] ! i) = dependants w tgt active (Suc k) i" if "i < n" for i
    proof (cases "i = j")
      case True
      then show ?thesis using bl(2) bl(3) [OF that] j c unfolding dependants_Suc by simp
    next
      case False
      then have "w_units w ! i \<noteq> c" using j that nth_eq_iff_index_eq [OF dist] n by auto
      then show ?thesis using False bl(3) [OF that] c unfolding dependants_Suc by simp
    qed
    then show ?thesis using fold add_dependency_add [OF c idx] bl(2) by simp
  qed
qed

definition targets :: "(pos_t \<times> pos_t) list \<Rightarrow> bool list \<Rightarrow> nat \<Rightarrow> (pos_t \<times> pos_t) set" where
  "targets tgt active k = {p. \<exists>i<k. active ! i \<and> tgt ! i = p}"

definition shared_targets :: "(pos_t \<times> pos_t) list \<Rightarrow> bool list \<Rightarrow> nat \<Rightarrow> (pos_t \<times> pos_t) set" where
  "shared_targets tgt active k =
     {p. \<exists>i<k. \<exists>j<i. active ! i \<and> active ! j \<and> tgt ! i = p \<and> tgt ! j = p}"

lemma targets_Suc:
  "targets tgt active (Suc k)
     = (if active ! k then insert (tgt ! k) (targets tgt active k) else targets tgt active k)"
  unfolding targets_def using less_Suc_eq by auto

lemma shared_targets_Suc:
  "shared_targets tgt active (Suc k)
     = (if active ! k \<and> tgt ! k \<in> targets tgt active k then insert (tgt ! k) (shared_targets tgt active k)
        else shared_targets tgt active k)"
proof (cases "active ! k")
  case True
  then show ?thesis
    unfolding shared_targets_def targets_def
    by (intro set_eqI iffI; simp add: less_Suc_eq split: if_splits; blast)
next
  case False
  then show ?thesis
    unfolding shared_targets_def targets_def
    by (intro set_eqI iffI; simp add: less_Suc_eq; blast)
qed

lemma count_targets:
  "fold (count_target tgt active) [0..<k] ({}, {})
     = (targets tgt active k, shared_targets tgt active k)"
proof (induction k)
  case 0
  then show ?case by (simp add: targets_def shared_targets_def)
next
  case (Suc k)
  then show ?case by (auto simp: count_target_def targets_Suc shared_targets_Suc insert_absorb)
qed

lemma in_shared_targets:
  assumes "i < n" "active ! i"
  shows "tgt ! i \<in> shared_targets tgt active n
    \<longleftrightarrow> (\<exists>j<n. j \<noteq> i \<and> active ! j \<and> tgt ! j = tgt ! i)"
proof
  assume "tgt ! i \<in> shared_targets tgt active n"
  then obtain k j where "k < n" "j < k" "active ! k" "active ! j" "tgt ! k = tgt ! i" "tgt ! j = tgt ! i"
    by (auto simp: shared_targets_def)
  then show "\<exists>j<n. j \<noteq> i \<and> active ! j \<and> tgt ! j = tgt ! i"
    by (cases "k = i") (metis less_trans nat_neq_iff, metis)
next
  assume "\<exists>j<n. j \<noteq> i \<and> active ! j \<and> tgt ! j = tgt ! i"
  then obtain j where j: "j < n" "j \<noteq> i" "active ! j" "tgt ! j = tgt ! i" by blast
  then show "tgt ! i \<in> shared_targets tgt active n"
    unfolding shared_targets_def using assms by (cases "j < i") (auto, metis not_less_iff_gr_or_eq)
qed

lemma cancel_conflicts_nth:
  assumes "i < length active"
  shows "cancel_conflicts tgt active ! i \<longleftrightarrow>
    active ! i \<and> (\<forall>j<length active. j \<noteq> i \<longrightarrow> active ! j \<longrightarrow> tgt ! j \<noteq> tgt ! i)"
  using assms in_shared_targets [OF assms, of active tgt]
  by (cases "active ! i") (auto simp: cancel_conflicts_def count_targets in_shared_targets)

lemma length_cancel_conflicts [simp]: "length (cancel_conflicts tgt active) = length active"
  by (simp add: cancel_conflicts_def count_targets)

subsection \<open>The code's cancellations are the rule's\<close>

text \<open>
  A plan of a well-formed world, in the shape in which the previous lemmas deliver it: \<open>tgt\<close> and
  \<open>active\<close> from planning, and the dependency lists.
\<close>

definition planned :: "world \<Rightarrow> (pos_t \<times> pos_t) list \<Rightarrow> bool list \<Rightarrow> nat list list \<Rightarrow> bool" where
  "planned w tgt active blocked_by \<longleftrightarrow>
     length tgt = length (w_units w) \<and> length active = length (w_units w)
     \<and> length blocked_by = length (w_units w)
     \<and> (\<forall>i<length (w_units w). active ! i \<longrightarrow> plan_ok w (w_units w ! i) (tgt ! i))
     \<and> (\<forall>i<length (w_units w). \<forall>q. plan_ok w (w_units w ! i) q \<longrightarrow> active ! i \<and> q = tgt ! i)
     \<and> (\<forall>j<length (w_units w). set (blocked_by ! j)
          = {i. i < length (w_units w) \<and> active ! i
               \<and> occ w (tgt ! i) = Some (OCCUPIED_BY_UNIT (w_units w ! j))})"

lemma plannedD:
  assumes "planned w tgt active blocked_by"
  shows "length tgt = length (w_units w)" "length active = length (w_units w)"
    "length blocked_by = length (w_units w)"
    "i < length (w_units w) \<Longrightarrow> active ! i \<Longrightarrow> plan_ok w (w_units w ! i) (tgt ! i)"
    "i < length (w_units w) \<Longrightarrow> plan_ok w (w_units w ! i) q \<Longrightarrow> active ! i"
    "i < length (w_units w) \<Longrightarrow> plan_ok w (w_units w ! i) q \<Longrightarrow> q = tgt ! i"
    "j < length (w_units w) \<Longrightarrow> i \<in> set (blocked_by ! j) \<longleftrightarrow> i < length (w_units w) \<and> active ! i
               \<and> occ w (tgt ! i) = Some (OCCUPIED_BY_UNIT (w_units w ! j))"
  using assms unfolding planned_def by blast+

lemma not_plan_ok_cancelled:
  assumes "intends w a p" "\<not> plan_ok w a p"
  shows "rule_cancelled w a"
proof -
  consider "\<not> passable w p" | b where "occ w p = Some (OCCUPIED_BY_BULLET b)"
    | c where "occ w p = Some (OCCUPIED_BY_UNIT c)" "\<And>q. intends w c q \<Longrightarrow> stands_on w a q"
    using assms by (auto simp: plan_ok_def)
  then show ?thesis
  proof cases
    case 1
    then show ?thesis using assms(1) by (rule rule_cancelled.impassable [rotated])
  next
    case 2
    then show ?thesis using assms(1) by (rule rule_cancelled.bullet [rotated])
  next
    case 3
    show ?thesis
    proof (cases "\<exists>q. intends w c q")
      case True
      then obtain q where "intends w c q" ..
      then show ?thesis using assms(1) 3 rule_cancelled.against by metis
    next
      case False
      then show ?thesis using assms(1) 3(1) rule_cancelled.idle by metis
    qed
  qed
qed

lemma killed_cancelled:
  assumes P: "planned w tgt active blocked_by"
    and "killed blocked_by (cancel_conflicts tgt active) i"
  shows "i < length (w_units w) \<Longrightarrow> intends w (w_units w ! i) p \<Longrightarrow> distinct (w_units w)
    \<Longrightarrow> rule_cancelled w (w_units w ! i)"
  using assms(2)
proof (induction arbitrary: p)
  case (start i)
  note D = plannedD [OF P]
  show ?case
  proof (cases "active ! i")
    case False
    then show ?thesis using D(5) [OF start(3)] not_plan_ok_cancelled [OF start(4)] by blast
  next
    case True
    then obtain j where j: "j < length active" "j \<noteq> i" "active ! j" "tgt ! j = tgt ! i"
      using start(1,2) cancel_conflicts_nth [of i active tgt] by auto
    have i: "plan_ok w (w_units w ! i) (tgt ! i)" using D(4) [OF start(3) True] .
    have jj: "plan_ok w (w_units w ! j) (tgt ! i)" using D(4) [of j] D(2) j by simp
    have "w_units w ! j \<noteq> w_units w ! i"
      using j D(2) start(3,5) by (simp add: nth_eq_iff_index_eq)
    then show ?thesis using i jj rule_cancelled.conflict unfolding plan_ok_def by metis
  qed
next
  case (dependant j i)
  note D = plannedD [OF P]
  have j: "j < length (w_units w)" using dependant(2) D(3) by simp
  have act: "active ! i" "occ w (tgt ! i) = Some (OCCUPIED_BY_UNIT (w_units w ! j))"
    using D(7) [OF j] dependant(3) by auto
  have ok: "plan_ok w (w_units w ! i) (tgt ! i)" using D(4) [OF dependant(6) act(1)] .
  then obtain q where q: "intends w (w_units w ! j) q" using act(2) by (auto simp: plan_ok_def)
  have "rule_cancelled w (w_units w ! j)" using dependant.IH [OF j q dependant(8)] .
  then show ?case using ok act(2) rule_cancelled.chain unfolding plan_ok_def by metis
qed

lemma not_active_killed:
  assumes P: "planned w tgt active blocked_by" and i: "i < length (w_units w)" "\<not> active ! i"
  shows "killed blocked_by (cancel_conflicts tgt active) i"
  using plannedD(2) [OF P] i by (intro killed.start) (simp_all add: cancel_conflicts_nth)

lemma dependant_killed:
  assumes P: "planned w tgt active blocked_by" and i: "i < length (w_units w)"
    and int: "intends w (w_units w ! i) p" and occ: "occ w p = Some (OCCUPIED_BY_UNIT (w_units w ! j))"
    and j: "j < length (w_units w)" "killed blocked_by (cancel_conflicts tgt active) j"
  shows "killed blocked_by (cancel_conflicts tgt active) i"
proof (cases "active ! i")
  case True
  then have "plan_ok w (w_units w ! i) (tgt ! i)" using plannedD(4) [OF P i] by simp
  then have "tgt ! i = p" using intends_fun [OF _ int] by (simp add: plan_ok_def)
  then have "i \<in> set (blocked_by ! j)" using plannedD(7) [OF P j(1)] i True occ by simp
  then show ?thesis using killed.dependant [OF j(2)] plannedD(2,3) [OF P] i j(1) by simp
next
  case False
  then show ?thesis using not_active_killed [OF P i] by simp
qed

lemma not_plan_ok_killed:
  assumes P: "planned w tgt active blocked_by" and "intends w a p" "\<not> plan_ok w a p"
  shows "\<exists>i<length (w_units w). w_units w ! i = a \<and> killed blocked_by (cancel_conflicts tgt active) i"
proof -
  obtain i where i: "i < length (w_units w)" "w_units w ! i = a"
    using \<open>intends w a p\<close> unfolding intends_def in_set_conv_nth by blast
  have "\<not> active ! i"
    using plannedD(4) [OF P i(1)] intends_fun [OF assms(2)] assms(3) i(2) unfolding plan_ok_def by blast
  then show ?thesis using not_active_killed [OF P i(1)] i by blast
qed

text \<open>
  Of two moves to one tile, one may already be inactive because the tile's occupant moves against
  it. Then the occupant's move is inactive as well, and the other move depends on it.
\<close>

lemma conflict_killed:
  assumes W: "winv w" and S: "settled w" and P: "planned w tgt active blocked_by"
    and a: "intends w a p" and c: "intends w c p" "\<not> plan_ok w c p" and ok: "plan_ok w a p"
    and i: "i < length (w_units w)" "w_units w ! i = a"
  shows "killed blocked_by (cancel_conflicts tgt active) i"
proof -
  obtain e q where e: "occ w p = Some (OCCUPIED_BY_UNIT e)" "intends w e q" "stands_on w c q"
    using ok c intends_fun unfolding plan_ok_def by metis
  have cin: "c \<in> set (w_units w)" using c(1) by (simp add: intends_def)
  obtain uc where uc: "occ w (u_pos uc) = Some (OCCUPIED_BY_UNIT c)" "w_uheap w c = Some uc"
    using settled_unit [OF W S cin] by metis
  have q: "occ w q = Some (OCCUPIED_BY_UNIT c)" using e(3) uc unfolding stands_on_def by auto
  have "stands_on w e p" using wf_heap_occ [OF winv_heap [OF W] e(1)] by (simp add: stands_on_def)
  then have "\<not> plan_ok w e q"
    using q intends_fun [OF c(1)] unfolding plan_ok_def by blast
  from not_plan_ok_killed [OF P e(2) this] obtain j where
    "j < length (w_units w)" "w_units w ! j = e" "killed blocked_by (cancel_conflicts tgt active) j" by blast
  then show ?thesis using dependant_killed [OF P i(1), of p j] a e(1) i(2) by simp
qed

lemma cancelled_killed:
  assumes W: "winv w" and S: "settled w" and P: "planned w tgt active blocked_by"
    and "rule_cancelled w a"
  shows "\<exists>i<length (w_units w). w_units w ! i = a \<and> killed blocked_by (cancel_conflicts tgt active) i"
  using assms(4)
proof induction
  case (impassable a p)
  then show ?case by (intro not_plan_ok_killed [OF P]) (auto simp: plan_ok_def)
next
  case (bullet a p b)
  then show ?case by (intro not_plan_ok_killed [OF P]) (auto simp: plan_ok_def)
next
  case (idle a p c)
  then show ?case by (intro not_plan_ok_killed [OF P]) (auto simp: plan_ok_def)
next
  case (against a p c q)
  have "\<not> plan_ok w a p"
    using against intends_fun [OF against(3)] unfolding plan_ok_def by blast
  then show ?case using against(1) not_plan_ok_killed [OF P] by blast
next
  case (chain a p c)
  obtain i where i: "i < length (w_units w)" "w_units w ! i = a"
    using chain(1) unfolding intends_def in_set_conv_nth by blast
  then show ?case using dependant_killed [OF P i(1)] chain by blast
next
  case (conflict a p c)
  obtain i k where i: "i < length (w_units w)" "w_units w ! i = a"
    and k: "k < length (w_units w)" "w_units w ! k = c"
    using conflict(1,2) unfolding intends_def in_set_conv_nth by blast
  consider "\<not> plan_ok w a p" | "plan_ok w a p" "\<not> plan_ok w c p" | "plan_ok w a p" "plan_ok w c p"
    by blast
  then show ?case
  proof cases
    case 1
    then show ?thesis using not_plan_ok_killed [OF P conflict(1)] by blast
  next
    case 2
    then show ?thesis using conflict_killed [OF W S P conflict(1,2) 2(2,1) i] i by blast
  next
    case 3
    have "active ! i" "active ! k" "tgt ! i = p" "tgt ! k = p"
      using plannedD(5,6) [OF P i(1), of p] plannedD(5,6) [OF P k(1), of p] 3 i k by auto
    then have "\<not> cancel_conflicts tgt active ! i"
      using cancel_conflicts_nth [of i active tgt] i k conflict(3) plannedD(2) [OF P] by metis
    then show ?thesis using killed.start [of i "cancel_conflicts tgt active"] i plannedD(2) [OF P] by auto
  qed
qed

text \<open>A move that the rules let through.\<close>

definition moves :: "world \<Rightarrow> addr \<Rightarrow> pos_t \<times> pos_t \<Rightarrow> bool" where
  "moves w a p \<longleftrightarrow> intends w a p \<and> \<not> rule_cancelled w a"

lemma resolve_moves_correct:
  assumes W: "winv w" and S: "settled w"
  shows "\<exists>active tgt. resolve_moves w = Some (active, tgt)
    \<and> length active = length (w_units w) \<and> length tgt = length (w_units w)
    \<and> (\<forall>i<length (w_units w). active ! i \<longrightarrow> moves w (w_units w ! i) (tgt ! i))
    \<and> (\<forall>i<length (w_units w). \<forall>q. moves w (w_units w ! i) q \<longrightarrow> active ! i \<and> q = tgt ! i)"
proof -
  let ?us = "w_units w"
  let ?n = "length ?us"
  note H = winv_heap [OF W]
  note dist = wf_heap_distinct(1) [OF H]
  have plan1: "\<exists>p act. plan_move w (?us ! i) = Some (p, act) \<and> (act \<longleftrightarrow> plan_ok w (?us ! i) p)
    \<and> (\<forall>q. plan_ok w (?us ! i) q \<longrightarrow> act)" if "i < ?n" for i
    using plan_move_correct [OF W] that by simp
  obtain plan where plan: "traverse (plan_move w) ?us = Some plan"
    using traverse_total [of ?us "plan_move w"] plan_move_correct [OF W] by (metis option.distinct(1))
  note len = traverse_length [OF plan]
  let ?tgt = "map fst plan" and ?active = "map snd plan"
  have ok: "?active ! i \<longleftrightarrow> plan_ok w (?us ! i) (?tgt ! i)" "plan_ok w (?us ! i) q \<Longrightarrow> ?active ! i"
    if i: "i < ?n" for i q
  proof -
    obtain p act where pa: "plan_move w (?us ! i) = Some (p, act)" "act \<longleftrightarrow> plan_ok w (?us ! i) p"
      "\<And>q. plan_ok w (?us ! i) q \<Longrightarrow> act" using plan1 [OF i] by blast
    have "plan ! i = (p, act)" using traverse_nth [OF plan i] pa(1) by simp
    then have "?active ! i = act" "?tgt ! i = p" using i len by simp_all
    then show "?active ! i \<longleftrightarrow> plan_ok w (?us ! i) (?tgt ! i)" "plan_ok w (?us ! i) q \<Longrightarrow> ?active ! i"
      using pa(2,3) by blast+
  qed
  have same: "q = ?tgt ! i" if "i < ?n" "plan_ok w (?us ! i) q" for i q
    using ok(1) [OF that(1)] ok(2) [OF that] that(2) intends_fun unfolding plan_ok_def by metis
  have inb: "occ w (?tgt ! i) \<noteq> None" if "i < ?n" "?active ! i" for i
    using ok(1) [OF that(1)] that(2) unfolding plan_ok_def passable_def occ_def by fastforce
  obtain bl where bl: "foldM (add_dependency w ?tgt ?active) [0..<?n] (replicate ?n []) = Some bl"
    "length bl = ?n" "\<And>j. j < ?n \<Longrightarrow> set (bl ! j) = dependants w ?tgt ?active ?n j"
    using dependencies_correct [OF dist refl inb _ order_refl] wf_heap_occ [OF H] by blast
  have P: "planned w ?tgt ?active bl"
  proof -
    have l: "length ?tgt = ?n" "length ?active = ?n" using len by simp_all
    have b: "\<forall>j<?n. set (bl ! j) = {i. i < ?n \<and> ?active ! i
        \<and> occ w (?tgt ! i) = Some (OCCUPIED_BY_UNIT (?us ! j))}"
      using bl(3) unfolding dependants_def by blast
    show ?thesis unfolding planned_def using l b bl(2) ok same by blast
  qed
  let ?conf = "cancel_conflicts ?tgt ?active"
  have lc: "length ?conf = ?n" using len by simp
  have "\<forall>j<length bl. \<forall>i\<in>set (bl ! j). i < length ?conf"
    using bl(2,3) lc unfolding dependants_def by auto
  from cancel_loop_correct [OF _ this] obtain active where
    a: "cancel_loop bl (filter (\<lambda>i. \<not> ?conf ! i) [0..<?n]) ?conf = Some active" "length active = ?n"
      "\<And>i. i < ?n \<Longrightarrow> active ! i \<longleftrightarrow> \<not> killed bl ?conf i"
    using bl(2) lc unfolding lc by blast
  have res: "resolve_moves w = Some (active, ?tgt)"
    using plan bl(1) a(1) by (simp add: resolve_moves_def Let_def)
  have 1: "moves w (?us ! i) (?tgt ! i)" if i: "i < ?n" "active ! i" for i
  proof -
    have nk: "\<not> killed bl ?conf i" using a(3) i by simp
    then have "?active ! i" using not_active_killed [OF P i(1)] by blast
    then have int: "intends w (?us ! i) (?tgt ! i)" using ok(1) [OF i(1)] by (simp add: plan_ok_def)
    have "\<not> rule_cancelled w (?us ! i)"
    proof
      assume "rule_cancelled w (?us ! i)"
      from cancelled_killed [OF W S P this] obtain k where "k < ?n" "?us ! k = ?us ! i" "killed bl ?conf k"
        by blast
      then show False using nk i(1) nth_eq_iff_index_eq [OF dist] by metis
    qed
    then show ?thesis using int by (simp add: moves_def)
  qed
  have 2: "active ! i \<and> q = ?tgt ! i" if i: "i < ?n" and m: "moves w (?us ! i) q" for i q
  proof -
    have "\<not> killed bl ?conf i"
      using killed_cancelled [OF P _ i _ dist] m unfolding moves_def by blast
    then have "active ! i" using a(3) i by simp
    then show ?thesis using 1 [OF i] m intends_fun unfolding moves_def by blast
  qed
  have "length ?tgt = ?n" using len by simp
  then show ?thesis using res a(2) 1 2 by blast
qed

subsection \<open>What the rules guarantee about the remaining moves\<close>

lemma moves_target:
  assumes "moves w a p"
  shows "passable w p" "\<And>b. occ w p \<noteq> Some (OCCUPIED_BY_BULLET b)"
    "\<And>c. moves w c p \<Longrightarrow> c = a"
    "occ w p = Some (OCCUPIED_BY_UNIT c) \<Longrightarrow> \<exists>q. moves w c q"
    "a \<in> set (w_units w)"
proof -
  have a: "intends w a p" "\<not> rule_cancelled w a" using assms by (simp_all add: moves_def)
  show "passable w p" using a rule_cancelled.impassable by blast
  show "occ w p \<noteq> Some (OCCUPIED_BY_BULLET b)" for b using a rule_cancelled.bullet by blast
  show "c = a" if "moves w c p" for c using a that rule_cancelled.conflict unfolding moves_def by metis
  show "\<exists>q. moves w c q" if "occ w p = Some (OCCUPIED_BY_UNIT c)"
    using a that rule_cancelled.idle rule_cancelled.chain unfolding moves_def by metis
  show "a \<in> set (w_units w)" using a by (simp add: intends_def)
qed

end
