(* ===== verification/World_Movement_Exec.thy ===== *)
theory World_Movement_Exec
  imports World_Movement_Rules
begin

text \<open>
  The second half of the movement phase: carrying out the remaining moves, and the cleanup before
  planning. The result is the theorem that the whole phase never fails on a well-formed world,
  keeps it well-formed, and moves exactly the units whose moves the rules let through.
\<close>

subsection \<open>The two passes as folds over the units\<close>

type_synonym dest = "addr \<Rightarrow> (pos_t \<times> pos_t) option"

definition leave1 :: "dest \<Rightarrow> addr \<Rightarrow> world \<Rightarrow> world option" where
  "leave1 dest a w = (case dest a of
       None \<Rightarrow> Some w
     | Some p \<Rightarrow> do { u \<leftarrow> w_uheap w a; set_occ (u_pos u) NOT_OCCUPIED w })"

definition enter1 :: "dest \<Rightarrow> addr \<Rightarrow> world \<Rightarrow> world option" where
  "enter1 dest a w = (case dest a of None \<Rightarrow> Some w | Some p \<Rightarrow> enter_tile [a] [p] [True] 0 w)"

definition plan_dest :: "addr list \<Rightarrow> bool list \<Rightarrow> (pos_t \<times> pos_t) list \<Rightarrow> dest \<Rightarrow> bool" where
  "plan_dest us active tgt dest \<longleftrightarrow>
     (\<forall>i<length us. dest (us ! i) = (if active ! i then Some (tgt ! i) else None))"

lemma foldM_nth:
  assumes "\<And>i s. i < length us \<Longrightarrow> g i s = f (us ! i) s"
  shows "foldM g [0..<length us] s = foldM f us s"
proof -
  have map: "foldM f (map h xs) s = foldM (\<lambda>i. f (h i)) xs s" for h xs s
    by (induction xs arbitrary: s) (auto split: bind_split)
  have "foldM g [0..<length us] s = foldM (\<lambda>i. f (us ! i)) [0..<length us] s"
    by (rule foldM_cong) (use assms in auto)
  also have "\<dots> = foldM f us s" using map [of "nth us" "[0..<length us]"] by (simp add: map_nth)
  finally show ?thesis .
qed

lemma leave_fold:
  assumes "plan_dest us active tgt dest"
  shows "foldM (leave_tile us active) [0..<length us] w = foldM (leave1 dest) us w"
  by (rule foldM_nth) (use assms in \<open>simp add: plan_dest_def leave_tile_def leave1_def\<close>)

lemma enter_fold:
  assumes "plan_dest us active tgt dest"
  shows "foldM (enter_tile us tgt active) [0..<length us] w = foldM (enter1 dest) us w"
  by (rule foldM_nth) (use assms in \<open>simp add: plan_dest_def enter_tile_def enter1_def\<close>)

definition reset_heap :: "addr set \<Rightarrow> (addr \<Rightarrow> game_unit option) \<Rightarrow> addr \<Rightarrow> game_unit option" where
  "reset_heap A uh a = (if a \<in> A then map_option (\<lambda>u. u\<lparr>u_pending_move := None\<rparr>) (uh a) else uh a)"

lemma reset_fold:
  "\<forall>a\<in>set as. w_uheap w a \<noteq> None \<Longrightarrow>
     foldM reset_pending as w = Some (w\<lparr>w_uheap := reset_heap (set as) (w_uheap w)\<rparr>)"
proof (induction as arbitrary: w)
  case Nil
  then show ?case by (simp add: reset_heap_def cong: world.fold_congs)
next
  case (Cons a as)
  then obtain u where u: "w_uheap w a = Some u" by auto
  let ?w = "w\<lparr>w_uheap := (w_uheap w)(a \<mapsto> u\<lparr>u_pending_move := None\<rparr>)\<rparr>"
  have "reset_heap (set as) (w_uheap ?w) = reset_heap (set (a # as)) (w_uheap w)"
    using u by (auto simp: reset_heap_def fun_eq_iff)
  moreover have "foldM reset_pending as ?w = Some (?w\<lparr>w_uheap := reset_heap (set as) (w_uheap ?w)\<rparr>)"
    by (rule Cons.IH) (use Cons.prems in auto)
  moreover have "foldM reset_pending (a # as) w = foldM reset_pending as ?w"
    using u by (simp add: reset_pending_def [of a] upd_unit_def)
  ultimately show ?case by (simp del: foldM.simps)
qed

lemma leave_effect:
  assumes "tilemap_wf (w_map w)"
    and "\<And>a p. a \<in> set as \<Longrightarrow> dest a = Some p \<Longrightarrow> \<exists>u. w_uheap w a = Some u \<and> tm_inb (w_map w) (u_pos u)"
  shows "\<exists>w'. foldM (leave1 dest) as w = Some w' \<and> w' = w\<lparr>w_map := w_map w'\<rparr> \<and> static w' = static w
    \<and> (\<forall>p. occ w' p = (if \<exists>a\<in>set as. dest a \<noteq> None \<and> stands_on w a p then Some NOT_OCCUPIED else occ w p))"
  using assms
proof (induction as arbitrary: w)
  case Nil
  then show ?case by simp
next
  case (Cons a as)
  show ?case
  proof (cases "dest a")
    case None
    then show ?thesis using Cons.IH [OF Cons.prems(1)] Cons.prems(2) by (simp add: leave1_def)
  next
    case (Some p)
    then obtain u where u: "w_uheap w a = Some u" "tm_inb (w_map w) (u_pos u)" using Cons.prems(2) [of a p] by auto
    then obtain w1 where w1: "set_occ (u_pos u) NOT_OCCUPIED w = Some w1"
      using set_occ_None [of "u_pos u" NOT_OCCUPIED w] by (cases "set_occ (u_pos u) NOT_OCCUPIED w") auto
    obtain m where m: "w1 = w\<lparr>w_map := m\<rparr>" "occ w1 = (occ w)(u_pos u \<mapsto> NOT_OCCUPIED)" "static w1 = static w"
      using set_occ_Some [OF w1 Cons.prems(1)] by metis
    note st = static_facts [OF m(3)]
    have "\<exists>w'. foldM (leave1 dest) as w1 = Some w' \<and> w' = w1\<lparr>w_map := w_map w'\<rparr> \<and> static w' = static w1
      \<and> (\<forall>p. occ w' p = (if \<exists>a\<in>set as. dest a \<noteq> None \<and> stands_on w1 a p then Some NOT_OCCUPIED else occ w1 p))"
      by (rule Cons.IH) (use Cons.prems st in \<open>auto simp: m(1)\<close>)
    then obtain w' where w': "foldM (leave1 dest) as w1 = Some w'" "w' = w1\<lparr>w_map := w_map w'\<rparr>"
      "static w' = static w1"
      "\<And>p. occ w' p = (if \<exists>a\<in>set as. dest a \<noteq> None \<and> stands_on w1 a p then Some NOT_OCCUPIED else occ w1 p)"
      by blast
    have so: "stands_on w1 c q = stands_on w c q" for c q by (simp add: stands_on_def m(1))
    have sa: "stands_on w a q \<longleftrightarrow> q = u_pos u" for q using u unfolding stands_on_def by auto
    have "foldM (leave1 dest) (a # as) w = Some w'" using Some u w1 w'(1) by (simp add: leave1_def)
    moreover have "w' = w\<lparr>w_map := w_map w'\<rparr>" using w'(2) by (simp add: m(1))
    moreover have "occ w' p = (if \<exists>a\<in>set (a # as). dest a \<noteq> None \<and> stands_on w a p
        then Some NOT_OCCUPIED else occ w p)" for p
      using w'(4) [of p] Some unfolding so by (auto simp: sa m(2))
    ultimately show ?thesis using w'(3) m(3) by auto
  qed
qed

text \<open>What the movement phase does not touch.\<close>

definition move_frame :: "world \<Rightarrow> world \<Rightarrow> bool" where
  "move_frame w w' \<longleftrightarrow>
     static w' = static w \<and> w_tick w' = w_tick w \<and> w_units w' = w_units w
     \<and> w_bullets w' = w_bullets w \<and> w_bheap w' = w_bheap w \<and> w_players w' = w_players w
     \<and> w_next w' = w_next w \<and> w_logs w' = w_logs w \<and> w_reason w' = w_reason w
     \<and> w_winner w' = w_winner w \<and> w_rng w' = w_rng w"

definition moved_heap :: "dest \<Rightarrow> addr set \<Rightarrow> (addr \<Rightarrow> game_unit option) \<Rightarrow> addr \<Rightarrow> game_unit option" where
  "moved_heap dest A uh a =
     (if a \<in> A then (case dest a of None \<Rightarrow> uh a
         | Some p \<Rightarrow> map_option (\<lambda>u. u\<lparr>u_x := fst p, u_y := snd p\<rparr>) (uh a)) else uh a)"

lemma enter1_effect:
  assumes wf: "tilemap_wf (w_map w)" and d: "dest a = Some p" and u: "w_uheap w a = Some u"
    and inb: "tm_inb (w_map w) (u_pos u)" "tm_inb (w_map w) p"
  shows "\<exists>w'. enter1 dest a w = Some w' \<and> move_frame w w'
    \<and> w_uheap w' = (w_uheap w)(a \<mapsto> u\<lparr>u_x := fst p, u_y := snd p\<rparr>)
    \<and> occ w' = (occ w)(p \<mapsto> OCCUPIED_BY_UNIT a)"
proof -
  obtain t1 t2 where t: "world_tile w (u_pos u) = Some t1" "world_tile w p = Some t2"
    using inb by (auto simp: world_tile_def tileOf_def)
  have ev_eq: "world_tile (set_event f w) q = world_tile w q" for f q
    by (simp add: set_event_def world_tile_def)
  define w1 where "w1 = (if isInBase w (u_pos u) (u_player u) \<and> \<not> isInBase w p (u_player u)
     then set_event (\<lambda>e. e\<lparr>ev_unit_left_base := True\<rparr>) w else w)"
  define w2 where "w2 = (if \<not> t_is_resource t1 \<and> t_is_resource t2
     then set_event (\<lambda>e. e\<lparr>ev_unit_entered_resource_zone := True\<rparr>) w1 else w1)"
  let ?w3 = "w2\<lparr>w_uheap := (w_uheap w2)(a \<mapsto> u\<lparr>u_x := fst p, u_y := snd p\<rparr>)\<rparr>"
  have w2: "w2 = w\<lparr>w_events := w_events w2\<rparr>" by (simp add: w2_def w1_def set_event_def)
  have f: "w_uheap w2 = w_uheap w" "w_map w2 = w_map w" by (subst w2, simp)+
  have t1: "world_tile w1 q = world_tile w q" for q by (simp add: w1_def ev_eq)
  have "enter1 dest a w = do {
        old_tile \<leftarrow> world_tile w1 (u_pos u);
        new_tile \<leftarrow> world_tile w1 p;
        let w = (if \<not> t_is_resource old_tile \<and> t_is_resource new_tile
                 then set_event (\<lambda>e. e\<lparr>ev_unit_entered_resource_zone := True\<rparr>) w1 else w1);
        w \<leftarrow> upd_unit a (\<lambda>u. u\<lparr>u_x := fst p, u_y := snd p\<rparr>) w;
        set_occ p (OCCUPIED_BY_UNIT a) w
      }"
    using d u by (simp only: enter1_def enter_tile_def option.case nth_Cons_0 Let_def w1_def
        Option.bind.bind_lunit simp_thms if_False)
  also have "\<dots> = (upd_unit a (\<lambda>u. u\<lparr>u_x := fst p, u_y := snd p\<rparr>) w2 \<bind> set_occ p (OCCUPIED_BY_UNIT a))"
    unfolding t1 t by (simp only: Option.bind.bind_lunit Let_def w2_def)
  also have "\<dots> = set_occ p (OCCUPIED_BY_UNIT a) ?w3" using u f(1) by (simp add: upd_unit_def)
  finally have eval: "enter1 dest a w = set_occ p (OCCUPIED_BY_UNIT a) ?w3" .
  have "tm_inb (w_map ?w3) p" "tilemap_wf (w_map ?w3)" using inb wf f by simp_all
  then obtain w' where w': "set_occ p (OCCUPIED_BY_UNIT a) ?w3 = Some w'"
    using set_occ_None [of p "OCCUPIED_BY_UNIT a" ?w3]
    by (cases "set_occ p (OCCUPIED_BY_UNIT a) ?w3") auto
  obtain m where m: "w' = ?w3\<lparr>w_map := m\<rparr>" "occ w' = (occ ?w3)(p \<mapsto> OCCUPIED_BY_UNIT a)"
    "static w' = static ?w3"
    using set_occ_Some [OF w' \<open>tilemap_wf (w_map ?w3)\<close>] by metis
  have "occ w2 = occ w" "static w2 = static w" by (subst w2, simp)+
  then have "occ w' = (occ w)(p \<mapsto> OCCUPIED_BY_UNIT a)" "static w' = static w" using m(2,3) by simp_all
  moreover have "w_tick w2 = w_tick w" "w_units w2 = w_units w" "w_bullets w2 = w_bullets w"
    "w_bheap w2 = w_bheap w" "w_players w2 = w_players w" "w_next w2 = w_next w" "w_logs w2 = w_logs w"
    "w_reason w2 = w_reason w" "w_winner w2 = w_winner w" "w_rng w2 = w_rng w"
    by (subst w2, simp)+
  ultimately show ?thesis using eval w' f by (simp add: move_frame_def m(1))
qed

lemma enter_effect:
  assumes "tilemap_wf (w_map w)" "distinct as"
    and "\<And>a p. a \<in> set as \<Longrightarrow> dest a = Some p \<Longrightarrow>
           tm_inb (w_map w) p \<and> (\<exists>u. w_uheap w a = Some u \<and> tm_inb (w_map w) (u_pos u))"
    and "\<And>a c p. a \<in> set as \<Longrightarrow> c \<in> set as \<Longrightarrow> dest a = Some p \<Longrightarrow> dest c = Some p \<Longrightarrow> a = c"
  shows "\<exists>w'. foldM (enter1 dest) as w = Some w' \<and> move_frame w w'
    \<and> w_uheap w' = moved_heap dest (set as) (w_uheap w)
    \<and> (\<forall>a\<in>set as. \<forall>p. dest a = Some p \<longrightarrow> occ w' p = Some (OCCUPIED_BY_UNIT a))
    \<and> (\<forall>p. (\<forall>a\<in>set as. dest a \<noteq> Some p) \<longrightarrow> occ w' p = occ w p)"
  using assms
proof (induction as arbitrary: w)
  case Nil
  then show ?case by (simp add: move_frame_def moved_heap_def fun_eq_iff)
next
  case (Cons a as)
  show ?case
  proof (cases "dest a")
    case None
    have "\<exists>w'. foldM (enter1 dest) as w = Some w' \<and> move_frame w w'
      \<and> w_uheap w' = moved_heap dest (set as) (w_uheap w)
      \<and> (\<forall>a\<in>set as. \<forall>p. dest a = Some p \<longrightarrow> occ w' p = Some (OCCUPIED_BY_UNIT a))
      \<and> (\<forall>p. (\<forall>a\<in>set as. dest a \<noteq> Some p) \<longrightarrow> occ w' p = occ w p)"
      by (rule Cons.IH) (use Cons.prems in auto)
    moreover have "moved_heap dest (set (a # as)) (w_uheap w) = moved_heap dest (set as) (w_uheap w)"
      using None by (auto simp: moved_heap_def fun_eq_iff)
    moreover have "foldM (enter1 dest) (a # as) w = foldM (enter1 dest) as w"
      using None by (simp add: enter1_def [of dest a])
    moreover have "\<And>p. dest a \<noteq> Some p" using None by simp
    ultimately show ?thesis unfolding set_simps(2) by (metis insert_iff)
  next
    case (Some p)
    obtain u where inb: "tm_inb (w_map w) p" and u: "w_uheap w a = Some u" "tm_inb (w_map w) (u_pos u)"
      using Cons.prems(3) [of a p] Some by auto
    obtain w1 where w1: "enter1 dest a w = Some w1" "move_frame w w1"
      "w_uheap w1 = (w_uheap w)(a \<mapsto> u\<lparr>u_x := fst p, u_y := snd p\<rparr>)"
      "occ w1 = (occ w)(p \<mapsto> OCCUPIED_BY_UNIT a)"
      using enter1_effect [where dest = dest and a = a and p = p, OF Cons.prems(1) Some u inb] by blast
    have st: "static w1 = static w" using w1(2) by (simp add: move_frame_def)
    have na: "a \<notin> set as" using Cons.prems(2) by simp
    have "\<exists>w'. foldM (enter1 dest) as w1 = Some w' \<and> move_frame w1 w'
      \<and> w_uheap w' = moved_heap dest (set as) (w_uheap w1)
      \<and> (\<forall>a\<in>set as. \<forall>p. dest a = Some p \<longrightarrow> occ w' p = Some (OCCUPIED_BY_UNIT a))
      \<and> (\<forall>p. (\<forall>a\<in>set as. dest a \<noteq> Some p) \<longrightarrow> occ w' p = occ w1 p)"
    proof (rule Cons.IH)
      show "tm_inb (w_map w1) q \<and> (\<exists>u. w_uheap w1 c = Some u \<and> tm_inb (w_map w1) (u_pos u))"
        if c: "c \<in> set as" "dest c = Some q" for c q
      proof -
        have "c \<noteq> a" using c na by auto
        then show ?thesis using Cons.prems(3) [of c q] c static_facts(2) [OF st] w1(3) by simp
      qed
    qed (use Cons.prems static_facts [OF st] in auto)
    then obtain w' where w': "foldM (enter1 dest) as w1 = Some w'" "move_frame w1 w'"
      "w_uheap w' = moved_heap dest (set as) (w_uheap w1)"
      "\<And>c q. c \<in> set as \<Longrightarrow> dest c = Some q \<Longrightarrow> occ w' q = Some (OCCUPIED_BY_UNIT c)"
      "\<And>q. (\<forall>c\<in>set as. dest c \<noteq> Some q) \<Longrightarrow> occ w' q = occ w1 q" by blast
    have 1: "foldM (enter1 dest) (a # as) w = Some w'" using w1(1) w'(1) by simp
    have 2: "move_frame w w'" using w1(2) w'(2) by (simp add: move_frame_def)
    have 3: "w_uheap w' = moved_heap dest (set (a # as)) (w_uheap w)"
    proof
      fix x
      show "w_uheap w' x = moved_heap dest (set (a # as)) (w_uheap w) x"
        unfolding w'(3) w1(3) moved_heap_def using Some u na
        by (cases "x = a"; cases "dest x") simp_all
    qed
    have others: "\<forall>c\<in>set as. dest c \<noteq> Some p" using Cons.prems(4) [of a _ p] Some na by (metis list.set_intros)
    have 4: "occ w' q = Some (OCCUPIED_BY_UNIT c)" if "c \<in> set (a # as)" "dest c = Some q" for c q
    proof (cases "c = a")
      case True
      then show ?thesis using that(2) w'(5) [OF others] Some w1(4) by simp
    next
      case False
      then show ?thesis using that w'(4) [of c q] by simp
    qed
    have 5: "occ w' q = occ w q" if "\<forall>c\<in>set (a # as). dest c \<noteq> Some q" for q
      using that w'(5) [of q] Some w1(4) by auto
    show ?thesis using 1 2 3 4 5 by blast
  qed
qed

subsection \<open>The world after the moves\<close>

lemma execute_moves_correct:
  assumes W: "winv w" and S: "settled w"
    and dest: "plan_dest (w_units w) active tgt dest"
    and moves: "\<And>a p. a \<in> set (w_units w) \<Longrightarrow> dest a = Some p \<longleftrightarrow> moves w a p"
  shows "\<exists>w'. execute_moves active tgt w = Some w' \<and> move_frame w w'
    \<and> w_uheap w' = moved_heap dest (set (w_units w)) (reset_heap (set (w_units w)) (w_uheap w))
    \<and> (\<forall>a\<in>set (w_units w). \<forall>p. dest a = Some p \<longrightarrow> occ w' p = Some (OCCUPIED_BY_UNIT a))
    \<and> (\<forall>p. (\<forall>a\<in>set (w_units w). dest a \<noteq> Some p) \<longrightarrow>
         occ w' p = (if \<exists>a\<in>set (w_units w). dest a \<noteq> None \<and> stands_on w a p
                     then Some NOT_OCCUPIED else occ w p))"
proof -
  let ?us = "w_units w"
  note H = winv_heap [OF W] and T = winv_tilemap_wf [OF W]
  let ?w1 = "w\<lparr>w_uheap := reset_heap (set ?us) (w_uheap w)\<rparr>"
  have unit: "\<exists>u. w_uheap w a = Some u \<and> tm_inb (w_map w) (u_pos u)" if "a \<in> set ?us" for a
    using wf_heap_unit [OF H that] by auto
  have reset: "foldM reset_pending ?us w = Some ?w1"
    by (rule reset_fold) (use unit in \<open>metis option.distinct(1)\<close>)
  have st1: "stands_on ?w1 a p = stands_on w a p" for a p
    unfolding stands_on_def reset_heap_def by (cases "w_uheap w a") auto
  have oc1: "occ ?w1 = occ w" by simp
  have unit1: "\<exists>u. w_uheap ?w1 a = Some u \<and> tm_inb (w_map ?w1) (u_pos u)" if "a \<in> set ?us" for a
    using unit [OF that] by (auto simp: reset_heap_def)
  have "\<exists>w2. foldM (leave1 dest) ?us ?w1 = Some w2 \<and> w2 = ?w1\<lparr>w_map := w_map w2\<rparr> \<and> static w2 = static ?w1
    \<and> (\<forall>p. occ w2 p = (if \<exists>a\<in>set ?us. dest a \<noteq> None \<and> stands_on ?w1 a p
          then Some NOT_OCCUPIED else occ ?w1 p))"
  proof (rule leave_effect)
    show "tilemap_wf (w_map ?w1)" using T by simp
    show "\<exists>u. w_uheap ?w1 a = Some u \<and> tm_inb (w_map ?w1) (u_pos u)" if "a \<in> set ?us" for a
      using unit1 [OF that] .
  qed
  then obtain w2 where w2: "foldM (leave1 dest) ?us ?w1 = Some w2" "w2 = ?w1\<lparr>w_map := w_map w2\<rparr>"
    "static w2 = static w"
    "\<And>p. occ w2 p = (if \<exists>a\<in>set ?us. dest a \<noteq> None \<and> stands_on w a p then Some NOT_OCCUPIED else occ w p)"
    unfolding st1 oc1 static_simps by blast
  have u2: "w_uheap w2 = w_uheap ?w1" by (subst w2(2), simp)
  note sf = static_facts [OF w2(3)]
  have target: "tm_inb (w_map w2) p" if "a \<in> set ?us" "dest a = Some p" for a p
  proof -
    have "passable w p" using moves_target(1) moves [OF that(1)] that(2) by blast
    then show ?thesis unfolding passable_def world_tile_def sf(2) using tileOf_inb by blast
  qed
  have inj: "a = c" if "a \<in> set ?us" "c \<in> set ?us" "dest a = Some p" "dest c = Some p" for a c p
    using moves_target(3) [of w c p a] moves [OF that(1), of p] moves [OF that(2), of p] that(3,4) by blast
  have "\<exists>w3. foldM (enter1 dest) ?us w2 = Some w3 \<and> move_frame w2 w3
    \<and> w_uheap w3 = moved_heap dest (set ?us) (w_uheap w2)
    \<and> (\<forall>a\<in>set ?us. \<forall>p. dest a = Some p \<longrightarrow> occ w3 p = Some (OCCUPIED_BY_UNIT a))
    \<and> (\<forall>p. (\<forall>a\<in>set ?us. dest a \<noteq> Some p) \<longrightarrow> occ w3 p = occ w2 p)"
  proof (rule enter_effect)
    show "tilemap_wf (w_map w2)" using T sf(8) by simp
    show "distinct ?us" using wf_heap_distinct(1) [OF H] .
    show "tm_inb (w_map w2) p \<and> (\<exists>u. w_uheap w2 a = Some u \<and> tm_inb (w_map w2) (u_pos u))"
      if "a \<in> set ?us" "dest a = Some p" for a p
      using target [OF that] unit1 [OF that(1)] u2 sf(2) by simp
    show "a = c" if "a \<in> set ?us" "c \<in> set ?us" "dest a = Some p" "dest c = Some p" for a c p
      using inj [OF that] .
  qed
  then obtain w3 where w3: "foldM (enter1 dest) ?us w2 = Some w3" "move_frame w2 w3"
    "w_uheap w3 = moved_heap dest (set ?us) (w_uheap w2)"
    "\<forall>a\<in>set ?us. \<forall>p. dest a = Some p \<longrightarrow> occ w3 p = Some (OCCUPIED_BY_UNIT a)"
    "\<forall>p. (\<forall>a\<in>set ?us. dest a \<noteq> Some p) \<longrightarrow> occ w3 p = occ w2 p" by blast
  have us: "w_units ?w1 = ?us" "w_units w2 = ?us" by (simp, subst w2(2), simp)
  have "execute_moves active tgt w = Some w3"
    unfolding execute_moves_def Let_def reset Option.bind.bind_lunit us leave_fold [OF dest] w2(1)
      enter_fold [OF dest] w3(1) by (rule refl)
  moreover have "move_frame w w3"
  proof -
    obtain m where "w2 = ?w1\<lparr>w_map := m\<rparr>" using w2(2) by blast
    then have "move_frame ?w1 w2" using w2(3) by (simp add: move_frame_def)
    then show ?thesis using w3(2) by (simp add: move_frame_def)
  qed
  moreover have "w_uheap w3 = moved_heap dest (set ?us) (reset_heap (set ?us) (w_uheap w))"
    using w3(3) u2 by simp
  moreover have "\<forall>p. (\<forall>a\<in>set ?us. dest a \<noteq> Some p) \<longrightarrow>
      occ w3 p = (if \<exists>a\<in>set ?us. dest a \<noteq> None \<and> stands_on w a p then Some NOT_OCCUPIED else occ w p)"
    using w3(5) w2(4) by simp
  ultimately show ?thesis using w3(4) by blast
qed

lemma moved_heap_at:
  assumes "w_uheap w a = Some u" "a \<in> A"
  shows "dest a = None \<Longrightarrow>
      moved_heap dest A (reset_heap A (w_uheap w)) a = Some (u\<lparr>u_pending_move := None\<rparr>)"
    "dest a = Some p \<Longrightarrow> moved_heap dest A (reset_heap A (w_uheap w)) a
      = Some (u\<lparr>u_pending_move := None, u_x := fst p, u_y := snd p\<rparr>)"
  using assms by (simp_all add: moved_heap_def reset_heap_def)

lemma moved_heap_Some:
  assumes "moved_heap dest A (reset_heap A uh) a = Some v"
  shows "\<exists>u. uh a = Some u \<and> u_id v = u_id u \<and> u_player v = u_player u \<and> u_health v = u_health u"
  using assms by (auto simp: moved_heap_def reset_heap_def split: if_splits option.splits)

lemma moved_heap_None: "uh a = None \<Longrightarrow> moved_heap dest A (reset_heap A uh) a = None"
  by (simp add: moved_heap_def reset_heap_def split: option.split)

lemma wf_heap_moved:
  assumes W: "winv w" and S: "settled w"
    and moves: "\<And>a p. a \<in> set (w_units w) \<Longrightarrow> dest a = Some p \<longleftrightarrow> moves w a p"
    and occ1: "\<And>a p. a \<in> set (w_units w) \<Longrightarrow> dest a = Some p \<Longrightarrow> oc p = Some (OCCUPIED_BY_UNIT a)"
    and occ2: "\<And>p. (\<forall>a\<in>set (w_units w). dest a \<noteq> Some p) \<Longrightarrow>
         oc p = (if \<exists>a\<in>set (w_units w). dest a \<noteq> None \<and> stands_on w a p
                 then Some NOT_OCCUPIED else occ w p)"
    and dom: "\<And>p. oc p = None \<longleftrightarrow> occ w p = None"
  shows "wf_heap None oc (w_units w)
    (moved_heap dest (set (w_units w)) (reset_heap (set (w_units w)) (w_uheap w)))
    (w_bullets w) (w_bheap w) (slots w) (w_next w)"
proof -
  let ?us = "w_units w"
  let ?uh = "moved_heap dest (set ?us) (reset_heap (set ?us) (w_uheap w))"
  note H = winv_heap [OF W]
  have stands: "occ w p = Some (OCCUPIED_BY_UNIT a)" if "a \<in> set ?us" "stands_on w a p" for a p
    using settled_unit [OF W S that(1)] that(2) unfolding stands_on_def by (metis option.inject)
  have stay: "oc p = occ w p"
    if idle: "\<And>a. occ w p = Some (OCCUPIED_BY_UNIT a) \<Longrightarrow> dest a = None"
      and nf: "occ w p \<noteq> Some NOT_OCCUPIED" for p
  proof -
    have 1: "dest a \<noteq> Some p" if a: "a \<in> set ?us" for a
    proof
      assume d: "dest a = Some p"
      then have m: "moves w a p" using moves [OF a] by blast
      obtain k where k: "occ w p = Some k"
        using moves_target(1) [OF m] by (auto simp: passable_def occ_def)
      show False
      proof (cases k)
        case (OCCUPIED_BY_UNIT c)
        then obtain q where q: "moves w c q" using moves_target(4) [OF m] k by blast
        have "c \<in> set ?us" using moves_target(5) [OF q] .
        then show False using idle [of c] k OCCUPIED_BY_UNIT moves [of c q] q by simp
      qed (use k nf moves_target(2) [OF m] in auto)
    qed
    have 2: "\<not> (dest a \<noteq> None \<and> stands_on w a p)" if "a \<in> set ?us" for a
      using stands [OF that, where p = p] idle [of a] by auto
    then have nomv: "\<not> (\<exists>a\<in>set ?us. dest a \<noteq> None \<and> stands_on w a p)" by blast
    have "\<forall>a\<in>set ?us. dest a \<noteq> Some p" using 1 by blast
    from occ2 [OF this] show ?thesis unfolding if_not_P [OF nomv] .
  qed
  have unmoved: "dest a = None \<and> occ w p = Some (OCCUPIED_BY_UNIT a)"
    if "oc p = Some (OCCUPIED_BY_UNIT a)" "\<forall>c\<in>set ?us. dest c \<noteq> Some p" for a p
  proof -
    have o: "occ w p = Some (OCCUPIED_BY_UNIT a)"
      and n: "\<not> (\<exists>c\<in>set ?us. dest c \<noteq> None \<and> stands_on w c p)"
      using occ2 [OF that(2)] that(1) by (auto split: if_splits)
    have "a \<in> set ?us \<and> stands_on w a p" using wf_heap_occ [OF H o] by (simp add: stands_on_def)
    then show ?thesis using o n by blast
  qed
  show ?thesis
  proof (rule wf_heapI)
    fix a assume a: "a \<in> set ?us"
    obtain u where u: "w_uheap w a = Some u" "occ w (u_pos u) = Some (OCCUPIED_BY_UNIT a)"
      using settled_unit [OF W S a] by blast
    note D = wf_heap_unit' [OF H a u(1)]
    have hl: "u_health u \<noteq> 0" using S a u(1) by (simp add: settled_def)
    show "\<exists>v. ?uh a = Some v \<and> oc (u_pos v) \<noteq> None
          \<and> 1 \<le> unat (u_id v) \<and> unat (u_id v) \<le> max_units
          \<and> (u_health v \<noteq> 0 \<longrightarrow> oc (u_pos v) = Some (OCCUPIED_BY_UNIT a)
               \<and> slots w (u_player v) ! (unat (u_id v) - 1) = Some a)"
    proof (cases "dest a")
      case None
      have "oc (u_pos u) = Some (OCCUPIED_BY_UNIT a)"
        using stay [of "u_pos u"] u(2) None by simp
      then show ?thesis using moved_heap_at(1) [where dest = dest, OF u(1) a None] D hl by simp
    next
      case (Some p)
      then show ?thesis using moved_heap_at(2) [where dest = dest, OF u(1) a Some] D hl occ1 [OF a Some] by simp
    qed
  next
    fix p a assume p: "oc p = Some (OCCUPIED_BY_UNIT a)"
    show "a \<in> set ?us \<and> (\<exists>v. ?uh a = Some v \<and> u_pos v = p)"
    proof (cases "\<exists>c\<in>set ?us. dest c = Some p")
      case True
      then obtain c where c: "c \<in> set ?us" "dest c = Some p" by blast
      then have "c = a" using occ1 [OF c] p by simp
      moreover obtain u where u: "w_uheap w c = Some u" using wf_heap_unit [OF H c(1)] by blast
      ultimately show ?thesis using c moved_heap_at(2) [where dest = dest, OF u c] by simp
    next
      case False
      then have o: "dest a = None" "occ w p = Some (OCCUPIED_BY_UNIT a)" using unmoved [OF p] by blast+
      obtain u where u: "a \<in> set ?us" "w_uheap w a = Some u" "u_pos u = p" using wf_heap_occ [OF H o(2)] by blast
      then show ?thesis using moved_heap_at(1) [where dest = dest, OF u(2,1) o(1)] by simp
    qed
  next
    fix b assume b: "b \<in> set (w_bullets w)"
    show "\<exists>bl. w_bheap w b = Some bl \<and> oc (b_pos bl) \<noteq> None
          \<and> (b_damage bl \<noteq> 0 \<longrightarrow> None \<noteq> Some b \<longrightarrow> oc (b_pos bl) = Some (OCCUPIED_BY_BULLET b))"
    proof -
      obtain bl where bl: "w_bheap w b = Some bl" "occ w (b_pos bl) \<noteq> None"
        "b_damage bl \<noteq> 0 \<Longrightarrow> occ w (b_pos bl) = Some (OCCUPIED_BY_BULLET b)"
        using wf_heap_bullet [OF H b] by blast
      have "oc (b_pos bl) = occ w (b_pos bl)" if "b_damage bl \<noteq> 0"
        using stay [of "b_pos bl"] bl(3) [OF that] by simp
      then have "b_damage bl \<noteq> 0 \<longrightarrow> oc (b_pos bl) = Some (OCCUPIED_BY_BULLET b)"
        using bl(3) by simp
      then show ?thesis using bl(1,2) dom [of "b_pos bl"] by simp
    qed
  next
    fix s i a assume "i < max_units" "slots w s ! i = Some a"
    from wf_heap_slot [OF H this] obtain u where
      u: "a \<in> set ?us" "w_uheap w a = Some u" "u_player u = s" "unat (u_id u) = Suc i" by blast
    then show "a \<in> set ?us \<and> (\<exists>v. ?uh a = Some v \<and> u_player v = s \<and> unat (u_id v) = Suc i)"
      using moved_heap_at [where dest = dest, OF u(2,1)] by (cases "dest a") auto
  next
    fix a a' v v' assume "a \<in> set ?us" "a' \<in> set ?us" "?uh a = Some v" "?uh a' = Some v'"
      "u_player v = u_player v'" "u_id v = u_id v'"
    moreover obtain u where "w_uheap w a = Some u" "u_player v = u_player u" "u_id v = u_id u"
      using moved_heap_Some [OF calculation(3)] by blast
    moreover obtain u' where "w_uheap w a' = Some u'" "u_player v' = u_player u'" "u_id v' = u_id u'"
      using moved_heap_Some [OF calculation(4)] by blast
    ultimately show "a = a'" by (metis wf_heap_unique [OF H, of a a' u u'])
  next
    fix p b assume o: "oc p = Some (OCCUPIED_BY_BULLET b)"
    have "\<forall>c\<in>set ?us. dest c \<noteq> Some p"
    proof (intro ballI notI)
      fix c assume "c \<in> set ?us" "dest c = Some p"
      from occ1 [OF this] o show False by simp
    qed
    note p = occ2 [OF this]
    have "occ w p = Some (OCCUPIED_BY_BULLET b)"
    proof (cases "\<exists>a\<in>set ?us. dest a \<noteq> None \<and> stands_on w a p")
      case True
      then show ?thesis using p o unfolding if_P [OF True] by simp
    next
      case False
      then show ?thesis using p o unfolding if_not_P [OF False] by simp
    qed
    then show "b < w_next w \<and> None \<noteq> Some b \<and> (\<forall>bl. w_bheap w b = Some bl \<longrightarrow> b_pos bl = p)"
      by (rule wf_heap_ref [OF H])
  next
    fix a assume "w_next w \<le> a"
    then show "?uh a = None" by (intro moved_heap_None wf_heap_fresh [OF H])
  qed (use wf_heap_distinct [OF H] wf_heap_fresh(2) [OF H] wf_heap_slots [OF H] in blast)+
qed

lemma execute_moves_winv:
  assumes W: "winv w" and S: "settled w"
    and dest: "plan_dest (w_units w) active tgt dest"
    and moves: "\<And>a p. a \<in> set (w_units w) \<Longrightarrow> dest a = Some p \<longleftrightarrow> moves w a p"
  shows "\<exists>w'. execute_moves active tgt w = Some w' \<and> move_frame w w' \<and> winv w' \<and> settled w'
    \<and> w_uheap w' = moved_heap dest (set (w_units w)) (reset_heap (set (w_units w)) (w_uheap w))"
proof -
  obtain w' where w': "execute_moves active tgt w = Some w'" "move_frame w w'"
    "w_uheap w' = moved_heap dest (set (w_units w)) (reset_heap (set (w_units w)) (w_uheap w))"
    "\<And>a p. a \<in> set (w_units w) \<Longrightarrow> dest a = Some p \<Longrightarrow> occ w' p = Some (OCCUPIED_BY_UNIT a)"
    "\<And>p. (\<forall>a\<in>set (w_units w). dest a \<noteq> Some p) \<Longrightarrow>
         occ w' p = (if \<exists>a\<in>set (w_units w). dest a \<noteq> None \<and> stands_on w a p
                     then Some NOT_OCCUPIED else occ w p)"
    using execute_moves_correct [OF assms] by blast
  have st: "static w' = static w" using w'(2) by (simp add: move_frame_def)
  have fr: "w_units w' = w_units w" "w_bullets w' = w_bullets w" "w_bheap w' = w_bheap w"
    "w_next w' = w_next w" "slots w' = slots w"
    using w'(2) by (simp_all add: move_frame_def slots_def fun_eq_iff)
  have dom: "occ w' p = None \<longleftrightarrow> occ w p = None" for p
    using static_facts(2) [OF st] by simp
  have "winv w'"
    by (rule winv_frame [OF W st], unfold fr w'(3), rule wf_heap_moved [OF W S moves w'(4,5) dom])
  moreover have "settled w'"
    unfolding settled_def fr w'(3)
  proof (intro ballI allI impI)
    fix a v assume a: "a \<in> set (w_units w)"
      "moved_heap dest (set (w_units w)) (reset_heap (set (w_units w)) (w_uheap w)) a = Some v"
    from moved_heap_Some [OF a(2)] show "u_health v \<noteq> 0" using S a(1) by (auto simp: settled_def)
  qed
  ultimately show ?thesis using w'(1-3) by blast
qed

lemma resolve_execute:
  assumes W: "winv w" and S: "settled w"
  shows "\<exists>active tgt w'. resolve_moves w = Some (active, tgt) \<and> execute_moves active tgt w = Some w'
    \<and> move_frame w w' \<and> winv w' \<and> settled w'
    \<and> (\<forall>a u. a \<in> set (w_units w) \<longrightarrow> w_uheap w a = Some u \<longrightarrow>
          (\<forall>p. moves w a p \<longrightarrow>
             w_uheap w' a = Some (u\<lparr>u_pending_move := None, u_x := fst p, u_y := snd p\<rparr>))
          \<and> ((\<forall>p. \<not> moves w a p) \<longrightarrow> w_uheap w' a = Some (u\<lparr>u_pending_move := None\<rparr>)))"
proof -
  let ?us = "w_units w"
  obtain active tgt where r: "resolve_moves w = Some (active, tgt)"
    and 1: "\<And>i. i < length ?us \<Longrightarrow> active ! i \<Longrightarrow> moves w (?us ! i) (tgt ! i)"
    and 2: "\<And>i q. i < length ?us \<Longrightarrow> moves w (?us ! i) q \<Longrightarrow> active ! i \<and> q = tgt ! i"
    using resolve_moves_correct [OF W S] by blast
  define dest where "dest a = (if \<exists>p. moves w a p then Some (SOME p. moves w a p) else None)" for a
  have uniq: "p = q" if "moves w a p" "moves w a q" for a p q
    using that intends_fun unfolding moves_def by blast
  have moves: "dest a = Some p \<longleftrightarrow> moves w a p" for a p
    unfolding dest_def using someI [of "moves w a"] uniq by (metis option.distinct(1) option.inject)
  have none: "dest a = None \<longleftrightarrow> (\<forall>p. \<not> moves w a p)" for a by (simp add: dest_def)
  have "dest (?us ! i) = (if active ! i then Some (tgt ! i) else None)" if "i < length ?us" for i
    using 1 [OF that] 2 [OF that] moves none by auto
  then have pd: "plan_dest ?us active tgt dest" by (simp add: plan_dest_def)
  obtain w' where w': "execute_moves active tgt w = Some w'" "move_frame w w'" "winv w'" "settled w'"
    "w_uheap w' = moved_heap dest (set ?us) (reset_heap (set ?us) (w_uheap w))"
    using execute_moves_winv [OF W S pd moves] by blast
  have "(\<forall>p. moves w a p \<longrightarrow>
             w_uheap w' a = Some (u\<lparr>u_pending_move := None, u_x := fst p, u_y := snd p\<rparr>))
          \<and> ((\<forall>p. \<not> moves w a p) \<longrightarrow> w_uheap w' a = Some (u\<lparr>u_pending_move := None\<rparr>))"
    if "a \<in> set ?us" "w_uheap w a = Some u" for a u
    unfolding w'(5) using moved_heap_at [where dest = dest, OF that(2,1)] moves none by blast
  then show ?thesis using r w'(1-4) by blast
qed

subsection \<open>Cleanup\<close>

lemma wf_heap_clear_dead:
  assumes W: "wf_heap fl oc us uh bs bh sl nx" and u: "a \<in> set us" "uh a = Some u" "u_health u = 0"
  shows "wf_heap fl oc us uh bs bh (sl(u_player u := (sl (u_player u))[unat (u_id u) - 1 := None])) nx"
proof (rule wf_heapI)
  let ?sl = "sl(u_player u := (sl (u_player u))[unat (u_id u) - 1 := None])"
  note A = wf_heap_unit' [OF W u(1,2)]
  fix c assume c: "c \<in> set us"
  obtain v where v: "uh c = Some v" using wf_heap_unit [OF W c] by blast
  note D = wf_heap_unit' [OF W c v]
  have "u_player v = u_player u \<Longrightarrow> unat (u_id v) - 1 \<noteq> unat (u_id u) - 1" if "u_health v \<noteq> 0"
  proof
    assume pl: "u_player v = u_player u" and "unat (u_id v) - 1 = unat (u_id u) - 1"
    then have "u_id v = u_id u" using D(2) A(2) by (simp add: word_unat_eq_iff)
    then show False using wf_heap_unique [OF W c u(1) v u(2) pl] v u that by simp
  qed
  then show "\<exists>v. uh c = Some v \<and> oc (u_pos v) \<noteq> None
          \<and> 1 \<le> unat (u_id v) \<and> unat (u_id v) \<le> max_units
          \<and> (u_health v \<noteq> 0 \<longrightarrow> oc (u_pos v) = Some (OCCUPIED_BY_UNIT c)
               \<and> ?sl (u_player v) ! (unat (u_id v) - 1) = Some c)"
    using v D by (cases "u_player v = u_player u") auto
next
  fix s i c
  assume i: "i < max_units"
    and "(sl(u_player u := (sl (u_player u))[unat (u_id u) - 1 := None])) s ! i = Some c"
  then have "sl s ! i = Some c"
    using wf_heap_slots [OF W, of s]
    by (cases "i = unat (u_id u) - 1") (auto split: if_splits)
  from wf_heap_slot [OF W i this]
  show "c \<in> set us \<and> (\<exists>v. uh c = Some v \<and> u_player v = s \<and> unat (u_id v) = Suc i)" .
next
  fix s show "length ((sl(u_player u := (sl (u_player u))[unat (u_id u) - 1 := None])) s) = max_units"
    using wf_heap_slots [OF W] by simp
qed (use wf_heapD [OF W] in blast)+

definition dead :: "world \<Rightarrow> addr \<Rightarrow> bool" where
  "dead w a \<longleftrightarrow> (\<exists>u. w_uheap w a = Some u \<and> u_health u = 0)"

text \<open>No tile and no player points to the unit.\<close>

definition unlinked :: "world \<Rightarrow> addr \<Rightarrow> bool" where
  "unlinked w a \<longleftrightarrow> (\<forall>p. occ w p \<noteq> Some (OCCUPIED_BY_UNIT a))
     \<and> (\<forall>s. \<forall>i<max_units. slots w s ! i \<noteq> Some a)"

definition cleanup_frame :: "world \<Rightarrow> world \<Rightarrow> bool" where
  "cleanup_frame w w' \<longleftrightarrow>
     static w' = static w \<and> w_tick w' = w_tick w \<and> w_units w' = w_units w \<and> w_uheap w' = w_uheap w
     \<and> w_bullets w' = w_bullets w \<and> w_bheap w' = w_bheap w \<and> w_next w' = w_next w
     \<and> w_reason w' = w_reason w \<and> w_winner w' = w_winner w \<and> w_rng w' = w_rng w
     \<and> (\<forall>s. p_base_energy (w_players w' s) = p_base_energy (w_players w s)
          \<and> p_base_capture_counter (w_players w' s) = p_base_capture_counter (w_players w s))
     \<and> (\<forall>a. unlinked w a \<longrightarrow> unlinked w' a)"

lemma cleanup_frame_trans: "cleanup_frame w w' \<Longrightarrow> cleanup_frame w' w'' \<Longrightarrow> cleanup_frame w w''"
  by (simp add: cleanup_frame_def)

lemma set_slot_total:
  "1 \<le> unat i \<Longrightarrow> unat i \<le> length (slots w s) \<Longrightarrow> set_slot s i p w
     = Some (upd_player s (\<lambda>pl. pl\<lparr>p_units := (p_units pl)[unat i - 1 := p]\<rparr>) w)"
  by (simp add: set_slot_def slots_def)

lemma cleanup_unit_correct:
  assumes W: "winv w" and a: "a \<in> set (w_units w)"
  shows "\<exists>w'. cleanup_unit a w = Some w' \<and> winv w' \<and> cleanup_frame w w' \<and> (dead w a \<longrightarrow> unlinked w' a)"
proof -
  note H = winv_heap [OF W] and T = winv_tilemap_wf [OF W]
  obtain u where u: "w_uheap w a = Some u" using wf_heap_unit [OF H a] by blast
  note D = wf_heap_unit' [OF H a u]
  show ?thesis
  proof (cases "u_health u = 0")
    case False
    then have "cleanup_unit a w = Some w" using u by (simp add: cleanup_unit_def)
    then show ?thesis using W u False by (auto simp: cleanup_frame_def dead_def)
  next
    case True
    define w1 where "w1 = appendLog (unitDestructionLog (w_tick w) (side_id (u_player u)) (u_id u))
      (set_event (\<lambda>e. e\<lparr>ev_unit_destroyed := True\<rparr>) w)"
    define w2 where "w2 = upd_player (u_player u) (\<lambda>pl. pl\<lparr>p_units := (p_units pl)[unat (u_id u) - 1 := None]\<rparr>) w1"
    have w1: "slots w1 = slots w" "occ w1 = occ w" "static w1 = static w" "w_map w1 = w_map w"
      "w_tick w1 = w_tick w"
      by (simp_all add: w1_def appendLog_def set_event_def)
    have s1: "set_slot (u_player u) (u_id u) None w1 = Some w2"
      unfolding w2_def by (rule set_slot_total) (use D wf_heap_slots [OF H] w1 in auto)
    note S = set_slot_Some [OF s1]
    have f2: "w_uheap w2 = w_uheap w" "w_units w2 = w_units w" "w_bullets w2 = w_bullets w"
      "w_bheap w2 = w_bheap w" "w_next w2 = w_next w" "w_map w2 = w_map w" "w_tick w2 = w_tick w"
      "w_reason w2 = w_reason w" "w_winner w2 = w_winner w" "w_rng w2 = w_rng w"
      "p_base_energy (w_players w2 s) = p_base_energy (w_players w s)"
      "p_base_capture_counter (w_players w2 s) = p_base_capture_counter (w_players w s)" for s
      by (simp_all add: w2_def w1_def upd_player_def appendLog_def set_event_def)
    have st2: "static w2 = static w" "occ w2 = occ w" using S w1 by simp_all
    have sl2: "slots w2 = (slots w)(u_player u := (slots w (u_player u))[unat (u_id u) - 1 := None])"
      using S w1 by simp
    have W2: "winv w2"
      by (rule winv_frame [OF W st2(1)], unfold f2 st2 sl2, rule wf_heap_clear_dead [OF H a u True])
    have slot2: "slots w2 s ! i \<noteq> Some a" if "i < max_units" for s i
    proof
      assume h: "slots w2 s ! i = Some a"
      from wf_heap_slot [OF winv_heap [OF W2] that h] have "u_player u = s" "unat (u_id u) = Suc i"
        using u f2(1) by auto
      then show False using h that wf_heap_slots [OF H] by (simp add: sl2)
    qed
    have keep2: "unlinked w2 c" if "unlinked w c" for c
      unfolding unlinked_def st2
    proof (intro conjI allI impI)
      show "occ w p \<noteq> Some (OCCUPIED_BY_UNIT c)" for p using that by (simp add: unlinked_def)
      show "slots w2 s ! i \<noteq> Some c" if i: "i < max_units" for s i
      proof -
        have "slots w s ! i \<noteq> Some c" using \<open>unlinked w c\<close> i by (simp add: unlinked_def)
        then show ?thesis using wf_heap_slots [OF H, of s] i
          by (cases "i = unat (u_id u) - 1") (auto simp: sl2)
      qed
    qed
    obtain k where k: "occ w (u_pos u) = Some k" using D(1) by blast
    then obtain t where t: "world_tile w2 (u_pos u) = Some t" "t_occupant t = k"
    proof -
      have "occ w2 (u_pos u) = Some k" using k st2(2) by simp
      then show thesis using that unfolding occ_def by blast
    qed
    have eval: "cleanup_unit a w = (if k = OCCUPIED_BY_UNIT a then set_occ (u_pos u) NOT_OCCUPIED w2 else Some w2)"
      using u True t s1 by (simp add: cleanup_unit_def Let_def w1_def set_event_def)
    have pos: "p = u_pos u" if "occ w p = Some (OCCUPIED_BY_UNIT a)" for p
      using wf_heap_occ [OF H that] u by simp
    show ?thesis
    proof (cases "k = OCCUPIED_BY_UNIT a")
      case False
      then have "\<forall>p. occ w2 p \<noteq> Some (OCCUPIED_BY_UNIT a)" using pos k st2(2) by auto
      then have "unlinked w2 a" using slot2 by (simp add: unlinked_def)
      moreover have "cleanup_frame w w2" unfolding cleanup_frame_def using f2 st2 keep2 by simp
      ultimately show ?thesis using eval False W2 by simp
    next
      case True
      have "tm_inb (w_map w2) (u_pos u)" using occ_inb [OF k] f2(6) by simp
      then obtain w3 where w3: "set_occ (u_pos u) NOT_OCCUPIED w2 = Some w3"
        using set_occ_None by (metis not_None_eq)
      obtain m where m: "w3 = w2\<lparr>w_map := m\<rparr>" "occ w3 = (occ w2)(u_pos u \<mapsto> NOT_OCCUPIED)"
        "static w3 = static w2"
        using set_occ_Some [OF w3 winv_tilemap_wf [OF W2]] by metis
      have sl3: "slots w3 = slots w2" by (simp add: m(1))
      have o2: "occ w2 (u_pos u) = Some (OCCUPIED_BY_UNIT a)" using k True st2 by simp
      have u2: "w_uheap w2 a = Some u" using u f2 by simp
      have "u\<lparr>u_health := 0\<rparr> = u" using \<open>u_health u = 0\<close> by simp
      then have uh: "(w_uheap w2)(a \<mapsto> u\<lparr>u_health := 0\<rparr>) = w_uheap w2" using u2 by auto
      have sl: "(slots w2)(u_player u := (slots w2 (u_player u))[unat (u_id u) - 1 := None]) = slots w2"
        by (simp add: sl2)
      have "winv w3"
        by (rule winv_frame [OF W2 m(3)], unfold m(2) sl3)
          (use wf_heap_kill_unit [OF winv_heap [OF W2] o2 u2, unfolded uh sl] in \<open>simp add: m(1)\<close>)
      moreover have "unlinked w3 a"
        unfolding unlinked_def sl3 m(2) using pos st2(2) slot2 by auto
      moreover have "cleanup_frame w w3"
        unfolding cleanup_frame_def using f2 st2 m keep2 by (auto simp: unlinked_def sl3)
      ultimately show ?thesis using eval True w3 by simp
    qed
  qed
qed

lemma cleanup_fold:
  assumes "winv w" "set as \<subseteq> set (w_units w)"
  shows "\<exists>w'. foldM cleanup_unit as w = Some w' \<and> winv w' \<and> cleanup_frame w w'
    \<and> (\<forall>a\<in>set as. dead w a \<longrightarrow> unlinked w' a)"
  using assms
proof (induction as arbitrary: w)
  case Nil
  then show ?case by (simp add: cleanup_frame_def)
next
  case (Cons a as)
  obtain w1 where w1: "cleanup_unit a w = Some w1" "winv w1" "cleanup_frame w w1" "dead w a \<longrightarrow> unlinked w1 a"
    using cleanup_unit_correct [OF Cons.prems(1), of a] Cons.prems(2) by auto
  have us: "w_units w1 = w_units w" "w_uheap w1 = w_uheap w" using w1(3) by (simp_all add: cleanup_frame_def)
  obtain w2 where w2: "foldM cleanup_unit as w1 = Some w2" "winv w2" "cleanup_frame w1 w2"
    "\<forall>a\<in>set as. dead w1 a \<longrightarrow> unlinked w2 a"
    using Cons.IH [OF w1(2)] Cons.prems(2) us by auto
  have "dead w1 c = dead w c" for c using us by (simp add: dead_def)
  then have "\<forall>c\<in>set (a # as). dead w c \<longrightarrow> unlinked w2 c"
    using w1(4) w2(3,4) by (auto simp: cleanup_frame_def)
  then show ?case using w1(1) w2(1,2) cleanup_frame_trans [OF w1(3) w2(3)] by auto
qed

text \<open>
  After the cleanup exactly the living units are left, unchanged, and the world is well-formed.
\<close>

lemma cleanup_units_correct:
  assumes W: "winv w"
  shows "\<exists>w'. cleanup_units w = Some w' \<and> winv w' \<and> settled w'
    \<and> w_units w' = filter (\<lambda>a. \<not> dead w a) (w_units w)
    \<and> (\<forall>a\<in>set (w_units w'). w_uheap w' a = w_uheap w a)
    \<and> static w' = static w \<and> w_tick w' = w_tick w \<and> w_bullets w' = w_bullets w \<and> w_bheap w' = w_bheap w
    \<and> w_reason w' = w_reason w \<and> w_winner w' = w_winner w
    \<and> (\<forall>s. p_base_energy (w_players w' s) = p_base_energy (w_players w s)
         \<and> p_base_capture_counter (w_players w' s) = p_base_capture_counter (w_players w s))"
proof -
  obtain w1 where w1: "foldM cleanup_unit (w_units w) w = Some w1" "winv w1" "cleanup_frame w w1"
    "\<forall>a\<in>set (w_units w). dead w a \<longrightarrow> unlinked w1 a"
    using cleanup_fold [OF W] by blast
  have f: "w_units w1 = w_units w" "w_uheap w1 = w_uheap w" "w_bullets w1 = w_bullets w"
    "w_bheap w1 = w_bheap w" "w_next w1 = w_next w"
    using w1(3) by (simp_all add: cleanup_frame_def)
  note H1 = winv_heap [OF w1(2)]
  have ds: "unit_destroyed w1 a = dead w a" for a
    using f by (auto simp: unit_destroyed_def dead_def split: option.splits)
  let ?us = "filter (\<lambda>a. \<not> dead w a) (w_units w)"
  let ?uh = "\<lambda>a. if a \<in> set (w_units w) \<and> dead w a then None else w_uheap w a"
  let ?w2 = "w1\<lparr>w_units := ?us, w_uheap := ?uh\<rparr>"
  have alloc: "list_all (\<lambda>a. w_uheap w1 a \<noteq> None) (w_units w1)"
    using wf_heap_unit [OF H1] by (fastforce simp: list_all_iff)
  have e: "cleanup_units w = Some ?w2"
    unfolding cleanup_units_def w1(1) using alloc by (simp add: erase_units_def ds f cong: if_cong)
  have un: "unlinked w1 a" if "a \<in> set (w_units w)" "dead w a" for a using w1(4) that by blast
  have "wf_heap None (occ w1) ?us ?uh (w_bullets w1) (w_bheap w1) (slots w1) (w_next w1)"
  proof (rule wf_heap_release_units [OF H1])
    show "c \<in> set ?us" if "occ w1 p = Some (OCCUPIED_BY_UNIT c)" for p c
      using wf_heap_occ [OF H1 that] un [of c] that f by (auto simp: unlinked_def)
    show "c \<in> set ?us" if "i < max_units" "slots w1 s ! i = Some c" for s i c
      using wf_heap_slot [OF H1 that] un [of c] that f by (auto simp: unlinked_def)
  qed (use f wf_heap_distinct [OF H1] in auto)
  then have "winv ?w2" by (intro winv_frame [OF w1(2)]) simp_all
  moreover have "settled ?w2" by (auto simp: settled_def dead_def)
  ultimately show ?thesis using e w1(3) by (auto simp: cleanup_frame_def)
qed

subsection \<open>The whole phase\<close>

theorem processUnitMovement_correct:
  assumes W: "winv w"
  shows "\<exists>w1 w'. cleanup_units w = Some w1 \<and> processUnitMovement w = Some w'
    \<and> winv w1 \<and> settled w1 \<and> winv w' \<and> settled w' \<and> move_frame w1 w'
    \<and> (\<forall>a u. a \<in> set (w_units w1) \<longrightarrow> w_uheap w1 a = Some u \<longrightarrow>
          (\<forall>p. moves w1 a p \<longrightarrow>
             w_uheap w' a = Some (u\<lparr>u_pending_move := None, u_x := fst p, u_y := snd p\<rparr>))
          \<and> ((\<forall>p. \<not> moves w1 a p) \<longrightarrow> w_uheap w' a = Some (u\<lparr>u_pending_move := None\<rparr>)))"
proof -
  obtain w1 where w1: "cleanup_units w = Some w1" "winv w1" "settled w1"
    using cleanup_units_correct [OF W] by blast
  from resolve_execute [OF this(2,3)] obtain active tgt w' where
    r: "resolve_moves w1 = Some (active, tgt)" "execute_moves active tgt w1 = Some w'"
    and rest: "move_frame w1 w'" "winv w'" "settled w'"
      "\<forall>a u. a \<in> set (w_units w1) \<longrightarrow> w_uheap w1 a = Some u \<longrightarrow>
          (\<forall>p. moves w1 a p \<longrightarrow>
             w_uheap w' a = Some (u\<lparr>u_pending_move := None, u_x := fst p, u_y := snd p\<rparr>))
          \<and> ((\<forall>p. \<not> moves w1 a p) \<longrightarrow> w_uheap w' a = Some (u\<lparr>u_pending_move := None\<rparr>))"
    by blast
  have "processUnitMovement w = Some w'" by (simp add: processUnitMovement_def w1(1) r)
  then show ?thesis using w1 rest by blast
qed

end
