(* ===== verification/World_Base.thy ===== *)
theory World_Base
  imports World_Movement_Exec
begin

text \<open>
  What happens around the bases (\<open>src/world.cpp\<close>): the capture condition, the energy that units
  gain, and the three base actions of a player's base program, each with its error branches.
\<close>

subsection \<open>Capture\<close>

definition count_unit_in_base :: "world \<Rightarrow> side \<Rightarrow> addr \<Rightarrow> nat \<times> nat \<Rightarrow> (nat \<times> nat) option" where
  "count_unit_in_base w s a = (\<lambda>(own, enemy). do {
     u \<leftarrow> w_uheap w a;
     Some (if u_health u = 0 then (own, enemy)
           else if isInBase w (u_pos u) s
                then (if u_player u = s then (own + 1, enemy) else (own, enemy + 1))
                else (own, enemy))
   })"

definition update_capture_counter :: "side \<Rightarrow> world \<Rightarrow> world option" where
  "update_capture_counter s w = do {
     (own, enemy) \<leftarrow> foldM (count_unit_in_base w s) (w_units w) (0, 0);
     Some (if enemy > own
           then set_event (\<lambda>e. e\<lparr>ev_base_entered_capture_condition := True\<rparr>)
                  (upd_player s (\<lambda>p. p\<lparr>p_base_capture_counter := p_base_capture_counter p + 1\<rparr>) w)
           else upd_player s (\<lambda>p. p\<lparr>p_base_capture_counter := 0\<rparr>) w)
   }"

definition captureVictory :: "side \<Rightarrow> world \<Rightarrow> world option" where
  "captureVictory s w = do {
     w \<leftarrow> markVictory (3 - side_id s) w;
     entry \<leftarrow> baseCapturedLog (w_tick w) (w_winner w);
     Some (appendLog entry w)
   }"

definition checkBaseCaptureCondition :: "world \<Rightarrow> world option" where
  "checkBaseCaptureCondition w =
     (if gameOver w then Some w
      else do {
        w \<leftarrow> foldM update_capture_counter [P1, P2] w;
        let threshold = uint (gr_capture_turn_threshold (w_rules w));
        let counter = (\<lambda>s. p_base_capture_counter (w_players w s));
        if counter P1 = threshold \<and> counter P2 = threshold
        then Some (upd_player P2 (\<lambda>p. p\<lparr>p_base_capture_counter := p_base_capture_counter p - 1\<rparr>)
                    (upd_player P1 (\<lambda>p. p\<lparr>p_base_capture_counter := p_base_capture_counter p - 1\<rparr>) w))
        else if \<not> counter P1 < threshold then captureVictory P1 w
        else if \<not> counter P2 < threshold then captureVictory P2 w
        else Some w
      })"

subsection \<open>Energy gain\<close>

text \<open>
  \<open>gained\<close> is an \<open>energy_t\<close>; the sum is computed in \<open>int\<close> and converted to \<open>energy_t\<close> by the
  call of \<open>std::min<energy_t>\<close>, which is addition of 16-bit words.
\<close>

definition energy_gain :: "world \<Rightarrow> tile \<Rightarrow> energy_t" where
  "energy_gain w t =
     (if gr_natural_energy_rate (w_rules w) \<noteq> 0
         \<and> w_tick w mod ucast (gr_natural_energy_rate (w_rules w)) = 0 then 1 else 0)
     + (if t_is_resource t then ucast (gr_resource_zone_energy_rate (w_rules w)) else 0)"

definition collect_unit_energy :: "addr \<Rightarrow> world \<Rightarrow> world option" where
  "collect_unit_energy a w = do {
     u \<leftarrow> w_uheap w a;
     if u_health u = 0 then Some w
     else do {
       t \<leftarrow> world_tile w (u_pos u);
       upd_unit a (\<lambda>u. u\<lparr>u_energy := min (u_energy u + energy_gain w t) (maxCapacity (w_rules w) u)\<rparr>) w
     }
   }"

definition collectEnergy :: "world \<Rightarrow> world option" where
  "collectEnergy w = foldM collect_unit_energy (w_units w) w"

subsection \<open>Base actions\<close>

text \<open>\<open>player.units[id - 1]\<close>, and the unit behind a pointer that is not null.\<close>

definition slot_of :: "world \<Rightarrow> side \<Rightarrow> u8 \<Rightarrow> addr option" where
  "slot_of w s i = p_units (w_players w s) ! (unat i - 1)"

definition valid_id :: "u8 \<Rightarrow> bool" where
  "valid_id i \<longleftrightarrow> \<not> (i < 1 \<or> unat i > max_units)"

definition manufactureUnit :: "uniform \<Rightarrow> side \<Rightarrow> u8 \<Rightarrow> world \<Rightarrow> (action_result \<times> world) option" where
  "manufactureUnit uniform_int s new_unit_id w =
     (let cost = gr_manufact_cost (w_rules w) in
      if p_base_energy (w_players w s) < cost then Some (INSUFFICIENT_ENERGY, w)
      else if \<not> valid_id new_unit_id then Some (INVALID_ID, w)
      else do {
        alive \<leftarrow> (case slot_of w s new_unit_id of
                    None \<Rightarrow> Some False
                  | Some a \<Rightarrow> map_option (\<lambda>u. u_health u > 0) (w_uheap w a));
        if alive then Some (INVALID_ID, w)
        else do {
          let w = upd_player s (\<lambda>p. p\<lparr>p_base_energy := p_base_energy p - cost\<rparr>) w;
          w \<leftarrow> spawnUnitAtBase uniform_int s new_unit_id w;
          Some (OK, set_event (\<lambda>e. e\<lparr>ev_unit_manufactured := True\<rparr>) w)
        }
      })"

definition repairUnit :: "side \<Rightarrow> u8 \<Rightarrow> world \<Rightarrow> (action_result \<times> world) option" where
  "repairUnit s unit_id w =
     (if \<not> valid_id unit_id then Some (INVALID_ID, w)
      else (case slot_of w s unit_id of
          None \<Rightarrow> Some (INVALID_ID, w)
        | Some a \<Rightarrow> do {
            u \<leftarrow> w_uheap w a;
            if u_health u = 0 then Some (INVALID_ID, w)
            else if \<not> isInBase w (u_pos u) s then Some (INVALID_UNIT, w)
            else
              let max_health = maxHealth (w_rules w) u;
                  missing_health = max_health - u_health u;
                  repair_cost = 2 * ucast missing_health :: energy_t in
              if missing_health = 0 then Some (INVALID_UNIT, w)
              else if p_base_energy (w_players w s) < repair_cost then Some (INSUFFICIENT_ENERGY, w)
              else do {
                let w = upd_player s (\<lambda>p. p\<lparr>p_base_energy := p_base_energy p - repair_cost\<rparr>) w;
                w \<leftarrow> upd_unit a (\<lambda>u. u\<lparr>u_health := max_health\<rparr>) w;
                Some (OK, set_event (\<lambda>e. e\<lparr>ev_unit_upgraded_or_repaired_at_base := True\<rparr>) w)
              }
          }))"

text \<open>The enumerators of \<open>UpgradeType\<close>; the argument of the action is the underlying byte.\<close>

datatype upgrade_type = Capacity | Vision | Damage

definition upgrade_type_of :: "u8 \<Rightarrow> upgrade_type option" where
  "upgrade_type_of t =
     (if t = 0 then Some Capacity else if t = 1 then Some Vision else if t = 2 then Some Damage else None)"

fun upgrade_cost :: "upgrade_type \<Rightarrow> game_rules \<Rightarrow> energy_t" where
  "upgrade_cost Capacity rules = gr_capacity_upgrade_cost rules"
| "upgrade_cost Vision rules = gr_vision_upgrade_cost rules"
| "upgrade_cost Damage rules = gr_damage_upgrade_cost rules"

fun has_upgrade :: "upgrade_type \<Rightarrow> upgrades \<Rightarrow> bool" where
  "has_upgrade Capacity up = up_capacity up"
| "has_upgrade Vision up = up_vision up"
| "has_upgrade Damage up = up_damage up"

fun add_upgrade :: "upgrade_type \<Rightarrow> upgrades \<Rightarrow> upgrades" where
  "add_upgrade Capacity up = up\<lparr>up_capacity := True\<rparr>"
| "add_upgrade Vision up = up\<lparr>up_vision := True\<rparr>"
| "add_upgrade Damage up = up\<lparr>up_damage := True\<rparr>"

definition upgradeUnit :: "side \<Rightarrow> u8 \<Rightarrow> u8 \<Rightarrow> world \<Rightarrow> (action_result \<times> world) option" where
  "upgradeUnit s unit_id type w =
     (if \<not> valid_id unit_id then Some (INVALID_ID, w)
      else (case slot_of w s unit_id of
          None \<Rightarrow> Some (INVALID_ID, w)
        | Some a \<Rightarrow> do {
            u \<leftarrow> w_uheap w a;
            if u_health u = 0 then Some (INVALID_ID, w)
            else if \<not> isInBase w (u_pos u) s then Some (INVALID_UNIT, w)
            else (case upgrade_type_of type of
                None \<Rightarrow> Some (OUT_OF_RANGE, w)
              | Some ty \<Rightarrow>
                  let cost = upgrade_cost ty (w_rules w) in
                  if has_upgrade ty (u_upgrades u) then Some (INVALID_UNIT, w)
                  else if p_base_energy (w_players w s) < cost then Some (INSUFFICIENT_ENERGY, w)
                  else do {
                    let w = upd_player s (\<lambda>p. p\<lparr>p_base_energy := p_base_energy p - cost\<rparr>) w;
                    w \<leftarrow> upd_unit a (\<lambda>u. u\<lparr>u_upgrades := add_upgrade ty (u_upgrades u)\<rparr>) w;
                    Some (OK, set_event (\<lambda>e. e\<lparr>ev_unit_upgraded_or_repaired_at_base := True\<rparr>) w)
                  })
          }))"

subsection \<open>Capture: what the counters mean\<close>

definition living_in_base :: "world \<Rightarrow> side \<Rightarrow> side \<Rightarrow> nat" where
  "living_in_base w s owner = length (filter (\<lambda>a. case w_uheap w a of None \<Rightarrow> False
     | Some u \<Rightarrow> u_health u \<noteq> 0 \<and> u_player u = owner \<and> isInBase w (u_pos u) s) (w_units w))"

text \<open>The capture condition of \<open>docs/rule-spec.md\<close>, "End Game Condition".\<close>

definition in_capture :: "world \<Rightarrow> side \<Rightarrow> bool" where
  "in_capture w s \<longleftrightarrow> living_in_base w s (opponent s) > living_in_base w s s"

definition captured_turns :: "world \<Rightarrow> side \<Rightarrow> int" where
  "captured_turns w s =
     (if in_capture w s then p_base_capture_counter (w_players w s) + 1 else 0)"

lemma count_fold:
  assumes "\<forall>a\<in>set as. w_uheap w a \<noteq> None"
  shows "foldM (count_unit_in_base w s) as (m, n) = Some
    (m + length (filter (\<lambda>a. case w_uheap w a of None \<Rightarrow> False
       | Some u \<Rightarrow> u_health u \<noteq> 0 \<and> u_player u = s \<and> isInBase w (u_pos u) s) as),
     n + length (filter (\<lambda>a. case w_uheap w a of None \<Rightarrow> False
       | Some u \<Rightarrow> u_health u \<noteq> 0 \<and> u_player u = opponent s \<and> isInBase w (u_pos u) s) as))"
  using assms
proof (induction as arbitrary: m n)
  case (Cons a as)
  then obtain u where u: "w_uheap w a = Some u" by auto
  have "u_player u \<noteq> s \<longleftrightarrow> u_player u = opponent s" using side_eq_opponent by metis
  then show ?case using Cons u by (auto simp: count_unit_in_base_def)
qed simp

lemma units_allocated: "winv_in_flight fl w \<Longrightarrow> \<forall>a\<in>set (w_units w). w_uheap w a \<noteq> None"
  using wf_heap_unit [OF winv_heap] by fastforce

lemma update_capture_counter_eq:
  assumes "\<forall>a\<in>set (w_units w). w_uheap w a \<noteq> None"
  shows "update_capture_counter s w = Some
    (let w' = upd_player s (\<lambda>p. p\<lparr>p_base_capture_counter := captured_turns w s\<rparr>) w in
     if in_capture w s then set_event (\<lambda>e. e\<lparr>ev_base_entered_capture_condition := True\<rparr>) w' else w')"
  using count_fold [OF assms, of s 0 0]
  by (simp add: update_capture_counter_def in_capture_def living_in_base_def captured_turns_def
      upd_player_def Let_def)

text \<open>A change of a player that leaves its array and its base's position alone.\<close>

lemma winv_upd_player:
  assumes W: "winv_in_flight fl w"
    and same: "\<And>p. p_units (f p) = p_units p" "\<And>p. p_base_x (f p) = p_base_x p"
      "\<And>p. p_base_y (f p) = p_base_y p"
  shows "winv_in_flight fl (upd_player s f w)" "static (upd_player s f w) = static w"
    "occ (upd_player s f w) = occ w" "slots (upd_player s f w) = slots w"
proof -
  show 1: "static (upd_player s f w) = static w" "occ (upd_player s f w) = occ w"
    "slots (upd_player s f w) = slots w"
    using same
    by (simp_all add: static_def ground_def world_tile_def upd_player_def occ_def slots_def fun_eq_iff)
  show "winv_in_flight fl (upd_player s f w)"
    by (rule winv_frame [OF W 1(1)], unfold 1) (use winv_heap [OF W] in \<open>simp add: upd_player_def\<close>)
qed

lemma winv_set_event: "winv_in_flight fl w \<Longrightarrow> winv_in_flight fl (set_event f w)"
  unfolding set_event_def
  by (rule winv_frame) (use winv_heap in \<open>fastforce simp: winv_in_flight_def\<close>)+

lemma winv_appendLog: "winv_in_flight fl w \<Longrightarrow> winv_in_flight fl (appendLog e w)"
  unfolding appendLog_def
  by (rule winv_frame) (use winv_heap in \<open>fastforce simp: winv_in_flight_def\<close>)+

lemma winv_termination:
  "winv_in_flight fl (w\<lparr>w_winner := n, w_reason := r\<rparr>) = winv_in_flight fl w"
proof -
  have "occ (w\<lparr>w_winner := n, w_reason := r\<rparr>) = occ w" "slots (w\<lparr>w_winner := n, w_reason := r\<rparr>) = slots w"
    by (simp_all add: slots_def occ_def world_tile_def fun_eq_iff)
  then show ?thesis by (simp add: winv_in_flight_def static_ok_def bases_on_map_def)
qed

definition capture_inv :: "world \<Rightarrow> bool" where
  "capture_inv w \<longleftrightarrow> (\<forall>s. 0 \<le> p_base_capture_counter (w_players w s)
     \<and> p_base_capture_counter (w_players w s) < uint (gr_capture_turn_threshold (w_rules w)))"

definition set_counters :: "int \<Rightarrow> int \<Rightarrow> world \<Rightarrow> world" where
  "set_counters c1 c2 w = upd_player P2 (\<lambda>p. p\<lparr>p_base_capture_counter := c2\<rparr>)
     (upd_player P1 (\<lambda>p. p\<lparr>p_base_capture_counter := c1\<rparr>) w)"

lemma set_counters_simps [simp]:
  "p_base_capture_counter (w_players (set_counters c1 c2 w) P1) = c1"
  "p_base_capture_counter (w_players (set_counters c1 c2 w) P2) = c2"
  "w_rules (set_counters c1 c2 w) = w_rules w" "w_reason (set_counters c1 c2 w) = w_reason w"
  "w_winner (set_counters c1 c2 w) = w_winner w" "w_tick (set_counters c1 c2 w) = w_tick w"
  "w_units (set_counters c1 c2 w) = w_units w" "w_uheap (set_counters c1 c2 w) = w_uheap w"
  "w_logs (set_counters c1 c2 w) = w_logs w" "w_bullets (set_counters c1 c2 w) = w_bullets w"
  "w_bheap (set_counters c1 c2 w) = w_bheap w"
  by (simp_all add: set_counters_def upd_player_def)

lemma winv_set_counters: "winv w \<Longrightarrow> winv (set_counters c1 c2 w)"
  unfolding set_counters_def by (intro winv_upd_player(1)) simp_all

definition note_capture :: "world \<Rightarrow> world \<Rightarrow> world" where
  "note_capture w w' = (if in_capture w P1 \<or> in_capture w P2
     then set_event (\<lambda>e. e\<lparr>ev_base_entered_capture_condition := True\<rparr>) w' else w')"

lemma in_capture_cong:
  assumes "w_units w' = w_units w" "w_uheap w' = w_uheap w" "isInBase w' = isInBase w"
  shows "in_capture w' s = in_capture w s"
  unfolding in_capture_def living_in_base_def assms by (rule refl)

lemma update_counters:
  assumes W: "winv w"
  shows "foldM update_capture_counter [P1, P2] w
    = Some (note_capture w (set_counters (captured_turns w P1) (captured_turns w P2) w))"
proof -
  define w0 where "w0 = upd_player P1 (\<lambda>p. p\<lparr>p_base_capture_counter := captured_turns w P1\<rparr>) w"
  define w1 where "w1 = (if in_capture w P1
      then set_event (\<lambda>e. e\<lparr>ev_base_entered_capture_condition := True\<rparr>) w0 else w0)"
  note al = units_allocated [OF W]
  have 1: "update_capture_counter P1 w = Some w1"
    using update_capture_counter_eq [OF al] by (simp add: Let_def w1_def w0_def)
  have base: "isInBase w1 = isInBase w"
    by (simp add: w1_def w0_def isInBase_def upd_player_def set_event_def Let_def fun_eq_iff)
  have f: "w_units w1 = w_units w" "w_uheap w1 = w_uheap w" "w_players w1 P2 = w_players w P2"
    by (simp_all add: w1_def w0_def upd_player_def set_event_def)
  note cap = in_capture_cong [OF f(1,2) base]
  have turns: "captured_turns w1 P2 = captured_turns w P2"
    unfolding captured_turns_def cap f by (rule refl)
  have al1: "\<forall>a\<in>set (w_units w1). w_uheap w1 a \<noteq> None" using al f by simp
  note 2 = update_capture_counter_eq [OF al1, of P2, unfolded cap turns]
  show ?thesis
    unfolding foldM.simps 1 Option.bind.bind_lunit 2
    by (simp add: note_capture_def set_counters_def Let_def set_event_def upd_player_def w1_def w0_def)
qed

text \<open>
  The three outcomes of the check while the match is on: both bases reach the threshold in the
  same turn and the match goes on one turn short of it; one base does and its opponent wins; or
  nothing happens. The counters are the consecutive turns in capture condition.
\<close>

lemma captureVictory_eq:
  "captureVictory s w = Some (appendLog \<lparr>le_tick = w_tick w, le_player_id = side_id s, le_unit_id = 0,
     le_source = SourceSystem, le_type = LogBaseCaptured,
     le_payload = toBytes ([''Base captured, player 1 wins'', ''Base captured, player 2 wins'']
                     ! (unat (side_id (opponent s)) - 1))\<rparr>
     (w\<lparr>w_winner := side_id (opponent s), w_reason := Victory\<rparr>))"
  by (cases s) (simp_all add: captureVictory_def markVictory_def baseCapturedLog_def)

definition capture_outcome :: "world \<Rightarrow> world \<Rightarrow> bool" where
  "capture_outcome w w' \<longleftrightarrow>
     (let T = uint (gr_capture_turn_threshold (w_rules w));
          c1 = captured_turns w P1; c2 = captured_turns w P2;
          counter = (\<lambda>s. p_base_capture_counter (w_players w' s)) in
      (if c1 = T \<and> c2 = T
       then w_reason w' = Ongoing \<and> counter P1 = T - 1 \<and> counter P2 = T - 1
       else if c1 = T then w_reason w' = Victory \<and> w_winner w' = side_id P2
       else if c2 = T then w_reason w' = Victory \<and> w_winner w' = side_id P1
       else w_reason w' = Ongoing \<and> counter P1 = c1 \<and> counter P2 = c2))"

definition capture_frame :: "world \<Rightarrow> world \<Rightarrow> bool" where
  "capture_frame w w' \<longleftrightarrow> w_units w' = w_units w \<and> w_uheap w' = w_uheap w \<and> w_bullets w' = w_bullets w
     \<and> w_bheap w' = w_bheap w \<and> w_rules w' = w_rules w \<and> w_tick w' = w_tick w"

lemma checkBaseCapture_correct:
  assumes W: "winv w" and on: "w_reason w = Ongoing" and C: "capture_inv w"
  shows "\<exists>w'. checkBaseCaptureCondition w = Some w' \<and> winv w' \<and> capture_outcome w w'
    \<and> capture_frame w w' \<and> (w_reason w' = Ongoing \<longrightarrow> capture_inv w')"
proof -
  let ?T = "uint (gr_capture_turn_threshold (w_rules w))"
  let ?c1 = "captured_turns w P1" and ?c2 = "captured_turns w P2"
  let ?w1 = "note_capture w (set_counters ?c1 ?c2 w)"
  have W1: "winv ?w1" unfolding note_capture_def using winv_set_counters [OF W] winv_set_event by simp
  have f: "w_rules ?w1 = w_rules w" "w_reason ?w1 = Ongoing" "w_units ?w1 = w_units w"
    "w_uheap ?w1 = w_uheap w" "w_bullets ?w1 = w_bullets w" "w_bheap ?w1 = w_bheap w"
    "w_tick ?w1 = w_tick w"
    "p_base_capture_counter (w_players ?w1 P1) = ?c1" "p_base_capture_counter (w_players ?w1 P2) = ?c2"
    using on by (simp_all add: note_capture_def set_event_def)
  have ct: "0 \<le> captured_turns w s" "captured_turns w s \<le> ?T" for s
    using C unfolding captured_turns_def capture_inv_def by (force, smt (verit))
  have all: "(\<forall>s. Q s) \<longleftrightarrow> Q P1 \<and> Q P2" for Q by (metis side.exhaust)
  have step: "checkBaseCaptureCondition w =
     (if ?c1 = ?T \<and> ?c2 = ?T
        then Some (upd_player P2 (\<lambda>p. p\<lparr>p_base_capture_counter := p_base_capture_counter p - 1\<rparr>)
                    (upd_player P1 (\<lambda>p. p\<lparr>p_base_capture_counter := p_base_capture_counter p - 1\<rparr>) ?w1))
        else if \<not> ?c1 < ?T then captureVictory P1 ?w1
        else if \<not> ?c2 < ?T then captureVictory P2 ?w1
        else Some ?w1)"
    using on update_counters [OF W] f
    by (simp add: checkBaseCaptureCondition_def gameOver_def Let_def del: foldM.simps)
  consider "?c1 = ?T \<and> ?c2 = ?T" | "?c1 = ?T" "?c2 \<noteq> ?T" | "?c1 < ?T" "?c2 = ?T" | "?c1 < ?T" "?c2 < ?T"
    using ct [of P1] ct [of P2] by linarith
  then show ?thesis
  proof cases
    case 1
    let ?w2 = "upd_player P2 (\<lambda>p. p\<lparr>p_base_capture_counter := p_base_capture_counter p - 1\<rparr>)
                (upd_player P1 (\<lambda>p. p\<lparr>p_base_capture_counter := p_base_capture_counter p - 1\<rparr>) ?w1)"
    have "winv ?w2" by (intro winv_upd_player(1) W1) simp_all
    moreover have g: "w_reason ?w2 = Ongoing" "p_base_capture_counter (w_players ?w2 P1) = ?T - 1"
      "p_base_capture_counter (w_players ?w2 P2) = ?T - 1" "w_rules ?w2 = w_rules w"
      using f 1 by (simp_all add: upd_player_def)
    moreover have "0 \<le> ?T - 1" using ct(1) [of P1] 1 rules_validate_nonzero(3) [of "w_rules w"] W
      by (simp add: winv_in_flight_def static_ok_def) (smt (verit) uint_nonnegative word_neq_0_conv unsigned_eq_0_iff)
    moreover have "capture_frame w ?w2" using f by (simp add: capture_frame_def upd_player_def)
    ultimately show ?thesis
      unfolding step if_P [OF 1] using 1
      by (intro exI [of _ ?w2]) (simp add: capture_outcome_def capture_inv_def all Let_def)
  next
    case 2
    have "winv (appendLog e (?w1\<lparr>w_winner := n, w_reason := Victory\<rparr>))" for e n
      using winv_appendLog winv_termination [where w = ?w1 and r = Victory and n = n] W1 by simp
    then show ?thesis unfolding step captureVictory_eq using 2 f
      by (simp add: capture_outcome_def capture_frame_def appendLog_def)
  next
    case 3
    have "winv (appendLog e (?w1\<lparr>w_winner := n, w_reason := Victory\<rparr>))" for e n
      using winv_appendLog winv_termination [where w = ?w1 and r = Victory and n = n] W1 by simp
    then show ?thesis unfolding step captureVictory_eq using 3 f
      by (simp add: capture_outcome_def capture_frame_def appendLog_def)
  next
    case 4
    then show ?thesis unfolding step using f W1 ct
      by (simp add: capture_outcome_def capture_frame_def capture_inv_def all)
  qed
qed

end
