(* ===== verification/World_Actions.thy ===== *)
theory World_Actions
  imports World_Base
begin

text \<open>
  Correctness of what changes units between movement phases: energy gain, spawning and the three
  base actions. The actions share one contract (the locale \<open>base_action\<close>): a result other than
  \<open>OK\<close> leaves the world as it was, and \<open>OK\<close> takes exactly the price from the player's base and
  keeps the world well-formed.
\<close>

subsection \<open>Bounds of a unit's figures\<close>

definition unit_stats_ok :: "game_rules \<Rightarrow> game_unit \<Rightarrow> bool" where
  "unit_stats_ok rules u \<longleftrightarrow> u_health u \<le> maxHealth rules u \<and> u_energy u \<le> maxCapacity rules u"

definition stats_ok :: "world \<Rightarrow> bool" where
  "stats_ok w \<longleftrightarrow>
     (\<forall>a\<in>set (w_units w). \<forall>u. w_uheap w a = Some u \<longrightarrow> unit_stats_ok (w_rules w) u)"

text \<open>What holds between the phases of a turn.\<close>

definition turn_inv :: "world \<Rightarrow> bool" where
  "turn_inv w \<longleftrightarrow> winv w \<and> settled w \<and> stats_ok w"

lemma turn_invD: "turn_inv w \<Longrightarrow> winv w" "turn_inv w \<Longrightarrow> settled w" "turn_inv w \<Longrightarrow> stats_ok w"
  by (simp_all add: turn_inv_def)

lemma turn_inv_cong:
  assumes "turn_inv w" "winv w'" "w_units w' = w_units w" "w_uheap w' = w_uheap w" "w_rules w' = w_rules w"
  shows "turn_inv w'"
  using assms by (simp add: turn_inv_def settled_def stats_ok_def)

lemma turn_inv_upd_unit:
  assumes I: "turn_inv w" and u: "w_uheap w a = Some u"
    and same: "u_pos u' = u_pos u" "u_id u' = u_id u" "u_player u' = u_player u"
    and alive: "u_health u' \<noteq> 0 \<longleftrightarrow> u_health u \<noteq> 0"
    and stats: "a \<in> set (w_units w) \<Longrightarrow> unit_stats_ok (w_rules w) u \<Longrightarrow> unit_stats_ok (w_rules w) u'"
  shows "turn_inv (w\<lparr>w_uheap := (w_uheap w)(a \<mapsto> u')\<rparr>)"
proof -
  have "winv (w\<lparr>w_uheap := (w_uheap w)(a \<mapsto> u')\<rparr>)"
    by (rule winv_upd_unit [OF turn_invD(1) [OF I] u same]) (use alive in simp)
  then show ?thesis
    using turn_invD(2,3) [OF I] u alive stats by (auto simp: turn_inv_def settled_def stats_ok_def)
qed

lemma turn_inv_upd_player:
  assumes "turn_inv w" "\<And>p. p_units (f p) = p_units p" "\<And>p. p_base_x (f p) = p_base_x p"
    "\<And>p. p_base_y (f p) = p_base_y p"
  shows "turn_inv (upd_player s f w)"
  by (rule turn_inv_cong [OF assms(1) winv_upd_player(1)])
    (use assms turn_invD in \<open>simp_all add: upd_player_def\<close>)

lemma turn_inv_set_event: "turn_inv w \<Longrightarrow> turn_inv (set_event f w)"
  by (rule turn_inv_cong [of w], assumption, rule winv_set_event, erule turn_invD)
    (simp_all add: set_event_def)

lemma turn_inv_appendLog: "turn_inv w \<Longrightarrow> turn_inv (appendLog e w)"
  by (rule turn_inv_cong [of w], assumption, rule winv_appendLog, erule turn_invD)
    (simp_all add: appendLog_def)

subsection \<open>Sizes of logs and messages\<close>

definition payloads_ok :: "world \<Rightarrow> bool" where
  "payloads_ok w \<longleftrightarrow> (\<forall>e\<in>set (w_logs w). length (le_payload e) \<le> 512)"

definition messages_ok :: "world \<Rightarrow> bool" where
  "messages_ok w \<longleftrightarrow> (\<forall>s. \<forall>m\<in>set (p_incoming (w_players w s)) \<union> set (p_outgoing (w_players w s)).
     1 \<le> length (mp_data m) \<and> length (mp_data m) \<le> packet_size
     \<and> mp_length m = word_of_nat (length (mp_data m)))"

definition io_ok :: "world \<Rightarrow> bool" where
  "io_ok w \<longleftrightarrow> payloads_ok w \<and> messages_ok w"

lemma io_ok_simps:
  "io_ok (w\<lparr>w_uheap := uh\<rparr>) = io_ok w"
  "io_ok (upd_player s (\<lambda>p. p\<lparr>p_base_energy := e p\<rparr>) w) = io_ok w"
  "io_ok (set_event f w) = io_ok w"
  by (auto simp: io_ok_def payloads_ok_def messages_ok_def upd_player_def set_event_def)

subsection \<open>Energy gain\<close>

definition gained_heap :: "world \<Rightarrow> addr set \<Rightarrow> addr \<Rightarrow> game_unit option" where
  "gained_heap w A a = (if a \<in> A then map_option (\<lambda>u.
     u\<lparr>u_energy := min (u_energy u + energy_gain w (the (world_tile w (u_pos u)))) (maxCapacity (w_rules w) u)\<rparr>)
     (w_uheap w a) else w_uheap w a)"

lemma maxCapacity_energy [simp]: "maxCapacity r (u\<lparr>u_energy := e\<rparr>) = maxCapacity r u"
  by (simp add: maxCapacity_def)

lemma collect_fold:
  assumes "distinct as"
    "\<And>a. a \<in> set as \<Longrightarrow> \<exists>u t. w_uheap w a = Some u \<and> u_health u \<noteq> 0 \<and> world_tile w (u_pos u) = Some t"
  shows "foldM collect_unit_energy as w = Some (w\<lparr>w_uheap := gained_heap w (set as)\<rparr>)"
  using assms
proof (induction as arbitrary: w)
  case Nil
  then show ?case by (simp add: gained_heap_def)
next
  case (Cons a as)
  obtain u t where u: "w_uheap w a = Some u" "u_health u \<noteq> 0" "world_tile w (u_pos u) = Some t"
    using Cons.prems(2) [of a] by auto
  let ?u = "u\<lparr>u_energy := min (u_energy u + energy_gain w t) (maxCapacity (w_rules w) u)\<rparr>"
  let ?w = "w\<lparr>w_uheap := (w_uheap w)(a \<mapsto> ?u)\<rparr>"
  have at: "world_tile ?w p = world_tile w p" "energy_gain ?w t' = energy_gain w t'" for p t'
    by (simp_all add: world_tile_def energy_gain_def)
  have "foldM collect_unit_energy as ?w = Some (?w\<lparr>w_uheap := gained_heap ?w (set as)\<rparr>)"
  proof (rule Cons.IH)
    show "distinct as" using Cons.prems(1) by simp
    fix c assume c: "c \<in> set as"
    then have "c \<noteq> a" using Cons.prems(1) by auto
    then show "\<exists>u t. w_uheap ?w c = Some u \<and> u_health u \<noteq> 0 \<and> world_tile ?w (u_pos u) = Some t"
      using Cons.prems(2) [of c] c at by simp
  qed
  moreover have "gained_heap ?w (set as) = gained_heap w (set (a # as))"
  proof
    fix c show "gained_heap ?w (set as) c = gained_heap w (set (a # as)) c"
      using Cons.prems(1) u at by (cases "c = a") (simp_all add: gained_heap_def)
  qed
  moreover have "collect_unit_energy a w = Some ?w"
    using u by (simp add: collect_unit_energy_def upd_unit_def)
  ultimately show ?case by simp
qed

lemma collectEnergy_correct:
  assumes I: "turn_inv w"
  shows "collectEnergy w = Some (w\<lparr>w_uheap := gained_heap w (set (w_units w))\<rparr>)"
    "turn_inv (w\<lparr>w_uheap := gained_heap w (set (w_units w))\<rparr>)"
proof -
  let ?w = "w\<lparr>w_uheap := gained_heap w (set (w_units w))\<rparr>"
  note W = turn_invD(1) [OF I] and S = turn_invD(2) [OF I]
  note H = winv_heap [OF W]
  have unit: "\<exists>u t. w_uheap w a = Some u \<and> u_health u \<noteq> 0 \<and> world_tile w (u_pos u) = Some t"
    if a: "a \<in> set (w_units w)" for a
  proof -
    obtain u where "w_uheap w a = Some u" "occ w (u_pos u) = Some (OCCUPIED_BY_UNIT a)" "u_health u \<noteq> 0"
      using settled_unit [OF W S a] by metis
    then show ?thesis unfolding occ_def by auto
  qed
  show "collectEnergy w = Some ?w"
    unfolding collectEnergy_def using collect_fold [OF wf_heap_distinct(1) [OF H] unit] .
  have ex: "\<exists>u. w_uheap w a = Some u \<and> u_pos v = u_pos u \<and> u_id v = u_id u \<and> u_player v = u_player u
      \<and> u_health v = u_health u \<and> (a \<in> set (w_units w) \<longrightarrow> u_energy v \<le> maxCapacity (w_rules w) v)"
    if "gained_heap w (set (w_units w)) a = Some v" for a v
    using that by (auto simp: gained_heap_def split: if_splits)
  have ex': "\<exists>v. gained_heap w (set (w_units w)) a = Some v \<and> u_pos v = u_pos u \<and> u_id v = u_id u
      \<and> u_player v = u_player u \<and> u_health v = u_health u"
    if "w_uheap w a = Some u" for a u
    using that by (simp add: gained_heap_def)
  have none: "gained_heap w (set (w_units w)) a = None" if "w_uheap w a = None" for a
    using that by (simp add: gained_heap_def)
  have "winv ?w"
  proof (rule winv_frame [OF W], simp, simp, rule wf_heapI)
    fix a assume a: "a \<in> set (w_units w)"
    from wf_heap_unit [OF H a] ex'
    show "\<exists>v. gained_heap w (set (w_units w)) a = Some v \<and> occ w (u_pos v) \<noteq> None
       \<and> 1 \<le> unat (u_id v) \<and> unat (u_id v) \<le> max_units
       \<and> (u_health v \<noteq> 0 \<longrightarrow> occ w (u_pos v) = Some (OCCUPIED_BY_UNIT a)
            \<and> slots w (u_player v) ! (unat (u_id v) - 1) = Some a)"
      by metis
  next
    fix p a assume "occ w p = Some (OCCUPIED_BY_UNIT a)"
    from wf_heap_occ [OF H this] ex'
    show "a \<in> set (w_units w) \<and> (\<exists>v. gained_heap w (set (w_units w)) a = Some v \<and> u_pos v = p)" by metis
  next
    fix s i a assume "i < max_units" "slots w s ! i = Some a"
    from wf_heap_slot [OF H this] ex'
    show "a \<in> set (w_units w) \<and> (\<exists>v. gained_heap w (set (w_units w)) a = Some v \<and> u_player v = s
       \<and> unat (u_id v) = Suc i)" by metis
  next
    fix a a' v v' assume "a \<in> set (w_units w)" "a' \<in> set (w_units w)"
      "gained_heap w (set (w_units w)) a = Some v" "gained_heap w (set (w_units w)) a' = Some v'"
      "u_player v = u_player v'" "u_id v = u_id v'"
    moreover obtain u where "w_uheap w a = Some u" "u_player v = u_player u" "u_id v = u_id u"
      using ex [OF calculation(3)] by blast
    moreover obtain u' where "w_uheap w a' = Some u'" "u_player v' = u_player u'" "u_id v' = u_id u'"
      using ex [OF calculation(4)] by blast
    ultimately show "a = a'" by (metis wf_heap_unique [OF H, of a a' u u'])
  next
    fix a assume "w_next w \<le> a"
    then show "gained_heap w (set (w_units w)) a = None" by (intro none wf_heap_fresh [OF H])
  qed (use wf_heap_distinct [OF H] wf_heap_fresh(2) [OF H] wf_heap_slots [OF H] wf_heap_bullet [OF H]
        wf_heap_ref [OF H] in blast)+
  moreover have "settled ?w" using S ex by (fastforce simp: settled_def)
  moreover have "stats_ok ?w"
    unfolding stats_ok_def
  proof (intro ballI allI impI)
    fix a v assume a: "a \<in> set (w_units ?w)" "w_uheap ?w a = Some v"
    then obtain u where u: "w_uheap w a = Some u" "u_health v = u_health u"
      "u_energy v \<le> maxCapacity (w_rules w) v" using ex [of a v] by auto
    then show "unit_stats_ok (w_rules ?w) v"
      using turn_invD(3) [OF I] a(1) by (auto simp: stats_ok_def unit_stats_ok_def maxHealth_def)
  qed
  ultimately show "turn_inv ?w" by (simp add: turn_inv_def)
qed

text \<open>
  With a capacity that leaves room for one turn's gain, the sum does not wrap, and the gain is
  saturating addition.
\<close>

lemma energy_gain_bound: "unat (energy_gain w t) \<le> 256"
proof -
  have "unat (gr_resource_zone_energy_rate (w_rules w)) \<le> 255"
    using unat_u8_lt [of "gr_resource_zone_energy_rate (w_rules w)"] by simp
  then show ?thesis by (auto simp: energy_gain_def unat_word_ariths)
qed

lemma energy_gain_saturates:
  assumes "u_energy u \<le> maxCapacity (w_rules w) u" "unat (maxCapacity (w_rules w) u) \<le> 65535 - 256"
  shows "unat (min (u_energy u + energy_gain w t) (maxCapacity (w_rules w) u))
    = min (unat (u_energy u) + unat (energy_gain w t)) (unat (maxCapacity (w_rules w) u))"
proof -
  have "unat (u_energy u) \<le> unat (maxCapacity (w_rules w) u)" using assms(1) by (simp add: word_le_nat_alt)
  then have "unat (u_energy u) + unat (energy_gain w t) < 65536"
    using assms(2) energy_gain_bound [of w t] by simp
  then have "unat (u_energy u + energy_gain w t) = unat (u_energy u) + unat (energy_gain w t)"
    by (simp add: unat_word_ariths)
  then show ?thesis by (simp add: min_def word_le_nat_alt)
qed

text \<open>The gain in numbers: one at every turn of the natural rate, and the rate of the zone on a resource.\<close>

definition gain_of :: "world \<Rightarrow> tile \<Rightarrow> nat" where
  "gain_of w t =
     (if gr_natural_energy_rate (w_rules w) \<noteq> 0 \<and> unat (w_tick w) mod unat (gr_natural_energy_rate (w_rules w)) = 0 then 1 else 0)
     + (if t_is_resource t then unat (gr_resource_zone_energy_rate (w_rules w)) else 0)"

lemma unat_energy_gain: "unat (energy_gain w t) = gain_of w t"
proof -
  have "w_tick w mod ucast r = 0 \<longleftrightarrow> unat (w_tick w) mod unat r = 0" for r :: u8
    by (simp add: word_unat_eq_iff unat_mod_distrib)
  moreover have "Suc (unat (gr_resource_zone_energy_rate (w_rules w))) < 65536"
    using unat_u8_lt [of "gr_resource_zone_energy_rate (w_rules w)"] by simp
  ultimately show ?thesis by (auto simp: energy_gain_def gain_of_def unat_word_ariths)
qed

lemma collectEnergy_numbers:
  assumes I: "turn_inv w" and cap: "unat (gr_capacity_lv1 (w_rules w)) \<le> 65279" "unat (gr_capacity_lv2 (w_rules w)) \<le> 65279"
    and a: "a \<in> set (w_units w)"
  shows "\<exists>w' u v t. collectEnergy w = Some w' \<and> w_uheap w a = Some u \<and> world_tile w (u_pos u) = Some t
    \<and> w_uheap w' a = Some v
    \<and> unat (u_energy v) = min (unat (u_energy u) + gain_of w t) (unat (maxCapacity (w_rules w) u))"
proof -
  obtain u where u: "w_uheap w a = Some u" "occ w (u_pos u) = Some (OCCUPIED_BY_UNIT a)"
    using settled_unit [OF turn_invD(1,2) [OF I] a] by metis
  then obtain t where t: "world_tile w (u_pos u) = Some t" unfolding occ_def by auto
  have "u_energy u \<le> maxCapacity (w_rules w) u"
    using turn_invD(3) [OF I] a u(1) by (auto simp: stats_ok_def unit_stats_ok_def)
  moreover have "unat (maxCapacity (w_rules w) u) \<le> 65535 - 256" using cap by (simp add: maxCapacity_def)
  ultimately have "unat (min (u_energy u + energy_gain w t) (maxCapacity (w_rules w) u))
      = min (unat (u_energy u) + gain_of w t) (unat (maxCapacity (w_rules w) u))"
    using energy_gain_saturates unat_energy_gain by metis
  then show ?thesis using collectEnergy_correct(1) [OF I] u(1) t a by (auto simp: gained_heap_def)
qed

subsection \<open>Spawning\<close>

definition spawned :: "side \<Rightarrow> u8 \<Rightarrow> pos_t \<times> pos_t \<Rightarrow> world \<Rightarrow> world \<Rightarrow> bool" where
  "spawned s i p w w' \<longleftrightarrow>
     w_units w' = w_units w @ [w_next w]
     \<and> w_uheap w' = (w_uheap w)(w_next w \<mapsto> new_unit i s (fst p) (snd p) (gr_unit_health (w_rules w)))
     \<and> occ w' = (occ w)(p \<mapsto> OCCUPIED_BY_UNIT (w_next w))
     \<and> static w' = static w \<and> w_bullets w' = w_bullets w \<and> w_bheap w' = w_bheap w
     \<and> w_tick w' = w_tick w \<and> w_events w' = w_events w \<and> w_reason w' = w_reason w
     \<and> w_winner w' = w_winner w
     \<and> w_logs w' = w_logs w @ [unitCreationLog (w_tick w) (side_id s) i]
     \<and> slots w' = (slots w)(s := (slots w s)[unat i - 1 := Some (w_next w)])
     \<and> (\<forall>s'. p_base_energy (w_players w' s') = p_base_energy (w_players w s')
          \<and> p_base_capture_counter (w_players w' s') = p_base_capture_counter (w_players w s')
          \<and> p_incoming (w_players w' s') = p_incoming (w_players w s')
          \<and> p_outgoing (w_players w' s') = p_outgoing (w_players w s'))"

lemma spawned_io_ok: "spawned s i p w w' \<Longrightarrow> io_ok w \<Longrightarrow> io_ok w'"
  by (auto simp: spawned_def io_ok_def payloads_ok_def messages_ok_def system_payload_bound)

definition unused_id :: "world \<Rightarrow> side \<Rightarrow> u8 \<Rightarrow> bool" where
  "unused_id w s i \<longleftrightarrow> (\<forall>a\<in>set (w_units w). \<forall>u. w_uheap w a = Some u \<longrightarrow>
     u_player u = s \<longrightarrow> u_id u \<noteq> i)"

lemma spawnUnit_correct:
  assumes I: "turn_inv w" and occ: "occ w p = Some NOT_OCCUPIED" and i: "valid_id i"
    and free: "unused_id w s i"
  shows "\<exists>w'. spawnUnit s i p w = Some w' \<and> turn_inv w' \<and> spawned s i p w w'"
proof -
  note W = turn_invD(1) [OF I]
  note H = winv_heap [OF W]
  let ?u = "new_unit i s (fst p) (snd p) (gr_unit_health (w_rules w))"
  let ?w1 = "w\<lparr>w_next := w_next w + 1, w_uheap := (w_uheap w)(w_next w \<mapsto> ?u)\<rparr>"
  have id: "1 \<le> unat i" "unat i \<le> max_units" using i by (auto simp: valid_id_def word_less_nat_alt)
  obtain w2 where w2: "set_occ p (OCCUPIED_BY_UNIT (w_next w)) ?w1 = Some w2"
    using occ_inb [OF occ] set_occ_None [of p "OCCUPIED_BY_UNIT (w_next w)" ?w1]
    by (cases "set_occ p (OCCUPIED_BY_UNIT (w_next w)) ?w1") auto
  have T1: "tilemap_wf (w_map ?w1)" using winv_tilemap_wf [OF W] by simp
  obtain m where m: "w2 = ?w1\<lparr>w_map := m\<rparr>" "occ w2 = (occ w)(p \<mapsto> OCCUPIED_BY_UNIT (w_next w))"
    "static w2 = static w"
    using set_occ_Some [OF w2 T1] by auto
  let ?w3 = "upd_player s (\<lambda>pl. pl\<lparr>p_units := (p_units pl)[unat i - 1 := Some (w_next w)]\<rparr>) w2"
  have sl: "slots w2 = slots w" by (simp add: m(1))
  have w3: "set_slot s i (Some (w_next w)) w2 = Some ?w3"
    by (rule set_slot_total) (use id wf_heap_slots [OF H] sl in auto)
  note S = set_slot_Some [OF w3]
  let ?w4 = "appendLog (unitCreationLog (w_tick ?w3) (side_id s) i) ?w3"
  let ?w5 = "?w4\<lparr>w_units := w_units ?w4 @ [w_next w]\<rparr>"
  have eval: "spawnUnit s i p w = Some ?w5"
    using w2 w3 by (simp add: spawnUnit_def Let_def)
  have r: "w_rules ?w5 = w_rules w" by (simp add: appendLog_def upd_player_def m(1))
  have sp: "spawned s i p w ?w5"
    using S m sl by (auto simp: spawned_def appendLog_def upd_player_def)
  have nx: "w_next ?w5 = w_next w + 1" by (simp add: appendLog_def upd_player_def m(1))
  have pos: "u_pos ?u = p" by simp
  have "winv ?w5"
  proof (rule winv_frame [OF W])
    show "static ?w5 = static w" using sp by (simp add: spawned_def)
    have "wf_heap None ((occ w)(u_pos ?u \<mapsto> OCCUPIED_BY_UNIT (w_next w))) (w_units w @ [w_next w])
        ((w_uheap w)(w_next w \<mapsto> ?u)) (w_bullets w) (w_bheap w)
        ((slots w)(u_player ?u := (slots w (u_player ?u))[unat (u_id ?u) - 1 := Some (w_next w)])) (w_next w + 1)"
      by (rule wf_heap_spawn [OF H]) (use occ id free in \<open>auto simp: unused_id_def\<close>)
    then show "wf_heap None (occ ?w5) (w_units ?w5) (w_uheap ?w5) (w_bullets ?w5) (w_bheap ?w5)
        (slots ?w5) (w_next ?w5)"
      using sp unfolding spawned_def nx pos new_unit_simps by simp
  qed
  moreover have hp: "gr_unit_health (w_rules w) \<noteq> 0"
    using W rules_validate_nonzero(1) by (auto simp: winv_in_flight_def static_ok_def word_gt_0)
  have "settled ?w5"
    using turn_invD(2) [OF I] sp hp by (auto simp: settled_def spawned_def)
  moreover have "unit_stats_ok (w_rules w) ?u"
    by (simp add: unit_stats_ok_def maxHealth_def)
  then have "stats_ok ?w5"
    using turn_invD(3) [OF I] sp r by (auto simp: stats_ok_def spawned_def)
  ultimately show ?thesis using eval sp by (simp add: turn_inv_def)
qed

lemma base_tiles_on_map:
  assumes "static_ok w" "p \<in> set (base_tiles w s)"
  shows "tm_inb (w_map w) p" "isInBase w p s"
  using assms
  by (auto simp: base_tiles_def Let_def static_ok_def bases_on_map_def tm_inb_def isInBase_def
      dest!: spec [of _ s])

lemma collect_empty_fold:
  assumes "\<And>p. p \<in> set ps \<Longrightarrow> tm_inb (w_map w) p"
  shows "foldM (collect_empty w) ps acc = Some (acc @ filter (\<lambda>p. occ w p = Some NOT_OCCUPIED) ps)"
  using assms
proof (induction ps arbitrary: acc)
  case (Cons p ps)
  then obtain t where t: "world_tile w p = Some t" by (auto simp: world_tile_def tileOf_def)
  then show ?case using Cons by (simp add: collect_empty_def occ_def)
qed simp

definition base_full :: "world \<Rightarrow> side \<Rightarrow> bool" where
  "base_full w s \<longleftrightarrow> (\<forall>p\<in>set (base_tiles w s). occ w p \<noteq> Some NOT_OCCUPIED)"

lemma spawnUnitAtBase_correct:
  assumes I: "turn_inv w" and i: "valid_id i" and free: "unused_id w s i" and U: "uniform_ok uniform_int"
  shows "base_full w s \<Longrightarrow> spawnUnitAtBase uniform_int s i w = None"
    "\<not> base_full w s \<Longrightarrow> \<exists>w' p r. spawnUnitAtBase uniform_int s i w = Some w' \<and> turn_inv w'
       \<and> p \<in> set (base_tiles w s) \<and> occ w p = Some NOT_OCCUPIED \<and> spawned s i p (w\<lparr>w_rng := r\<rparr>) w'"
proof -
  note W = turn_invD(1) [OF I]
  have st: "static_ok w" using W by (simp add: winv_in_flight_def)
  let ?es = "filter (\<lambda>p. occ w p = Some NOT_OCCUPIED) (base_tiles w s)"
  have fold: "foldM (collect_empty w) (base_tiles w s) [] = Some ?es"
    using collect_empty_fold [OF base_tiles_on_map(1) [OF st]] by simp
  have full: "base_full w s \<longleftrightarrow> ?es = []" by (auto simp: base_full_def filter_empty_conv)
  show "spawnUnitAtBase uniform_int s i w = None" if "base_full w s"
    using that fold full by (simp add: spawnUnitAtBase_def)
  assume nf: "\<not> base_full w s"
  obtain k r where k: "uniform_int (length ?es) (w_rng w) = (k, r)" by fastforce
  have "k < length ?es"
    using U k nf full unfolding uniform_ok_def by (metis fst_conv length_greater_0_conv)
  then have p: "?es ! k \<in> set ?es" by (rule nth_mem)
  let ?w = "w\<lparr>w_rng := r\<rparr>"
  have I': "turn_inv ?w"
    by (rule turn_inv_cong [OF I winv_frame [OF W]]) (use winv_heap [OF W] in simp_all)
  have "occ ?w (?es ! k) = Some NOT_OCCUPIED" "unused_id ?w s i"
    using p free by (auto simp: unused_id_def)
  from spawnUnit_correct [OF I' this(1) i this(2)] obtain w' where
    w': "spawnUnit s i (?es ! k) ?w = Some w'" "turn_inv w'" "spawned s i (?es ! k) ?w w'" by blast
  have "spawnUnitAtBase uniform_int s i w = Some w'"
    using fold nf full k w'(1) by (simp add: spawnUnitAtBase_def)
  then show "\<exists>w' p r. spawnUnitAtBase uniform_int s i w = Some w' \<and> turn_inv w'
       \<and> p \<in> set (base_tiles w s) \<and> occ w p = Some NOT_OCCUPIED \<and> spawned s i p (w\<lparr>w_rng := r\<rparr>) w'"
    using w' p by auto
qed

subsection \<open>The contract of a base action\<close>

text \<open>What a system call of a program leaves unchanged in the world.\<close>

definition action_frame :: "world \<Rightarrow> world \<Rightarrow> bool" where
  "action_frame w w' \<longleftrightarrow>
     static w' = static w \<and> w_tick w' = w_tick w \<and> w_bullets w' = w_bullets w
     \<and> w_bheap w' = w_bheap w \<and> w_reason w' = w_reason w \<and> w_winner w' = w_winner w
     \<and> (\<forall>s. p_base_capture_counter (w_players w' s) = p_base_capture_counter (w_players w s))
     \<and> (\<exists>new. w_units w' = w_units w @ new) \<and> (\<exists>es. w_logs w' = w_logs w @ es)"

lemma action_frame_refl [simp]: "action_frame w w"
  by (simp add: action_frame_def)

lemma action_frame_trans: "action_frame w w' \<Longrightarrow> action_frame w' w'' \<Longrightarrow> action_frame w w''"
  unfolding action_frame_def by auto

locale base_action =
  fixes act :: "world \<Rightarrow> (action_result \<times> world) option"
    and s :: side
    and price :: "world \<Rightarrow> energy_t"
  assumes refused: "turn_inv w \<Longrightarrow> act w = Some (r, w') \<Longrightarrow> r \<noteq> OK \<Longrightarrow> w' = w"
    and paid: "turn_inv w \<Longrightarrow> act w = Some (OK, w') \<Longrightarrow>
      price w \<le> p_base_energy (w_players w s)
      \<and> p_base_energy (w_players w' s) = p_base_energy (w_players w s) - price w
      \<and> p_base_energy (w_players w' (opponent s)) = p_base_energy (w_players w (opponent s))"
    and keeps: "turn_inv w \<Longrightarrow> act w = Some (r, w') \<Longrightarrow>
      turn_inv w' \<and> action_frame w w' \<and> (io_ok w \<longrightarrow> io_ok w')"
begin

lemma energy_never_grows:
  assumes "turn_inv w" "act w = Some (r, w')"
  shows "p_base_energy (w_players w' t) \<le> p_base_energy (w_players w t)"
proof (cases "r = OK")
  case True
  then have "p_base_energy (w_players w' s) \<le> p_base_energy (w_players w s)"
    "p_base_energy (w_players w' (opponent s)) = p_base_energy (w_players w (opponent s))"
    using paid assms by (auto simp: word_sub_le)
  moreover have "t = s \<or> t = opponent s" using side_eq_opponent by metis
  ultimately show ?thesis by auto
qed (use refused assms in auto)

text \<open>The price in natural numbers: no underflow.\<close>

lemma paid_nat:
  assumes "turn_inv w" "act w = Some (OK, w')"
  shows "unat (p_base_energy (w_players w s))
    = unat (p_base_energy (w_players w' s)) + unat (price w)"
  using paid [OF assms] by (simp add: unat_minus_le word_le_nat_alt)

end

subsection \<open>The three actions\<close>

lemma slot_unit:
  assumes I: "turn_inv w" and i: "valid_id i"
  shows "slot_of w s i = Some a \<longleftrightarrow>
    a \<in> set (w_units w) \<and> (\<exists>u. w_uheap w a = Some u \<and> u_player u = s \<and> u_id u = i)"
proof
  note H = winv_heap [OF turn_invD(1) [OF I]]
  have id: "1 \<le> unat i" "unat i \<le> max_units" using i by (auto simp: valid_id_def word_less_nat_alt)
  {
    assume "slot_of w s i = Some a"
    then have "slots w s ! (unat i - 1) = Some a" by (simp add: slot_of_def slots_def)
    then obtain u where "a \<in> set (w_units w)" "w_uheap w a = Some u" "u_player u = s"
      "unat (u_id u) = Suc (unat i - 1)"
    proof -
      have "unat i - 1 < max_units" using id by linarith
      then show thesis using that wf_heap_slot [OF H, of "unat i - 1" s a]
          \<open>slots w s ! (unat i - 1) = Some a\<close> by blast
    qed
    then show "a \<in> set (w_units w) \<and> (\<exists>u. w_uheap w a = Some u \<and> u_player u = s \<and> u_id u = i)"
      using id by (simp add: word_unat_eq_iff)
  next
    assume "a \<in> set (w_units w) \<and> (\<exists>u. w_uheap w a = Some u \<and> u_player u = s \<and> u_id u = i)"
    then obtain u where u: "a \<in> set (w_units w)" "w_uheap w a = Some u" "u_player u = s" "u_id u = i" by blast
    have "u_health u \<noteq> 0" using turn_invD(2) [OF I] u by (simp add: settled_def)
    from wf_heap_unit' (5) [OF H u(1,2) this] u show "slot_of w s i = Some a"
      by (simp add: slot_of_def slots_def)
  }
qed

lemma slot_none:
  assumes "turn_inv w" "valid_id i"
  shows "slot_of w s i = None \<longleftrightarrow> unused_id w s i"
proof -
  have "slot_of w s i = None \<longleftrightarrow> (\<forall>a. slot_of w s i \<noteq> Some a)" by auto
  then show ?thesis unfolding slot_unit [OF assms] unused_id_def by blast
qed

lemma slot_alive:
  assumes I: "turn_inv w" and i: "valid_id i" and a: "slot_of w s i = Some a"
  obtains u where "w_uheap w a = Some u" "u_health u \<noteq> 0" "a \<in> set (w_units w)" "u_player u = s" "u_id u = i"
  using slot_unit [OF I i] a turn_invD(2) [OF I] by (auto simp: settled_def)

text \<open>Every branch of \<open>manufactureUnit\<close>.\<close>

theorem manufactureUnit_cases:
  assumes I: "turn_inv w" and U: "uniform_ok uniform_int"
  shows "p_base_energy (w_players w s) < gr_manufact_cost (w_rules w) \<Longrightarrow>
      manufactureUnit uniform_int s i w = Some (INSUFFICIENT_ENERGY, w)"
    "\<not> p_base_energy (w_players w s) < gr_manufact_cost (w_rules w) \<Longrightarrow>
      \<not> valid_id i \<or> \<not> unused_id w s i \<Longrightarrow>
      manufactureUnit uniform_int s i w = Some (INVALID_ID, w)"
    "\<not> p_base_energy (w_players w s) < gr_manufact_cost (w_rules w) \<Longrightarrow>
      valid_id i \<Longrightarrow> unused_id w s i \<Longrightarrow> base_full w s \<Longrightarrow>
      manufactureUnit uniform_int s i w = None"
    "\<not> p_base_energy (w_players w s) < gr_manufact_cost (w_rules w) \<Longrightarrow>
      valid_id i \<Longrightarrow> unused_id w s i \<Longrightarrow> \<not> base_full w s \<Longrightarrow>
      \<exists>w' p. manufactureUnit uniform_int s i w = Some (OK, w') \<and> turn_inv w'
        \<and> p \<in> set (base_tiles w s) \<and> occ w p = Some NOT_OCCUPIED
        \<and> w_units w' = w_units w @ [w_next w]
        \<and> w_uheap w' = (w_uheap w)(w_next w \<mapsto> new_unit i s (fst p) (snd p) (gr_unit_health (w_rules w)))
        \<and> p_base_energy (w_players w' s) = p_base_energy (w_players w s) - gr_manufact_cost (w_rules w)
        \<and> p_base_energy (w_players w' (opponent s)) = p_base_energy (w_players w (opponent s))
        \<and> action_frame w w' \<and> (io_ok w \<longrightarrow> io_ok w')"
proof -
  let ?cost = "gr_manufact_cost (w_rules w)"
  show "manufactureUnit uniform_int s i w = Some (INSUFFICIENT_ENERGY, w)"
    if "p_base_energy (w_players w s) < ?cost"
    using that by (simp add: manufactureUnit_def)
  assume e: "\<not> p_base_energy (w_players w s) < ?cost"
  show "manufactureUnit uniform_int s i w = Some (INVALID_ID, w)" if bad: "\<not> valid_id i \<or> \<not> unused_id w s i"
  proof (cases "valid_id i")
    case True
    then obtain a where a: "slot_of w s i = Some a" using bad slot_none [OF I True] by auto
    from slot_alive [OF I True a] obtain u where "w_uheap w a = Some u" "u_health u \<noteq> 0" by metis
    then show ?thesis using e True a by (simp add: manufactureUnit_def Let_def word_gt_0)
  qed (use e in \<open>simp add: manufactureUnit_def Let_def\<close>)
  assume i: "valid_id i" and free: "unused_id w s i"
  let ?w1 = "upd_player s (\<lambda>p. p\<lparr>p_base_energy := p_base_energy p - ?cost\<rparr>) w"
  have eval: "manufactureUnit uniform_int s i w = do {
      w \<leftarrow> spawnUnitAtBase uniform_int s i ?w1;
      Some (OK, set_event (\<lambda>e. e\<lparr>ev_unit_manufactured := True\<rparr>) w) }"
  proof -
    have "slot_of w s i = None" using free slot_none [OF I i] by blast
    then show ?thesis using e i by (simp add: manufactureUnit_def Let_def)
  qed
  have I1: "turn_inv ?w1" by (rule turn_inv_upd_player [OF I]) simp_all
  note P = winv_upd_player [OF turn_invD(1) [OF I],
      of "\<lambda>p. p\<lparr>p_base_energy := p_base_energy p - ?cost\<rparr>" s, simplified]
  have free1: "unused_id ?w1 s i" using free by (simp add: unused_id_def upd_player_def)
  have tiles: "base_tiles ?w1 s = base_tiles w s" using static_facts(5) [OF P(2)] by simp
  have full: "base_full ?w1 s = base_full w s" by (simp add: base_full_def tiles P(3))
  note S = spawnUnitAtBase_correct [OF I1 i free1 U]
  show "manufactureUnit uniform_int s i w = None" if "base_full w s"
    using S(1) that full eval by simp
  assume "\<not> base_full w s"
  then obtain w2 p r where w2: "spawnUnitAtBase uniform_int s i ?w1 = Some w2" "turn_inv w2"
    "p \<in> set (base_tiles w s)" "occ w p = Some NOT_OCCUPIED" "spawned s i p (?w1\<lparr>w_rng := r\<rparr>) w2"
    using S(2) full tiles P(3) by auto
  let ?w3 = "set_event (\<lambda>e. e\<lparr>ev_unit_manufactured := True\<rparr>) w2"
  have "turn_inv ?w3" using w2(2) by (rule turn_inv_set_event)
  moreover have "w_units ?w3 = w_units w @ [w_next w]"
    "w_uheap ?w3 = (w_uheap w)(w_next w \<mapsto> new_unit i s (fst p) (snd p) (gr_unit_health (w_rules w)))"
    "p_base_energy (w_players ?w3 s) = p_base_energy (w_players w s) - ?cost"
    "p_base_energy (w_players ?w3 (opponent s)) = p_base_energy (w_players w (opponent s))"
    using w2(5) by (simp_all add: spawned_def set_event_def upd_player_def)
  moreover have "action_frame w ?w3"
    using w2(5) P(2) by (simp add: action_frame_def spawned_def set_event_def upd_player_def)
  moreover have "io_ok w \<longrightarrow> io_ok ?w3"
  proof
    assume "io_ok w"
    then have "io_ok (?w1\<lparr>w_rng := r\<rparr>)"
      by (auto simp: io_ok_def payloads_ok_def messages_ok_def upd_player_def)
    from spawned_io_ok [OF w2(5) this] show "io_ok ?w3" by (simp add: io_ok_simps)
  qed
  ultimately show "\<exists>w' p. manufactureUnit uniform_int s i w = Some (OK, w') \<and> turn_inv w'
        \<and> p \<in> set (base_tiles w s) \<and> occ w p = Some NOT_OCCUPIED
        \<and> w_units w' = w_units w @ [w_next w]
        \<and> w_uheap w' = (w_uheap w)(w_next w \<mapsto> new_unit i s (fst p) (snd p) (gr_unit_health (w_rules w)))
        \<and> p_base_energy (w_players w' s) = p_base_energy (w_players w s) - ?cost
        \<and> p_base_energy (w_players w' (opponent s)) = p_base_energy (w_players w (opponent s))
        \<and> action_frame w w' \<and> (io_ok w \<longrightarrow> io_ok w')"
    using w2(1,3,4) eval by (intro exI [of _ ?w3] exI [of _ p]) simp
qed

text \<open>The unit an action is about, when the action gets past its checks on the id and the place.\<close>

definition target_unit :: "world \<Rightarrow> side \<Rightarrow> u8 \<Rightarrow> addr \<Rightarrow> game_unit \<Rightarrow> bool" where
  "target_unit w s i a u \<longleftrightarrow> valid_id i \<and> a \<in> set (w_units w) \<and> w_uheap w a = Some u
     \<and> u_player u = s \<and> u_id u = i"

lemma target_unit_slot:
  assumes "turn_inv w" "target_unit w s i a u"
  shows "valid_id i" "slot_of w s i = Some a" "w_uheap w a = Some u" "u_health u \<noteq> 0"
  using assms slot_unit [OF assms(1), of i s a] turn_invD(2) [OF assms(1)]
  by (auto simp: target_unit_def settled_def)

definition pay_and_upd :: "side \<Rightarrow> energy_t \<Rightarrow> addr \<Rightarrow> (game_unit \<Rightarrow> game_unit) \<Rightarrow> world \<Rightarrow> world \<Rightarrow> bool" where
  "pay_and_upd s cost a f w w' \<longleftrightarrow>
     w_uheap w' = (w_uheap w)(a := map_option f (w_uheap w a)) \<and> w_units w' = w_units w
     \<and> p_base_energy (w_players w' s) = p_base_energy (w_players w s) - cost
     \<and> p_base_energy (w_players w' (opponent s)) = p_base_energy (w_players w (opponent s))
     \<and> turn_inv w' \<and> action_frame w w' \<and> (io_ok w \<longrightarrow> io_ok w')"

lemma pay_and_upd_correct:
  assumes I: "turn_inv w" and u: "w_uheap w a = Some u"
    and f: "u_pos (f u) = u_pos u" "u_id (f u) = u_id u" "u_player (f u) = u_player u"
      "u_health (f u) \<noteq> 0 \<longleftrightarrow> u_health u \<noteq> 0"
      "unit_stats_ok (w_rules w) u \<Longrightarrow> unit_stats_ok (w_rules w) (f u)"
  shows "\<exists>w'. (do {
      w \<leftarrow> upd_unit a f (upd_player s (\<lambda>p. p\<lparr>p_base_energy := p_base_energy p - cost\<rparr>) w);
      Some (OK, set_event (\<lambda>e. e\<lparr>ev_unit_upgraded_or_repaired_at_base := True\<rparr>) w) }) = Some (OK, w')
    \<and> pay_and_upd s cost a f w w'"
proof -
  let ?w1 = "upd_player s (\<lambda>p. p\<lparr>p_base_energy := p_base_energy p - cost\<rparr>) w"
  have I1: "turn_inv ?w1" by (rule turn_inv_upd_player [OF I]) simp_all
  note P = winv_upd_player [OF turn_invD(1) [OF I],
      of "\<lambda>p. p\<lparr>p_base_energy := p_base_energy p - cost\<rparr>" s, simplified]
  have u1: "w_uheap ?w1 a = Some u" "w_rules ?w1 = w_rules w" using u by (simp_all add: upd_player_def)
  let ?w2 = "?w1\<lparr>w_uheap := (w_uheap ?w1)(a \<mapsto> f u)\<rparr>"
  let ?w3 = "set_event (\<lambda>e. e\<lparr>ev_unit_upgraded_or_repaired_at_base := True\<rparr>) ?w2"
  have "turn_inv ?w2"
    by (rule turn_inv_upd_unit [OF I1 u1(1) f(1-4)]) (use f(5) u1(2) in simp)
  then have "turn_inv ?w3" by (rule turn_inv_set_event)
  moreover have "action_frame w ?w3" using P(2) by (simp add: action_frame_def set_event_def upd_player_def)
  moreover have "io_ok w \<longrightarrow> io_ok ?w3" by (simp add: io_ok_simps)
  ultimately have "pay_and_upd s cost a f w ?w3"
    using u by (simp add: pay_and_upd_def set_event_def upd_player_def fun_upd_def)
  then show ?thesis using u1(1) by (intro exI [of _ ?w3]) (simp add: upd_unit_def)
qed

definition repair_cost :: "world \<Rightarrow> game_unit \<Rightarrow> energy_t" where
  "repair_cost w u = 2 * ucast (maxHealth (w_rules w) u - u_health u)"

theorem repairUnit_cases:
  assumes I: "turn_inv w"
  shows "(\<forall>a u. \<not> target_unit w s i a u) \<Longrightarrow> repairUnit s i w = Some (INVALID_ID, w)"
    "target_unit w s i a u \<Longrightarrow> \<not> isInBase w (u_pos u) s \<or> u_health u = maxHealth (w_rules w) u \<Longrightarrow>
      repairUnit s i w = Some (INVALID_UNIT, w)"
    "target_unit w s i a u \<Longrightarrow> isInBase w (u_pos u) s \<Longrightarrow> u_health u \<noteq> maxHealth (w_rules w) u \<Longrightarrow>
      p_base_energy (w_players w s) < repair_cost w u \<Longrightarrow>
      repairUnit s i w = Some (INSUFFICIENT_ENERGY, w)"
    "target_unit w s i a u \<Longrightarrow> isInBase w (u_pos u) s \<Longrightarrow> u_health u \<noteq> maxHealth (w_rules w) u \<Longrightarrow>
      \<not> p_base_energy (w_players w s) < repair_cost w u \<Longrightarrow>
      \<exists>w'. repairUnit s i w = Some (OK, w')
        \<and> pay_and_upd s (repair_cost w u) a (\<lambda>u. u\<lparr>u_health := maxHealth (w_rules w) u\<rparr>) w w'"
proof -
  show "repairUnit s i w = Some (INVALID_ID, w)" if no: "\<forall>a u. \<not> target_unit w s i a u"
  proof (cases "valid_id i")
    case True
    have "unused_id w s i" using no True unfolding target_unit_def unused_id_def by blast
    then have "slot_of w s i = None" using slot_none [OF I True] by blast
    then show ?thesis using True by (simp add: repairUnit_def)
  qed (simp add: repairUnit_def)
  assume t: "target_unit w s i a u"
  note T = target_unit_slot [OF I t]
  have mh: "maxHealth (w_rules w) u \<noteq> 0"
    using turn_invD(1) [OF I] rules_validate_nonzero(1)
    by (auto simp: winv_in_flight_def static_ok_def maxHealth_def word_gt_0)
  show "repairUnit s i w = Some (INVALID_UNIT, w)"
    if "\<not> isInBase w (u_pos u) s \<or> u_health u = maxHealth (w_rules w) u"
    using that T by (auto simp: repairUnit_def Let_def)
  assume b: "isInBase w (u_pos u) s" and h: "u_health u \<noteq> maxHealth (w_rules w) u"
  show "repairUnit s i w = Some (INSUFFICIENT_ENERGY, w)"
    if "p_base_energy (w_players w s) < repair_cost w u"
    using that T b h by (simp add: repairUnit_def Let_def repair_cost_def)
  assume e: "\<not> p_base_energy (w_players w s) < repair_cost w u"
  have f: "(\<lambda>u. u\<lparr>u_health := maxHealth (w_rules w) u\<rparr>) = (\<lambda>u'. u'\<lparr>u_health := maxHealth (w_rules w) u\<rparr>)"
    by (simp add: maxHealth_def)
  have "repairUnit s i w = do {
      w \<leftarrow> upd_unit a (\<lambda>u'. u'\<lparr>u_health := maxHealth (w_rules w) u\<rparr>)
             (upd_player s (\<lambda>p. p\<lparr>p_base_energy := p_base_energy p - repair_cost w u\<rparr>) w);
      Some (OK, set_event (\<lambda>e. e\<lparr>ev_unit_upgraded_or_repaired_at_base := True\<rparr>) w) }"
    using T b h e by (simp add: repairUnit_def Let_def repair_cost_def)
  moreover have "unit_stats_ok (w_rules w) u \<Longrightarrow>
      unit_stats_ok (w_rules w) (u\<lparr>u_health := maxHealth (w_rules w) u\<rparr>)"
    by (simp add: unit_stats_ok_def maxHealth_def maxCapacity_def)
  ultimately show "\<exists>w'. repairUnit s i w = Some (OK, w')
        \<and> pay_and_upd s (repair_cost w u) a (\<lambda>u. u\<lparr>u_health := maxHealth (w_rules w) u\<rparr>) w w'"
    unfolding f
    using pay_and_upd_correct [OF I T(3), of "\<lambda>u'. u'\<lparr>u_health := maxHealth (w_rules w) u\<rparr>" s "repair_cost w u"]
      T(4) mh by simp
qed

lemma repair_cost_nat:
  assumes "u_health u \<le> maxHealth (w_rules w) u"
  shows "unat (repair_cost w u) = 2 * (unat (maxHealth (w_rules w) u) - unat (u_health u))"
proof -
  have "unat (maxHealth (w_rules w) u - u_health u) = unat (maxHealth (w_rules w) u) - unat (u_health u)"
    using assms by (rule unat_minus_le)
  moreover have "unat (maxHealth (w_rules w) u) < 256" by (rule unat_u8_lt)
  ultimately show ?thesis by (simp add: repair_cost_def unat_word_ariths)
qed

theorem upgradeUnit_cases:
  assumes I: "turn_inv w"
  shows "(\<forall>a u. \<not> target_unit w s i a u) \<Longrightarrow> upgradeUnit s i type w = Some (INVALID_ID, w)"
    "target_unit w s i a u \<Longrightarrow> \<not> isInBase w (u_pos u) s \<Longrightarrow>
      upgradeUnit s i type w = Some (INVALID_UNIT, w)"
    "target_unit w s i a u \<Longrightarrow> isInBase w (u_pos u) s \<Longrightarrow> upgrade_type_of type = None \<Longrightarrow>
      upgradeUnit s i type w = Some (OUT_OF_RANGE, w)"
    "target_unit w s i a u \<Longrightarrow> isInBase w (u_pos u) s \<Longrightarrow> upgrade_type_of type = Some ty \<Longrightarrow>
      has_upgrade ty (u_upgrades u) \<Longrightarrow> upgradeUnit s i type w = Some (INVALID_UNIT, w)"
    "target_unit w s i a u \<Longrightarrow> isInBase w (u_pos u) s \<Longrightarrow> upgrade_type_of type = Some ty \<Longrightarrow>
      \<not> has_upgrade ty (u_upgrades u) \<Longrightarrow> p_base_energy (w_players w s) < upgrade_cost ty (w_rules w) \<Longrightarrow>
      upgradeUnit s i type w = Some (INSUFFICIENT_ENERGY, w)"
    "target_unit w s i a u \<Longrightarrow> isInBase w (u_pos u) s \<Longrightarrow> upgrade_type_of type = Some ty \<Longrightarrow>
      \<not> has_upgrade ty (u_upgrades u) \<Longrightarrow> \<not> p_base_energy (w_players w s) < upgrade_cost ty (w_rules w) \<Longrightarrow>
      \<exists>w'. upgradeUnit s i type w = Some (OK, w')
        \<and> pay_and_upd s (upgrade_cost ty (w_rules w)) a (\<lambda>u. u\<lparr>u_upgrades := add_upgrade ty (u_upgrades u)\<rparr>) w w'"
proof -
  show "upgradeUnit s i type w = Some (INVALID_ID, w)" if no: "\<forall>a u. \<not> target_unit w s i a u"
  proof (cases "valid_id i")
    case True
    have "unused_id w s i" using no True unfolding target_unit_def unused_id_def by blast
    then have "slot_of w s i = None" using slot_none [OF I True] by blast
    then show ?thesis using True by (simp add: upgradeUnit_def)
  qed (simp add: upgradeUnit_def)
  assume t: "target_unit w s i a u"
  note T = target_unit_slot [OF I t]
  show "upgradeUnit s i type w = Some (INVALID_UNIT, w)" if "\<not> isInBase w (u_pos u) s"
    using that T by (simp add: upgradeUnit_def)
  assume b: "isInBase w (u_pos u) s"
  show "upgradeUnit s i type w = Some (OUT_OF_RANGE, w)" if "upgrade_type_of type = None"
    using that T b by (simp add: upgradeUnit_def)
  assume ty: "upgrade_type_of type = Some ty"
  show "upgradeUnit s i type w = Some (INVALID_UNIT, w)" if "has_upgrade ty (u_upgrades u)"
    using that T b ty by (simp add: upgradeUnit_def)
  assume h: "\<not> has_upgrade ty (u_upgrades u)"
  show "upgradeUnit s i type w = Some (INSUFFICIENT_ENERGY, w)"
    if "p_base_energy (w_players w s) < upgrade_cost ty (w_rules w)"
    using that T b ty h by (simp add: upgradeUnit_def Let_def)
  assume e: "\<not> p_base_energy (w_players w s) < upgrade_cost ty (w_rules w)"
  let ?f = "\<lambda>u. u\<lparr>u_upgrades := add_upgrade ty (u_upgrades u)\<rparr>"
  have eval: "upgradeUnit s i type w = do {
      w \<leftarrow> upd_unit a ?f (upd_player s (\<lambda>p. p\<lparr>p_base_energy := p_base_energy p - upgrade_cost ty (w_rules w)\<rparr>) w);
      Some (OK, set_event (\<lambda>e. e\<lparr>ev_unit_upgraded_or_repaired_at_base := True\<rparr>) w) }"
    using T b ty h e by (simp add: upgradeUnit_def Let_def)
  have cap: "gr_capacity_lv1 (w_rules w) \<le> gr_capacity_lv2 (w_rules w)"
    using turn_invD(1) [OF I] rules_validate_nonzero(8) by (auto simp: winv_in_flight_def static_ok_def)
  then have mono: "maxCapacity (w_rules w) u \<le> maxCapacity (w_rules w) (?f u)"
    by (cases ty) (auto simp: maxCapacity_def)
  have "unit_stats_ok (w_rules w) (?f u)" if "unit_stats_ok (w_rules w) u"
    using that mono by (auto simp: unit_stats_ok_def maxHealth_def)
  then show "\<exists>w'. upgradeUnit s i type w = Some (OK, w') \<and> pay_and_upd s (upgrade_cost ty (w_rules w)) a ?f w w'"
    unfolding eval by (intro pay_and_upd_correct [OF I T(3)]) simp_all
qed

subsection \<open>The actions fulfil the contract\<close>

lemma manufactureUnit_result:
  assumes I: "turn_inv w" and U: "uniform_ok uniform_int"
    and r: "manufactureUnit uniform_int s i w = Some (r, w')"
  shows "(r \<noteq> OK \<and> w' = w) \<or>
    (r = OK \<and> gr_manufact_cost (w_rules w) \<le> p_base_energy (w_players w s) \<and> turn_inv w' \<and> action_frame w w'
     \<and> (io_ok w \<longrightarrow> io_ok w') \<and> p_base_energy (w_players w' s) = p_base_energy (w_players w s) - gr_manufact_cost (w_rules w)
     \<and> p_base_energy (w_players w' (opponent s)) = p_base_energy (w_players w (opponent s)))"
proof -
  note C = manufactureUnit_cases [OF I U, of s]
  consider "p_base_energy (w_players w s) < gr_manufact_cost (w_rules w)"
    | "\<not> p_base_energy (w_players w s) < gr_manufact_cost (w_rules w)" "\<not> valid_id i \<or> \<not> unused_id w s i"
    | "\<not> p_base_energy (w_players w s) < gr_manufact_cost (w_rules w)" "valid_id i" "unused_id w s i"
      "\<not> base_full w s"
    using C(3) r by fastforce
  then show ?thesis
  proof cases
    case 1
    then show ?thesis using C(1) [OF 1] r by simp
  next
    case 2
    then show ?thesis using C(2) [OF 2] r by simp
  next
    case 3
    then show ?thesis using C(4) [OF 3] r by auto
  qed
qed

definition repair_price :: "side \<Rightarrow> u8 \<Rightarrow> world \<Rightarrow> energy_t" where
  "repair_price s i w = (case slot_of w s i of None \<Rightarrow> 0
     | Some a \<Rightarrow> (case w_uheap w a of None \<Rightarrow> 0 | Some u \<Rightarrow> repair_cost w u))"

lemma repairUnit_result:
  assumes I: "turn_inv w" and r: "repairUnit s i w = Some (r, w')"
  shows "(r \<noteq> OK \<and> w' = w) \<or>
    (r = OK \<and> repair_price s i w \<le> p_base_energy (w_players w s)
     \<and> (\<exists>a f. pay_and_upd s (repair_price s i w) a f w w'))"
proof (cases "\<exists>a u. target_unit w s i a u")
  case False
  then show ?thesis using repairUnit_cases(1) [OF I, of s i] r by auto
next
  case True
  then obtain a u where t: "target_unit w s i a u" by blast
  note C = repairUnit_cases(2-4) [OF I t]
  have price: "repair_price s i w = repair_cost w u"
    using target_unit_slot [OF I t] by (simp add: repair_price_def)
  show ?thesis
  proof (cases "\<not> isInBase w (u_pos u) s \<or> u_health u = maxHealth (w_rules w) u")
    case True
    then show ?thesis using C(1) r by simp
  next
    case False
    then show ?thesis
      using C(2,3) r price by (cases "p_base_energy (w_players w s) < repair_cost w u") auto
  qed
qed

definition upgrade_price :: "u8 \<Rightarrow> world \<Rightarrow> energy_t" where
  "upgrade_price type w = (case upgrade_type_of type of None \<Rightarrow> 0 | Some ty \<Rightarrow> upgrade_cost ty (w_rules w))"

lemma upgradeUnit_result:
  assumes I: "turn_inv w" and r: "upgradeUnit s i type w = Some (r, w')"
  shows "(r \<noteq> OK \<and> w' = w) \<or>
    (r = OK \<and> upgrade_price type w \<le> p_base_energy (w_players w s)
     \<and> (\<exists>a f. pay_and_upd s (upgrade_price type w) a f w w'))"
proof (cases "\<exists>a u. target_unit w s i a u")
  case False
  then show ?thesis using upgradeUnit_cases(1) [OF I, of s i] r by auto
next
  case True
  then obtain a u where t: "target_unit w s i a u" by blast
  note C = upgradeUnit_cases(2-6) [OF I t]
  show ?thesis
  proof (cases "isInBase w (u_pos u) s")
    case False
    then show ?thesis using C(1) r by simp
  next
    case b: True
    show ?thesis
    proof (cases "upgrade_type_of type")
      case None
      then show ?thesis using C(2) [OF b] r by simp
    next
      case (Some ty)
      note D = C(3-5) [OF b Some]
      have price: "upgrade_price type w = upgrade_cost ty (w_rules w)" using Some by (simp add: upgrade_price_def)
      consider "has_upgrade ty (u_upgrades u)"
        | "\<not> has_upgrade ty (u_upgrades u)" "p_base_energy (w_players w s) < upgrade_cost ty (w_rules w)"
        | "\<not> has_upgrade ty (u_upgrades u)" "\<not> p_base_energy (w_players w s) < upgrade_cost ty (w_rules w)"
        by blast
      then show ?thesis
      proof cases
        case 1
        then show ?thesis using D(1) r by simp
      next
        case 2
        then show ?thesis using D(2) r by simp
      next
        case 3
        then show ?thesis using D(3) [OF 3] r price by auto
      qed
    qed
  qed
qed

lemma pay_and_updD:
  assumes "pay_and_upd s cost a f w w'"
  shows "turn_inv w'" "action_frame w w'" "io_ok w \<Longrightarrow> io_ok w'"
    "p_base_energy (w_players w' s) = p_base_energy (w_players w s) - cost"
    "p_base_energy (w_players w' (opponent s)) = p_base_energy (w_players w (opponent s))"
  using assms by (simp_all add: pay_and_upd_def)

interpretation repair: base_action "repairUnit s i" s "repair_price s i" for s i
proof unfold_locales
  fix r w w' assume I: "turn_inv w" and r: "repairUnit s i w = Some (r, w')"
  show "turn_inv w' \<and> action_frame w w' \<and> (io_ok w \<longrightarrow> io_ok w')"
    using repairUnit_result [OF I r] I pay_and_updD(1-3) by auto
qed (use repairUnit_result pay_and_updD(4,5) in blast)+

interpretation upgrade: base_action "upgradeUnit s i type" s "upgrade_price type" for s i type
proof unfold_locales
  fix r w w' assume I: "turn_inv w" and r: "upgradeUnit s i type w = Some (r, w')"
  show "turn_inv w' \<and> action_frame w w' \<and> (io_ok w \<longrightarrow> io_ok w')"
    using upgradeUnit_result [OF I r] I pay_and_updD(1-3) by auto
qed (use upgradeUnit_result pay_and_updD(4,5) in blast)+

text \<open>
  Manufacturing draws from \<open>std::uniform_int_distribution\<close>, so it fulfils the contract for every
  implementation of the distribution that stays within its bounds.
\<close>

locale std_random =
  fixes uniform_int :: uniform
  assumes in_bounds: "uniform_ok uniform_int"

sublocale std_random \<subseteq> manufact: base_action "manufactureUnit uniform_int s i" s
    "\<lambda>w. gr_manufact_cost (w_rules w)" for s i
proof unfold_locales
  fix r w w' assume I: "turn_inv w" and r: "manufactureUnit uniform_int s i w = Some (r, w')"
  show "turn_inv w' \<and> action_frame w w' \<and> (io_ok w \<longrightarrow> io_ok w')"
    using manufactureUnit_result [OF I in_bounds r] I by auto
qed (use manufactureUnit_result [OF _ in_bounds] in blast)+

context std_random begin

lemma manufact_action: "base_action (manufactureUnit uniform_int s i) s (\<lambda>w. gr_manufact_cost (w_rules w))"
  by (rule manufact.base_action_axioms)

end

text \<open>One such implementation: a number of the generator, reduced.\<close>

definition uniform_mod :: uniform where
  "uniform_mod n sd = (case xoro_next sd of (r, sd') \<Rightarrow> (unat r mod n, sd'))"

lemma uniform_mod_ok: "uniform_ok uniform_mod"
  by (simp add: uniform_ok_def uniform_mod_def split: prod.split)

interpretation uniform_mod: std_random uniform_mod
  by unfold_locales (rule uniform_mod_ok)

end
