(* ===== verification/Runtime.thy ===== *)
theory Runtime
  imports World_Actions
begin

text \<open>
  The system calls of a sandboxed program (\<open>include/corertt/runtime.h\<close>, \<open>src/runtime.cpp\<close>). The
  RISC-V machine is the library libriscv; what the source uses of it is the record
  \<open>machine_ops\<close>, a parameter of every definition here: construction from a binary, the argument
  and result registers, copies from and to guest memory (\<open>None\<close> when they throw), the extra cycles
  charged by \<open>penalize\<close>, and running up to the next system call, stop or exception.
\<close>

subsection \<open>The machine\<close>

datatype riscv_exception =
    RV_INVALID_PROGRAM
  | RV_ILLEGAL_OPERATION
  | RV_ILLEGAL_OPCODE
  | RV_UNIMPLEMENTED_INSTRUCTION
  | RV_UNIMPLEMENTED_INSTRUCTION_LENGTH
  | RV_OUT_OF_MEMORY
  | RV_PROTECTION_FAULT
  | RV_EXECUTION_SPACE_PROTECTION_FAULT
  | RV_MISALIGNED_INSTRUCTION
  | RV_INVALID_ALIGNMENT
  | RV_OTHER_TYPE
  | NOT_A_MACHINE_EXCEPTION

datatype 'm machine_event =
    Syscall nat 'm
  | Stopped 'm
  | Throws riscv_exception

record 'm machine_ops =
  mo_construct :: "byte list \<Rightarrow> riscv_exception + 'm"
  mo_setup :: "'m \<Rightarrow> 'm"
  mo_sysarg :: "'m \<Rightarrow> nat \<Rightarrow> u32"
  mo_set_result :: "'m \<Rightarrow> u32 \<Rightarrow> 'm"
  mo_copy_from_guest :: "'m \<Rightarrow> u32 \<Rightarrow> nat \<Rightarrow> byte list option"
  mo_copy_to_guest :: "'m \<Rightarrow> u32 \<Rightarrow> byte list \<Rightarrow> 'm option"
  mo_penalize :: "'m \<Rightarrow> nat \<Rightarrow> 'm"
  mo_stop :: "'m \<Rightarrow> 'm"
  mo_heap_call :: "nat \<Rightarrow> 'm \<Rightarrow> 'm"
  mo_start :: "'m \<Rightarrow> nat \<Rightarrow> 'm"
  mo_next :: "'m \<Rightarrow> 'm machine_event"

text \<open>\<open>machineExceptionToStoppedReason\<close>, and the \<open>catch (...)\<close> beside each of its uses.\<close>

fun machineExceptionToStoppedReason :: "riscv_exception \<Rightarrow> stopped_reason" where
  "machineExceptionToStoppedReason RV_INVALID_PROGRAM = INVALID_PROGRAM"
| "machineExceptionToStoppedReason RV_ILLEGAL_OPERATION = ILLEGAL_INSTRUCTION"
| "machineExceptionToStoppedReason RV_ILLEGAL_OPCODE = ILLEGAL_INSTRUCTION"
| "machineExceptionToStoppedReason RV_UNIMPLEMENTED_INSTRUCTION = ILLEGAL_INSTRUCTION"
| "machineExceptionToStoppedReason RV_UNIMPLEMENTED_INSTRUCTION_LENGTH = ILLEGAL_INSTRUCTION"
| "machineExceptionToStoppedReason RV_OUT_OF_MEMORY = OUT_OF_MEMORY"
| "machineExceptionToStoppedReason RV_PROTECTION_FAULT = PAGE_PROTECTION_FAULT"
| "machineExceptionToStoppedReason RV_EXECUTION_SPACE_PROTECTION_FAULT = PAGE_PROTECTION_FAULT"
| "machineExceptionToStoppedReason RV_MISALIGNED_INSTRUCTION = ALIGNMENT_FAULT"
| "machineExceptionToStoppedReason RV_INVALID_ALIGNMENT = ALIGNMENT_FAULT"
| "machineExceptionToStoppedReason RV_OTHER_TYPE = UNKNOWN_EXCEPTION"
| "machineExceptionToStoppedReason NOT_A_MACHINE_EXCEPTION = UNKNOWN_EXCEPTION"

definition createMachineFromELF :: "'m machine_ops \<Rightarrow> byte list \<Rightarrow> stopped_reason + 'm" where
  "createMachineFromELF mo elf = (case mo_construct mo elf of
     Inl e \<Rightarrow> Inl (machineExceptionToStoppedReason e) | Inr m \<Rightarrow> Inr m)"

subsection \<open>The system call context\<close>

record ecall_flags =
  f_send_msg :: bool
  f_manufact :: bool
  f_repair :: bool
  f_upgrade :: bool
  f_move :: bool
  f_deposit_withdraw :: bool

definition no_flags :: ecall_flags where
  "no_flags = \<lparr>f_send_msg = False, f_manufact = False, f_repair = False, f_upgrade = False,
     f_move = False, f_deposit_withdraw = False\<rparr>"

record ecall_ctx =
  c_player :: side
  c_unit :: "addr option"
  c_stop_reason :: stopped_reason
  c_log_quota :: u16
  c_msg_idx :: nat
  c_rng :: seed
  c_flags :: ecall_flags
  c_visible_tiles :: "bool list"

text \<open>
  The members that have initialisers; the rest are assigned by \<open>bind\<close> and \<open>simulate\<close> before they
  are read.
\<close>

definition fresh_ctx :: ecall_ctx where
  "fresh_ctx = \<lparr>c_player = P1, c_unit = None, c_stop_reason = NOT_STOPPED, c_log_quota = 2048,
     c_msg_idx = 0, c_rng = \<lparr>seed_s0 = 0, seed_s1 = 0\<rparr>, c_flags = no_flags, c_visible_tiles = []\<rparr>"

text \<open>What a handler can reach: the world, its context and the machine.\<close>

record 'm sim =
  s_world :: world
  s_ctx :: ecall_ctx
  s_machine :: 'm

definition sysarg :: "'m machine_ops \<Rightarrow> 'm sim \<Rightarrow> nat \<Rightarrow> u32" where
  "sysarg mo s k = mo_sysarg mo (s_machine s) k"

definition int_arg :: "'m machine_ops \<Rightarrow> 'm sim \<Rightarrow> nat \<Rightarrow> int" where
  "int_arg mo s k = sint (sysarg mo s k)"

definition set_word :: "'m machine_ops \<Rightarrow> u32 \<Rightarrow> 'm sim \<Rightarrow> 'm sim" where
  "set_word mo r s = s\<lparr>s_machine := mo_set_result mo (s_machine s) r\<rparr>"

definition set_result :: "'m machine_ops \<Rightarrow> action_result \<Rightarrow> 'm sim \<Rightarrow> 'm sim" where
  "set_result mo r s = set_word mo (word_of_int (action_result_code r)) s"

definition penalize :: "'m machine_ops \<Rightarrow> nat \<Rightarrow> 'm sim \<Rightarrow> 'm sim" where
  "penalize mo n s = s\<lparr>s_machine := mo_penalize mo (s_machine s) n\<rparr>"

definition upd_ctx :: "(ecall_ctx \<Rightarrow> ecall_ctx) \<Rightarrow> 'm sim \<Rightarrow> 'm sim" where
  "upd_ctx f s = s\<lparr>s_ctx := f (s_ctx s)\<rparr>"

definition upd_flags :: "(ecall_flags \<Rightarrow> ecall_flags) \<Rightarrow> 'm sim \<Rightarrow> 'm sim" where
  "upd_flags f = upd_ctx (\<lambda>c. c\<lparr>c_flags := f (c_flags c)\<rparr>)"

definition ctx_player :: "'m sim \<Rightarrow> player" where
  "ctx_player s = w_players (s_world s) (c_player (s_ctx s))"

text \<open>\<open>ctx->unit\<close> dereferenced, where it is not null.\<close>

definition ctx_unit :: "'m sim \<Rightarrow> game_unit option" where
  "ctx_unit s = (case c_unit (s_ctx s) of None \<Rightarrow> None | Some a \<Rightarrow> w_uheap (s_world s) a)"

definition upd_ctx_unit :: "(game_unit \<Rightarrow> game_unit) \<Rightarrow> 'm sim \<Rightarrow> 'm sim option" where
  "upd_ctx_unit f s = (case c_unit (s_ctx s) of None \<Rightarrow> None
     | Some a \<Rightarrow> map_option (\<lambda>w. s\<lparr>s_world := w\<rparr>) (upd_unit a f (s_world s)))"

definition is_unit :: "'m sim \<Rightarrow> bool" where
  "is_unit s \<longleftrightarrow> c_unit (s_ctx s) \<noteq> None"

subsection \<open>Debugging calls\<close>

definition ecall_abort :: "'m machine_ops \<Rightarrow> 'm sim \<Rightarrow> 'm sim option" where
  "ecall_abort mo s = Some ((upd_ctx (\<lambda>c. c\<lparr>c_stop_reason := ABORTED\<rparr>) s)
     \<lparr>s_machine := mo_stop mo (s_machine s)\<rparr>)"

definition ctx_unit_id :: "'m sim \<Rightarrow> u8 option" where
  "ctx_unit_id s = (if is_unit s then map_option u_id (ctx_unit s) else Some 0)"

definition ecall_log :: "'m machine_ops \<Rightarrow> 'm sim \<Rightarrow> 'm sim option" where
  "ecall_log mo s =
     (let p = sysarg mo s 0; len = int_arg mo s 1 in
      if len < 1 \<or> len > 512 then Some (set_result mo OUT_OF_RANGE s)
      else if len > uint (c_log_quota (s_ctx s)) then Some (set_result mo ON_COOLDOWN s)
      else do {
        let s = upd_ctx (\<lambda>c. c\<lparr>c_log_quota := c_log_quota c - word_of_int len\<rparr>) s;
        unit_id \<leftarrow> ctx_unit_id s;
        let entry = customLog (w_tick (s_world s)) (side_id (c_player (s_ctx s))) unit_id (nat len);
        (case mo_copy_from_guest mo (s_machine s) p (nat len) of
           None \<Rightarrow> Some (set_result mo INVALID_POINTER s)
         | Some bytes \<Rightarrow>
             let s = s\<lparr>s_world := appendLog (entry\<lparr>le_payload := bytes\<rparr>) (s_world s)\<rparr> in
             Some (set_result mo OK (penalize mo (nat len) s)))
      })"

subsection \<open>Information\<close>

definition u16_le :: "u16 \<Rightarrow> byte list" where
  "u16_le v = [ucast v, ucast (drop_bit 8 v)]"

definition game_info :: "game_rules \<Rightarrow> byte list" where
  "game_info r =
     [gr_width r, gr_height r, gr_base_size r, gr_unit_health r, gr_natural_energy_rate r,
      gr_resource_zone_energy_rate r, gr_attack_cooldown r, gr_capture_turn_threshold r,
      gr_vision_lv1 r, gr_vision_lv2 r]
     @ u16_le (gr_capacity_lv1 r) @ u16_le (gr_capacity_lv2 r) @ u16_le (gr_capacity_upgrade_cost r)
     @ u16_le (gr_vision_upgrade_cost r) @ u16_le (gr_damage_upgrade_cost r)
     @ u16_le (gr_manufact_cost r) @ replicate 10 0"

definition ecall_meta :: "'m machine_ops \<Rightarrow> 'm sim \<Rightarrow> 'm sim option" where
  "ecall_meta mo s =
     (case mo_copy_to_guest mo (s_machine s) (sysarg mo s 0) (game_info (w_rules (s_world s))) of
        None \<Rightarrow> Some (set_result mo INVALID_POINTER s)
      | Some m \<Rightarrow> Some (set_result mo OK (s\<lparr>s_machine := m\<rparr>)))"

definition ecall_turn :: "'m machine_ops \<Rightarrow> 'm sim \<Rightarrow> 'm sim option" where
  "ecall_turn mo s = Some (set_word mo (w_tick (s_world s)) s)"

text \<open>The four bytes of the result structure: id in five bits and upgrades in three, health, energy.\<close>

definition dev_info_word :: "u8 \<Rightarrow> u8 \<Rightarrow> health_t \<Rightarrow> energy_t \<Rightarrow> u32" where
  "dev_info_word i up health energy =
     (ucast (i AND 31) OR push_bit 5 (ucast (up AND 7)))
     OR push_bit 8 (ucast health) OR push_bit 16 (ucast energy)"

definition ecall_dev_info :: "'m machine_ops \<Rightarrow> 'm sim \<Rightarrow> 'm sim option" where
  "ecall_dev_info mo s =
     (if is_unit s
      then map_option (\<lambda>u. set_word mo
             (dev_info_word (u_id u) (upgrades_byte (u_upgrades u)) (u_health u) (u_energy u)) s)
             (ctx_unit s)
      else Some (set_word mo (dev_info_word 0 0 0 (p_base_energy (ctx_player s))) s))"

definition ecall_pos :: "'m machine_ops \<Rightarrow> 'm sim \<Rightarrow> 'm sim option" where
  "ecall_pos mo s = do {
     (x, y) \<leftarrow> (if is_unit s then map_option u_pos (ctx_unit s)
               else Some (p_base_x (ctx_player s), p_base_y (ctx_player s)));
     Some (set_word mo (ucast (word_of_int x :: u8) OR push_bit 8 (ucast (word_of_int y :: u8))) s)
   }"

definition ecall_rand :: "'m machine_ops \<Rightarrow> 'm sim \<Rightarrow> 'm sim option" where
  "ecall_rand mo s =
     (case xoro_next (c_rng (s_ctx s)) of
        (r, rng) \<Rightarrow> Some (set_word mo (ucast (r AND 0xFFFFFFFF)) (upd_ctx (\<lambda>c. c\<lparr>c_rng := rng\<rparr>) s)))"

text \<open>One byte of sensor data, low bit first: visible, terrain, base, resource, unit, bullet, alliance.\<close>

definition sensor_byte :: "world \<Rightarrow> side \<Rightarrow> tile \<Rightarrow> byte option" where
  "sensor_byte w s t = do {
     alliance \<leftarrow> (case t_occupant t of
         OCCUPIED_BY_UNIT a \<Rightarrow> map_option (\<lambda>u. u_player u = s) (w_uheap w a)
       | _ \<Rightarrow> Some False);
     Some (1 OR push_bit 1 (t_terrain t AND 3)
           OR (if t_is_base t then 0x08 else 0) OR (if t_is_resource t then 0x10 else 0)
           OR (case t_occupant t of OCCUPIED_BY_UNIT _ \<Rightarrow> 0x20 | _ \<Rightarrow> 0)
           OR (case t_occupant t of OCCUPIED_BY_BULLET _ \<Rightarrow> 0x40 | _ \<Rightarrow> 0)
           OR (if alliance then 0x80 else 0))
   }"

definition sensor_tile :: "'m sim \<Rightarrow> int \<Rightarrow> pos_t \<times> pos_t \<Rightarrow> pos_t \<times> pos_t \<Rightarrow> byte option" where
  "sensor_tile s rng topleft c =
     (let w = s_world s; p = shift topleft c in
      if \<not> isInBounds w p then Some 0
      else do {
        visible \<leftarrow> (if is_unit s
          then do {
            fail_fast_assert (cell_index rng c < length (c_visible_tiles (s_ctx s)));
            Some (c_visible_tiles (s_ctx s) ! cell_index rng c)
          }
          else Some True);
        if \<not> visible then Some 0
        else world_tile w p \<bind> sensor_byte w (c_player (s_ctx s))
      })"

definition sensor_window :: "'m sim \<Rightarrow> (int \<times> pos_t \<times> pos_t) option" where
  "sensor_window s =
     (if is_unit s
      then map_option (\<lambda>u. let rng = visionRange (w_rules (s_world s)) u in
             (rng, u_x u - rng div 2, u_y u - rng div 2)) (ctx_unit s)
      else Some (tm_base_size (w_map (s_world s)), p_base_x (ctx_player s), p_base_y (ctx_player s)))"

definition ecall_read_sensor :: "'m machine_ops \<Rightarrow> 'm sim \<Rightarrow> 'm sim option" where
  "ecall_read_sensor mo s = do {
     (rng, topleft) \<leftarrow> sensor_window s;
     let total_tiles = nat (rng * rng);
     sensor_data \<leftarrow> traverse (sensor_tile s rng topleft)
       [(dx, dy). dy \<leftarrow> [0..rng - 1], dx \<leftarrow> [0..rng - 1]];
     (case mo_copy_to_guest mo (s_machine s) (sysarg mo s 0) sensor_data of
        None \<Rightarrow> Some (set_result mo INVALID_POINTER s)
      | Some m \<Rightarrow> Some (set_word mo (word_of_nat total_tiles) (penalize mo total_tiles (s\<lparr>s_machine := m\<rparr>))))
   }"

subsection \<open>Messages\<close>

definition ecall_recv_msg :: "'m machine_ops \<Rightarrow> 'm sim \<Rightarrow> 'm sim option" where
  "ecall_recv_msg mo s =
     (let messages = p_incoming (ctx_player s); idx = c_msg_idx (s_ctx s) in
      if idx \<ge> length messages then Some (set_word mo 0 s)
      else
        let msg = messages ! idx;
            s = upd_ctx (\<lambda>c. c\<lparr>c_msg_idx := idx + 1\<rparr>) s;
            p = sysarg mo s 0;
            len = int_arg mo s 1 in
        if len < 0 then Some (set_result mo OUT_OF_RANGE s)
        else if len = 0 then Some (set_word mo 0 s)
        else
          let copy_len = min len (uint (mp_length msg)) in
          (case mo_copy_to_guest mo (s_machine s) p (take (nat copy_len) (mp_data msg)) of
             None \<Rightarrow> Some (set_result mo INVALID_POINTER s)
           | Some m \<Rightarrow> Some (set_word mo (word_of_int copy_len) (s\<lparr>s_machine := m\<rparr>))))"

definition ecall_send_msg :: "'m machine_ops \<Rightarrow> 'm sim \<Rightarrow> 'm sim option" where
  "ecall_send_msg mo s =
     (let p = sysarg mo s 0; len = int_arg mo s 1 in
      if len < 1 \<or> len > int packet_size then Some (set_result mo OUT_OF_RANGE s)
      else if f_send_msg (c_flags (s_ctx s)) then Some (set_result mo ON_COOLDOWN s)
      else
        let s = upd_flags (\<lambda>f. f\<lparr>f_send_msg := True\<rparr>) s in
        (case mo_copy_from_guest mo (s_machine s) p (nat len) of
           None \<Rightarrow> Some (set_result mo INVALID_POINTER s)
         | Some bytes \<Rightarrow>
             let msg = \<lparr>mp_length = word_of_int len, mp_data = bytes\<rparr>;
                 w = upd_player (c_player (s_ctx s))
                       (\<lambda>pl. pl\<lparr>p_outgoing := p_outgoing pl @ [msg]\<rparr>) (s_world s) in
             Some (set_result mo OK (s\<lparr>s_world := w\<rparr>))))"

subsection \<open>Base calls\<close>

definition ecall_manufact :: "'m machine_ops \<Rightarrow> uniform \<Rightarrow> 'm sim \<Rightarrow> 'm sim option" where
  "ecall_manufact mo uniform_int s =
     (if is_unit s then Some (set_result mo UNSUPPORTED_RUNTIME s)
      else if f_manufact (c_flags (s_ctx s)) then Some (set_result mo ON_COOLDOWN s)
      else do {
        let unit_id = ucast (sysarg mo s 0);
        (res, w) \<leftarrow> manufactureUnit uniform_int (c_player (s_ctx s)) unit_id (s_world s);
        let s = s\<lparr>s_world := w\<rparr>;
        let s = (if res = OK then upd_flags (\<lambda>f. f\<lparr>f_manufact := True\<rparr>) s else s);
        Some (set_result mo res s)
      })"

definition ecall_repair :: "'m machine_ops \<Rightarrow> 'm sim \<Rightarrow> 'm sim option" where
  "ecall_repair mo s =
     (if is_unit s then Some (set_result mo UNSUPPORTED_RUNTIME s)
      else if f_repair (c_flags (s_ctx s)) then Some (set_result mo ON_COOLDOWN s)
      else do {
        let unit_id = ucast (sysarg mo s 0);
        (res, w) \<leftarrow> repairUnit (c_player (s_ctx s)) unit_id (s_world s);
        let s = s\<lparr>s_world := w\<rparr>;
        let s = (if res = OK then upd_flags (\<lambda>f. f\<lparr>f_repair := True\<rparr>) s else s);
        Some (set_result mo res s)
      })"

definition ecall_upgrade :: "'m machine_ops \<Rightarrow> 'm sim \<Rightarrow> 'm sim option" where
  "ecall_upgrade mo s =
     (if is_unit s then Some (set_result mo UNSUPPORTED_RUNTIME s)
      else if f_upgrade (c_flags (s_ctx s)) then Some (set_result mo ON_COOLDOWN s)
      else do {
        let unit_id = ucast (sysarg mo s 0);
        let upgrade_type = ucast (sysarg mo s 1);
        (res, w) \<leftarrow> upgradeUnit (c_player (s_ctx s)) unit_id upgrade_type (s_world s);
        let s = s\<lparr>s_world := w\<rparr>;
        let s = (if res = OK then upd_flags (\<lambda>f. f\<lparr>f_upgrade := True\<rparr>) s else s);
        Some (set_result mo res s)
      })"

subsection \<open>Unit calls\<close>

definition ecall_fire :: "'m machine_ops \<Rightarrow> 'm sim \<Rightarrow> 'm sim option" where
  "ecall_fire mo s =
     (if \<not> is_unit s then Some (set_result mo UNSUPPORTED_RUNTIME s)
      else do {
        u \<leftarrow> ctx_unit s;
        if \<not> canAttack u then Some (set_result mo ON_COOLDOWN s)
        else
          let dir_id = int_arg mo s 0; power = int_arg mo s 1 in
          (case direction_of dir_id of
             None \<Rightarrow> Some (set_result mo OUT_OF_RANGE s)
           | Some dir \<Rightarrow>
               if power < 1 then Some (set_result mo OUT_OF_RANGE s)
               else if power > uint (u_energy u) then Some (set_result mo INSUFFICIENT_ENERGY s)
               else
                 let damage = power * (if up_damage (u_upgrades u) then 2 else 1) in
                 if damage > 255 then Some (set_result mo OUT_OF_RANGE s)
                 else do {
                   s \<leftarrow> upd_ctx_unit (\<lambda>u. u\<lparr>
                     u_energy := u_energy u - word_of_int power,
                     u_pending_attack := \<lparr>pa_damage = word_of_int damage, pa_direction = dir\<rparr>,
                     u_cooldown := gr_attack_cooldown (w_rules (s_world s))\<rparr>) s;
                   Some (set_result mo OK s)
                 })
      })"

definition ecall_move :: "'m machine_ops \<Rightarrow> 'm sim \<Rightarrow> 'm sim option" where
  "ecall_move mo s =
     (if \<not> is_unit s then Some (set_result mo UNSUPPORTED_RUNTIME s)
      else if f_move (c_flags (s_ctx s)) then Some (set_result mo ON_COOLDOWN s)
      else (case direction_of (int_arg mo s 0) of
          None \<Rightarrow> do {
            s \<leftarrow> upd_ctx_unit (\<lambda>u. u\<lparr>u_pending_move := None\<rparr>) s;
            Some (set_result mo OUT_OF_RANGE s)
          }
        | Some dir \<Rightarrow> do {
            s \<leftarrow> upd_ctx_unit (\<lambda>u. u\<lparr>u_pending_move := Some dir\<rparr>) s;
            Some (set_result mo OK (upd_flags (\<lambda>f. f\<lparr>f_move := True\<rparr>) s))
          }))"

definition set_base_energy :: "energy_t \<Rightarrow> 'm sim \<Rightarrow> 'm sim" where
  "set_base_energy e s =
     s\<lparr>s_world := upd_player (c_player (s_ctx s)) (\<lambda>p. p\<lparr>p_base_energy := e\<rparr>) (s_world s)\<rparr>"

definition ecall_deposit :: "'m machine_ops \<Rightarrow> 'm sim \<Rightarrow> 'm sim option" where
  "ecall_deposit mo s =
     (if \<not> is_unit s then Some (set_result mo UNSUPPORTED_RUNTIME s)
      else if f_deposit_withdraw (c_flags (s_ctx s)) then Some (set_result mo ON_COOLDOWN s)
      else
        let amount = int_arg mo s 0 in
        if amount < 1 then Some (set_result mo OUT_OF_RANGE s)
        else do {
          u \<leftarrow> ctx_unit s;
          if amount > uint (u_energy u) then Some (set_result mo INSUFFICIENT_ENERGY s)
          else if \<not> isInBase (s_world s) (u_pos u) (c_player (s_ctx s))
          then Some (set_result mo INVALID_UNIT s)
          else do {
            s \<leftarrow> upd_ctx_unit (\<lambda>u. u\<lparr>u_energy := u_energy u - word_of_int amount\<rparr>) s;
            let value = uint (p_base_energy (ctx_player s)) + amount;
            let value = (if value > 65535 then 65535 else value);
            let s = set_base_energy (word_of_int value) s;
            Some (set_result mo OK (upd_flags (\<lambda>f. f\<lparr>f_deposit_withdraw := True\<rparr>) s))
          }
        })"

definition ecall_withdraw :: "'m machine_ops \<Rightarrow> 'm sim \<Rightarrow> 'm sim option" where
  "ecall_withdraw mo s =
     (if \<not> is_unit s then Some (set_result mo UNSUPPORTED_RUNTIME s)
      else if f_deposit_withdraw (c_flags (s_ctx s)) then Some (set_result mo ON_COOLDOWN s)
      else
        let amount = int_arg mo s 0 in
        if amount < 1 then Some (set_result mo OUT_OF_RANGE s)
        else if amount > uint (p_base_energy (ctx_player s)) then Some (set_result mo INSUFFICIENT_ENERGY s)
        else do {
          u \<leftarrow> ctx_unit s;
          if \<not> isInBase (s_world s) (u_pos u) (c_player (s_ctx s))
          then Some (set_result mo INVALID_UNIT s)
          else do {
            let value = uint (u_energy u) + amount;
            let cap = uint (maxCapacity (w_rules (s_world s)) u);
            let value = (if value > cap then cap else value);
            s \<leftarrow> upd_ctx_unit (\<lambda>u. u\<lparr>u_energy := word_of_int value\<rparr>) s;
            let s = set_base_energy (p_base_energy (ctx_player s) - word_of_int amount) s;
            Some (set_result mo OK (upd_flags (\<lambda>f. f\<lparr>f_deposit_withdraw := True\<rparr>) s))
          }
        })"

subsection \<open>Dispatch and simulation\<close>

text \<open>
  The handlers that \<open>bind\<close> installs, by system call number. The native heap installs its own for
  five numbers from \<open>0x40\<close>; any other call, \<open>ebreak\<close> included, does nothing.
\<close>

definition dispatch :: "'m machine_ops \<Rightarrow> uniform \<Rightarrow> nat \<Rightarrow> 'm sim \<Rightarrow> 'm sim option" where
  "dispatch mo uniform_int n s =
     (if n = 0x00 then ecall_abort mo s
      else if n = 0x01 then ecall_log mo s
      else if n = 0x0F then ecall_meta mo s
      else if n = 0x10 then ecall_turn mo s
      else if n = 0x11 then ecall_dev_info mo s
      else if n = 0x12 then ecall_read_sensor mo s
      else if n = 0x13 then ecall_recv_msg mo s
      else if n = 0x14 then ecall_send_msg mo s
      else if n = 0x15 then ecall_pos mo s
      else if n = 0x4F then ecall_rand mo s
      else if n = 0x20 then ecall_manufact mo uniform_int s
      else if n = 0x21 then ecall_repair mo s
      else if n = 0x22 then ecall_upgrade mo s
      else if n = 0x30 then ecall_fire mo s
      else if n = 0x31 then ecall_move mo s
      else if n = 0x32 then ecall_deposit mo s
      else if n = 0x33 then ecall_withdraw mo s
      else if 0x40 \<le> n \<and> n \<le> 0x44 then Some (s\<lparr>s_machine := mo_heap_call mo n (s_machine s)\<rparr>)
      else Some s)"

text \<open>
  \<open>machine.simulate<false>(max_cycles)\<close>: every system call takes at least one cycle of the budget,
  so \<open>max_cycles\<close> calls exhaust it, and running out of it ends the simulation without an error.
\<close>

definition max_cycles :: nat where "max_cycles = 100000"

fun run_loop :: "'m machine_ops \<Rightarrow> (nat \<Rightarrow> 'm sim \<Rightarrow> 'm sim option) \<Rightarrow> nat \<Rightarrow> 'm sim \<Rightarrow> 'm sim option" where
  "run_loop mo handler 0 s = Some s"
| "run_loop mo handler (Suc fuel) s =
     (case mo_next mo (s_machine s) of
        Stopped m \<Rightarrow> Some (s\<lparr>s_machine := m\<rparr>)
      | Throws e \<Rightarrow> Some (upd_ctx (\<lambda>c. c\<lparr>c_stop_reason := machineExceptionToStoppedReason e\<rparr>) s)
      | Syscall n m \<Rightarrow> handler n (s\<lparr>s_machine := m\<rparr>) \<bind> run_loop mo handler fuel)"

definition bind_ctx :: "seed \<Rightarrow> ecall_ctx \<Rightarrow> ecall_ctx" where
  "bind_ctx sd c = c\<lparr>c_rng := sd, c_stop_reason := NOT_STOPPED\<rparr>"

definition MAX_LOG_QUOTA :: u16 where "MAX_LOG_QUOTA = 4096"

definition begin_simulation :: "side \<Rightarrow> addr option \<Rightarrow> ecall_ctx \<Rightarrow> ecall_ctx" where
  "begin_simulation s u c =
     (let quota = c_log_quota c + 32 in
      c\<lparr>c_msg_idx := 0, c_flags := no_flags, c_player := s, c_unit := u,
        c_log_quota := (if quota > MAX_LOG_QUOTA then MAX_LOG_QUOTA else quota)\<rparr>)"

definition simulate ::
    "'m machine_ops \<Rightarrow> uniform \<Rightarrow> side \<Rightarrow> addr option \<Rightarrow> world \<Rightarrow> ecall_ctx \<Rightarrow> 'm \<Rightarrow> 'm sim option" where
  "simulate mo uniform_int s u w c m =
     run_loop mo (dispatch mo uniform_int) max_cycles
       \<lparr>s_world = w, s_ctx = begin_simulation s u c, s_machine = mo_start mo m max_cycles\<rparr>"

end
