(* ===== verification/Runtime_Safe.thy ===== *)
theory Runtime_Safe
  imports Runtime
begin

text \<open>
  Safety of the system calls for every program: whatever a guest does, the world stays well-formed,
  the log quota and the sizes of logs and messages stay within their limits, and a unit's program
  can never bring the simulation down. What a table of handlers owes the simulation loop is the
  locale \<open>syscall_table\<close>; the loop's lemmas are proved in it once.
\<close>

subsection \<open>The invariant of a running program\<close>

definition sim_ok :: "'m sim \<Rightarrow> bool" where
  "sim_ok s \<longleftrightarrow> turn_inv (s_world s) \<and> io_ok (s_world s)
     \<and> c_log_quota (s_ctx s) \<le> MAX_LOG_QUOTA
     \<and> (\<forall>a. c_unit (s_ctx s) = Some a \<longrightarrow> a \<in> set (w_units (s_world s)) \<and>
          (\<exists>u. w_uheap (s_world s) a = Some u \<and>
             length (c_visible_tiles (s_ctx s))
               = nat (visionRange (w_rules (s_world s)) u * visionRange (w_rules (s_world s)) u)))"

definition sim_frame :: "'m sim \<Rightarrow> 'm sim \<Rightarrow> bool" where
  "sim_frame s s' \<longleftrightarrow> action_frame (s_world s) (s_world s')
     \<and> c_player (s_ctx s') = c_player (s_ctx s) \<and> c_unit (s_ctx s') = c_unit (s_ctx s)"

lemma sim_frame_refl [simp]: "sim_frame s s"
  by (simp add: sim_frame_def)

lemma sim_frame_trans: "sim_frame s s' \<Longrightarrow> sim_frame s' s'' \<Longrightarrow> sim_frame s s''"
  unfolding sim_frame_def using action_frame_trans by metis

locale syscall_table =
  fixes handler :: "nat \<Rightarrow> 'm sim \<Rightarrow> 'm sim option"
  assumes safe: "sim_ok s \<Longrightarrow> handler n s = Some s' \<Longrightarrow> sim_ok s' \<and> sim_frame s s'"
    and unit_total: "sim_ok s \<Longrightarrow> is_unit s \<Longrightarrow> \<exists>s'. handler n s = Some s'"
begin

lemma run_loop_safe:
  "run_loop mo handler fuel s = Some s' \<Longrightarrow> sim_ok s \<Longrightarrow> sim_ok s' \<and> sim_frame s s'"
proof (induction fuel arbitrary: s)
  case 0
  then show ?case by simp
next
  case (Suc fuel)
  show ?case
  proof (cases "mo_next mo (s_machine s)")
    case (Syscall n m)
    then obtain t where t: "handler n (s\<lparr>s_machine := m\<rparr>) = Some t" "run_loop mo handler fuel t = Some s'"
      using Suc.prems(1) by (auto simp: bind_eq_Some_conv)
    have "sim_ok (s\<lparr>s_machine := m\<rparr>)" using Suc.prems(2) by (simp add: sim_ok_def)
    from safe [OF this t(1)] have "sim_ok t" "sim_frame s t" by (simp_all add: sim_frame_def)
    then show ?thesis using Suc.IH [OF t(2)] sim_frame_trans by blast
  qed (use Suc.prems in \<open>auto simp: sim_ok_def sim_frame_def upd_ctx_def\<close>)
qed

lemma run_loop_unit_total:
  "sim_ok s \<Longrightarrow> is_unit s \<Longrightarrow> \<exists>s'. run_loop mo handler fuel s = Some s'"
proof (induction fuel arbitrary: s)
  case 0
  then show ?case by simp
next
  case (Suc fuel)
  show ?case
  proof (cases "mo_next mo (s_machine s)")
    case (Syscall n m)
    have ok: "sim_ok (s\<lparr>s_machine := m\<rparr>)" "is_unit (s\<lparr>s_machine := m\<rparr>)"
      using Suc.prems by (simp_all add: sim_ok_def is_unit_def)
    obtain t where t: "handler n (s\<lparr>s_machine := m\<rparr>) = Some t" using unit_total [OF ok] by blast
    have "sim_ok t" "is_unit t"
      using safe [OF ok(1) t] ok(2) by (auto simp: sim_frame_def is_unit_def)
    then show ?thesis using Suc.IH t Syscall by simp
  qed auto
qed

end

subsection \<open>Changes that the invariant does not see\<close>

lemma sim_ok_machine [simp]:
  "sim_ok (s\<lparr>s_machine := m\<rparr>) = sim_ok s" "sim_ok (set_word mo r s) = sim_ok s"
  "sim_ok (set_result mo r' s) = sim_ok s" "sim_ok (penalize mo n s) = sim_ok s"
  "sim_ok (upd_flags f s) = sim_ok s"
  by (simp_all add: sim_ok_def set_word_def set_result_def penalize_def upd_flags_def upd_ctx_def)

lemma sim_frame_machine [simp]:
  "sim_frame s (t\<lparr>s_machine := m\<rparr>) = sim_frame s t" "sim_frame s (set_word mo r t) = sim_frame s t"
  "sim_frame s (set_result mo r' t) = sim_frame s t" "sim_frame s (penalize mo n t) = sim_frame s t"
  "sim_frame s (upd_flags f t) = sim_frame s t"
  by (simp_all add: sim_frame_def set_word_def set_result_def penalize_def upd_flags_def upd_ctx_def)

lemma ctx_views [simp]:
  "ctx_unit (upd_flags f s) = ctx_unit s" "ctx_player (upd_flags f s) = ctx_player s"
  "s_machine (upd_flags f s) = s_machine s" "s_world (upd_flags f s) = s_world s"
  "ctx_unit (set_word mo r s) = ctx_unit s" "ctx_player (set_word mo r s) = ctx_player s"
  "ctx_unit (set_result mo c s) = ctx_unit s" "ctx_player (set_result mo c s) = ctx_player s"
  "s_ctx (set_word mo r s) = s_ctx s" "s_world (set_word mo r s) = s_world s"
  "s_ctx (set_result mo c s) = s_ctx s" "s_world (set_result mo c s) = s_world s"
  by (simp_all add: ctx_unit_def ctx_player_def set_result_def set_word_def upd_flags_def upd_ctx_def
      cong: option.case_cong)

lemma sim_ok_ctx:
  assumes "sim_ok s" "c_log_quota (f (s_ctx s)) \<le> MAX_LOG_QUOTA" "c_unit (f (s_ctx s)) = c_unit (s_ctx s)"
    "c_visible_tiles (f (s_ctx s)) = c_visible_tiles (s_ctx s)" "c_player (f (s_ctx s)) = c_player (s_ctx s)"
  shows "sim_ok (upd_ctx f s)" "sim_frame s (upd_ctx f s)"
proof -
  have eq: "s_world (upd_ctx f s) = s_world s" "s_ctx (upd_ctx f s) = f (s_ctx s)"
    by (simp_all add: upd_ctx_def)
  show "sim_ok (upd_ctx f s)"
    using assms(1,2) unfolding sim_ok_def eq assms(3-5)
    by (elim conjE) (intro conjI, assumption+)
  show "sim_frame s (upd_ctx f s)"
    unfolding sim_frame_def eq assms(3-5) by simp
qed

lemma sim_ok_world:
  assumes S: "sim_ok s" and I: "turn_inv w" and io: "io_ok w" and fr: "action_frame (s_world s) w"
    and units: "\<And>a u. a \<in> set (w_units (s_world s)) \<Longrightarrow> w_uheap (s_world s) a = Some u
      \<Longrightarrow> c_unit (s_ctx s) = Some a \<Longrightarrow> \<exists>u'. w_uheap w a = Some u' \<and> u_upgrades u' = u_upgrades u"
  shows "sim_ok (s\<lparr>s_world := w\<rparr>)" "sim_frame s (s\<lparr>s_world := w\<rparr>)"
proof -
  have "static w = static (s_world s)" using fr by (simp add: action_frame_def)
  then have r: "w_rules w = w_rules (s_world s)" by (rule static_facts(1))
  have us: "set (w_units (s_world s)) \<subseteq> set (w_units w)" using fr by (auto simp: action_frame_def)
  show "sim_ok (s\<lparr>s_world := w\<rparr>)"
    unfolding sim_ok_def
  proof (intro conjI allI impI)
    fix a assume "c_unit (s_ctx (s\<lparr>s_world := w\<rparr>)) = Some a"
    then have a: "c_unit (s_ctx s) = Some a" by simp
    then obtain u where u: "a \<in> set (w_units (s_world s))" "w_uheap (s_world s) a = Some u"
      "length (c_visible_tiles (s_ctx s))
         = nat (visionRange (w_rules (s_world s)) u * visionRange (w_rules (s_world s)) u)"
      using S by (auto simp: sim_ok_def)
    obtain u' where u': "w_uheap w a = Some u'" "u_upgrades u' = u_upgrades u" using units [OF u(1,2) a] by blast
    show "a \<in> set (w_units (s_world (s\<lparr>s_world := w\<rparr>)))" using u(1) us by auto
    show "\<exists>u. w_uheap (s_world (s\<lparr>s_world := w\<rparr>)) a = Some u \<and>
        length (c_visible_tiles (s_ctx (s\<lparr>s_world := w\<rparr>))) =
        nat (visionRange (w_rules (s_world (s\<lparr>s_world := w\<rparr>))) u *
             visionRange (w_rules (s_world (s\<lparr>s_world := w\<rparr>))) u)"
      using u(3) u' r by (simp add: visionRange_def)
  qed (use S I io in \<open>simp_all add: sim_ok_def\<close>)
  show "sim_frame s (s\<lparr>s_world := w\<rparr>)" using fr by (simp add: sim_frame_def)
qed

lemma sim_unit:
  assumes "sim_ok s" "is_unit s"
  obtains a u where "c_unit (s_ctx s) = Some a" "ctx_unit s = Some u" "a \<in> set (w_units (s_world s))"
    "w_uheap (s_world s) a = Some u" "u_health u \<noteq> 0" "unit_stats_ok (w_rules (s_world s)) u"
proof -
  obtain a u where au: "c_unit (s_ctx s) = Some a" "a \<in> set (w_units (s_world s))"
    "w_uheap (s_world s) a = Some u" using assms by (auto simp: is_unit_def sim_ok_def)
  moreover have "u_health u \<noteq> 0" "unit_stats_ok (w_rules (s_world s)) u"
    using assms(1) au(2,3) by (auto simp: sim_ok_def turn_inv_def settled_def stats_ok_def)
  ultimately show thesis using that by (simp add: ctx_unit_def)
qed

lemma sim_upd_unit:
  assumes S: "sim_ok s" and u: "is_unit s" "ctx_unit s = Some u"
    and same: "u_pos (f u) = u_pos u" "u_id (f u) = u_id u" "u_player (f u) = u_player u"
      "u_health (f u) = u_health u" "u_upgrades (f u) = u_upgrades u"
    and e: "u_energy (f u) \<le> maxCapacity (w_rules (s_world s)) u"
  shows "\<exists>s'. upd_ctx_unit f s = Some s' \<and> sim_ok s' \<and> sim_frame s s' \<and> s_ctx s' = s_ctx s
    \<and> s_machine s' = s_machine s \<and> ctx_unit s' = Some (f u)
    \<and> w_players (s_world s') = w_players (s_world s)
    \<and> (\<exists>a. c_unit (s_ctx s) = Some a
         \<and> s_world s' = (s_world s)\<lparr>w_uheap := (w_uheap (s_world s))(a \<mapsto> f u)\<rparr>)"
proof -
  obtain a where a: "c_unit (s_ctx s) = Some a" "a \<in> set (w_units (s_world s))"
    "w_uheap (s_world s) a = Some u" "unit_stats_ok (w_rules (s_world s)) u"
    using sim_unit [OF S u(1)] u(2) by (metis option.inject)
  let ?w = "(s_world s)\<lparr>w_uheap := (w_uheap (s_world s))(a \<mapsto> f u)\<rparr>"
  have ok: "unit_stats_ok (w_rules (s_world s)) (f u)"
    using a(4) e same by (simp add: unit_stats_ok_def maxCapacity_def maxHealth_def)
  have I: "turn_inv ?w"
    by (rule turn_inv_upd_unit [OF _ a(3) same(1-3)]) (use S same ok in \<open>auto simp: sim_ok_def\<close>)
  have "action_frame (s_world s) ?w" by (simp add: action_frame_def)
  note W = sim_ok_world [OF S I _ this]
  have "sim_ok (s\<lparr>s_world := ?w\<rparr>)" "sim_frame s (s\<lparr>s_world := ?w\<rparr>)"
    by (rule W; use S same a in \<open>auto simp: sim_ok_def io_ok_simps\<close>)+
  moreover have "upd_ctx_unit f s = Some (s\<lparr>s_world := ?w\<rparr>)"
    using a(1,3) by (simp add: upd_ctx_unit_def upd_unit_def)
  ultimately show ?thesis using a(1) by (simp add: ctx_unit_def)
qed

lemma sim_upd_energy:
  assumes S: "sim_ok s"
  shows "sim_ok (set_base_energy e s)" "sim_frame s (set_base_energy e s)"
    "s_ctx (set_base_energy e s) = s_ctx s"
proof -
  let ?w = "upd_player (c_player (s_ctx s)) (\<lambda>p. p\<lparr>p_base_energy := e\<rparr>) (s_world s)"
  have I0: "turn_inv (s_world s)" using S by (simp add: sim_ok_def)
  have I: "turn_inv ?w" by (rule turn_inv_upd_player [OF I0]) simp_all
  have fr: "action_frame (s_world s) ?w"
    using winv_upd_player(2) [OF turn_invD(1) [OF I0], of "\<lambda>p. p\<lparr>p_base_energy := e\<rparr>"]
    by (simp add: action_frame_def upd_player_def)
  have io: "io_ok ?w" using S by (simp add: sim_ok_def io_ok_simps)
  show "sim_ok (set_base_energy e s)" "sim_frame s (set_base_energy e s)"
    unfolding set_base_energy_def
    by (rule sim_ok_world [OF S I io fr]; simp add: upd_player_def)+
  show "s_ctx (set_base_energy e s) = s_ctx s" by (simp add: set_base_energy_def)
qed

subsection \<open>The handlers\<close>

definition handler_ok :: "('m sim \<Rightarrow> 'm sim option) \<Rightarrow> bool" where
  "handler_ok h \<longleftrightarrow> (\<forall>s s'. sim_ok s \<longrightarrow> h s = Some s' \<longrightarrow> sim_ok s' \<and> sim_frame s s')
     \<and> (\<forall>s. sim_ok s \<longrightarrow> is_unit s \<longrightarrow> h s \<noteq> None)"

lemma handler_okI:
  assumes "\<And>s s'. sim_ok s \<Longrightarrow> h s = Some s' \<Longrightarrow> sim_ok s' \<and> sim_frame s s'"
    "\<And>s. sim_ok s \<Longrightarrow> is_unit s \<Longrightarrow> h s \<noteq> None"
  shows "handler_ok h"
  using assms unfolding handler_ok_def by blast

text \<open>What the code relies on in libriscv: a copy from the guest yields as many bytes as asked for.\<close>

definition machine_ok :: "'m machine_ops \<Rightarrow> bool" where
  "machine_ok mo \<longleftrightarrow> (\<forall>m p n bs. mo_copy_from_guest mo m p n = Some bs \<longrightarrow> length bs = n)"

lemma ecall_abort_ok: "handler_ok (ecall_abort mo)"
proof (rule handler_okI)
  fix s s' :: "'a sim" assume S: "sim_ok s" and r: "ecall_abort mo s = Some s'"
  have "sim_ok (upd_ctx (\<lambda>c. c\<lparr>c_stop_reason := ABORTED\<rparr>) s)"
    "sim_frame s (upd_ctx (\<lambda>c. c\<lparr>c_stop_reason := ABORTED\<rparr>) s)"
    by (rule sim_ok_ctx [OF S]; use S in \<open>simp add: sim_ok_def\<close>)+
  then show "sim_ok s' \<and> sim_frame s s'" using r by (auto simp: ecall_abort_def)
qed (simp add: ecall_abort_def)

lemma ecall_log_ok:
  assumes M: "machine_ok mo" shows "handler_ok (ecall_log mo)"
proof (rule handler_okI)
  fix s s' :: "'a sim" assume S: "sim_ok s" and r: "ecall_log mo s = Some s'"
  let ?len = "int_arg mo s 1"
  show "sim_ok s' \<and> sim_frame s s'"
  proof (cases "?len < 1 \<or> ?len > 512 \<or> ?len > uint (c_log_quota (s_ctx s))")
    case True
    then show ?thesis using r S by (auto simp: ecall_log_def Let_def split: if_splits)
  next
    case False
    let ?s1 = "upd_ctx (\<lambda>c. c\<lparr>c_log_quota := c_log_quota c - word_of_int ?len\<rparr>) s"
    have le: "word_of_int ?len \<le> c_log_quota (s_ctx s)"
      by (rule word_of_int_le_uint) (use False in auto)
    have quota: "c_log_quota (s_ctx s) - word_of_int ?len \<le> MAX_LOG_QUOTA"
      using word_sub_le [OF le] S order_trans unfolding sim_ok_def by blast
    have S1: "sim_ok ?s1" "sim_frame s ?s1"
      by (rule sim_ok_ctx [OF S]; use quota in simp)+
    obtain i where i: "ctx_unit_id ?s1 = Some i"
      using r False by (auto simp: ecall_log_def Let_def bind_eq_Some_conv)
    let ?entry = "customLog (w_tick (s_world ?s1)) (side_id (c_player (s_ctx ?s1))) i (nat ?len)"
    show ?thesis
    proof (cases "mo_copy_from_guest mo (s_machine ?s1) (sysarg mo s 0) (nat ?len)")
      case None
      then have "s' = set_result mo INVALID_POINTER ?s1"
        using r False i by (simp add: ecall_log_def Let_def)
      then show ?thesis using S1 by simp
    next
      case (Some bytes)
      let ?w = "appendLog (?entry\<lparr>le_payload := bytes\<rparr>) (s_world ?s1)"
      have s': "s' = set_result mo OK (penalize mo (nat ?len) (?s1\<lparr>s_world := ?w\<rparr>))"
        using r False i Some by (simp add: ecall_log_def Let_def)
      have "length bytes = nat ?len" using M Some by (simp add: machine_ok_def)
      then have io: "io_ok ?w" using S1(1) False
        by (auto simp: sim_ok_def io_ok_def payloads_ok_def messages_ok_def appendLog_def)
      have I: "turn_inv ?w" using S1(1) by (simp add: sim_ok_def turn_inv_appendLog)
      have fr: "action_frame (s_world ?s1) ?w" by (simp add: action_frame_def appendLog_def)
      have "sim_ok (?s1\<lparr>s_world := ?w\<rparr>)" "sim_frame ?s1 (?s1\<lparr>s_world := ?w\<rparr>)"
        by (rule sim_ok_world [OF S1(1) I io fr]; simp add: appendLog_def)+
      then show ?thesis using s' sim_frame_trans [OF S1(2)] by simp
    qed
  qed
next
  fix s :: "'a sim" assume S: "sim_ok s" "is_unit s"
  from sim_unit [OF this] obtain u where "ctx_unit s = Some u" by metis
  then have "ctx_unit_id (upd_ctx f s) = Some (u_id u)" if "\<And>c. c_unit (f c) = c_unit c" for f
    using S(2) that by (auto simp: ctx_unit_id_def is_unit_def ctx_unit_def upd_ctx_def split: option.splits)
  then show "ecall_log mo s \<noteq> None"
    by (simp add: ecall_log_def Let_def split: option.split)
qed

lemma simple_ecalls_ok:
  "handler_ok (ecall_meta mo)" "handler_ok (ecall_turn mo)" "handler_ok (ecall_dev_info mo)"
  "handler_ok (ecall_pos mo)" "handler_ok (ecall_rand mo)"
proof -
  show "handler_ok (ecall_meta mo)"
    by (rule handler_okI) (auto simp: ecall_meta_def split: option.splits)
  show "handler_ok (ecall_turn mo)"
    by (rule handler_okI) (auto simp: ecall_turn_def)
  show "handler_ok (ecall_dev_info mo)"
    by (rule handler_okI) (auto simp: ecall_dev_info_def split: if_splits elim: sim_unit)
  show "handler_ok (ecall_pos mo)"
    by (rule handler_okI) (auto simp: ecall_pos_def bind_eq_Some_conv split: if_splits elim: sim_unit)
  show "handler_ok (ecall_rand mo)"
  proof (rule handler_okI)
    fix s s' :: "'a sim" assume S: "sim_ok s" and r: "ecall_rand mo s = Some s'"
    obtain v rng where x: "xoro_next (c_rng (s_ctx s)) = (v, rng)" by fastforce
    have "sim_ok (upd_ctx (\<lambda>c. c\<lparr>c_rng := rng\<rparr>) s)" "sim_frame s (upd_ctx (\<lambda>c. c\<lparr>c_rng := rng\<rparr>) s)"
      by (rule sim_ok_ctx [OF S]; use S in \<open>simp add: sim_ok_def\<close>)+
    then show "sim_ok s' \<and> sim_frame s s'" using r x by (auto simp: ecall_rand_def)
  qed (simp add: ecall_rand_def split: prod.split)
qed

lemma sensor_tile_total:
  assumes S: "sim_ok s" "is_unit s" and u: "ctx_unit s = Some u"
    and rng: "rng = visionRange (w_rules (s_world s)) u" and c: "in_window rng c"
  shows "sensor_tile s rng topleft c \<noteq> None"
proof (cases "isInBounds (s_world s) (shift topleft c)")
  case True
  obtain a where a: "c_unit (s_ctx s) = Some a" "w_uheap (s_world s) a = Some u"
    using sim_unit [OF S] u by (metis option.inject)
  then have "length (c_visible_tiles (s_ctx s)) = nat (rng * rng)"
    using S(1) rng by (auto simp: sim_ok_def)
  then have idx: "cell_index rng c < length (c_visible_tiles (s_ctx s))"
    using in_window_index [OF c] by simp
  obtain t where t: "world_tile (s_world s) (shift topleft c) = Some t"
    using True by (auto simp: isInBounds_def world_tile_def tileOf_def)
  have "sensor_byte (s_world s) (c_player (s_ctx s)) t \<noteq> None"
  proof (cases "t_occupant t")
    case (OCCUPIED_BY_UNIT b)
    then have o: "occ (s_world s) (shift topleft c) = Some (OCCUPIED_BY_UNIT b)" using t by (simp add: occ_def)
    have "winv (s_world s)" using S(1) by (simp add: sim_ok_def turn_inv_def)
    from wf_heap_occ [OF winv_heap [OF this] o] obtain v where "w_uheap (s_world s) b = Some v" by blast
    then show ?thesis using OCCUPIED_BY_UNIT by (simp add: sensor_byte_def)
  qed (simp_all add: sensor_byte_def)
  then show ?thesis using True idx t S(2) by (simp add: sensor_tile_def Let_def)
qed (simp add: sensor_tile_def Let_def)

lemma ecall_read_sensor_ok: "handler_ok (ecall_read_sensor mo)"
proof (rule handler_okI)
  show "sim_ok s' \<and> sim_frame s s'" if "sim_ok s" "ecall_read_sensor mo s = Some s'" for s s' :: "'a sim"
    using that by (auto simp: ecall_read_sensor_def bind_eq_Some_conv Let_def split: option.splits)
next
  fix s :: "'a sim" assume S: "sim_ok s" "is_unit s"
  obtain u where u: "ctx_unit s = Some u" using sim_unit [OF S] by metis
  let ?rng = "visionRange (w_rules (s_world s)) u"
  let ?tl = "(u_x u - ?rng div 2, u_y u - ?rng div 2)"
  have w: "sensor_window s = Some (?rng, ?tl)" using S(2) u by (simp add: sensor_window_def Let_def)
  have "\<exists>d. traverse (sensor_tile s ?rng ?tl) [(dx, dy). dy \<leftarrow> [0..?rng - 1], dx \<leftarrow> [0..?rng - 1]] = Some d"
    by (rule traverse_total, rule sensor_tile_total [OF S u refl]) (auto simp: in_window_def)
  then show "ecall_read_sensor mo s \<noteq> None"
    by (auto simp: ecall_read_sensor_def w Let_def split: option.split)
qed

lemma ecall_recv_msg_ok: "handler_ok (ecall_recv_msg mo)"
proof (rule handler_okI)
  fix s s' :: "'a sim" assume S: "sim_ok s" and r: "ecall_recv_msg mo s = Some s'"
  let ?s1 = "upd_ctx (\<lambda>c. c\<lparr>c_msg_idx := c_msg_idx (s_ctx s) + 1\<rparr>) s"
  have "sim_ok ?s1" "sim_frame s ?s1"
    by (rule sim_ok_ctx [OF S]; use S in \<open>simp add: sim_ok_def\<close>)+
  then show "sim_ok s' \<and> sim_frame s s'"
    using r S by (auto simp: ecall_recv_msg_def Let_def split: option.splits if_splits)
qed (simp add: ecall_recv_msg_def Let_def split: option.split)

lemma ecall_send_msg_ok:
  assumes M: "machine_ok mo" shows "handler_ok (ecall_send_msg mo)"
proof (rule handler_okI)
  fix s s' :: "'a sim" assume S: "sim_ok s" and r: "ecall_send_msg mo s = Some s'"
  let ?len = "int_arg mo s 1"
  let ?s1 = "upd_flags (\<lambda>f. f\<lparr>f_send_msg := True\<rparr>) s"
  show "sim_ok s' \<and> sim_frame s s'"
  proof (cases "?len < 1 \<or> ?len > int packet_size \<or> f_send_msg (c_flags (s_ctx s))
      \<or> mo_copy_from_guest mo (s_machine ?s1) (sysarg mo s 0) (nat ?len) = None")
    case True
    then show ?thesis using r S by (auto simp: ecall_send_msg_def Let_def split: if_splits)
  next
    case False
    then obtain bytes where b: "mo_copy_from_guest mo (s_machine ?s1) (sysarg mo s 0) (nat ?len) = Some bytes"
      by blast
    let ?msg = "\<lparr>mp_length = word_of_int ?len, mp_data = bytes\<rparr>"
    let ?f = "\<lambda>pl. pl\<lparr>p_outgoing := p_outgoing pl @ [?msg]\<rparr>"
    let ?w = "upd_player (c_player (s_ctx s)) ?f (s_world s)"
    have s': "s' = set_result mo OK (?s1\<lparr>s_world := ?w\<rparr>)"
      using r False b by (simp add: ecall_send_msg_def Let_def upd_flags_def upd_ctx_def)
    have len: "length bytes = nat ?len" using M b by (simp add: machine_ok_def)
    then have "word_of_nat (length bytes) = (word_of_int ?len :: u8)" using False by simp
    then have io: "io_ok ?w" using S len False
      by (auto simp: sim_ok_def io_ok_def payloads_ok_def messages_ok_def upd_player_def)
    have I0: "turn_inv (s_world s)" using S by (simp add: sim_ok_def)
    have I: "turn_inv ?w" by (rule turn_inv_upd_player [OF I0]) simp_all
    have fr: "action_frame (s_world s) ?w"
      using winv_upd_player(2) [OF turn_invD(1) [OF I0], of ?f] by (simp add: action_frame_def upd_player_def)
    have S1: "sim_ok ?s1" using S by simp
    have S2: "s_world ?s1 = s_world s" "c_unit (s_ctx ?s1) = c_unit (s_ctx s)"
      by (simp_all add: upd_flags_def upd_ctx_def)
    have "sim_ok (?s1\<lparr>s_world := ?w\<rparr>)" "sim_frame ?s1 (?s1\<lparr>s_world := ?w\<rparr>)"
      by (rule sim_ok_world [OF S1 I io]; use fr S2 in \<open>simp add: upd_player_def\<close>)+
    then have "sim_ok (?s1\<lparr>s_world := ?w\<rparr>)" "sim_frame s (?s1\<lparr>s_world := ?w\<rparr>)"
      using sim_frame_trans [of s ?s1] by simp_all
    then show ?thesis by (simp add: s')
  qed
qed (simp add: ecall_send_msg_def Let_def split: option.split)

text \<open>The three base calls share their shape: refuse units, then at most one success per turn.\<close>

context base_action begin

lemma call_ok:
  assumes S: "sim_ok st" and c: "c_unit (s_ctx st) = None" and r: "act (s_world st) = Some (res, w)"
  shows "sim_ok (st\<lparr>s_world := w\<rparr>)" "sim_frame st (st\<lparr>s_world := w\<rparr>)"
proof -
  have I: "turn_inv (s_world st)" "io_ok (s_world st)" using S by (simp_all add: sim_ok_def)
  note K = keeps [OF I(1) r]
  show "sim_ok (st\<lparr>s_world := w\<rparr>)" "sim_frame st (st\<lparr>s_world := w\<rparr>)"
    by (rule sim_ok_world [OF S]; use K I c in simp)+
qed

end

lemma base_call_ok:
  assumes "\<And>s s'. sim_ok s \<Longrightarrow> \<not> is_unit s \<Longrightarrow> h s = Some s' \<Longrightarrow> sim_ok s' \<and> sim_frame s s'"
    and "\<And>s. is_unit s \<Longrightarrow> h s = Some (set_result mo UNSUPPORTED_RUNTIME s)"
  shows "handler_ok h"
proof (rule handler_okI)
  show "sim_ok s' \<and> sim_frame s s'" if "sim_ok s" "h s = Some s'" for s s'
    using assms(1) [OF that(1) _ that(2)] assms(2) [of s] that by (cases "is_unit s") auto
  show "h s \<noteq> None" if "is_unit s" for s using assms(2) [OF that] by simp
qed

lemma ecall_repair_ok: "handler_ok (ecall_repair mo)"
proof (rule base_call_ok [where mo = mo])
  fix s s' :: "'a sim" assume S: "sim_ok s" "\<not> is_unit s" and r: "ecall_repair mo s = Some s'"
  show "sim_ok s' \<and> sim_frame s s'"
  proof (cases "f_repair (c_flags (s_ctx s))")
    case True
    then show ?thesis using r S by (auto simp: ecall_repair_def)
  next
    case False
    then obtain res w where a: "repairUnit (c_player (s_ctx s)) (ucast (sysarg mo s 0)) (s_world s) = Some (res, w)"
      and s': "s' = set_result mo res (if res = OK then upd_flags (\<lambda>f. f\<lparr>f_repair := True\<rparr>) (s\<lparr>s_world := w\<rparr>)
                                      else s\<lparr>s_world := w\<rparr>)"
      using r S(2) by (auto simp: ecall_repair_def bind_eq_Some_conv Let_def)
    show ?thesis using repair.call_ok [OF S(1) _ a] S(2) by (simp add: s' is_unit_def)
  qed
qed (simp add: ecall_repair_def)

lemma ecall_upgrade_ok: "handler_ok (ecall_upgrade mo)"
proof (rule base_call_ok [where mo = mo])
  fix s s' :: "'a sim" assume S: "sim_ok s" "\<not> is_unit s" and r: "ecall_upgrade mo s = Some s'"
  show "sim_ok s' \<and> sim_frame s s'"
  proof (cases "f_upgrade (c_flags (s_ctx s))")
    case True
    then show ?thesis using r S by (auto simp: ecall_upgrade_def)
  next
    case False
    then obtain res w where a: "upgradeUnit (c_player (s_ctx s)) (ucast (sysarg mo s 0))
        (ucast (sysarg mo s 1)) (s_world s) = Some (res, w)"
      and s': "s' = set_result mo res (if res = OK then upd_flags (\<lambda>f. f\<lparr>f_upgrade := True\<rparr>) (s\<lparr>s_world := w\<rparr>)
                                      else s\<lparr>s_world := w\<rparr>)"
      using r S(2) by (auto simp: ecall_upgrade_def bind_eq_Some_conv Let_def)
    show ?thesis using upgrade.call_ok [OF S(1) _ a] S(2) by (simp add: s' is_unit_def)
  qed
qed (simp add: ecall_upgrade_def)

context std_random begin

lemma ecall_manufact_ok: "handler_ok (ecall_manufact mo uniform_int)"
proof (rule base_call_ok [where mo = mo])
  fix s s' :: "'a sim" assume S: "sim_ok s" "\<not> is_unit s" and r: "ecall_manufact mo uniform_int s = Some s'"
  show "sim_ok s' \<and> sim_frame s s'"
  proof (cases "f_manufact (c_flags (s_ctx s))")
    case True
    then show ?thesis using r S by (auto simp: ecall_manufact_def)
  next
    case False
    then obtain res w where a: "manufactureUnit uniform_int (c_player (s_ctx s)) (ucast (sysarg mo s 0))
        (s_world s) = Some (res, w)"
      and s': "s' = set_result mo res (if res = OK then upd_flags (\<lambda>f. f\<lparr>f_manufact := True\<rparr>) (s\<lparr>s_world := w\<rparr>)
                                      else s\<lparr>s_world := w\<rparr>)"
      using r S(2) by (auto simp: ecall_manufact_def bind_eq_Some_conv Let_def)
    show ?thesis using manufact.call_ok [OF S(1) _ a] S(2) by (simp add: s' is_unit_def)
  qed
qed (simp add: ecall_manufact_def)

end

text \<open>The four unit calls change one unit and, for two of them, the energy of its base.\<close>

lemma ecall_fire_ok: "handler_ok (ecall_fire mo)"
proof (rule handler_okI)
  fix s s' :: "'a sim" assume S: "sim_ok s" and r: "ecall_fire mo s = Some s'"
  show "sim_ok s' \<and> sim_frame s s'"
  proof (cases "is_unit s")
    case False
    then show ?thesis using r S by (auto simp: ecall_fire_def)
  next
    case True
    obtain u where u: "ctx_unit s = Some u" "unit_stats_ok (w_rules (s_world s)) u"
      using sim_unit [OF S True] by metis
    show ?thesis
    proof (cases "canAttack u \<and> direction_of (int_arg mo s 0) \<noteq> None \<and> \<not> int_arg mo s 1 < 1
        \<and> \<not> int_arg mo s 1 > uint (u_energy u)
        \<and> \<not> int_arg mo s 1 * (if up_damage (u_upgrades u) then 2 else 1) > 255")
      case False
      then show ?thesis using r True u S
        by (auto simp: ecall_fire_def Let_def split: option.splits if_splits)
    next
      case fire: True
      let ?p = "int_arg mo s 1"
      obtain dir where dir: "direction_of (int_arg mo s 0) = Some dir" using fire by blast
      let ?f = "\<lambda>v. v\<lparr>u_energy := u_energy v - word_of_int ?p,
         u_pending_attack := \<lparr>pa_damage = word_of_int (?p * (if up_damage (u_upgrades u) then 2 else 1)),
                              pa_direction = dir\<rparr>,
         u_cooldown := gr_attack_cooldown (w_rules (s_world s))\<rparr>"
      have le: "word_of_int ?p \<le> u_energy u"
        by (rule word_of_int_le_uint) (use fire in auto)
      have e: "u_energy (?f u) \<le> maxCapacity (w_rules (s_world s)) u"
        using word_sub_le [OF le] u(2) order_trans by (fastforce simp: unit_stats_ok_def)
      obtain s1 where s1: "upd_ctx_unit ?f s = Some s1" "sim_ok s1" "sim_frame s s1"
        using sim_upd_unit [OF S True u(1), of ?f] e by auto
      have "s' = set_result mo OK s1"
        using r True u fire dir s1(1) by (simp add: ecall_fire_def Let_def)
      then show ?thesis using s1 by simp
    qed
  qed
next
  fix s :: "'a sim" assume S: "sim_ok s" "is_unit s"
  obtain a u where u: "c_unit (s_ctx s) = Some a" "ctx_unit s = Some u" "w_uheap (s_world s) a = Some u"
    using sim_unit [OF S] by metis
  then show "ecall_fire mo s \<noteq> None"
    using S(2) by (auto simp: ecall_fire_def Let_def upd_ctx_unit_def upd_unit_def split: option.splits)
qed

lemma ecall_move_ok: "handler_ok (ecall_move mo)"
proof -
  have step: "\<exists>s1. upd_ctx_unit (\<lambda>u. u\<lparr>u_pending_move := d\<rparr>) s = Some s1 \<and> sim_ok s1 \<and> sim_frame s s1"
    if S: "sim_ok s" "is_unit s" for s :: "'a sim" and d
  proof -
    obtain u where u: "ctx_unit s = Some u" "unit_stats_ok (w_rules (s_world s)) u" using sim_unit [OF S] by metis
    show ?thesis using sim_upd_unit [OF S u(1), of "\<lambda>u. u\<lparr>u_pending_move := d\<rparr>"] u(2)
      by (auto simp: unit_stats_ok_def)
  qed
  show ?thesis
  proof (rule handler_okI)
    fix s s' :: "'a sim" assume S: "sim_ok s" and r: "ecall_move mo s = Some s'"
    show "sim_ok s' \<and> sim_frame s s'"
    proof (cases "is_unit s \<and> \<not> f_move (c_flags (s_ctx s))")
      case False
      then show ?thesis using r S by (auto simp: ecall_move_def split: if_splits)
    next
      case True
      obtain s1 where s1: "upd_ctx_unit (\<lambda>u. u\<lparr>u_pending_move := direction_of (int_arg mo s 0)\<rparr>) s = Some s1"
        "sim_ok s1" "sim_frame s s1" using step [OF S] True by blast
      then show ?thesis using r True by (cases "direction_of (int_arg mo s 0)") (auto simp: ecall_move_def)
    qed
  next
    fix s :: "'a sim" assume S: "sim_ok s" "is_unit s"
    obtain s1 where "upd_ctx_unit (\<lambda>u. u\<lparr>u_pending_move := direction_of (int_arg mo s 0)\<rparr>) s = Some s1"
      using step [OF S] by blast
    then show "ecall_move mo s \<noteq> None"
      by (cases "direction_of (int_arg mo s 0)") (auto simp: ecall_move_def)
  qed
qed

lemma sim_upd_both:
  assumes S: "sim_ok s" and u: "is_unit s" "ctx_unit s = Some u"
    and e: "e \<le> maxCapacity (w_rules (s_world s)) u"
  shows "\<exists>s1. upd_ctx_unit (\<lambda>v. v\<lparr>u_energy := e\<rparr>) s = Some s1 \<and> ctx_player s1 = ctx_player s
    \<and> sim_ok (set_base_energy b s1) \<and> sim_frame s (set_base_energy b s1)
    \<and> ctx_unit (set_base_energy b s1) = Some (u\<lparr>u_energy := e\<rparr>)
    \<and> p_base_energy (ctx_player (set_base_energy b s1)) = b
    \<and> s_ctx (set_base_energy b s1) = s_ctx s \<and> s_machine (set_base_energy b s1) = s_machine s"
proof -
  let ?f = "\<lambda>v. v\<lparr>u_energy := e\<rparr>"
  obtain s1 where s1: "upd_ctx_unit ?f s = Some s1" "sim_ok s1" "sim_frame s s1" "s_ctx s1 = s_ctx s"
    "s_machine s1 = s_machine s" "ctx_unit s1 = Some (?f u)" "w_players (s_world s1) = w_players (s_world s)"
    using sim_upd_unit [OF S u, of ?f] e by auto
  note b = sim_upd_energy [OF s1(2), of b]
  have "ctx_unit (set_base_energy b s1) = ctx_unit s1" "s_machine (set_base_energy b s1) = s_machine s1"
    "p_base_energy (ctx_player (set_base_energy b s1)) = b"
    by (simp_all add: set_base_energy_def ctx_unit_def upd_player_def ctx_player_def cong: option.case_cong)
  then show ?thesis using s1 b sim_frame_trans [OF s1(3)] by (simp add: ctx_player_def)
qed

text \<open>
  What a deposit and a withdrawal do, with the numbers read off: the unit holds \<open>held\<close>, its base
  \<open>stock\<close>, the call asks for \<open>n\<close>.
\<close>

lemma ecall_deposit_unit:
  assumes S: "sim_ok s" and u: "is_unit s" "ctx_unit s = Some u"
    and n: "n = int_arg mo s 0" and held: "held = uint (u_energy u)"
    and stock: "stock = uint (p_base_energy (ctx_player s))"
  shows "\<exists>s'. ecall_deposit mo s = Some s' \<and> sim_ok s' \<and> sim_frame s s'
    \<and> (if f_deposit_withdraw (c_flags (s_ctx s)) then s' = set_result mo ON_COOLDOWN s
       else if n < 1 then s' = set_result mo OUT_OF_RANGE s
       else if n > held then s' = set_result mo INSUFFICIENT_ENERGY s
       else if \<not> isInBase (s_world s) (u_pos u) (c_player (s_ctx s)) then s' = set_result mo INVALID_UNIT s
       else s_machine s' = s_machine (set_result mo OK s)
         \<and> s_ctx s' = s_ctx (upd_flags (\<lambda>f. f\<lparr>f_deposit_withdraw := True\<rparr>) s)
         \<and> ctx_unit s' = Some (u\<lparr>u_energy := word_of_int (held - n)\<rparr>)
         \<and> uint (p_base_energy (ctx_player s')) = min 65535 (stock + n))"
proof (cases "f_deposit_withdraw (c_flags (s_ctx s)) \<or> n < 1 \<or> n > held
    \<or> \<not> isInBase (s_world s) (u_pos u) (c_player (s_ctx s))")
  case True
  then show ?thesis
    using S u unfolding n held by (auto simp: ecall_deposit_def Let_def)
next
  case False
  let ?e = "word_of_int (held - n) :: energy_t" and ?b = "word_of_int (min 65535 (stock + n)) :: energy_t"
  have eq: "u_energy u - word_of_int n = ?e" by (simp add: held)
  have "?e \<le> u_energy u" by (rule word_of_int_le_uint) (use False held in auto)
  moreover have "u_energy u \<le> maxCapacity (w_rules (s_world s)) u"
    using sim_unit [OF S u(1)] u(2) by (metis option.inject unit_stats_ok_def)
  ultimately have "?e \<le> maxCapacity (w_rules (s_world s)) u" by simp
  from sim_upd_both [OF S u this, of ?b] obtain s1 where
    s1: "upd_ctx_unit (\<lambda>v. v\<lparr>u_energy := ?e\<rparr>) s = Some s1" "ctx_player s1 = ctx_player s"
      "sim_ok (set_base_energy ?b s1)" "sim_frame s (set_base_energy ?b s1)"
      "ctx_unit (set_base_energy ?b s1) = Some (u\<lparr>u_energy := ?e\<rparr>)"
      "p_base_energy (ctx_player (set_base_energy ?b s1)) = ?b"
      "s_ctx (set_base_energy ?b s1) = s_ctx s" "s_machine (set_base_energy ?b s1) = s_machine s"
    by blast
  have same: "upd_ctx_unit (\<lambda>v. v\<lparr>u_energy := u_energy v - word_of_int n\<rparr>) s
      = upd_ctx_unit (\<lambda>v. v\<lparr>u_energy := ?e\<rparr>) s"
    using u eq by (auto simp: upd_ctx_unit_def upd_unit_def ctx_unit_def split: option.splits)
  let ?s = "set_result mo OK (upd_flags (\<lambda>f. f\<lparr>f_deposit_withdraw := True\<rparr>) (set_base_energy ?b s1))"
  have val: "(if stock + n > 65535 then 65535 else stock + n) = min 65535 (stock + n)" by simp
  have "ecall_deposit mo s = Some ?s"
    using False u same s1(1,2) unfolding n held stock
    by (simp add: ecall_deposit_def Let_def val [unfolded n stock])
  moreover have "uint ?b = min 65535 (stock + n)"
    by (rule uint_word_of_int_u16) (use False stock in auto)
  moreover have "s_machine ?s = s_machine (set_result mo OK s)"
    "s_ctx ?s = s_ctx (upd_flags (\<lambda>f. f\<lparr>f_deposit_withdraw := True\<rparr>) s)"
    using s1(7,8) by (simp_all add: set_result_def set_word_def upd_flags_def upd_ctx_def)
  moreover have "sim_ok ?s" "sim_frame s ?s" "ctx_unit ?s = Some (u\<lparr>u_energy := ?e\<rparr>)"
    "p_base_energy (ctx_player ?s) = ?b"
    using s1(3-6) by simp_all
  ultimately show ?thesis
    using False by auto
qed

lemma ecall_withdraw_unit:
  assumes S: "sim_ok s" and u: "is_unit s" "ctx_unit s = Some u"
    and n: "n = int_arg mo s 0" and held: "held = uint (u_energy u)"
    and stock: "stock = uint (p_base_energy (ctx_player s))"
    and room: "room = uint (maxCapacity (w_rules (s_world s)) u)"
  shows "\<exists>s'. ecall_withdraw mo s = Some s' \<and> sim_ok s' \<and> sim_frame s s'
    \<and> (if f_deposit_withdraw (c_flags (s_ctx s)) then s' = set_result mo ON_COOLDOWN s
       else if n < 1 then s' = set_result mo OUT_OF_RANGE s
       else if n > stock then s' = set_result mo INSUFFICIENT_ENERGY s
       else if \<not> isInBase (s_world s) (u_pos u) (c_player (s_ctx s)) then s' = set_result mo INVALID_UNIT s
       else s_machine s' = s_machine (set_result mo OK s)
         \<and> s_ctx s' = s_ctx (upd_flags (\<lambda>f. f\<lparr>f_deposit_withdraw := True\<rparr>) s)
         \<and> ctx_unit s' = Some (u\<lparr>u_energy := word_of_int (min room (held + n))\<rparr>)
         \<and> uint (p_base_energy (ctx_player s')) = stock - n)"
proof (cases "f_deposit_withdraw (c_flags (s_ctx s)) \<or> n < 1 \<or> n > stock
    \<or> \<not> isInBase (s_world s) (u_pos u) (c_player (s_ctx s))")
  case True
  then show ?thesis
    using S u unfolding n stock by (auto simp: ecall_withdraw_def Let_def)
next
  case False
  let ?e = "word_of_int (min room (held + n)) :: energy_t" and ?b = "word_of_int (stock - n) :: energy_t"
  have "0 \<le> held" by (simp add: held)
  then have "?e \<le> maxCapacity (w_rules (s_world s)) u"
    by (intro word_of_int_le_uint) (use False room in auto)
  from sim_upd_both [OF S u this, of ?b] obtain s1 where
    s1: "upd_ctx_unit (\<lambda>v. v\<lparr>u_energy := ?e\<rparr>) s = Some s1" "ctx_player s1 = ctx_player s"
      "sim_ok (set_base_energy ?b s1)" "sim_frame s (set_base_energy ?b s1)"
      "ctx_unit (set_base_energy ?b s1) = Some (u\<lparr>u_energy := ?e\<rparr>)"
      "p_base_energy (ctx_player (set_base_energy ?b s1)) = ?b"
      "s_ctx (set_base_energy ?b s1) = s_ctx s" "s_machine (set_base_energy ?b s1) = s_machine s"
    by blast
  let ?s = "set_result mo OK (upd_flags (\<lambda>f. f\<lparr>f_deposit_withdraw := True\<rparr>) (set_base_energy ?b s1))"
  have val: "(if held + n > room then room else held + n) = min room (held + n)" by simp
  have b: "p_base_energy (ctx_player s) - word_of_int n = ?b" by (simp add: stock)
  have "ecall_withdraw mo s = Some ?s"
    using False u b s1(1,2) unfolding n held stock room
    by (simp add: ecall_withdraw_def Let_def val [unfolded n held room])
  moreover have "uint ?b = stock - n"
    by (rule uint_word_of_int_u16) (use False stock uint_u16_lt [of "p_base_energy (ctx_player s)"] in auto)
  moreover have "s_machine ?s = s_machine (set_result mo OK s)"
    "s_ctx ?s = s_ctx (upd_flags (\<lambda>f. f\<lparr>f_deposit_withdraw := True\<rparr>) s)"
    using s1(7,8) by (simp_all add: set_result_def set_word_def upd_flags_def upd_ctx_def)
  moreover have "sim_ok ?s" "sim_frame s ?s" "ctx_unit ?s = Some (u\<lparr>u_energy := ?e\<rparr>)"
    "p_base_energy (ctx_player ?s) = ?b"
    using s1(3-6) by simp_all
  ultimately show ?thesis
    using False by auto
qed

lemma unit_call_ok:
  assumes "\<And>s. sim_ok s \<Longrightarrow> is_unit s \<Longrightarrow> \<exists>s'. h s = Some s' \<and> sim_ok s' \<and> sim_frame s s'"
    and "\<And>s. \<not> is_unit s \<Longrightarrow> h s = Some (set_result mo UNSUPPORTED_RUNTIME s)"
  shows "handler_ok h"
proof (rule handler_okI)
  show "sim_ok s' \<and> sim_frame s s'" if "sim_ok s" "h s = Some s'" for s s'
    using assms(1) [OF that(1)] assms(2) [of s] that by (cases "is_unit s") auto
  show "h s \<noteq> None" if "sim_ok s" "is_unit s" for s using assms(1) [OF that] by auto
qed

lemma ecall_deposit_ok: "handler_ok (ecall_deposit mo)"
proof (rule unit_call_ok [where mo = mo])
  fix s :: "'a sim" assume S: "sim_ok s" "is_unit s"
  obtain u where "ctx_unit s = Some u" using sim_unit [OF S] by metis
  from ecall_deposit_unit [OF S this refl refl refl]
  show "\<exists>s'. ecall_deposit mo s = Some s' \<and> sim_ok s' \<and> sim_frame s s'" by blast
qed (simp add: ecall_deposit_def)

lemma ecall_withdraw_ok: "handler_ok (ecall_withdraw mo)"
proof (rule unit_call_ok [where mo = mo])
  fix s :: "'a sim" assume S: "sim_ok s" "is_unit s"
  obtain u where "ctx_unit s = Some u" using sim_unit [OF S] by metis
  from ecall_withdraw_unit [OF S this refl refl refl refl]
  show "\<exists>s'. ecall_withdraw mo s = Some s' \<and> sim_ok s' \<and> sim_frame s s'" by blast
qed (simp add: ecall_withdraw_def)

subsection \<open>The whole table\<close>

text \<open>
  The environment of a run: a distribution that stays within its bounds and a machine whose copies
  have the length asked for.
\<close>

locale runtime_env = std_random +
  fixes mo :: "'m machine_ops"
  assumes machine: "machine_ok mo"

lemma handler_if:
  "handler_ok f \<Longrightarrow> handler_ok g \<Longrightarrow> handler_ok (\<lambda>s. if c then f s else g s)"
  by (cases c) simp_all

context runtime_env begin

lemma heap_call_ok: "handler_ok (\<lambda>s. Some (s\<lparr>s_machine := mo_heap_call mo n (s_machine s)\<rparr>))"
  by (rule handler_okI) auto

lemma dispatch_ok: "handler_ok (dispatch mo uniform_int n)"
proof -
  note table = ecall_abort_ok [of mo] ecall_log_ok [OF machine] simple_ecalls_ok [of mo]
    ecall_read_sensor_ok [of mo] ecall_recv_msg_ok [of mo] ecall_send_msg_ok [OF machine]
    ecall_manufact_ok [of mo] ecall_repair_ok [of mo] ecall_upgrade_ok [of mo] ecall_fire_ok [of mo]
    ecall_move_ok [of mo] ecall_deposit_ok [of mo] ecall_withdraw_ok [of mo] heap_call_ok [of n]
  have none: "handler_ok (\<lambda>s :: 'm sim. Some s)" by (rule handler_okI) auto
  have dispatch: "dispatch mo uniform_int n = (\<lambda>s. dispatch mo uniform_int n s)" by simp
  show ?thesis
    by (subst dispatch, unfold dispatch_def) (intro handler_if table none)
qed

end

sublocale runtime_env \<subseteq> syscall_table "dispatch mo uniform_int"
  by unfold_locales (use dispatch_ok in \<open>auto simp: handler_ok_def\<close>)

text \<open>
  A small instance of the machine: its program is a list of calls, three bytes each (number and two
  arguments), its memory reads as zeros.
\<close>

record script =
  sc_calls :: "(nat \<times> u32 list) list"
  sc_args :: "u32 list"
  sc_result :: u32

fun decode_calls :: "byte list \<Rightarrow> (nat \<times> u32 list) list" where
  "decode_calls (n # a # b # rest) = (unat n, [ucast a, ucast b]) # decode_calls rest"
| "decode_calls _ = []"

definition script_ops :: "script machine_ops" where
  "script_ops = \<lparr>
     mo_construct = (\<lambda>elf. if elf = [] then Inl RV_INVALID_PROGRAM
       else Inr \<lparr>sc_calls = decode_calls elf, sc_args = [], sc_result = 0\<rparr>),
     mo_setup = (\<lambda>m. m),
     mo_sysarg = (\<lambda>m k. if k < length (sc_args m) then sc_args m ! k else 0),
     mo_set_result = (\<lambda>m r. m\<lparr>sc_result := r\<rparr>),
     mo_copy_from_guest = (\<lambda>m p n. Some (replicate n 0)),
     mo_copy_to_guest = (\<lambda>m p bs. Some m),
     mo_penalize = (\<lambda>m n. m),
     mo_stop = (\<lambda>m. m\<lparr>sc_calls := []\<rparr>),
     mo_heap_call = (\<lambda>n m. m),
     mo_start = (\<lambda>m n. m),
     mo_next = (\<lambda>m. case sc_calls m of [] \<Rightarrow> Stopped m
       | (n, args) # cs \<Rightarrow> Syscall n (m\<lparr>sc_calls := cs, sc_args := args\<rparr>))\<rparr>"

interpretation script: runtime_env uniform_mod script_ops
  by unfold_locales (simp add: machine_ok_def script_ops_def)

end
