(* ===== verification/World_Turn.thy ===== *)
theory World_Turn
  imports World_Actions
begin

text \<open>
  What the bullet phase and the movement phase leave alone: carried energy, upgrades, messages and
  the size of log entries, while health only falls. From it the bounds of the units' figures carry
  over from one turn to the next.
\<close>

definition unharmed :: "game_unit \<Rightarrow> game_unit \<Rightarrow> bool" where
  "unharmed u u' \<longleftrightarrow> u_health u' \<le> u_health u \<and> u_energy u' = u_energy u \<and> u_upgrades u' = u_upgrades u
     \<and> u_player u' = u_player u \<and> u_id u' = u_id u"

definition calm :: "world \<Rightarrow> world \<Rightarrow> bool" where
  "calm w w' \<longleftrightarrow> set (w_units w') \<subseteq> set (w_units w) \<and> w_rules w' = w_rules w
     \<and> (\<forall>a u'. w_uheap w' a = Some u' \<longrightarrow> (\<exists>u. w_uheap w a = Some u \<and> unharmed u u'))
     \<and> (\<forall>s. p_incoming (w_players w' s) = p_incoming (w_players w s)
          \<and> p_outgoing (w_players w' s) = p_outgoing (w_players w s))
     \<and> (payloads_ok w \<longrightarrow> payloads_ok w')"

lemma unharmed_refl [simp]: "unharmed u u"
  by (simp add: unharmed_def)

lemma unharmed_trans: "unharmed u v \<Longrightarrow> unharmed v x \<Longrightarrow> unharmed u x"
  by (auto simp: unharmed_def)

lemma calm_refl [simp]: "calm w w"
  by (auto simp: calm_def)

lemma calm_trans:
  assumes "calm w w1" "calm w1 w2" shows "calm w w2"
proof -
  have "\<exists>u. w_uheap w a = Some u \<and> unharmed u u'" if u': "w_uheap w2 a = Some u'" for a u'
  proof -
    obtain v where v: "w_uheap w1 a = Some v" "unharmed v u'" using assms(2) u' unfolding calm_def by blast
    then obtain u where "w_uheap w a = Some u" "unharmed u v" using assms(1) unfolding calm_def by blast
    then show ?thesis using unharmed_trans v(2) by blast
  qed
  then show ?thesis using assms unfolding calm_def by auto
qed

lemma calm_io: "calm w w' \<Longrightarrow> io_ok w \<Longrightarrow> io_ok w'"
  by (simp add: calm_def io_ok_def messages_ok_def)

lemma calm_stats:
  assumes "calm w w'" "stats_ok w" shows "stats_ok w'"
  unfolding stats_ok_def
proof (intro ballI allI impI)
  fix a u' assume a: "a \<in> set (w_units w')" "w_uheap w' a = Some u'"
  then obtain u where u: "w_uheap w a = Some u" "unharmed u u'" "a \<in> set (w_units w)" "w_rules w' = w_rules w"
    using assms(1) unfolding calm_def by blast
  then have "unit_stats_ok (w_rules w) u" using assms(2) by (auto simp: stats_ok_def)
  then show "unit_stats_ok (w_rules w') u'"
    using u(2,4) by (auto simp: unit_stats_ok_def unharmed_def maxHealth_def maxCapacity_def)
qed

text \<open>The primitive operations, each after a calm prefix.\<close>

lemma calm_upd_bullet:
  assumes "calm w w1" "\<And>w2. calm w w2 \<Longrightarrow> w_uheap w2 = w_uheap w1 \<Longrightarrow> Q w2"
  shows "on_result Q (upd_bullet a f w1)"
proof (rule on_resultI)
  fix w2 assume r: "upd_bullet a f w1 = Some w2"
  then have "calm w1 w2" "w_uheap w2 = w_uheap w1" by (auto simp: calm_def payloads_ok_def)
  then show "Q w2" using assms calm_trans by blast
qed

lemma calm_upd_unit:
  assumes "calm w w1" "\<And>u. w_uheap w1 a = Some u \<Longrightarrow> unharmed u (f u)" "\<And>w2. calm w w2 \<Longrightarrow> Q w2"
  shows "on_result Q (upd_unit a f w1)"
proof (rule on_resultI)
  fix w2 assume "upd_unit a f w1 = Some w2"
  then have "calm w1 w2" using assms(2) by (auto simp: calm_def payloads_ok_def split: if_splits)
  then show "Q w2" using assms calm_trans by blast
qed

lemma calm_set_occ:
  assumes "calm w w1" "\<And>w2. calm w w2 \<Longrightarrow> w_uheap w2 = w_uheap w1 \<Longrightarrow> Q w2"
  shows "on_result Q (set_occ p k w1)"
proof (rule on_resultI)
  fix w2 assume "set_occ p k w1 = Some w2"
  then have "calm w1 w2" "w_uheap w2 = w_uheap w1"
    by (auto simp: calm_def payloads_ok_def set_occ_def upd_tile_def)
  then show "Q w2" using assms calm_trans by blast
qed

lemma calm_set_slot:
  assumes "calm w w1" "\<And>w2. calm w w2 \<Longrightarrow> w_uheap w2 = w_uheap w1 \<Longrightarrow> Q w2"
  shows "on_result Q (set_slot s i p w1)"
proof (rule on_resultI)
  fix w2 assume "set_slot s i p w1 = Some w2"
  then have "calm w1 w2" "w_uheap w2 = w_uheap w1"
    by (auto simp: calm_def payloads_ok_def set_slot_def upd_player_def split: if_splits)
  then show "Q w2" using assms calm_trans by blast
qed

lemma calm_simps [simp]:
  "calm w (w1\<lparr>w_next := n\<rparr>) = calm w w1" "calm w (w1\<lparr>w_bheap := bh\<rparr>) = calm w w1"
  "calm w (w1\<lparr>w_bullets := bs\<rparr>) = calm w w1" "calm w (set_event e w1) = calm w w1"
  by (simp_all add: calm_def payloads_ok_def set_event_def)

lemma calm_append:
  "calm w w1 \<Longrightarrow> length (le_payload e) \<le> 512 \<Longrightarrow> calm w (appendLog e w1)"
  by (auto simp: calm_def payloads_ok_def appendLog_def)

lemmas calm_steps = calm_upd_bullet calm_upd_unit calm_set_occ calm_set_slot

lemma unharmed_simps [simp]:
  "unharmed u (u\<lparr>u_health := h\<rparr>) \<longleftrightarrow> h \<le> u_health u"
  "unharmed u (u\<lparr>u_cooldown := c\<rparr>)" "unharmed u (u\<lparr>u_cooldown := c, u_pending_attack := k\<rparr>)"
  "unharmed u (u\<lparr>u_pending_move := d\<rparr>)" "unharmed u (u\<lparr>u_x := x, u_y := y\<rparr>)"
  by (simp_all add: unharmed_def)

subsection \<open>The bullet phase\<close>

text \<open>Reads of the state come first in an operation; what they return is kept as a fact.\<close>

lemma calm_reads:
  "(\<And>t. world_tile w p = Some t \<Longrightarrow> Q t) \<Longrightarrow> on_result Q (world_tile w p)"
  "(\<And>u. w_uheap w a = Some u \<Longrightarrow> R u) \<Longrightarrow> on_result R (w_uheap w a)"
  "(\<And>b. w_bheap w a = Some b \<Longrightarrow> S b) \<Longrightarrow> on_result S (w_bheap w a)"
  by (simp_all add: on_result_def)

lemma calm_collision:
  assumes "calm w w1" "\<And>w2. calm w w2 \<Longrightarrow> Q w2"
  shows "on_result Q (handleBulletCollision a p w1)"
proof -
  have le: "h - d \<le> h" if "\<not> h < d" for h d :: u8
    using that by (simp add: word_sub_le)
  show ?thesis
    unfolding handleBulletCollision_def
    by (auto simp del: upd_unit_Some upd_bullet_Some split: occupant.split
        intro!: calm_reads calm_steps intro: assms le)
qed

lemma calm_fold:
  assumes "calm w w1" "\<And>w2. calm w w2 \<Longrightarrow> Q w2"
    and "\<And>x w1. x \<in> set xs \<Longrightarrow> calm w w1 \<Longrightarrow> on_result (calm w) (f x w1)"
  shows "on_result Q (foldM f xs w1)"
  using on_result_foldM [of "calm w" w1 xs f] assms by (blast intro: on_result_mono)

lemma calm_bullet_step: "calm w w1 \<Longrightarrow> on_result (calm w) (stepBullet a w1)"
  unfolding stepBullet_def moveBulletOneStep_def
  by (auto simp del: upd_unit_Some upd_bullet_Some simp: Let_def intro!: calm_reads calm_steps calm_collision)

lemma calm_commit: "calm w w1 \<Longrightarrow> on_result (calm w) (commitPendingAttack c w1)"
  unfolding commitPendingAttack_def
  by (auto simp del: upd_unit_Some upd_bullet_Some simp: Let_def intro!: calm_reads calm_steps calm_collision)

lemma calm_bullets: "on_result (calm w) (processBulletMovement w)"
  unfolding processBulletMovement_def forM_def bullet_substep_def commitPendingAttacks_def erase_bullets_def
  by (auto intro!: calm_fold calm_bullet_step calm_commit)

subsection \<open>The movement phase\<close>

lemma calm_cleanup: "calm w w1 \<Longrightarrow> on_result (calm w) (cleanup_unit a w1)"
  unfolding cleanup_unit_def
  by (auto simp: Let_def intro!: calm_reads calm_set_slot calm_set_occ calm_append system_payload_bound)

lemma calm_erase_units:
  assumes "calm w w1" shows "on_result (calm w) (erase_units w1)"
  using assms unfolding erase_units_def by (auto simp: calm_def payloads_ok_def)

lemma calm_execute: "calm w w1 \<Longrightarrow> on_result (calm w) (execute_moves active tgt w1)"
  unfolding execute_moves_def leave_tile_def enter_tile_def reset_pending_def Let_def
  by (auto simp del: upd_unit_Some intro!: calm_fold calm_reads calm_set_occ calm_upd_unit)

lemma calm_movement: "on_result (calm w) (processUnitMovement w)"
  unfolding processUnitMovement_def cleanup_units_def
  by (auto intro!: calm_fold calm_cleanup on_resultI [where m = "resolve_moves _"] calm_execute
      on_result_mono [OF calm_erase_units])

subsection \<open>The capture check\<close>

lemma calm_counter [simp]:
  "calm w (upd_player s (\<lambda>p. p\<lparr>p_base_capture_counter := c p\<rparr>) w1) = calm w w1"
  "calm w (w1\<lparr>w_winner := n, w_reason := r\<rparr>) = calm w w1"
proof -
  let ?w = "upd_player s (\<lambda>p. p\<lparr>p_base_capture_counter := c p\<rparr>) w1"
  have "p_incoming (w_players ?w t) = p_incoming (w_players w1 t)"
    "p_outgoing (w_players ?w t) = p_outgoing (w_players w1 t)" for t
    by (simp_all add: upd_player_def)
  moreover have "w_units ?w = w_units w1" "w_rules ?w = w_rules w1" "w_uheap ?w = w_uheap w1"
    "w_logs ?w = w_logs w1" by (simp_all add: upd_player_def)
  ultimately show "calm w ?w = calm w w1" by (simp add: calm_def payloads_ok_def)
qed (simp add: calm_def payloads_ok_def)

lemma calm_capture: "on_result (calm w) (checkBaseCaptureCondition w)"
proof -
  have vic: "on_result (calm w) (captureVictory s w1)" if "calm w w1" for s w1
    using that by (cases s) (auto simp: captureVictory_eq toBytes_def intro!: calm_append)
  have upd: "on_result (calm w) (update_capture_counter s w1)" if "calm w w1" for s w1
    unfolding update_capture_counter_def
    by (auto intro!: on_resultI [where m = "foldM _ _ _"] simp: that)
  show ?thesis
    unfolding checkBaseCaptureCondition_def
    by (auto simp: Let_def simp del: foldM.simps intro!: calm_fold upd vic)
qed

end
