(* ===== verification/World_Step.thy ===== *)
theory World_Step
  imports Runtime_Safe World_Turn
begin

text \<open>
  One turn of a match: \<open>Player::step\<close> and \<open>World::step\<close> (\<open>src/world.cpp\<close>), \<open>Unit::step\<close>
  (\<open>src/entity.cpp\<close>). The machine and the call context that a player and a unit own are kept
  beside the world, in a node per player and per unit address. \<open>Seed::deviceRandom()\<close> draws from
  the sequence \<open>mt_entropy\<close>.
\<close>

record 'm node =
  n_machine :: "'m option"
  n_ctx :: ecall_ctx

definition fresh_node :: "'m node" where
  "fresh_node = \<lparr>n_machine = None, n_ctx = fresh_ctx\<rparr>"

record 'm match =
  mt_world :: world
  mt_bases :: "side \<Rightarrow> 'm node"
  mt_units :: "addr \<Rightarrow> 'm node"
  mt_entropy :: "nat \<Rightarrow> seed"

definition new_match :: "world \<Rightarrow> (nat \<Rightarrow> seed) \<Rightarrow> 'm match" where
  "new_match w ent =
     \<lparr>mt_world = w, mt_bases = (\<lambda>_. fresh_node), mt_units = (\<lambda>_. fresh_node), mt_entropy = ent\<rparr>"

subsection \<open>Running one program\<close>

text \<open>The machine of a node, created and bound when there is none.\<close>

definition load_machine ::
    "'m machine_ops \<Rightarrow> byte list \<Rightarrow> 'm node \<Rightarrow> (nat \<Rightarrow> seed)
       \<Rightarrow> stopped_reason + 'm \<times> ecall_ctx \<times> (nat \<Rightarrow> seed)" where
  "load_machine mo elf nd ent = (case n_machine nd of
       Some mach \<Rightarrow> Inr (mach, n_ctx nd, ent)
     | None \<Rightarrow> (case createMachineFromELF mo elf of
         Inl reason \<Rightarrow> Inl reason
       | Inr mach \<Rightarrow> Inr (mo_setup mo mach, bind_ctx (ent 0) (n_ctx nd), (\<lambda>k. ent (k + 1)))))"

definition log_exception :: "side \<Rightarrow> u8 \<Rightarrow> stopped_reason \<Rightarrow> world \<Rightarrow> world option" where
  "log_exception s i reason w =
     map_option (\<lambda>e. appendLog e w) (executionExceptionLog (w_tick w) (side_id s) i reason)"

text \<open>The node after a run: a machine that stopped for a reason is dropped.\<close>

definition node_after :: "'m sim \<Rightarrow> 'm node" where
  "node_after r =
     \<lparr>n_machine = (if c_stop_reason (s_ctx r) \<noteq> NOT_STOPPED then None else Some (s_machine r)),
      n_ctx = s_ctx r\<rparr>"

definition player_step ::
    "'m machine_ops \<Rightarrow> uniform \<Rightarrow> side \<Rightarrow> 'm match \<Rightarrow> 'm match option" where
  "player_step mo uniform_int s m =
     (let w = upd_player s (\<lambda>p. p\<lparr>p_incoming := p_outgoing p, p_outgoing := []\<rparr>) (mt_world m);
          crash = upd_player s (\<lambda>p. p\<lparr>p_base_elf_crash_flag := True\<rparr>) in
      case load_machine mo (p_base_elf (w_players w s)) (mt_bases m s) (mt_entropy m) of
        Inl reason \<Rightarrow> do {
          w \<leftarrow> log_exception s 0 reason w;
          Some (m\<lparr>mt_world := crash w\<rparr>)
        }
      | Inr (mach, ctx, ent) \<Rightarrow> do {
          r \<leftarrow> simulate mo uniform_int s None w ctx mach;
          w \<leftarrow> (if c_stop_reason (s_ctx r) \<noteq> NOT_STOPPED
               then map_option crash (log_exception s 0 (c_stop_reason (s_ctx r)) (s_world r))
               else Some (s_world r));
          Some (m\<lparr>mt_world := w, mt_bases := (mt_bases m)(s := node_after r), mt_entropy := ent\<rparr>)
        })"

definition unit_step ::
    "'m machine_ops \<Rightarrow> uniform \<Rightarrow> addr \<Rightarrow> 'm match \<Rightarrow> 'm match option" where
  "unit_step mo uniform_int a m = do {
     u \<leftarrow> w_uheap (mt_world m) a;
     if u_health u = 0 then Some m
     else do {
       w \<leftarrow> upd_unit a (\<lambda>u. if u_cooldown u > 0 then u\<lparr>u_cooldown := u_cooldown u - 1\<rparr> else u) (mt_world m);
       visible \<leftarrow> compute_vision (w_map w) (visionRange (w_rules w) u) (u_x u) (u_y u);
       let nd = (mt_units m a)\<lparr>n_ctx := (n_ctx (mt_units m a))\<lparr>c_visible_tiles := visible\<rparr>\<rparr>;
       let s = u_player u;
       let crash = upd_player s (\<lambda>p. p\<lparr>p_unit_elf_crash_flag := True\<rparr>);
       (case load_machine mo (p_unit_elf (w_players w s)) nd (mt_entropy m) of
          Inl reason \<Rightarrow> do {
            w \<leftarrow> log_exception s (u_id u) reason w;
            Some (m\<lparr>mt_world := crash w, mt_units := (mt_units m)(a := nd)\<rparr>)
          }
        | Inr (mach, ctx, ent) \<Rightarrow> do {
            r \<leftarrow> simulate mo uniform_int s (Some a) w ctx mach;
            u \<leftarrow> w_uheap (s_world r) a;
            w \<leftarrow> (if c_stop_reason (s_ctx r) \<noteq> NOT_STOPPED
                 then map_option crash (log_exception (u_player u) (u_id u) (c_stop_reason (s_ctx r)) (s_world r))
                 else Some (s_world r));
            Some (m\<lparr>mt_world := w, mt_units := (mt_units m)(a := node_after r), mt_entropy := ent\<rparr>)
          })
     }
   }"

text \<open>\<open>World::step\<close>, up to the programs and with them.\<close>

definition turn_start :: "world \<Rightarrow> world" where
  "turn_start w = w\<lparr>w_events := no_events, w_logs := [], w_tick := w_tick w + 1\<rparr>"

definition world_phases :: "world \<Rightarrow> world option" where
  "world_phases w = do {
     w \<leftarrow> processBulletMovement (turn_start w);
     w \<leftarrow> processUnitMovement w;
     checkBaseCaptureCondition w
   }"

definition match_step :: "'m machine_ops \<Rightarrow> uniform \<Rightarrow> 'm match \<Rightarrow> 'm match option" where
  "match_step mo uniform_int m =
     (if gameOver (mt_world m) then Some m
      else do {
        w \<leftarrow> world_phases (mt_world m);
        if gameOver w then Some (m\<lparr>mt_world := w\<rparr>)
        else do {
          w \<leftarrow> collectEnergy w;
          m \<leftarrow> foldM (player_step mo uniform_int) [P1, P2] (m\<lparr>mt_world := w\<rparr>);
          foldM (unit_step mo uniform_int) (w_units (mt_world m)) m
        }
      })"

subsection \<open>The invariant of a match\<close>

definition quotas_ok :: "'m match \<Rightarrow> bool" where
  "quotas_ok m \<longleftrightarrow> (\<forall>s. c_log_quota (n_ctx (mt_bases m s)) \<le> MAX_LOG_QUOTA)
     \<and> (\<forall>a. c_log_quota (n_ctx (mt_units m a)) \<le> MAX_LOG_QUOTA)"

definition running_ok :: "'m match \<Rightarrow> bool" where
  "running_ok m \<longleftrightarrow> turn_inv (mt_world m) \<and> io_ok (mt_world m) \<and> quotas_ok m"

definition match_ok :: "'m match \<Rightarrow> bool" where
  "match_ok m \<longleftrightarrow> running_ok m \<and> (gameOver (mt_world m) \<or> capture_inv (mt_world m))"

lemma io_ok_appendLog: "io_ok w \<Longrightarrow> length (le_payload e) \<le> 512 \<Longrightarrow> io_ok (appendLog e w)"
  by (auto simp: io_ok_def payloads_ok_def messages_ok_def appendLog_def)

lemma log_exception_ok:
  assumes "turn_inv w" "io_ok w"
  shows "\<exists>w'. log_exception s i reason w = Some w' \<and> turn_inv w' \<and> io_ok w' \<and> action_frame w w'
    \<and> w_uheap w' = w_uheap w \<and> w_units w' = w_units w"
proof -
  obtain e where e: "executionExceptionLog (w_tick w) (side_id s) i reason = Some e" by simp
  then have "io_ok (appendLog e w)" using io_ok_appendLog assms(2) system_payload_bound(3) by blast
  moreover have "turn_inv (appendLog e w)" using assms(1) by (rule turn_inv_appendLog)
  moreover have "log_exception s i reason w = Some (appendLog e w)" by (simp only: log_exception_def e option.map)
  moreover have "action_frame w (appendLog e w)" by (simp add: action_frame_def appendLog_def)
  ultimately show ?thesis by (auto simp: appendLog_def)
qed

text \<open>Changes of a player that keep its slots, base position and capture counter.\<close>

lemma player_change_ok:
  assumes I: "turn_inv w" "io_ok w"
    and f: "\<And>p. p_units (f p) = p_units p" "\<And>p. p_base_x (f p) = p_base_x p"
      "\<And>p. p_base_y (f p) = p_base_y p" "\<And>p. p_base_capture_counter (f p) = p_base_capture_counter p"
      "\<And>p. set (p_incoming (f p)) \<union> set (p_outgoing (f p)) \<subseteq> set (p_incoming p) \<union> set (p_outgoing p)"
  shows "turn_inv (upd_player s f w)" "io_ok (upd_player s f w)" "action_frame w (upd_player s f w)"
    "w_uheap (upd_player s f w) = w_uheap w" "w_units (upd_player s f w) = w_units w"
proof -
  show "turn_inv (upd_player s f w)" by (rule turn_inv_upd_player [OF I(1) f(1-3)])
  have "messages_ok (upd_player s f w)"
    unfolding messages_ok_def
  proof (intro allI ballI)
    fix t m assume "m \<in> set (p_incoming (w_players (upd_player s f w) t))
      \<union> set (p_outgoing (w_players (upd_player s f w) t))"
    then have "m \<in> set (p_incoming (w_players w t)) \<union> set (p_outgoing (w_players w t))"
      using f(5) [of "w_players w s"] by (auto simp: upd_player_def split: if_splits)
    then show "1 \<le> length (mp_data m) \<and> length (mp_data m) \<le> packet_size
        \<and> mp_length m = word_of_nat (length (mp_data m))"
      using I(2) by (auto simp: io_ok_def messages_ok_def)
  qed
  then show "io_ok (upd_player s f w)" using I(2) by (simp add: io_ok_def payloads_ok_def upd_player_def)
  show "action_frame w (upd_player s f w)"
    using winv_upd_player(2) [OF turn_invD(1) [OF I(1)] f(1-3)] f(4)
    by (simp add: action_frame_def upd_player_def)
qed (simp_all add: upd_player_def)

subsection \<open>Programs keep the invariant\<close>

lemma begin_simulation_simps [simp]:
  "c_unit (begin_simulation s u c) = u" "c_player (begin_simulation s u c) = s"
  "c_visible_tiles (begin_simulation s u c) = c_visible_tiles c"
  "c_log_quota (begin_simulation s u c) \<le> MAX_LOG_QUOTA"
  by (simp_all add: begin_simulation_def Let_def not_less)

lemma bind_ctx_simps [simp]:
  "c_log_quota (bind_ctx sd c) = c_log_quota c" "c_visible_tiles (bind_ctx sd c) = c_visible_tiles c"
  by (simp_all add: bind_ctx_def)

lemma load_machine_ctx:
  "load_machine mo elf nd ent = Inr (mach, ctx, ent') \<Longrightarrow> c_visible_tiles ctx = c_visible_tiles (n_ctx nd)"
  by (auto simp: load_machine_def split: option.splits sum.splits)

lemma quotas_ok_upd:
  "quotas_ok m \<Longrightarrow> c_log_quota (n_ctx nd) \<le> MAX_LOG_QUOTA \<Longrightarrow>
     quotas_ok (m\<lparr>mt_world := w, mt_bases := (mt_bases m)(s := nd), mt_entropy := ent\<rparr>)"
  "quotas_ok m \<Longrightarrow> c_log_quota (n_ctx nd) \<le> MAX_LOG_QUOTA \<Longrightarrow>
     quotas_ok (m\<lparr>mt_world := w, mt_units := (mt_units m)(a := nd), mt_entropy := ent\<rparr>)"
  "quotas_ok m \<Longrightarrow> c_log_quota (n_ctx nd) \<le> MAX_LOG_QUOTA \<Longrightarrow>
     quotas_ok (m\<lparr>mt_world := w, mt_units := (mt_units m)(a := nd)\<rparr>)"
  "quotas_ok (m\<lparr>mt_world := w\<rparr>) = quotas_ok m"
  by (auto simp: quotas_ok_def)

lemma running_okI:
  "turn_inv (mt_world m) \<Longrightarrow> io_ok (mt_world m) \<Longrightarrow> quotas_ok m \<Longrightarrow> running_ok m"
  by (simp add: running_ok_def)

context runtime_env begin

lemma simulate_ok:
  assumes I: "turn_inv w" "io_ok w"
    and u: "\<And>a. u = Some a \<Longrightarrow> a \<in> set (w_units w) \<and> (\<exists>v. w_uheap w a = Some v \<and>
       length (c_visible_tiles c) = nat (visionRange (w_rules w) v * visionRange (w_rules w) v))"
  shows "simulate mo uniform_int s u w c mach = Some r \<Longrightarrow>
      sim_ok r \<and> action_frame w (s_world r) \<and> c_player (s_ctx r) = s \<and> c_unit (s_ctx r) = u"
    "u = Some a \<Longrightarrow> \<exists>r. simulate mo uniform_int s u w c mach = Some r"
proof -
  let ?s = "\<lparr>s_world = w, s_ctx = begin_simulation s u c, s_machine = mo_start mo mach max_cycles\<rparr>"
  have ok: "sim_ok ?s" using I u by (auto simp: sim_ok_def)
  show "sim_ok r \<and> action_frame w (s_world r) \<and> c_player (s_ctx r) = s \<and> c_unit (s_ctx r) = u"
    if "simulate mo uniform_int s u w c mach = Some r"
    using run_loop_safe [OF that [unfolded simulate_def] ok] by (simp add: sim_frame_def)
  show "\<exists>r. simulate mo uniform_int s u w c mach = Some r" if "u = Some a"
    using run_loop_unit_total [OF ok] that by (simp add: simulate_def is_unit_def)
qed

text \<open>What happens to the world after a run: the exception is logged and the flag set.\<close>

lemma after_run_ok:
  assumes "sim_ok r" "\<And>w. turn_inv w \<Longrightarrow> io_ok w \<Longrightarrow> turn_inv (crash w) \<and> io_ok (crash w) \<and> action_frame w (crash w)"
  shows "\<exists>w. (if c_stop_reason (s_ctx r) \<noteq> NOT_STOPPED
       then map_option crash (log_exception s i (c_stop_reason (s_ctx r)) (s_world r))
       else Some (s_world r)) = Some w \<and> turn_inv w \<and> io_ok w \<and> action_frame (s_world r) w"
proof -
  have I: "turn_inv (s_world r)" "io_ok (s_world r)" using assms(1) by (simp_all add: sim_ok_def)
  obtain w where w: "log_exception s i (c_stop_reason (s_ctx r)) (s_world r) = Some w"
    "turn_inv w" "io_ok w" "action_frame (s_world r) w" using log_exception_ok [OF I] by blast
  have "action_frame (s_world r) (crash w)" using action_frame_trans w(4) assms(2) [OF w(2,3)] by blast
  then show ?thesis using w I assms(2) [OF w(2,3)] by simp
qed

lemma player_step_ok:
  assumes M: "running_ok m" and r: "player_step mo uniform_int s m = Some m'"
  shows "running_ok m' \<and> action_frame (mt_world m) (mt_world m')"
proof -
  let ?w = "upd_player s (\<lambda>p. p\<lparr>p_incoming := p_outgoing p, p_outgoing := []\<rparr>) (mt_world m)"
  let ?crash = "upd_player s (\<lambda>p. p\<lparr>p_base_elf_crash_flag := True\<rparr>)"
  have I0: "turn_inv (mt_world m)" "io_ok (mt_world m)" "quotas_ok m" using M by (simp_all add: running_ok_def)
  note I = player_change_ok [OF I0(1,2), of "\<lambda>p. p\<lparr>p_incoming := p_outgoing p, p_outgoing := []\<rparr>" s, simplified]
  have crash: "turn_inv (?crash w) \<and> io_ok (?crash w) \<and> action_frame w (?crash w)"
    if "turn_inv w" "io_ok w" for w
    using player_change_ok(1-3) [OF that, of "\<lambda>p. p\<lparr>p_base_elf_crash_flag := True\<rparr>" s] by simp
  show ?thesis
  proof (cases "load_machine mo (p_base_elf (w_players ?w s)) (mt_bases m s) (mt_entropy m)")
    case (Inl reason)
    obtain w where w: "log_exception s 0 reason ?w = Some w" "turn_inv w" "io_ok w" "action_frame ?w w"
      using log_exception_ok [OF I(1,2)] by blast
    then have m': "m' = m\<lparr>mt_world := ?crash w\<rparr>" using r Inl by (simp add: player_step_def Let_def)
    have "action_frame (mt_world m) (?crash w)"
      using action_frame_trans I(3) w(4) crash [OF w(2,3)] by blast
    then show ?thesis using m' crash [OF w(2,3)] I0(3) by (simp add: running_ok_def quotas_ok_def)
  next
    case (Inr l)
    obtain mach ctx ent where l: "l = (mach, ctx, ent)" by (cases l)
    obtain q where q: "simulate mo uniform_int s None ?w ctx mach = Some q"
      using r Inr l by (auto simp: player_step_def Let_def bind_eq_Some_conv)
    from simulate_ok(1) [OF I(1,2) _ q] have Q: "sim_ok q" "action_frame ?w (s_world q)" by simp_all
    obtain w where w: "(if c_stop_reason (s_ctx q) \<noteq> NOT_STOPPED
         then map_option ?crash (log_exception s 0 (c_stop_reason (s_ctx q)) (s_world q))
         else Some (s_world q)) = Some w" "turn_inv w" "io_ok w" "action_frame (s_world q) w"
      using after_run_ok [OF Q(1) crash] by blast
    have m': "m' = m\<lparr>mt_world := w, mt_bases := (mt_bases m)(s := node_after q), mt_entropy := ent\<rparr>"
      using r Inr l q w(1) by (simp add: player_step_def Let_def)
    have "quotas_ok m'"
      unfolding m' by (rule quotas_ok_upd(1) [OF I0(3)]) (use Q(1) in \<open>simp add: node_after_def sim_ok_def\<close>)
    moreover have "action_frame (mt_world m) w" using action_frame_trans I(3) Q(2) w(4) by blast
    ultimately show ?thesis using m' w by (simp add: running_ok_def)
  qed
qed

lemma unit_step_ok:
  assumes M: "running_ok m" and a: "a \<in> set (w_units (mt_world m))"
  shows "\<exists>m'. unit_step mo uniform_int a m = Some m' \<and> running_ok m'
    \<and> action_frame (mt_world m) (mt_world m')"
proof -
  have I0: "turn_inv (mt_world m)" "io_ok (mt_world m)" "quotas_ok m" using M by (simp_all add: running_ok_def)
  note W = turn_invD(1) [OF I0(1)]
  obtain u where u: "w_uheap (mt_world m) a = Some u" "u_health u \<noteq> 0"
    using settled_unit [OF W turn_invD(2) [OF I0(1)] a] by metis
  let ?u = "if u_cooldown u > 0 then u\<lparr>u_cooldown := u_cooldown u - 1\<rparr> else u"
  let ?w = "(mt_world m)\<lparr>w_uheap := (w_uheap (mt_world m))(a \<mapsto> ?u)\<rparr>"
  have upd: "upd_unit a (\<lambda>u. if u_cooldown u > 0 then u\<lparr>u_cooldown := u_cooldown u - 1\<rparr> else u) (mt_world m)
      = Some ?w" using u(1) by (simp add: upd_unit_def)
  have I: "turn_inv ?w"
    by (rule turn_inv_upd_unit [OF I0(1) u(1)])
      (auto simp: unit_stats_ok_def maxCapacity_def maxHealth_def split: if_splits)
  have io: "io_ok ?w" using I0(2) by (simp add: io_ok_simps)
  have fr: "action_frame (mt_world m) ?w" by (simp add: action_frame_def)
  let ?rng = "visionRange (w_rules (mt_world m)) u"
  have "rules_validate (w_rules (mt_world m))" using W by (simp add: winv_in_flight_def static_ok_def)
  from rules_validate_nonzero(4,5) [OF this] have "0 < ?rng"
    by (simp add: visionRange_def word_less_def)
  from compute_vision_sees [OF this, of "w_map (mt_world m)" "u_x u" "u_y u"] obtain vis where
    vis: "compute_vision (w_map ?w) (visionRange (w_rules ?w) u) (u_x u) (u_y u) = Some vis"
      "length vis = nat (?rng * ?rng)" by auto
  let ?nd = "(mt_units m a)\<lparr>n_ctx := (n_ctx (mt_units m a))\<lparr>c_visible_tiles := vis\<rparr>\<rparr>"
  let ?s = "u_player u"
  let ?crash = "upd_player ?s (\<lambda>p. p\<lparr>p_unit_elf_crash_flag := True\<rparr>)"
  have crash: "turn_inv (?crash w) \<and> io_ok (?crash w) \<and> action_frame w (?crash w)"
    if "turn_inv w" "io_ok w" for w
    using player_change_ok(1-3) [OF that, of "\<lambda>p. p\<lparr>p_unit_elf_crash_flag := True\<rparr>" ?s] by simp
  have nd: "c_log_quota (n_ctx ?nd) \<le> MAX_LOG_QUOTA" using I0(3) by (simp add: quotas_ok_def)
  show ?thesis
  proof (cases "load_machine mo (p_unit_elf (w_players ?w ?s)) ?nd (mt_entropy m)")
    case (Inl reason)
    obtain w where w: "log_exception ?s (u_id u) reason ?w = Some w" "turn_inv w" "io_ok w" "action_frame ?w w"
      using log_exception_ok [OF I io] by blast
    let ?m = "m\<lparr>mt_world := ?crash w, mt_units := (mt_units m)(a := ?nd)\<rparr>"
    have "unit_step mo uniform_int a m = Some ?m"
      using u upd vis(1) Inl w(1) by (simp add: unit_step_def Let_def del: upd_unit_Some)
    moreover have "action_frame (mt_world m) (?crash w)"
      using action_frame_trans fr w(4) crash [OF w(2,3)] by blast
    moreover have "running_ok ?m"
      using crash [OF w(2,3)] quotas_ok_upd(3) [OF I0(3) nd] by (simp add: running_ok_def)
    ultimately show ?thesis by auto
  next
    case (Inr l)
    obtain mach ctx ent where l: "l = (mach, ctx, ent)" by (cases l)
    have len: "length (c_visible_tiles ctx) = nat (?rng * ?rng)"
      using load_machine_ctx [OF Inr [unfolded l]] vis(2) by simp
    have vr: "visionRange r ?u = visionRange r u" for r by (simp add: visionRange_def)
    have on: "b \<in> set (w_units ?w) \<and> (\<exists>v. w_uheap ?w b = Some v \<and>
        length (c_visible_tiles ctx) = nat (visionRange (w_rules ?w) v * visionRange (w_rules ?w) v))"
      if "Some a = Some b" for b
      using that a len vr by (auto simp del: fun_upd_apply simp add: fun_upd_def)
    note R = simulate_ok [OF I io, where u = "Some a" and c = ctx and s = ?s and mach = mach]
    obtain q where q: "simulate mo uniform_int ?s (Some a) ?w ctx mach = Some q"
      using R(2) [where a = a] on by blast
    have Q: "sim_ok q" "action_frame ?w (s_world q)" "c_unit (s_ctx q) = Some a"
      using R(1) [OF on q] by blast+
    then obtain v where v: "w_uheap (s_world q) a = Some v" by (auto simp: sim_ok_def)
    obtain w where w: "(if c_stop_reason (s_ctx q) \<noteq> NOT_STOPPED
         then map_option ?crash (log_exception (u_player v) (u_id v) (c_stop_reason (s_ctx q)) (s_world q))
         else Some (s_world q)) = Some w" "turn_inv w" "io_ok w" "action_frame (s_world q) w"
      using after_run_ok [OF Q(1) crash] by blast
    let ?m = "m\<lparr>mt_world := w, mt_units := (mt_units m)(a := node_after q), mt_entropy := ent\<rparr>"
    have "unit_step mo uniform_int a m = Some ?m"
      using u upd vis(1) Inr l q v w(1) by (simp add: unit_step_def Let_def del: upd_unit_Some)
    moreover have "quotas_ok ?m"
      by (rule quotas_ok_upd(2) [OF I0(3)]) (use Q(1) in \<open>simp add: node_after_def sim_ok_def\<close>)
    moreover have "action_frame (mt_world m) w" using action_frame_trans fr Q(2) w(4) by blast
    ultimately show ?thesis using w by (auto simp: running_ok_def)
  qed
qed

lemma unit_steps_ok:
  assumes "running_ok m" "set as \<subseteq> set (w_units (mt_world m))"
  shows "\<exists>m'. foldM (unit_step mo uniform_int) as m = Some m' \<and> running_ok m'
    \<and> action_frame (mt_world m) (mt_world m')"
  using assms
proof (induction as arbitrary: m)
  case (Cons a as)
  then obtain m1 where m1: "unit_step mo uniform_int a m = Some m1" "running_ok m1"
    "action_frame (mt_world m) (mt_world m1)" using unit_step_ok [of m a] by auto
  have "set as \<subseteq> set (w_units (mt_world m1))" using Cons.prems m1(3) by (auto simp: action_frame_def)
  from Cons.IH [OF m1(2) this] show ?case using m1 action_frame_trans by fastforce
qed simp

end

subsection \<open>The phases before the programs\<close>

lemma turn_start_simps [simp]:
  "static (turn_start w) = static w" "w_reason (turn_start w) = w_reason w"
  "w_rules (turn_start w) = w_rules w" "w_players (turn_start w) = w_players w"
  "w_units (turn_start w) = w_units w" "w_uheap (turn_start w) = w_uheap w"
  "w_bullets (turn_start w) = w_bullets w" "w_bheap (turn_start w) = w_bheap w"
  "w_next (turn_start w) = w_next w" "w_tick (turn_start w) = w_tick w + 1" "occ (turn_start w) = occ w" "slots (turn_start w) = slots w"
  by (simp_all add: turn_start_def static_def ground_def world_tile_def occ_def slots_def fun_eq_iff)

lemma turn_start_ok:
  assumes "turn_inv w" "io_ok w" shows "turn_inv (turn_start w)" "io_ok (turn_start w)"
proof -
  have "winv (turn_start w)"
    by (rule winv_frame [OF turn_invD(1) [OF assms(1)]])
      (use winv_heap [OF turn_invD(1) [OF assms(1)]] in simp_all)
  then show "turn_inv (turn_start w)" by (rule turn_inv_cong [OF assms(1)]) simp_all
  show "io_ok (turn_start w)" using assms(2) by (simp add: io_ok_def messages_ok_def payloads_ok_def turn_start_def)
qed

text \<open>The size of the map, through a whole turn.\<close>

definition map_size :: "world \<Rightarrow> pos_t \<times> pos_t" where
  "map_size w = (tm_width (w_map w), tm_height (w_map w))"

lemma map_size_static: "static w' = static w \<Longrightarrow> map_size w' = map_size w"
  by (simp add: static_def map_size_def)

lemma capture_map_size: "on_result (\<lambda>w'. map_size w' = map_size w) (checkBaseCaptureCondition w)"
proof -
  let ?Q = "\<lambda>w'. map_size w' = map_size w"
  have upd: "on_result ?Q (update_capture_counter s w1)" if "?Q w1" for s w1
    using that unfolding update_capture_counter_def
    by (auto intro!: on_resultI [where m = "foldM _ _ _"] simp: map_size_def upd_player_def set_event_def)
  show ?thesis
    unfolding checkBaseCaptureCondition_def Let_def
    by (auto simp: upd_player_def map_size_def captureVictory_eq appendLog_def simp del: foldM.simps
        intro!: on_result_mono [OF on_result_foldM [where I = ?Q, OF refl upd]])
qed

text \<open>
  The state in which the capture condition is checked, and what the check does: the first turn
  phases fail only in the bullet phase.
\<close>

lemma world_phases_ok:
  assumes I: "turn_inv w" "io_ok w" and on: "\<not> gameOver w" and C: "capture_inv w"
    and b: "processBulletMovement (turn_start w) = Some w1"
  shows "\<exists>w2 w3. processUnitMovement w1 = Some w2 \<and> world_phases w = Some w3 \<and> turn_inv w2
    \<and> capture_outcome w2 w3 \<and> turn_inv w3 \<and> io_ok w3 \<and> (gameOver w3 \<or> capture_inv w3)
    \<and> w_tick w3 = w_tick w + 1 \<and> static w2 = static w \<and> map_size w3 = map_size w"
proof -
  note S = turn_start_ok [OF I]
  have B: "winv w1" "bullet_frame (turn_start w) w1"
    using processBulletMovement_winv [OF turn_invD(1) [OF S(1)] b] by simp_all
  obtain wc w2 where m: "cleanup_units w1 = Some wc" "processUnitMovement w1 = Some w2" "winv w2"
    "settled w2" "move_frame wc w2" using processUnitMovement_correct [OF B(1)] by blast
  have c: "static wc = static w1" "w_tick wc = w_tick w1" "w_reason wc = w_reason w1"
    "p_base_capture_counter (w_players wc s) = p_base_capture_counter (w_players w1 s)" for s
    using cleanup_units_correct [OF B(1)] m(1) by auto
  have f: "static w2 = static w" "w_tick w2 = w_tick w + 1" "w_reason w2 = w_reason w"
    "p_base_capture_counter (w_players w2 s) = p_base_capture_counter (w_players w s)" for s
    using B(2) c m(5) by (simp_all add: bullet_frame_def move_frame_def)
  have cm: "calm (turn_start w) w2"
    using on_resultD [OF calm_bullets b] on_resultD [OF calm_movement m(2)] by (rule calm_trans)
  have T2: "turn_inv w2" using m(3,4) calm_stats [OF cm] turn_invD(3) [OF S(1)] by (simp add: turn_inv_def)
  have C2: "capture_inv w2" using C f(4) static_facts(1) [OF f(1)] by (simp add: capture_inv_def)
  have on2: "w_reason w2 = Ongoing" using on f(3) by (simp add: gameOver_def)
  obtain w3 where w3: "checkBaseCaptureCondition w2 = Some w3" "winv w3" "capture_outcome w2 w3"
    "capture_frame w2 w3" "w_reason w3 = Ongoing \<longrightarrow> capture_inv w3"
    using checkBaseCapture_correct [OF m(3) on2 C2] by blast
  have cm3: "calm w2 w3" using on_resultD [OF calm_capture w3(1)] .
  have "turn_inv w3"
    using w3(2,4) m(4) calm_stats [OF cm3 turn_invD(3) [OF T2]]
    by (simp add: turn_inv_def settled_def capture_frame_def)
  moreover have "io_ok w3" using calm_io [OF cm3] calm_io [OF cm S(2)] by blast
  moreover have "gameOver w3 \<or> capture_inv w3" using w3(5) by (auto simp: gameOver_def)
  moreover have "world_phases w = Some w3" by (simp add: world_phases_def b m(2) w3(1))
  moreover have "map_size w3 = map_size w"
    using on_resultD [OF capture_map_size w3(1)] map_size_static [OF f(1)] by simp
  ultimately show ?thesis using m(2) T2 w3(3,4) f(1,2) by (auto simp: capture_frame_def)
qed

text \<open>A victory has a winner.\<close>

definition verdict_ok :: "world \<Rightarrow> bool" where
  "verdict_ok w \<longleftrightarrow> w_reason w \<noteq> RuleDraw \<and> (w_reason w = Victory \<longrightarrow> w_winner w = 1 \<or> w_winner w = 2)"

lemma capture_verdict: "capture_outcome w w' \<Longrightarrow> verdict_ok w'"
  by (auto simp: capture_outcome_def verdict_ok_def Let_def split: if_splits)

text \<open>The second half of a turn, for a world that the capture check left in play.\<close>

context runtime_env begin

lemma match_step_ok:
  assumes M: "match_ok m" and r: "match_step mo uniform_int m = Some m'"
  shows "match_ok m' \<and> (\<not> gameOver (mt_world m) \<longrightarrow>
    w_tick (mt_world m') = w_tick (mt_world m) + 1 \<and> verdict_ok (mt_world m'))
    \<and> map_size (mt_world m') = map_size (mt_world m)"
proof (cases "gameOver (mt_world m)")
  case True
  then show ?thesis using M r by (simp add: match_step_def)
next
  case False
  have I: "turn_inv (mt_world m)" "io_ok (mt_world m)" "quotas_ok m" "capture_inv (mt_world m)"
    using M False by (simp_all add: match_ok_def running_ok_def)
  obtain w3 where w3: "world_phases (mt_world m) = Some w3" using r False by (auto simp: match_step_def bind_eq_Some_conv)
  then obtain w1 where "processBulletMovement (turn_start (mt_world m)) = Some w1"
    by (auto simp: world_phases_def bind_eq_Some_conv)
  from world_phases_ok [OF I(1,2) False I(4) this] w3
  have P: "turn_inv w3" "io_ok w3" "gameOver w3 \<or> capture_inv w3" "w_tick w3 = w_tick (mt_world m) + 1"
    "verdict_ok w3" "map_size w3 = map_size (mt_world m)" by (auto intro: capture_verdict)
  show ?thesis
  proof (cases "gameOver w3")
    case True
    then have "m' = m\<lparr>mt_world := w3\<rparr>" using r False w3 by (simp add: match_step_def)
    then show ?thesis using P True I(3) by (simp add: match_ok_def running_ok_def quotas_ok_upd)
  next
    case on: False
    let ?w4 = "w3\<lparr>w_uheap := gained_heap w3 (set (w_units w3))\<rparr>"
    note E = collectEnergy_correct [OF P(1)]
    have R: "running_ok (m\<lparr>mt_world := ?w4\<rparr>)"
      using E(2) P(2) I(3) by (simp add: running_ok_def io_ok_simps quotas_ok_upd)
    obtain m1 where m1: "foldM (player_step mo uniform_int) [P1, P2] (m\<lparr>mt_world := ?w4\<rparr>) = Some m1"
      "foldM (unit_step mo uniform_int) (w_units (mt_world m1)) m1 = Some m'"
      using r False on w3 E(1) by (auto simp: match_step_def bind_eq_Some_conv simp del: foldM.simps)
    have "running_ok m1 \<and> action_frame ?w4 (mt_world m1)"
      using m1(1) by (rule foldM_invariant) (use R player_step_ok action_frame_trans in \<open>simp, blast\<close>)
    moreover from unit_steps_ok [of m1 "w_units (mt_world m1)"] this m1(2)
    have "running_ok m' \<and> action_frame (mt_world m1) (mt_world m')" by auto
    ultimately have F: "running_ok m'" "action_frame ?w4 (mt_world m')" using action_frame_trans by blast+
    have st: "static (mt_world m') = static w3" using F(2) by (simp add: action_frame_def)
    have "capture_inv (mt_world m')"
      using P(3) on F(2) static_facts(1) [OF st] by (simp add: capture_inv_def action_frame_def)
    moreover have "map_size (mt_world m') = map_size (mt_world m)"
      using map_size_static [OF st] P(6) by simp
    ultimately show ?thesis using F P(4,5) by (simp add: match_ok_def action_frame_def verdict_ok_def)
  qed
qed

end

end
