(* ===== verification/Replay_Playback.thy ===== *)
theory Replay_Playback
  imports Replay_Stream
begin

text \<open>
  \<open>ReplayStreamDecoder\<close> over every \<open>StreamAdapter\<close>: the two tests, the two reads they guard, and
  the playback loop. The tests never fail and buffer what the guarded read needs, so the loop
  answers every input; on what the encoders wrote it publishes the header, every tick and the end.
\<close>

subsection \<open>The size of a record\<close>

definition record_size :: "byte list \<Rightarrow> nat" where
  "record_size bs = (if bs ! 0 = record_type_end then 2 else 9 + unat (u32_of_bytes (drop 5 bs)))"

lemma record_complete_size: "record_complete bs \<Longrightarrow> record_size bs \<le> length bs"
  by (auto simp: record_complete_def record_size_def record_type_tick_def record_type_end_def)

lemma record_types [simp]: "record_type_tick \<noteq> record_type_end" "record_type_end \<noteq> record_type_tick"
  by (simp_all add: record_type_tick_def record_type_end_def)

lemma u32_of_bytes_take: "9 \<le> length bs \<Longrightarrow> u32_of_bytes (drop 5 (take 9 bs)) = u32_of_bytes (drop 5 bs)"
  by (simp add: u32_of_bytes_def)

lemma u16_of_bytes_take: "8 \<le> length bs \<Longrightarrow> u16_of_bytes (drop 6 (take 8 bs)) = u16_of_bytes (drop 6 bs)"
  by (simp add: u16_of_bytes_def)

definition header_complete :: "byte list \<Rightarrow> bool" where
  "header_complete bs \<longleftrightarrow> 8 \<le> length bs \<and> 8 + unat (u16_of_bytes (drop 6 bs)) \<le> length bs"

context stream_adapter begin

subsection \<open>The tests\<close>

lemma has_step:
  assumes "view s bs k p"
  obtains s' where "so_has ops n s = (n \<le> length bs, s')"
    "view s' bs (if n \<le> length bs then max n k else k) p"
  using has_view [OF assms, of n] by blast

lemma has_test:
  assumes "view s bs k p"
  obtains s' where "so_has ops n s = (n \<le> length bs, s')" "view s' bs (if n \<le> length bs then n else 0) p"
  by (rule has_step [OF assms, of n]) (use view_weaken in \<open>auto split: if_splits\<close>)

lemma peek_step:
  assumes "view s bs k p" "n \<le> k"
  obtains s' where "so_peek ops n s = Some (take n bs, s')" "view s' bs k p"
  using peek_view [OF assms] by blast

lemma canReadNextRecord_view:
  assumes v: "view (dc_stream d) bs k p" and ph: "dc_phase d = PhaseTick"
  shows "\<exists>s'. canReadNextRecord ops d = Some (record_complete bs, d\<lparr>dc_stream := s'\<rparr>)
    \<and> view s' bs (if record_complete bs then record_size bs else 0) p"
proof -
  note defs = canReadNextRecord_def hasHeader_def ended_def ph record_complete_def record_size_def
  obtain s1 where s1: "so_has ops 1 (dc_stream d) = (1 \<le> length bs, s1)"
    "view s1 bs (if 1 \<le> length bs then max 1 k else k) p" using has_step [OF v] .
  show ?thesis
  proof (cases "1 \<le> length bs")
    case False
    then show ?thesis using s1 view_weaken [OF s1(2), of 0] by (auto simp: defs)
  next
    case True
    with s1(2) have v1: "view s1 bs (max 1 k) p" by simp
    obtain s2 where s2: "so_peek ops 1 s1 = Some (take 1 bs, s2)" "view s2 bs (max 1 k) p"
      by (rule peek_step [OF v1 max.cobounded1])
    consider (stop) "bs ! 0 = record_type_end" | (tick) "bs ! 0 = record_type_tick"
      | (other) "bs ! 0 \<noteq> record_type_end" "bs ! 0 \<noteq> record_type_tick" by blast
    then show ?thesis
    proof cases
      case stop
      obtain s3 where "so_has ops 2 s2 = (2 \<le> length bs, s3)"
        "view s3 bs (if 2 \<le> length bs then 2 else 0) p" using has_test [OF s2(2)] .
      then show ?thesis using True stop s1 s2
        by (cases "2 \<le> length bs") (auto simp: defs intro: view_weaken)
    next
      case other
      then show ?thesis using True s1 s2 by (auto simp: defs intro: view_weaken)
    next
      case tick
      obtain s3 where s3: "so_has ops 9 s2 = (9 \<le> length bs, s3)"
        "view s3 bs (if 9 \<le> length bs then max 9 (max 1 k) else max 1 k) p" using has_step [OF s2(2)] .
      show ?thesis
      proof (cases "9 \<le> length bs")
        case False
        then show ?thesis using True tick s1 s2 s3 by (auto simp: defs intro: view_weaken)
      next
        case nine: True
        with s3(2) have v3: "view s3 bs (max 9 (max 1 k)) p" by simp
        obtain s4 where s4: "so_peek ops 9 s3 = Some (take 9 bs, s4)" "view s4 bs (max 9 (max 1 k)) p"
          by (rule peek_step [OF v3 max.cobounded1])
        let ?n = "9 + unat (u32_of_bytes (drop 5 bs))"
        obtain s5 where s5: "so_has ops ?n s4 = (?n \<le> length bs, s5)"
          "view s5 bs (if ?n \<le> length bs then ?n else 0) p"
          using has_test [OF s4(2)] .
        have "canReadNextRecord ops d = Some (?n \<le> length bs, d\<lparr>dc_stream := s5\<rparr>)"
          using True nine tick s1 s2 s3 s4 s5(1) by (simp add: defs u32_of_bytes_take)
        then show ?thesis using True tick s5(2) by (auto simp: defs intro: view_weaken split: if_splits)
      qed
    qed
  qed
qed

lemma canReadHeader_view:
  assumes v: "view (dc_stream d) bs k p" and ph: "dc_phase d = PhaseHeader"
  shows "\<exists>s'. canReadHeader ops d = Some (header_complete bs, d\<lparr>dc_stream := s'\<rparr>) \<and> view s' bs 0 p"
proof -
  note defs = canReadHeader_def hasHeader_def ph header_complete_def
  obtain s1 where s1: "so_has ops 8 (dc_stream d) = (8 \<le> length bs, s1)"
    "view s1 bs (if 8 \<le> length bs then max 8 k else k) p" using has_step [OF v] .
  show ?thesis
  proof (cases "8 \<le> length bs")
    case False
    then show ?thesis using s1 view_weaken [OF s1(2), of 0] by (auto simp: defs)
  next
    case True
    with s1(2) have v1: "view s1 bs (max 8 k) p" by simp
    obtain s2 where s2: "so_peek ops 8 s1 = Some (take 8 bs, s2)" "view s2 bs (max 8 k) p"
      by (rule peek_step [OF v1 max.cobounded1])
    let ?n = "8 + unat (u16_of_bytes (drop 6 bs))"
    obtain s3 where s3: "so_has ops ?n s2 = (?n \<le> length bs, s3)"
      "view s3 bs (if ?n \<le> length bs then ?n else 0) p" using has_test [OF s2(2)] .
    have "canReadHeader ops d = Some (?n \<le> length bs, d\<lparr>dc_stream := s3\<rparr>)"
      using True s1 s2 s3(1) by (simp add: defs u16_of_bytes_take)
    then show ?thesis using True s3(2) by (auto simp: defs intro: view_weaken)
  qed
qed

subsection \<open>The reads they guard\<close>

lemma read_payload_view:
  assumes v: "view s bs n p"
  shows "read_rel view (\<lambda>_. 0)
    (rb_peek ops n s \<bind> (\<lambda>(bytes, s). decodeReplayTickPayload (memory_ops nd) t (memory_stream_new bytes) \<bind> (\<lambda>(r, _).
      case r of Inl e \<Rightarrow> Some (Inl e, s) | Inr t \<Rightarrow> rb_skip ops n s \<bind> (\<lambda>s. Some (Inr (Inl t), s)))))
    (rb_peek list_ops n bs \<bind> (\<lambda>(bytes, s). decodeReplayTickPayload (memory_ops nd') t (memory_stream_new bytes) \<bind> (\<lambda>(r, _).
      case r of Inl e \<Rightarrow> Some (Inl e, s) | Inr t \<Rightarrow> rb_skip list_ops n s \<bind> (\<lambda>s. Some (Inr (Inl t), s)))))"
proof -
  have n: "n \<le> length bs" using view_length [OF v] .
  obtain s1 p1 where s1: "rb_peek ops n s = Some (take n bs, s1)" "view s1 bs n p1"
    using rb_peek_view [OF v order.refl] n by (auto dest: read_relD)
  obtain r s2 s3 where r: "decodeReplayTickPayload (memory_ops nd) t (memory_stream_new (take n bs)) = Some (r, s2)"
    "decodeReplayTickPayload (memory_ops nd') t (memory_stream_new (take n bs)) = Some (r, s3)"
    using payload_memory [of t "take n bs" nd] payload_memory [of t "take n bs" nd'] by auto
  show ?thesis
  proof (cases r)
    case (Inl e)
    then show ?thesis using s1 r n done_rule_0 [OF s1(2)] by simp
  next
    case (Inr f)
    have "read_rel view (\<lambda>_. 0) (rb_skip ops n s1 \<bind> (\<lambda>s. Some (Inr (Inl f), s)))
        (rb_skip list_ops n bs \<bind> (\<lambda>s. Some (Inr (Inl f), s)))"
      by (rule rb_skip_view [OF s1(2) order.refl]) (erule done_rule_0)
    then show ?thesis using s1 r n Inr by simp
  qed
qed

lemma read_record_view:
  assumes v: "view s bs (record_size bs) p" and c: "record_complete bs"
  shows "read_rel view (\<lambda>_. 0) (read_record ops s) (read_record list_ops bs)"
proof -
  obtain b rest where bs: "bs = b # rest" using c by (cases bs) (auto simp: record_complete_def)
  obtain k where k: "record_size bs = Suc k"
    and tick: "b \<noteq> record_type_end \<Longrightarrow> k = Suc (Suc (Suc (Suc (Suc (Suc (Suc (Suc (unat (u32_of_bytes (drop 5 bs))))))))))"
    by (rule that [of "record_size bs - 1"]) (simp_all add: record_size_def bs)
  obtain s1 p1 where s1: "readU8 ops s = Some (b, s1)" "view s1 rest k p1"
    using reads(1) [of s bs k p] v k by (auto simp: bs dest: read_relD)
  show ?thesis
  proof (cases "b = record_type_end")
    case True
    have "read_rel view (\<lambda>_. 0) (decodeReplayEndMarker ops s1 \<bind> (\<lambda>(r, s). Some (map_sum id Inr r, s)))
        (decodeReplayEndMarker list_ops rest \<bind> (\<lambda>(r, s). Some (map_sum id Inr r, s)))"
      by (rule read_rel_bind [OF decodeReplayEndMarker_view [OF s1(2)]]) (erule done_rule_0)
    then show ?thesis using s1(1) True by (simp add: read_record_def bs)
  next
    case False
    with tick have v1: "view s1 rest (Suc (Suc (Suc (Suc (Suc (Suc (Suc (Suc (unat (u32_of_bytes (drop 5 bs))))))))))) p1"
      using s1(2) by simp
    show ?thesis
      unfolding read_record_def [of ops] read_record_def [of list_ops] bs list_readU8 s1(1)
        option.simps Option.bind.simps prod.case if_not_P [OF False]
      by (rule if_rule, rule done_rule_0 [OF s1(2)], rule read_rel_bind [OF reads(3) [OF v1]],
          rule read_rel_bind, erule reads, erule has_rule, erule read_payload_view)
  qed
qed

text \<open>What \<open>nextTick\<close> makes of the record it has read.\<close>

end

fun apply_record :: "'s decoder \<Rightarrow> decode_error + (tick_frame + end_marker) \<Rightarrow> read_result \<times> 's decoder" where
  "apply_record d (Inl e) = (ReadError e, d)"
| "apply_record d (Inr (Inl t)) = (ReadTick t, d)"
| "apply_record d (Inr (Inr e)) = (ReadEnd, d\<lparr>dc_end_marker := e, dc_phase := PhaseEnd\<rparr>)"

lemma apply_record_stream [simp]: "dc_stream (snd (apply_record d r)) = dc_stream d"
  by (cases "(d, r)" rule: apply_record.cases) simp_all

lemma read_record_result:
  assumes "record_complete bs"
  obtains r rest where "read_record list_ops bs = Some (r, rest)"
  using read_record_total [OF assms] by (auto simp: leaves_def)

context stream_adapter begin

text \<open>
  A build with assertions tests again; a release build relies on what the caller's test has
  buffered.
\<close>

lemma heavy_check_record:
  assumes v: "view (dc_stream d) bs k p" and ph: "dc_phase d = PhaseTick" and c: "record_complete bs"
    and k: "so_ndebug ops \<Longrightarrow> record_size bs \<le> k"
  shows "\<exists>s'. heavy_check ops canReadNextRecord d = Some (d\<lparr>dc_stream := s'\<rparr>) \<and> view s' bs (record_size bs) p"
proof (cases "so_ndebug ops")
  case True
  then show ?thesis using view_weaken [OF v k] by (auto simp: heavy_check_def intro!: exI [of _ "dc_stream d"])
next
  case False
  then show ?thesis using canReadNextRecord_view [OF v ph] c by (auto simp: heavy_check_def)
qed

lemma nextTick_view:
  assumes v: "view (dc_stream d) bs k p" and ph: "dc_phase d = PhaseTick" and c: "record_complete bs"
    and k: "so_ndebug ops \<Longrightarrow> record_size bs \<le> k"
    and r: "read_record list_ops bs = Some (r, rest)"
  shows "\<exists>s' q. nextTick ops d = Some (apply_record (d\<lparr>dc_stream := s'\<rparr>) r) \<and> view s' rest 0 q"
proof -
  obtain s1 where s1: "heavy_check ops canReadNextRecord d = Some (d\<lparr>dc_stream := s1\<rparr>)"
    "view s1 bs (record_size bs) p" using heavy_check_record [OF v ph c k] by blast
  obtain s2 q where "read_record ops s1 = Some (r, s2)" "view s2 rest 0 q"
    using read_record_view [OF s1(2) c] r by (auto dest: read_relD)
  then show ?thesis using s1(1) ph
    by (cases r; cases "projr r") (auto simp: nextTick_def hasHeader_def ended_def intro!: exI [of _ s2])
qed

lemma readHeader_view:
  assumes v: "view (dc_stream d) bs k p" and ph: "dc_phase d = PhaseHeader" and c: "header_complete bs"
    and r: "decodeReplayHeader list_ops bs = Some (r, rest)"
  shows "\<exists>s' q. readHeader ops d = Some (case r of Inl e \<Rightarrow> (Inl e, d\<lparr>dc_stream := s'\<rparr>)
      | Inr h \<Rightarrow> (Inr (), d\<lparr>dc_stream := s', dc_header := h, dc_phase := PhaseTick\<rparr>)) \<and> view s' rest 0 q"
proof -
  have "\<exists>s' j. heavy_check ops canReadHeader d = Some (d\<lparr>dc_stream := s'\<rparr>) \<and> view s' bs j p"
  proof (cases "so_ndebug ops")
    case True
    then show ?thesis using v by (auto simp: heavy_check_def intro!: exI [of _ "dc_stream d"])
  next
    case False
    then show ?thesis using canReadHeader_view [OF v ph] c by (auto simp: heavy_check_def)
  qed
  then obtain s1 j where s1: "heavy_check ops canReadHeader d = Some (d\<lparr>dc_stream := s1\<rparr>)" "view s1 bs j p"
    by blast
  obtain s2 q where "decodeReplayHeader ops s1 = Some (r, s2)" "view s2 rest 0 q"
    using decodeReplayHeader_view [OF s1(2)] r by (auto dest: read_relD)
  then show ?thesis using s1(1) ph by (auto simp: readHeader_def hasHeader_def split: sum.split)
qed

end

subsection \<open>The encoded records\<close>

lemma tick_payload_unat:
  "frame_ok t \<Longrightarrow> unat (word_of_nat (length (tick_payload t)) :: u32) = length (tick_payload t)"
  by (rule word_of_nat_unat_le, drule tick_payload_length) simp

lemma tick_bytes_parts:
  "tick_bytes t @ rest = record_type_tick # u32_bytes (fr_tick t)
     @ u32_bytes (word_of_nat (length (tick_payload t))) @ tick_payload t @ rest"
  by (simp add: tick_bytes_def)

lemma tick_complete: "frame_ok t \<Longrightarrow> record_complete (tick_bytes t @ rest)"
  using tick_payload_unat [of t]
  by (simp add: record_complete_def tick_bytes_parts u32_bytes_roundtrip)

lemma end_complete: "record_complete (end_bytes e @ rest)"
  by (simp add: record_complete_def end_bytes_def)

lemma read_record_tick:
  assumes "frame_ok t" shows "read_record list_ops (tick_bytes t @ rest) = Some (Inr (Inl t), rest)"
proof -
  obtain s' where "decodeReplayTickPayload (memory_ops (so_ndebug list_ops)) (fr_tick t)
      (memory_stream_new (tick_payload t)) = Some (Inr t, s')"
    using payload_memory [of "fr_tick t" "tick_payload t" "so_ndebug list_ops"]
      decodeReplayTickPayload_bytes [OF assms, of "[]"] by auto
  then show ?thesis using tick_payload_unat [OF assms] by (simp add: read_record_def tick_bytes_parts)
qed

lemma read_record_end:
  assumes "end_ok e" shows "read_record list_ops (end_bytes e @ rest) = Some (Inr (Inr e), rest)"
  using decodeReplayEndMarker_bytes [OF assms, of rest] by (simp add: read_record_def end_bytes_def)

lemma header_payload_unat:
  "header_ok h \<Longrightarrow> unat (word_of_nat (length (header_payload h)) :: u16) = length (header_payload h)"
  by (rule word_of_nat_unat_le) (simp add: header_ok_def length_header_payload)

lemma header_bytes_parts:
  "header_bytes h @ rest = replay_magic @ u16_bytes (rh_version h)
     @ u16_bytes (word_of_nat (length (header_payload h))) @ header_payload h @ rest"
  by (simp add: header_bytes_def)

lemma header_complete_bytes: "header_ok h \<Longrightarrow> header_complete (header_bytes h @ rest)"
  using header_payload_unat [of h]
  by (simp add: header_complete_def header_bytes_parts replay_magic_def u16_bytes_def u16_bytes_roundtrip)

lemma check_magic_bytes: "check_magic list_ops magic (magic @ rest) = Some (True, rest)"
  by (induction magic) simp_all

lemma decodeReplayHeader_bytes:
  assumes "header_ok h" shows "decodeReplayHeader list_ops (header_bytes h @ rest) = Some (Inr h, rest)"
proof -
  obtain s' where "decodeHeaderPayload (memory_ops (so_ndebug list_ops)) (rh_version h)
      (memory_stream_new (header_payload h)) = Some (Inr h, s')"
    using header_memory [of "rh_version h" "header_payload h" "so_ndebug list_ops"]
      decodeHeaderPayload_bytes [of h "[]"] assms by (auto simp: header_ok_def)
  moreover have "8 \<le> length (header_bytes h @ rest)"
    by (simp add: header_bytes_def replay_magic_def)
  ultimately show ?thesis
    using header_payload_unat [OF assms] assms
    by (simp add: decodeReplayHeader_def header_bytes_parts check_magic_bytes header_ok_def)
qed

subsection \<open>The playback loop\<close>

definition replay_bytes :: "replay_header \<Rightarrow> tick_frame list \<Rightarrow> end_marker \<Rightarrow> byte list" where
  "replay_bytes h ts e = header_bytes h @ concat (map tick_bytes ts) @ end_bytes e"

context stream_adapter begin

text \<open>One round of the loop: a complete record is read and published.\<close>

lemma playback_step:
  assumes v: "view (dc_stream d) bs k p" and ph: "dc_phase d = PhaseTick" and c: "record_complete bs"
    and r: "read_record list_ops bs = Some (r, rest)"
  obtains d1 s' q where "canReadNextRecord ops d = Some (True, d1)"
    "nextTick ops d1 = Some (apply_record (d\<lparr>dc_stream := s'\<rparr>) r)" "view s' rest 0 q"
proof -
  obtain s1 where s1: "canReadNextRecord ops d = Some (True, d\<lparr>dc_stream := s1\<rparr>)" "view s1 bs (record_size bs) p"
    using canReadNextRecord_view [OF v ph] c by auto
  obtain s' q where "nextTick ops (d\<lparr>dc_stream := s1\<rparr>) = Some (apply_record (d\<lparr>dc_stream := s'\<rparr>) r)"
    "view s' rest 0 q"
    using nextTick_view [of "d\<lparr>dc_stream := s1\<rparr>" bs "record_size bs" p r rest] s1(2) ph c r by auto
  with s1(1) show thesis by (rule that)
qed

lemma playback_total:
  "view (dc_stream d) bs k p \<Longrightarrow> hasHeader d \<Longrightarrow> \<exists>pub code. playback_loop ops eof good fuel d = Some (pub, code)"
proof (induction fuel arbitrary: d bs k p)
  case (Suc fuel)
  show ?case
  proof (cases "ended d")
    case True
    then show ?thesis by (simp add: decoder_endMarker_def)
  next
    case False
    then have ph: "dc_phase d = PhaseTick" using Suc.prems(2)
      by (cases "dc_phase d") (simp_all add: hasHeader_def ended_def)
    show ?thesis
    proof (cases "record_complete bs")
      case c: True
      obtain r rest where r: "read_record list_ops bs = Some (r, rest)" using read_record_result [OF c] .
      obtain d1 s' q where step: "canReadNextRecord ops d = Some (True, d1)"
        "nextTick ops d1 = Some (apply_record (d\<lparr>dc_stream := s'\<rparr>) r)" "view s' rest 0 q"
        using playback_step [OF Suc.prems(1) ph c r] .
      have "\<exists>pub code. playback_loop ops eof good fuel (d\<lparr>dc_stream := s'\<rparr>) = Some (pub, code)"
        by (rule Suc.IH) (use step(3) Suc.prems(2) in \<open>simp_all add: hasHeader_def\<close>)
      then show ?thesis using False step(1,2)
        by (cases "(d, r)" rule: apply_record.cases) (auto simp: decoder_endMarker_def ended_def)
    next
      case c: False
      obtain s' where s': "canReadNextRecord ops d = Some (False, d\<lparr>dc_stream := s'\<rparr>)" "view s' bs 0 p"
        using canReadNextRecord_view [OF Suc.prems(1) ph] c by auto
      have "\<exists>pub code. playback_loop ops eof good fuel (d\<lparr>dc_stream := s'\<rparr>) = Some (pub, code)"
        by (rule Suc.IH) (use s'(2) Suc.prems(2) in \<open>simp_all add: hasHeader_def\<close>)
      then show ?thesis using False s'(1) by auto
    qed
  qed
qed simp

lemma runPlayback_total:
  assumes v: "view s bs k p"
  shows "\<exists>pub code. runPlayback ops eof good fuel s = Some (pub, code)"
proof -
  let ?d = "new_decoder s"
  have v': "view (dc_stream ?d) bs k p" and ph: "dc_phase ?d = PhaseHeader" using v by (simp_all add: new_decoder_def)
  obtain s1 where s1: "canReadHeader ops ?d = Some (header_complete bs, ?d\<lparr>dc_stream := s1\<rparr>)" "view s1 bs 0 p"
    using canReadHeader_view [OF v' ph] by blast
  show ?thesis
  proof (cases "header_complete bs")
    case True
    obtain r rest where r: "decodeReplayHeader list_ops bs = Some (r, rest)"
      using decodeReplayHeader_total [of bs] by (auto simp: leaves_def)
    obtain s2 q where s2: "readHeader ops (?d\<lparr>dc_stream := s1\<rparr>) = Some (case r of Inl e \<Rightarrow> (Inl e, ?d\<lparr>dc_stream := s2\<rparr>)
        | Inr h \<Rightarrow> (Inr (), ?d\<lparr>dc_stream := s2, dc_header := h, dc_phase := PhaseTick\<rparr>))" "view s2 rest 0 q"
      using readHeader_view [of "?d\<lparr>dc_stream := s1\<rparr>" bs 0 p r rest] s1(2) ph True r
      by (cases r) auto
    show ?thesis
    proof (cases r)
      case (Inr h)
      obtain pub code where "playback_loop ops eof good fuel (?d\<lparr>dc_stream := s2, dc_header := h, dc_phase := PhaseTick\<rparr>)
          = Some (pub, code)"
        using playback_total [of "?d\<lparr>dc_stream := s2, dc_header := h, dc_phase := PhaseTick\<rparr>" rest 0 q
            eof good fuel] s2(2)
        by (auto simp: hasHeader_def)
      then show ?thesis using True s1(1) s2(1) Inr by (simp add: runPlayback_def decoder_header_def hasHeader_def)
    qed (use True s1(1) s2(1) in \<open>simp add: runPlayback_def\<close>)
  qed (use s1(1) in \<open>simp add: runPlayback_def\<close>)
qed

lemma playback_loop_bytes:
  assumes "\<And>t. t \<in> set ts \<Longrightarrow> frame_ok t" "end_ok e" "length ts < fuel" "dc_phase d = PhaseTick"
    "view (dc_stream d) (concat (map tick_bytes ts) @ end_bytes e @ rest) k p"
  shows "playback_loop ops eof good fuel d = Some (map PubTick ts @ [PubEnd e], 0)"
  using assms
proof (induction ts arbitrary: d fuel k p)
  case Nil
  then obtain fuel' where fuel: "fuel = Suc fuel'" by (cases fuel) auto
  obtain d1 s' q where "canReadNextRecord ops d = Some (True, d1)"
    "nextTick ops d1 = Some (apply_record (d\<lparr>dc_stream := s'\<rparr>) (Inr (Inr e)))" "view s' rest 0 q"
    using playback_step [OF _ Nil.prems(4) end_complete read_record_end [OF Nil.prems(2)], of rest k p]
      Nil.prems(5) by auto
  then show ?case using Nil.prems(4) by (simp add: fuel decoder_endMarker_def ended_def)
next
  case (Cons t ts)
  then obtain fuel' where fuel: "fuel = Suc fuel'" by (cases fuel) auto
  let ?rest = "concat (map tick_bytes ts) @ end_bytes e @ rest"
  have t: "frame_ok t" using Cons.prems(1) by simp
  obtain d1 s' q where step: "canReadNextRecord ops d = Some (True, d1)"
    "nextTick ops d1 = Some (apply_record (d\<lparr>dc_stream := s'\<rparr>) (Inr (Inl t)))" "view s' ?rest 0 q"
    using playback_step [OF _ Cons.prems(4) tick_complete [OF t] read_record_tick [OF t], of ?rest k p]
      Cons.prems(5) by auto
  have "playback_loop ops eof good fuel' (d\<lparr>dc_stream := s'\<rparr>) = Some (map PubTick ts @ [PubEnd e], 0)"
    using Cons.prems step(3) by (intro Cons.IH) (simp_all add: fuel)
  then show ?case using step(1,2) Cons.prems(4) by (simp add: fuel ended_def)
qed

text \<open>The whole file, through any adapter.\<close>

lemma runPlayback_bytes:
  assumes h: "header_ok h" and ts: "\<And>t. t \<in> set ts \<Longrightarrow> frame_ok t" and e: "end_ok e" and f: "length ts < fuel"
    and v: "view s (replay_bytes h ts e @ rest) k p"
  shows "runPlayback ops eof good fuel s = Some (PubHeader h # map PubTick ts @ [PubEnd e], 0)"
proof -
  let ?d = "new_decoder s" and ?tail = "concat (map tick_bytes ts) @ end_bytes e @ rest"
  have bs: "replay_bytes h ts e @ rest = header_bytes h @ ?tail" by (simp add: replay_bytes_def)
  have v': "view (dc_stream ?d) (header_bytes h @ ?tail) k p" and ph: "dc_phase ?d = PhaseHeader"
    using v bs by (simp_all add: new_decoder_def)
  note hc = header_complete_bytes [OF h, of ?tail]
  obtain s1 where s1: "canReadHeader ops ?d = Some (True, ?d\<lparr>dc_stream := s1\<rparr>)" "view s1 (header_bytes h @ ?tail) 0 p"
    using canReadHeader_view [OF v' ph] hc by auto
  obtain s2 q where s2: "readHeader ops (?d\<lparr>dc_stream := s1\<rparr>)
      = Some (Inr (), ?d\<lparr>dc_stream := s2, dc_header := h, dc_phase := PhaseTick\<rparr>)" "view s2 ?tail 0 q"
    using readHeader_view [OF _ _ hc decodeReplayHeader_bytes [OF h], of "?d\<lparr>dc_stream := s1\<rparr>" 0 p] s1(2) ph
    by auto
  have "playback_loop ops eof good fuel (?d\<lparr>dc_stream := s2, dc_header := h, dc_phase := PhaseTick\<rparr>)
      = Some (map PubTick ts @ [PubEnd e], 0)"
    by (rule playback_loop_bytes [OF ts e f, of _ rest 0 q]) (use s2(2) in simp_all)
  then show ?thesis using s1(1) s2(1) by (simp add: runPlayback_def decoder_header_def hasHeader_def)
qed

end

subsection \<open>Records the loop does not get past\<close>

text \<open>
  A record type that is neither tick nor end is not reported: the test answers false, so
  \<open>nextTick\<close> and its \<open>UnknownRecordType\<close> are not reached.
\<close>

lemma unknown_record_incomplete:
  "bs \<noteq> [] \<Longrightarrow> hd bs \<noteq> record_type_tick \<Longrightarrow> hd bs \<noteq> record_type_end \<Longrightarrow> \<not> record_complete bs"
  by (simp add: record_complete_def hd_conv_nth)

text \<open>Two bytes of an end record pass the test, whose record has three.\<close>

lemma short_end_record:
  "record_complete [record_type_end, b] \<and> read_record list_ops [record_type_end, b] = Some (Inl TruncatedEndMarker, [b])"
  by (simp add: record_complete_def read_record_def decodeReplayEndMarker_def)

text \<open>
  While the input is good and not at its end, the loop tests such a record again and again: it publishes nothing
  and does not leave. Otherwise it reports a missing end marker or an I/O error, and never the record.
\<close>

context stream_adapter begin

lemma unknown_record_loop:
  assumes u: "b \<noteq> record_type_tick" "b \<noteq> record_type_end"
  shows "view (dc_stream d) (b # bs) k p \<Longrightarrow> dc_phase d = PhaseTick \<Longrightarrow>
    \<exists>pub code. playback_loop ops eof good fuel d = Some (pub, code) \<and> pub \<in> {[], [PubError MissingEndMarker], [PubIOError]}
      \<and> ((\<forall>s. view s (b # bs) 0 p \<longrightarrow> \<not> eof s \<and> good s) \<longrightarrow> pub = [])"
proof (induction fuel arbitrary: d k)
  case (Suc fuel)
  have "\<not> record_complete (b # bs)" using unknown_record_incomplete [of "b # bs"] u by simp
  then obtain s where s: "canReadNextRecord ops d = Some (False, d\<lparr>dc_stream := s\<rparr>)" "view s (b # bs) 0 p"
    using canReadNextRecord_view [OF Suc.prems] by auto
  obtain pub code where "playback_loop ops eof good fuel (d\<lparr>dc_stream := s\<rparr>) = Some (pub, code)"
      "pub \<in> {[], [PubError MissingEndMarker], [PubIOError]}"
      "(\<forall>s. view s (b # bs) 0 p \<longrightarrow> \<not> eof s \<and> good s) \<longrightarrow> pub = []"
    using Suc.IH [of "d\<lparr>dc_stream := s\<rparr>" 0] s(2) Suc.prems(2) by auto
  then show ?case using s Suc.prems(2) by (auto simp: ended_def)
qed simp

end

text \<open>The bytes that the encoders write for a whole replay.\<close>

lemma encode_ticks_bytes:
  "(\<And>t. t \<in> set ts \<Longrightarrow> frame_ok t) \<Longrightarrow> traverse (\<lambda>t. encodeReplayTick t []) ts = Some (map tick_bytes ts)"
  by (induction ts) (simp_all add: encodeReplayTick_bytes)

end
