(* ===== verification/Replay_World.thy ===== *)
theory Replay_World
  imports World_Step Replay_Playback
begin

text \<open>
  The replay records of a running match: \<open>ReplayHeader::fromWorld\<close>, \<open>ReplayTickFrame::fromWorldState\<close>
  and \<open>ReplayEndMarker::fromWorld\<close> (\<open>src/replay.cpp\<close>). On a well-formed world they are the records
  that the decoder accepts, up to the number of log entries of a tick, which nothing bounds.
\<close>

subsection \<open>The records\<close>

definition flags_of_tile :: "tile \<Rightarrow> tile_flags" where
  "flags_of_tile t = \<lparr>tf_terrain = t_terrain t, tf_side = t_side t,
     tf_is_resource = t_is_resource t, tf_is_base = t_is_base t\<rparr>"

definition header_fromWorld :: "world \<Rightarrow> replay_header option" where
  "header_fromWorld w = do {
     let m = w_map w;
     tiles \<leftarrow> traverse (\<lambda>p. map_option flags_of_tile (tileOf m p)) (row_major m);
     Some \<lparr>rh_version = replay_version,
       rh_tilemap = \<lparr>rt_width = word_of_int (tm_width m), rt_height = word_of_int (tm_height m),
         rt_base_size = word_of_int (tm_base_size m), rt_tiles = tiles\<rparr>,
       rh_game_rules = w_rules w\<rparr>
   }"

definition replay_player_of :: "world \<Rightarrow> side \<Rightarrow> replay_player" where
  "replay_player_of w s =
     \<lparr>rp_id = side_id s, rp_base_energy = p_base_energy (w_players w s),
      rp_base_capture_counter = word_of_int (max 0 (min (p_base_capture_counter (w_players w s)) 255))\<rparr>"

definition replay_unit_of :: "game_unit \<Rightarrow> replay_unit" where
  "replay_unit_of u =
     \<lparr>ru_id = u_id u, ru_player_id = side_id (u_player u), ru_x = word_of_int (u_x u),
      ru_y = word_of_int (u_y u), ru_health = u_health u, ru_attack_cooldown = u_cooldown u,
      ru_upgrades = upgrades_byte (u_upgrades u), ru_energy = u_energy u\<rparr>"

definition replay_bullet_of :: "bullet \<Rightarrow> replay_bullet" where
  "replay_bullet_of b =
     \<lparr>rb_x = word_of_int (b_x b), rb_y = word_of_int (b_y b),
      rb_direction = word_of_int (direction_code (b_direction b)),
      rb_player_id = side_id (b_player b), rb_damage = b_damage b\<rparr>"

definition tick_fromWorldState :: "world \<Rightarrow> (tick_frame \<times> world) option" where
  "tick_fromWorldState w = do {
     units \<leftarrow> traverse (w_uheap w) (w_units w);
     bullets \<leftarrow> traverse (w_bheap w) (w_bullets w);
     let (logs, w') = takeTickLogs w;
     Some (\<lparr>fr_tick = w_tick w, fr_players = (replay_player_of w P1, replay_player_of w P2),
             fr_units = map replay_unit_of (filter (\<lambda>u. u_health u \<noteq> 0) units),
             fr_bullets = map replay_bullet_of (filter (\<lambda>b. b_damage b \<noteq> 0) bullets),
             fr_logs = logs\<rparr>, w')
   }"

definition endMarker_aborted :: end_marker where
  "endMarker_aborted = \<lparr>em_termination = EndAborted, em_winner_player_id = 0\<rparr>"

definition endMarker_ruleDraw :: end_marker where
  "endMarker_ruleDraw = \<lparr>em_termination = EndRuleDraw, em_winner_player_id = 0\<rparr>"

definition endMarker_completed :: "u8 \<Rightarrow> end_marker option" where
  "endMarker_completed winner_player_id = do {
     fail_fast_assert (winner_player_id = 1 \<or> winner_player_id = 2);
     Some \<lparr>em_termination = EndCompleted, em_winner_player_id = winner_player_id\<rparr>
   }"

definition endMarker_fromWorld :: "world \<Rightarrow> end_marker option" where
  "endMarker_fromWorld w =
     (if \<not> gameOver w then Some endMarker_aborted
      else (case w_reason w of
          Victory \<Rightarrow> endMarker_completed (w_winner w)
        | RuleDraw \<Rightarrow> Some endMarker_ruleDraw
        | Ongoing \<Rightarrow> Some endMarker_aborted))"

subsection \<open>They are records the decoder accepts\<close>

lemma traverse_map: "(\<And>x. x \<in> set xs \<Longrightarrow> f x = Some (g x)) \<Longrightarrow> traverse f xs = Some (map g xs)"
  by (induction xs) simp_all

lemma traverse_compose:
  "traverse f xs = Some ys \<Longrightarrow> traverse (\<lambda>x. map_option g (f x)) xs = Some (map g ys)"
  by (induction xs arbitrary: ys) (auto simp: bind_eq_Some_conv)

definition map_bits_ok :: "tilemap \<Rightarrow> bool" where
  "map_bits_ok m \<longleftrightarrow> tm_width m \<le> 255 \<and> tm_height m \<le> 255
     \<and> list_all (\<lambda>t. t_terrain t < 4 \<and> t_side t < 4) (tm_tiles m)"

lemma small_u16: "0 \<le> n \<Longrightarrow> n \<le> 255 \<Longrightarrow> unat (word_of_int n :: u16) = nat n"
  by (cases n) (simp_all add: word_of_nat_unat_le)

lemma header_fromWorld_ok:
  assumes W: "winv w" and B: "map_bits_ok (w_map w)"
  shows "\<exists>h. header_fromWorld w = Some h \<and> header_ok h"
proof -
  let ?m = "w_map w"
  have wf: "tilemap_wf ?m" using winv_tilemap_wf [OF W] .
  have inb: "tm_inb ?m p" if "p \<in> set (row_major ?m)" for p
    using that by (auto simp: row_major_def tm_inb_def)
  obtain tiles where tiles: "traverse (tileOf ?m) (row_major ?m) = Some tiles"
    using traverse_total [of "row_major ?m" "tileOf ?m"] inb by auto
  have len: "length tiles = nat (tm_width ?m * tm_height ?m)"
    using traverse_length [OF tiles] row_major_length [OF wf] wf by (simp add: tilemap_wf_def)
  have bits: "t_terrain t < 4 \<and> t_side t < 4" if t: "t \<in> set tiles" for t
  proof -
    obtain i where i: "i < length tiles" "t = tiles ! i" using t by (auto simp: in_set_conv_nth)
    then have "tileOf ?m (row_major ?m ! i) = Some t" using traverse_nth [OF tiles] traverse_length [OF tiles] by simp
    then have "t \<in> set (tm_tiles ?m)"
      using tile_index_less [OF wf, of "row_major ?m ! i"] by (auto simp: tileOf_def split: if_splits)
    then show ?thesis using B by (simp add: map_bits_ok_def list_all_iff)
  qed
  let ?h = "\<lparr>rh_version = replay_version,
       rh_tilemap = \<lparr>rt_width = word_of_int (tm_width ?m), rt_height = word_of_int (tm_height ?m),
         rt_base_size = word_of_int (tm_base_size ?m), rt_tiles = map flags_of_tile tiles\<rparr>,
       rh_game_rules = w_rules w\<rparr>"
  have dims: "0 \<le> tm_width ?m" "tm_width ?m \<le> 255" "0 \<le> tm_height ?m" "tm_height ?m \<le> 255"
    using wf B by (simp_all add: tilemap_wf_def map_bits_ok_def)
  note u = small_u16 [OF dims(1,2)] small_u16 [OF dims(3,4)]
  have count: "tileCount (rh_tilemap ?h) = nat (tm_width ?m) * nat (tm_height ?m)"
    using u by (simp add: tileCount_def)
  have "nat (tm_width ?m) * nat (tm_height ?m) \<le> 255 * 255"
    using dims by (intro mult_le_mono) simp_all
  then have "header_ok ?h"
    using u dims bits len count
    by (simp add: header_ok_def tilemap_ok_def tilemapEncodedSize_def sizeof_game_rules_def
        word_le_nat_alt nat_le_iff nat_mult_distrib tile_flags_wf_def flags_of_tile_def)
  moreover have "header_fromWorld w = Some ?h"
    using traverse_compose [OF tiles, of flags_of_tile] by (simp add: header_fromWorld_def Let_def)
  ultimately show ?thesis by blast
qed

subsection \<open>How many units and bullets there can be\<close>

lemma living_units_bound:
  assumes "winv w" shows "length (w_units w) \<le> 30"
proof -
  note W = winv_heap [OF assms]
  let ?key = "\<lambda>a. case w_uheap w a of None \<Rightarrow> (P1, 0) | Some u \<Rightarrow> (u_player u, unat (u_id u))"
  have "inj_on ?key (set (w_units w))"
  proof (rule inj_onI)
    fix a b assume ab: "a \<in> set (w_units w)" "b \<in> set (w_units w)" "?key a = ?key b"
    obtain u v where uv: "w_uheap w a = Some u" "w_uheap w b = Some v"
      using wf_heap_unit [OF W ab(1)] wf_heap_unit [OF W ab(2)] by blast
    then have "u_player u = u_player v" "unat (u_id u) = unat (u_id v)" using ab(3) by simp_all
    then show "a = b" using wf_heap_unique [OF W ab(1,2) uv] unsigned_word_eqI by blast
  qed
  moreover have "?key ` set (w_units w) \<subseteq> {P1, P2} \<times> {1..15}"
  proof
    fix k assume "k \<in> ?key ` set (w_units w)"
    then obtain a where a: "a \<in> set (w_units w)" "k = ?key a" by blast
    have side: "s \<in> {P1, P2}" for s by (cases s) simp_all
    show "k \<in> {P1, P2} \<times> {1..15}"
      using wf_heap_unit [OF W a(1)] a(2) side by (auto simp: max_units_def)
  qed
  ultimately have "card (set (w_units w)) \<le> card ({P1, P2} \<times> {1..15 :: nat})"
    by (intro card_inj_on_le) simp_all
  then show ?thesis using distinct_card [OF wf_heap_distinct(1) [OF W]] by (simp add: card_cartesian_product)
qed

lemma flying_bullets_bound:
  assumes "winv w"
  shows "length (filter (\<lambda>b. \<not> bullet_destroyed w b) (w_bullets w)) \<le> nat (tm_width (w_map w) * tm_height (w_map w))"
proof -
  note W = winv_heap [OF assms]
  let ?bs = "filter (\<lambda>b. \<not> bullet_destroyed w b) (w_bullets w)"
  let ?pos = "\<lambda>b. case w_bheap w b of None \<Rightarrow> (0, 0) | Some bl \<Rightarrow> b_pos bl"
  have at: "\<exists>bl. w_bheap w b = Some bl \<and> occ w (b_pos bl) = Some (OCCUPIED_BY_BULLET b)" if "b \<in> set ?bs" for b
    using wf_heap_bullet [OF W, of b] that by (auto simp: bullet_destroyed_def)
  have "inj_on ?pos (set ?bs)"
  proof (rule inj_onI)
    fix a b assume ab: "a \<in> set ?bs" "b \<in> set ?bs" "?pos a = ?pos b"
    show "a = b" using at [OF ab(1)] at [OF ab(2)] ab(3) by auto
  qed
  moreover have "?pos ` set ?bs \<subseteq> {0..<tm_width (w_map w)} \<times> {0..<tm_height (w_map w)}"
    using at occ_inb by (fastforce simp: tm_inb_def)
  ultimately have "card (set ?bs) \<le> card ({0..<tm_width (w_map w)} \<times> {0..<tm_height (w_map w)})"
    by (intro card_inj_on_le) simp_all
  moreover have "distinct ?bs" using wf_heap_distinct(2) [OF W] by simp
  moreover have "0 \<le> tm_width (w_map w)" using winv_tilemap_wf [OF assms] by (simp add: tilemap_wf_def)
  ultimately show ?thesis
    using distinct_card [of ?bs] by (simp add: card_cartesian_product nat_mult_distrib)
qed

text \<open>The tick record of a world between turns.\<close>

lemma tick_fromWorldState_ok:
  assumes W: "winv w" and io: "io_ok w" and area: "tm_width (w_map w) * tm_height (w_map w) \<le> 4096"
  shows "\<exists>t. tick_fromWorldState w = Some (t, w\<lparr>w_logs := []\<rparr>) \<and> fr_tick t = w_tick w \<and> fr_logs t = w_logs w
    \<and> (length (w_logs w) \<le> 64 \<longrightarrow> frame_ok t)"
proof -
  note H = winv_heap [OF W]
  obtain us where us: "traverse (w_uheap w) (w_units w) = Some us"
    using traverse_total [of "w_units w" "w_uheap w"] by (auto dest: wf_heap_unit [OF H])
  have bs: "traverse (w_bheap w) (w_bullets w) = Some (map (\<lambda>b. the (w_bheap w b)) (w_bullets w))"
    by (rule traverse_map) (auto dest: wf_heap_bullet [OF H])
  have "length (filter (\<lambda>b. b_damage (the (w_bheap w b)) \<noteq> 0) (w_bullets w))
      = length (filter (\<lambda>b. \<not> bullet_destroyed w b) (w_bullets w))"
    by (rule arg_cong [where f = length], rule filter_cong)
      (auto simp: bullet_destroyed_def dest: wf_heap_bullet [OF H])
  then have bl: "length (filter (\<lambda>b. b_damage b \<noteq> 0) (map (\<lambda>b. the (w_bheap w b)) (w_bullets w))) \<le> 4096"
    using flying_bullets_bound [OF W] area by (simp add: filter_map comp_def)
  have "length (filter (\<lambda>u. u_health u \<noteq> 0) us) \<le> 30"
    using length_filter_le [of "\<lambda>u. u_health u \<noteq> 0" us] traverse_length [OF us] living_units_bound [OF W] by linarith
  then show ?thesis
    using us bs bl io
    by (auto simp: tick_fromWorldState_def takeTickLogs_def frame_ok_def io_ok_def payloads_ok_def)
qed

lemma endMarker_fromWorld_ok:
  assumes "w_reason w = Victory \<Longrightarrow> w_winner w = 1 \<or> w_winner w = 2"
  shows "\<exists>e. endMarker_fromWorld w = Some e \<and> end_ok e"
  using assms
  by (cases "w_reason w") (auto simp: endMarker_fromWorld_def gameOver_def endMarker_aborted_def
      endMarker_ruleDraw_def endMarker_completed_def end_ok_def)

end
