(* ===== verification/Text_Stream.thy ===== *)
theory Text_Stream
  imports Replay_Log
begin

text \<open>
  What \<open>Tilemap::loadText\<close> uses of \<open>std::istringstream\<close>, in the classic locale: \<open>operator>>\<close> for \<open>int\<close>,
  \<open>ignore\<close> up to a line feed, and \<open>std::getline\<close>, with the bits \<open>eofbit\<close> and \<open>failbit\<close>. An operation on a
  stream that is not good only sets \<open>failbit\<close>; \<open>operator>>\<close> then leaves its variable as it was, and \<open>getline\<close>
  its string.
\<close>

record istringstream =
  ss_rest :: string
  ss_eof :: bool
  ss_fail :: bool

definition istringstream_new :: "string \<Rightarrow> istringstream" where
  "istringstream_new text = \<lparr>ss_rest = text, ss_eof = False, ss_fail = False\<rparr>"

definition ss_good :: "istringstream \<Rightarrow> bool" where
  "ss_good s \<longleftrightarrow> \<not> ss_eof s \<and> \<not> ss_fail s"

definition is_space :: "char \<Rightarrow> bool" where
  "is_space c \<longleftrightarrow> c \<in> {CHR '' '', CHR 0x09, CHR 0x0A, CHR 0x0B, CHR 0x0C, CHR 0x0D}"

definition is_digit :: "char \<Rightarrow> bool" where
  "is_digit c \<longleftrightarrow> of_char c \<ge> (48 :: nat) \<and> of_char c \<le> (57 :: nat)"

definition dec_value :: "string \<Rightarrow> int" where
  "dec_value ds = foldl (\<lambda>n c. 10 * n + (of_char c - 48)) 0 ds"

definition INT_MAX :: int where "INT_MAX = 2147483647"
definition INT_MIN :: int where "INT_MIN = - 2147483648"

text \<open>\<open>s >> value\<close>; \<open>None\<close> for a value that is not written.\<close>

definition read_int :: "istringstream \<Rightarrow> int option \<times> istringstream" where
  "read_int s =
     (if \<not> ss_good s then (None, s\<lparr>ss_fail := True\<rparr>)
      else let d = dropWhile is_space (ss_rest s) in
        if d = [] then (None, s\<lparr>ss_rest := [], ss_eof := True, ss_fail := True\<rparr>)
        else let d' = (if hd d = CHR ''-'' \<or> hd d = CHR ''+'' then tl d else d);
                 digits = takeWhile is_digit d'; rest = dropWhile is_digit d';
                 s = s\<lparr>ss_rest := rest, ss_eof := rest = []\<rparr>;
                 n = (if hd d = CHR ''-'' then - dec_value digits else dec_value digits) in
          if digits = [] then (Some 0, s\<lparr>ss_fail := True\<rparr>)
          else if n > INT_MAX then (Some INT_MAX, s\<lparr>ss_fail := True\<rparr>)
          else if n < INT_MIN then (Some INT_MIN, s\<lparr>ss_fail := True\<rparr>)
          else (Some n, s))"

definition ignore_line :: "istringstream \<Rightarrow> istringstream" where
  "ignore_line s =
     (if \<not> ss_good s then s\<lparr>ss_fail := True\<rparr>
      else (case dropWhile (\<lambda>c. c \<noteq> CHR 0x0A) (ss_rest s) of
          [] \<Rightarrow> s\<lparr>ss_rest := [], ss_eof := True\<rparr>
        | _ # rest \<Rightarrow> s\<lparr>ss_rest := rest\<rparr>))"

definition get_line :: "istringstream \<Rightarrow> string \<Rightarrow> string \<times> istringstream" where
  "get_line s line =
     (if \<not> ss_good s then (line, s\<lparr>ss_fail := True\<rparr>)
      else let l = takeWhile (\<lambda>c. c \<noteq> CHR 0x0A) (ss_rest s) in
        (case dropWhile (\<lambda>c. c \<noteq> CHR 0x0A) (ss_rest s) of
           [] \<Rightarrow> (l, s\<lparr>ss_rest := [], ss_eof := True, ss_fail := (l = [])\<rparr>)
         | _ # rest \<Rightarrow> (l, s\<lparr>ss_rest := rest\<rparr>)))"

text \<open>\<open>os << value\<close> for an integer.\<close>

definition dec_int :: "int \<Rightarrow> string" where
  "dec_int n = (if n < 0 then CHR ''-'' # dec_digits (nat (- n)) else dec_digits (nat n))"

subsection \<open>What is printed is read back\<close>

lemma dec_char_digit:
  assumes "d < 10" shows "is_digit (dec_char d)" "of_char (dec_char d) = 48 + int d"
proof -
  have "d \<in> {0, 1, 2, 3, 4, 5, 6, 7, 8, 9}" using assms by auto
  then show "is_digit (dec_char d)" "of_char (dec_char d) = 48 + int d"
    by (auto simp: is_digit_def dec_char_def)
qed

lemma dec_digits_digits: "list_all is_digit (dec_digits n) \<and> dec_digits n \<noteq> []"
proof (induction n rule: dec_digits.induct)
  case (1 n)
  then show ?case using dec_char_digit(1) [of n] dec_char_digit(1) [of "n mod 10"]
    by (cases "n < 10") (simp_all add: dec_digits.simps [of n])
qed

lemma dec_value_snoc: "dec_value (ds @ [c]) = 10 * dec_value ds + (of_char c - 48)"
  by (simp add: dec_value_def)

lemma dec_value_digits: "dec_value (dec_digits n) = int n"
proof (induction n rule: dec_digits.induct)
  case (1 n)
  show ?case
  proof (cases "n < 10")
    case True
    then show ?thesis using dec_char_digit(2) by (simp add: dec_digits.simps [of n] dec_value_def)
  next
    case False
    have "dec_value (dec_digits n) = 10 * dec_value (dec_digits (n div 10)) + (of_char (dec_char (n mod 10)) - 48)"
      using False by (simp add: dec_digits.simps [of n] dec_value_snoc)
    also have "\<dots> = 10 * int (n div 10) + int (n mod 10)"
      using 1 False dec_char_digit(2) [of "n mod 10"] by simp
    also have "\<dots> = int n" by presburger
    finally show ?thesis .
  qed
qed

lemma digit_not_space: "is_digit c \<Longrightarrow> \<not> is_space c \<and> c \<noteq> CHR ''-'' \<and> c \<noteq> CHR ''+''"
  by (auto simp: is_digit_def is_space_def)

lemma takeWhile_stop: "list_all P xs \<Longrightarrow> \<not> P y \<Longrightarrow> takeWhile P (xs @ y # ys) = xs"
  "list_all P xs \<Longrightarrow> \<not> P y \<Longrightarrow> dropWhile P (xs @ y # ys) = y # ys"
  by (induction xs) auto

text \<open>A number followed by another character is read; spaces before it are skipped.\<close>

lemma read_dec_int:
  assumes "0 \<le> n" "n \<le> INT_MAX" "\<not> is_digit c" "list_all is_space sp"
  shows "read_int \<lparr>ss_rest = sp @ dec_int n @ c # cs, ss_eof = False, ss_fail = False\<rparr>
    = (Some n, \<lparr>ss_rest = c # cs, ss_eof = False, ss_fail = False\<rparr>)"
proof -
  obtain d ds where d: "dec_digits (nat n) = d # ds" "is_digit d"
    using dec_digits_digits [of "nat n"] by (cases "dec_digits (nat n)") auto
  have "dropWhile is_space (sp @ dec_int n @ c # cs) = dec_digits (nat n) @ c # cs"
    using assms(1,4) d digit_not_space [OF d(2)] takeWhile_stop(2) [of is_space sp d "ds @ c # cs"]
    by (simp add: dec_int_def)
  moreover have "takeWhile is_digit (dec_digits (nat n) @ c # cs) = dec_digits (nat n)"
    "dropWhile is_digit (dec_digits (nat n) @ c # cs) = c # cs"
    using takeWhile_stop [of is_digit "dec_digits (nat n)" c cs] dec_digits_digits assms(3) by simp_all
  moreover have "hd (dec_digits (nat n) @ c # cs) = d" using d by simp
  ultimately show ?thesis
    using assms(1,2) dec_value_digits [of "nat n"] digit_not_space [OF d(2)] d(1)
    by (simp add: read_int_def ss_good_def Let_def INT_MIN_def)
qed

lemma get_line_feed:
  assumes "CHR 0x0A \<notin> set l"
  shows "get_line \<lparr>ss_rest = l @ CHR 0x0A # cs, ss_eof = False, ss_fail = False\<rparr> line
    = (l, \<lparr>ss_rest = cs, ss_eof = False, ss_fail = False\<rparr>)"
proof -
  have "list_all (\<lambda>c. c \<noteq> CHR 0x0A) l" using assms by (auto simp: list_all_iff)
  from takeWhile_stop [OF this, of "CHR 0x0A" cs] show ?thesis by (simp add: get_line_def ss_good_def)
qed

end
