(* ===== verification/Cli_Options.thy ===== *)
theory Cli_Options
  imports Xoroshiro Game_Rules Text_Stream
begin

text \<open>
  The command line (\<open>include/corertt/cli.h\<close>, \<open>src/cli/parser.cpp\<close>). What the option library makes of
  \<open>argv\<close> is a value of \<open>cli_args\<close>: the value of each option that was given, \<open>None\<close> for one that was not
  (\<open>is_used\<close> is false, \<open>get\<close> returns the default), and the flags. Options of the other mode are not
  registered and are not looked at. A thrown \<open>std::runtime_error\<close> is \<open>Inl\<close> of an \<open>option_error\<close>, with the
  name and the bounds of the option where the message has them.
\<close>

datatype cli_mode = Interactive | Headless

datatype ui_mode = Tui | Plain

record program_options =
  po_width :: int
  po_height :: int
  po_base_size :: int
  po_resources :: int
  po_step_interval_ms :: int
  po_max_ticks :: u32
  po_dynamic_draw :: bool
  po_p1_base :: string
  po_p1_unit :: string
  po_p2_base :: string
  po_p2_unit :: string
  po_map_file :: string
  po_seed :: "seed option"
  po_replay_file :: string
  po_play_replay :: string
  po_output_zstd :: bool
  po_output_zstd_level :: int
  po_worker_mode :: bool
  po_ui_mode :: ui_mode
  po_rules :: game_rules

definition default_options :: program_options where
  "default_options =
     \<lparr>po_width = 64, po_height = 64, po_base_size = 5, po_resources = 5, po_step_interval_ms = 200, po_max_ticks = 0,
      po_dynamic_draw = False, po_p1_base = ''player1_base.elf'', po_p1_unit = ''player1_unit.elf'',
      po_p2_base = ''player2_base.elf'', po_p2_unit = ''player2_unit.elf'', po_map_file = '''', po_seed = None,
      po_replay_file = '''', po_play_replay = '''', po_output_zstd = False, po_output_zstd_level = 12,
      po_worker_mode = False, po_ui_mode = Tui, po_rules = default_rules\<rparr>"

record cli_args =
  a_width :: "int option"
  a_height :: "int option"
  a_base_size :: "int option"
  a_resources :: "int option"
  a_unit_health :: "int option"
  a_natural_energy_rate :: "u32 option"
  a_resource_zone_energy_rate :: "int option"
  a_attack_cooldown :: "int option"
  a_capacity_lv1 :: "int option"
  a_capacity_lv2 :: "int option"
  a_vision_lv1 :: "int option"
  a_vision_lv2 :: "int option"
  a_capacity_upgrade_cost :: "int option"
  a_vision_upgrade_cost :: "int option"
  a_damage_upgrade_cost :: "int option"
  a_manufact_cost :: "int option"
  a_capture_turn_threshold :: "int option"
  a_p1_base :: "string option"
  a_p1_unit :: "string option"
  a_p2_base :: "string option"
  a_p2_unit :: "string option"
  a_map :: "string option"
  a_seed :: "string option"
  a_replay_file :: "string option"
  a_output_zstd :: bool
  a_max_ticks :: "u32 option"
  a_dynamic_draw :: bool
  a_worker_mode :: bool
  a_step_interval_ms :: "int option"
  a_ui_mode :: "string option"
  a_play_replay :: "string option"

text \<open>\<open>program.get\<close> of an option with a default value.\<close>

definition get_or :: "'a \<Rightarrow> 'a option \<Rightarrow> 'a" where
  "get_or d a = (case a of None \<Rightarrow> d | Some v \<Rightarrow> v)"

datatype option_error =
    ArgumentsRejected
  | InvalidUIMode string
  | DynamicDrawConflict
  | MapWithPlayback
  | GenerationWithPlayback
  | ReplayFileWithPlayback
  | ZstdWithoutReplayFile
  | WorkerWithoutZstd
  | MapWithGeneration
  | NotWithin string int int
  | NotOrdered string string

definition FIXED_ZSTD_COMPRESSION_LEVEL :: int where "FIXED_ZSTD_COMPRESSION_LEVEL = 12"

definition parseUIMode :: "string \<Rightarrow> option_error + ui_mode" where
  "parseUIMode v =
     (if v = ''tui'' then Inr Tui else if v = ''plain'' then Inr Plain else Inl (InvalidUIMode v))"

text \<open>The first of a list of range checks that fails.\<close>

fun first_outside :: "(string \<times> int \<times> int \<times> int) list \<Rightarrow> option_error option" where
  "first_outside [] = None"
| "first_outside ((name, v, lo, hi) # checks) =
     (if v < lo \<or> v > hi then Some (NotWithin name lo hi) else first_outside checks)"

subsection \<open>The options of the match\<close>

definition used_random_generation_option :: "cli_args \<Rightarrow> bool" where
  "used_random_generation_option a \<longleftrightarrow>
     a_width a \<noteq> None \<or> a_height a \<noteq> None \<or> a_base_size a \<noteq> None \<or> a_resources a \<noteq> None \<or> a_seed a \<noteq> None"

text \<open>The options that are copied before the first check.\<close>

definition copied_options :: "cli_mode \<Rightarrow> cli_args \<Rightarrow> program_options" where
  "copied_options mode a = default_options
     \<lparr>po_width := get_or 64 (a_width a), po_height := get_or 64 (a_height a),
      po_base_size := get_or 5 (a_base_size a), po_resources := get_or 5 (a_resources a),
      po_p1_base := get_or ''player1_base.elf'' (a_p1_base a), po_p1_unit := get_or ''player1_unit.elf'' (a_p1_unit a),
      po_p2_base := get_or ''player2_base.elf'' (a_p2_base a), po_p2_unit := get_or ''player2_unit.elf'' (a_p2_unit a),
      po_map_file := get_or '''' (a_map a), po_seed := map_option seed_fromString (a_seed a),
      po_replay_file := get_or '''' (a_replay_file a), po_max_ticks := get_or 0 (a_max_ticks a),
      po_worker_mode := (mode = Headless \<and> a_worker_mode a),
      po_step_interval_ms := (if mode = Interactive then get_or 200 (a_step_interval_ms a) else 200),
      po_play_replay := (if mode = Interactive then get_or '''' (a_play_replay a) else ''''),
      po_dynamic_draw := a_dynamic_draw a, po_output_zstd := a_output_zstd a,
      po_output_zstd_level := FIXED_ZSTD_COMPRESSION_LEVEL\<rparr>"

definition conflict :: "cli_mode \<Rightarrow> cli_args \<Rightarrow> program_options \<Rightarrow> option_error option" where
  "conflict mode a options =
     (let used = used_random_generation_option a; playback = po_play_replay options \<noteq> '''' in
      if mode = Interactive \<and> po_map_file options \<noteq> '''' \<and> playback then Some MapWithPlayback
      else if mode = Interactive \<and> used \<and> playback then Some GenerationWithPlayback
      else if mode = Interactive \<and> po_replay_file options \<noteq> '''' \<and> playback then Some ReplayFileWithPlayback
      else if mode = Interactive \<and> po_output_zstd options \<and> po_replay_file options = '''' then Some ZstdWithoutReplayFile
      else if mode = Headless \<and> po_worker_mode options \<and> \<not> po_output_zstd options then Some WorkerWithoutZstd
      else if po_map_file options \<noteq> '''' \<and> used then Some MapWithGeneration
      else None)"

definition size_checks :: "program_options \<Rightarrow> (string \<times> int \<times> int \<times> int) list" where
  "size_checks options =
     [(''WIDTH'', po_width options, 4, 255), (''HEIGHT'', po_height options, 4, 255),
      (''BASE_SIZE'', po_base_size options, 2, 8)]"

text \<open>The values of the rules, as \<open>int\<close> before they are narrowed.\<close>

record rule_values =
  rv_unit_health :: int
  rv_natural_energy_rate :: u32
  rv_resource_zone_energy_rate :: int
  rv_attack_cooldown :: int
  rv_capacity_lv1 :: int
  rv_capacity_lv2 :: int
  rv_vision_lv1 :: int
  rv_vision_lv2 :: int
  rv_capacity_upgrade_cost :: int
  rv_vision_upgrade_cost :: int
  rv_damage_upgrade_cost :: int
  rv_manufact_cost :: int
  rv_capture_turn_threshold :: int

definition rule_values_of :: "cli_args \<Rightarrow> rule_values" where
  "rule_values_of a =
     \<lparr>rv_unit_health = get_or 100 (a_unit_health a),
      rv_natural_energy_rate = get_or 1 (a_natural_energy_rate a),
      rv_resource_zone_energy_rate = get_or 25 (a_resource_zone_energy_rate a),
      rv_attack_cooldown = get_or 3 (a_attack_cooldown a),
      rv_capacity_lv1 = get_or 200 (a_capacity_lv1 a), rv_capacity_lv2 = get_or 1000 (a_capacity_lv2 a),
      rv_vision_lv1 = get_or 5 (a_vision_lv1 a), rv_vision_lv2 = get_or 9 (a_vision_lv2 a),
      rv_capacity_upgrade_cost = get_or 400 (a_capacity_upgrade_cost a),
      rv_vision_upgrade_cost = get_or 1000 (a_vision_upgrade_cost a),
      rv_damage_upgrade_cost = get_or 600 (a_damage_upgrade_cost a),
      rv_manufact_cost = get_or 500 (a_manufact_cost a),
      rv_capture_turn_threshold = get_or 8 (a_capture_turn_threshold a)\<rparr>"

definition rule_checks :: "rule_values \<Rightarrow> (string \<times> int \<times> int \<times> int) list" where
  "rule_checks v =
     [(''UNIT_HEALTH'', rv_unit_health v, 1, 255),
      (''NATURAL_ENERGY_RATE'', uint (rv_natural_energy_rate v), 1, 255),
      (''RESOURCE_ZONE_ENERGY_RATE'', rv_resource_zone_energy_rate v, 1, 255),
      (''ATTACK_COOLDOWN'', rv_attack_cooldown v, 1, 255),
      (''CAPTURE_TURN_THRESHOLD'', rv_capture_turn_threshold v, 1, 255),
      (''VISION_LV1'', rv_vision_lv1 v, 1, 255), (''VISION_LV2'', rv_vision_lv2 v, 1, 255),
      (''CAPACITY_LV1'', rv_capacity_lv1 v, 1, 65535), (''CAPACITY_LV2'', rv_capacity_lv2 v, 1, 65535),
      (''CAPACITY_UPGRADE_COST'', rv_capacity_upgrade_cost v, 1, 65535),
      (''VISION_UPGRADE_COST'', rv_vision_upgrade_cost v, 1, 65535),
      (''DAMAGE_UPGRADE_COST'', rv_damage_upgrade_cost v, 1, 65535),
      (''MANUFACT_COST'', rv_manufact_cost v, 1, 65535)]"

definition apply_rule_values :: "rule_values \<Rightarrow> game_rules \<Rightarrow> game_rules" where
  "apply_rule_values v r = r
     \<lparr>gr_unit_health := word_of_int (rv_unit_health v), gr_natural_energy_rate := ucast (rv_natural_energy_rate v),
      gr_resource_zone_energy_rate := word_of_int (rv_resource_zone_energy_rate v),
      gr_attack_cooldown := word_of_int (rv_attack_cooldown v),
      gr_capacity_lv1 := word_of_int (rv_capacity_lv1 v), gr_capacity_lv2 := word_of_int (rv_capacity_lv2 v),
      gr_vision_lv1 := word_of_int (rv_vision_lv1 v), gr_vision_lv2 := word_of_int (rv_vision_lv2 v),
      gr_capacity_upgrade_cost := word_of_int (rv_capacity_upgrade_cost v),
      gr_vision_upgrade_cost := word_of_int (rv_vision_upgrade_cost v),
      gr_damage_upgrade_cost := word_of_int (rv_damage_upgrade_cost v),
      gr_manufact_cost := word_of_int (rv_manufact_cost v),
      gr_capture_turn_threshold := word_of_int (rv_capture_turn_threshold v)\<rparr>"

definition draw_seed :: "seed \<Rightarrow> program_options \<Rightarrow> program_options" where
  "draw_seed device options =
     (if po_map_file options = '''' \<and> po_seed options = None then options\<lparr>po_seed := Some device\<rparr> else options)"

text \<open>
  The part of \<open>parseOptions\<close> that follows \<open>parse_args\<close>; \<open>device\<close> is what \<open>Seed::deviceRandom\<close> returns.
\<close>

definition parse_given :: "seed \<Rightarrow> cli_mode \<Rightarrow> cli_args \<Rightarrow> option_error + program_options" where
  "parse_given device mode a =
     (case (if mode = Interactive then parseUIMode (get_or ''tui'' (a_ui_mode a)) else Inr Tui) of
        Inl e \<Rightarrow> Inl e
      | Inr ui \<Rightarrow>
          let options = (copied_options mode a)\<lparr>po_ui_mode := ui\<rparr>;
              v = rule_values_of a in
          if po_dynamic_draw options \<and> po_max_ticks options > 0 then Inl DynamicDrawConflict
          else (case conflict mode a options of
              Some e \<Rightarrow> Inl e
            | None \<Rightarrow>
                let options = draw_seed device options in
                (case first_outside ((if used_random_generation_option a then size_checks options else []) @ rule_checks v) of
                   Some e \<Rightarrow> Inl e
                 | None \<Rightarrow>
                     if rv_capacity_lv2 v < rv_capacity_lv1 v then Inl (NotOrdered ''CAPACITY_LV2'' ''CAPACITY_LV1'')
                     else if rv_vision_lv2 v < rv_vision_lv1 v then Inl (NotOrdered ''VISION_LV2'' ''VISION_LV1'')
                     else Inr (options\<lparr>po_rules := apply_rule_values v (po_rules options)\<rparr>))))"

text \<open>\<open>None\<close> stands for arguments that the option library rejects.\<close>

definition parseOptions :: "seed \<Rightarrow> cli_mode \<Rightarrow> cli_args option \<Rightarrow> option_error + program_options" where
  "parseOptions device mode args =
     (case args of None \<Rightarrow> Inl ArgumentsRejected | Some a \<Rightarrow> parse_given device mode a)"

subsection \<open>What accepted options satisfy\<close>

lemma first_outside_None: "first_outside checks = None \<longleftrightarrow> (\<forall>(_, v, lo, hi)\<in>set checks. lo \<le> v \<and> v \<le> hi)"
  by (induction checks rule: first_outside.induct) auto

declare first_outside.simps [simp del]

text \<open>A value that passed its check is not changed by the narrowing.\<close>

lemma narrowed_8: "1 \<le> n \<Longrightarrow> n \<le> 255 \<Longrightarrow> uint (word_of_int n :: u8) = n"
  by (simp add: uint_word_of_int)

lemma narrowed_16: "1 \<le> n \<Longrightarrow> n \<le> 65535 \<Longrightarrow> uint (word_of_int n :: u16) = n"
  by (simp add: uint_word_of_int)

lemma narrowed_rate: "uint x \<le> 255 \<Longrightarrow> uint (ucast x :: u8) = uint x" for x :: u32
  by (simp add: uint_word_of_int unsigned_ucast_eq take_bit_eq_mod)

lemma widened_8: "uint (ucast (x :: u8) :: u32) = uint x" "uint (ucast (x :: u8) :: u16) = uint x"
  by (simp_all add: uint_up_ucast is_up)

definition values_ok :: "rule_values \<Rightarrow> bool" where
  "values_ok v \<longleftrightarrow> first_outside (rule_checks v) = None
     \<and> rv_capacity_lv1 v \<le> rv_capacity_lv2 v \<and> rv_vision_lv1 v \<le> rv_vision_lv2 v"

text \<open>The bounds that the parser tests are those that \<open>GameRules::validate\<close> asks for.\<close>

lemma apply_rule_values_valid:
  assumes v: "values_ok v" and dims: "4 \<le> w" "4 \<le> h" "2 \<le> n" "n \<le> 8"
  shows "rules_validate ((apply_rule_values v r)\<lparr>gr_width := w, gr_height := h, gr_base_size := n\<rparr>)"
proof -
  have c: "\<forall>(_, x, lo, hi)\<in>set (rule_checks v). lo \<le> x \<and> x \<le> hi"
    using v by (simp add: values_ok_def first_outside_None)
  have top: "uint x \<le> 255" for x :: u8 using uint_bounded [of x] by simp
  have "rules_validate ((apply_rule_values v r)\<lparr>gr_width := w, gr_height := h, gr_base_size := n\<rparr>)"
    using c v dims top [of w] top [of h]
    by (simp add: rule_checks_def rules_validate_def isInRange_def apply_rule_values_def values_ok_def
        word_le_def widened_8 narrowed_8 narrowed_16 narrowed_rate)
  then show ?thesis .
qed

lemma conflict_unchanged:
  "conflict mode a (draw_seed device p) = conflict mode a p" "conflict mode a (p\<lparr>po_rules := r\<rparr>) = conflict mode a p"
  by (auto simp: conflict_def draw_seed_def Let_def cong: if_cong)

lemma parse_given_Inr:
  assumes "parse_given device mode a = Inr p"
  shows "values_ok (rule_values_of a)" "po_rules p = apply_rule_values (rule_values_of a) default_rules"
    "conflict mode a p = None" "\<not> (po_dynamic_draw p \<and> po_max_ticks p > 0)"
    "po_map_file p = '''' \<Longrightarrow> po_seed p \<noteq> None"
    "used_random_generation_option a \<Longrightarrow> first_outside (size_checks p) = None"
    "\<exists>ui sd. p = (copied_options mode a)\<lparr>po_ui_mode := ui, po_seed := sd, po_rules := po_rules p\<rparr>"
    "po_map_file p \<noteq> '''' \<Longrightarrow> po_seed p = map_option seed_fromString (a_seed a)"
proof -
  obtain ui where ui: "(if mode = Interactive then parseUIMode (get_or ''tui'' (a_ui_mode a)) else Inr Tui) = Inr ui"
    using assms by (auto simp: parse_given_def split: sum.splits)
  let ?o = "(copied_options mode a)\<lparr>po_ui_mode := ui\<rparr>"
  let ?p = "draw_seed device ?o"
  let ?v = "rule_values_of a"
  have A: "\<not> (po_dynamic_draw ?o \<and> po_max_ticks ?o > 0)" "conflict mode a ?o = None"
    "first_outside ((if used_random_generation_option a then size_checks ?p else []) @ rule_checks ?v) = None"
    "\<not> rv_capacity_lv2 ?v < rv_capacity_lv1 ?v" "\<not> rv_vision_lv2 ?v < rv_vision_lv1 ?v"
    "p = ?p\<lparr>po_rules := apply_rule_values ?v (po_rules ?p)\<rparr>"
    using assms unfolding parse_given_def ui sum.case Let_def
    by (simp_all only: split: if_split_asm option.split_asm) simp_all
  show "values_ok ?v" using A(3-5) by (auto simp: values_ok_def first_outside_None)
  show "po_rules p = apply_rule_values ?v default_rules" using A(6) by (simp add: draw_seed_def copied_options_def default_options_def)
  show "conflict mode a p = None" using A(2,6) by (simp add: conflict_unchanged)
  show "\<not> (po_dynamic_draw p \<and> po_max_ticks p > 0)" using A(1,6) by (simp add: draw_seed_def)
  show "po_map_file p = '''' \<Longrightarrow> po_seed p \<noteq> None" using A(6) by (auto simp: draw_seed_def)
  show "used_random_generation_option a \<Longrightarrow> first_outside (size_checks p) = None"
    using A(3,6) by (auto simp: first_outside_None size_checks_def)
  show "\<exists>ui sd. p = (copied_options mode a)\<lparr>po_ui_mode := ui, po_seed := sd, po_rules := po_rules p\<rparr>"
    using A(6) by (auto simp: draw_seed_def copied_options_def default_options_def)
  show "po_map_file p \<noteq> '''' \<Longrightarrow> po_seed p = map_option seed_fromString (a_seed a)"
    using A(6) by (auto simp: draw_seed_def copied_options_def split: if_splits)
qed

text \<open>
  Accepted options: the rules are valid on every map of legal size, the sizes are within the bounds of the
  parser when a map is to be generated, and the modes of operation do not contradict one another.
\<close>

definition options_ok :: "cli_mode \<Rightarrow> program_options \<Rightarrow> bool" where
  "options_ok mode p \<longleftrightarrow>
     (\<forall>w h n. 4 \<le> w \<and> 4 \<le> h \<and> 2 \<le> n \<and> n \<le> 8
        \<longrightarrow> rules_validate ((po_rules p)\<lparr>gr_width := w, gr_height := h, gr_base_size := n\<rparr>))
     \<and> 4 \<le> po_width p \<and> po_width p \<le> 255 \<and> 4 \<le> po_height p \<and> po_height p \<le> 255
     \<and> 2 \<le> po_base_size p \<and> po_base_size p \<le> 8
     \<and> (po_map_file p = '''' \<longrightarrow> po_seed p \<noteq> None)
     \<and> (po_map_file p \<noteq> '''' \<longrightarrow> po_seed p = None)
     \<and> \<not> (po_dynamic_draw p \<and> po_max_ticks p > 0)
     \<and> (po_play_replay p \<noteq> '''' \<longrightarrow> mode = Interactive \<and> po_map_file p = '''' \<and> po_replay_file p = '''')
     \<and> (mode = Interactive \<and> po_output_zstd p \<longrightarrow> po_replay_file p \<noteq> '''')
     \<and> (po_worker_mode p \<longrightarrow> mode = Headless \<and> po_output_zstd p)
     \<and> po_output_zstd_level p = FIXED_ZSTD_COMPRESSION_LEVEL"

lemma parseOptions_ok: "parseOptions device mode args = Inr p \<Longrightarrow> options_ok mode p"
proof -
  assume "parseOptions device mode args = Inr p"
  then obtain a where a: "parse_given device mode a = Inr p" by (auto simp: parseOptions_def split: option.splits)
  note P = parse_given_Inr [OF a]
  obtain ui sd where p: "p = (copied_options mode a)\<lparr>po_ui_mode := ui, po_seed := sd, po_rules := po_rules p\<rparr>"
    using P(7) by blast
  have sizes: "4 \<le> po_width p \<and> po_width p \<le> 255 \<and> 4 \<le> po_height p \<and> po_height p \<le> 255
     \<and> 2 \<le> po_base_size p \<and> po_base_size p \<le> 8"
  proof (cases "used_random_generation_option a")
    case True
    then show ?thesis using P(6) by (simp add: first_outside_None size_checks_def)
  next
    case False
    then show ?thesis by (subst (1 2 3 4 5 6) p) (simp add: used_random_generation_option_def copied_options_def get_or_def)
  qed
  have rules: "\<forall>w h n. 4 \<le> w \<and> 4 \<le> h \<and> 2 \<le> n \<and> n \<le> 8
      \<longrightarrow> rules_validate ((po_rules p)\<lparr>gr_width := w, gr_height := h, gr_base_size := n\<rparr>)"
    using apply_rule_values_valid [OF P(1)] P(2) by simp
  have mode: "po_play_replay p \<noteq> '''' \<Longrightarrow> mode = Interactive" "po_worker_mode p \<Longrightarrow> mode = Headless"
    "po_output_zstd_level p = FIXED_ZSTD_COMPRESSION_LEVEL"
    by ((subst (asm) p)?, (subst p)?, simp add: copied_options_def split: if_splits)+
  have seed: "po_map_file p \<noteq> '''' \<Longrightarrow> po_seed p = None"
    using P(3,8) by (auto simp: conflict_def used_random_generation_option_def Let_def split: if_splits)
  have excl: "po_play_replay p \<noteq> '''' \<Longrightarrow> po_map_file p = '''' \<and> po_replay_file p = ''''"
    "mode = Interactive \<and> po_output_zstd p \<Longrightarrow> po_replay_file p \<noteq> ''''"
    "po_worker_mode p \<Longrightarrow> po_output_zstd p"
    using P(3) mode by (auto simp: conflict_def Let_def split: if_splits)
  show ?thesis
    unfolding options_ok_def using rules sizes P(4,5) seed excl mode by blast
qed

text \<open>The values that the rules hold, as the command line gave them.\<close>

definition values_of_rules :: "game_rules \<Rightarrow> rule_values" where
  "values_of_rules r =
     \<lparr>rv_unit_health = uint (gr_unit_health r), rv_natural_energy_rate = ucast (gr_natural_energy_rate r),
      rv_resource_zone_energy_rate = uint (gr_resource_zone_energy_rate r),
      rv_attack_cooldown = uint (gr_attack_cooldown r),
      rv_capacity_lv1 = uint (gr_capacity_lv1 r), rv_capacity_lv2 = uint (gr_capacity_lv2 r),
      rv_vision_lv1 = uint (gr_vision_lv1 r), rv_vision_lv2 = uint (gr_vision_lv2 r),
      rv_capacity_upgrade_cost = uint (gr_capacity_upgrade_cost r),
      rv_vision_upgrade_cost = uint (gr_vision_upgrade_cost r),
      rv_damage_upgrade_cost = uint (gr_damage_upgrade_cost r),
      rv_manufact_cost = uint (gr_manufact_cost r),
      rv_capture_turn_threshold = uint (gr_capture_turn_threshold r)\<rparr>"

lemma ucast_rate: "uint x \<le> 255 \<Longrightarrow> ucast (ucast x :: u8) = x" for x :: u32
  using narrowed_rate [of x] widened_8(1) [of "ucast x"] by (simp add: word_uint_eq_iff)

lemma parseOptions_values:
  assumes "parseOptions device mode (Some a) = Inr p" shows "values_of_rules (po_rules p) = rule_values_of a"
proof -
  have p: "parse_given device mode a = Inr p" using assms by (simp add: parseOptions_def)
  have "\<forall>(_, x, lo, hi)\<in>set (rule_checks (rule_values_of a)). lo \<le> x \<and> x \<le> hi"
    using parse_given_Inr(1) [OF p] by (simp add: values_ok_def first_outside_None)
  then show ?thesis
    unfolding parse_given_Inr(2) [OF p]
    by (simp add: rule_checks_def values_of_rules_def apply_rule_values_def narrowed_8 narrowed_16 ucast_rate)
qed

end
