(* ===== verification/World_New.thy ===== *)
theory World_New
  imports World_Step
begin

text \<open>
  The world that the constructor \<open>World::World\<close> builds satisfies the invariant, for maps whose first
  base tile of each player, in the order of the scan, has room for a base. \<open>sample_map\<close> is the
  smallest map of that kind; the concrete matches of the development start from it.
\<close>

definition scan_positions :: "tilemap \<Rightarrow> (pos_t \<times> pos_t) list" where
  "scan_positions m = [(x, y). x \<leftarrow> [0..tm_width m - 1], y \<leftarrow> [0..tm_height m - 1]]"

definition base_at :: "tilemap \<Rightarrow> side \<Rightarrow> pos_t \<times> pos_t \<Rightarrow> bool" where
  "base_at m s p = (case tileOf m p of None \<Rightarrow> False | Some t \<Rightarrow> t_is_base t \<and> t_side t = side_id s)"

definition map_ok :: "tilemap \<Rightarrow> bool" where
  "map_ok m \<longleftrightarrow> tilemap_wf m \<and> 0 < tm_base_size m
     \<and> list_all (\<lambda>t. t_occupant t = NOT_OCCUPIED) (tm_tiles m)
     \<and> (\<forall>s\<in>{P1, P2}. case List.find (base_at m s) (scan_positions m) of None \<Rightarrow> False
          | Some p \<Rightarrow> fst p + tm_base_size m \<le> tm_width m \<and> snd p + tm_base_size m \<le> tm_height m)"

lemma side_of_Some: "side_of n = Some s \<longleftrightarrow> n = side_id s"
  by (cases s) (auto simp: side_of_def)

lemma find_base_fold:
  "foldM (find_base m) ps f = Some g \<Longrightarrow>
     g s = (case f s of Some p \<Rightarrow> Some p | None \<Rightarrow> List.find (base_at m s) ps)"
proof (induction ps arbitrary: f)
  case (Cons p ps)
  then obtain f1 where f1: "find_base m p f = Some f1" "foldM (find_base m) ps f1 = Some g"
    by (auto simp: bind_eq_Some_conv)
  obtain t where t: "tileOf m p = Some t" using f1(1) by (auto simp: find_base_def bind_eq_Some_conv)
  show ?case
  proof (cases "t_is_base t")
    case False
    then have "f1 = f" "\<not> base_at m s p" using f1(1) t by (auto simp: find_base_def base_at_def)
    then show ?thesis using Cons.IH [OF f1(2)] by (cases "f s") simp_all
  next
    case True
    then obtain s' where s': "t_side t = side_id s'" "f1 = (if f s' \<noteq> None then f else f(s' := Some p))"
      using f1(1) t by (auto simp: find_base_def side_of_Some split: bind_splits)
    have "base_at m s p \<longleftrightarrow> s = s'" using t True s'(1) by (auto simp: base_at_def)
    then show ?thesis using Cons.IH [OF f1(2)] s'(2) by (auto split: option.splits)
  qed
qed (simp split: option.split)

lemma scan_positions_inb: "p \<in> set (scan_positions m) \<Longrightarrow> tm_inb m p"
  by (auto simp: scan_positions_def tm_inb_def)

lemma find_in: "List.find P xs = Some x \<Longrightarrow> x \<in> set xs"
  by (auto simp: find_Some_iff)

text \<open>The first units.\<close>

lemma unused_id_spawned:
  assumes "unused_id w s' i'" "spawned s i p (w\<lparr>w_rng := r\<rparr>) w'" "(s', i') \<noteq> (s, i)"
  shows "unused_id w' s' i'"
  using assms by (auto simp: unused_id_def spawned_def new_unit_def)

definition start_frame :: "world \<Rightarrow> world \<Rightarrow> bool" where
  "start_frame w w' \<longleftrightarrow> static w' = static w \<and> w_tick w' = w_tick w \<and> w_reason w' = w_reason w
     \<and> w_bullets w' = w_bullets w
     \<and> (\<forall>s. p_base_capture_counter (w_players w' s) = p_base_capture_counter (w_players w s)
          \<and> p_base_energy (w_players w' s) = p_base_energy (w_players w s))"

lemma spawn_fold:
  assumes "turn_inv w" "io_ok w" "uniform_ok uniform_int" "distinct ps"
    "\<forall>(s, i)\<in>set ps. valid_id i \<and> unused_id w s i"
    "foldM (\<lambda>(s, i). spawnUnitAtBase uniform_int s i) ps w = Some w'"
  shows "turn_inv w' \<and> io_ok w' \<and> start_frame w w' \<and> length (w_units w') = length (w_units w) + length ps"
  using assms
proof (induction ps arbitrary: w)
  case Nil
  then show ?case by (simp add: start_frame_def)
next
  case (Cons q ps)
  obtain s i where q: "q = (s, i)" by (cases q)
  obtain w1 where w1: "spawnUnitAtBase uniform_int s i w = Some w1"
    "foldM (\<lambda>(s, i). spawnUnitAtBase uniform_int s i) ps w1 = Some w'"
    using Cons.prems(6) by (auto simp: q bind_eq_Some_conv)
  have v: "valid_id i" "unused_id w s i" using Cons.prems(5) by (auto simp: q)
  note spawn = spawnUnitAtBase_correct [OF Cons.prems(1) v Cons.prems(3)]
  have "\<not> base_full w s" using spawn(1) w1(1) by auto
  from spawn(2) [OF this] w1(1) obtain p r where
    sp: "turn_inv w1" "spawned s i p (w\<lparr>w_rng := r\<rparr>) w1" by auto
  have io: "io_ok w1"
  proof (rule spawned_io_ok [OF sp(2)])
    show "io_ok (w\<lparr>w_rng := r\<rparr>)" using Cons.prems(2) unfolding io_ok_def payloads_ok_def messages_ok_def by simp
  qed
  have rest: "\<forall>(s', i')\<in>set ps. valid_id i' \<and> unused_id w1 s' i'"
  proof (intro ballI, clarify)
    fix s' i' assume m: "(s', i') \<in> set ps"
    then have "(s', i') \<noteq> (s, i)" using Cons.prems(4) by (auto simp: q)
    then show "valid_id i' \<and> unused_id w1 s' i'"
      using m Cons.prems(5) unused_id_spawned [OF _ sp(2), of s' i'] by auto
  qed
  have dist: "distinct ps" using Cons.prems(4) by simp
  have fr: "start_frame w w1" "length (w_units w1) = length (w_units w) + 1"
    using sp(2) by (simp_all add: spawned_def start_frame_def)
  from Cons.IH [OF sp(1) io Cons.prems(3) dist rest w1(2)] fr show ?case
    by (simp add: start_frame_def)
qed

text \<open>The world before the first units are placed, and why it satisfies the invariant.\<close>

definition set_dimensions :: "tilemap \<Rightarrow> game_rules \<Rightarrow> game_rules" where
  "set_dimensions m rules = rules\<lparr>gr_width := word_of_int (tm_width m), gr_height := word_of_int (tm_height m),
     gr_base_size := word_of_int (tm_base_size m)\<rparr>"

definition initial_world :: "tilemap \<Rightarrow> game_rules \<Rightarrow> found_bases \<Rightarrow> seed \<Rightarrow> world" where
  "initial_world m rules found rng = \<lparr>w_tick = 0, w_map = m, w_rules = set_dimensions m rules,
     w_players = (\<lambda>s. new_player\<lparr>p_base_x := fst (the (found s)), p_base_y := snd (the (found s))\<rparr>),
     w_units = [], w_uheap = (\<lambda>_. None), w_bullets = [], w_bheap = (\<lambda>_. None),
     w_next = 0, w_logs = [], w_events = no_events, w_reason = Ongoing, w_winner = 0, w_rng = rng\<rparr>"

definition first_units :: "(side \<times> u8) list" where
  "first_units = [(P1, 1), (P1, 2), (P1, 3), (P2, 1), (P2, 2), (P2, 3)]"

lemma new_world_steps:
  "new_world uniform_int m rules rng = do {
     fail_fast_assert (rules_validate (set_dimensions m rules));
     found \<leftarrow> foldM (find_base m) (scan_positions m) (\<lambda>_. None);
     fail_fast_assert (found P1 \<noteq> None \<and> found P2 \<noteq> None);
     foldM (\<lambda>(s, i). spawnUnitAtBase uniform_int s i) first_units (initial_world m rules found rng)
   }"
  by (simp add: new_world_def Let_def scan_positions_def initial_world_def set_dimensions_def first_units_def)

lemma initial_world_inv:
  assumes m: "map_ok m" and r: "rules_validate (set_dimensions m rules)"
    and found: "\<And>s. found s = List.find (base_at m s) (scan_positions m)"
  shows "turn_inv (initial_world m rules found rng)" "io_ok (initial_world m rules found rng)"
    "capture_inv (initial_world m rules found rng)"
proof -
  let ?w = "initial_world m rules found rng"
  note W = initial_world_def
  have base: "0 \<le> fst (the (found s)) \<and> 0 \<le> snd (the (found s))
      \<and> fst (the (found s)) + tm_base_size m \<le> tm_width m
      \<and> snd (the (found s)) + tm_base_size m \<le> tm_height m" for s
  proof -
    have "s \<in> {P1, P2}" by (cases s) auto
    then obtain p where p: "List.find (base_at m s) (scan_positions m) = Some p"
      "fst p + tm_base_size m \<le> tm_width m" "snd p + tm_base_size m \<le> tm_height m"
      using m by (auto simp: map_ok_def split: option.splits)
    then show ?thesis using found [of s] scan_positions_inb [OF find_in [OF p(1)]] by (simp add: tm_inb_def)
  qed
  have st: "static_ok ?w"
    using m r base by (simp add: W static_ok_def bases_on_map_def map_ok_def)
  have free: "occ ?w = (\<lambda>p. if tm_inb m p then Some NOT_OCCUPIED else None)"
  proof
    show "occ ?w p = (if tm_inb m p then Some NOT_OCCUPIED else None)" for p
      using m tile_index_less [of m p]
      by (auto simp: W occ_def world_tile_def tileOf_def map_ok_def list_all_length)
  qed
  have none: "slots ?w = (\<lambda>_. replicate max_units None)" by (rule ext) (simp add: W slots_def new_player_def)
  have "wf_heap None (occ ?w) [] (\<lambda>_. None) [] (\<lambda>_. None) (slots ?w) 0"
    unfolding free none wf_heap_def by auto
  then have "winv ?w" using st by (simp add: W winv_in_flight_def)
  then show "turn_inv ?w" by (simp add: W turn_inv_def settled_def stats_ok_def)
  show "io_ok ?w" by (simp add: W io_ok_def payloads_ok_def messages_ok_def new_player_def)
  show "capture_inv ?w"
    using rules_validate_nonzero(3) [OF r] by (simp add: W capture_inv_def new_player_def word_less_def)
qed

lemma new_world_ok:
  assumes m: "map_ok m" and U: "uniform_ok uniform_int"
    and r: "new_world uniform_int m rules rng = Some w"
  shows "turn_inv w \<and> io_ok w \<and> capture_inv w \<and> w_reason w = Ongoing \<and> w_tick w = 0
    \<and> length (w_units w) = 6 \<and> w_bullets w = [] \<and> map_size w = (tm_width m, tm_height m)
    \<and> (\<forall>p. ground w p = map_option (\<lambda>t. t\<lparr>t_occupant := NOT_OCCUPIED\<rparr>) (tileOf m p))"
proof -
  obtain found where f: "rules_validate (set_dimensions m rules)"
    "foldM (find_base m) (scan_positions m) (\<lambda>_. None) = Some found"
    and spawn: "foldM (\<lambda>(s, i). spawnUnitAtBase uniform_int s i) first_units (initial_world m rules found rng) = Some w"
    using r unfolding new_world_steps by (auto simp: bind_eq_Some_conv split: if_splits)
  have "found s = List.find (base_at m s) (scan_positions m)" for s using find_base_fold [OF f(2), of s] by simp
  note I = initial_world_inv [OF m f(1) this]
  from spawn_fold [OF I(1,2) U _ _ spawn]
  have S: "turn_inv w" "io_ok w" "start_frame (initial_world m rules found rng) w" "length (w_units w) = 6"
    by (auto simp: first_units_def valid_id_def max_units_def unused_id_def initial_world_def)
  then have "capture_inv w"
    using I(3) static_facts(1) [of w "initial_world m rules found rng"] by (simp add: capture_inv_def start_frame_def)
  moreover have "\<forall>p. ground w p = map_option (\<lambda>t. t\<lparr>t_occupant := NOT_OCCUPIED\<rparr>) (tileOf m p)"
  proof -
    have "ground w = ground (initial_world m rules found rng)"
      using S(3) static_facts(7) unfolding start_frame_def by blast
    moreover have "w_map (initial_world m rules found rng) = m" by (simp add: initial_world_def)
    ultimately show ?thesis unfolding ground_def fun_eq_iff world_tile_def by simp
  qed
  moreover have "map_size w = (tm_width m, tm_height m)"
    using S(3) by (simp add: start_frame_def static_def map_size_def initial_world_def)
  moreover have "w_reason w = Ongoing" "w_tick w = 0" "w_bullets w = []"
    using S(3) by (simp_all add: start_frame_def initial_world_def)
  ultimately show ?thesis using S(1,2,4) by blast
qed

lemma new_match_ok:
  assumes "map_ok m" "uniform_ok uniform_int" "new_world uniform_int m rules rng = Some w"
  shows "match_ok (new_match w ent)"
  using new_world_ok [OF assms]
  by (simp add: match_ok_def running_ok_def quotas_ok_def new_match_def fresh_node_def fresh_ctx_def
      MAX_LOG_QUOTA_def gameOver_def)

subsection \<open>A sample match\<close>

definition sample_tile :: "pos_t \<times> pos_t \<Rightarrow> tile" where
  "sample_tile p = (case p of (x, y) \<Rightarrow>
     if x < 2 \<and> y < 2 then new_tile\<lparr>t_is_base := True, t_side := 1\<rparr>
     else if 2 \<le> x \<and> 2 \<le> y then new_tile\<lparr>t_is_base := True, t_side := 2\<rparr>
     else new_tile)"

definition sample_map :: tilemap where
  "sample_map = \<lparr>tm_width = 4, tm_height = 4, tm_base_size = 2,
     tm_tiles = [sample_tile (x, y). y \<leftarrow> [0..3], x \<leftarrow> [0..3]]\<rparr>"

lemma sample_map_ok: "map_ok sample_map"
  by code_simp

text \<open>The distribution that always takes the first choice.\<close>

definition first_choice :: uniform where
  "first_choice n sd = (0, sd)"

lemma first_choice_ok: "uniform_ok first_choice"
  by (simp add: uniform_ok_def first_choice_def)

interpretation first: runtime_env first_choice script_ops
  by unfold_locales (simp_all add: first_choice_ok machine_ok_def script_ops_def)

definition sample_world :: world where
  "sample_world = the (new_world first_choice sample_map default_rules \<lparr>seed_s0 = 1, seed_s1 = 2\<rparr>)"

lemma sample_world_new:
  "new_world first_choice sample_map default_rules \<lparr>seed_s0 = 1, seed_s1 = 2\<rparr> = Some sample_world"
proof -
  have "new_world first_choice sample_map default_rules \<lparr>seed_s0 = 1, seed_s1 = 2\<rparr> \<noteq> None"
    by code_simp
  then show ?thesis by (auto simp: sample_world_def)
qed

definition sample_match :: "script match" where
  "sample_match = new_match sample_world (\<lambda>_. \<lparr>seed_s0 = 3, seed_s1 = 4\<rparr>)"

lemma sample_match_ok: "match_ok sample_match"
  unfolding sample_match_def by (rule new_match_ok [OF sample_map_ok first_choice_ok sample_world_new])

lemma sample_step: "map_option (\<lambda>m. (w_tick (mt_world m), length (w_logs (mt_world m))))
    (match_step script_ops first_choice sample_match) = Some (1, 8)"
  by code_simp

end
