(* ===== verification/Map_Binary.thy ===== *)
theory Map_Binary
  imports Replay_World World_New
begin

text \<open>
  The binary map file (\<open>Tilemap::loadBinary\<close>, \<open>saveAsBinary\<close> in \<open>src/tilemap.cpp\<close>). A thrown
  \<open>std::runtime_error\<close> is \<open>Inl\<close> of a \<open>map_error\<close>, which names the message and its arguments. The
  loader reads through an \<open>IstreamAdapter\<close>; as for replays it is analysed over the plain list of
  bytes.
\<close>

declare split_paired_All [simp del] split_paired_Ex [simp del]

datatype map_error =
    InvalidStream
  | MapTooShort
  | BadMapMagic
  | UnsupportedMapVersion u8
  | InvalidMapSize pos_t pos_t
  | MapSizeMismatch nat
  | InvalidTerrainCode u8 "pos_t \<times> pos_t"
  | InvalidSideCode u8 "pos_t \<times> pos_t"
  | SideOutsideBase u8 "pos_t \<times> pos_t"
  | InvalidBase u8
  | BaseExceedsMap u8
  | BaseNotSquare "pos_t \<times> pos_t" pos_t
  | TrailingBytes
  | InvalidBaseSize pos_t
  | EmptyMapData
  | LineWidth int int nat
  | InvalidTerrainChar char "pos_t \<times> pos_t"
  | MoreThanTwoBases "pos_t \<times> pos_t"
  | DifferentBaseSize "pos_t \<times> pos_t" int int
  | BadArrayLength
  | InvalidTerrainType u8 "pos_t \<times> pos_t"
  | MapTooSmall pos_t pos_t
  | MapTooLarge pos_t pos_t
  | BaseSizeOutOfRange pos_t

definition tilemap_binary_magic :: "byte list" where
  "tilemap_binary_magic = [0x43, 0x52, 0x54, 0x4D, 0x41, 0x50]"

definition TILEMAP_BINARY_VERSION :: u8 where "TILEMAP_BINARY_VERSION = 2"

subsection \<open>Loading\<close>

text \<open>\<open>const pos_t width = reader.readU16()\<close>: the 16 bits are read as a signed number.\<close>

definition pos_of_u16 :: "u16 \<Rightarrow> pos_t" where
  "pos_of_u16 w = sint w"

definition load_tile :: "byte \<Rightarrow> pos_t \<times> pos_t \<Rightarrow> tilemap \<Rightarrow> (map_error + tilemap) option" where
  "load_tile b p m =
     (let flags = tile_unpack b; terrain = tf_terrain flags; side = tf_side flags in
      if terrain \<noteq> EMPTY \<and> terrain \<noteq> WATER \<and> terrain \<noteq> OBSTACLE then Some (Inl (InvalidTerrainCode terrain p))
      else if side > 2 then Some (Inl (InvalidSideCode side p))
      else if \<not> tf_is_base flags \<and> side \<noteq> 0 then Some (Inl (SideOutsideBase side p))
      else map_option Inr (updTile p (\<lambda>t. unsetOccupant (t\<lparr>t_terrain := terrain, t_side := side,
             t_is_resource := tf_is_resource flags, t_is_base := tf_is_base flags\<rparr>)) m))"

fun load_tiles ::
    "'s stream_ops \<Rightarrow> (pos_t \<times> pos_t) list \<Rightarrow> tilemap \<Rightarrow> 's \<Rightarrow> ((map_error + tilemap) \<times> 's) option" where
  "load_tiles ops [] m s = Some (Inr m, s)"
| "load_tiles ops (p # ps) m s = do {
     (b, s) \<leftarrow> readU8 ops s;
     r \<leftarrow> load_tile b p m;
     (case r of Inl e \<Rightarrow> Some (Inl e, s) | Inr m \<Rightarrow> load_tiles ops ps m s)
   }"

text \<open>
  The check of the bases. \<open>found\<close> holds \<open>base_found\<close>, \<open>base_x\<close> and \<open>base_y\<close> of both players; its index
  \<open>side - 1\<close> is out of range for a base tile of side 0, which has no result.
\<close>

definition square :: "pos_t \<times> pos_t \<Rightarrow> pos_t \<Rightarrow> (pos_t \<times> pos_t) list" where
  "square p n = [(fst p + dx, snd p + dy). dy \<leftarrow> [0..n - 1], dx \<leftarrow> [0..n - 1]]"

definition check_base_tile :: "tilemap \<Rightarrow> pos_t \<times> pos_t \<Rightarrow> u8 \<Rightarrow> pos_t \<times> pos_t \<Rightarrow> (map_error + unit) option" where
  "check_base_tile m p side q = do {
     t \<leftarrow> tileOf m q;
     Some (if \<not> t_is_base t \<or> t_side t \<noteq> side then Inl (BaseNotSquare p (tm_base_size m)) else Inr ())
   }"

definition check_base :: "tilemap \<Rightarrow> pos_t \<times> pos_t \<Rightarrow> found_bases \<Rightarrow> (map_error + found_bases) option" where
  "check_base m p found = do {
     t \<leftarrow> tileOf m p;
     if \<not> t_is_base t then Some (Inr found)
     else do {
       s \<leftarrow> side_of (t_side t);
       let n = tm_base_size m;
       (case found s of
          Some b \<Rightarrow>
            if fst p < fst b \<or> fst p \<ge> fst b + n \<or> snd p < snd b \<or> snd p \<ge> snd b + n
            then Some (Inl (InvalidBase (t_side t))) else Some (Inr found)
        | None \<Rightarrow>
            let found = found(s := Some p) in
            if fst p + n > tm_width m \<or> snd p + n > tm_height m then Some (Inl (BaseExceedsMap (t_side t)))
            else do {
              r \<leftarrow> try_fold (\<lambda>q _. check_base_tile m p (t_side t) q) (square p n) ();
              Some (map_sum id (\<lambda>_. found) r)
            })
     }
   }"

text \<open>The part of the function that follows the header.\<close>

definition load_body :: "'s stream_ops \<Rightarrow> pos_t \<Rightarrow> pos_t \<Rightarrow> pos_t \<Rightarrow> 's \<Rightarrow> ((map_error + tilemap) \<times> 's) option" where
  "load_body ops width height base_size s =
     (if width \<le> 0 \<or> height \<le> 0 \<or> width > 512 \<or> height > 512
      then Some (Inl (InvalidMapSize width height), s)
      else let tile_count = nat (width * height) in (case rb_has ops tile_count s of (ok, s) \<Rightarrow>
        if \<not> ok then Some (Inl (MapSizeMismatch tile_count), s)
        else do {
          let m = (new_tilemap width height)\<lparr>tm_base_size := base_size\<rparr>;
          (r, s) \<leftarrow> load_tiles ops (row_major m) m s;
          (case r of
             Inl e \<Rightarrow> Some (Inl e, s)
           | Inr m \<Rightarrow> do {
               c \<leftarrow> try_fold (check_base m) (row_major m) (\<lambda>_. None);
               (case c of
                  Inl e \<Rightarrow> Some (Inl e, s)
                | Inr _ \<Rightarrow> (case rb_end ops s of (fin, s) \<Rightarrow>
                    Some (if \<not> fin then Inl TrailingBytes else Inr m, s)))
             })
        }))"

definition load_header :: "'s stream_ops \<Rightarrow> 's \<Rightarrow> ((map_error + (pos_t \<times> pos_t \<times> pos_t)) \<times> 's) option" where
  "load_header ops s = (case rb_has ops 15 s of (ok, s) \<Rightarrow>
     if \<not> ok then Some (Inl MapTooShort, s)
     else do {
       (magic_ok, s) \<leftarrow> check_magic ops tilemap_binary_magic s;
       if \<not> magic_ok then Some (Inl BadMapMagic, s)
       else do {
         (version, s) \<leftarrow> readU8 ops s;
         if version \<noteq> TILEMAP_BINARY_VERSION then Some (Inl (UnsupportedMapVersion version), s)
         else do {
           (width, s) \<leftarrow> readU16 ops s;
           (height, s) \<leftarrow> readU16 ops s;
           (base_size, s) \<leftarrow> readU16 ops s;
           s \<leftarrow> rb_skip ops 2 s;
           Some (Inr (pos_of_u16 width, pos_of_u16 height, pos_of_u16 base_size), s)
         }
       }
     })"

definition load_binary_from :: "'s stream_ops \<Rightarrow> 's \<Rightarrow> ((map_error + tilemap) \<times> 's) option" where
  "load_binary_from ops s = do {
     (r, s) \<leftarrow> load_header ops s;
     (case r of
        Inl e \<Rightarrow> Some (Inl e, s)
      | Inr h \<Rightarrow> load_body ops (fst h) (fst (snd h)) (snd (snd h)) s)
   }"

definition tilemap_loadBinary :: "bool \<Rightarrow> istream \<Rightarrow> (map_error + tilemap) option" where
  "tilemap_loadBinary ndebug i =
     (if \<not> istream_good i then Some (Inl InvalidStream)
      else map_option fst (load_binary_from (istream_ops ndebug) (istream_adapter_new i)))"

subsection \<open>Saving\<close>

text \<open>What has been written when an error is thrown stays written.\<close>

definition saveAsBinary :: "tilemap \<Rightarrow> byte list \<Rightarrow> ((map_error + unit) \<times> byte list) option" where
  "saveAsBinary m os =
     (let os = os @ tilemap_binary_magic @ [TILEMAP_BINARY_VERSION] in
      if tm_width m \<le> 0 \<or> tm_height m \<le> 0 then Some (Inl (InvalidMapSize (tm_width m) (tm_height m)), os)
      else if tm_base_size m < 0 then Some (Inl (InvalidBaseSize (tm_base_size m)), os)
      else do {
        let payload = writeU16 0 (writeU16 (word_of_int (tm_base_size m))
          (writeU16 (word_of_int (tm_height m)) (writeU16 (word_of_int (tm_width m)) [])));
        payload \<leftarrow> foldM (\<lambda>p b. map_option (\<lambda>t. writeU8 (tile_pack (flags_of_tile t)) b) (tileOf m p))
          (row_major m) payload;
        Some (Inr (), os @ payload)
      })"

subsection \<open>The tiles\<close>

definition tile_of_byte :: "byte \<Rightarrow> tile" where
  "tile_of_byte b = (let f = tile_unpack b in \<lparr>t_terrain = tf_terrain f, t_side = tf_side f,
     t_is_resource = tf_is_resource f, t_is_base = tf_is_base f, t_occupant = NOT_OCCUPIED\<rparr>)"

text \<open>What the loader asks of a tile.\<close>

definition tile_legal :: "tile \<Rightarrow> bool" where
  "tile_legal t \<longleftrightarrow> (t_terrain t = EMPTY \<or> t_terrain t = WATER \<or> t_terrain t = OBSTACLE)
     \<and> t_side t \<le> 2 \<and> (t_is_base t \<or> t_side t = 0) \<and> t_occupant t = NOT_OCCUPIED"

lemma load_tile_cases:
  assumes "tm_inb m p"
  shows "if tile_legal (tile_of_byte b) then load_tile b p m = map_option Inr (updTile p (\<lambda>_. tile_of_byte b) m)
    else \<exists>e. load_tile b p m = Some (Inl e)"
proof -
  have "(\<lambda>t. unsetOccupant (t\<lparr>t_terrain := tf_terrain (tile_unpack b), t_side := tf_side (tile_unpack b),
      t_is_resource := tf_is_resource (tile_unpack b), t_is_base := tf_is_base (tile_unpack b)\<rparr>))
    = (\<lambda>_. tile_of_byte b)"
    by (simp add: fun_eq_iff unsetOccupant_def tile_of_byte_def Let_def)
  then show ?thesis by (auto simp: load_tile_def Let_def tile_legal_def tile_of_byte_def linorder_not_le)
qed

text \<open>The loop, as a function of the bytes it consumes.\<close>

definition store_tile :: "(pos_t \<times> pos_t) \<times> byte \<Rightarrow> tilemap \<Rightarrow> (map_error + tilemap) option" where
  "store_tile = (\<lambda>(p, b). load_tile b p)"

lemma load_tiles_list:
  "length ps \<le> length bs \<Longrightarrow> try_fold store_tile (zip ps bs) m = Some r \<Longrightarrow>
     \<exists>rest. load_tiles list_ops ps m bs = Some (r, rest) \<and> (\<forall>m'. r = Inr m' \<longrightarrow> rest = drop (length ps) bs)"
proof (induction ps arbitrary: bs m)
  case (Cons p ps)
  then obtain b bs' where bs: "bs = b # bs'" by (cases bs) auto
  then obtain q where q: "load_tile b p m = Some q" using Cons.prems(2)
    by (auto simp: store_tile_def split: option.splits)
  show ?case
  proof (cases q)
    case (Inl e)
    then show ?thesis using q bs Cons.prems(2) by (auto simp: store_tile_def)
  next
    case (Inr m1)
    then have "try_fold store_tile (zip ps bs') m1 = Some r" using q bs Cons.prems(2) by (simp add: store_tile_def)
    then show ?thesis using Cons.IH [of bs' m1] Cons.prems(1) q bs Inr by simp
  qed
qed auto

definition stored :: "tilemap \<Rightarrow> byte list \<Rightarrow> tilemap" where
  "stored m bs = m\<lparr>tm_tiles := map tile_of_byte bs @ drop (length bs) (tm_tiles m)\<rparr>"

lemma stored_step:
  assumes wf: "tilemap_wf m" and xs: "zip (row_major m) bs = ys @ (p, b) # zs"
  shows "tm_inb (stored m (map snd ys)) p"
    "updTile p (\<lambda>_. tile_of_byte b) (stored m (map snd ys)) = Some (stored m (map snd (ys @ [(p, b)])))"
proof -
  have n: "length ys < length (zip (row_major m) bs)" using xs by simp
  then have i: "length ys < length (tm_tiles m)" using row_major_length [OF wf] by simp
  have "zip (row_major m) bs ! length ys = (p, b)" using xs by (simp add: nth_append)
  then have p: "row_major m ! length ys = p" using n by simp
  then have "p \<in> set (row_major m)" using i row_major_length [OF wf] nth_mem by metis
  then show inb: "tm_inb (stored m (map snd ys)) p"
    using set_row_major by (fastforce simp: stored_def tm_inb_def)
  have "tile_index m p = length ys" using tile_index_row_major [OF wf i] p by simp
  then have idx: "tile_index (stored m (map snd ys)) p = length ys" by (simp add: stored_def tile_index_def)
  have "drop (length ys) (tm_tiles m) = (tm_tiles m ! length ys) # drop (Suc (length ys)) (tm_tiles m)"
    using i by (rule Cons_nth_drop_Suc [symmetric])
  then show "updTile p (\<lambda>_. tile_of_byte b) (stored m (map snd ys)) = Some (stored m (map snd (ys @ [(p, b)])))"
    using inb by (simp add: updTile_def idx, simp add: stored_def list_update_append nth_append)
qed

text \<open>Every list of bytes, one for each tile, is stored or rejected; it is stored when all are legal.\<close>

lemma store_tiles_result:
  assumes "tilemap_wf m" "length bs = length (tm_tiles m)"
  shows "try_fold store_tile (zip (row_major m) bs) m \<noteq> None"
    "try_fold store_tile (zip (row_major m) bs) m = Some (Inr m') \<longleftrightarrow>
       list_all (tile_legal \<circ> tile_of_byte) bs \<and> m' = m\<lparr>tm_tiles := map tile_of_byte bs\<rparr>"
proof -
  let ?I = "\<lambda>ys m'. m' = stored m (map snd ys) \<and> list_all (tile_legal \<circ> tile_of_byte) (map snd ys)"
  have snd: "map snd (zip (row_major m) bs) = bs" using row_major_length [OF assms(1)] assms(2) by simp
  have all: "stored m bs = m\<lparr>tm_tiles := map tile_of_byte bs\<rparr>" using assms(2) by (simp add: stored_def)
  have start: "?I [] m" by (simp add: stored_def)
  have good: "?I (ys @ [x]) t" if "zip (row_major m) bs = ys @ x # zs" "?I ys s" "store_tile x s = Some (Inr t)"
    for ys x zs s t
    using stored_step [OF assms(1), of bs ys "fst x" "snd x" zs] load_tile_cases [of s "fst x" "snd x"] that
    by (cases x) (auto simp: store_tile_def split: if_splits)
  have fine: "\<exists>t. store_tile x s = Some (Inr t) \<and> ?I (ys @ [x]) t"
    if "zip (row_major m) bs = ys @ x # zs" "?I ys s" "list_all (tile_legal \<circ> tile_of_byte) bs" for ys x zs s
  proof -
    have "snd x \<in> set bs" using that(1) snd by (metis in_set_conv_decomp list.set_map rev_image_eqI)
    then have "tile_legal (tile_of_byte (snd x))" using that(3) by (simp add: list_all_iff)
    then show ?thesis
      using stored_step [OF assms(1), of bs ys "fst x" "snd x" zs] load_tile_cases [of s "fst x" "snd x"] that
      by (cases x) (auto simp: store_tile_def)
  qed
  show "try_fold store_tile (zip (row_major m) bs) m = Some (Inr m') \<longleftrightarrow>
       list_all (tile_legal \<circ> tile_of_byte) bs \<and> m' = m\<lparr>tm_tiles := map tile_of_byte bs\<rparr>"
  proof
    assume "try_fold store_tile (zip (row_major m) bs) m = Some (Inr m')"
    from try_fold_invariant [of store_tile _ m m' ?I, OF this start good]
    show "list_all (tile_legal \<circ> tile_of_byte) bs \<and> m' = m\<lparr>tm_tiles := map tile_of_byte bs\<rparr>"
      using snd all by simp
  next
    assume r: "list_all (tile_legal \<circ> tile_of_byte) bs \<and> m' = m\<lparr>tm_tiles := map tile_of_byte bs\<rparr>"
    from try_fold_total [of ?I m "zip (row_major m) bs" store_tile, OF start fine] r
    show "try_fold store_tile (zip (row_major m) bs) m = Some (Inr m')" using snd all by auto
  qed
  have safe: "(\<exists>e. store_tile x s = Some (Inl e)) \<or> (\<exists>t. store_tile x s = Some (Inr t) \<and> ?I (ys @ [x]) t)"
    if "zip (row_major m) bs = ys @ x # zs" "?I ys s" for ys x zs s
    using stored_step [OF assms(1), of bs ys "fst x" "snd x" zs] load_tile_cases [of s "fst x" "snd x"] that
    by (cases x) (auto simp: store_tile_def split: if_splits)
  show "try_fold store_tile (zip (row_major m) bs) m \<noteq> None"
    using try_fold_defined [of ?I m "zip (row_major m) bs" store_tile, OF start safe] by simp
qed

subsection \<open>The bases\<close>

definition in_square :: "pos_t \<times> pos_t \<Rightarrow> pos_t \<Rightarrow> pos_t \<times> pos_t \<Rightarrow> bool" where
  "in_square p n q \<longleftrightarrow> fst p \<le> fst q \<and> fst q < fst p + n \<and> snd p \<le> snd q \<and> snd q < snd p + n"

definition square_fits :: "tilemap \<Rightarrow> pos_t \<times> pos_t \<Rightarrow> bool" where
  "square_fits m p \<longleftrightarrow> fst p + tm_base_size m \<le> tm_width m \<and> snd p + tm_base_size m \<le> tm_height m"

text \<open>The base tiles of a player are exactly a square of the map's base size, on the map.\<close>

definition base_square :: "tilemap \<Rightarrow> side \<Rightarrow> pos_t \<times> pos_t \<Rightarrow> bool" where
  "base_square m s p \<longleftrightarrow> tm_inb m p \<and> square_fits m p
     \<and> (\<forall>q. base_at m s q \<longleftrightarrow> in_square p (tm_base_size m) q)"

definition bases_square :: "tilemap \<Rightarrow> bool" where
  "bases_square m \<longleftrightarrow> (\<forall>s. (\<forall>q. \<not> base_at m s q) \<or> (\<exists>p. base_square m s p))"

definition sides_ok :: "tilemap \<Rightarrow> bool" where
  "sides_ok m \<longleftrightarrow> (\<forall>p t. tileOf m p = Some t \<longrightarrow> t_is_base t \<longrightarrow> side_of (t_side t) \<noteq> None)"

lemma set_square: "set (square p n) = {q. in_square p n q}"
proof (intro set_eqI iffI)
  fix q assume "q \<in> {q. in_square p n q}"
  then have q: "q = (fst p + (fst q - fst p), snd p + (snd q - snd p))"
    "fst q - fst p \<in> {0..n - 1}" "snd q - snd p \<in> {0..n - 1}" by (auto simp: in_square_def)
  then show "q \<in> set (square p n)"
    unfolding square_def by (simp only: set_concat set_map set_upto UN_iff image_iff bex_simps) blast
qed (auto simp: square_def in_square_def)

lemma square_inb: "tm_inb m p \<Longrightarrow> square_fits m p \<Longrightarrow> in_square p (tm_base_size m) q \<Longrightarrow> tm_inb m q"
  by (auto simp: tm_inb_def square_fits_def in_square_def)

lemma base_at_inb: "base_at m s q \<Longrightarrow> tm_inb m q"
  by (auto simp: base_at_def dest: tileOf_inb split: option.splits)

lemma check_square:
  assumes "\<And>q. q \<in> set qs \<Longrightarrow> tm_inb m q"
  shows "if \<forall>q\<in>set qs. base_at m s q
    then try_fold (\<lambda>q _. check_base_tile m p (side_id s) q) qs () = Some (Inr ())
    else \<exists>e. try_fold (\<lambda>q _. check_base_tile m p (side_id s) q) qs () = Some (Inl e)"
  using assms
proof (induction qs)
  case (Cons q qs)
  obtain t where "tileOf m q = Some t" using Cons.prems [of q] by (cases "tileOf m q") auto
  then have "check_base_tile m p (side_id s) q =
      Some (if base_at m s q then Inr () else Inl (BaseNotSquare p (tm_base_size m)))"
    by (auto simp: check_base_tile_def base_at_def)
  then show ?case using Cons.IH Cons.prems by (simp split: if_splits)
qed simp

fun base_seen :: "tilemap \<Rightarrow> side \<Rightarrow> (pos_t \<times> pos_t) list \<Rightarrow> (pos_t \<times> pos_t) option \<Rightarrow> bool" where
  "base_seen m s ys None \<longleftrightarrow> (\<forall>q\<in>set ys. \<not> base_at m s q)"
| "base_seen m s ys (Some p) \<longleftrightarrow> base_at m s p \<and> square_fits m p
     \<and> (\<forall>q. in_square p (tm_base_size m) q \<longrightarrow> base_at m s q)
     \<and> (\<forall>q\<in>set ys. base_at m s q \<longrightarrow> q = p \<or> in_square p (tm_base_size m) q)"

definition bases_seen :: "tilemap \<Rightarrow> (pos_t \<times> pos_t) list \<Rightarrow> found_bases \<Rightarrow> bool" where
  "bases_seen m ys found \<longleftrightarrow> (\<forall>s. base_seen m s ys (found s))"

lemma bases_seen_snoc:
  "bases_seen m (ys @ [p]) found \<longleftrightarrow> bases_seen m ys found
     \<and> (\<forall>s. base_at m s p \<longrightarrow> (\<exists>b. found s = Some b \<and> (p = b \<or> in_square b (tm_base_size m) p)))"
proof -
  have "base_seen m s (ys @ [p]) f \<longleftrightarrow> base_seen m s ys f
      \<and> (base_at m s p \<longrightarrow> (\<exists>b. f = Some b \<and> (p = b \<or> in_square b (tm_base_size m) p)))" for s f
    by (cases f) (auto simp del: split_paired_All split_paired_Ex)
  then show ?thesis by (auto simp: bases_seen_def simp del: split_paired_All split_paired_Ex)
qed

lemma bases_seen_new:
  assumes "bases_seen m ys found" "found s = None" "base_at m s p" "square_fits m p"
    "\<forall>q. in_square p (tm_base_size m) q \<longrightarrow> base_at m s q"
  shows "bases_seen m ys (found(s := Some p))"
  unfolding bases_seen_def
proof
  fix s'
  have "base_seen m s ys None" using assms(1,2) unfolding bases_seen_def by metis
  then show "base_seen m s' ys ((found(s := Some p)) s')"
    using assms by (cases "s' = s") (simp_all add: bases_seen_def del: split_paired_All)
qed

lemma check_base_skip:
  assumes "tileOf m p = Some t" "\<not> t_is_base t" "bases_seen m ys found"
  shows "check_base m p found = Some (Inr found)" "bases_seen m (ys @ [p]) found"
proof -
  have "\<not> base_at m s p" for s using assms(1,2) by (simp add: base_at_def)
  then show "bases_seen m (ys @ [p]) found" using assms(3) by (simp add: bases_seen_snoc)
qed (use assms in \<open>simp add: check_base_def\<close>)

lemma check_base_known:
  assumes "tileOf m p = Some t" "t_is_base t" "t_side t = side_id s" "found s = Some b" "bases_seen m ys found"
  shows "if in_square b (tm_base_size m) p
    then check_base m p found = Some (Inr found) \<and> bases_seen m (ys @ [p]) found
    else \<exists>e. check_base m p found = Some (Inl e)"
proof -
  have "base_at m s' p \<longleftrightarrow> s' = s" for s' using assms(1-3) by (auto simp: base_at_def)
  then have "bases_seen m (ys @ [p]) found" if "in_square b (tm_base_size m) p"
    using assms(4,5) that by (simp add: bases_seen_snoc)
  then show ?thesis using assms(1-4) by (auto simp: check_base_def in_square_def)
qed

lemma check_base_new:
  assumes "tileOf m p = Some t" "t_is_base t" "t_side t = side_id s" "found s = None" "bases_seen m ys found"
  shows "if square_fits m p \<and> (\<forall>q. in_square p (tm_base_size m) q \<longrightarrow> base_at m s q)
    then check_base m p found = Some (Inr (found(s := Some p))) \<and> bases_seen m (ys @ [p]) (found(s := Some p))
    else \<exists>e. check_base m p found = Some (Inl e)"
proof -
  have at: "base_at m s' p \<longleftrightarrow> s' = s" for s' using assms(1-3) by (auto simp: base_at_def)
  have seen: "bases_seen m (ys @ [p]) (found(s := Some p))"
    if "square_fits m p" "\<forall>q. in_square p (tm_base_size m) q \<longrightarrow> base_at m s q"
    using bases_seen_new [OF assms(5,4) _ that] at by (simp add: bases_seen_snoc)
  show ?thesis
  proof (cases "square_fits m p")
    case False
    then show ?thesis using assms(1-4) by (auto simp: check_base_def square_fits_def)
  next
    case True
    have "check_base m p found = map_option (map_sum id (\<lambda>_. found(s := Some p)))
        (try_fold (\<lambda>q _. check_base_tile m p (side_id s) q) (square p (tm_base_size m)) ())"
      using assms(1-4) True by (auto simp: check_base_def square_fits_def map_conv_bind_option comp_def)
    moreover have "q \<in> set (square p (tm_base_size m)) \<Longrightarrow> tm_inb m q" for q
      using square_inb [OF tileOf_inb [OF assms(1)] True] set_square by blast
    ultimately show ?thesis
      using check_square [of "square p (tm_base_size m)" m s p] set_square [of p "tm_base_size m"] seen True
      by (auto split: if_splits)
  qed
qed

lemma check_base_step:
  assumes "tileOf m p = Some t" "t_is_base t \<Longrightarrow> side_of (t_side t) \<noteq> None" "bases_seen m ys found"
  shows "(\<exists>e. check_base m p found = Some (Inl e))
    \<or> (\<exists>g. check_base m p found = Some (Inr g) \<and> bases_seen m (ys @ [p]) g)"
proof (cases "t_is_base t")
  case False
  then show ?thesis using check_base_skip [OF assms(1) _ assms(3)] by blast
next
  case True
  then obtain s where s: "t_side t = side_id s" using assms(2) by (metis not_None_eq side_of_Some)
  show ?thesis
    using check_base_known [OF assms(1) True s _ assms(3)] check_base_new [OF assms(1) True s _ assms(3)]
    by (cases "found s") (metis (no_types, lifting))+
qed

lemma sides_okD: "sides_ok m \<Longrightarrow> tileOf m p = Some t \<Longrightarrow> t_is_base t \<Longrightarrow> side_of (t_side t) \<noteq> None"
  unfolding sides_ok_def by blast

lemma no_bases_seen [simp]: "bases_seen m [] (\<lambda>_. None)"
  by (simp add: bases_seen_def)

lemma row_major_split_inb: "row_major m = ys @ p # zs \<Longrightarrow> tm_inb m p"
  using set_row_major [of m] by (metis in_set_conv_decomp mem_Collect_eq)

lemma check_bases_defined:
  assumes "sides_ok m" shows "\<exists>r. try_fold (check_base m) (row_major m) (\<lambda>_. None) = Some r"
proof (rule try_fold_defined [where I = "bases_seen m"])
  fix ys p zs found assume p: "row_major m = ys @ p # zs" "bases_seen m ys found"
  obtain t where t: "tileOf m p = Some t" using row_major_split_inb [OF p(1)] by (cases "tileOf m p") auto
  show "(\<exists>e. check_base m p found = Some (Inl e))
      \<or> (\<exists>g. check_base m p found = Some (Inr g) \<and> bases_seen m (ys @ [p]) g)"
    by (rule check_base_step [OF t sides_okD [OF assms t] p(2)])
qed simp

text \<open>What passes the check: base tiles have an owner, and the tiles of one owner are a square.\<close>

lemma check_bases_single:
  assumes "bases_seen m (row_major m) found" "tm_base_size m \<le> 0" "base_at m s p" "base_at m s q"
  shows "p = q"
proof -
  have b: "base_seen m s (row_major m) (found s)" using assms(1) by (simp add: bases_seen_def)
  have row: "p \<in> set (row_major m)" "q \<in> set (row_major m)" using assms(3,4) base_at_inb set_row_major by blast+
  have no: "\<not> in_square c (tm_base_size m) r" for c r using assms(2) by (simp add: in_square_def)
  show ?thesis
  proof (cases "found s")
    case None
    then show ?thesis using b row assms(3) by auto
  next
    case (Some c)
    then have "r = c" if "r \<in> set (row_major m)" "base_at m s r" for r
      using b no that by (metis base_seen.simps(2))
    then show ?thesis using row assms(3,4) by metis
  qed
qed

text \<open>With a size that is not positive no second base tile of a player passes.\<close>

definition bases_single :: "tilemap \<Rightarrow> bool" where
  "bases_single m \<longleftrightarrow> (tm_base_size m \<le> 0 \<longrightarrow> (\<forall>s p q. base_at m s p \<longrightarrow> base_at m s q \<longrightarrow> p = q))"

lemma check_bases_sound:
  assumes "try_fold (check_base m) (row_major m) (\<lambda>_. None) = Some (Inr found)"
  shows "sides_ok m" "bases_seen m (row_major m) found" "0 < tm_base_size m \<Longrightarrow> bases_square m"
proof -
  let ?I = "\<lambda>ys g. bases_seen m ys g
    \<and> (\<forall>q\<in>set ys. \<forall>t. tileOf m q = Some t \<longrightarrow> t_is_base t \<longrightarrow> side_of (t_side t) \<noteq> None)"
  have "?I (row_major m) found"
  proof (rule try_fold_invariant [OF assms])
    fix ys p zs f g
    assume p: "row_major m = ys @ p # zs" and I: "?I ys f" and g: "check_base m p f = Some (Inr g)"
    obtain t where t: "tileOf m p = Some t" using row_major_split_inb [OF p] by (cases "tileOf m p") auto
    have o: "side_of (t_side t) \<noteq> None" if "t_is_base t"
    proof
      assume "side_of (t_side t) = None"
      then show False using g t that by (simp add: check_base_def)
    qed
    show "?I (ys @ [p]) g" using check_base_step [OF t o] I g t o by fastforce
  qed simp
  then show s: "sides_ok m" and f: "bases_seen m (row_major m) found"
    using set_row_major [of m] tileOf_inb by (fastforce simp: sides_ok_def)+
  assume n: "0 < tm_base_size m"
  show "bases_square m" unfolding bases_square_def
  proof
    fix s
    have b: "base_seen m s (row_major m) (found s)" using f by (simp add: bases_seen_def)
    have row: "base_at m s q \<Longrightarrow> q \<in> set (row_major m)" for q using base_at_inb set_row_major by blast
    show "(\<forall>q. \<not> base_at m s q) \<or> (\<exists>p. base_square m s p)"
    proof (cases "found s")
      case None
      then show ?thesis using b row by auto
    next
      case (Some p)
      have "in_square p (tm_base_size m) p" using n by (simp add: in_square_def)
      then have "base_at m s q \<longleftrightarrow> in_square p (tm_base_size m) q" for q
        using b Some row by (metis base_seen.simps(2))
      moreover have "tm_inb m p" "square_fits m p" using b Some base_at_inb by (metis base_seen.simps(2))+
      ultimately have "base_square m s p" by (simp add: base_square_def)
      then show ?thesis by blast
    qed
  qed
qed

text \<open>And squares pass: the first tile of a square that the loop meets is its corner.\<close>

lemma tile_index_mono:
  assumes "tm_inb m p" "tm_inb m q" "fst p \<le> fst q" "snd p \<le> snd q" "p \<noteq> q"
  shows "tile_index m p < tile_index m q"
proof -
  have "snd p * tm_width m \<le> snd q * tm_width m" "0 \<le> snd p * tm_width m"
    using assms by (auto simp: tm_inb_def intro: mult_right_mono)
  then have "snd p * tm_width m + fst p \<le> snd q * tm_width m + fst q" using assms(3) by linarith
  then have "tile_index m p \<le> tile_index m q" unfolding tile_index_def by (rule nat_mono)
  then show ?thesis using tile_index_inj [OF assms(1,2)] assms(5) by linarith
qed

lemma row_major_before:
  assumes "tilemap_wf m" "row_major m = ys @ q # zs" "tm_inb m p" "tile_index m p < tile_index m q"
  shows "p \<in> set ys"
proof -
  have n: "length ys < length (tm_tiles m)" using assms(2) row_major_length [OF assms(1)] by simp
  have q: "tile_index m q = length ys" using tile_index_row_major [OF assms(1) n] assms(2) by simp
  have i: "tile_index m p < length (tm_tiles m)" using tile_index_less [OF assms(1,3)] .
  have "row_major m ! tile_index m p \<in> set (row_major m)" using i row_major_length [OF assms(1)] by simp
  then have "tm_inb m (row_major m ! tile_index m p)" using set_row_major by blast
  then have "row_major m ! tile_index m p = p"
    using tile_index_row_major [OF assms(1) i] tile_index_inj [OF _ assms(3)] by blast
  then show ?thesis using assms(2,4) q by (metis nth_append nth_mem)
qed

lemma base_square_corner:
  assumes "base_square m s p" "0 < tm_base_size m" "base_at m s b"
    "\<forall>q. in_square b (tm_base_size m) q \<longrightarrow> base_at m s q"
  shows "b = p"
proof -
  have "in_square b (tm_base_size m) (fst b + tm_base_size m - 1, snd b + tm_base_size m - 1)"
    using assms(2) by (simp add: in_square_def)
  then have "in_square p (tm_base_size m) (fst b + tm_base_size m - 1, snd b + tm_base_size m - 1)"
    "in_square p (tm_base_size m) b" using assms by (auto simp: base_square_def simp del: split_paired_All)
  then show ?thesis by (auto simp: in_square_def prod_eq_iff)
qed

lemma check_bases_complete:
  assumes wf: "tilemap_wf m" and n: "0 < tm_base_size m" and sides: "sides_ok m" and sq: "bases_square m"
  shows "\<exists>found. try_fold (check_base m) (row_major m) (\<lambda>_. None) = Some (Inr found)"
proof -
  have "\<exists>found. try_fold (check_base m) (row_major m) (\<lambda>_. None) = Some (Inr found)
      \<and> bases_seen m (row_major m) found"
  proof (rule try_fold_total)
    fix ys p zs found assume row: "row_major m = ys @ p # zs" and seen: "bases_seen m ys found"
    have inb: "tm_inb m p" by (rule row_major_split_inb [OF row])
    obtain t where t: "tileOf m p = Some t" using inb by (cases "tileOf m p") auto
    show "\<exists>g. check_base m p found = Some (Inr g) \<and> bases_seen m (ys @ [p]) g"
    proof (cases "t_is_base t")
      case False
      then show ?thesis using check_base_skip [OF t _ seen] by blast
    next
      case True
      then obtain s where s: "t_side t = side_id s" using sides_okD [OF sides t] by (metis not_None_eq side_of_Some)
      then have at: "base_at m s p" using t True by (simp add: base_at_def)
      then obtain c where c: "base_square m s c" using sq unfolding bases_square_def by blast
      have self: "in_square c (tm_base_size m) c" using n by (simp add: in_square_def)
      show ?thesis
      proof (cases "found s")
        case None
        then have unseen: "base_seen m s ys None" using seen by (metis bases_seen_def)
        have "p = c"
        proof (rule ccontr)
          assume "p \<noteq> c"
          moreover have "in_square c (tm_base_size m) p" using at c by (simp add: base_square_def)
          moreover have "tm_inb m c" using c by (simp add: base_square_def)
          ultimately have "c \<in> set ys"
            using row_major_before [OF wf row] tile_index_mono [of m c p] inb by (auto simp: in_square_def)
          then show False using unseen c self by (simp add: base_square_def)
        qed
        then show ?thesis using check_base_new [OF t True s None seen] c by (auto simp: base_square_def)
      next
        case (Some b)
        then have "base_seen m s ys (Some b)" using seen by (metis bases_seen_def)
        then have "b = c" using base_square_corner [OF c n, of b] by simp
        then have "in_square b (tm_base_size m) p" using at c by (simp add: base_square_def)
        then show ?thesis using check_base_known [OF t True s Some seen] by auto
      qed
    qed
  qed simp
  then show ?thesis by blast
qed

subsection \<open>Every file is answered, or has a base tile without an owner\<close>

text \<open>What the loader demands of a map.\<close>

definition map_legal :: "tilemap \<Rightarrow> bool" where
  "map_legal m \<longleftrightarrow> tilemap_wf m \<and> 0 < tm_width m \<and> tm_width m \<le> 512 \<and> 0 < tm_height m \<and> tm_height m \<le> 512
     \<and> - 32768 \<le> tm_base_size m \<and> tm_base_size m < 32768
     \<and> list_all tile_legal (tm_tiles m) \<and> sides_ok m \<and> (0 < tm_base_size m \<longrightarrow> bases_square m)"

lemma check_magic_take:
  "length magic \<le> length bs \<Longrightarrow>
     if take (length magic) bs = magic then check_magic list_ops magic bs = Some (True, drop (length magic) bs)
     else \<exists>rest. check_magic list_ops magic bs = Some (False, rest)"
proof (induction magic arbitrary: bs)
  case (Cons x magic)
  then obtain b bs' where "bs = b # bs'" by (cases bs) auto
  then show ?case using Cons.IH [of bs'] Cons.prems by auto
qed simp

lemma new_map_wf:
  "0 \<le> w \<Longrightarrow> 0 \<le> h \<Longrightarrow> tilemap_wf ((new_tilemap w h)\<lparr>tm_base_size := n\<rparr>)"
  by (simp add: tilemap_wf_def new_tilemap_def)

text \<open>What the loop of the loader makes of the tile bytes.\<close>

definition loaded_map :: "pos_t \<Rightarrow> pos_t \<Rightarrow> pos_t \<Rightarrow> byte list \<Rightarrow> tilemap" where
  "loaded_map w h n bs = \<lparr>tm_width = w, tm_height = h, tm_base_size = n,
     tm_tiles = map tile_of_byte (take (nat (w * h)) bs)\<rparr>"

lemma load_body_list:
  fixes w h n :: pos_t and bs :: "byte list"
  assumes "0 < w" "w \<le> 512" "0 < h" "h \<le> 512" "nat (w * h) \<le> length bs"
  defines "m \<equiv> loaded_map w h n bs"
  shows "if list_all tile_legal (tm_tiles m)
    then load_body list_ops w h n bs = try_fold (check_base m) (row_major m) (\<lambda>_. None) \<bind>
      (\<lambda>c. Some (case c of Inl e \<Rightarrow> Inl e
         | Inr _ \<Rightarrow> if nat (w * h) < length bs then Inl TrailingBytes else Inr m, drop (nat (w * h)) bs))
    else \<exists>e rest. load_body list_ops w h n bs = Some (Inl e, rest)"
proof -
  let ?m = "(new_tilemap w h)\<lparr>tm_base_size := n\<rparr>" and ?tiles = "take (nat (w * h)) bs"
  have wf: "tilemap_wf ?m" using assms(1,3) by (simp add: new_map_wf)
  have len: "length ?tiles = length (tm_tiles ?m)" using assms(5) by (simp add: new_tilemap_def)
  have rows: "length (row_major ?m) = nat (w * h)"
    using row_major_length [OF wf] by (simp add: new_tilemap_def)
  then have zip: "zip (row_major ?m) bs = zip (row_major ?m) ?tiles"
    using take_zip [of "nat (w * h)" "row_major ?m" bs] by (simp add: take_all)
  note S = store_tiles_result [OF wf len]
  obtain r where r: "try_fold store_tile (zip (row_major ?m) bs) ?m = Some r" using S(1) zip by auto
  obtain rest where rest: "load_tiles list_ops (row_major ?m) ?m bs = Some (r, rest)"
    "\<And>m'. r = Inr m' \<Longrightarrow> rest = drop (nat (w * h)) bs"
    using load_tiles_list [of "row_major ?m" bs ?m r] r rows assms(5) by auto
  have body: "load_body list_ops w h n bs = (case r of
       Inl e \<Rightarrow> Some (Inl e, rest)
     | Inr m \<Rightarrow> try_fold (check_base m) (row_major m) (\<lambda>_. None) \<bind> (\<lambda>c. case c of
         Inl e \<Rightarrow> Some (Inl e, rest)
       | Inr _ \<Rightarrow> Some (if rest \<noteq> [] then Inl TrailingBytes else Inr m, rest)))"
    using assms(1-5) rest(1) by (auto simp: load_body_def Let_def split: sum.split)
  have m: "?m\<lparr>tm_tiles := map tile_of_byte ?tiles\<rparr> = m"
    by (simp add: m_def loaded_map_def new_tilemap_def)
  have legal: "list_all (tile_legal \<circ> tile_of_byte) ?tiles = list_all tile_legal (tm_tiles m)"
    by (simp add: m_def loaded_map_def list_all_iff)
  show ?thesis
  proof (cases "list_all tile_legal (tm_tiles m)")
    case True
    then have "r = Inr m" using S(2) [of m] r zip m legal by simp
    then show ?thesis using True body rest(2) [of m] by (auto split: bind_split sum.split)
  next
    case False
    then have "r \<noteq> Inr m'" for m' using S(2) [of m'] r zip legal by auto
    then obtain e where "r = Inl e" by (cases r) auto
    then show ?thesis using False body by auto
  qed
qed

lemma load_binary_list:
  assumes "15 \<le> length bs"
  shows "if take 6 bs = tilemap_binary_magic \<and> bs ! 6 = TILEMAP_BINARY_VERSION
    then load_binary_from list_ops bs = load_body list_ops (pos_of_u16 (u16_of_bytes (drop 7 bs)))
      (pos_of_u16 (u16_of_bytes (drop 9 bs))) (pos_of_u16 (u16_of_bytes (drop 11 bs))) (drop 15 bs)
    else \<exists>e rest. load_binary_from list_ops bs = Some (Inl e, rest)"
proof (cases "take 6 bs = tilemap_binary_magic")
  case True
  have len: "length tilemap_binary_magic = 6" by (simp add: tilemap_binary_magic_def)
  have m: "check_magic list_ops tilemap_binary_magic bs = Some (True, drop 6 bs)"
    using check_magic_take [of tilemap_binary_magic bs] True assms unfolding len by simp
  have "drop 6 bs = bs ! 6 # drop 7 bs" using assms Cons_nth_drop_Suc [of 6 bs] by simp
  moreover have "2 \<le> length bs - 7" "2 \<le> length bs - 9" "2 \<le> length bs - 11" "2 \<le> length bs - 13"
    using assms by simp_all
  ultimately show ?thesis
    using True m assms by (simp add: load_header_def load_binary_from_def list_readU16_bytes)
next
  case False
  moreover have "length tilemap_binary_magic = 6" by (simp add: tilemap_binary_magic_def)
  ultimately obtain rest where "check_magic list_ops tilemap_binary_magic bs = Some (False, rest)"
    using check_magic_take [of tilemap_binary_magic bs] assms by auto
  then show ?thesis using False assms by (auto simp: load_header_def load_binary_from_def)
qed

lemma pos_of_u16_bounds: "- 32768 \<le> pos_of_u16 v \<and> pos_of_u16 v < 32768"
  using sint_ge [of v] sint_lt [of v] by (simp add: pos_of_u16_def)

lemma pos_of_u16_inverse: "- 32768 \<le> n \<Longrightarrow> n < 32768 \<Longrightarrow> pos_of_u16 (word_of_int n) = n"
  by (simp add: pos_of_u16_def signed_of_int signed_take_bit_int_eq_self)

lemma tile_legal_side: "tile_legal t \<Longrightarrow> t_is_base t \<Longrightarrow> t_side t \<noteq> 0 \<Longrightarrow> side_of (t_side t) \<noteq> None"
proof -
  assume t: "tile_legal t" "t_side t \<noteq> 0"
  then have "t_side t < 4" by (auto simp: tile_legal_def intro: order.strict_trans1)
  then have "t_side t = 1 \<or> t_side t = 2" using t u8_less_4 [of "t_side t"] by (auto simp: tile_legal_def)
  then show ?thesis by (auto simp: side_of_def)
qed

lemma legal_sides_ok:
  assumes "tilemap_wf m" "list_all (\<lambda>t. t_is_base t \<longrightarrow> t_side t \<noteq> 0) (tm_tiles m)" "list_all tile_legal (tm_tiles m)"
  shows "sides_ok m"
  unfolding sides_ok_def
proof (intro allI impI)
  fix p t assume t: "tileOf m p = Some t" "t_is_base t"
  have "tile_legal t" "t_is_base t \<longrightarrow> t_side t \<noteq> 0"
    using assms(2,3) t(1) unfolding list_all_tileOf [OF assms(1)] by blast+
  then show "side_of (t_side t) \<noteq> None" using tile_legal_side t(2) by blast
qed

lemma loaded_map_wf: "0 \<le> w \<Longrightarrow> 0 \<le> h \<Longrightarrow> nat (w * h) \<le> length bs \<Longrightarrow> tilemap_wf (loaded_map w h n bs)"
  by (simp add: tilemap_wf_def loaded_map_def)

text \<open>Whatever is accepted is legal, and the file ends with it.\<close>

lemma load_body_sound:
  assumes "load_body list_ops w h n bs = Some (Inr m, rest)" "- 32768 \<le> n" "n < 32768"
  shows "map_legal m \<and> rest = [] \<and> m = loaded_map w h n bs \<and> bases_single m"
proof -
  have d: "0 < w" "w \<le> 512" "0 < h" "h \<le> 512" "nat (w * h) \<le> length bs"
    using assms(1) by (auto simp: load_body_def Let_def split: if_splits)
  let ?m = "loaded_map w h n bs"
  have legal: "list_all tile_legal (tm_tiles ?m)" and
    c: "try_fold (check_base ?m) (row_major ?m) (\<lambda>_. None) \<bind> (\<lambda>c. Some (case c of Inl e \<Rightarrow> Inl e
         | Inr _ \<Rightarrow> if nat (w * h) < length bs then Inl TrailingBytes else Inr ?m, drop (nat (w * h)) bs))
       = Some (Inr m, rest)"
    using load_body_list [OF d, of n] assms(1) by (auto split: if_splits)
  then obtain found where f: "try_fold (check_base ?m) (row_major ?m) (\<lambda>_. None) = Some (Inr found)"
    by (auto split: bind_splits sum.splits)
  then have m: "m = ?m" "rest = []" using c by (auto split: if_splits)
  have "bases_single ?m"
    unfolding bases_single_def using check_bases_single [OF check_bases_sound(2) [OF f]] by blast
  then show ?thesis
    using m check_bases_sound [OF f] legal loaded_map_wf [of w h bs n] d assms(2,3)
    by (simp add: map_legal_def) (simp add: loaded_map_def)
qed

lemma load_binary_sound:
  assumes "load_binary_from list_ops bs = Some (Inr m, rest)"
  shows "map_legal m \<and> rest = [] \<and> bases_single m"
proof -
  have n: "15 \<le> length bs" using assms by (auto simp: load_header_def load_binary_from_def split: if_splits)
  show ?thesis
    using load_binary_list [OF n] assms load_body_sound pos_of_u16_bounds by (auto split: if_splits)
qed

text \<open>Only a base tile without an owner leaves the loader without an answer.\<close>

lemma load_binary_defined:
  assumes "\<forall>b\<in>set (drop 15 bs). t_is_base (tile_of_byte b) \<longrightarrow> t_side (tile_of_byte b) \<noteq> 0"
  shows "\<exists>r rest. load_binary_from list_ops bs = Some (r, rest)"
proof (cases "15 \<le> length bs")
  case False
  then show ?thesis by (simp add: load_header_def load_binary_from_def)
next
  case n: True
  have "\<exists>r rest. load_body list_ops w h k (drop 15 bs) = Some (r, rest)" for w h k
  proof (cases "0 < w \<and> w \<le> 512 \<and> 0 < h \<and> h \<le> 512 \<and> nat (w * h) \<le> length (drop 15 bs)")
    case False
    then show ?thesis by (auto simp: load_body_def Let_def)
  next
    case True
    let ?m = "loaded_map w h k (drop 15 bs)"
    have "tilemap_wf ?m" using True by (intro loaded_map_wf) auto
    moreover have "list_all (\<lambda>t. t_is_base t \<longrightarrow> t_side t \<noteq> 0) (tm_tiles ?m)"
      using assms by (auto simp: loaded_map_def list_all_iff dest: in_set_takeD)
    ultimately have "list_all tile_legal (tm_tiles ?m) \<Longrightarrow> sides_ok ?m" by (rule legal_sides_ok)
    then have c: "list_all tile_legal (tm_tiles ?m)
        \<Longrightarrow> \<exists>c. try_fold (check_base ?m) (row_major ?m) (\<lambda>_. None) = Some c"
      using check_bases_defined by blast
    note L = load_body_list [of w h "drop 15 bs" k]
    show ?thesis
    proof (cases "list_all tile_legal (tm_tiles ?m)")
      case True
      then show ?thesis using c [OF True] L \<open>0 < w \<and> _\<close> by auto
    next
      case False
      then show ?thesis using L \<open>0 < w \<and> _\<close> by auto
    qed
  qed
  from this [of "pos_of_u16 (u16_of_bytes (drop 7 bs))" "pos_of_u16 (u16_of_bytes (drop 9 bs))"
      "pos_of_u16 (u16_of_bytes (drop 11 bs))"] show ?thesis
    using load_binary_list [OF n]
    by (cases "take 6 bs = tilemap_binary_magic \<and> bs ! 6 = TILEMAP_BINARY_VERSION") auto
qed

subsection \<open>What is saved loads again\<close>

definition map_bytes :: "tilemap \<Rightarrow> byte list" where
  "map_bytes m = tilemap_binary_magic @ [TILEMAP_BINARY_VERSION] @ u16_bytes (word_of_int (tm_width m))
     @ u16_bytes (word_of_int (tm_height m)) @ u16_bytes (word_of_int (tm_base_size m)) @ u16_bytes 0
     @ map (tile_pack \<circ> flags_of_tile) (tm_tiles m)"

lemma row_major_tiles: "tilemap_wf m \<Longrightarrow> map (tileOf m) (row_major m) = map Some (tm_tiles m)"
  using row_major_length row_major_tile by (intro nth_equalityI) simp_all

lemma foldM_tiles:
  "map f ps = map Some ts \<Longrightarrow> foldM (\<lambda>p b. map_option (\<lambda>t. g t b) (f p)) ps b = Some (fold g ts b)"
  by (induction ps arbitrary: ts b) (auto simp: Cons_eq_map_conv)

lemma saveAsBinary_bytes:
  assumes "tilemap_wf m" "0 < tm_width m" "0 < tm_height m" "0 \<le> tm_base_size m"
  shows "saveAsBinary m [] = Some (Inr (), map_bytes m)"
proof -
  have f: "fold (\<lambda>t. writeU8 (tile_pack (flags_of_tile t))) ts b = b @ map (tile_pack \<circ> flags_of_tile) ts" for ts b
    by (induction ts arbitrary: b) simp_all
  show ?thesis
    using assms foldM_tiles [OF row_major_tiles [OF assms(1)], of "\<lambda>t. writeU8 (tile_pack (flags_of_tile t))"]
    by (simp add: saveAsBinary_def f map_bytes_def)
qed

lemma tile_of_packed:
  assumes "tile_legal t" shows "tile_of_byte (tile_pack (flags_of_tile t)) = t"
proof -
  have "t_side t < 4" using assms by (auto simp: tile_legal_def intro: order.strict_trans1)
  then have "tile_flags_wf (flags_of_tile t)"
    using assms by (auto simp: tile_legal_def tile_flags_wf_def flags_of_tile_def EMPTY_def WATER_def OBSTACLE_def)
  then show ?thesis
    using assms by (simp add: tile_of_byte_def tile_unpack_pack) (simp add: flags_of_tile_def tile_legal_def)
qed

lemma load_map_bytes:
  assumes L: "map_legal m" and n: "0 < tm_base_size m"
  shows "load_binary_from list_ops (map_bytes m) = Some (Inr m, [])"
proof -
  let ?body = "map (tile_pack \<circ> flags_of_tile) (tm_tiles m)"
  have d: "0 < tm_width m" "tm_width m \<le> 512" "0 < tm_height m" "tm_height m \<le> 512"
    and wf: "tilemap_wf m" and legal: "list_all tile_legal (tm_tiles m)"
    using L by (simp_all add: map_legal_def)
  have len: "nat (tm_width m * tm_height m) = length (tm_tiles m)" using wf by (simp add: tilemap_wf_def)
  have m: "loaded_map (tm_width m) (tm_height m) (tm_base_size m) ?body = m"
  proof -
    have "map (tile_of_byte \<circ> (tile_pack \<circ> flags_of_tile)) (tm_tiles m) = tm_tiles m"
      using legal by (intro map_idI) (simp add: list_all_iff tile_of_packed)
    then show ?thesis by (simp add: loaded_map_def len)
  qed
  obtain found where "try_fold (check_base m) (row_major m) (\<lambda>_. None) = Some (Inr found)"
    using check_bases_complete [OF wf n] L n by (auto simp: map_legal_def)
  then have body: "load_body list_ops (tm_width m) (tm_height m) (tm_base_size m) ?body = Some (Inr m, [])"
    using load_body_list [OF d, of ?body "tm_base_size m"] legal by (simp add: m len)
  have magic: "check_magic list_ops tilemap_binary_magic (map_bytes m)
      = Some (True, drop 6 (map_bytes m))"
    unfolding map_bytes_def by (subst check_magic_bytes) (simp add: tilemap_binary_magic_def)
  have "15 \<le> length (map_bytes m)" by (simp add: map_bytes_def tilemap_binary_magic_def)
  moreover have "drop 6 (map_bytes m) = TILEMAP_BINARY_VERSION # u16_bytes (word_of_int (tm_width m))
     @ u16_bytes (word_of_int (tm_height m)) @ u16_bytes (word_of_int (tm_base_size m)) @ u16_bytes 0 @ ?body"
    by (simp add: map_bytes_def tilemap_binary_magic_def)
  moreover have "pos_of_u16 (word_of_int (tm_width m)) = tm_width m" "pos_of_u16 (word_of_int (tm_height m)) = tm_height m"
    "pos_of_u16 (word_of_int (tm_base_size m)) = tm_base_size m"
    using L d by (simp_all add: pos_of_u16_inverse map_legal_def)
  ultimately show ?thesis using magic body by (simp add: load_header_def load_binary_from_def)
qed

subsection \<open>Over every adapter\<close>

context stream_adapter begin

lemma pure_rule:
  "(\<And>x. read_rel view j (f x) (f' x)) \<Longrightarrow> read_rel view j (m \<bind> f) (m \<bind> f')"
  by (cases m) simp_all

lemma load_tiles_view:
  "view s bs (length ps) p \<Longrightarrow> read_rel view (\<lambda>_. 0) (load_tiles ops ps m s) (load_tiles list_ops ps m bs)"
proof (induction ps arbitrary: m s bs p)
  case Nil
  then show ?case by (simp add: done_rule_0)
next
  case (Cons q ps)
  then have "view s bs (Suc (length ps)) p" by simp
  from reads(1) [OF this] show ?case
    unfolding load_tiles.simps
    by (rule read_rel_bind) (rule pure_rule, rule sum_rule, erule done_rule_0, erule Cons.IH)
qed

lemma end_rule:
  assumes "view s bs k p"
  shows "read_rel view (\<lambda>_. 0) (case rb_end ops s of (fin, s) \<Rightarrow> Some (f fin, s))
    (case rb_end list_ops bs of (fin, s) \<Rightarrow> Some (f fin, s))"
proof -
  obtain s' where "so_end ops s = (bs = [], s')" "view s' bs k p" using end_view [OF assms] by blast
  then show ?thesis using done_rule_0 [of s' bs k p] by (simp add: rb_end_def [of ops])
qed

lemma load_body_view:
  assumes "view s bs k p"
  shows "read_rel view (\<lambda>_. 0) (load_body ops w h n s) (load_body list_ops w h n bs)"
proof (cases "w \<le> 0 \<or> h \<le> 0 \<or> w > 512 \<or> h > 512")
  case True
  then show ?thesis using done_rule_0 [OF assms] by (simp add: load_body_def)
next
  case False
  let ?m = "(new_tilemap w h)\<lparr>tm_base_size := n\<rparr>"
  have rows: "nat (w * h) = length (row_major ?m)"
    using row_major_length [OF new_map_wf, of w h n] False by (simp add: new_tilemap_def)
  show ?thesis
    using False unfolding load_body_def Let_def if_False simp_thms
    by (simp only: if_False simp_thms)
      (rule has_rule [OF assms], unfold rows, rule read_rel_bind, erule load_tiles_view, rule sum_rule, erule done_rule_0,
        rule pure_rule, rule sum_rule, erule done_rule_0, erule end_rule)
qed

end

end
