(* ===== verification/Map_Load.thy ===== *)
theory Map_Load
  imports Map_Binary
begin

text \<open>
  The binary loader as a whole. Over every adapter it answers as over the list of bytes, so what holds of
  the list holds of a file; and a loaded map on which both players have a base is one that the
  constructor of a world accepts.
\<close>

subsection \<open>From a file\<close>

context stream_adapter begin

lemma load_header_view:
  assumes v: "view s bs k p"
  shows "read_rel view (\<lambda>_. 0) (load_header ops s) (load_header list_ops bs)"
proof -
  have two: "(2 :: nat) = Suc (Suc 0)" by simp
  show ?thesis
    unfolding load_header_def two
  proof (rule has_rule [OF v], rule magic_rule)
    fix s' assume "view s' bs 15 p"
    moreover have "length tilemap_binary_magic + Suc (Suc (Suc (Suc (Suc (Suc (Suc (Suc (Suc 0)))))))) = 15"
      by (simp add: tilemap_binary_magic_def)
    ultimately show "view s' bs (length tilemap_binary_magic
        + Suc (Suc (Suc (Suc (Suc (Suc (Suc (Suc (Suc 0))))))))) p" by simp
  qed (rule if_rule | erule done_rule_0 | (rule read_rel_bind, erule reads) | erule skip_rule)+
qed

lemma load_binary_view:
  assumes "view s bs k p"
  shows "read_rel view (\<lambda>_. 0) (load_binary_from ops s) (load_binary_from list_ops bs)"
  unfolding load_binary_from_def
  by (rule read_rel_bind [OF load_header_view [OF assms]], rule sum_rule, erule done_rule_0)
    (simp add: split_beta load_body_view)

end

text \<open>
  The two have a result in the same cases: the only failure of the list version is the check of the
  bases, which does not touch the stream.
\<close>

lemma load_header_total: "\<exists>r rest. load_header list_ops bs = Some (r, rest)"
proof (cases "15 \<le> length bs \<and> take 6 bs = tilemap_binary_magic")
  case True
  have len: "length tilemap_binary_magic = 6" by (simp add: tilemap_binary_magic_def)
  have m: "check_magic list_ops tilemap_binary_magic bs = Some (True, drop 6 bs)"
    using check_magic_take [of tilemap_binary_magic bs] True unfolding len by simp
  have "drop 6 bs = bs ! 6 # drop 7 bs" using True Cons_nth_drop_Suc [of 6 bs] by simp
  moreover have "2 \<le> length bs - 7" "2 \<le> length bs - 9" "2 \<le> length bs - 11" "2 \<le> length bs - 13"
    using conjunct1 [OF True] by simp_all
  ultimately show ?thesis using True m by (simp add: load_header_def list_readU16_bytes)
next
  case False
  moreover have len: "length tilemap_binary_magic = 6" by (simp add: tilemap_binary_magic_def)
  ultimately have "15 \<le> length bs \<Longrightarrow> \<exists>rest. check_magic list_ops tilemap_binary_magic bs = Some (False, rest)"
    using check_magic_take [of tilemap_binary_magic bs] by auto
  then show ?thesis by (auto simp: load_header_def)
qed

lemma load_body_None:
  assumes "load_body list_ops w h n bs = None"
  shows "0 < w" "w \<le> 512" "0 < h" "h \<le> 512" "nat (w * h) \<le> length bs"
    "list_all tile_legal (tm_tiles (loaded_map w h n bs))"
proof -
  show d: "0 < w" "w \<le> 512" "0 < h" "h \<le> 512" "nat (w * h) \<le> length bs"
    using assms by (auto simp: load_body_def Let_def split: if_splits)
  show "list_all tile_legal (tm_tiles (loaded_map w h n bs))"
    using load_body_list [OF d, of n] assms by (auto split: if_splits)
qed

lemma load_tiles_legal:
  assumes "0 < w" "0 < h" "nat (w * h) \<le> length bs" "list_all tile_legal (tm_tiles (loaded_map w h n bs))"
  shows "load_tiles list_ops (row_major ((new_tilemap w h)\<lparr>tm_base_size := n\<rparr>)) ((new_tilemap w h)\<lparr>tm_base_size := n\<rparr>) bs
    = Some (Inr (loaded_map w h n bs), drop (nat (w * h)) bs)"
proof -
  let ?m = "(new_tilemap w h)\<lparr>tm_base_size := n\<rparr>" and ?tiles = "take (nat (w * h)) bs"
  have wf: "tilemap_wf ?m" using assms(1,2) by (simp add: new_map_wf)
  have len: "length ?tiles = length (tm_tiles ?m)" using assms(3) by (simp add: new_tilemap_def)
  have rows: "length (row_major ?m) = nat (w * h)"
    using row_major_length [OF wf] by (simp add: new_tilemap_def)
  then have zip: "zip (row_major ?m) bs = zip (row_major ?m) ?tiles"
    using take_zip [of "nat (w * h)" "row_major ?m" bs] by (simp add: take_all)
  have "list_all (tile_legal \<circ> tile_of_byte) ?tiles" "?m\<lparr>tm_tiles := map tile_of_byte ?tiles\<rparr> = loaded_map w h n bs"
    using assms(4) by (simp_all add: loaded_map_def new_tilemap_def list_all_iff)
  then have "try_fold store_tile (zip (row_major ?m) bs) ?m = Some (Inr (loaded_map w h n bs))"
    using store_tiles_result(2) [OF wf len] zip by metis
  then show ?thesis using load_tiles_list [of "row_major ?m" bs ?m] rows assms(3) by auto
qed

context stream_adapter begin

lemma load_body_view_None:
  assumes v: "view s bs k p" and none: "load_body list_ops w h n bs = None"
  shows "load_body ops w h n s = None"
proof -
  note d = load_body_None [OF none]
  let ?m = "(new_tilemap w h)\<lparr>tm_base_size := n\<rparr>" and ?l = "loaded_map w h n bs"
  have lt: "load_tiles list_ops (row_major ?m) ?m bs = Some (Inr ?l, drop (nat (w * h)) bs)"
    using load_tiles_legal d by blast
  have c: "try_fold (check_base ?l) (row_major ?l) (\<lambda>_. None) = None"
    using none d lt by (auto simp: load_body_def Let_def split: bind_splits sum.splits)
  obtain s1 where s1: "rb_has ops (nat (w * h)) s = (True, s1)" "view s1 bs (max (nat (w * h)) k) p"
    using has_view [OF v, of "nat (w * h)"] d(5) by (auto simp: rb_has_def)
  have rows: "length (row_major ?m) = nat (w * h)"
    using row_major_length [OF new_map_wf, of w h n] d by (simp add: new_tilemap_def)
  have "view s1 bs (length (row_major ?m)) p" using view_weaken [OF s1(2)] rows by simp
  from load_tiles_view [OF this, of ?m] obtain s2 where "load_tiles ops (row_major ?m) ?m s1 = Some (Inr ?l, s2)"
    unfolding lt by (auto dest: read_relD)
  then show ?thesis using s1(1) c d by (simp add: load_body_def Let_def)
qed

lemma load_binary_view_None:
  assumes "view s bs k p" "load_binary_from list_ops bs = None"
  shows "load_binary_from ops s = None"
proof -
  obtain r rest where r: "load_header list_ops bs = Some (r, rest)" using load_header_total by blast
  then obtain w h n where h: "r = Inr (w, h, n)" "load_body list_ops w h n rest = None"
    using assms(2) by (cases r) (auto simp: load_binary_from_def)
  obtain s1 p1 where "load_header ops s = Some (r, s1)" "view s1 rest 0 p1"
    using load_header_view [OF assms(1)] unfolding r by (auto dest: read_relD)
  then show ?thesis using load_body_view_None [OF _ h(2)] h(1) by (simp add: load_binary_from_def)
qed

end

lemma loadBinary_list:
  "tilemap_loadBinary ndebug (istream_of bs) = map_option fst (load_binary_from list_ops bs)"
proof -
  note v = istream_adapter_new_view [of bs]
  have g: "istream_good (istream_of bs)" by (simp add: istream_good_def istream_of_def)
  show ?thesis
  proof (cases "load_binary_from list_ops bs")
    case None
    then show ?thesis using istream.load_binary_view_None [OF v None, of ndebug] g by (simp add: tilemap_loadBinary_def)
  next
    case (Some a)
    then show ?thesis using istream.load_binary_view [OF v, of ndebug] g
      by (cases a) (auto simp: tilemap_loadBinary_def dest: read_relD)
  qed
qed

lemma loadBinary_sound: "tilemap_loadBinary ndebug (istream_of bs) = Some (Inr m) \<Longrightarrow> map_legal m"
  using load_binary_sound by (auto simp: loadBinary_list)

lemma loadBinary_single: "tilemap_loadBinary ndebug (istream_of bs) = Some (Inr m) \<Longrightarrow> bases_single m"
  using load_binary_sound by (auto simp: loadBinary_list)

text \<open>Every file whose base tiles have owners is answered, and what is accepted is legal.\<close>

lemma loadBinary_answers:
  assumes "\<forall>b\<in>set (drop 15 bs). t_is_base (tile_of_byte b) \<longrightarrow> t_side (tile_of_byte b) \<noteq> 0"
  shows "\<exists>r. tilemap_loadBinary ndebug (istream_of bs) = Some r"
  using load_binary_defined [OF assms] loadBinary_list [of ndebug bs] by auto

lemma save_load_binary:
  assumes "map_legal m" "0 < tm_base_size m"
  shows "saveAsBinary m [] = Some (Inr (), map_bytes m)"
    "tilemap_loadBinary ndebug (istream_of (map_bytes m)) = Some (Inr m)"
  using saveAsBinary_bytes [of m] load_map_bytes [OF assms] assms
  by (simp_all add: map_legal_def loadBinary_list)

subsection \<open>What the constructor of a world needs\<close>

text \<open>The scan of the constructor goes down the columns; it too meets the corner of a square first.\<close>

lemma scan_positions_nth:
  assumes "tilemap_wf m"
  obtains h where "length (scan_positions m) = nat (tm_width m) * h"
    "\<And>i. i < length (scan_positions m) \<Longrightarrow> scan_positions m ! i = (int (i div h), int (i mod h))"
proof -
  obtain w h where wh: "tm_width m = int w" "tm_height m = int h"
    using assms by (metis tilemap_wf_def nonneg_int_cases)
  have s: "scan_positions m = concat (map (\<lambda>x. map (\<lambda>y. (int x, int y)) [0..<h]) [0..<w])"
    by (simp add: scan_positions_def wh upto_from_0 comp_def)
  have len: "length (scan_positions m) = w * h" by (simp add: s length_concat comp_def sum_list_triv)
  show thesis
  proof (rule that [of h])
    show "length (scan_positions m) = nat (tm_width m) * h" using len wh by simp
    show "scan_positions m ! i = (int (i div h), int (i mod h))" if "i < length (scan_positions m)" for i
      using nth_concat_rows [of i w h "\<lambda>x y. (int x, int y)"] that len s by simp
  qed
qed

lemma set_scan_positions: "set (scan_positions m) = {p. tm_inb m p}"
  by (auto simp: scan_positions_def tm_inb_def)

lemma find_corner:
  assumes wf: "tilemap_wf m" and c: "tm_inb m c" "P c"
    and least: "\<And>q. P q \<Longrightarrow> fst c \<le> fst q \<and> snd c \<le> snd q"
  shows "List.find P (scan_positions m) = Some c"
proof -
  let ?xs = "scan_positions m"
  obtain h where nth: "\<And>i. i < length ?xs \<Longrightarrow> ?xs ! i = (int (i div h), int (i mod h))"
    using scan_positions_nth [OF wf] by metis
  have "c \<in> set ?xs" using c(1) set_scan_positions by blast
  then obtain j where j: "j < length ?xs" "?xs ! j = c" by (meson in_set_conv_nth)
  have "\<not> P (?xs ! i)" if "i < j" for i
  proof
    assume "P (?xs ! i)"
    then have "j div h \<le> i div h" "j mod h \<le> i mod h" using least [of "?xs ! i"] nth j that by auto
    then have "j div h * h + j mod h \<le> i div h * h + i mod h" by (intro add_mono mult_right_mono) simp_all
    then show False using that by (simp only: div_mult_mod_eq)
  qed
  then show ?thesis using j c(2) by (auto simp: find_Some_iff)
qed

text \<open>The part of legality that does not concern the sizes.\<close>

definition map_sound :: "tilemap \<Rightarrow> bool" where
  "map_sound m \<longleftrightarrow> tilemap_wf m \<and> list_all tile_legal (tm_tiles m) \<and> sides_ok m
     \<and> (0 < tm_base_size m \<longrightarrow> bases_square m)"

lemma map_legal_sound: "map_legal m \<Longrightarrow> map_sound m"
  by (simp add: map_legal_def map_sound_def)

lemma sound_find_base:
  assumes "map_sound m" "0 < tm_base_size m" "\<exists>q. base_at m s q"
  shows "\<exists>c. List.find (base_at m s) (scan_positions m) = Some c \<and> base_square m s c"
proof -
  have wf: "tilemap_wf m" and sq: "bases_square m" using assms(1,2) by (simp_all add: map_sound_def)
  obtain c where c: "base_square m s c" using sq assms(3) unfolding bases_square_def by blast
  then have "base_at m s c" using assms(2) by (auto simp: base_square_def in_square_def)
  moreover have "fst c \<le> fst q \<and> snd c \<le> snd q" if "base_at m s q" for q
    using c that by (auto simp: base_square_def in_square_def)
  ultimately have "List.find (base_at m s) (scan_positions m) = Some c"
    using c by (intro find_corner [OF wf]) (simp_all add: base_square_def)
  then show ?thesis using c by blast
qed

lemma sound_map_ok:
  assumes "map_sound m" "0 < tm_base_size m" "\<And>s. \<exists>q. base_at m s q"
  shows "map_ok m"
proof -
  have "case List.find (base_at m s) (scan_positions m) of None \<Rightarrow> False
      | Some p \<Rightarrow> fst p + tm_base_size m \<le> tm_width m \<and> snd p + tm_base_size m \<le> tm_height m" for s
    using sound_find_base [OF assms(1,2) assms(3) [of s]] by (auto simp: base_square_def square_fits_def)
  moreover have "list_all (\<lambda>t. t_occupant t = NOT_OCCUPIED) (tm_tiles m)" "tilemap_wf m"
    using assms(1) by (auto simp: map_sound_def tile_legal_def list_all_iff)
  ultimately show ?thesis using assms(2) by (simp add: map_ok_def)
qed

end
