(* ===== verification/World_Start.thy ===== *)
theory World_Start
  imports Map_Load
begin

text \<open>
  The constructor of a world has a result on every sound map on which both players have a base, when the
  rules accept its sizes: the bases are disjoint squares of at least four tiles, which is room for the three
  first units of each player.
\<close>

declare split_paired_All [simp del] split_paired_Ex [simp del]

definition free_tiles :: "world \<Rightarrow> side \<Rightarrow> (pos_t \<times> pos_t) set" where
  "free_tiles w s = {p \<in> set (base_tiles w s). occ w p = Some NOT_OCCUPIED}"

lemma finite_free_tiles [simp]: "finite (free_tiles w s)"
  by (simp add: free_tiles_def)

definition wanted :: "(side \<times> u8) list \<Rightarrow> side \<Rightarrow> nat" where
  "wanted ps s = length (filter (\<lambda>q. fst q = s) ps)"

definition bases_apart :: "world \<Rightarrow> bool" where
  "bases_apart w \<longleftrightarrow> set (base_tiles w P1) \<inter> set (base_tiles w P2) = {}"

lemma bases_apartD: "bases_apart w \<Longrightarrow> p \<in> set (base_tiles w s) \<Longrightarrow> s' \<noteq> s \<Longrightarrow> p \<notin> set (base_tiles w s')"
  by (cases s; cases s') (auto simp: bases_apart_def)

lemma spawned_free_tiles:
  assumes "spawned s i p (w\<lparr>w_rng := r\<rparr>) w'" "p \<in> set (base_tiles w s)" "bases_apart w"
  shows "free_tiles w' s' = (if s' = s then free_tiles w s - {p} else free_tiles w s')" "bases_apart w'"
proof -
  have st: "static w' = static w" and o: "occ w' = (occ w)(p \<mapsto> OCCUPIED_BY_UNIT (w_next w))"
    using assms(1) by (simp_all add: spawned_def)
  have b: "base_tiles w' = base_tiles w" using static_facts(5) [OF st] .
  then show "bases_apart w'" using assms(3) by (simp add: bases_apart_def)
  show "free_tiles w' s' = (if s' = s then free_tiles w s - {p} else free_tiles w s')"
    using bases_apartD [OF assms(3,2), of s'] by (auto simp: free_tiles_def b o)
qed

lemma spawn_fold_total:
  assumes "turn_inv w" "uniform_ok uniform_int" "distinct ps" "\<forall>(s, i)\<in>set ps. valid_id i \<and> unused_id w s i"
    "bases_apart w" "\<And>s. wanted ps s \<le> card (free_tiles w s)"
  shows "\<exists>w'. foldM (\<lambda>(s, i). spawnUnitAtBase uniform_int s i) ps w = Some w'"
  using assms
proof (induction ps arbitrary: w)
  case (Cons q ps)
  obtain s i where q: "q = (s, i)" by (cases q)
  have v: "valid_id i" "unused_id w s i" using Cons.prems(4) by (auto simp: q)
  have "0 < card (free_tiles w s)" using Cons.prems(6) [of s] by (simp add: wanted_def q)
  then have "free_tiles w s \<noteq> {}" by auto
  then have "\<not> base_full w s" by (auto simp: free_tiles_def base_full_def)
  from spawnUnitAtBase_correct(2) [OF Cons.prems(1) v Cons.prems(2) this] obtain w1 p r where
    w1: "spawnUnitAtBase uniform_int s i w = Some w1" "turn_inv w1" "p \<in> set (base_tiles w s)"
      "occ w p = Some NOT_OCCUPIED" "spawned s i p (w\<lparr>w_rng := r\<rparr>) w1" by blast
  note F = spawned_free_tiles [OF w1(5,3) Cons.prems(5)]
  have "p \<in> free_tiles w s" using w1(3,4) by (simp add: free_tiles_def)
  then have c: "wanted ps s' \<le> card (free_tiles w1 s')" for s'
    using Cons.prems(6) [of s'] by (auto simp: F(1) wanted_def q)
  have rest: "\<forall>(s', i')\<in>set ps. valid_id i' \<and> unused_id w1 s' i'"
  proof (intro ballI, clarify)
    fix s' i' assume m: "(s', i') \<in> set ps"
    then have "(s', i') \<noteq> (s, i)" using Cons.prems(3) by (auto simp: q)
    then show "valid_id i' \<and> unused_id w1 s' i'"
      using m Cons.prems(4) unused_id_spawned [OF _ w1(5), of s' i'] by auto
  qed
  from Cons.IH [OF w1(2) Cons.prems(2) _ rest F(2) c] Cons.prems(3) show ?case by (simp add: q w1(1))
qed simp

lemma find_base_total:
  assumes "sides_ok m"
  shows "\<exists>found. foldM (find_base m) (scan_positions m) (\<lambda>_. None) = Some found"
proof -
  have "\<exists>g. find_base m p f = Some g" if p: "p \<in> set (scan_positions m)" for p f
  proof -
    obtain t where t: "tileOf m p = Some t" using scan_positions_inb [OF p] by (cases "tileOf m p") auto
    then show ?thesis using sides_okD [OF assms t] by (auto simp: find_base_def)
  qed
  then show ?thesis using foldM_total [of "\<lambda>_. True" "\<lambda>_. None" "scan_positions m" "find_base m"] by simp
qed

lemma set_base_tiles: "p \<in> set (base_tiles w s) \<longleftrightarrow>
    in_square (p_base_x (w_players w s), p_base_y (w_players w s)) (tm_base_size (w_map w)) p"
proof
  let ?x = "p_base_x (w_players w s)" and ?y = "p_base_y (w_players w s)" and ?n = "tm_base_size (w_map w)"
  assume p: "in_square (?x, ?y) ?n p"
  then have "p = (?x + (fst p - ?x), ?y + (snd p - ?y))" "fst p - ?x \<in> set [0..?n - 1]" "snd p - ?y \<in> set [0..?n - 1]"
    by (auto simp: in_square_def)
  then show "p \<in> set (base_tiles w s)"
    unfolding base_tiles_def Let_def by (simp only: set_concat set_map UN_iff image_iff bex_simps) blast
qed (auto simp: base_tiles_def Let_def in_square_def)

lemma card_square: "0 \<le> n \<Longrightarrow> card {q. in_square p n q} = nat n * nat n"
proof -
  assume "0 \<le> n"
  have "{q. in_square p n q} = {fst p..<fst p + n} \<times> {snd p..<snd p + n}" by (auto simp: in_square_def)
  then show ?thesis by simp
qed

lemma new_world_total:
  assumes m: "map_sound m" "\<And>s. \<exists>q. base_at m s q" and r: "rules_validate (set_dimensions m rules)"
    and n: "0 < tm_base_size m" and U: "uniform_ok uniform_int"
  shows "\<exists>w. new_world uniform_int m rules rng = Some w"
proof -
  have ok: "map_ok m" using sound_map_ok [OF m(1) n m(2)] .
  have "sides_ok m" using m(1) by (simp add: map_sound_def)
  then obtain found where f: "foldM (find_base m) (scan_positions m) (\<lambda>_. None) = Some found"
    using find_base_total by blast
  have found: "found s = List.find (base_at m s) (scan_positions m)" for s using find_base_fold [OF f, of s] by simp
  have corner: "\<exists>c. found s = Some c \<and> base_square m s c" for s
    using sound_find_base [OF m(1) n m(2) [of s]] found by simp
  let ?w = "initial_world m rules found rng"
  have size: "2 \<le> tm_base_size m"
  proof (rule ccontr)
    assume "\<not> 2 \<le> tm_base_size m"
    then have "tm_base_size m = 1" using n by simp
    then have "(2 :: u8) \<le> 1" using r by (simp add: rules_validate_def set_dimensions_def isInRange_def)
    then show False by (simp add: word_le_nat_alt)
  qed
  have tiles: "p \<in> set (base_tiles ?w s) \<longleftrightarrow> base_at m s p" for s p
    using corner [of s] by (auto simp: set_base_tiles initial_world_def base_square_def)
  have "bases_apart ?w"
    unfolding bases_apart_def disjoint_iff tiles by (auto simp: base_at_def split: option.splits)
  moreover have "wanted first_units s \<le> card (free_tiles ?w s)" for s
  proof -
    obtain c where c: "base_square m s c" using corner by blast
    have "occ ?w p = Some NOT_OCCUPIED" if "base_at m s p" for p
    proof -
      have inb: "tm_inb m p" using base_at_inb [OF that] .
      moreover have "tile_index m p < length (tm_tiles m)" using inb ok tile_index_less by (simp add: map_ok_def)
      ultimately show ?thesis
        using ok by (simp add: occ_def world_tile_def initial_world_def tileOf_def map_ok_def list_all_length)
    qed
    then have "free_tiles ?w s = {p. in_square c (tm_base_size m) p}"
      using c unfolding free_tiles_def tiles by (auto simp: base_square_def)
    then have "card (free_tiles ?w s) = nat (tm_base_size m) * nat (tm_base_size m)"
      using card_square n by simp
    moreover have "2 * 2 \<le> nat (tm_base_size m) * nat (tm_base_size m)" using size by (intro mult_le_mono) simp_all
    ultimately show ?thesis by (cases s) (simp_all add: wanted_def first_units_def)
  qed
  moreover have "distinct first_units" "\<forall>(s, i)\<in>set first_units. valid_id i \<and> unused_id ?w s i"
    by (auto simp: first_units_def valid_id_def max_units_def unused_id_def initial_world_def)
  ultimately obtain w where "foldM (\<lambda>(s, i). spawnUnitAtBase uniform_int s i) first_units ?w = Some w"
    using spawn_fold_total [OF initial_world_inv(1) [OF ok r found] U] by blast
  moreover have "found P1 \<noteq> None \<and> found P2 \<noteq> None" using corner [of P1] corner [of P2] by auto
  ultimately show ?thesis using r f by (simp add: new_world_steps)
qed

end
