(* ===== verification/Map_Text.thy ===== *)
theory Map_Text
  imports Map_Load Text_Stream
begin

text \<open>
  The text map file: \<open>Tilemap::loadText\<close>, \<open>saveAsText\<close> and the choice of the format by \<open>Tilemap::load\<close>
  (\<open>src/tilemap.cpp\<close>). The sizes of the first line are read as \<open>int\<close> and narrowed to \<open>pos_t\<close> by the
  constructor of the map, while the loops run over the \<open>int\<close> values. A size that is not read is an
  uninitialised variable, which has no result. \<open>make_unique\<close> of a negative number of tiles throws
  (\<open>BadArrayLength\<close>); that memory may run out is left out.
\<close>

declare split_paired_All [simp del] split_paired_Ex [simp del]

subsection \<open>Loading\<close>

definition pos_of_int :: "int \<Rightarrow> pos_t" where
  "pos_of_int n = sint (word_of_int n :: 16 word)"

definition text_tile :: "char \<Rightarrow> (tile \<Rightarrow> tile) option" where
  "text_tile c =
     (if c = CHR ''#'' then Some (\<lambda>t. t\<lparr>t_terrain := OBSTACLE\<rparr>)
      else if c = CHR ''.'' then Some (\<lambda>t. t\<lparr>t_terrain := EMPTY\<rparr>)
      else if c = CHR 0x7E then Some (\<lambda>t. t\<lparr>t_terrain := WATER\<rparr>)
      else if c = CHR ''$'' then Some (\<lambda>t. t\<lparr>t_terrain := EMPTY, t_is_resource := True\<rparr>)
      else if c = CHR ''B'' then Some (\<lambda>t. t\<lparr>t_terrain := EMPTY, t_is_base := True\<rparr>)
      else None)"

definition load_text_tile :: "(pos_t \<times> pos_t) \<times> char \<Rightarrow> tilemap \<Rightarrow> (map_error + tilemap) option" where
  "load_text_tile = (\<lambda>(p, c) m. do {
     _ \<leftarrow> tileOf m p;
     (case text_tile c of
        None \<Rightarrow> Some (Inl (InvalidTerrainChar c p))
      | Some f \<Rightarrow> map_option Inr (updTile p f m))
   })"

definition row_positions :: "int \<Rightarrow> int \<Rightarrow> (pos_t \<times> pos_t) list" where
  "row_positions width y = map (\<lambda>x. (x, y)) [0..width - 1]"

definition load_text_row ::
    "int \<Rightarrow> int \<Rightarrow> string \<times> istringstream \<times> tilemap \<Rightarrow> (map_error + (string \<times> istringstream \<times> tilemap)) option" where
  "load_text_row width y = (\<lambda>(line, iss, m).
     (case get_line iss line of (line, iss) \<Rightarrow>
       let line = filter (\<lambda>c. \<not> is_space c) line in
       if int (length line) \<noteq> width then Some (Inl (LineWidth (y + 2) width (length line)))
       else do {
         r \<leftarrow> try_fold load_text_tile (zip (row_positions width y) line) m;
         Some (map_sum id (\<lambda>m. (line, iss, m)) r)
       }))"

definition load_text_rows :: "int \<Rightarrow> int \<Rightarrow> istringstream \<Rightarrow> tilemap \<Rightarrow> (map_error + tilemap) option" where
  "load_text_rows width height iss m = do {
     r \<leftarrow> try_fold (load_text_row width) [0..height - 1] ('''', iss, m);
     Some (map_sum id (\<lambda>(_, _, m). m) r)
   }"

subsection \<open>The bases\<close>

text \<open>The scan to the right that measures a base.\<close>

function base_run :: "tilemap \<Rightarrow> int \<Rightarrow> pos_t \<times> pos_t \<Rightarrow> int \<Rightarrow> int option" where
  "base_run m width p n =
     (if fst p + n < width then do {
        t \<leftarrow> tileOf m (fst p + n, snd p);
        if t_is_base t then base_run m width p (n + 1) else Some n
      }
      else Some n)"
  by pat_completeness auto
termination by (relation "measure (\<lambda>(m, width, p, n). nat (width - (fst p + n)))") auto

declare base_run.simps [simp del]

definition base_area :: "pos_t \<times> pos_t \<Rightarrow> int \<Rightarrow> (pos_t \<times> pos_t) list" where
  "base_area p n = [(bx, by). bx \<leftarrow> [fst p..fst p + n - 1], by \<leftarrow> [snd p..snd p + n - 1]]"

definition mark_base_tile ::
    "pos_t \<times> pos_t \<Rightarrow> int \<Rightarrow> int \<Rightarrow> pos_t \<times> pos_t \<Rightarrow> tilemap \<Rightarrow> (map_error + tilemap) option" where
  "mark_base_tile p n number q m = do {
     t \<leftarrow> tileOf m q;
     if \<not> t_is_base t then Some (Inl (BaseNotSquare p n))
     else map_option Inr (updTile q (\<lambda>t. t\<lparr>t_side := word_of_int number\<rparr>) m)
   }"

text \<open>The state of the loop: \<open>common_base_size\<close>, \<open>base_found\<close> and the map.\<close>

definition assign_base ::
    "int \<Rightarrow> pos_t \<times> pos_t \<Rightarrow> int \<times> int \<times> tilemap \<Rightarrow> (map_error + (int \<times> int \<times> tilemap)) option" where
  "assign_base width p = (\<lambda>(common_base_size, base_found, m). do {
     t \<leftarrow> tileOf m p;
     if \<not> t_is_base t \<or> t_side t \<noteq> 0 then Some (Inr (common_base_size, base_found, m))
     else let base_found = base_found + 1 in
       if base_found > 2 then Some (Inl (MoreThanTwoBases p))
       else do {
         n \<leftarrow> base_run m width p 1;
         if common_base_size \<noteq> 0 \<and> n \<noteq> common_base_size then Some (Inl (DifferentBaseSize p n common_base_size))
         else do {
           r \<leftarrow> try_fold (mark_base_tile p n base_found) (base_area p n) m;
           Some (map_sum id (\<lambda>m. (n, base_found, m)) r)
         }
       }
   })"

definition int_positions :: "int \<Rightarrow> int \<Rightarrow> (pos_t \<times> pos_t) list" where
  "int_positions width height = [(x, y). y \<leftarrow> [0..height - 1], x \<leftarrow> [0..width - 1]]"

definition assign_bases :: "int \<Rightarrow> int \<Rightarrow> tilemap \<Rightarrow> (map_error + tilemap) option" where
  "assign_bases width height m = do {
     r \<leftarrow> try_fold (assign_base width) (int_positions width height) (0, 0, m);
     Some (map_sum id (\<lambda>(common_base_size, _, m). m\<lparr>tm_base_size := pos_of_int common_base_size\<rparr>) r)
   }"

definition load_text_sized :: "int \<Rightarrow> int \<Rightarrow> istringstream \<Rightarrow> (map_error + tilemap) option" where
  "load_text_sized width height iss =
     (if pos_of_int width * pos_of_int height < 0 then Some (Inl BadArrayLength)
      else do {
        r \<leftarrow> load_text_rows width height iss (new_tilemap (pos_of_int width) (pos_of_int height));
        (case r of Inl e \<Rightarrow> Some (Inl e) | Inr m \<Rightarrow> assign_bases width height m)
      })"

definition load_text_string :: "string \<Rightarrow> (map_error + tilemap) option" where
  "load_text_string text_data =
     (if text_data = [] then Some (Inl EmptyMapData)
      else (case read_int (istringstream_new text_data) of (width, iss) \<Rightarrow>
        (case read_int iss of (height, iss) \<Rightarrow> do {
          width \<leftarrow> width;
          height \<leftarrow> height;
          load_text_sized width height (ignore_line iss)
        })))"

definition text_of :: "byte list \<Rightarrow> string" where
  "text_of = map (\<lambda>b. char_of (unat b))"

definition tilemap_loadText :: "istream \<Rightarrow> (map_error + tilemap) option" where
  "tilemap_loadText i =
     (if \<not> istream_good i then Some (Inl InvalidStream) else load_text_string (text_of (is_data i)))"

text \<open>\<open>peek\<close> returns the first character, or sets \<open>eofbit\<close>.\<close>

definition tilemap_load :: "bool \<Rightarrow> istream \<Rightarrow> (map_error + tilemap) option" where
  "tilemap_load ndebug i =
     (if \<not> istream_good i then Some (Inl InvalidStream)
      else (case is_data i of
          [] \<Rightarrow> tilemap_loadBinary ndebug (i\<lparr>is_eof := True\<rparr>)
        | b # _ \<Rightarrow> if \<not> is_digit (char_of (unat b)) then tilemap_loadBinary ndebug i else tilemap_loadText i))"

subsection \<open>Saving\<close>

definition text_char :: "tile \<Rightarrow> char option" where
  "text_char t =
     (if t_is_base t then Some (CHR ''B'')
      else if t_is_resource t then Some (CHR ''$'')
      else if t_terrain t = EMPTY then Some (CHR ''.'')
      else if t_terrain t = WATER then Some (CHR 0x7E)
      else if t_terrain t = OBSTACLE then Some (CHR ''#'')
      else None)"

definition save_text_tile :: "tilemap \<Rightarrow> pos_t \<times> pos_t \<Rightarrow> string \<Rightarrow> ((map_error + unit) \<times> string) option" where
  "save_text_tile m p os = do {
     t \<leftarrow> tileOf m p;
     Some (case text_char t of
         None \<Rightarrow> (Inl (InvalidTerrainType (t_terrain t) p), os)
       | Some c \<Rightarrow> (Inr (), os @ [c, if fst p = tm_width m - 1 then CHR 0x0A else CHR '' '']))
   }"

fun save_text_tiles :: "tilemap \<Rightarrow> (pos_t \<times> pos_t) list \<Rightarrow> string \<Rightarrow> ((map_error + unit) \<times> string) option" where
  "save_text_tiles m [] os = Some (Inr (), os)"
| "save_text_tiles m (p # ps) os = do {
     (r, os) \<leftarrow> save_text_tile m p os;
     (case r of Inl e \<Rightarrow> Some (Inl e, os) | Inr _ \<Rightarrow> save_text_tiles m ps os)
   }"

definition saveAsText :: "tilemap \<Rightarrow> string \<Rightarrow> ((map_error + unit) \<times> string) option" where
  "saveAsText m os =
     save_text_tiles m (row_major m) (os @ dec_int (tm_width m) @ '' '' @ dec_int (tm_height m) @ [CHR 0x0A])"

end
