(* ===== verification/Map_Text_Sound.thy ===== *)
theory Map_Text_Sound
  imports Map_Text
begin

text \<open>
  What the text loader accepts: the base tiles of each player are a square of the map's base size. The two
  squares cannot overlap, although the code never compares them: the scan to the right that starts in
  front of a base would run into it and measure a different size.
\<close>

declare split_paired_All [simp del] split_paired_Ex [simp del]

lemma try_fold_each:
  "try_fold f xs s = Some (Inr t) \<Longrightarrow> x \<in> set xs \<Longrightarrow> \<exists>u v. f x u = Some (Inr v)"
proof (induction xs arbitrary: s)
  case (Cons y xs)
  then show ?case by (auto split: option.splits sum.splits)
qed simp

subsection \<open>The map without its sides\<close>

definition cleared :: "tilemap \<Rightarrow> tilemap" where
  "cleared m = m\<lparr>tm_base_size := 0, tm_tiles := map (\<lambda>t. t\<lparr>t_side := 0\<rparr>) (tm_tiles m)\<rparr>"

lemma cleared_upd_side:
  assumes "updTile q (\<lambda>t. t\<lparr>t_side := s\<rparr>) m = Some m'" shows "cleared m' = cleared m"
proof -
  have "map (\<lambda>t. t\<lparr>t_side := 0\<rparr>) (xs[i := (xs ! i)\<lparr>t_side := s\<rparr>]) = map (\<lambda>t. t\<lparr>t_side := 0\<rparr>) xs"
    for xs :: "tile list" and i
    by (cases "i < length xs") (auto intro: nth_equalityI simp: nth_list_update)
  then show ?thesis using assms by (auto simp: updTile_def cleared_def split: if_splits)
qed

lemma cleared_facts:
  assumes "cleared m = m0"
  shows "tm_width m = tm_width m0" "tm_height m = tm_height m0" "tm_inb m = tm_inb m0" "tilemap_wf m = tilemap_wf m0"
    "tilemap_wf m0 \<Longrightarrow> tileOf m0 q = map_option (\<lambda>t. t\<lparr>t_side := 0\<rparr>) (tileOf m q)"
proof -
  show 1: "tm_width m = tm_width m0" "tm_height m = tm_height m0" using assms by (auto simp: cleared_def)
  then show 2: "tm_inb m = tm_inb m0" by (simp add: tm_inb_def fun_eq_iff)
  have t: "tm_tiles m0 = map (\<lambda>t. t\<lparr>t_side := 0\<rparr>) (tm_tiles m)" using assms by (auto simp: cleared_def)
  then show 3: "tilemap_wf m = tilemap_wf m0" using 1 by (simp add: tilemap_wf_def)
  assume "tilemap_wf m0"
  then have "tm_inb m q \<Longrightarrow> tile_index m q < length (tm_tiles m)" using 3 tile_index_less by blast
  moreover have "tile_index m0 q = tile_index m q" using 1 by (simp add: tile_index_def)
  ultimately show "tileOf m0 q = map_option (\<lambda>t. t\<lparr>t_side := 0\<rparr>) (tileOf m q)"
    using 2 t by (simp add: tileOf_def)
qed

definition is_base_tile :: "tilemap \<Rightarrow> pos_t \<times> pos_t \<Rightarrow> bool" where
  "is_base_tile m q \<longleftrightarrow> (case tileOf m q of None \<Rightarrow> False | Some t \<Rightarrow> t_is_base t)"

lemma is_base_cleared: "cleared m = m0 \<Longrightarrow> tilemap_wf m0 \<Longrightarrow> is_base_tile m = is_base_tile m0"
  by (rule ext) (simp add: is_base_tile_def cleared_facts(5) option.case_eq_if option.map_sel)

lemma is_base_tile_inb: "is_base_tile m q \<Longrightarrow> tm_inb m q"
  by (auto simp: is_base_tile_def dest: tileOf_inb split: option.splits)

subsection \<open>One base\<close>

lemma base_run_stop:
  "base_run m w p n = Some r \<Longrightarrow> n \<le> r \<and> (fst p + r < w \<longrightarrow> \<not> is_base_tile m (fst p + r, snd p))"
proof (induction m w p n rule: base_run.induct)
  case (1 m w p n)
  show ?case
  proof (cases "fst p + n < w")
    case True
    then obtain t where t: "tileOf m (fst p + n, snd p) = Some t"
      using "1.prems" by (auto simp: base_run.simps [of m w p n] bind_eq_Some_conv)
    then show ?thesis using 1 True by (cases "t_is_base t") (auto simp: base_run.simps [of m w p n] is_base_tile_def)
  next
    case False
    then show ?thesis using "1.prems" by (simp add: base_run.simps [of m w p n])
  qed
qed

lemma set_base_area: "q \<in> set (base_area p n) \<longleftrightarrow> in_square p n q"
proof
  assume "in_square p n q"
  then have "fst q \<in> set [fst p..fst p + n - 1]" "snd q \<in> set [snd p..snd p + n - 1]" by (auto simp: in_square_def)
  then show "q \<in> set (base_area p n)" unfolding base_area_def by (cases q) (auto simp del: set_upto)
qed (auto simp: base_area_def in_square_def)

lemma mark_area:
  assumes "try_fold (mark_base_tile p n k) qs m = Some (Inr m')" "tilemap_wf m"
  shows "cleared m' = cleared m \<and> (\<forall>q\<in>set qs. is_base_tile m q)
    \<and> (\<forall>q. tileOf m' q = map_option (\<lambda>t. if q \<in> set qs then t\<lparr>t_side := word_of_int k\<rparr> else t) (tileOf m q))"
  using assms
proof (induction qs arbitrary: m)
  case Nil
  then show ?case by (simp add: option.map_ident)
next
  case (Cons q qs)
  obtain m1 where m1: "mark_base_tile p n k q m = Some (Inr m1)" "try_fold (mark_base_tile p n k) qs m1 = Some (Inr m')"
    using Cons.prems(1) by (auto split: option.splits sum.splits)
  then have q: "is_base_tile m q" "updTile q (\<lambda>t. t\<lparr>t_side := word_of_int k\<rparr>) m = Some m1"
    by (auto simp: mark_base_tile_def is_base_tile_def bind_eq_Some_conv split: if_splits)
  have c: "cleared m1 = cleared m" using cleared_upd_side [OF q(2)] .
  have wf: "tilemap_wf m1" using Cons.prems(2) updTile_frame(5) [OF q(2)] by simp
  have "is_base_tile m1 = is_base_tile m"
    using is_base_cleared [OF c] is_base_cleared [of m "cleared m"] cleared_facts(4) [of m "cleared m"] Cons.prems(2) by simp
  then show ?case
    using Cons.IH [OF m1(2) wf] c q(1) tileOf_updTile [OF q(2) Cons.prems(2)]
    by (auto simp: option.map_comp comp_def intro!: option.map_cong)
qed

subsection \<open>The scan\<close>

text \<open>The corners found so far, and the number that a position has under them.\<close>

definition side_num :: "(pos_t \<times> pos_t) list \<Rightarrow> int \<Rightarrow> pos_t \<times> pos_t \<Rightarrow> u8" where
  "side_num cs c q = (case cs of [] \<Rightarrow> 0
     | a # bs \<Rightarrow> if in_square a c q then 1 else (case bs of [] \<Rightarrow> 0 | b # _ \<Rightarrow> if in_square b c q then 2 else 0))"

definition corners_ok :: "tilemap \<Rightarrow> (pos_t \<times> pos_t) list \<Rightarrow> int \<Rightarrow> bool" where
  "corners_ok m0 cs c \<longleftrightarrow> length cs \<le> 2 \<and> 0 \<le> c \<and> (c = 0 \<longleftrightarrow> cs = [])
     \<and> (\<forall>a\<in>set cs. \<forall>q. in_square a c q \<longrightarrow> is_base_tile m0 q)
     \<and> (\<forall>a b. cs = [a, b] \<longrightarrow> (\<forall>q. \<not> (in_square a c q \<and> in_square b c q)))"

definition assign_inv :: "tilemap \<Rightarrow> (pos_t \<times> pos_t) list \<Rightarrow> (pos_t \<times> pos_t) list \<Rightarrow> int \<times> int \<times> tilemap \<Rightarrow> bool" where
  "assign_inv m0 ys cs st \<longleftrightarrow> (case st of (c, k, m) \<Rightarrow>
     cleared m = m0 \<and> k = int (length cs) \<and> set cs \<subseteq> set ys \<and> corners_ok m0 cs c
     \<and> (\<forall>q t. tileOf m q = Some t \<longrightarrow> t_side t = side_num cs c q)
     \<and> (\<forall>q\<in>set ys. is_base_tile m0 q \<longrightarrow> side_num cs c q \<noteq> 0))"

lemma side_num_range: "side_num cs c q = 0 \<or> side_num cs c q = 1 \<or> side_num cs c q = 2"
  by (auto simp: side_num_def split: list.split)

text \<open>Two squares of one size cannot meet.\<close>

lemma squares_apart:
  assumes "corners_ok m0 [a] n" "\<not> in_square a n p" "snd a \<le> snd p"
    "fst p + n < w \<longrightarrow> \<not> is_base_tile m0 (fst p + n, snd p)" "w = tm_width m0"
  shows "\<not> (in_square a n q \<and> in_square p n q)"
proof
  assume q: "in_square a n q \<and> in_square p n q"
  then have "snd p < snd a + n" by (auto simp: in_square_def)
  moreover have "fst p < fst a"
  proof (rule ccontr)
    assume "\<not> fst p < fst a"
    then show False using q assms(2,3) \<open>snd p < snd a + n\<close> by (auto simp: in_square_def)
  qed
  ultimately have "in_square a n (fst p + n, snd p)" using q assms(3) by (auto simp: in_square_def)
  then have b: "is_base_tile m0 (fst p + n, snd p)" using assms(1) by (auto simp: corners_ok_def)
  then have "fst p + n < w" using is_base_tile_inb [OF b] assms(5) by (simp add: tm_inb_def)
  then show False using assms(4) b by simp
qed

lemma assign_base_cases:
  assumes "assign_base w p (c, k, m) = Some (Inr st)"
  obtains t where "tileOf m p = Some t" "\<not> t_is_base t \<or> t_side t \<noteq> 0" "st = (c, k, m)"
  | t n m' where "tileOf m p = Some t" "t_is_base t" "t_side t = 0" "k + 1 \<le> 2" "base_run m w p 1 = Some n"
      "c = 0 \<or> n = c" "try_fold (mark_base_tile p n (k + 1)) (base_area p n) m = Some (Inr m')" "st = (n, k + 1, m')"
proof -
  obtain t where t: "tileOf m p = Some t" using assms by (auto simp: assign_base_def bind_eq_Some_conv)
  show thesis
  proof (cases "\<not> t_is_base t \<or> t_side t \<noteq> 0")
    case True
    then show ?thesis using assms t by (intro that(1) [of t]) (auto simp: assign_base_def)
  next
    case False
    then have k: "k + 1 \<le> 2" using assms t by (auto simp: assign_base_def Let_def split: if_splits)
    obtain n where n: "base_run m w p 1 = Some n"
      using assms t False k by (auto simp: assign_base_def Let_def bind_eq_Some_conv)
    have c: "c = 0 \<or> n = c"
      using assms t False k n by (auto simp: assign_base_def Let_def split: if_splits)
    obtain r where r: "try_fold (mark_base_tile p n (k + 1)) (base_area p n) m = Some r"
      using assms t False k n c by (auto simp: assign_base_def Let_def bind_eq_Some_conv)
    show ?thesis
    proof (cases r)
      case (Inl e)
      then show ?thesis using assms t False k n c r by (auto simp: assign_base_def Let_def)
    next
      case (Inr m')
      then have "st = (n, k + 1, m')" using assms t False k n c r by (auto simp: assign_base_def Let_def)
      then show ?thesis using t False k n c r Inr by (intro that(2)) auto
    qed
  qed
qed

lemma row_major_rows:
  assumes "tilemap_wf m" "row_major m = ys @ p # zs" "a \<in> set ys" shows "snd a \<le> snd p"
proof -
  obtain i where i: "i < length ys" "ys ! i = a" using assms(3) by (meson in_set_conv_nth)
  have n: "length ys < length (tm_tiles m)" using row_major_length [OF assms(1)] assms(2) by simp
  have "row_major m ! i = a" "row_major m ! length ys = p" using i assms(2) by (simp_all add: nth_append)
  moreover have "i div w \<le> length ys div w" for w using i(1) by (intro div_le_mono) simp
  ultimately show ?thesis using row_major_nth [OF assms(1), of i] row_major_nth [OF assms(1) n] i n by auto
qed

lemma side_num_append:
  assumes "corners_ok m0 cs c" "length cs \<le> 1" "c = 0 \<or> n = c"
    "\<And>a. cs = [a] \<Longrightarrow> \<not> (in_square a n q \<and> in_square p n q)"
  shows "side_num (cs @ [p]) n q = (if in_square p n q then word_of_int (int (length cs) + 1) else side_num cs c q)"
proof (cases cs)
  case Nil
  then show ?thesis by (simp add: side_num_def)
next
  case (Cons a bs)
  then have "bs = []" "n = c" using assms(1-3) by (auto simp: corners_ok_def)
  then show ?thesis using Cons assms(4) by (auto simp: side_num_def)
qed

lemma assign_new_base:
  assumes wf: "tilemap_wf m0" and I: "assign_inv m0 ys cs (c, k, m)" and row: "row_major m0 = ys @ p # zs"
    and t: "tileOf m p = Some t" "t_side t = 0" "k + 1 \<le> 2"
    and n: "base_run m (tm_width m0) p 1 = Some n" "c = 0 \<or> n = c"
    and m': "try_fold (mark_base_tile p n (k + 1)) (base_area p n) m = Some (Inr m')"
  shows "assign_inv m0 (ys @ [p]) (cs @ [p]) (n, k + 1, m')"
proof -
  have I': "cleared m = m0" "k = int (length cs)" "set cs \<subseteq> set ys" "corners_ok m0 cs c"
    "\<And>q t. tileOf m q = Some t \<Longrightarrow> t_side t = side_num cs c q"
    "\<And>q. q \<in> set ys \<Longrightarrow> is_base_tile m0 q \<Longrightarrow> side_num cs c q \<noteq> 0"
    using I by (auto simp: assign_inv_def)
  have base: "is_base_tile m = is_base_tile m0" by (rule is_base_cleared [OF I'(1) wf])
  have wfm: "tilemap_wf m" using cleared_facts(4) [OF I'(1)] wf by simp
  have run: "1 \<le> n" "fst p + n < tm_width m0 \<longrightarrow> \<not> is_base_tile m0 (fst p + n, snd p)"
    using base_run_stop [OF n(1)] base by auto
  have area: "cleared m' = cleared m" "\<And>q. in_square p n q \<Longrightarrow> is_base_tile m0 q"
    "\<And>q. tileOf m' q = map_option (\<lambda>t. if in_square p n q then t\<lparr>t_side := word_of_int (k + 1)\<rparr> else t) (tileOf m q)"
    using mark_area [OF m' wfm] base by (simp_all add: set_base_area)
  have len: "length cs \<le> 1" using I'(2) t(3) by simp
  have apart: "\<not> (in_square a n q \<and> in_square p n q)" if "cs = [a]" for a q
  proof -
    have c: "n = c" using n(2) that I'(4) by (auto simp: corners_ok_def)
    have "side_num cs c p = 0" using I'(5) [OF t(1)] t(2) by simp
    then have "\<not> in_square a n p" using that c by (auto simp: side_num_def split: if_splits)
    moreover have "snd a \<le> snd p" using row_major_rows [OF wf row] I'(3) that by simp
    ultimately show ?thesis using squares_apart [of m0 a n p "tm_width m0" q] I'(4) that c run(2) by blast
  qed
  have num: "side_num (cs @ [p]) n q = (if in_square p n q then word_of_int (k + 1) else side_num cs c q)" for q
    using side_num_append [OF I'(4) len n(2), of q p] apart I'(2) by simp
  have "corners_ok m0 (cs @ [p]) n"
    using I'(4) len n(2) run(1) area(2) apart
    by (cases cs) (auto simp: corners_ok_def)
  moreover have "t_side t' = side_num (cs @ [p]) n q" if "tileOf m' q = Some t'" for q t'
    using that area(3) [of q] I'(5) [of q] num [of q] by (auto split: if_splits)
  moreover have "side_num (cs @ [p]) n q \<noteq> 0" if "q \<in> set (ys @ [p])" "is_base_tile m0 q" for q
  proof -
    have "in_square p n p" using run(1) by (simp add: in_square_def)
    moreover have "(word_of_int (k + 1) :: u8) \<noteq> 0"
      using I'(2) t(3) len by (cases cs) auto
    ultimately show ?thesis using that I'(6) [of q] num [of q] by auto
  qed
  ultimately show ?thesis using I' area(1) by (auto simp: assign_inv_def)
qed

lemma assign_step:
  assumes "tilemap_wf m0" "assign_inv m0 ys cs (c, k, m)" "row_major m0 = ys @ p # zs"
    "assign_base (tm_width m0) p (c, k, m) = Some (Inr st)"
  shows "\<exists>cs'. assign_inv m0 (ys @ [p]) cs' st"
  using assms(4)
proof (cases rule: assign_base_cases)
  case (1 t)
  have "is_base_tile m p = t_is_base t" using 1(1) by (simp add: is_base_tile_def)
  then have "is_base_tile m0 p \<longrightarrow> side_num cs c p \<noteq> 0"
    using assms(2) 1 is_base_cleared [of m m0] assms(1) by (auto simp: assign_inv_def)
  then have "assign_inv m0 (ys @ [p]) cs st" using assms(2) 1(3) by (auto simp: assign_inv_def)
  then show ?thesis by blast
next
  case (2 t n m')
  then show ?thesis using assign_new_base [OF assms(1-3)] by blast
qed

text \<open>A map as the rows leave it: no sides, no occupants, legal terrain.\<close>

definition tile_plain :: "tile \<Rightarrow> bool" where
  "tile_plain t \<longleftrightarrow> (t_terrain t = EMPTY \<or> t_terrain t = WATER \<or> t_terrain t = OBSTACLE) \<and> t_side t = 0
     \<and> t_occupant t = NOT_OCCUPIED"

definition map_plain :: "tilemap \<Rightarrow> bool" where
  "map_plain m \<longleftrightarrow> tilemap_wf m \<and> tm_base_size m = 0 \<and> list_all tile_plain (tm_tiles m)
     \<and> tm_width m < 32768 \<and> tm_height m < 32768"

lemma cleared_plain: "map_plain m \<Longrightarrow> cleared m = m"
proof -
  assume "map_plain m"
  then have "map (\<lambda>t. t\<lparr>t_side := 0\<rparr>) (tm_tiles m) = tm_tiles m"
    by (intro map_idI) (auto simp: map_plain_def tile_plain_def list_all_iff)
  then show ?thesis using \<open>map_plain m\<close> by (simp add: cleared_def map_plain_def)
qed

lemma pos_of_int_id: "- 32768 \<le> n \<Longrightarrow> n < 32768 \<Longrightarrow> pos_of_int n = n"
  by (simp add: pos_of_int_def signed_of_int signed_take_bit_int_eq_self)

lemma row_major_ints: "row_major m = int_positions (tm_width m) (tm_height m)"
  by (simp add: row_major_def int_positions_def)

text \<open>What the scan leaves behind.\<close>

lemma assign_bases_inv:
  assumes "map_plain m0" "assign_bases (tm_width m0) (tm_height m0) m0 = Some (Inr m')"
  shows "\<exists>cs c m. assign_inv m0 (row_major m0) cs (c, int (length cs), m) \<and> m' = m\<lparr>tm_base_size := pos_of_int c\<rparr>"
proof -
  have wf: "tilemap_wf m0" using assms(1) by (simp add: map_plain_def)
  obtain r where r0: "try_fold (assign_base (tm_width m0)) (row_major m0) (0, 0, m0) = Some r"
    "map_sum id (\<lambda>(common_base_size, _, m). m\<lparr>tm_base_size := pos_of_int common_base_size\<rparr>) r = Inr m'"
    using assms(2) unfolding assign_bases_def row_major_ints [symmetric] by (auto simp: bind_eq_Some_conv)
  then obtain c k m where "r = Inr (c, k, m)" by (cases r) auto
  then have r: "try_fold (assign_base (tm_width m0)) (row_major m0) (0, 0, m0) = Some (Inr (c, k, m))"
    "m' = m\<lparr>tm_base_size := pos_of_int c\<rparr>"
    using r0 by simp_all
  have "\<exists>cs. assign_inv m0 (row_major m0) cs (c, k, m)"
  proof (rule try_fold_invariant [OF r(1), where I = "\<lambda>ys st. \<exists>cs. assign_inv m0 ys cs st"])
    have "t_side t = 0" if "tileOf m0 q = Some t" for q t
      using that assms(1) unfolding map_plain_def list_all_tileOf [OF wf] tile_plain_def by blast
    then have "assign_inv m0 [] [] (0, 0, m0)"
      using cleared_plain [OF assms(1)] by (auto simp: assign_inv_def corners_ok_def side_num_def)
    then show "\<exists>cs. assign_inv m0 [] cs (0, 0, m0)" by blast
  next
    fix ys p zs s st
    assume a: "row_major m0 = ys @ p # zs" "\<exists>cs. assign_inv m0 ys cs s"
      "assign_base (tm_width m0) p s = Some (Inr st)"
    obtain c k m where "s = (c, k, m)" by (cases s)
    then show "\<exists>cs. assign_inv m0 (ys @ [p]) cs st" using a assign_step [OF wf _ a(1)] by blast
  qed
  then obtain cs where "assign_inv m0 (row_major m0) cs (c, k, m)" by blast
  moreover from this have "k = int (length cs)" by (simp add: assign_inv_def)
  ultimately show ?thesis using r(2) by blast
qed

lemma side_corner:
  assumes ok: "corners_ok m0 cs c" and q: "side_num cs c q0 = side_id s"
  obtains a where "a \<in> set cs" "\<And>q. side_num cs c q = side_id s \<longleftrightarrow> in_square a c q"
proof -
  have "length cs \<le> 2" using ok by (simp add: corners_ok_def)
  then consider "cs = []" | a where "cs = [a]" | a b where "cs = [a, b]"
    by (cases cs; cases "tl cs") auto
  then show thesis
  proof cases
    case 1
    then show ?thesis using q by (cases s) (simp_all add: side_num_def)
  next
    case (2 a)
    then have "s = P1" using q by (cases s) (simp_all add: side_num_def split: if_splits)
    then show ?thesis using 2 by (intro that [of a]) (simp_all add: side_num_def)
  next
    case (3 a b)
    then have apart: "\<not> (in_square a c q \<and> in_square b c q)" for q using ok unfolding corners_ok_def by blast
    show ?thesis
    proof (cases s)
      case P1
      then show ?thesis using 3 by (intro that [of a]) (simp_all add: side_num_def)
    next
      case P2
      show ?thesis
      proof (rule that [of b])
        show "side_num cs c q = side_id s \<longleftrightarrow> in_square b c q" for q
          using P2 3 apart [of q] by (simp add: side_num_def)
      qed (use 3 in simp)
    qed
  qed
qed

text \<open>The bases without a condition on their size, which is positive exactly if there is a base.\<close>

definition bases_placed :: "tilemap \<Rightarrow> bool" where
  "bases_placed m \<longleftrightarrow> bases_square m \<and> (0 < tm_base_size m \<longleftrightarrow> (\<exists>s q. base_at m s q))"

lemma assigned_map_sound:
  assumes "map_plain m0" "assign_inv m0 (row_major m0) cs (c, int (length cs), m)"
  shows "map_sound (m\<lparr>tm_base_size := pos_of_int c\<rparr>) \<and> bases_placed (m\<lparr>tm_base_size := pos_of_int c\<rparr>)"
proof -
  let ?m = "m\<lparr>tm_base_size := pos_of_int c\<rparr>"
  have wf0: "tilemap_wf m0" using assms(1) by (simp add: map_plain_def)
  have I: "cleared m = m0" "corners_ok m0 cs c"
    "\<And>q t. tileOf m q = Some t \<Longrightarrow> t_side t = side_num cs c q"
    "\<And>q. is_base_tile m0 q \<Longrightarrow> side_num cs c q \<noteq> 0"
    using assms(2) is_base_tile_inb set_row_major [of m0] by (auto simp: assign_inv_def)
  note F = cleared_facts [OF I(1)]
  have wf: "tilemap_wf ?m" using F(4) wf0 by (simp add: tilemap_wf_def)
  have tile: "tileOf ?m = tileOf m" by (rule ext) (simp add: tileOf_def tm_inb_def tile_index_def)
  have base: "is_base_tile m = is_base_tile m0" by (rule is_base_cleared [OF I(1) wf0])
  have sq: "is_base_tile m0 q" if "side_num cs c q \<noteq> 0" for q
    using that I(2) by (auto simp: side_num_def corners_ok_def split: list.splits if_splits)
  have legal: "tile_legal t" if t: "tileOf ?m q = Some t" for q t
  proof -
    have "tileOf m0 q = Some (t\<lparr>t_side := 0\<rparr>)" using t F(5) [OF wf0] tile by simp
    then have "tile_plain (t\<lparr>t_side := 0\<rparr>)"
      using assms(1) unfolding map_plain_def list_all_tileOf [OF wf0] by blast
    moreover have s: "t_side t = side_num cs c q" using t tile I(3) by simp
    moreover have "t_is_base t \<or> t_side t = 0"
      using sq [of q] s t tile base [symmetric] by (auto simp: is_base_tile_def)
    ultimately show ?thesis using side_num_range [of cs c q] by (auto simp: tile_legal_def tile_plain_def)
  qed
  have at: "base_at ?m s q \<longleftrightarrow> side_num cs c q = side_id s" for s q
  proof
    show "base_at ?m s q \<Longrightarrow> side_num cs c q = side_id s"
      using I(3) tile by (auto simp: base_at_def split: option.splits)
    assume s: "side_num cs c q = side_id s"
    then have "side_num cs c q \<noteq> 0" by (cases s) auto
    then have "is_base_tile m q" using sq base by simp
    then obtain t where "tileOf m q = Some t" "t_is_base t" by (auto simp: is_base_tile_def split: option.splits)
    then show "base_at ?m s q" using s I(3) [of q t] tile by (simp add: base_at_def)
  qed
  have "side_of (t_side t) \<noteq> None" if t: "tileOf ?m q = Some t" "t_is_base t" for q t
  proof -
    have "is_base_tile m0 q" using t tile base [symmetric] by (simp add: is_base_tile_def)
    then have "t_side t \<noteq> 0" using I(3) [of q t] I(4) t tile by simp
    then show ?thesis using tile_legal_side [OF legal [OF t(1)] t(2)] by simp
  qed
  then have sides: "sides_ok ?m" by (simp add: sides_ok_def)
  have square: "0 < tm_base_size ?m \<and> (\<exists>p. base_square ?m s p)" if "\<exists>q. base_at ?m s q" for s
  proof -
    obtain a where a: "a \<in> set cs" "\<And>q. side_num cs c q = side_id s \<longleftrightarrow> in_square a c q"
      using \<open>\<exists>q. base_at ?m s q\<close> side_corner [OF I(2)] unfolding at by metis
    have c: "0 < c" using I(2) a(1) by (auto simp: corners_ok_def)
    have inb: "tm_inb m0 q" if "in_square a c q" for q
      using that a(1) I(2) is_base_tile_inb by (auto simp: corners_ok_def)
    have "tm_inb m0 a" using inb [of a] c by (simp add: in_square_def)
    moreover have "tm_inb m0 (fst a + c - 1, snd a + c - 1)" using inb c by (auto simp: in_square_def)
    ultimately have "tm_inb ?m a" "fst a + c \<le> tm_width m" "snd a + c \<le> tm_height m" "c < 32768"
      using F(1-3) assms(1) by (auto simp: tm_inb_def map_plain_def)
    then have "base_square ?m s a" "0 < tm_base_size ?m"
      using a(2) at c by (simp_all add: base_square_def square_fits_def pos_of_int_id)
    then show ?thesis by blast
  qed
  have "\<exists>s q. base_at ?m s q" if "0 < tm_base_size ?m"
  proof -
    have "c \<noteq> 0" using that by (auto simp: pos_of_int_id)
    then obtain a as where "cs = a # as" "0 < c" using I(2) by (cases cs) (auto simp: corners_ok_def)
    then have "side_num cs c a = side_id P1" by (simp add: side_num_def in_square_def)
    then show ?thesis using at by blast
  qed
  then have "bases_placed ?m" unfolding bases_placed_def bases_square_def using square by blast
  then show ?thesis
    using wf legal sides unfolding map_sound_def list_all_tileOf [OF wf] bases_placed_def by blast
qed

subsection \<open>The rows\<close>

lemma text_tile_plain: "text_tile c = Some f \<Longrightarrow> tile_plain t \<Longrightarrow> tile_plain (f t)"
  by (auto simp: text_tile_def tile_plain_def split: if_splits)

definition plain_like :: "tilemap \<Rightarrow> tilemap \<Rightarrow> bool" where
  "plain_like m m' \<longleftrightarrow> (map_plain m \<longrightarrow> map_plain m') \<and> tm_width m' = tm_width m \<and> tm_height m' = tm_height m"

lemma plain_like_refl: "plain_like m m"
  by (simp add: plain_like_def)

lemma plain_like_trans: "plain_like m m' \<Longrightarrow> plain_like m' m'' \<Longrightarrow> plain_like m m''"
  by (simp add: plain_like_def)

lemma plain_like_inb: "plain_like m m' \<Longrightarrow> tm_inb m' = tm_inb m"
  by (rule ext) (simp add: plain_like_def tm_inb_def)

lemma load_text_tile_plain:
  assumes "load_text_tile z m = Some (Inr m')"
  shows "plain_like m m' \<and> tm_inb m (fst z)"
proof -
  obtain p c where z: "z = (p, c)" by (cases z)
  obtain f where f: "text_tile c = Some f" "updTile p f m = Some m'"
    using assms by (auto simp: z load_text_tile_def bind_eq_Some_conv split: option.splits)
  note fr = updTile_frame [OF f(2)]
  have inb: "tm_inb m p" using updTile_inb [OF f(2)] .
  have "map_plain m'" if P: "map_plain m"
  proof -
    have wf: "tilemap_wf m" using P by (simp add: map_plain_def)
    have "tm_tiles m' = (tm_tiles m)[tile_index m p := f (tm_tiles m ! tile_index m p)]"
      using f(2) inb by (auto simp: updTile_def)
    moreover have "tile_plain (f (tm_tiles m ! tile_index m p))"
      using P tile_index_less [OF wf inb] text_tile_plain [OF f(1)] by (simp add: map_plain_def list_all_length)
    ultimately have "list_all tile_plain (tm_tiles m')"
      using P by (cases "tile_index m p < length (tm_tiles m)") (auto simp: map_plain_def list_all_length nth_list_update)
    then show ?thesis using fr P by (simp add: map_plain_def)
  qed
  then show ?thesis using fr inb z by (simp add: plain_like_def)
qed

definition row_inb :: "tilemap \<Rightarrow> int \<Rightarrow> int \<Rightarrow> bool" where
  "row_inb m w y \<longleftrightarrow> 0 \<le> w \<and> (\<forall>x. 0 \<le> x \<longrightarrow> x < w \<longrightarrow> tm_inb m (x, y))"

lemma load_text_row_run:
  assumes "load_text_row w y (l, iss, m) = Some (Inr (l', iss', m'))"
  shows "int (length l') = w" "try_fold load_text_tile (zip (row_positions w y) l') m = Some (Inr m')"
proof -
  obtain l1 iss1 where gl: "get_line iss l = (l1, iss1)" by (cases "get_line iss l")
  let ?line = "filter (\<lambda>c. \<not> is_space c) l1"
  have len: "int (length ?line) = w" using assms gl by (auto simp: load_text_row_def Let_def split: if_splits)
  then obtain r where r: "try_fold load_text_tile (zip (row_positions w y) ?line) m = Some r"
    "map_sum id (\<lambda>m. (?line, iss1, m)) r = Inr (l', iss', m')"
    using assms gl by (auto simp: load_text_row_def Let_def bind_eq_Some_conv)
  then show "int (length l') = w" "try_fold load_text_tile (zip (row_positions w y) l') m = Some (Inr m')"
    using len by (cases r; auto)+
qed

lemma load_text_rows_run:
  assumes "load_text_rows w h iss m = Some (Inr m')"
  obtains l iss' where "try_fold (load_text_row w) [0..h - 1] ([], iss, m) = Some (Inr (l, iss', m'))"
proof -
  obtain r where "try_fold (load_text_row w) [0..h - 1] ([], iss, m) = Some r" "map_sum id (\<lambda>(_, _, m). m) r = Inr m'"
    using assms by (auto simp: load_text_rows_def bind_eq_Some_conv)
  then show thesis using that by (cases r) auto
qed

lemma row_fst: "int (length l) = w \<Longrightarrow> map fst (zip (row_positions w y) l) = row_positions w y"
  by (simp add: row_positions_def)

lemma row_snd: "z \<in> set (zip (row_positions w y) l) \<Longrightarrow> snd (fst z) = y"
  by (cases z) (auto simp: row_positions_def dest: set_zip_leftD)

lemma load_text_row_plain:
  assumes "load_text_row w y (l, iss, m) = Some (Inr (l', iss', m'))"
  shows "plain_like m m' \<and> row_inb m w y"
proof -
  let ?xs = "zip (row_positions w y) l'"
  note R = load_text_row_run [OF assms]
  from R(2)  have "plain_like m m' \<and> (\<forall>z\<in>set ?xs. tm_inb m (fst z))"
  proof (rule try_fold_invariant)
    fix ys zs :: "((pos_t \<times> pos_t) \<times> char) list" and z s t
    assume "plain_like m s \<and> (\<forall>z\<in>set ys. tm_inb m (fst z))" "load_text_tile z s = Some (Inr t)"
    then show "plain_like m t \<and> (\<forall>z\<in>set (ys @ [z]). tm_inb m (fst z))"
      using load_text_tile_plain [of z s t] plain_like_inb [of m s] plain_like_trans [of m s t] by simp
  qed (simp add: plain_like_refl)
  moreover have "set (row_positions w y) = fst ` set ?xs" using row_fst [OF R(1)] by (metis set_map)
  ultimately show ?thesis using R(1) by (fastforce simp: row_positions_def row_inb_def)
qed

lemma load_text_rows_plain:
  assumes "load_text_rows w h iss m = Some (Inr m')"
  shows "plain_like m m' \<and> (\<forall>y. 0 \<le> y \<longrightarrow> y < h \<longrightarrow> row_inb m w y)"
proof -
  obtain l iss' where "try_fold (load_text_row w) [0..h - 1] ([], iss, m) = Some (Inr (l, iss', m'))"
    by (rule load_text_rows_run [OF assms])
  then have "plain_like m (snd (snd (l, iss', m'))) \<and> (\<forall>y\<in>set [0..h - 1]. row_inb m w y)"
  proof (rule try_fold_invariant)
    fix ys y zs s t
    assume a: "plain_like m (snd (snd s)) \<and> (\<forall>y\<in>set ys. row_inb m w y)" "load_text_row w y s = Some (Inr t)"
    obtain l i m1 l' i' m1' where st: "s = (l, i, m1)" "t = (l', i', m1')" by (cases s, cases t)
    have "plain_like m1 m1' \<and> row_inb m1 w y" using load_text_row_plain a(2) st by blast
    then show "plain_like m (snd (snd t)) \<and> (\<forall>y\<in>set (ys @ [y]). row_inb m w y)"
      using a(1) st plain_like_inb [of m m1] plain_like_trans [of m m1 m1'] by (simp add: row_inb_def)
  qed (simp add: plain_like_refl)
  then show ?thesis by auto
qed

text \<open>A size that is narrowed is noticed as soon as there is a row.\<close>

lemma pos_of_int_bounds: "- 32768 \<le> pos_of_int n \<and> pos_of_int n < 32768"
  using sint_ge [of "word_of_int n :: 16 word"] sint_lt [of "word_of_int n :: 16 word"] by (simp add: pos_of_int_def)

lemma pos_of_int_ge: "0 \<le> n \<Longrightarrow> n \<le> pos_of_int n \<Longrightarrow> pos_of_int n = n"
  using pos_of_int_bounds [of n] pos_of_int_id [of n] by simp

lemma new_tilemap_size [simp]: "tm_width (new_tilemap w h) = w" "tm_height (new_tilemap w h) = h"
  by (simp_all add: new_tilemap_def)

lemma new_map_plain: "0 \<le> w \<Longrightarrow> 0 \<le> h \<Longrightarrow> w < 32768 \<Longrightarrow> h < 32768 \<Longrightarrow> map_plain (new_tilemap w h)"
  unfolding map_plain_def
  by (simp add: new_tilemap_wf) (simp add: new_tilemap_def tile_plain_def new_tile_def list_all_iff)

lemma assign_no_bases:
  assumes "\<forall>q\<in>set (int_positions w h). \<exists>t. tileOf m q = Some t \<and> \<not> t_is_base t" "tm_base_size m = 0"
  shows "assign_bases w h m = Some (Inr m)"
proof -
  have "try_fold (assign_base w) ps (0, 0, m) = Some (Inr (0, 0, m))"
    if "\<forall>q\<in>set ps. \<exists>t. tileOf m q = Some t \<and> \<not> t_is_base t" for ps
    using that by (induction ps) (auto simp: assign_base_def)
  from this [OF assms(1)] show ?thesis using assms(2) by (simp add: assign_bases_def pos_of_int_id)
qed

lemma no_int_positions: "w \<le> 0 \<or> h \<le> 0 \<Longrightarrow> int_positions w h = []"
  by (auto simp: int_positions_def)

text \<open>What the loader returns comes from a plain map of the same size.\<close>

lemma load_text_sized_plain:
  assumes "load_text_sized w h iss = Some (Inr m)" "0 < tm_width m" "0 < tm_height m"
  obtains m0 where "map_plain m0" "tm_width m0 = tm_width m" "tm_height m0 = tm_height m"
    "assign_bases (tm_width m0) (tm_height m0) m0 = Some (Inr m)"
    "load_text_rows w h iss (new_tilemap (pos_of_int w) (pos_of_int h)) = Some (Inr m0)"
proof -
  let ?n = "new_tilemap (pos_of_int w) (pos_of_int h)"
  obtain r where r: "load_text_rows w h iss ?n = Some r"
    "(case r of Inl e \<Rightarrow> Some (Inl e) | Inr m \<Rightarrow> assign_bases w h m) = Some (Inr m)"
    using assms(1) by (auto simp: load_text_sized_def bind_eq_Some_conv split: if_splits)
  then obtain m0 where m0: "load_text_rows w h iss ?n = Some (Inr m0)" "assign_bases w h m0 = Some (Inr m)"
    by (cases r) auto
  note R = load_text_rows_plain [OF m0(1)]
  have size: "tm_width m0 = pos_of_int w" "tm_height m0 = pos_of_int h" using R by (simp_all add: plain_like_def)
  have plain: "0 \<le> pos_of_int w \<Longrightarrow> 0 \<le> pos_of_int h \<Longrightarrow> map_plain m0"
    using R new_map_plain pos_of_int_bounds by (auto simp: plain_like_def)
  show thesis
  proof (cases "0 < w \<and> 0 < h")
    case True
    then have inb: "tm_inb ?n (x, y)" if "0 \<le> x" "x < w" "0 \<le> y" "y < h" for x y
      using R that unfolding row_inb_def by blast
    have "tm_inb ?n (w - 1, h - 1)" using True by (intro inb) simp_all
    then have ge: "w \<le> pos_of_int w" "h \<le> pos_of_int h" by (simp_all add: tm_inb_def)
    then have eq: "pos_of_int w = w" "pos_of_int h = h" using True by (simp_all add: pos_of_int_ge)
    then have p: "map_plain m0" using plain True by simp
    have a: "assign_bases (tm_width m0) (tm_height m0) m0 = Some (Inr m)" using m0(2) size eq by simp
    obtain cs c m1 where "assign_inv m0 (row_major m0) cs (c, int (length cs), m1)" "m = m1\<lparr>tm_base_size := pos_of_int c\<rparr>"
      using assign_bases_inv [OF p a] by blast
    then have "tm_width m = tm_width m0" "tm_height m = tm_height m0"
      using cleared_facts(1,2) [of m1 m0] by (auto simp: assign_inv_def)
    then show ?thesis using that p a m0(1) by simp
  next
    case False
    then have "try_fold (assign_base w) (int_positions w h) (0, 0, m0) = Some (Inr (0, 0, m0))"
      using no_int_positions by auto
    then have m: "m = m0\<lparr>tm_base_size := 0\<rparr>" using m0(2) by (simp add: assign_bases_def pos_of_int_id)
    then have p: "map_plain m0" using plain size assms(2,3) by simp
    have h: "h \<le> 0"
    proof (rule ccontr)
      assume "\<not> h \<le> 0"
      then have "row_inb ?n w 0" using R by simp
      then have "w = 0" using False \<open>\<not> h \<le> 0\<close> by (auto simp: row_inb_def)
      then show False using assms(2) m size by (simp add: pos_of_int_id)
    qed
    then have new: "m0 = ?n" using m0(1) by (simp add: load_text_rows_def)
    have wf: "tilemap_wf m0" using p by (simp add: map_plain_def)
    have "list_all (\<lambda>t. \<not> t_is_base t) (tm_tiles m0)" by (simp add: new new_tilemap_def new_tile_def list_all_iff)
    then have nb: "\<And>q t. tileOf m0 q = Some t \<Longrightarrow> \<not> t_is_base t" unfolding list_all_tileOf [OF wf] by blast
    have "\<exists>t. tileOf m0 q = Some t \<and> \<not> t_is_base t" if "q \<in> set (row_major m0)" for q
    proof -
      have "tm_inb m0 q" using that set_row_major by blast
      then obtain t where "tileOf m0 q = Some t" by (cases "tileOf m0 q") auto
      then show ?thesis using nb by blast
    qed
    then have "assign_bases (tm_width m0) (tm_height m0) m0 = Some (Inr m0)"
      using p unfolding row_major_ints by (intro assign_no_bases) (auto simp: map_plain_def)
    moreover have "m = m0" using m p by (simp add: map_plain_def)
    ultimately show ?thesis using that p m0(1) by simp
  qed
qed

lemma loadText_placed:
  assumes "tilemap_loadText i = Some (Inr m)" "0 < tm_width m" "0 < tm_height m"
  shows "map_sound m \<and> bases_placed m"
proof -
  obtain w h iss where "load_text_sized w h iss = Some (Inr m)"
    using assms(1)
    by (auto simp: tilemap_loadText_def load_text_string_def bind_eq_Some_conv split: if_splits prod.splits)
  from load_text_sized_plain [OF this assms(2,3)] obtain m0 where
    m0: "map_plain m0" "assign_bases (tm_width m0) (tm_height m0) m0 = Some (Inr m)" by metis
  show ?thesis using assign_bases_inv [OF m0] assigned_map_sound [OF m0(1)] by blast
qed

lemma loadText_sound:
  "tilemap_loadText i = Some (Inr m) \<Longrightarrow> 0 < tm_width m \<Longrightarrow> 0 < tm_height m \<Longrightarrow> map_sound m"
  using loadText_placed by blast

end
