(* ===== verification/Noise.thy ===== *)
theory Noise
  imports Xoroshiro Text_Stream Complex_Main
begin

text \<open>
  The Perlin noise of the map generator (\<open>include/corertt/noise.h\<close>, \<open>src/noise.cpp\<close>). A \<open>double\<close> is a
  \<open>real\<close>: rounding is not modelled, and a result that would be a NaN (a division by zero) is \<open>None\<close>, as is
  an index outside the permutation or a conversion of a number that no \<open>int\<close> holds. \<open>std::shuffle\<close> and
  \<open>std::uniform_real_distribution\<close>, whose draws the standard leaves open, are parameters.
\<close>

definition fade :: "real \<Rightarrow> real" where
  "fade t = t * t * t * (t * (t * 6 - 15) + 10)"

definition lerp :: "real \<Rightarrow> real \<Rightarrow> real \<Rightarrow> real" where
  "lerp t a b = a + t * (b - a)"

definition grad :: "nat \<Rightarrow> real \<Rightarrow> real \<Rightarrow> real" where
  "grad hash x y =
     (let h = hash AND 15;
          u = if h < 8 then x else y;
          v = if h < 4 then y else if h = 12 \<or> h = 14 then x else 0
      in (if h AND 1 = 0 then u else - u) + (if h AND 2 = 0 then v else - v))"

definition at_index :: "'a list \<Rightarrow> nat \<Rightarrow> 'a option" where
  "at_index xs i = (if i < length xs then Some (xs ! i) else None)"

definition int_of_double :: "real \<Rightarrow> int option" where
  "int_of_double x = (if INT_MIN \<le> \<lfloor>x\<rfloor> \<and> \<lfloor>x\<rfloor> \<le> INT_MAX then Some \<lfloor>x\<rfloor> else None)"

subsection \<open>\<open>PerlinNoise\<close>\<close>

type_synonym shuffler = "nat list \<Rightarrow> seed \<Rightarrow> nat list"

definition shuffle_ok :: "shuffler \<Rightarrow> bool" where
  "shuffle_ok shuffle \<longleftrightarrow> (\<forall>xs rng. set (shuffle xs rng) = set xs \<and> length (shuffle xs rng) = length xs)"

text \<open>
  The permutation is doubled. The source does this with \<open>insert\<close> and iterators into the vector itself, which the
  precondition of \<open>insert\<close> forbids; the model takes it to append a copy, as the comment in the source intends and
  the common libraries do. (By the convention for undefined behaviour it would be \<open>None\<close>, and no map could be
  generated.)
\<close>

definition perlin_new :: "shuffler \<Rightarrow> seed \<Rightarrow> nat list" where
  "perlin_new shuffle rng = (let permutation = shuffle [0..<256] rng in permutation @ permutation)"

definition perlin_noise :: "nat list \<Rightarrow> real \<Rightarrow> real \<Rightarrow> real option" where
  "perlin_noise permutation x y = do {
     fx \<leftarrow> int_of_double x;
     fy \<leftarrow> int_of_double y;
     let X = nat (fx AND 255);
     let Y = nat (fy AND 255);
     let x = x - of_int \<lfloor>x\<rfloor>;
     let y = y - of_int \<lfloor>y\<rfloor>;
     let u = fade x;
     let v = fade y;
     a \<leftarrow> at_index permutation X;
     let A = a + Y;
     AA \<leftarrow> at_index permutation A;
     AB \<leftarrow> at_index permutation (A + 1);
     b \<leftarrow> at_index permutation (X + 1);
     let B = b + Y;
     BA \<leftarrow> at_index permutation B;
     BB \<leftarrow> at_index permutation (B + 1);
     pAA \<leftarrow> at_index permutation AA;
     pBA \<leftarrow> at_index permutation BA;
     pAB \<leftarrow> at_index permutation AB;
     pBB \<leftarrow> at_index permutation BB;
     let result = lerp v (lerp u (grad pAA x y) (grad pBA (x - 1) y))
                         (lerp u (grad pAB x (y - 1)) (grad pBB (x - 1) (y - 1)));
     Some ((result + 1) * (1 / 2))
   }"

text \<open>The loop of \<open>octave_noise\<close>: its state is the value, amplitude, frequency and largest value.\<close>

definition octave_step ::
    "nat list \<Rightarrow> real \<Rightarrow> real \<Rightarrow> real \<Rightarrow> nat \<Rightarrow> real \<times> real \<times> real \<times> real \<Rightarrow> (real \<times> real \<times> real \<times> real) option" where
  "octave_step permutation x y persistence _ = (\<lambda>(v, amplitude, frequency, max_value). do {
     n \<leftarrow> perlin_noise permutation (x * frequency) (y * frequency);
     Some (v + n * amplitude, amplitude * persistence, frequency * 2, max_value + amplitude)
   })"

definition octave_noise :: "nat list \<Rightarrow> real \<Rightarrow> real \<Rightarrow> int \<Rightarrow> real \<Rightarrow> real option" where
  "octave_noise permutation x y octaves persistence = do {
     (v, amplitude, frequency, max_value) \<leftarrow> forM (nat octaves) (octave_step permutation x y persistence) (0, 1, 1, 0);
     if max_value = 0 then None else Some (v / max_value)
   }"

subsection \<open>\<open>UniformPerlinNoise\<close>\<close>

record uniform_noise_gen =
  un_permutation :: "nat list"
  un_rng :: seed
  un_cdf :: "real list"
  un_calibrated :: bool
  un_scale :: real
  un_octaves :: int
  un_persistence :: real

definition uniform_noise_new :: "shuffler \<Rightarrow> seed \<Rightarrow> uniform_noise_gen" where
  "uniform_noise_new shuffle rng =
     \<lparr>un_permutation = perlin_new shuffle rng, un_rng = rng, un_cdf = [], un_calibrated = False,
      un_scale = 0, un_octaves = 0, un_persistence = 0\<rparr>"

definition raw_noise :: "uniform_noise_gen \<Rightarrow> real \<Rightarrow> real \<Rightarrow> real option" where
  "raw_noise g x y =
     (if un_octaves g = 1 then perlin_noise (un_permutation g) (x * un_scale g) (y * un_scale g)
      else octave_noise (un_permutation g) (x * un_scale g) (y * un_scale g) (un_octaves g) (un_persistence g))"

type_synonym real_dist = "seed \<Rightarrow> real \<times> seed"

text \<open>\<open>std::uniform_real_distribution<double>(0.0, 1000.0)\<close>\<close>

definition coord_ok :: "real_dist \<Rightarrow> bool" where
  "coord_ok draw \<longleftrightarrow> (\<forall>rng. 0 \<le> fst (draw rng) \<and> fst (draw rng) < 1000)"

fun noise_samples :: "real_dist \<Rightarrow> uniform_noise_gen \<Rightarrow> nat \<Rightarrow> seed \<Rightarrow> real list option" where
  "noise_samples draw g 0 rng = Some []"
| "noise_samples draw g (Suc n) rng = (case draw rng of (x, rng) \<Rightarrow> (case draw rng of (y, rng) \<Rightarrow> do {
     v \<leftarrow> raw_noise g x y;
     vs \<leftarrow> noise_samples draw g n rng;
     Some (v # vs)
   }))"

definition calibrate ::
    "real_dist \<Rightarrow> real \<Rightarrow> int \<Rightarrow> real \<Rightarrow> int \<Rightarrow> uniform_noise_gen \<Rightarrow> uniform_noise_gen option" where
  "calibrate draw scale octaves persistence sample_size g = do {
     let g = g\<lparr>un_scale := scale, un_octaves := octaves, un_persistence := persistence\<rparr>;
     samples \<leftarrow> noise_samples draw g (nat sample_size) (un_rng g);
     Some (g\<lparr>un_cdf := sort samples, un_calibrated := True\<rparr>)
   }"

text \<open>\<open>std::lower_bound\<close>: the length of the part of the sorted vector that is below the value.\<close>

definition map_to_uniform :: "uniform_noise_gen \<Rightarrow> real \<Rightarrow> real option" where
  "map_to_uniform g raw_value =
     (let position = length (takeWhile (\<lambda>v. v < raw_value) (un_cdf g)) in
      if un_cdf g = [] then None
      else Some (max 0 (min 1 (real position / real (length (un_cdf g))))))"

definition uniform_noise :: "uniform_noise_gen \<Rightarrow> real \<Rightarrow> real \<Rightarrow> real option" where
  "uniform_noise g x y = do {
     fail_fast_assert (un_calibrated g);
     raw_value \<leftarrow> raw_noise g x y;
     map_to_uniform g raw_value
   }"

subsection \<open>The noise lies between 0 and 1\<close>

lemma fade_symmetric: "fade (1 - t) = 1 - fade t"
  by (simp add: fade_def algebra_simps power2_eq_square)

lemma fade_nonneg: "0 \<le> t \<Longrightarrow> 0 \<le> fade t"
proof -
  assume "0 \<le> t"
  have "t * (t * 6 - 15) + 10 = 6 * (t - 5 / 4)\<^sup>2 + 5 / 8"
    by (simp add: algebra_simps power2_eq_square)
  also have "\<dots> \<ge> 0" by simp
  finally show ?thesis using \<open>0 \<le> t\<close> by (simp add: fade_def)
qed

lemma fade_range: "0 \<le> t \<Longrightarrow> t \<le> 1 \<Longrightarrow> 0 \<le> fade t \<and> fade t \<le> 1"
  using fade_nonneg [of t] fade_nonneg [of "1 - t"] by (simp add: fade_symmetric)

lemma fade_half: "0 \<le> (1 - 2 * t) * (1 - 2 * fade t)"
proof -
  have "(1 - 2 * t) * (1 - 2 * fade t)
      = (1 - 2 * t)\<^sup>2 * (3 * ((1 - 2 * t)\<^sup>2 - 5 / 3)\<^sup>2 + 20 / 3) / 8"
    by (simp add: fade_def algebra_simps power2_eq_square)
  also have "\<dots> \<ge> 0" by simp
  finally show ?thesis .
qed

lemma grad_bound: "\<bar>grad h x y\<bar> \<le> \<bar>x\<bar> + \<bar>y\<bar>"
  by (auto simp: grad_def Let_def)

lemma lerp_bound:
  assumes "0 \<le> t" "t \<le> 1" "\<bar>a\<bar> \<le> A" "\<bar>b\<bar> \<le> B"
  shows "\<bar>lerp t a b\<bar> \<le> (1 - t) * A + t * B"
proof -
  have "lerp t a b = (1 - t) * a + t * b" by (simp add: lerp_def algebra_simps)
  also have "\<bar>\<dots>\<bar> \<le> (1 - t) * \<bar>a\<bar> + t * \<bar>b\<bar>"
    using abs_triangle_ineq [of "(1 - t) * a" "t * b"] assms(1,2) by (simp add: abs_mult)
  also have "\<dots> \<le> (1 - t) * A + t * B"
    using assms by (intro add_mono mult_left_mono) simp_all
  finally show ?thesis .
qed

text \<open>The weighted distance of a point from the two sides of its cell is at most a half.\<close>

lemma mean_distance: "0 \<le> x \<Longrightarrow> x \<le> 1 \<Longrightarrow> (1 - fade x) * x + fade x * (1 - x) \<le> 1 / 2"
  using fade_half [of x] by (simp add: algebra_simps)

lemma corners_bound:
  assumes "0 \<le> x" "x \<le> 1" "0 \<le> y" "y \<le> 1"
  shows "\<bar>lerp (fade y) (lerp (fade x) (grad a x y) (grad b (x - 1) y))
    (lerp (fade x) (grad c x (y - 1)) (grad d (x - 1) (y - 1)))\<bar> \<le> 1"
proof -
  let ?u = "fade x" and ?v = "fade y"
  have u: "0 \<le> ?u" "?u \<le> 1" and v: "0 \<le> ?v" "?v \<le> 1" using fade_range assms by simp_all
  have g: "\<bar>grad a x y\<bar> \<le> x + y" "\<bar>grad b (x - 1) y\<bar> \<le> (1 - x) + y"
    "\<bar>grad c x (y - 1)\<bar> \<le> x + (1 - y)" "\<bar>grad d (x - 1) (y - 1)\<bar> \<le> (1 - x) + (1 - y)"
    using grad_bound [of a x y] grad_bound [of b "x - 1" y] grad_bound [of c x "y - 1"]
      grad_bound [of d "x - 1" "y - 1"] assms by simp_all
  have "\<bar>lerp ?v (lerp ?u (grad a x y) (grad b (x - 1) y)) (lerp ?u (grad c x (y - 1)) (grad d (x - 1) (y - 1)))\<bar>
      \<le> (1 - ?v) * ((1 - ?u) * (x + y) + ?u * ((1 - x) + y)) + ?v * ((1 - ?u) * (x + (1 - y)) + ?u * ((1 - x) + (1 - y)))"
    by (intro lerp_bound u v g)
  also have "\<dots> = ((1 - ?u) * x + ?u * (1 - x)) + ((1 - ?v) * y + ?v * (1 - y))"
    by (simp add: algebra_simps)
  also have "\<dots> \<le> 1" using mean_distance [of x] mean_distance [of y] assms by linarith
  finally show ?thesis .
qed

definition perm_ok :: "nat list \<Rightarrow> bool" where
  "perm_ok p \<longleftrightarrow> length p = 512 \<and> (\<forall>v\<in>set p. v < 256)"

lemma perlin_new_ok: "shuffle_ok shuffle \<Longrightarrow> perm_ok (perlin_new shuffle rng)"
  by (auto simp: shuffle_ok_def perm_ok_def perlin_new_def Let_def)

lemma at_index_perm: "perm_ok p \<Longrightarrow> i < 512 \<Longrightarrow> \<exists>v. at_index p i = Some v \<and> v < 256"
  by (auto simp: perm_ok_def at_index_def)

lemma half_range: "\<bar>r\<bar> \<le> 1 \<Longrightarrow> 0 \<le> (r + 1) * (1 / 2) \<and> (r + 1) * (1 / 2) \<le> 1" for r :: real
  by (simp add: abs_le_iff)

text \<open>No lookup leaves the doubled permutation, and the value is one between 0 and 1.\<close>

lemma perlin_noise_range:
  assumes p: "perm_ok p" and x: "int_of_double x \<noteq> None" and y: "int_of_double y \<noteq> None"
  shows "\<exists>n. perlin_noise p x y = Some n \<and> 0 \<le> n \<and> n \<le> 1"
proof -
  obtain fx fy where f: "int_of_double x = Some fx" "int_of_double y = Some fy" using x y by blast
  define X Y where XY: "X = nat (fx AND 255)" "Y = nat (fy AND 255)"
  have "fx AND 255 \<le> 255" "fy AND 255 \<le> 255" by (simp_all add: AND_upper2)
  then have le: "X \<le> 255" "Y \<le> 255" by (simp_all add: XY nat_le_iff)
  let ?x = "x - of_int \<lfloor>x\<rfloor>" and ?y = "y - of_int \<lfloor>y\<rfloor>"
  have cell: "0 \<le> ?x" "?x \<le> 1" "0 \<le> ?y" "?y \<le> 1" by linarith+
  obtain a b where ab: "at_index p X = Some a" "a < 256" "at_index p (X + 1) = Some b" "b < 256"
    using at_index_perm [OF p, of X] at_index_perm [OF p, of "X + 1"] le by auto
  obtain AA AB BA BB where c: "at_index p (a + Y) = Some AA" "AA < 256" "at_index p (a + Y + 1) = Some AB" "AB < 256"
    "at_index p (b + Y) = Some BA" "BA < 256" "at_index p (b + Y + 1) = Some BB" "BB < 256"
    using at_index_perm [OF p, of "a + Y"] at_index_perm [OF p, of "a + Y + 1"]
      at_index_perm [OF p, of "b + Y"] at_index_perm [OF p, of "b + Y + 1"] ab le by auto
  obtain pAA pAB pBA pBB where d: "at_index p AA = Some pAA" "at_index p AB = Some pAB"
    "at_index p BA = Some pBA" "at_index p BB = Some pBB"
    using at_index_perm [OF p, of AA] at_index_perm [OF p, of AB] at_index_perm [OF p, of BA]
      at_index_perm [OF p, of BB] c by auto
  let ?r = "lerp (fade ?y) (lerp (fade ?x) (grad pAA ?x ?y) (grad pBA (?x - 1) ?y))
    (lerp (fade ?x) (grad pAB ?x (?y - 1)) (grad pBB (?x - 1) (?y - 1)))"
  have "perlin_noise p x y = Some ((?r + 1) * (1 / 2))"
    using f ab c d by (simp add: perlin_noise_def Let_def XY [symmetric])
  then show ?thesis using half_range [OF corners_bound [OF cell, of pAA pBA pAB pBB]] by blast
qed

text \<open>Several octaves: a weighted mean. The frequencies must stay where a coordinate is an \<open>int\<close>.\<close>

definition fits_int :: "real \<Rightarrow> bool" where
  "fits_int x \<longleftrightarrow> 0 \<le> x \<and> x < 2147483648"

lemma fits_int_of_double: "fits_int x \<Longrightarrow> int_of_double x \<noteq> None"
  unfolding fits_int_def int_of_double_def INT_MIN_def INT_MAX_def by (auto simp: floor_le_iff)

lemma fits_int_mult: "fits_int (x * (c * 2)) \<Longrightarrow> 0 \<le> x \<Longrightarrow> 0 \<le> c \<Longrightarrow> fits_int (x * c)"
  unfolding fits_int_def using mult_nonneg_nonneg [of x c] by (simp add: mult.commute mult.left_commute)

lemma octaves_range:
  assumes p: "perm_ok p" and pers: "0 \<le> persistence" and x: "0 \<le> x" "fits_int (x * 2 ^ n)" and y: "0 \<le> y" "fits_int (y * 2 ^ n)"
  shows "\<exists>v a mx. forM n (octave_step p x y persistence) (0, 1, 1, 0) = Some (v, a, 2 ^ n, mx)
    \<and> 0 \<le> a \<and> 0 \<le> v \<and> v \<le> mx \<and> (0 < n \<longrightarrow> 1 \<le> mx)"
  using x(2) y(2)
proof (induction n)
  case 0
  then show ?case by (simp add: forM_def)
next
  case (Suc n)
  have f: "fits_int (x * 2 ^ n)" "fits_int (y * 2 ^ n)"
    using Suc.prems fits_int_mult [of x "2 ^ n"] fits_int_mult [of y "2 ^ n"] x(1) y(1) by (simp_all add: mult.commute)
  obtain v a mx where I: "forM n (octave_step p x y persistence) (0, 1, 1, 0) = Some (v, a, 2 ^ n, mx)"
    "0 \<le> a" "0 \<le> v" "v \<le> mx" "0 < n \<longrightarrow> 1 \<le> mx"
    using Suc.IH [OF f] by blast
  have first: "n = 0 \<Longrightarrow> a = 1 \<and> mx = 0" using I(1) by (simp add: forM_def)
  obtain k where k: "perlin_noise p (x * 2 ^ n) (y * 2 ^ n) = Some k" "0 \<le> k" "k \<le> 1"
    using perlin_noise_range [OF p fits_int_of_double [OF f(1)] fits_int_of_double [OF f(2)]] by blast
  have "forM (Suc n) (octave_step p x y persistence) (0, 1, 1, 0) = Some (v + k * a, a * persistence, 2 ^ Suc n, mx + a)"
    using I(1) k(1) by (simp add: forM_def foldM_append octave_step_def mult.commute)
  moreover have "k * a \<le> a" "0 \<le> k * a" using k I(2) by (simp_all add: mult_left_le_one_le)
  moreover have "1 \<le> mx + a" using first I by (cases "n = 0") auto
  ultimately show ?case using I(2-4) pers by auto
qed

lemma octave_noise_range:
  assumes "perm_ok p" "0 \<le> persistence" "0 < octaves" "0 \<le> x" "fits_int (x * 2 ^ nat octaves)" "0 \<le> y"
    "fits_int (y * 2 ^ nat octaves)"
  shows "\<exists>n. octave_noise p x y octaves persistence = Some n \<and> 0 \<le> n \<and> n \<le> 1"
proof -
  obtain v a mx where "forM (nat octaves) (octave_step p x y persistence) (0, 1, 1, 0) = Some (v, a, 2 ^ nat octaves, mx)"
    "0 \<le> v" "v \<le> mx" "1 \<le> mx"
    using octaves_range [OF assms(1,2,4,5,6,7)] assms(3) by auto
  then show ?thesis by (simp add: octave_noise_def)
qed

subsection \<open>The calibrated noise is a quantile\<close>

text \<open>The parameters with which every coordinate up to 1000 has a noise value.\<close>

definition noise_params_ok :: "real \<Rightarrow> int \<Rightarrow> real \<Rightarrow> bool" where
  "noise_params_ok scale octaves persistence \<longleftrightarrow> 0 \<le> scale \<and> 0 < octaves \<and> 0 \<le> persistence
     \<and> 1000 * scale * 2 ^ nat octaves < 2147483648"

definition noise_gen_ok :: "uniform_noise_gen \<Rightarrow> bool" where
  "noise_gen_ok g \<longleftrightarrow> perm_ok (un_permutation g) \<and> noise_params_ok (un_scale g) (un_octaves g) (un_persistence g)"

lemma raw_noise_range:
  assumes "noise_gen_ok g" "0 \<le> x" "x \<le> 1000" "0 \<le> y" "y \<le> 1000"
  shows "\<exists>n. raw_noise g x y = Some n \<and> 0 \<le> n \<and> n \<le> 1"
proof -
  let ?s = "un_scale g" and ?o = "un_octaves g"
  have P: "perm_ok (un_permutation g)" "0 \<le> ?s" "0 < ?o" "0 \<le> un_persistence g" "1000 * ?s * 2 ^ nat ?o < 2147483648"
    using assms(1) by (simp_all add: noise_gen_ok_def noise_params_ok_def)
  have fit: "0 \<le> z * ?s" "fits_int (z * ?s * 2 ^ nat ?o)" if z: "0 \<le> z" "z \<le> 1000" for z
  proof -
    show "0 \<le> z * ?s" using z P(2) by simp
    have "z * ?s * 2 ^ nat ?o \<le> 1000 * ?s * 2 ^ nat ?o" using z P(2) by (intro mult_right_mono) simp_all
    then show "fits_int (z * ?s * 2 ^ nat ?o)" using z P(2,5) by (simp add: fits_int_def)
  qed
  have one: "int_of_double (z * ?s) \<noteq> None" if "0 \<le> z" "z \<le> 1000" "?o = 1" for z
    using fit [OF that(1,2)] that(3) fits_int_mult [of "z * ?s" 1] by (intro fits_int_of_double) simp
  show ?thesis
  proof (cases "?o = 1")
    case True
    then show ?thesis using perlin_noise_range [OF P(1) one one] assms(2-5) by (simp add: raw_noise_def)
  next
    case False
    then show ?thesis
      using octave_noise_range [OF P(1,4,3) fit [OF assms(2,3)] fit [OF assms(4,5)]] by (simp add: raw_noise_def)
  qed
qed

lemma noise_samples_total:
  assumes "noise_gen_ok g" "coord_ok draw"
  shows "\<exists>vs. noise_samples draw g n rng = Some vs \<and> length vs = n"
proof (induction n arbitrary: rng)
  case (Suc n)
  obtain x r1 where x: "draw rng = (x, r1)" by (cases "draw rng")
  obtain y r2 where y: "draw r1 = (y, r2)" by (cases "draw r1")
  have "0 \<le> x \<and> x < 1000" "0 \<le> y \<and> y < 1000" using assms(2) x y unfolding coord_ok_def by (metis fst_conv)+
  then obtain v where "raw_noise g x y = Some v" using raw_noise_range [OF assms(1), of x y] by auto
  then show ?case using Suc.IH [of r2] x y by auto
qed simp

lemma sorted_takeWhile_less:
  "sorted xs \<Longrightarrow> takeWhile (\<lambda>v. v < c) xs = filter (\<lambda>v. v < c) xs" for c :: real
proof (induction xs)
  case (Cons x xs)
  then show ?case by (cases "x < c") (auto simp: filter_empty_conv intro!: filter_False [symmetric] dest: order.trans)
qed simp

text \<open>The quantile is the share of the samples below the value, however they were sorted.\<close>

lemma map_to_uniform_quantile:
  assumes "un_cdf g = sort samples" "samples \<noteq> []"
  shows "map_to_uniform g raw = Some (real (length (filter (\<lambda>v. v < raw) samples)) / real (length samples))"
proof -
  have "length (takeWhile (\<lambda>v. v < raw) (un_cdf g)) = length (filter (\<lambda>v. v < raw) samples)"
    using assms(1) sorted_takeWhile_less [of "sort samples" raw] by (simp add: filter_sort)
  moreover have "length (filter (\<lambda>v. v < raw) samples) \<le> length samples" by simp
  moreover have "un_cdf g \<noteq> []" using assms by (metis length_0_conv length_sort)
  ultimately show ?thesis using assms by (simp add: map_to_uniform_def Let_def divide_le_eq_1)
qed

lemma calibrate_ok:
  assumes "shuffle_ok shuffle" "coord_ok draw" "noise_params_ok scale octaves persistence" "0 < sample_size"
  shows "\<exists>g samples. calibrate draw scale octaves persistence sample_size (uniform_noise_new shuffle rng) = Some g
    \<and> noise_gen_ok g \<and> un_calibrated g \<and> un_cdf g = sort samples \<and> length samples = nat sample_size"
proof -
  let ?g = "(uniform_noise_new shuffle rng)\<lparr>un_scale := scale, un_octaves := octaves, un_persistence := persistence\<rparr>"
  have ok: "noise_gen_ok ?g"
    using assms(1,3) perlin_new_ok by (simp add: noise_gen_ok_def uniform_noise_new_def)
  obtain vs where "noise_samples draw ?g (nat sample_size) (un_rng ?g) = Some vs" "length vs = nat sample_size"
    using noise_samples_total [OF ok assms(2)] by blast
  then show ?thesis using ok by (auto simp: calibrate_def Let_def noise_gen_ok_def)
qed

lemma uniform_noise_range:
  assumes "noise_gen_ok g" "un_calibrated g" "un_cdf g = sort samples" "samples \<noteq> []"
    "0 \<le> x" "x \<le> 1000" "0 \<le> y" "y \<le> 1000"
  shows "\<exists>raw. raw_noise g x y = Some raw \<and> 0 \<le> raw \<and> raw \<le> 1
    \<and> uniform_noise g x y = Some (real (length (filter (\<lambda>v. v < raw) samples)) / real (length samples))"
  using raw_noise_range [OF assms(1,5-8)] map_to_uniform_quantile [OF assms(3,4)] assms(2)
  by (auto simp: uniform_noise_def)

end
