(* ===== verification/Map_Generate.thy ===== *)
theory Map_Generate
  imports Map_Text_Sound Noise
begin

text \<open>
  The random map generator (\<open>Tilemap::generate\<close> in \<open>src/tilemap.cpp\<close>): terrain from the calibrated noise,
  two bases in opposite corners, clusters of resources on free ground. Whatever the random draws are, the
  map it returns is one on which a match can be played.
\<close>

declare split_paired_All [simp del] split_paired_Ex [simp del]

record map_config =
  cfg_seed :: seed
  cfg_width :: pos_t
  cfg_height :: pos_t
  cfg_noise_scale :: real
  cfg_noise_octaves :: int
  cfg_noise_persistence :: real
  cfg_base_size :: pos_t
  cfg_num_resources :: int

definition default_config :: "seed \<Rightarrow> map_config" where
  "default_config sd =
     \<lparr>cfg_seed = sd, cfg_width = 32, cfg_height = 32, cfg_noise_scale = 15 / 100, cfg_noise_octaves = 3,
      cfg_noise_persistence = 4 / 10, cfg_base_size = 5, cfg_num_resources = 5\<rparr>"

subsection \<open>Terrain and bases\<close>

definition terrain_of_noise :: "real \<Rightarrow> u8" where
  "terrain_of_noise v = (if v > 8 / 10 then OBSTACLE else if v < 2 / 10 then WATER else EMPTY)"

definition generate_tile :: "uniform_noise_gen \<Rightarrow> pos_t \<times> pos_t \<Rightarrow> tilemap \<Rightarrow> tilemap option" where
  "generate_tile g p m = do {
     v \<leftarrow> uniform_noise g (of_int (snd p)) (of_int (fst p));
     updTile p (\<lambda>t. t\<lparr>t_terrain := terrain_of_noise v\<rparr>) m
   }"

definition base_tile :: "u8 \<Rightarrow> tile \<Rightarrow> tile" where
  "base_tile side t = t\<lparr>t_is_base := True, t_side := side, t_terrain := EMPTY\<rparr>"

definition place_bases :: "map_config \<Rightarrow> tilemap \<Rightarrow> tilemap option" where
  "place_bases config m = do {
     let n = cfg_base_size config;
     let m = m\<lparr>tm_base_size := n\<rparr>;
     m \<leftarrow> foldM (\<lambda>q. updTile q (base_tile 1)) (base_area (0, 0) n) m;
     foldM (\<lambda>q. updTile q (base_tile 2)) (base_area (cfg_width config - n, cfg_height config - n) n) m
   }"

subsection \<open>Resources\<close>

text \<open>The state of the loop: the clusters placed, the map, and the generator.\<close>

type_synonym resource_state = "int \<times> tilemap \<times> seed"

fun suitable :: "tilemap \<Rightarrow> (pos_t \<times> pos_t) list \<Rightarrow> bool option" where
  "suitable m [] = Some True"
| "suitable m (q # qs) = do {
     t \<leftarrow> tileOf m q;
     if t_terrain t \<noteq> EMPTY \<or> t_is_base t then Some False else suitable m qs
   }"

definition resource_tile :: "tile \<Rightarrow> tile" where
  "resource_tile t = t\<lparr>t_is_resource := True\<rparr>"

definition resource_attempt :: "uniform \<Rightarrow> map_config \<Rightarrow> resource_state \<Rightarrow> resource_state option" where
  "resource_attempt uniform_int config = (\<lambda>(placed, m, rng).
     (case uniform_int (nat (cfg_width config)) rng of (x, rng) \<Rightarrow>
     (case uniform_int (nat (cfg_height config)) rng of (y, rng) \<Rightarrow>
       let p = (int x, int y) in do {
         _ \<leftarrow> tileOf m p;
         if fst p + 2 > cfg_width config \<or> snd p + 2 > cfg_height config then Some (placed, m, rng)
         else do {
           ok \<leftarrow> suitable m (base_area p 2);
           if \<not> ok then Some (placed, m, rng)
           else do {
             m \<leftarrow> foldM (\<lambda>q. updTile q resource_tile) (base_area p 2) m;
             Some (placed + 1, m, rng)
           }
         }
       })))"

fun resource_loop :: "uniform \<Rightarrow> map_config \<Rightarrow> nat \<Rightarrow> resource_state \<Rightarrow> resource_state option" where
  "resource_loop uniform_int config 0 st = Some st"
| "resource_loop uniform_int config (Suc attempts) st =
     (if fst st < cfg_num_resources config
      then resource_attempt uniform_int config st \<bind> resource_loop uniform_int config attempts
      else Some st)"

text \<open>The number of attempts is computed as an \<open>int\<close>, whose overflow is undefined.\<close>

definition place_resources :: "uniform \<Rightarrow> map_config \<Rightarrow> seed \<Rightarrow> tilemap \<Rightarrow> tilemap option" where
  "place_resources uniform_int config rng m = do {
     let attempts = cfg_num_resources config * 10;
     fail_fast_assert (INT_MIN \<le> attempts \<and> attempts \<le> INT_MAX);
     (_, m, _) \<leftarrow> resource_loop uniform_int config (nat attempts) (0, m, rng);
     Some m
   }"

definition tilemap_generate ::
    "shuffler \<Rightarrow> real_dist \<Rightarrow> uniform \<Rightarrow> map_config \<Rightarrow> (map_error + tilemap) option" where
  "tilemap_generate shuffle draw uniform_int config =
     (let w = cfg_width config; h = cfg_height config; n = cfg_base_size config in
      if w < 16 \<or> h < 16 then Some (Inl (MapTooSmall w h))
      else if w > 255 \<or> h > 255 then Some (Inl (MapTooLarge w h))
      else if n < 2 \<or> n > 8 then Some (Inl (BaseSizeOutOfRange n))
      else do {
        let rng = cfg_seed config;
        g \<leftarrow> calibrate draw (cfg_noise_scale config) (cfg_noise_octaves config) (cfg_noise_persistence config) 10000
          (uniform_noise_new shuffle (jump96 rng));
        let m = new_tilemap w h;
        m \<leftarrow> foldM (generate_tile g) (row_major m) m;
        m \<leftarrow> place_bases config m;
        m \<leftarrow> place_resources uniform_int config rng m;
        Some (Inr m)
      })"

subsection \<open>What holds of every tile\<close>

definition tiles_satisfy :: "(pos_t \<times> pos_t \<Rightarrow> tile \<Rightarrow> bool) \<Rightarrow> tilemap \<Rightarrow> bool" where
  "tiles_satisfy G m \<longleftrightarrow> tilemap_wf m \<and> (\<forall>q t. tileOf m q = Some t \<longrightarrow> G q t)"

lemma tiles_satisfyD: "tiles_satisfy G m \<Longrightarrow> tileOf m q = Some t \<Longrightarrow> G q t"
  by (simp add: tiles_satisfy_def)

definition same_size :: "tilemap \<Rightarrow> tilemap \<Rightarrow> bool" where
  "same_size m m' \<longleftrightarrow> tm_width m' = tm_width m \<and> tm_height m' = tm_height m \<and> tm_base_size m' = tm_base_size m"

lemma same_size_inb: "same_size m m' \<Longrightarrow> tm_inb m' = tm_inb m"
  by (rule ext) (simp add: same_size_def tm_inb_def)

lemma upd_satisfy:
  assumes "tiles_satisfy G m" "tm_inb m p" "\<And>t. tileOf m p = Some t \<Longrightarrow> G p t \<Longrightarrow> G p (f t)"
  shows "\<exists>m'. updTile p f m = Some m' \<and> tiles_satisfy G m' \<and> same_size m m'"
proof -
  obtain m' where m': "updTile p f m = Some m'" using assms(2) by (cases "updTile p f m") auto
  have wf: "tilemap_wf m" using assms(1) by (simp add: tiles_satisfy_def)
  have "G q t" if "tileOf m' q = Some t" for q t
    using that tileOf_updTile [OF m' wf, of q] assms(3) tiles_satisfyD [OF assms(1)] by (auto split: if_splits)
  then show ?thesis using m' updTile_frame [OF m'] wf by (auto simp: tiles_satisfy_def same_size_def)
qed

text \<open>A loop that writes the same fields of every tile of an area.\<close>

lemma foldM_upd:
  assumes "tilemap_wf m" "\<forall>q\<in>set qs. tm_inb m q" "\<And>t. f (f t) = f t"
  shows "\<exists>m'. foldM (\<lambda>q. updTile q f) qs m = Some m' \<and> tilemap_wf m' \<and> same_size m m'
    \<and> (\<forall>q. tileOf m' q = map_option (\<lambda>t. if q \<in> set qs then f t else t) (tileOf m q))"
  using assms(1,2)
proof (induction qs arbitrary: m)
  case Nil
  then show ?case by (simp add: option.map_ident same_size_def)
next
  case (Cons p qs)
  obtain m1 where m1: "updTile p f m = Some m1" using Cons.prems(2) by (cases "updTile p f m") auto
  note fr = updTile_frame [OF m1]
  have "tilemap_wf m1" "\<forall>q\<in>set qs. tm_inb m1 q" using fr Cons.prems by simp_all
  from Cons.IH [OF this] obtain m' where m': "foldM (\<lambda>q. updTile q f) qs m1 = Some m'" "tilemap_wf m'" "same_size m1 m'"
    "\<forall>q. tileOf m' q = map_option (\<lambda>t. if q \<in> set qs then f t else t) (tileOf m1 q)"
    by blast
  have "tileOf m' q = map_option (\<lambda>t. if q \<in> set (p # qs) then f t else t) (tileOf m q)" for q
    unfolding m'(4) [rule_format] tileOf_updTile [OF m1 Cons.prems(1)]
    by (auto simp: option.map_comp comp_def assms(3) intro!: option.map_cong)
  then show ?case using m1 m' fr by (auto simp: same_size_def)
qed

lemma foldM_square:
  assumes "tilemap_wf m" "\<And>q. in_square p n q \<Longrightarrow> tm_inb m q" "\<And>t. f (f t) = f t"
  shows "\<exists>m'. foldM (\<lambda>q. updTile q f) (base_area p n) m = Some m' \<and> tilemap_wf m' \<and> same_size m m'
    \<and> (\<forall>q. tileOf m' q = map_option (\<lambda>t. if in_square p n q then f t else t) (tileOf m q))"
  using foldM_upd [OF assms(1) _ assms(3), of "base_area p n"] assms(2) by (simp add: set_base_area Ball_def)

subsection \<open>The generated map\<close>

definition config_ok :: "map_config \<Rightarrow> bool" where
  "config_ok c \<longleftrightarrow> 16 \<le> cfg_width c \<and> cfg_width c \<le> 255 \<and> 16 \<le> cfg_height c \<and> cfg_height c \<le> 255
     \<and> 2 \<le> cfg_base_size c \<and> cfg_base_size c \<le> 8
     \<and> noise_params_ok (cfg_noise_scale c) (cfg_noise_octaves c) (cfg_noise_persistence c)
     \<and> INT_MIN \<le> cfg_num_resources c * 10 \<and> cfg_num_resources c * 10 \<le> INT_MAX"

definition corner_side :: "map_config \<Rightarrow> pos_t \<times> pos_t \<Rightarrow> u8" where
  "corner_side c q =
     (if in_square (0, 0) (cfg_base_size c) q then 1
      else if in_square (cfg_width c - cfg_base_size c, cfg_height c - cfg_base_size c) (cfg_base_size c) q then 2
      else 0)"

definition bare :: "tile \<Rightarrow> bool" where
  "bare t \<longleftrightarrow> tile_plain t \<and> \<not> t_is_base t \<and> \<not> t_is_resource t"

definition generated_tile :: "map_config \<Rightarrow> pos_t \<times> pos_t \<Rightarrow> tile \<Rightarrow> bool" where
  "generated_tile c q t \<longleftrightarrow> tile_legal t \<and> t_side t = corner_side c q \<and> (t_is_base t \<longleftrightarrow> corner_side c q \<noteq> 0)
     \<and> (t_is_base t \<longrightarrow> t_terrain t = EMPTY)
     \<and> (t_is_resource t \<longrightarrow> t_terrain t = EMPTY \<and> \<not> t_is_base t)"

definition sized :: "map_config \<Rightarrow> tilemap \<Rightarrow> bool" where
  "sized c m \<longleftrightarrow> tm_width m = cfg_width c \<and> tm_height m = cfg_height c"

lemma bare_terrain: "bare t \<Longrightarrow> bare (t\<lparr>t_terrain := terrain_of_noise v\<rparr>)"
  by (auto simp: bare_def tile_plain_def terrain_of_noise_def)

lemma terrain_step:
  assumes g: "noise_gen_ok g" "un_calibrated g" "un_cdf g = sort samples" "samples \<noteq> []"
    and c: "config_ok c" "sized c m" and p: "tm_inb m p" and m: "tiles_satisfy (\<lambda>_. bare) m"
  shows "\<exists>m'. generate_tile g p m = Some m' \<and> tiles_satisfy (\<lambda>_. bare) m' \<and> same_size m m'"
proof -
  have "0 \<le> real_of_int (snd p)" "real_of_int (snd p) \<le> 1000" "0 \<le> real_of_int (fst p)" "real_of_int (fst p) \<le> 1000"
    using p c by (auto simp: tm_inb_def sized_def config_ok_def)
  from uniform_noise_range [OF g this] obtain v where v: "uniform_noise g (of_int (snd p)) (of_int (fst p)) = Some v"
    by blast
  then show ?thesis
    using upd_satisfy [OF m p, of "\<lambda>t. t\<lparr>t_terrain := terrain_of_noise v\<rparr>"] bare_terrain
    by (simp add: generate_tile_def)
qed

lemma new_map_bare: "0 \<le> w \<Longrightarrow> 0 \<le> h \<Longrightarrow> tiles_satisfy (\<lambda>_. bare) (new_tilemap w h)"
proof -
  assume "0 \<le> w" "0 \<le> h"
  then have wf: "tilemap_wf (new_tilemap w h)" by (rule new_tilemap_wf)
  have "list_all bare (tm_tiles (new_tilemap w h))"
    by (simp add: new_tilemap_def list_all_iff bare_def tile_plain_def new_tile_def)
  then show ?thesis using wf unfolding list_all_tileOf [OF wf] tiles_satisfy_def by blast
qed

lemma terrain_total:
  assumes g: "noise_gen_ok g" "un_calibrated g" "un_cdf g = sort samples" "samples \<noteq> []" and c: "config_ok c"
  shows "\<exists>m. foldM (generate_tile g) (row_major (new_tilemap (cfg_width c) (cfg_height c)))
      (new_tilemap (cfg_width c) (cfg_height c)) = Some m \<and> tiles_satisfy (\<lambda>_. bare) m \<and> sized c m"
proof -
  let ?n = "new_tilemap (cfg_width c) (cfg_height c)"
  have n: "tiles_satisfy (\<lambda>_. bare) ?n \<and> sized c ?n"
    using c by (intro conjI new_map_bare) (simp_all add: config_ok_def sized_def)
  have "\<exists>m'. generate_tile g p m = Some m' \<and> tiles_satisfy (\<lambda>_. bare) m' \<and> sized c m'"
    if "p \<in> set (row_major ?n)" "tiles_satisfy (\<lambda>_. bare) m \<and> sized c m" for p m
  proof -
    have "tm_inb ?n p" using that(1) set_row_major by blast
    then have "tm_inb m p" using that(2) n by (simp add: tm_inb_def sized_def)
    then show ?thesis using terrain_step [OF g c, of m p] that(2) by (auto simp: same_size_def sized_def)
  qed
  with n show ?thesis by (rule foldM_total [where I = "\<lambda>m. tiles_satisfy (\<lambda>_. bare) m \<and> sized c m"])
qed

lemma base_tile_twice: "base_tile s (base_tile s t) = base_tile s t"
  by (simp add: base_tile_def)

lemma place_bases_total:
  assumes c: "config_ok c" "sized c m" and m: "tiles_satisfy (\<lambda>_. bare) m"
  shows "\<exists>m'. place_bases c m = Some m' \<and> tiles_satisfy (generated_tile c) m' \<and> sized c m'
    \<and> tm_base_size m' = cfg_base_size c"
proof -
  let ?n = "cfg_base_size c" and ?w = "cfg_width c" and ?h = "cfg_height c"
  let ?m = "m\<lparr>tm_base_size := ?n\<rparr>"
  have d: "2 \<le> ?n" "?n \<le> 8" "16 \<le> ?w" "16 \<le> ?h" using c by (simp_all add: config_ok_def)
  have wf: "tilemap_wf ?m" using m by (simp add: tiles_satisfy_def tilemap_wf_def)
  have tile: "tileOf ?m = tileOf m" by (rule ext) (simp add: tileOf_def tm_inb_def tile_index_def)
  have inb: "tm_inb m' q" if "sized c m'" "in_square (0, 0) ?n q \<or> in_square (?w - ?n, ?h - ?n) ?n q" for m' q
    using that d by (auto simp: in_square_def tm_inb_def sized_def)
  have s: "sized c ?m" using c by (simp add: sized_def)
  obtain m1 where m1: "foldM (\<lambda>q. updTile q (base_tile 1)) (base_area (0, 0) ?n) ?m = Some m1" "tilemap_wf m1"
    "same_size ?m m1" "\<forall>q. tileOf m1 q = map_option (\<lambda>t. if in_square (0, 0) ?n q then base_tile 1 t else t) (tileOf m q)"
    using foldM_square [where p = "(0, 0)" and n = ?n and f = "base_tile 1", OF wf] inb [OF s] base_tile_twice
    unfolding tile by blast
  have s1: "sized c m1" using s m1(3) by (simp add: sized_def same_size_def)
  obtain m2 where m2: "foldM (\<lambda>q. updTile q (base_tile 2)) (base_area (?w - ?n, ?h - ?n) ?n) m1 = Some m2" "tilemap_wf m2"
    "same_size m1 m2"
    "\<forall>q. tileOf m2 q = map_option (\<lambda>t. if in_square (?w - ?n, ?h - ?n) ?n q then base_tile 2 t else t) (tileOf m1 q)"
    using foldM_square [where p = "(?w - ?n, ?h - ?n)" and n = ?n and f = "base_tile 2", OF m1(2)] inb [OF s1]
      base_tile_twice by blast
  have "generated_tile c q t" if t: "tileOf m2 q = Some t" for q t
  proof -
    obtain t0 where t0: "tileOf m q = Some t0"
      "t = (let t1 = (if in_square (0, 0) ?n q then base_tile 1 t0 else t0) in
            if in_square (?w - ?n, ?h - ?n) ?n q then base_tile 2 t1 else t1)"
      using t m1(4) m2(4) by (auto simp: Let_def)
    have "bare t0" using tiles_satisfyD [OF m t0(1)] .
    moreover have "\<not> (in_square (0, 0) ?n q \<and> in_square (?w - ?n, ?h - ?n) ?n q)"
      using d by (auto simp: in_square_def)
    ultimately show ?thesis
      using t0(2) by (auto simp: generated_tile_def corner_side_def bare_def tile_plain_def tile_legal_def base_tile_def Let_def)
  qed
  then have "tiles_satisfy (generated_tile c) m2" using m2(2) by (simp add: tiles_satisfy_def)
  moreover have "sized c m2 \<and> tm_base_size m2 = ?n" using s1 m1(3) m2(3) by (simp add: sized_def same_size_def)
  moreover have "place_bases c m = Some m2" using m1(1) m2(1) by (simp add: place_bases_def Let_def)
  ultimately show ?thesis by blast
qed

lemma suitable_total:
  "\<forall>q\<in>set qs. tm_inb m q \<Longrightarrow> suitable m qs =
     Some (\<forall>q\<in>set qs. \<forall>t. tileOf m q = Some t \<longrightarrow> t_terrain t = EMPTY \<and> \<not> t_is_base t)"
proof (induction qs)
  case (Cons q qs)
  then obtain t where "tileOf m q = Some t" by (cases "tileOf m q") auto
  then show ?case using Cons by auto
qed simp

definition resource_inv :: "map_config \<Rightarrow> resource_state \<Rightarrow> bool" where
  "resource_inv c st \<longleftrightarrow> (case st of (placed, m, rng) \<Rightarrow>
     tiles_satisfy (generated_tile c) m \<and> sized c m \<and> tm_base_size m = cfg_base_size c)"

lemma resource_step:
  assumes U: "uniform_ok uniform_int" and c: "config_ok c" and I: "resource_inv c st"
  shows "\<exists>st'. resource_attempt uniform_int c st = Some st' \<and> resource_inv c st'"
proof -
  obtain placed m rng where st: "st = (placed, m, rng)" by (cases st)
  obtain x r1 where x: "uniform_int (nat (cfg_width c)) rng = (x, r1)" by (cases "uniform_int (nat (cfg_width c)) rng")
  obtain y r2 where y: "uniform_int (nat (cfg_height c)) r1 = (y, r2)" by (cases "uniform_int (nat (cfg_height c)) r1")
  have M: "tiles_satisfy (generated_tile c) m" "sized c m" "tm_base_size m = cfg_base_size c"
    using I by (simp_all add: resource_inv_def st)
  have "0 < nat (cfg_width c)" "0 < nat (cfg_height c)" using c by (simp_all add: config_ok_def)
  then have "x < nat (cfg_width c)" "y < nat (cfg_height c)" using U x y unfolding uniform_ok_def by (metis fst_conv)+
  then have p: "tm_inb m (int x, int y)" using M(2) by (auto simp: tm_inb_def sized_def)
  then obtain t where t: "tileOf m (int x, int y) = Some t" by (cases "tileOf m (int x, int y)") auto
  show ?thesis
  proof (cases "int x + 2 > cfg_width c \<or> int y + 2 > cfg_height c")
    case True
    then show ?thesis using I t x y by (auto simp: resource_attempt_def st resource_inv_def)
  next
    case False
    let ?area = "base_area (int x, int y) 2"
    have inb: "in_square (int x, int y) 2 q \<Longrightarrow> tm_inb m q" for q
      using False M(2) by (auto simp: in_square_def tm_inb_def sized_def)
    have s: "suitable m ?area = Some (\<forall>q\<in>set ?area. \<forall>t. tileOf m q = Some t \<longrightarrow> t_terrain t = EMPTY \<and> \<not> t_is_base t)"
      using inb by (intro suitable_total) (simp add: set_base_area Ball_def)
    show ?thesis
    proof (cases "\<forall>q\<in>set ?area. \<forall>t. tileOf m q = Some t \<longrightarrow> t_terrain t = EMPTY \<and> \<not> t_is_base t")
      case bad: False
      then have "suitable m ?area = Some False" using s by simp
      then show ?thesis using False I t x y by (auto simp: resource_attempt_def st resource_inv_def)
    next
      case True
      then have ok: "suitable m ?area = Some True" using s by simp
      have "tilemap_wf m" using M(1) by (simp add: tiles_satisfy_def)
      then obtain m' where m': "foldM (\<lambda>q. updTile q resource_tile) ?area m = Some m'" "tilemap_wf m'" "same_size m m'"
        "\<forall>q. tileOf m' q = map_option (\<lambda>t. if in_square (int x, int y) 2 q then resource_tile t else t) (tileOf m q)"
        using foldM_square [of m "(int x, int y)" 2 resource_tile] inb by (auto simp: resource_tile_def)
      have "generated_tile c q t'" if t': "tileOf m' q = Some t'" for q t'
      proof -
        obtain t0 where t0: "tileOf m q = Some t0" "t' = (if in_square (int x, int y) 2 q then resource_tile t0 else t0)"
          using t' m'(4) by auto
        have "generated_tile c q t0" by (rule tiles_satisfyD [OF M(1) t0(1)])
        moreover have "in_square (int x, int y) 2 q \<Longrightarrow> t_terrain t0 = EMPTY \<and> \<not> t_is_base t0"
          using True t0(1) by (simp add: set_base_area [symmetric])
        ultimately show ?thesis using t0(2) by (auto simp: generated_tile_def resource_tile_def tile_legal_def)
      qed
      then have "resource_inv c (placed + 1, m', r2)"
        using M m'(2,3) by (simp add: resource_inv_def tiles_satisfy_def same_size_def sized_def)
      then show ?thesis using False t x y ok m'(1) by (simp add: resource_attempt_def st)
    qed
  qed
qed

lemma resource_loop_total:
  assumes "uniform_ok uniform_int" "config_ok c"
  shows "resource_inv c st \<Longrightarrow> \<exists>st'. resource_loop uniform_int c n st = Some st' \<and> resource_inv c st'"
proof (induction n arbitrary: st)
  case (Suc n)
  obtain st1 where st1: "resource_attempt uniform_int c st = Some st1" "resource_inv c st1"
    using resource_step [OF assms Suc.prems] by blast
  show ?case using Suc.IH [OF st1(2)] Suc.prems st1(1) by auto
qed simp

lemma generated_map_sound:
  assumes c: "config_ok c" and m: "tiles_satisfy (generated_tile c) m" "sized c m" "tm_base_size m = cfg_base_size c"
  shows "map_sound m" "\<exists>q. base_at m s q"
proof -
  let ?n = "cfg_base_size c" and ?w = "cfg_width c" and ?h = "cfg_height c"
  let ?p = "\<lambda>s. case s of P1 \<Rightarrow> (0, 0) | P2 \<Rightarrow> (?w - ?n, ?h - ?n)"
  have d: "2 \<le> ?n" "?n \<le> 8" "16 \<le> ?w" "16 \<le> ?h" using c by (simp_all add: config_ok_def)
  have wf: "tilemap_wf m" using m(1) by (simp add: tiles_satisfy_def)
  have apart: "\<not> (in_square (0, 0) ?n q \<and> in_square (?w - ?n, ?h - ?n) ?n q)" for q
    using d by (auto simp: in_square_def)
  have side: "corner_side c q = side_id s \<longleftrightarrow> in_square (?p s) ?n q" for s q
    using apart [of q] by (cases s) (auto simp: corner_side_def)
  have inb: "in_square (?p s) ?n q \<Longrightarrow> tm_inb m q" for s q
    using d m(2) by (cases s) (auto simp: in_square_def tm_inb_def sized_def)
  have at: "base_at m s q \<longleftrightarrow> in_square (?p s) ?n q" for s q
  proof
    assume "base_at m s q"
    then obtain t where "tileOf m q = Some t" "t_is_base t" "t_side t = side_id s" by (auto simp: base_at_def split: option.splits)
    then show "in_square (?p s) ?n q" using tiles_satisfyD [OF m(1)] side [of q s] by (fastforce simp: generated_tile_def)
  next
    assume q: "in_square (?p s) ?n q"
    obtain t where t: "tileOf m q = Some t" using inb [OF q] by (cases "tileOf m q") auto
    have "corner_side c q = side_id s" using side q by blast
    moreover from this have "corner_side c q \<noteq> 0" by (cases s) auto
    ultimately show "base_at m s q" using tiles_satisfyD [OF m(1) t] t by (simp add: base_at_def generated_tile_def)
  qed
  have self: "in_square (?p s) ?n (?p s)" for s using d by (cases s) (auto simp: in_square_def)
  then show "\<exists>q. base_at m s q" using at by blast
  have fits: "square_fits m (?p s)" for s
    using d m(2,3) by (cases s) (auto simp: square_fits_def sized_def)
  have "base_square m s (?p s)" for s
    unfolding base_square_def using at fits m(3) inb [OF self] by simp
  then have "bases_square m" unfolding bases_square_def by blast
  moreover have "sides_ok m"
    unfolding sides_ok_def
  proof (intro allI impI)
    fix q t assume "tileOf m q = Some t" "t_is_base t"
    then have "tile_legal t" "t_side t \<noteq> 0" using tiles_satisfyD [OF m(1)] by (auto simp: generated_tile_def)
    then show "side_of (t_side t) \<noteq> None" using tile_legal_side \<open>t_is_base t\<close> by blast
  qed
  moreover have "list_all tile_legal (tm_tiles m)"
    using tiles_satisfyD [OF m(1)] unfolding list_all_tileOf [OF wf] generated_tile_def by blast
  ultimately show "map_sound m" using wf by (simp add: map_sound_def)
qed

lemma generate_total:
  assumes "shuffle_ok shuffle" "coord_ok draw" "uniform_ok uniform_int" and c: "config_ok c"
  shows "\<exists>m. tilemap_generate shuffle draw uniform_int c = Some (Inr m) \<and> tiles_satisfy (generated_tile c) m
    \<and> sized c m \<and> tm_base_size m = cfg_base_size c"
proof -
  have np: "noise_params_ok (cfg_noise_scale c) (cfg_noise_octaves c) (cfg_noise_persistence c)"
    using c by (simp add: config_ok_def)
  obtain g samples where g: "calibrate draw (cfg_noise_scale c) (cfg_noise_octaves c) (cfg_noise_persistence c) 10000
      (uniform_noise_new shuffle (jump96 (cfg_seed c))) = Some g" "noise_gen_ok g" "un_calibrated g" "un_cdf g = sort samples"
    "length samples = nat 10000"
    using calibrate_ok [OF assms(1,2) np, of 10000 "jump96 (cfg_seed c)"] by auto
  then have "samples \<noteq> []" by auto
  from terrain_total [OF g(2-4) this c] obtain m1 where m1: "foldM (generate_tile g)
      (row_major (new_tilemap (cfg_width c) (cfg_height c))) (new_tilemap (cfg_width c) (cfg_height c)) = Some m1"
    "tiles_satisfy (\<lambda>_. bare) m1" "sized c m1" by blast
  obtain m2 where m2: "place_bases c m1 = Some m2" "tiles_satisfy (generated_tile c) m2" "sized c m2"
    "tm_base_size m2 = cfg_base_size c"
    using place_bases_total [OF c m1(3,2)] by blast
  then have "resource_inv c (0, m2, cfg_seed c)" by (simp add: resource_inv_def)
  from resource_loop_total [OF assms(3) c this, of "nat (cfg_num_resources c * 10)"] obtain st where
    st: "resource_loop uniform_int c (nat (cfg_num_resources c * 10)) (0, m2, cfg_seed c) = Some st"
      "resource_inv c st" by blast
  obtain placed m3 r where s3: "st = (placed, m3, r)" by (cases st)
  note m3 = st [unfolded s3]
  have "tilemap_generate shuffle draw uniform_int c = Some (Inr m3)"
    using c g(1) m1(1) m2(1) m3(1) by (simp add: tilemap_generate_def config_ok_def place_resources_def Let_def)
  then show ?thesis using m3(2) by (auto simp: resource_inv_def)
qed

end
