(* ===== verification/Draw_Judge.thy ===== *)
theory Draw_Judge
  imports World
begin

text \<open>
  When a match is called a draw (\<open>include/corertt/draw_judge.h\<close>, \<open>src/draw_judge.cpp\<close>). The
  abstract class \<open>RuleDrawJudge\<close> is a datatype of its three implementations; \<open>shouldDraw\<close> returns
  the verdict and the judge with its updated flags. The dynamic judge raises its limit once for
  every kind of event it sees, so the limit stays between 1000 and 10000.
\<close>

record turn_limit =
  tl_max_turn :: u32
  tl_seen :: turn_events

datatype draw_judge = Noop | MaxTicks u32 | DynamicTurnLimit turn_limit

definition createNoopRuleDrawJudge :: draw_judge where
  "createNoopRuleDrawJudge = Noop"

definition createMaxTicksRuleDrawJudge :: "u32 \<Rightarrow> draw_judge" where
  "createMaxTicksRuleDrawJudge max_ticks = MaxTicks max_ticks"

definition createDynamicTurnLimitRuleDrawJudge :: draw_judge where
  "createDynamicTurnLimitRuleDrawJudge = DynamicTurnLimit \<lparr>tl_max_turn = 1000, tl_seen = no_events\<rparr>"

text \<open>One of the six tests of the dynamic judge: the event, its flag, and by how much the limit grows.\<close>

definition raise_limit ::
    "(turn_events \<Rightarrow> bool) \<Rightarrow> (turn_events \<Rightarrow> turn_events) \<Rightarrow> u32 \<Rightarrow> turn_events \<Rightarrow> turn_limit \<Rightarrow> turn_limit" where
  "raise_limit event mark amount ev j =
     (if \<not> event (tl_seen j) \<and> event ev
      then j\<lparr>tl_seen := mark (tl_seen j), tl_max_turn := tl_max_turn j + amount\<rparr>
      else j)"

definition raise_limits :: "turn_events \<Rightarrow> turn_limit \<Rightarrow> turn_limit" where
  "raise_limits ev j =
     (let j = raise_limit ev_unit_left_base (\<lambda>s. s\<lparr>ev_unit_left_base := True\<rparr>) 500 ev j;
          j = raise_limit ev_unit_entered_resource_zone
                (\<lambda>s. s\<lparr>ev_unit_entered_resource_zone := True\<rparr>) 500 ev j;
          j = raise_limit ev_unit_upgraded_or_repaired_at_base
                (\<lambda>s. s\<lparr>ev_unit_upgraded_or_repaired_at_base := True\<rparr>) 2000 ev j;
          j = raise_limit ev_unit_manufactured (\<lambda>s. s\<lparr>ev_unit_manufactured := True\<rparr>) 2000 ev j;
          j = raise_limit ev_unit_destroyed (\<lambda>s. s\<lparr>ev_unit_destroyed := True\<rparr>) 2000 ev j
      in raise_limit ev_base_entered_capture_condition
           (\<lambda>s. s\<lparr>ev_base_entered_capture_condition := True\<rparr>) 2000 ev j)"

fun shouldDraw :: "world \<Rightarrow> draw_judge \<Rightarrow> bool \<times> draw_judge" where
  "shouldDraw w Noop = (False, Noop)"
| "shouldDraw w (MaxTicks max_ticks) = (max_ticks \<noteq> 0 \<and> w_tick w \<ge> max_ticks, MaxTicks max_ticks)"
| "shouldDraw w (DynamicTurnLimit j) =
     (let j = raise_limits (w_events w) j in (w_tick w \<ge> tl_max_turn j, DynamicTurnLimit j))"

subsection \<open>The dynamic limit is a function of the events seen\<close>

definition limit_of :: "turn_events \<Rightarrow> nat" where
  "limit_of s = 1000 + (if ev_unit_left_base s then 500 else 0)
     + (if ev_unit_entered_resource_zone s then 500 else 0)
     + (if ev_unit_upgraded_or_repaired_at_base s then 2000 else 0)
     + (if ev_unit_manufactured s then 2000 else 0) + (if ev_unit_destroyed s then 2000 else 0)
     + (if ev_base_entered_capture_condition s then 2000 else 0)"

definition merge_events :: "turn_events \<Rightarrow> turn_events \<Rightarrow> turn_events" where
  "merge_events s e =
     \<lparr>ev_unit_left_base = (ev_unit_left_base s \<or> ev_unit_left_base e),
      ev_unit_entered_resource_zone = (ev_unit_entered_resource_zone s \<or> ev_unit_entered_resource_zone e),
      ev_unit_upgraded_or_repaired_at_base =
        (ev_unit_upgraded_or_repaired_at_base s \<or> ev_unit_upgraded_or_repaired_at_base e),
      ev_unit_manufactured = (ev_unit_manufactured s \<or> ev_unit_manufactured e),
      ev_unit_destroyed = (ev_unit_destroyed s \<or> ev_unit_destroyed e),
      ev_base_entered_capture_condition =
        (ev_base_entered_capture_condition s \<or> ev_base_entered_capture_condition e)\<rparr>"

definition limit_ok :: "turn_limit \<Rightarrow> bool" where
  "limit_ok j \<longleftrightarrow> tl_max_turn j = word_of_nat (limit_of (tl_seen j))"

lemma limit_of_bounds: "1000 \<le> limit_of s" "limit_of s \<le> 10000"
  by (simp_all add: limit_of_def)

lemma limit_ok_unat: "limit_ok j \<Longrightarrow> unat (tl_max_turn j) = limit_of (tl_seen j)"
  using limit_of_bounds [of "tl_seen j"] by (simp add: limit_ok_def word_of_nat_unat_le)

lemma limit_of_no_events: "limit_of no_events = 1000"
  by (simp add: limit_of_def no_events_def)

lemma raise_limit_ok:
  assumes "limit_ok j" "\<And>s. \<not> event s \<Longrightarrow> limit_of (mark s) = limit_of s + n" "amount = word_of_nat n"
  shows "limit_ok (raise_limit event mark amount ev j)"
  using assms by (simp add: limit_ok_def raise_limit_def)

lemma raise_limit_seen:
  "tl_seen (raise_limit event mark amount ev j)
     = (if \<not> event (tl_seen j) \<and> event ev then mark (tl_seen j) else tl_seen j)"
  by (simp add: raise_limit_def)

lemma raise_limits_ok:
  assumes "limit_ok j"
  shows "limit_ok (raise_limits ev j)" "tl_seen (raise_limits ev j) = merge_events (tl_seen j) ev"
proof -
  show "limit_ok (raise_limits ev j)"
    unfolding raise_limits_def Let_def
    by (intro raise_limit_ok [where n = 500] raise_limit_ok [where n = 2000] assms)
      (simp_all add: limit_of_def)
  show "tl_seen (raise_limits ev j) = merge_events (tl_seen j) ev"
    by (cases "tl_seen j") (auto simp: raise_limits_def merge_events_def Let_def raise_limit_seen)
qed

text \<open>How the verdict of the dynamic judge depends on the events seen so far.\<close>

lemma dynamic_verdict:
  assumes "limit_ok j"
  obtains j' where "shouldDraw w (DynamicTurnLimit j)
      = (limit_of (merge_events (tl_seen j) (w_events w)) \<le> unat (w_tick w), DynamicTurnLimit j')"
    "limit_ok j'" "tl_seen j' = merge_events (tl_seen j) (w_events w)"
  using raise_limits_ok [OF assms, of "w_events w"] limit_ok_unat [of "raise_limits (w_events w) j"]
  by (intro that [of "raise_limits (w_events w) j"]) (simp_all add: Let_def word_le_nat_alt)

lemma dynamic_draws:
  assumes "limit_ok j" "10000 \<le> unat (w_tick w)"
  shows "fst (shouldDraw w (DynamicTurnLimit j))"
  using dynamic_verdict [OF assms(1), of w] limit_of_bounds(2) assms(2)
  by (metis fst_conv order.trans)

lemma created_limit_ok: "limit_ok \<lparr>tl_max_turn = 1000, tl_seen = no_events\<rparr>"
  by (simp add: limit_ok_def limit_of_no_events)

subsection \<open>Judges that end every match\<close>

text \<open>
  What a runner relies on: the judge keeps its own invariant and calls a draw from some turn on.
\<close>

locale bounded_judge =
  fixes verdict :: "world \<Rightarrow> 'j \<Rightarrow> bool \<times> 'j" and ok :: "'j \<Rightarrow> bool" and limit :: nat
  assumes keeps: "ok j \<Longrightarrow> ok (snd (verdict w j))"
    and draws: "ok j \<Longrightarrow> limit \<le> unat (w_tick w) \<Longrightarrow> fst (verdict w j)"
begin

fun verdicts :: "world list \<Rightarrow> 'j \<Rightarrow> bool list" where
  "verdicts [] j = []"
| "verdicts (w # ws) j = (case verdict w j of (draw, j) \<Rightarrow> draw # verdicts ws j)"

lemma draws_in_any_run:
  "ok j \<Longrightarrow> i < length ws \<Longrightarrow> limit \<le> unat (w_tick (ws ! i)) \<Longrightarrow> verdicts ws j ! i"
proof (induction ws j arbitrary: i rule: verdicts.induct)
  case (2 w ws j)
  then show ?case using keeps [of j w] draws [of j w]
    by (cases "verdict w j"; cases i) auto
qed simp

end

definition dynamic_ok :: "draw_judge \<Rightarrow> bool" where
  "dynamic_ok judge \<longleftrightarrow> (\<exists>j. judge = DynamicTurnLimit j \<and> limit_ok j)"

definition max_ticks_ok :: "nat \<Rightarrow> draw_judge \<Rightarrow> bool" where
  "max_ticks_ok n judge \<longleftrightarrow> (\<exists>k. judge = MaxTicks k \<and> k \<noteq> 0 \<and> unat k \<le> n)"

interpretation dynamic: bounded_judge shouldDraw dynamic_ok 10000
proof
  show "dynamic_ok (snd (shouldDraw w j))" if "dynamic_ok j" for j w
    using that dynamic_verdict [where w = w] by (force simp: dynamic_ok_def)
  show "fst (shouldDraw w j)" if "dynamic_ok j" "10000 \<le> unat (w_tick w)" for j w
    using that dynamic_draws by (auto simp: dynamic_ok_def)
qed

interpretation max_ticks: bounded_judge shouldDraw "max_ticks_ok n" n for n
  by unfold_locales (auto simp: max_ticks_ok_def word_le_nat_alt)

end
