(* ===== verification/World_Loader.thy ===== *)
theory World_Loader
  imports Cli_Options World_Start Map_Generate Draw_Judge
begin

text \<open>
  From the options to a world (\<open>src/cli/world_loader.cpp\<close>): the map is loaded or generated, the rules take
  its sizes, the four programs are read. What the process finds outside itself is a \<open>platform\<close>: the
  content of the files that can be opened, the entropy of \<open>Seed::deviceRandom\<close>, the seed of the global
  generator, and the library's shuffle and distributions.
\<close>

datatype cli_error =
    ElfOpenFailed string
  | InvalidElf string
  | TilemapOpenFailed string
  | TilemapRejected map_error
  | ReplayOpenFailed string
  | StdoutIsTTY
  | InvalidCompressionLevel int int int
  | CompressorNotCreated
  | CompressorNotInitialised nat
  | CompressionFailed nat
  | WriteFailed
  | FlushFailed

record platform =
  pf_ndebug :: bool
  pf_file :: "string \<Rightarrow> byte list option"
  pf_device :: seed
  pf_global :: seed
  pf_shuffle :: shuffler
  pf_coord :: real_dist
  pf_uniform :: uniform

definition loadBinary :: "platform \<Rightarrow> string \<Rightarrow> cli_error + byte list" where
  "loadBinary pf path = (case pf_file pf path of
       None \<Rightarrow> Inl (ElfOpenFailed path)
     | Some content \<Rightarrow>
         if length content < 4 \<or> content ! 0 \<noteq> 0x7F \<or> content ! 1 \<noteq> 0x45 \<or> content ! 2 \<noteq> 0x4C \<or> content ! 3 \<noteq> 0x46
         then Inl (InvalidElf path) else Inr content)"

definition loadTilemap :: "platform \<Rightarrow> string \<Rightarrow> (cli_error + tilemap) option" where
  "loadTilemap pf path = (case pf_file pf path of
       None \<Rightarrow> Some (Inl (TilemapOpenFailed path))
     | Some content \<Rightarrow> map_option (map_sum TilemapRejected id) (tilemap_load (pf_ndebug pf) (istream_of content)))"

text \<open>The sizes are narrowed to \<open>pos_t\<close>.\<close>

definition generation_config :: "platform \<Rightarrow> program_options \<Rightarrow> map_config" where
  "generation_config pf options =
     (default_config (case po_seed options of Some sd \<Rightarrow> sd | None \<Rightarrow> pf_device pf))
       \<lparr>cfg_width := pos_of_int (po_width options), cfg_height := pos_of_int (po_height options),
        cfg_base_size := pos_of_int (po_base_size options), cfg_num_resources := po_resources options\<rparr>"

definition generateTilemap :: "platform \<Rightarrow> program_options \<Rightarrow> (cli_error + tilemap) option" where
  "generateTilemap pf options =
     map_option (map_sum TilemapRejected id)
       (tilemap_generate (pf_shuffle pf) (pf_coord pf) (pf_uniform pf) (generation_config pf options))"

definition load_program :: "platform \<Rightarrow> u8 \<Rightarrow> string \<Rightarrow> string \<Rightarrow> world \<Rightarrow> (cli_error + world) option" where
  "load_program pf player_id base_path unit_path w = (case loadBinary pf base_path of
       Inl e \<Rightarrow> Some (Inl e)
     | Inr base_elf \<Rightarrow> (case loadBinary pf unit_path of
         Inl e \<Rightarrow> Some (Inl e)
       | Inr unit_elf \<Rightarrow> map_option Inr (setPlayerProgram player_id base_elf unit_elf w)))"

text \<open>
  The order in which C++ evaluates the two arguments that load a program is left open; it decides only
  which of two errors is thrown.
\<close>

definition createWorldFromOptions :: "platform \<Rightarrow> program_options \<Rightarrow> (cli_error + world) option" where
  "createWorldFromOptions pf options = do {
     r \<leftarrow> (if po_map_file options = '''' then generateTilemap pf options else loadTilemap pf (po_map_file options));
     (case r of
        Inl e \<Rightarrow> Some (Inl e)
      | Inr m \<Rightarrow> do {
          let rules = (po_rules options)\<lparr>gr_width := word_of_int (tm_width m),
            gr_height := word_of_int (tm_height m), gr_base_size := word_of_int (tm_base_size m)\<rparr>;
          w \<leftarrow> new_world (pf_uniform pf) m rules (pf_global pf);
          r \<leftarrow> load_program pf 1 (po_p1_base options) (po_p1_unit options) w;
          (case r of
             Inl e \<Rightarrow> Some (Inl e)
           | Inr w \<Rightarrow> load_program pf 2 (po_p2_base options) (po_p2_unit options) w)
        })
   }"

definition createRuleDrawJudgeFromOptions :: "program_options \<Rightarrow> draw_judge" where
  "createRuleDrawJudgeFromOptions options =
     (if po_dynamic_draw options then createDynamicTurnLimitRuleDrawJudge
      else if po_max_ticks options > 0 then createMaxTicksRuleDrawJudge (po_max_ticks options)
      else createNoopRuleDrawJudge)"

subsection \<open>The world it builds\<close>

lemma load_program_ok:
  assumes "match_ok (new_match w ent :: 'm match)" "load_program pf i b u w = Some (Inr w')"
  shows "match_ok (new_match w' ent :: 'm match) \<and> map_size w' = map_size w \<and> w_map w' = w_map w
    \<and> w_reason w' = w_reason w \<and> w_tick w' = w_tick w"
proof -
  obtain s be ue where w': "w' = upd_player s (\<lambda>p. p\<lparr>p_base_elf := be, p_unit_elf := ue\<rparr>) w"
    using assms(2) by (auto simp: load_program_def setPlayerProgram_def bind_eq_Some_conv split: sum.splits)
  have I: "turn_inv w" "io_ok w" "gameOver w \<or> capture_inv w"
    using assms(1) by (simp_all add: match_ok_def running_ok_def new_match_def)
  note C = player_change_ok [OF I(1,2), of "\<lambda>p. p\<lparr>p_base_elf := be, p_unit_elf := ue\<rparr>" s, simplified]
  have "gameOver w' \<or> capture_inv w'"
    using I(3) static_facts(1) [of w' w] C(3)
    by (auto simp: w' gameOver_def capture_inv_def action_frame_def)
  then show ?thesis
    using C(1,2) assms(1)
    by (auto simp: w' match_ok_def running_ok_def quotas_ok_def new_match_def map_size_def upd_player_def
        fresh_node_def fresh_ctx_def MAX_LOG_QUOTA_def)
qed

text \<open>A program file that is read: it exists and starts with the mark of an ELF file.\<close>

definition elf_file :: "platform \<Rightarrow> string \<Rightarrow> bool" where
  "elf_file pf path \<longleftrightarrow> (\<exists>rest. pf_file pf path = Some ([0x7F, 0x45, 0x4C, 0x46] @ rest))"

lemma loadBinary_elf: "elf_file pf path \<longleftrightarrow> (\<exists>content. loadBinary pf path = Inr content)"
proof
  assume "\<exists>content. loadBinary pf path = Inr content"
  then obtain content where c: "pf_file pf path = Some content" "length content \<ge> 4"
    "content ! 0 = 0x7F" "content ! 1 = 0x45" "content ! 2 = 0x4C" "content ! 3 = 0x46"
    by (auto simp: loadBinary_def split: option.splits if_splits)
  then have "content = [0x7F, 0x45, 0x4C, 0x46] @ drop 4 content"
    by (intro nth_equalityI) (auto simp: nth_append nth_Cons numeral_eq_Suc less_Suc_eq split: nat.splits)
  then show "elf_file pf path" using c(1) by (auto simp: elf_file_def)
qed (auto simp: elf_file_def loadBinary_def)

text \<open>A constructor that returns has found a base of each player, of at least one tile.\<close>

lemma new_world_needs:
  assumes "new_world uniform_int m rules rng = Some w"
  shows "0 < tm_base_size m \<and> 0 < tm_width m \<and> 0 < tm_height m \<and> (\<forall>s. \<exists>q. base_at m s q)"
proof -
  obtain found where f: "foldM (find_base m) (scan_positions m) (\<lambda>_. None) = Some found"
    "found P1 \<noteq> None" "found P2 \<noteq> None"
    and sp: "foldM (\<lambda>(s, i). spawnUnitAtBase uniform_int s i) first_units (initial_world m rules found rng) = Some w"
    using assms by (auto simp: new_world_steps bind_eq_Some_conv split: if_splits)
  have found: "found s = List.find (base_at m s) (scan_positions m)" for s using find_base_fold [OF f(1), of s] by simp
  have at: "\<exists>q\<in>set (scan_positions m). base_at m s q" for s
    using f(2,3) found [of s] find_None_iff2 [of "base_at m s" "scan_positions m"] by (cases s) auto
  then obtain q where "q \<in> set (scan_positions m)" by blast
  then have "tm_inb m q" by (rule scan_positions_inb)
  then have "0 < tm_width m" "0 < tm_height m" by (auto simp: tm_inb_def)
  moreover have "0 < tm_base_size m"
  proof (rule ccontr)
    assume "\<not> 0 < tm_base_size m"
    then have "base_tiles (initial_world m rules found rng) P1 = []"
      by (simp add: base_tiles_def initial_world_def)
    then show False using sp by (simp add: first_units_def spawnUnitAtBase_def)
  qed
  ultimately show ?thesis using at by blast
qed

lemma start_of_map:
  assumes "uniform_ok uniform_int" "new_world uniform_int m rules rng = Some w"
    "0 < tm_width m \<Longrightarrow> 0 < tm_height m \<Longrightarrow> map_sound m"
  shows "match_ok (new_match w ent :: 'm match) \<and> w_reason w = Ongoing \<and> w_tick w = 0
    \<and> (tm_width (w_map w) \<le> 255 \<longrightarrow> tm_height (w_map w) \<le> 255 \<longrightarrow> map_bits_ok (w_map w)) \<and> map_size w = (tm_width m, tm_height m)"
proof -
  note N = new_world_needs [OF assms(2)]
  have m: "map_ok m" "map_sound m" using N assms(3) by (auto intro: sound_map_ok)
  note W = new_world_ok [OF m(1) assms(1,2)]
  have wf: "tilemap_wf (w_map w)" "tilemap_wf m"
    using W winv_tilemap_wf turn_invD(1) m(1) by (auto simp: map_ok_def)
  have legal: "\<forall>p t. tileOf m p = Some t \<longrightarrow> tile_legal t"
    using m(2) list_all_tileOf [OF wf(2)] by (simp add: map_sound_def)
  have bits: "t_terrain t < 4 \<and> t_side t < 4" if "tileOf (w_map w) p = Some t" for p t
  proof -
    have g: "ground w p = Some (t\<lparr>t_occupant := NOT_OCCUPIED\<rparr>)" using that by (simp add: ground_def world_tile_def)
    then obtain t' where t': "tileOf m p = Some t'" "t'\<lparr>t_occupant := NOT_OCCUPIED\<rparr> = t\<lparr>t_occupant := NOT_OCCUPIED\<rparr>"
      using W by (cases "tileOf m p") auto
    then have "t_terrain t = t_terrain t'" "t_side t = t_side t'"
      by (metis tile.select_convs(1) tile.update_convs(5) tile.surjective, metis tile.select_convs(2) tile.update_convs(5) tile.surjective)
    moreover have "tile_legal t'" using legal t'(1) by blast
    ultimately show ?thesis by (auto simp: tile_legal_def EMPTY_def WATER_def OBSTACLE_def intro: order.strict_trans1)
  qed
  then have "list_all (\<lambda>t. t_terrain t < 4 \<and> t_side t < 4) (tm_tiles (w_map w))"
    unfolding list_all_tileOf [OF wf(1)] by blast
  then show ?thesis using W new_match_ok [OF m(1) assms(1,2)] by (simp add: map_bits_ok_def)
qed

lemma new_world_dimensions: "new_world uniform_int m (set_dimensions m rules) rng = new_world uniform_int m rules rng"
  by (simp add: new_world_def set_dimensions_def)

text \<open>The maps of both sources are sound.\<close>

lemma loaded_map_sound:
  assumes "tilemap_load ndebug (istream_of bs) = Some (Inr m)" "0 < tm_width m" "0 < tm_height m"
  shows "map_sound m"
proof (cases bs)
  case Nil
  then show ?thesis using assms(1)
    by (simp add: tilemap_load_def istream_good_def istream_of_def tilemap_loadBinary_def)
next
  case (Cons b rest)
  then have "tilemap_loadBinary ndebug (istream_of bs) = Some (Inr m) \<or> tilemap_loadText (istream_of bs) = Some (Inr m)"
    using assms(1) by (auto simp: tilemap_load_def istream_of_def istream_good_def split: if_splits)
  then show ?thesis using loadBinary_sound map_legal_sound loadText_sound assms(2,3) by blast
qed

lemma default_noise_ok: "noise_params_ok (15 / 100) 3 (4 / 10)"
  by (simp add: noise_params_ok_def eval_nat_numeral)

lemma generation_config_ok:
  assumes "16 \<le> pos_of_int (po_width p)" "pos_of_int (po_width p) \<le> 255" "16 \<le> pos_of_int (po_height p)" "pos_of_int (po_height p) \<le> 255"
    "2 \<le> pos_of_int (po_base_size p)" "pos_of_int (po_base_size p) \<le> 8"
    "INT_MIN \<le> po_resources p * 10" "po_resources p * 10 \<le> INT_MAX"
  shows "config_ok (generation_config pf p)"
  using assms default_noise_ok by (simp add: config_ok_def generation_config_def default_config_def)

lemma pos_of_int_same: "0 \<le> n \<Longrightarrow> n \<le> 255 \<Longrightarrow> pos_of_int n = n"
  by (rule pos_of_int_id) simp_all

text \<open>What \<open>generate\<close> returns is sound, whichever way its configuration came about.\<close>

lemma generated_sound:
  assumes "shuffle_ok shuffle" "coord_ok draw" "uniform_ok uniform_int"
    and np: "noise_params_ok (cfg_noise_scale c) (cfg_noise_octaves c) (cfg_noise_persistence c)"
    and g: "tilemap_generate shuffle draw uniform_int c = Some (Inr m)"
  shows "map_sound m \<and> tm_width m = cfg_width c \<and> tm_height m = cfg_height c"
proof -
  have size: "16 \<le> cfg_width c" "cfg_width c \<le> 255" "16 \<le> cfg_height c" "cfg_height c \<le> 255"
    "2 \<le> cfg_base_size c" "cfg_base_size c \<le> 8"
    using g by (auto simp: tilemap_generate_def Let_def split: if_splits)
  have "\<exists>rng m1. place_resources uniform_int c rng m1 = Some m"
    using g size by (auto simp: tilemap_generate_def Let_def bind_eq_Some_conv)
  then have "INT_MIN \<le> cfg_num_resources c * 10" "cfg_num_resources c * 10 \<le> INT_MAX"
    by (auto simp: place_resources_def Let_def split: if_splits)
  then have c: "config_ok c" using size np by (simp add: config_ok_def)
  show ?thesis using generate_total [OF assms(1-3) c] generated_map_sound(1) [OF c] g by (auto simp: sized_def)
qed

definition platform_ok :: "platform \<Rightarrow> bool" where
  "platform_ok pf \<longleftrightarrow> shuffle_ok (pf_shuffle pf) \<and> coord_ok (pf_coord pf) \<and> uniform_ok (pf_uniform pf)"

text \<open>
  Whatever the options say and whatever the files hold: a world that is built can be played.
\<close>

lemma createWorld_legal:
  assumes P: "platform_ok pf" and c: "createWorldFromOptions pf p = Some (Inr w)"
  shows "match_ok (new_match w ent :: 'm match) \<and> w_reason w = Ongoing \<and> w_tick w = 0
    \<and> (tm_width (w_map w) \<le> 255 \<longrightarrow> tm_height (w_map w) \<le> 255 \<longrightarrow> map_bits_ok (w_map w))
    \<and> (po_map_file p = [] \<longrightarrow> map_size w = (pos_of_int (po_width p), pos_of_int (po_height p)))"
proof -
  have U: "shuffle_ok (pf_shuffle pf)" "coord_ok (pf_coord pf)" "uniform_ok (pf_uniform pf)"
    using P by (simp_all add: platform_ok_def)
  obtain r where r: "(if po_map_file p = '''' then generateTilemap pf p else loadTilemap pf (po_map_file p)) = Some r"
    using c by (auto simp: createWorldFromOptions_def bind_eq_Some_conv)
  then obtain m where m: "r = Inr m" using c by (cases r) (auto simp: createWorldFromOptions_def)
  define rules where "rules = (po_rules p)\<lparr>gr_width := word_of_int (tm_width m),
    gr_height := word_of_int (tm_height m), gr_base_size := word_of_int (tm_base_size m)\<rparr>"
  obtain w0 r1 where w0: "new_world (pf_uniform pf) m rules (pf_global pf) = Some w0"
    "load_program pf 1 (po_p1_base p) (po_p1_unit p) w0 = Some r1"
    using c r m by (auto simp: createWorldFromOptions_def Let_def bind_eq_Some_conv rules_def)
  then obtain w1 where w1: "r1 = Inr w1" "load_program pf 2 (po_p2_base p) (po_p2_unit p) w1 = Some (Inr w)"
    using c r m by (cases r1) (auto simp: createWorldFromOptions_def Let_def rules_def)
  have gen: "map_sound m \<and> tm_width m = pos_of_int (po_width p) \<and> tm_height m = pos_of_int (po_height p)"
    if no_file: "po_map_file p = []"
  proof -
    obtain r' where "tilemap_generate (pf_shuffle pf) (pf_coord pf) (pf_uniform pf) (generation_config pf p) = Some r'"
      "map_sum TilemapRejected id r' = Inr m"
      using r m no_file by (auto simp: generateTilemap_def)
    then have "tilemap_generate (pf_shuffle pf) (pf_coord pf) (pf_uniform pf) (generation_config pf p) = Some (Inr m)"
      by (cases r') auto
    then show ?thesis
      using generated_sound [OF U, of "generation_config pf p" m] default_noise_ok
      by (simp add: generation_config_def default_config_def)
  qed
  have sound: "map_sound m" if "0 < tm_width m" "0 < tm_height m"
  proof (cases "po_map_file p = []")
    case False
    then obtain bs r' where "tilemap_load (pf_ndebug pf) (istream_of bs) = Some r'" "map_sum TilemapRejected id r' = Inr m"
      using r m by (auto simp: loadTilemap_def split: option.splits)
    then show ?thesis using loaded_map_sound that by (cases r') auto
  qed (use gen in simp)
  have S: "match_ok (new_match w0 ent :: 'm match)" "w_reason w0 = Ongoing" "w_tick w0 = 0"
    "tm_width (w_map w0) \<le> 255 \<longrightarrow> tm_height (w_map w0) \<le> 255 \<longrightarrow> map_bits_ok (w_map w0)"
    "map_size w0 = (tm_width m, tm_height m)"
    using start_of_map [OF U(3) w0(1) sound] by blast+
  note L1 = load_program_ok [OF S(1) w0(2) [unfolded w1(1)]]
  show ?thesis using load_program_ok [OF conjunct1 [OF L1] w1(2)] L1 S(2-5) gen by simp
qed


text \<open>
  With options that the parser has accepted, sizes that the generator accepts, and the four programs in place,
  there is a world of the requested size.
\<close>

lemma createWorld_total:
  assumes P: "platform_ok pf" and p: "options_ok mode p"
    and size: "16 \<le> po_width p" "16 \<le> po_height p" "po_map_file p = []"
      "INT_MIN \<le> po_resources p * 10" "po_resources p * 10 \<le> INT_MAX"
    and elf: "\<forall>path\<in>{po_p1_base p, po_p1_unit p, po_p2_base p, po_p2_unit p}. elf_file pf path"
  shows "\<exists>w. createWorldFromOptions pf p = Some (Inr w) \<and> map_size w = (po_width p, po_height p)"
proof -
  have U: "shuffle_ok (pf_shuffle pf)" "coord_ok (pf_coord pf)" "uniform_ok (pf_uniform pf)"
    using P by (simp_all add: platform_ok_def)
  let ?c = "generation_config pf p"
  have dims: "po_width p \<le> 255" "po_height p \<le> 255" "2 \<le> po_base_size p" "po_base_size p \<le> 8"
    using p by (simp_all add: options_ok_def)
  have same: "pos_of_int (po_width p) = po_width p" "pos_of_int (po_height p) = po_height p"
    "pos_of_int (po_base_size p) = po_base_size p"
    using size dims by (simp_all add: pos_of_int_same)
  have c: "config_ok ?c" using size dims by (intro generation_config_ok) (simp_all add: same)
  obtain m where m: "tilemap_generate (pf_shuffle pf) (pf_coord pf) (pf_uniform pf) ?c = Some (Inr m)"
    "tiles_satisfy (generated_tile ?c) m" "sized ?c m" "tm_base_size m = cfg_base_size ?c"
    using generate_total [OF U c] by blast
  have dm: "tm_width m = po_width p" "tm_height m = po_height p" "tm_base_size m = po_base_size p"
    using m(3,4) same by (simp_all add: sized_def generation_config_def)
  note sound = generated_map_sound [OF c m(2-4)]
  have rules: "rules_validate (set_dimensions m (po_rules p))"
  proof -
    have "(4 :: u8) \<le> word_of_int (tm_width m)" "(4 :: u8) \<le> word_of_int (tm_height m)"
      "(2 :: u8) \<le> word_of_int (tm_base_size m)" "word_of_int (tm_base_size m) \<le> (8 :: u8)"
      using dims size by (simp_all add: dm word_le_def narrowed_8)
    then show ?thesis using p by (simp add: set_dimensions_def options_ok_def)
  qed
  obtain w where w: "new_world (pf_uniform pf) m (po_rules p) (pf_global pf) = Some w"
    using new_world_total [OF sound(1) sound(2) rules _ U(3)] dims by (auto simp: dm)
  have "map_size w = (po_width p, po_height p)"
    using new_world_ok [OF sound_map_ok [OF sound(1) _ sound(2)] U(3) w] dims by (simp add: dm)
  then show ?thesis
    using elf m(1) size(3) w
    by (auto simp: createWorldFromOptions_def generateTilemap_def loadBinary_elf load_program_def
        setPlayerProgram_def side_of_def map_size_def upd_player_def Let_def set_dimensions_def [symmetric] new_world_dimensions)
qed

end
