(* ===== verification/Replay_Writer.thy ===== *)
theory Replay_Writer
  imports World_Loader
begin

text \<open>
  The writers of replay files (\<open>ReplayChunkWriter\<close> and its two classes in \<open>src/cli/replay_writer.cpp\<close>) over
  a \<open>std::ostream\<close>. The zstd library is third-party code: it is the parameter \<open>zstd_ops\<close>, and the locale
  \<open>zstd_stream\<close> states what its manual promises. The locale \<open>chunk_writer\<close> is the contract of the virtual
  class: what was accepted can be recovered from what was stored. A writer that throws is \<open>Inl\<close> of the
  error, with the state it leaves behind.
\<close>

subsection \<open>The output stream\<close>

text \<open>
  The bytes that have reached the stream, how many more the device takes (\<open>None\<close>: any number), whether
  the stream is bad, and whether a flush succeeds.
\<close>

record ostream =
  os_data :: "byte list"
  os_room :: "nat option"
  os_bad :: bool
  os_flushes :: bool

definition ostream_new :: "nat option \<Rightarrow> bool \<Rightarrow> ostream" where
  "ostream_new room flushes = \<lparr>os_data = [], os_room = room, os_bad = False, os_flushes = flushes\<rparr>"

definition os_write :: "byte list \<Rightarrow> ostream \<Rightarrow> ostream" where
  "os_write bs s =
     (if os_bad s then s
      else (case os_room s of
          None \<Rightarrow> s\<lparr>os_data := os_data s @ bs\<rparr>
        | Some n \<Rightarrow>
            if length bs \<le> n then s\<lparr>os_data := os_data s @ bs, os_room := Some (n - length bs)\<rparr>
            else s\<lparr>os_data := os_data s @ take n bs, os_room := Some 0, os_bad := True\<rparr>))"

definition os_flush :: "ostream \<Rightarrow> ostream" where
  "os_flush s = (if os_bad s \<or> os_flushes s then s else s\<lparr>os_bad := True\<rparr>)"

definition writeBytesToStream :: "byte list \<Rightarrow> ostream \<Rightarrow> (cli_error + unit) \<times> ostream" where
  "writeBytesToStream bs s =
     (if bs = [] then (Inr (), s)
      else let s = os_write bs s in (if os_bad s then Inl WriteFailed else Inr (), s))"

subsection \<open>The interface\<close>

text \<open>\<open>None\<close> is a call that does not return. \<open>wr_close\<close> is the destructor.\<close>

record 's writer_ops =
  wr_chunk :: "byte list \<Rightarrow> 's \<Rightarrow> ((cli_error + unit) \<times> 's) option"
  wr_finish :: "'s \<Rightarrow> ((cli_error + unit) \<times> 's) option"
  wr_close :: "'s \<Rightarrow> 's option"

locale chunk_writer =
  fixes ops :: "'s writer_ops" and ready :: "'s \<Rightarrow> bool" and accepted :: "'s \<Rightarrow> byte list"
    and stored :: "'s \<Rightarrow> byte list" and unpack :: "byte list \<Rightarrow> byte list option"
  assumes chunk: "ready s \<Longrightarrow> \<exists>r s'. wr_chunk ops bs s = Some (r, s')
      \<and> (r = Inr () \<longrightarrow> ready s' \<and> accepted s' = accepted s @ bs)"
    and finish: "ready s \<Longrightarrow> \<exists>r s'. wr_finish ops s = Some (r, s')
      \<and> (r = Inr () \<longrightarrow> (\<exists>s''. wr_close ops s' = Some s'' \<and> unpack (stored s'') = Some (accepted s)))"

text \<open>What a client may rely on: chunks written without an error, one after the other, and finished.\<close>

fun write_chunks :: "'s writer_ops \<Rightarrow> byte list list \<Rightarrow> 's \<Rightarrow> ((cli_error + unit) \<times> 's) option" where
  "write_chunks ops [] s = do {
     (r, s) \<leftarrow> wr_finish ops s;
     (case r of Inl e \<Rightarrow> Some (Inl e, s) | Inr _ \<Rightarrow> map_option (\<lambda>s. (Inr (), s)) (wr_close ops s))
   }"
| "write_chunks ops (c # cs) s = do {
     (r, s) \<leftarrow> wr_chunk ops c s;
     (case r of Inl e \<Rightarrow> Some (Inl e, s) | Inr _ \<Rightarrow> write_chunks ops cs s)
   }"

context chunk_writer begin

lemma write_chunks_recovers:
  "ready s \<Longrightarrow> \<exists>r s'. write_chunks ops cs s = Some (r, s')
     \<and> (r = Inr () \<longrightarrow> unpack (stored s') = Some (accepted s @ concat cs))"
proof (induction cs arbitrary: s)
  case Nil
  obtain r s' where f: "wr_finish ops s = Some (r, s')"
    "r = Inr () \<longrightarrow> (\<exists>s''. wr_close ops s' = Some s'' \<and> unpack (stored s'') = Some (accepted s))"
    using finish [OF Nil] by blast
  then show ?case by (cases r) auto
next
  case (Cons c cs)
  obtain r s' where c: "wr_chunk ops c s = Some (r, s')" "r = Inr () \<longrightarrow> ready s' \<and> accepted s' = accepted s @ c"
    using chunk [OF Cons.prems] by blast
  then show ?case using Cons.IH [of s'] by (cases r) auto
qed

end

subsection \<open>The raw writer\<close>

definition raw_finish :: "ostream \<Rightarrow> ((cli_error + unit) \<times> ostream) option" where
  "raw_finish s = (let s = os_flush s in Some (if os_bad s then Inl FlushFailed else Inr (), s))"

definition raw_writer :: "ostream writer_ops" where
  "raw_writer =
     \<lparr>wr_chunk = (\<lambda>bs s. if bs = [] then Some (Inr (), s) else Some (writeBytesToStream bs s)),
      wr_finish = raw_finish,
      wr_close = (\<lambda>s. map_option snd (raw_finish s))\<rparr>"

lemma writeBytesToStream_ok:
  "writeBytesToStream bs s = (Inr (), s') \<Longrightarrow> os_data s' = os_data s @ bs"
  by (auto simp: writeBytesToStream_def os_write_def Let_def split: if_splits option.splits)

interpretation raw: chunk_writer raw_writer "\<lambda>_. True" os_data os_data Some
  by unfold_locales
    (auto simp: raw_writer_def raw_finish_def Let_def os_flush_def dest: writeBytesToStream_ok
      intro: prod.exhaust)

subsection \<open>The zstd writer\<close>

datatype zstd_directive = ZSTD_e_continue | ZSTD_e_end

text \<open>
  One call of \<open>ZSTD_compressStream2\<close> is given the directive, the input from \<open>pos\<close> on and the size of the
  output buffer. It answers with its result (an error code, or a hint, which is the number of bytes still to
  be flushed when the directive is \<open>ZSTD_e_end\<close>), how much of the input it has taken, and the output.
\<close>

record 'c zstd_ops =
  zs_minCLevel :: int
  zs_maxCLevel :: int
  zs_CStreamOutSize :: nat
  zs_createCStream :: "'c option"
  zs_initCStream :: "int \<Rightarrow> 'c \<Rightarrow> nat \<times> 'c"
  zs_isError :: "nat \<Rightarrow> bool"
  zs_compressStream2 :: "zstd_directive \<Rightarrow> byte list \<Rightarrow> nat \<Rightarrow> 'c \<Rightarrow> nat \<times> nat \<times> byte list \<times> 'c"

record 'c zstd_state =
  zw_stream :: ostream
  zw_context :: 'c
  zw_finished :: bool

definition validateZstdCompressionLevel :: "'c zstd_ops \<Rightarrow> int \<Rightarrow> cli_error option" where
  "validateZstdCompressionLevel z level =
     (if level < zs_minCLevel z \<or> level > zs_maxCLevel z
      then Some (InvalidCompressionLevel level (zs_minCLevel z) (zs_maxCLevel z)) else None)"

definition zstd_writer_new :: "'c zstd_ops \<Rightarrow> int \<Rightarrow> ostream \<Rightarrow> cli_error + 'c zstd_state" where
  "zstd_writer_new z level stream = (case validateZstdCompressionLevel z level of
       Some e \<Rightarrow> Inl e
     | None \<Rightarrow> (case zs_createCStream z of
         None \<Rightarrow> Inl CompressorNotCreated
       | Some c \<Rightarrow> (case zs_initCStream z level c of (result, c) \<Rightarrow>
           if zs_isError z result then Inl (CompressorNotInitialised result)
           else Inr \<lparr>zw_stream = stream, zw_context = c, zw_finished = False\<rparr>)))"

partial_function (option) zstd_write_loop ::
    "'c zstd_ops \<Rightarrow> byte list \<Rightarrow> 'c zstd_state \<Rightarrow> ((cli_error + unit) \<times> 'c zstd_state) option" where
  "zstd_write_loop z input s =
     (if input = [] then Some (Inr (), s)
      else (case zs_compressStream2 z ZSTD_e_continue input (zs_CStreamOutSize z) (zw_context s) of
        (result, taken, out, c) \<Rightarrow>
          let s = s\<lparr>zw_context := c\<rparr> in
          if zs_isError z result then Some (Inl (CompressionFailed result), s)
          else (case writeBytesToStream out (zw_stream s) of (w, stream) \<Rightarrow>
            let s = s\<lparr>zw_stream := stream\<rparr> in
            (case w of Inl e \<Rightarrow> Some (Inl e, s) | Inr _ \<Rightarrow> zstd_write_loop z (drop taken input) s))))"

partial_function (option) zstd_end_loop ::
    "'c zstd_ops \<Rightarrow> 'c zstd_state \<Rightarrow> ((cli_error + unit) \<times> 'c zstd_state) option" where
  "zstd_end_loop z s =
     (case zs_compressStream2 z ZSTD_e_end [] (zs_CStreamOutSize z) (zw_context s) of
        (remaining, taken, out, c) \<Rightarrow>
          let s = s\<lparr>zw_context := c\<rparr> in
          if zs_isError z remaining then Some (Inl (CompressionFailed remaining), s)
          else (case writeBytesToStream out (zw_stream s) of (w, stream) \<Rightarrow>
            let s = s\<lparr>zw_stream := stream\<rparr> in
            (case w of
               Inl e \<Rightarrow> Some (Inl e, s)
             | Inr _ \<Rightarrow> if remaining \<noteq> 0 then zstd_end_loop z s else Some (Inr (), s))))"

definition zstd_finish :: "'c zstd_ops \<Rightarrow> 'c zstd_state \<Rightarrow> ((cli_error + unit) \<times> 'c zstd_state) option" where
  "zstd_finish z s =
     (if zw_finished s then Some (Inr (), s)
      else do {
        (r, s) \<leftarrow> zstd_end_loop z s;
        (case r of
           Inl e \<Rightarrow> Some (Inl e, s)
         | Inr _ \<Rightarrow>
             let stream = os_flush (zw_stream s); s = s\<lparr>zw_stream := stream\<rparr> in
             Some (if os_bad stream then (Inl FlushFailed, s) else (Inr (), s\<lparr>zw_finished := True\<rparr>)))
      })"

definition zstd_writer :: "'c zstd_ops \<Rightarrow> 'c zstd_state writer_ops" where
  "zstd_writer z =
     \<lparr>wr_chunk = (\<lambda>bs s. if bs = [] then Some (Inr (), s) else zstd_write_loop z bs s),
      wr_finish = zstd_finish z,
      wr_close = (\<lambda>s. if zw_finished s then Some s else map_option snd (zstd_finish z s))\<rparr>"

subsection \<open>What the library promises\<close>

text \<open>
  Progress: a call that may not consume any input still empties its internal buffer. A call with
  \<open>ZSTD_e_end\<close> that returns 0 has completed the frame: the output since the initialisation decompresses to
  the input since then. \<open>taken_of\<close> and \<open>given_of\<close> are that input and output, \<open>pending\<close> the number of
  bytes in the internal buffer.
\<close>

locale zstd_stream =
  fixes z :: "'c zstd_ops" and valid :: "'c \<Rightarrow> bool" and taken_of given_of :: "'c \<Rightarrow> byte list"
    and pending :: "'c \<Rightarrow> nat" and decompress :: "byte list \<Rightarrow> byte list option"
  assumes init: "zs_createCStream z = Some c \<Longrightarrow> zs_initCStream z level c = (r, c') \<Longrightarrow> \<not> zs_isError z r
      \<Longrightarrow> valid c' \<and> taken_of c' = [] \<and> given_of c' = []"
    and stepped: "valid c \<Longrightarrow> zs_compressStream2 z d input (zs_CStreamOutSize z) c = (r, k, out, c') \<Longrightarrow>
      \<not> zs_isError z r \<Longrightarrow> valid c' \<and> k \<le> length input
        \<and> taken_of c' = taken_of c @ take k input \<and> given_of c' = given_of c @ out"
    and progress: "valid c \<Longrightarrow> zs_compressStream2 z ZSTD_e_continue input (zs_CStreamOutSize z) c = (r, k, out, c') \<Longrightarrow>
      \<not> zs_isError z r \<Longrightarrow> input \<noteq> [] \<Longrightarrow> 0 < k \<or> pending c' < pending c"
    and flushing: "valid c \<Longrightarrow> zs_compressStream2 z ZSTD_e_end [] (zs_CStreamOutSize z) c = (r, k, out, c') \<Longrightarrow>
      \<not> zs_isError z r \<Longrightarrow> r \<noteq> 0 \<Longrightarrow> pending c' < pending c"
    and complete: "valid c \<Longrightarrow> zs_compressStream2 z ZSTD_e_end [] (zs_CStreamOutSize z) c = (0, k, out, c') \<Longrightarrow>
      \<not> zs_isError z 0 \<Longrightarrow> decompress (given_of c') = Some (taken_of c')"
begin

text \<open>Between calls: everything the compressor gave is in the stream.\<close>

definition in_step :: "'c zstd_state \<Rightarrow> bool" where
  "in_step s \<longleftrightarrow> os_data (zw_stream s) = given_of (zw_context s) \<and> \<not> zw_finished s \<and> valid (zw_context s)"

lemma in_stepD: "in_step s \<Longrightarrow> valid (zw_context s)"
  by (simp add: in_step_def)

lemma in_step_write:
  assumes "in_step s" "given_of c' = given_of (zw_context s) @ out" "valid c'"
    "writeBytesToStream out (zw_stream s) = (Inr (), stream)"
  shows "in_step (s\<lparr>zw_context := c', zw_stream := stream\<rparr>)"
  using assms writeBytesToStream_ok [OF assms(4)] by (simp add: in_step_def)

lemma write_loop_ok:
  assumes "in_step s"
  shows "\<exists>r s'. zstd_write_loop z input s = Some (r, s')
    \<and> (r = Inr () \<longrightarrow> in_step s' \<and> taken_of (zw_context s') = taken_of (zw_context s) @ input)"
  using assms
proof (induction "(length input, pending (zw_context s))" arbitrary: input s
    rule: wf_induct_rule [OF wf_lex_prod [OF wf_less_than wf_less_than]])
  case 1
  show ?case
  proof (cases "input = []")
    case True
    then show ?thesis using 1 by (subst zstd_write_loop.simps) simp
  next
    case False
    obtain result k out c' where call: "zs_compressStream2 z ZSTD_e_continue input (zs_CStreamOutSize z) (zw_context s) = (result, k, out, c')"
      by (cases "zs_compressStream2 z ZSTD_e_continue input (zs_CStreamOutSize z) (zw_context s)")
    obtain w stream where wr: "writeBytesToStream out (zw_stream s) = (w, stream)"
      by (cases "writeBytesToStream out (zw_stream s)")
    show ?thesis
    proof (cases "zs_isError z result \<or> (\<exists>e. w = Inl e)")
      case True
      then show ?thesis using False call wr by (subst zstd_write_loop.simps) (auto simp: Let_def)
    next
      case ok: False
      then have w: "w = Inr ()" by (cases w) auto
      let ?s = "s\<lparr>zw_context := c', zw_stream := stream\<rparr>"
      note S = stepped [OF in_stepD [OF "1.prems"] call] and P = progress [OF in_stepD [OF "1.prems"] call _ False]
      have I: "in_step ?s" using in_step_write [OF "1.prems" _ _ wr [unfolded w]] S ok by simp
      have "((length (drop k input), pending (zw_context ?s)), (length input, pending (zw_context s)))
          \<in> less_than <*lex*> less_than"
        using S P ok False by (cases "0 < k") auto
      from "1.hyps" [OF this I] obtain r s' where IH: "zstd_write_loop z (drop k input) ?s = Some (r, s')"
        "r = Inr () \<longrightarrow> in_step s' \<and> taken_of (zw_context s') = taken_of c' @ drop k input" by auto
      have "zstd_write_loop z input s = zstd_write_loop z (drop k input) ?s"
        by (subst zstd_write_loop.simps) (use False call wr w ok in \<open>simp add: Let_def\<close>)
      then show ?thesis using IH S ok by auto
    qed
  qed
qed

lemma end_loop_ok:
  assumes "in_step s"
  shows "\<exists>r s'. zstd_end_loop z s = Some (r, s') \<and> (r = Inr () \<longrightarrow> in_step s'
    \<and> decompress (os_data (zw_stream s')) = Some (taken_of (zw_context s)))"
  using assms
proof (induction "pending (zw_context s)" arbitrary: s rule: less_induct)
  case less
  obtain remaining k out c' where call: "zs_compressStream2 z ZSTD_e_end [] (zs_CStreamOutSize z) (zw_context s) = (remaining, k, out, c')"
    by (cases "zs_compressStream2 z ZSTD_e_end [] (zs_CStreamOutSize z) (zw_context s)")
  obtain w stream where wr: "writeBytesToStream out (zw_stream s) = (w, stream)"
    by (cases "writeBytesToStream out (zw_stream s)")
  show ?case
  proof (cases "zs_isError z remaining \<or> (\<exists>e. w = Inl e)")
    case True
    then show ?thesis using call wr by (subst zstd_end_loop.simps) (auto simp: Let_def)
  next
    case ok: False
    then have w: "w = Inr ()" by (cases w) auto
    let ?s = "s\<lparr>zw_context := c', zw_stream := stream\<rparr>"
    note S = stepped [OF in_stepD [OF less.prems] call]
    have I: "in_step ?s" using in_step_write [OF less.prems _ _ wr [unfolded w]] S ok by simp
    have unfold: "zstd_end_loop z s = (if remaining \<noteq> 0 then zstd_end_loop z ?s else Some (Inr (), ?s))"
      by (subst zstd_end_loop.simps) (use call wr w ok in \<open>simp add: Let_def\<close>)
    show ?thesis
    proof (cases "remaining = 0")
      case True
      then show ?thesis using unfold I complete [OF in_stepD [OF less.prems] call [unfolded True]] ok S by (simp add: in_step_def)
    next
      case False
      then have "pending (zw_context ?s) < pending (zw_context s)" using flushing [OF in_stepD [OF less.prems] call] ok by simp
      from less.hyps [OF this I] show ?thesis using unfold False S ok by simp
    qed
  qed
qed

lemma finish_ok:
  assumes "in_step s"
  shows "\<exists>r s'. zstd_finish z s = Some (r, s')
    \<and> (r = Inr () \<longrightarrow> zw_finished s' \<and> decompress (os_data (zw_stream s')) = Some (taken_of (zw_context s)))"
proof -
  obtain r s' where "zstd_end_loop z s = Some (r, s')"
    "r = Inr () \<longrightarrow> in_step s' \<and> decompress (os_data (zw_stream s')) = Some (taken_of (zw_context s))"
    using end_loop_ok [OF assms] by blast
  then show ?thesis using assms
    by (cases r) (auto simp: zstd_finish_def in_step_def Let_def os_flush_def)
qed

lemma writer_new_ok:
  assumes "zstd_writer_new z level stream = Inr s" "os_data stream = []"
  shows "in_step s \<and> taken_of (zw_context s) = []"
  using assms init
  by (auto simp: zstd_writer_new_def in_step_def split: option.splits prod.splits if_splits)

end

sublocale zstd_stream \<subseteq> chunk_writer "zstd_writer z" in_step "\<lambda>s. taken_of (zw_context s)" "\<lambda>s. os_data (zw_stream s)" decompress
proof
  fix s bs assume "in_step s"
  then show "\<exists>r s'. wr_chunk (zstd_writer z) bs s = Some (r, s')
      \<and> (r = Inr () \<longrightarrow> in_step s' \<and> taken_of (zw_context s') = taken_of (zw_context s) @ bs)"
    using write_loop_ok by (auto simp: zstd_writer_def)
next
  fix s assume "in_step s"
  then show "\<exists>r s'. wr_finish (zstd_writer z) s = Some (r, s')
      \<and> (r = Inr () \<longrightarrow> (\<exists>s''. wr_close (zstd_writer z) s' = Some s''
        \<and> decompress (os_data (zw_stream s'')) = Some (taken_of (zw_context s))))"
    using finish_ok [of s] by (fastforce simp: zstd_writer_def)
qed

context zstd_stream begin

lemma zstd_chunk_writer:
  "chunk_writer (zstd_writer z) in_step (\<lambda>s. taken_of (zw_context s)) (\<lambda>s. os_data (zw_stream s)) decompress" ..

end

subsection \<open>A compressor that stores\<close>

text \<open>
  A small compressor that keeps the contract: each byte follows a 1, a frame ends with a 0. Its state is what
  it has taken, what it has given, and what it still holds. It gives nothing before the end is asked for, and
  then four bytes at a time.
\<close>

type_synonym store = "byte list \<times> byte list \<times> byte list"

definition store_ops :: "store zstd_ops" where
  "store_ops = \<lparr>zs_minCLevel = 1, zs_maxCLevel = 22, zs_CStreamOutSize = 4,
     zs_createCStream = Some ([], [], []), zs_initCStream = (\<lambda>_ _. (0, [], [], [])), zs_isError = (\<lambda>_. False),
     zs_compressStream2 = (\<lambda>d input n (taken, given, held).
       let held = held @ concat (map (\<lambda>b. [1, b]) input); taken = taken @ input in
       case d of
         ZSTD_e_continue \<Rightarrow> (0, length input, [], taken, given, held)
       | ZSTD_e_end \<Rightarrow>
           if held = [] then (0, length input, [0], taken, given @ [0], [])
           else (length held, length input, take n held, taken, given @ take n held, drop n held))\<rparr>"

fun unstore :: "byte list \<Rightarrow> byte list option" where
  "unstore [] = None"
| "unstore (m # bs) =
     (if m = 0 then (if bs = [] then Some [] else unstore bs)
      else (case bs of [] \<Rightarrow> None | b # bs \<Rightarrow> map_option ((#) b) (unstore bs)))"

definition store_valid :: "store \<Rightarrow> bool" where
  "store_valid = (\<lambda>(taken, given, held).
     \<forall>rest. rest \<noteq> [] \<longrightarrow> unstore (given @ held @ rest) = map_option ((@) taken) (unstore rest))"

lemma prefix_fun: "(@) [] = (\<lambda>r. r)" "(@) (a # bs) = (\<lambda>r. a # bs @ r)" "(@) (as @ bs) = (\<lambda>r. as @ bs @ r)"
  by (simp_all add: fun_eq_iff)

lemma unstore_stored: "rest \<noteq> [] \<Longrightarrow> unstore (concat (map (\<lambda>b. [1, b]) bs) @ rest) = map_option ((@) bs) (unstore rest)"
  by (induction bs) (auto simp: option.map_comp comp_def option.map_ident prefix_fun)

lemma store_valid_take:
  assumes "store_valid (taken, given, held)"
  shows "store_valid (taken @ input, given, held @ concat (map (\<lambda>b. [1, b]) input))"
  using assms unstore_stored unfolding store_valid_def by (auto simp: option.map_comp comp_def prefix_fun)

lemma store_valid_split:
  assumes "store_valid (taken, given, held)" shows "store_valid (taken, given @ take n held, drop n held)"
proof -
  have "take n held @ drop n held @ rest = held @ rest" for rest :: "byte list" by (simp flip: append_assoc)
  note rest = this
  show ?thesis using assms by (simp add: store_valid_def rest)
qed

lemma store_valid_end:
  assumes "store_valid (taken, given, [])"
  shows "unstore (given @ [0]) = Some taken" "store_valid (taken, given @ [0], [])"
  using assms by (auto simp: store_valid_def option.map_comp comp_def)

interpretation store: zstd_stream store_ops store_valid fst "fst \<circ> snd" "length \<circ> snd \<circ> snd" unstore
proof
  fix c d input r k out c'
  assume v: "store_valid c" and call: "zs_compressStream2 store_ops d input (zs_CStreamOutSize store_ops) c = (r, k, out, c')"
  obtain taken given held where c: "c = (taken, given, held)" by (cases c)
  let ?held = "held @ concat (map (\<lambda>b. [1, b]) input)"
  have V: "store_valid (taken @ input, given, ?held)" using store_valid_take v c by simp
  have split: "store_valid (taken @ input, given @ take n ?held, drop n ?held)" for n
    using V by (rule store_valid_split)
  show "store_valid c' \<and> k \<le> length input \<and> fst c' = fst c @ take k input \<and> (fst \<circ> snd) c' = (fst \<circ> snd) c @ out"
    using call V split [of 4] store_valid_end(2) [of "taken @ input" given]
    by (auto simp: store_ops_def c Let_def split: zstd_directive.splits if_splits)
next
  fix c k out c'
  assume v: "store_valid c" and call: "zs_compressStream2 store_ops ZSTD_e_end [] (zs_CStreamOutSize store_ops) c = (0, k, out, c')"
  show "unstore ((fst \<circ> snd) c') = Some (fst c')"
    using v call store_valid_end(1) by (auto simp: store_ops_def Let_def split: prod.splits if_splits)
qed (auto simp: store_ops_def store_valid_def Let_def option.map_ident prefix_fun split: prod.splits if_splits)


subsection \<open>The file\<close>

text \<open>\<open>None\<close> where no path was given; the platform says whether the file can be opened.\<close>

definition openReplayFile :: "(string \<Rightarrow> ostream option) \<Rightarrow> string \<Rightarrow> cli_error + ostream option" where
  "openReplayFile open_out path =
     (if path = [] then Inr None
      else (case open_out path of None \<Rightarrow> Inl (ReplayOpenFailed path) | Some stream \<Rightarrow> Inr (Some stream)))"

end
