(* ===== verification/Headless.thy ===== *)
theory Headless
  imports Replay_World Replay_Writer
begin

text \<open>
  The headless runner (\<open>src/cli/headless_main.cpp\<close>): a match is made from the options, stepped, and each
  tick is written, until the match is over, a termination signal has come, the judge calls a draw, or
  the writer throws. What it writes plays back.
\<close>

subsection \<open>The loop\<close>

datatype loop_exit = ExitGameOver | ExitSignal | ExitDraw | ExitError cli_error | ExitNoFuel

text \<open>
  \<open>stop n\<close> is what the \<open>n\<close>-th read of \<open>g_terminateRequested\<close> returns. Each round gives the tick it has
  taken and the chunk it has written. \<open>ExitNoFuel\<close> is no exit of the program: it says that \<open>fuel\<close>
  rounds did not end the loop.
\<close>

fun headless_loop ::
    "'m machine_ops \<Rightarrow> uniform \<Rightarrow> 's writer_ops \<Rightarrow> (nat \<Rightarrow> bool) \<Rightarrow> nat \<Rightarrow> nat \<Rightarrow> 'm match \<Rightarrow> draw_judge \<Rightarrow> 's
       \<Rightarrow> (loop_exit \<times> 'm match \<times> 's \<times> (tick_frame \<times> byte list) list) option" where
  "headless_loop mo uniform_int ops stop 0 n m judge s = Some (ExitNoFuel, m, s, [])"
| "headless_loop mo uniform_int ops stop (Suc fuel) n m judge s =
     (if gameOver (mt_world m) then Some (ExitGameOver, m, s, [])
      else do {
        m \<leftarrow> match_step mo uniform_int m;
        (tick, w) \<leftarrow> tick_fromWorldState (mt_world m);
        let m = m\<lparr>mt_world := w\<rparr>;
        chunk \<leftarrow> encodeReplayTick tick [];
        (r, s) \<leftarrow> wr_chunk ops chunk s;
        (case r of
           Inl e \<Rightarrow> Some (ExitError e, m, s, [])
         | Inr _ \<Rightarrow>
             if gameOver w then Some (ExitGameOver, m, s, [(tick, chunk)])
             else if stop n then Some (ExitSignal, m, s, [(tick, chunk)])
             else (case shouldDraw w judge of (draw, judge) \<Rightarrow>
               if draw then Some (ExitDraw, m\<lparr>mt_world := markRuleDraw w\<rparr>, s, [(tick, chunk)])
               else do {
                 (e, m, s, rest) \<leftarrow> headless_loop mo uniform_int ops stop fuel (n + 1) m judge s;
                 Some (e, m, s, (tick, chunk) # rest)
               }))
      })"

record ('m, 's) headless_run =
  hr_exit :: loop_exit
  hr_header :: replay_header
  hr_ticks :: "tick_frame list"
  hr_end :: end_marker
  hr_match :: "'m match"
  hr_sink :: 's

text \<open>
  The part of \<open>runHeadlessLiveMode\<close> that writes, with the destructor of the writer at the end: \<open>Inl\<close> of
  what was thrown, with whether a termination signal had been seen.
\<close>

definition headless_record ::
    "'m machine_ops \<Rightarrow> uniform \<Rightarrow> 's writer_ops \<Rightarrow> (nat \<Rightarrow> bool) \<Rightarrow> nat \<Rightarrow> 'm match \<Rightarrow> draw_judge \<Rightarrow> 's
       \<Rightarrow> ((cli_error \<times> bool \<times> 's) + ('m, 's) headless_run) option" where
  "headless_record mo uniform_int ops stop fuel m judge s = do {
     let throw = (\<lambda>e signalled s. map_option (\<lambda>s. Inl (e, signalled, s)) (wr_close ops s));
     header \<leftarrow> header_fromWorld (mt_world m);
     header_chunk \<leftarrow> encodeReplayHeader header [];
     (r, s) \<leftarrow> wr_chunk ops header_chunk s;
     (case r of
        Inl e \<Rightarrow> throw e False s
      | Inr _ \<Rightarrow> do {
          (e, m, s, ticks) \<leftarrow> headless_loop mo uniform_int ops stop fuel 0 m judge s;
          (case e of
             ExitError e \<Rightarrow> throw e False s
           | _ \<Rightarrow> do {
               end_marker \<leftarrow> endMarker_fromWorld (mt_world m);
               (r, s) \<leftarrow> wr_chunk ops (encodeReplayEndMarker end_marker []) s;
               (case r of
                  Inl err \<Rightarrow> throw err (e = ExitSignal) s
                | Inr _ \<Rightarrow> do {
                    (r, s) \<leftarrow> wr_finish ops s;
                    (case r of
                       Inl err \<Rightarrow> throw err (e = ExitSignal) s
                     | Inr _ \<Rightarrow> do {
                         s \<leftarrow> wr_close ops s;
                         Some (Inr \<lparr>hr_exit = e, hr_header = header, hr_ticks = map fst ticks,
                           hr_end = end_marker, hr_match = m, hr_sink = s\<rparr>)
                       })
                  })
             })
        })
   }"

subsection \<open>The program\<close>

text \<open>
  What \<open>main\<close> finds outside itself: the platform, the compressor, the files that can be opened for
  writing, the standard output and whether it is a terminal, the signals, and the strings of the build.
\<close>

record 'c headless_env =
  he_platform :: platform
  he_zstd :: "'c zstd_ops"
  he_open :: "string \<Rightarrow> ostream option"
  he_stdout :: ostream
  he_stdout_tty :: bool
  he_signal :: "nat \<Rightarrow> bool"
  he_version :: string
  he_commit :: string
  he_zstd_version :: nat

text \<open>
  What a run leaves: the lines on the standard error, the error that was thrown, the exit code, the stream of
  the replay (\<open>None\<close>: nothing was opened), and, where it went to its end, the records that were written.
\<close>

record headless_result =
  hl_stderr :: "string list"
  hl_error :: "cli_error option"
  hl_code :: int
  hl_written :: "ostream option"
  hl_records :: "(replay_header \<times> tick_frame list \<times> end_marker) option"

definition worker_banner :: "'c headless_env \<Rightarrow> string" where
  "worker_banner env = ''{\"version\": \"'' @ he_version env @ ''\", \"commit\": \"'' @ he_commit env
     @ ''\", \"zstd_version\": '' @ dec_digits (he_zstd_version env) @ ''}''"

definition bool_text :: "bool \<Rightarrow> string" where
  "bool_text b = (if b then ''true'' else ''false'')"

definition termination_text :: "replay_termination \<Rightarrow> string" where
  "termination_text t =
     (if t = EndCompleted then ''completed'' else if t = EndRuleDraw then ''rule-draw'' else ''aborted'')"

definition worker_summary :: "end_marker \<Rightarrow> world \<Rightarrow> string" where
  "worker_summary e w = ''{\"termination\": \"'' @ termination_text (em_termination e)
     @ ''\", \"winner_player_id\": '' @ dec_digits (unat (em_winner_player_id e))
     @ '', \"p1_base_crash\": '' @ bool_text (p_base_elf_crash_flag (w_players w P1))
     @ '', \"p1_unit_crash\": '' @ bool_text (p_unit_elf_crash_flag (w_players w P1))
     @ '', \"p2_base_crash\": '' @ bool_text (p_base_elf_crash_flag (w_players w P2))
     @ '', \"p2_unit_crash\": '' @ bool_text (p_unit_elf_crash_flag (w_players w P2)) @ ''}''"

definition signal_text :: "program_options \<Rightarrow> bool \<Rightarrow> string list" where
  "signal_text options signalled =
     (if \<not> signalled then []
      else if po_worker_mode options then [''{\"termination_signal_received\": true}'']
      else [''Termination signal received, quitting...''])"

text \<open>The result of the writing part, as the exit code and the lines on the standard error.\<close>

definition headless_result_of ::
    "string list \<Rightarrow> program_options \<Rightarrow> ('s \<Rightarrow> ostream) \<Rightarrow> (cli_error \<times> bool \<times> 's) + ('m, 's) headless_run
       \<Rightarrow> headless_result" where
  "headless_result_of banner options sink r = (case r of
       Inl (e, signalled, s) \<Rightarrow>
         \<lparr>hl_stderr = banner @ signal_text options signalled, hl_error = Some e, hl_code = 1,
          hl_written = Some (sink s), hl_records = None\<rparr>
     | Inr run \<Rightarrow>
         \<lparr>hl_stderr = banner @ signal_text options (hr_exit run = ExitSignal)
            @ (if po_worker_mode options then [worker_summary (hr_end run) (mt_world (hr_match run))] else []),
          hl_error = None, hl_code = (if hr_exit run = ExitSignal then 1 else 0),
          hl_written = Some (sink (hr_sink run)), hl_records = Some (hr_header run, hr_ticks run, hr_end run)\<rparr>)"

text \<open>\<open>ent\<close> are the seeds that the match draws for the machines, as in \<open>new_match\<close>.\<close>

definition runHeadlessLiveMode ::
    "'m machine_ops \<Rightarrow> 'c headless_env \<Rightarrow> (nat \<Rightarrow> seed) \<Rightarrow> nat \<Rightarrow> program_options \<Rightarrow> headless_result option" where
  "runHeadlessLiveMode mo env ent fuel options = do {
     let banner = (if po_worker_mode options then [worker_banner env] else []);
     let throw = (\<lambda>e out. Some \<lparr>hl_stderr = banner, hl_error = Some e, hl_code = 1, hl_written = out, hl_records = None\<rparr>);
     let uniform_int = pf_uniform (he_platform env);
     r \<leftarrow> createWorldFromOptions (he_platform env) options;
     (case r of
        Inl e \<Rightarrow> throw e None
      | Inr w \<Rightarrow> (case openReplayFile (he_open env) (po_replay_file options) of
          Inl e \<Rightarrow> throw e None
        | Inr file \<Rightarrow>
            if file = None \<and> he_stdout_tty env then throw StdoutIsTTY None
            else let stream = (case file of Some s \<Rightarrow> s | None \<Rightarrow> he_stdout env);
                     m = new_match w ent; judge = createRuleDrawJudgeFromOptions options in
              if po_output_zstd options
              then (case zstd_writer_new (he_zstd env) (po_output_zstd_level options) stream of
                  Inl e \<Rightarrow> throw e (Some stream)
                | Inr s \<Rightarrow> map_option (headless_result_of banner options zw_stream)
                    (headless_record mo uniform_int (zstd_writer (he_zstd env)) (he_signal env) fuel m judge s))
              else map_option (headless_result_of banner options id)
                (headless_record mo uniform_int raw_writer (he_signal env) fuel m judge stream)))
   }"

text \<open>\<open>main\<close>: the exit code alone.\<close>

definition headless_main ::
    "'m machine_ops \<Rightarrow> 'c headless_env \<Rightarrow> (nat \<Rightarrow> seed) \<Rightarrow> nat \<Rightarrow> cli_args option \<Rightarrow> int option" where
  "headless_main mo env ent fuel args = (case parseOptions (pf_device (he_platform env)) Headless args of
       Inl _ \<Rightarrow> Some 1
     | Inr options \<Rightarrow> map_option hl_code (runHeadlessLiveMode mo env ent fuel options))"

subsection \<open>One round\<close>

text \<open>What is known after a round that has written its tick.\<close>

definition round_done ::
    "'m machine_ops \<Rightarrow> uniform \<Rightarrow> 'm match \<Rightarrow> 'm match \<Rightarrow> tick_frame \<Rightarrow> world \<Rightarrow> byte list \<Rightarrow> bool" where
  "round_done mo uniform_int m m1 t w c \<longleftrightarrow> \<not> gameOver (mt_world m) \<and> match_step mo uniform_int m = Some m1
     \<and> tick_fromWorldState (mt_world m1) = Some (t, w) \<and> encodeReplayTick t [] = Some c"

lemma headless_loop_cases:
  assumes "headless_loop mo uniform_int ops stop (Suc fuel) n m judge s = Some (e, m', s', ticks)"
  obtains (over) "gameOver (mt_world m)" "e = ExitGameOver" "m' = m" "s' = s" "ticks = []"
  | (failed) m1 t w c err where "round_done mo uniform_int m m1 t w c" "wr_chunk ops c s = Some (Inl err, s')"
      "e = ExitError err" "m' = m1\<lparr>mt_world := w\<rparr>" "ticks = []"
  | (final) m1 t w c draw judge' where "round_done mo uniform_int m m1 t w c" "wr_chunk ops c s = Some (Inr (), s')"
      "shouldDraw w judge = (draw, judge')" "gameOver w \<or> stop n \<or> draw"
      "m' = m1\<lparr>mt_world := w\<rparr> \<or> m' = m1\<lparr>mt_world := markRuleDraw w\<rparr>"
      "e \<in> {ExitGameOver, ExitSignal, ExitDraw}" "ticks = [(t, c)]"
  | (continue) m1 t w c s1 judge' rest where "round_done mo uniform_int m m1 t w c" "wr_chunk ops c s = Some (Inr (), s1)"
      "shouldDraw w judge = (False, judge')" "\<not> gameOver w"
      "headless_loop mo uniform_int ops stop fuel (n + 1) (m1\<lparr>mt_world := w\<rparr>) judge' s1 = Some (e, m', s', rest)"
      "ticks = (t, c) # rest"
proof (cases "gameOver (mt_world m)")
  case False
  obtain m1 t w c r s1 where st: "round_done mo uniform_int m m1 t w c" and wr: "wr_chunk ops c s = Some (r, s1)"
    using assms False by (auto simp: round_done_def Let_def bind_eq_Some_conv)
  note S = st [unfolded round_done_def]
  obtain draw judge' where d: "shouldDraw w judge = (draw, judge')" by (cases "shouldDraw w judge")
  show thesis
  proof (cases r)
    case (Inl err)
    then show thesis using assms S wr st by (intro failed [of m1 t w c err]) (auto simp: Let_def)
  next
    case (Inr u)
    show thesis
    proof (cases "gameOver w \<or> stop n \<or> draw")
      case True
      then show thesis using assms S wr st Inr d
        by (intro final [of m1 t w c draw judge']) (auto simp: Let_def split: if_splits)
    next
      case go: False
      then obtain rest where "headless_loop mo uniform_int ops stop fuel (n + 1) (m1\<lparr>mt_world := w\<rparr>) judge' s1
          = Some (e, m', s', rest)" "ticks = (t, c) # rest"
        using assms S wr Inr d by (auto simp: Let_def bind_eq_Some_conv)
      then show thesis using st wr Inr d go by (intro continue [of m1 t w c s1 judge' rest]) auto
    qed
  qed
next
  case True
  then show thesis using assms by (intro over) simp_all
qed

text \<open>The chunks that the writer has accepted.\<close>

context chunk_writer begin

lemma headless_loop_accepted:
  assumes "ready s" "headless_loop mo uniform_int ops stop fuel n m judge s = Some (e, m', s', ticks)"
    "\<And>err. e \<noteq> ExitError err"
  shows "ready s' \<and> accepted s' = accepted s @ concat (map snd ticks)"
  using assms
proof (induction fuel arbitrary: n m judge s ticks)
  case (Suc fuel)
  from Suc.prems(2) show ?case
  proof (cases rule: headless_loop_cases)
    case (final m1 t w c draw judge')
    then show ?thesis using chunk [OF Suc.prems(1), of c] by simp
  next
    case (continue m1 t w c s1 judge' rest)
    then have "ready s1" "accepted s1 = accepted s @ c" using chunk [OF Suc.prems(1), of c] by auto
    then show ?thesis using Suc.IH [OF _ continue(5) Suc.prems(3)] continue(6) by simp
  qed (use Suc.prems in auto)
qed simp

end

subsection \<open>What a round keeps\<close>

text \<open>The state between rounds.\<close>

definition round_ok :: "'m match \<Rightarrow> bool" where
  "round_ok m \<longleftrightarrow> match_ok m \<and> fst (map_size (mt_world m)) * snd (map_size (mt_world m)) \<le> 4096
     \<and> (w_reason (mt_world m) = Victory \<longrightarrow> w_winner (mt_world m) = 1 \<or> w_winner (mt_world m) = 2)"

lemma taken_logs_ok:
  assumes "match_ok m" shows "match_ok (m\<lparr>mt_world := (mt_world m)\<lparr>w_logs := []\<rparr>\<rparr>)"
proof -
  let ?w = "mt_world m"
  have I: "turn_inv ?w" "io_ok ?w" "quotas_ok m" "gameOver ?w \<or> capture_inv ?w"
    using assms by (simp_all add: match_ok_def running_ok_def)
  have "winv (?w\<lparr>w_logs := []\<rparr>)"
    by (rule winv_frame [OF turn_invD(1) [OF I(1)]]) (use winv_heap [OF turn_invD(1) [OF I(1)]] in simp_all)
  then have "turn_inv (?w\<lparr>w_logs := []\<rparr>)" by (rule turn_inv_cong [OF I(1)]) simp_all
  moreover have "io_ok (?w\<lparr>w_logs := []\<rparr>)"
    using I(2) unfolding io_ok_def payloads_ok_def messages_ok_def by simp
  ultimately show ?thesis
    using I(3,4) by (simp add: match_ok_def running_ok_def quotas_ok_upd gameOver_def capture_inv_def)
qed

lemma rule_draw_ok: "match_ok m \<Longrightarrow> match_ok (m\<lparr>mt_world := markRuleDraw (mt_world m)\<rparr>)"
proof -
  assume M: "match_ok m"
  let ?w = "mt_world m"
  have I: "turn_inv ?w" "io_ok ?w" "quotas_ok m" using M by (simp_all add: match_ok_def running_ok_def)
  have eq: "markRuleDraw ?w = ?w \<or> markRuleDraw ?w = ?w\<lparr>w_winner := w_winner ?w, w_reason := RuleDraw\<rparr>"
    by (simp add: markRuleDraw_def)
  have "winv (?w\<lparr>w_winner := w_winner ?w, w_reason := RuleDraw\<rparr>)"
    using turn_invD(1) [OF I(1)] by (simp only: winv_termination)
  then have "turn_inv (?w\<lparr>w_winner := w_winner ?w, w_reason := RuleDraw\<rparr>)"
    by (rule turn_inv_cong [OF I(1)]) simp_all
  moreover have "io_ok (?w\<lparr>w_winner := w_winner ?w, w_reason := RuleDraw\<rparr>)"
    using I(2) unfolding io_ok_def payloads_ok_def messages_ok_def by simp
  ultimately show ?thesis
    using eq I by (auto simp: match_ok_def running_ok_def quotas_ok_upd gameOver_def markRuleDraw_def)
qed

lemma headless_record_result:
  assumes "headless_record mo uniform_int ops stop fuel m judge s = Some (Inr r)"
  obtains c s1 s2 s3 s4 pairs where
    "header_fromWorld (mt_world m) = Some (hr_header r)" "encodeReplayHeader (hr_header r) [] = Some c"
    "wr_chunk ops c s = Some (Inr (), s1)"
    "headless_loop mo uniform_int ops stop fuel 0 m judge s1 = Some (hr_exit r, hr_match r, s2, pairs)"
    "map fst pairs = hr_ticks r" "\<forall>err. hr_exit r \<noteq> ExitError err"
    "endMarker_fromWorld (mt_world (hr_match r)) = Some (hr_end r)"
    "wr_chunk ops (encodeReplayEndMarker (hr_end r) []) s2 = Some (Inr (), s3)"
    "wr_finish ops s3 = Some (Inr (), s4)" "wr_close ops s4 = Some (hr_sink r)"
proof -
  note D = assms [unfolded headless_record_def Let_def]
  obtain h c r1 s1 where h: "header_fromWorld (mt_world m) = Some h" "encodeReplayHeader h [] = Some c"
    "wr_chunk ops c s = Some (r1, s1)"
    using D by (auto simp: bind_eq_Some_conv)
  have r1: "r1 = Inr ()" using D h by (cases r1) auto
  obtain e m' s2 pairs where l: "headless_loop mo uniform_int ops stop fuel 0 m judge s1 = Some (e, m', s2, pairs)"
    using D h r1 by (auto simp: bind_eq_Some_conv)
  have e: "\<forall>err. e \<noteq> ExitError err" using D h r1 l by auto
  have D2: "do {
       end_marker \<leftarrow> endMarker_fromWorld (mt_world m');
       (r, s) \<leftarrow> wr_chunk ops (encodeReplayEndMarker end_marker []) s2;
       (case r of
          Inl err \<Rightarrow> map_option (\<lambda>s. Inl (err, e = ExitSignal, s)) (wr_close ops s)
        | Inr _ \<Rightarrow> do {
            (r, s) \<leftarrow> wr_finish ops s;
            (case r of
               Inl err \<Rightarrow> map_option (\<lambda>s. Inl (err, e = ExitSignal, s)) (wr_close ops s)
             | Inr _ \<Rightarrow> do {
                 s \<leftarrow> wr_close ops s;
                 Some (Inr \<lparr>hr_exit = e, hr_header = h, hr_ticks = map fst pairs, hr_end = end_marker,
                   hr_match = m', hr_sink = s\<rparr>)
               })
          })
     } = Some (Inr r)"
    using D h r1 l e by (cases e) auto
  obtain em r3 s3 where em: "endMarker_fromWorld (mt_world m') = Some em"
    "wr_chunk ops (encodeReplayEndMarker em []) s2 = Some (r3, s3)"
    using D2 by (auto simp: bind_eq_Some_conv)
  have r3: "r3 = Inr ()" using D2 em by (cases r3) auto
  obtain r4 s4 where f: "wr_finish ops s3 = Some (r4, s4)" using D2 em r3 by (auto simp: bind_eq_Some_conv)
  have r4: "r4 = Inr ()" using D2 em r3 f by (cases r4) auto
  obtain s5 where c5: "wr_close ops s4 = Some s5" using D2 em r3 f r4 by (auto simp: bind_eq_Some_conv)
  have "r = \<lparr>hr_exit = e, hr_header = h, hr_ticks = map fst pairs, hr_end = em, hr_match = m', hr_sink = s5\<rparr>"
    using D2 em r3 f r4 c5 by simp
  then show thesis using that h r1 l e em r3 f r4 c5 by simp
qed

lemma runtime_envI: "uniform_ok uniform_int \<Longrightarrow> machine_ok mo \<Longrightarrow> runtime_env uniform_int mo"
  by unfold_locales

context runtime_env begin

lemma headless_round:
  assumes R: "round_ok m" and on: "\<not> gameOver (mt_world m)" and st: "match_step mo uniform_int m = Some m1"
  shows "\<exists>t. tick_fromWorldState (mt_world m1) = Some (t, (mt_world m1)\<lparr>w_logs := []\<rparr>)
    \<and> round_ok (m1\<lparr>mt_world := (mt_world m1)\<lparr>w_logs := []\<rparr>\<rparr>)
    \<and> fr_tick t = w_tick (mt_world m) + 1 \<and> w_tick (mt_world m1) = w_tick (mt_world m) + 1
    \<and> fr_logs t = w_logs (mt_world m1) \<and> (length (fr_logs t) \<le> 64 \<longrightarrow> frame_ok t)"
proof -
  note S = match_step_ok [OF _ st]
  have M: "match_ok m1" "w_tick (mt_world m1) = w_tick (mt_world m) + 1" "verdict_ok (mt_world m1)"
    "map_size (mt_world m1) = map_size (mt_world m)" using S R on by (auto simp: round_ok_def)
  have W: "winv (mt_world m1)" "io_ok (mt_world m1)"
    using M(1) turn_invD(1) by (auto simp: match_ok_def running_ok_def)
  have area: "tm_width (w_map (mt_world m1)) * tm_height (w_map (mt_world m1)) \<le> 4096"
    using R M(4) by (simp add: round_ok_def map_size_def)
  from tick_fromWorldState_ok [OF W area] obtain t where
    t: "tick_fromWorldState (mt_world m1) = Some (t, (mt_world m1)\<lparr>w_logs := []\<rparr>)"
      "fr_tick t = w_tick (mt_world m1)" "fr_logs t = w_logs (mt_world m1)"
      "length (w_logs (mt_world m1)) \<le> 64 \<longrightarrow> frame_ok t" by blast
  have "round_ok (m1\<lparr>mt_world := (mt_world m1)\<lparr>w_logs := []\<rparr>\<rparr>)"
    using taken_logs_ok [OF M(1)] R M(3,4) by (simp add: round_ok_def map_size_def verdict_ok_def)
  then show ?thesis using t M(2) by simp
qed

lemma round_done_ok:
  assumes "round_ok m" "round_done mo uniform_int m m1 t w c"
  shows "round_ok (m1\<lparr>mt_world := w\<rparr>) \<and> round_ok (m1\<lparr>mt_world := markRuleDraw w\<rparr>)
    \<and> fr_tick t = w_tick (mt_world m) + 1 \<and> w_tick w = w_tick (mt_world m) + 1
    \<and> (length (fr_logs t) \<le> 64 \<longrightarrow> frame_ok t \<and> c = tick_bytes t)"
proof -
  note S = assms(2) [unfolded round_done_def]
  obtain t' where t': "tick_fromWorldState (mt_world m1) = Some (t', (mt_world m1)\<lparr>w_logs := []\<rparr>)"
    "round_ok (m1\<lparr>mt_world := (mt_world m1)\<lparr>w_logs := []\<rparr>\<rparr>)"
    "fr_tick t' = w_tick (mt_world m) + 1" "w_tick (mt_world m1) = w_tick (mt_world m) + 1"
    "length (fr_logs t') \<le> 64 \<longrightarrow> frame_ok t'"
    using headless_round [OF assms(1)] S by blast
  then have eq: "t' = t" "w = (mt_world m1)\<lparr>w_logs := []\<rparr>" using S by simp_all
  have "round_ok (m1\<lparr>mt_world := markRuleDraw w\<rparr>)"
    using rule_draw_ok [of "m1\<lparr>mt_world := w\<rparr>"] t'(2) by (auto simp: eq round_ok_def markRuleDraw_def map_size_def)
  then show ?thesis using t' S encodeReplayTick_bytes [of t "[]"] by (simp add: eq)
qed

text \<open>Every round of the loop, whatever ends it.\<close>

lemma headless_loop_ok:
  assumes "round_ok m" "headless_loop mo uniform_int ops stop fuel n m judge s = Some (e, m', s', ticks)"
    "\<forall>(t, c)\<in>set ticks. length (fr_logs t) \<le> 64"
  shows "round_ok m' \<and> (\<forall>(t, c)\<in>set ticks. frame_ok t \<and> c = tick_bytes t)
    \<and> map (fr_tick \<circ> fst) ticks = map (\<lambda>i. w_tick (mt_world m) + word_of_nat (Suc i)) [0..<length ticks]"
  using assms
proof (induction fuel arbitrary: n m judge s ticks)
  case (Suc fuel)
  from Suc.prems(2) show ?case
  proof (cases rule: headless_loop_cases)
    case (failed m1 t w c err)
    then show ?thesis using round_done_ok [OF Suc.prems(1) failed(1)] by simp
  next
    case (final m1 t w c draw judge')
    then show ?thesis using round_done_ok [OF Suc.prems(1) final(1)] Suc.prems(3) by auto
  next
    case (continue m1 t w c s1 judge' rest)
    note R = round_done_ok [OF Suc.prems(1) continue(1)]
    have "\<forall>(t, c)\<in>set rest. length (fr_logs t) \<le> 64" using Suc.prems(3) continue(6) by simp
    note IH = Suc.IH [OF conjunct1 [OF R] continue(5) this]
    have "map (\<lambda>i. w_tick (mt_world m) + word_of_nat (Suc i)) [0..<Suc (length rest)]
        = (w_tick (mt_world m) + 1) # map (\<lambda>i. w_tick w + word_of_nat (Suc i)) [0..<length rest]"
      using R by (simp add: upt_conv_Cons map_Suc_upt [symmetric] comp_def add.assoc del: upt_Suc)
    then show ?thesis using IH R Suc.prems(3) continue(6) by (simp del: upt_Suc)
  qed (use Suc.prems in simp)
qed simp

text \<open>
  A judge that draws from turn \<open>limit\<close> on ends the loop within as many rounds.
\<close>

lemma headless_loop_ends:
  assumes J: "bounded_judge shouldDraw ok limit" and "ok judge" "round_ok m"
    "unat (w_tick (mt_world m)) < limit" "limit < 2 ^ 32"
    "headless_loop mo uniform_int ops stop fuel n m judge s = Some (e, m', s', ticks)"
  shows "(limit \<le> unat (w_tick (mt_world m)) + fuel \<longrightarrow> e \<noteq> ExitNoFuel)
    \<and> unat (w_tick (mt_world m)) + length ticks \<le> limit"
  using assms(2-)
proof (induction fuel arbitrary: n m judge s ticks)
  case (Suc fuel)
  from Suc.prems(5) show ?case
  proof (cases rule: headless_loop_cases)
    case (continue m1 t w c s1 judge' rest)
    note R = round_done_ok [OF Suc.prems(2) continue(1)]
    have tick: "unat (w_tick w) = unat (w_tick (mt_world m)) + 1"
    proof -
      have "w_tick w = word_of_nat (unat (w_tick (mt_world m)) + 1)" using R by simp
      then show ?thesis using Suc.prems(3,4) by (simp only:) (rule word_of_nat_unat_le, simp)
    qed
    have judge': "ok judge'" using bounded_judge.keeps [OF J Suc.prems(1), of w] continue(3) by simp
    have "\<not> limit \<le> unat (w_tick w)"
      using bounded_judge.draws [OF J Suc.prems(1), of w] continue(3) by auto
    then show ?thesis
      using Suc.IH [OF judge' conjunct1 [OF R] _ Suc.prems(4) continue(5)] continue(6) tick by simp
  qed (use Suc.prems(3) in auto)
qed simp

text \<open>What the runner writes, whichever writer it has.\<close>

lemma headless_record_output:
  assumes W: "chunk_writer ops ready accepted kept unpack" "ready s" "accepted s = []"
    and R: "round_ok m" and B: "map_bits_ok (w_map (mt_world m))"
    and r: "headless_record mo uniform_int ops stop fuel m judge s = Some (Inr r)"
    and logs: "\<forall>t\<in>set (hr_ticks r). length (fr_logs t) \<le> 64"
  shows "header_ok (hr_header r) \<and> (\<forall>t\<in>set (hr_ticks r). frame_ok t) \<and> end_ok (hr_end r)
    \<and> unpack (kept (hr_sink r)) = Some (replay_bytes (hr_header r) (hr_ticks r) (hr_end r))
    \<and> map fr_tick (hr_ticks r)
        = map (\<lambda>i. w_tick (mt_world m) + word_of_nat (Suc i)) [0..<length (hr_ticks r)]"
proof -
  obtain c s1 s2 s3 s4 pairs where H:
    "header_fromWorld (mt_world m) = Some (hr_header r)" "encodeReplayHeader (hr_header r) [] = Some c"
    "wr_chunk ops c s = Some (Inr (), s1)"
    "headless_loop mo uniform_int ops stop fuel 0 m judge s1 = Some (hr_exit r, hr_match r, s2, pairs)"
    "map fst pairs = hr_ticks r" "\<forall>err. hr_exit r \<noteq> ExitError err"
    "endMarker_fromWorld (mt_world (hr_match r)) = Some (hr_end r)"
    "wr_chunk ops (encodeReplayEndMarker (hr_end r) []) s2 = Some (Inr (), s3)"
    "wr_finish ops s3 = Some (Inr (), s4)" "wr_close ops s4 = Some (hr_sink r)"
    using headless_record_result [OF r] .
  have wi: "winv (mt_world m)" using R turn_invD(1) by (auto simp: round_ok_def match_ok_def running_ok_def)
  have h: "header_ok (hr_header r)" "c = header_bytes (hr_header r)"
    using header_fromWorld_ok [OF wi B] H(1,2) encodeReplayHeader_bytes [of "hr_header r" "[]"] by auto
  have "\<forall>(t, c)\<in>set pairs. length (fr_logs t) \<le> 64" using logs H(5) [symmetric] by auto
  note L = headless_loop_ok [OF R H(4) this]
  have a1: "ready s1" "accepted s1 = header_bytes (hr_header r)"
    using chunk_writer.chunk [OF W(1,2), of c] W(3) H(3) h(2) by auto
  have a2: "ready s2" "accepted s2 = header_bytes (hr_header r) @ concat (map snd pairs)"
    using chunk_writer.headless_loop_accepted [OF W(1) a1(1) H(4)] H(6) a1(2) by simp_all
  then have "ready s3" "accepted s3 = accepted s2 @ end_bytes (hr_end r)"
    using chunk_writer.chunk [OF W(1) a2(1), of "end_bytes (hr_end r)"] H(8) by (auto simp: encodeReplayEndMarker_bytes)
  then have "unpack (kept (hr_sink r)) = Some (accepted s2 @ end_bytes (hr_end r))"
    using chunk_writer.finish [OF W(1)] H(9,10) by fastforce
  moreover have "map snd pairs = map (\<lambda>p. tick_bytes (fst p)) pairs" using L by auto
  then have "concat (map snd pairs) = concat (map tick_bytes (hr_ticks r))" by (simp add: H(5) [symmetric] comp_def del: map_eq_conv)
  moreover have "end_ok (hr_end r)"
    using endMarker_fromWorld_ok [of "mt_world (hr_match r)"] L H(7) by (auto simp: round_ok_def)
  moreover have "\<forall>t\<in>set (hr_ticks r). frame_ok t" using L by (auto simp: H(5) [symmetric])
  moreover have "map fr_tick (hr_ticks r) = map (\<lambda>i. w_tick (mt_world m) + word_of_nat (Suc i)) [0..<length (hr_ticks r)]"
    using L by (simp add: H(5) [symmetric] comp_def)
  ultimately show ?thesis using h(1) a2(2) by (simp add: replay_bytes_def)
qed

text \<open>The whole run, with either writer.\<close>

lemma runHeadless_output:
  assumes P: "platform_ok (he_platform env)" and Z: "zstd_stream (he_zstd env) valid taken_of given_of pending decompress"
    and U: "uniform_int = pf_uniform (he_platform env)"
    and fresh: "os_data (he_stdout env) = []" "\<forall>path s. he_open env path = Some s \<longrightarrow> os_data s = []"
    and w: "createWorldFromOptions (he_platform env) p = Some (Inr w)"
    and size: "tm_width (w_map w) \<le> 255" "tm_height (w_map w) \<le> 255" "tm_width (w_map w) * tm_height (w_map w) \<le> 4096"
    and run: "runHeadlessLiveMode mo env ent fuel p = Some res" "hl_records res = Some (h, ts, e)"
    and logs: "\<forall>t\<in>set ts. length (fr_logs t) \<le> 64"
  shows "\<exists>out. hl_written res = Some out
    \<and> (if po_output_zstd p then decompress (os_data out) else Some (os_data out)) = Some (replay_bytes h ts e)
    \<and> header_ok h \<and> (\<forall>t\<in>set ts. frame_ok t) \<and> end_ok e
    \<and> map fr_tick ts = map (\<lambda>i. word_of_nat (Suc i)) [0..<length ts]"
proof -
  let ?m = "new_match w ent :: 'm match" and ?j = "createRuleDrawJudgeFromOptions p"
  note L = createWorld_legal [where 'm = 'm, OF P w, of ent]
  have R: "round_ok ?m" using L size by (simp add: round_ok_def new_match_def map_size_def)
  have B: "map_bits_ok (w_map (mt_world ?m))" "w_tick (mt_world ?m) = 0" using L size by (simp_all add: new_match_def)
  obtain f where opened: "openReplayFile (he_open env) (po_replay_file p) = Inr f" "\<not> (f = None \<and> he_stdout_tty env)"
    using run w by (auto simp: runHeadlessLiveMode_def Let_def split: sum.splits if_splits)
  define stream where "stream = (case f of Some s \<Rightarrow> s | None \<Rightarrow> he_stdout env)"
  have empty: "os_data stream = []"
    using opened(1) fresh by (auto simp: stream_def openReplayFile_def split: if_splits option.splits)
  let ?banner = "if po_worker_mode p then [worker_banner env] else []"
  show ?thesis
  proof (cases "po_output_zstd p")
    case False
    then obtain hr where hr: "headless_record mo uniform_int raw_writer (he_signal env) fuel ?m ?j stream = Some hr"
      "res = headless_result_of ?banner p id hr"
      using run(1) w opened by (auto simp: runHeadlessLiveMode_def Let_def U stream_def)
    then obtain r where "hr = Inr r" using run(2) by (cases hr) (auto simp: headless_result_of_def)
    then show ?thesis
      using headless_record_output [OF raw.chunk_writer_axioms TrueI empty R B(1) hr(1) [unfolded \<open>hr = Inr r\<close>]]
        hr run(2) logs B(2) False
      by (auto simp: headless_result_of_def)
  next
    case True
    obtain s where s: "zstd_writer_new (he_zstd env) (po_output_zstd_level p) stream = Inr s"
      using run w opened True by (auto simp: runHeadlessLiveMode_def Let_def stream_def split: sum.splits)
    obtain hr where hr: "headless_record mo uniform_int (zstd_writer (he_zstd env)) (he_signal env) fuel ?m ?j s = Some hr"
      "res = headless_result_of ?banner p zw_stream hr"
      using run(1) w opened True s by (auto simp: runHeadlessLiveMode_def Let_def U stream_def)
    then obtain r where "hr = Inr r" using run(2) by (cases hr) (auto simp: headless_result_of_def)
    note new = zstd_stream.writer_new_ok [OF Z s empty]
    show ?thesis
      using headless_record_output [OF zstd_stream.zstd_chunk_writer [OF Z] conjunct1 [OF new] conjunct2 [OF new] R B(1)
          hr(1) [unfolded \<open>hr = Inr r\<close>]] hr \<open>hr = Inr r\<close> run(2) logs B(2) True
      by (auto simp: headless_result_of_def)
  qed
qed

end

end
