(* ===== verification/Live_Mode.thy ===== *)
theory Live_Mode
  imports Plain_UI Headless
begin

text \<open>
  The two modes of the interactive program (\<open>src/cli/main.cpp\<close>): a match that is played live, shown to a
  user interface and perhaps recorded, and the playback of a recorded one. The user interface is any
  \<open>ui_ops\<close>. A live run is simulated by the headless runner, from which its replay inherits what is known
  of the headless one; a playback refines the loop of the theory \<open>Replay_Stream\<close>.
\<close>

subsection \<open>The labels\<close>

text \<open>\<open>std::filesystem::path(p).filename().string()\<close> on a POSIX system.\<close>

definition path_filename :: "string \<Rightarrow> string" where
  "path_filename path = rev (takeWhile (\<lambda>c. c \<noteq> CHR ''/'') (rev path))"

definition computeTilemapSourceLabel :: "program_options \<Rightarrow> string" where
  "computeTilemapSourceLabel options =
     (if po_map_file options \<noteq> [] then ''map file: '' @ path_filename (po_map_file options)
      else (case po_seed options of
          Some s \<Rightarrow> ''seed: '' @ seed_toString s
        | None \<Rightarrow> ''seed: (unknown)''))"

definition computePlaybackTilemapSourceLabel :: "program_options \<Rightarrow> string" where
  "computePlaybackTilemapSourceLabel options = ''replay: '' @ path_filename (po_play_replay options)"

text \<open>\<open>if (tui_runner != nullptr) tui_runner->publishTilemapSource(label)\<close>.\<close>

definition publish_source :: "'u ui_ops \<Rightarrow> string \<Rightarrow> 'u \<Rightarrow> 'u" where
  "publish_source ui label u = (case ui_publishTilemapSource ui of None \<Rightarrow> u | Some publish \<Rightarrow> publish label u)"

subsection \<open>Live mode\<close>

text \<open>\<open>if (replay_writer != nullptr) replay_writer->writeChunk(bytes)\<close>: a record is encoded only to be written.\<close>

definition write_record ::
    "'s writer_ops option \<Rightarrow> byte list option \<Rightarrow> 's \<Rightarrow> ((cli_error + unit) \<times> 's) option" where
  "write_record writer bytes s = (case writer of
       None \<Rightarrow> Some (Inr (), s)
     | Some ops \<Rightarrow> do { chunk \<leftarrow> bytes; wr_chunk ops chunk s })"

text \<open>\<open>ExitSignal\<close> is the exit where the user interface asks to stop. The ticks are those that were published.\<close>

fun live_loop ::
    "'m machine_ops \<Rightarrow> uniform \<Rightarrow> 's writer_ops option \<Rightarrow> 'u ui_ops \<Rightarrow> nat \<Rightarrow> 'm match \<Rightarrow> draw_judge \<Rightarrow> 's \<Rightarrow> 'u
       \<Rightarrow> (loop_exit \<times> 'm match \<times> 's \<times> 'u \<times> tick_frame list) option" where
  "live_loop mo uniform_int writer ui 0 m judge s u = Some (ExitNoFuel, m, s, u, [])"
| "live_loop mo uniform_int writer ui (Suc fuel) m judge s u =
     (case ui_shouldStop ui u of (stop, u) \<Rightarrow>
       if stop then Some (ExitSignal, m, s, u, [])
       else do {
         m \<leftarrow> match_step mo uniform_int m;
         (tick, w) \<leftarrow> tick_fromWorldState (mt_world m);
         let m = m\<lparr>mt_world := w\<rparr>;
         (r, s) \<leftarrow> write_record writer (encodeReplayTick tick []) s;
         (case r of
            Inl e \<Rightarrow> Some (ExitError e, m, s, u, [])
          | Inr _ \<Rightarrow>
              let u = ui_publishTick ui tick u in
              if gameOver w then Some (ExitGameOver, m, s, u, [tick])
              else (case shouldDraw w judge of (draw, judge) \<Rightarrow>
                if draw then Some (ExitDraw, m\<lparr>mt_world := markRuleDraw w\<rparr>, s, u, [tick])
                else do {
                  (e, m, s, u, rest) \<leftarrow> live_loop mo uniform_int writer ui fuel m judge s u;
                  Some (e, m, s, u, tick # rest)
                }))
       })"

record ('m, 's, 'u) live_run =
  lr_header :: replay_header
  lr_ticks :: "tick_frame list"
  lr_end :: end_marker
  lr_code :: int
  lr_match :: "'m match"
  lr_sink :: 's
  lr_ui :: 'u

text \<open>
  The body of the \<open>try\<close> block of \<open>runLiveMode\<close> once the world, the judge and the writer are there, with the
  destructor of the writer. \<open>Inl\<close> is a thrown error. There is no result where the loop has not ended
  after \<open>fuel\<close> rounds or the user interface is not done.
\<close>

definition live_record ::
    "'m machine_ops \<Rightarrow> uniform \<Rightarrow> 's writer_ops option \<Rightarrow> 'u ui_ops \<Rightarrow> nat \<Rightarrow> 'm match \<Rightarrow> draw_judge \<Rightarrow> 's \<Rightarrow> 'u
       \<Rightarrow> ((cli_error \<times> 's \<times> 'u) + ('m, 's, 'u) live_run) option" where
  "live_record mo uniform_int writer ui fuel m judge s u = do {
     let close = (\<lambda>s. case writer of None \<Rightarrow> Some s | Some ops \<Rightarrow> wr_close ops s);
     let throw = (\<lambda>e s u. map_option (\<lambda>s. Inl (e, s, u)) (close s));
     header \<leftarrow> header_fromWorld (mt_world m);
     (r, s) \<leftarrow> write_record writer (encodeReplayHeader header []) s;
     (case r of
        Inl e \<Rightarrow> throw e s u
      | Inr _ \<Rightarrow> do {
          let u = ui_publishHeader ui header u;
          (e, m, s, u, ticks) \<leftarrow> live_loop mo uniform_int writer ui fuel m judge s u;
          (case e of
             ExitError e \<Rightarrow> throw e s u
           | ExitNoFuel \<Rightarrow> None
           | _ \<Rightarrow> do {
               end_marker \<leftarrow> endMarker_fromWorld (mt_world m);
               (r, s) \<leftarrow> write_record writer (Some (encodeReplayEndMarker end_marker [])) s;
               (case r of
                  Inl err \<Rightarrow> throw err s u
                | Inr _ \<Rightarrow> do {
                    (r, s) \<leftarrow> (case writer of None \<Rightarrow> Some (Inr (), s) | Some ops \<Rightarrow> wr_finish ops s);
                    (case r of
                       Inl err \<Rightarrow> throw err s u
                     | Inr _ \<Rightarrow> do {
                         (code, u) \<leftarrow> ui_wait ui (ui_publishEnd ui end_marker u);
                         s \<leftarrow> close s;
                         Some (Inr \<lparr>lr_header = header, lr_ticks = ticks, lr_end = end_marker, lr_code = code,
                           lr_match = m, lr_sink = s, lr_ui = u\<rparr>)
                       })
                  })
             })
        })
   }"

text \<open>
  What a run leaves: the user interface, the error that is thrown on to \<open>main\<close>, the exit code, the stream of
  the replay file, and, where it went to its end, the records that were published.
\<close>

record 'u live_result =
  lv_ui :: 'u
  lv_error :: "cli_error option"
  lv_code :: int
  lv_written :: "ostream option"
  lv_records :: "(replay_header \<times> tick_frame list \<times> end_marker) option"

text \<open>The \<open>catch\<close> block, and \<open>main\<close> which makes the error the exit code 1.\<close>

definition live_failed :: "'u ui_ops \<Rightarrow> cli_error \<Rightarrow> ostream option \<Rightarrow> 'u \<Rightarrow> 'u live_result option" where
  "live_failed ui e out u = do {
     (_, u) \<leftarrow> ui_wait ui (ui_requestStop ui u);
     Some \<lparr>lv_ui = u, lv_error = Some e, lv_code = 1, lv_written = out, lv_records = None\<rparr>
   }"

lemma failed_no_records: "live_failed ui err out u = Some res \<Longrightarrow> lv_records res = None"
  by (auto simp: live_failed_def bind_eq_Some_conv)

definition live_result_of ::
    "'u ui_ops \<Rightarrow> ('s \<Rightarrow> ostream option) \<Rightarrow> (cli_error \<times> 's \<times> 'u) + ('m, 's, 'u) live_run
       \<Rightarrow> 'u live_result option" where
  "live_result_of ui sink r = (case r of
       Inl (e, s, u) \<Rightarrow> live_failed ui e (sink s) u
     | Inr run \<Rightarrow> Some \<lparr>lv_ui = lr_ui run, lv_error = None, lv_code = lr_code run, lv_written = sink (lr_sink run),
         lv_records = Some (lr_header run, lr_ticks run, lr_end run)\<rparr>)"

text \<open>\<open>open_out\<close> are the files that can be opened for writing, \<open>z\<close> is the compressor.\<close>

definition runLiveMode ::
    "'m machine_ops \<Rightarrow> platform \<Rightarrow> 'c zstd_ops \<Rightarrow> (string \<Rightarrow> ostream option) \<Rightarrow> (nat \<Rightarrow> seed) \<Rightarrow> nat
       \<Rightarrow> 'u ui_ops \<Rightarrow> program_options \<Rightarrow> 'u \<Rightarrow> 'u live_result option" where
  "runLiveMode mo pf z open_out ent fuel ui options u = do {
     let u = publish_source ui (computeTilemapSourceLabel options) (ui_start ui u);
     let uniform_int = pf_uniform pf;
     r \<leftarrow> createWorldFromOptions pf options;
     (case r of
        Inl e \<Rightarrow> live_failed ui e None u
      | Inr w \<Rightarrow>
          let judge = createRuleDrawJudgeFromOptions options; m = new_match w ent in
          (case openReplayFile open_out (po_replay_file options) of
             Inl e \<Rightarrow> live_failed ui e None u
           | Inr None \<Rightarrow> do {
               r \<leftarrow> live_record mo uniform_int (None :: ostream writer_ops option) ui fuel m judge
                 (ostream_new None True) u;
               live_result_of ui (\<lambda>_. None) r
             }
           | Inr (Some stream) \<Rightarrow>
               if po_output_zstd options
               then (case zstd_writer_new z (po_output_zstd_level options) stream of
                   Inl e \<Rightarrow> live_failed ui e (Some stream) u
                 | Inr s \<Rightarrow> do {
                     r \<leftarrow> live_record mo uniform_int (Some (zstd_writer z)) ui fuel m judge s u;
                     live_result_of ui (\<lambda>s. Some (zw_stream s)) r
                   })
               else do {
                 r \<leftarrow> live_record mo uniform_int (Some raw_writer) ui fuel m judge stream u;
                 live_result_of ui Some r
               }))
   }"

subsection \<open>Playback\<close>

text \<open>
  The loop of \<open>runPlaybackMode\<close> with its user interface. There is no result where the user interface has not
  asked to stop and the replay has not ended after \<open>fuel\<close> rounds.
\<close>

fun playback_ui_loop ::
    "'s stream_ops \<Rightarrow> ('s \<Rightarrow> bool) \<Rightarrow> ('s \<Rightarrow> bool) \<Rightarrow> 'u ui_ops \<Rightarrow> string \<Rightarrow> nat \<Rightarrow> 's decoder \<Rightarrow> 'u \<Rightarrow> (int \<times> 'u) option" where
  "playback_ui_loop ops eof good ui path 0 d u = None"
| "playback_ui_loop ops eof good ui path (Suc fuel) d u =
     (case ui_shouldStop ui u of (stop, u) \<Rightarrow>
       if stop then Some (0, u)
       else if ended d then do { e \<leftarrow> decoder_endMarker d; Some (0, ui_publishEnd ui e u) }
       else do {
         (ok, d) \<leftarrow> canReadNextRecord ops d;
         if ok then do {
           (r, d) \<leftarrow> nextTick ops d;
           (case r of
              ReadError e \<Rightarrow> Some (1, ui_publishError ui (tick_error_text e) u)
            | ReadTick t \<Rightarrow> playback_ui_loop ops eof good ui path fuel d (ui_publishTick ui t u)
            | ReadEnd \<Rightarrow> do { e \<leftarrow> decoder_endMarker d; Some (0, ui_publishEnd ui e u) })
         }
         else if eof (dc_stream d) then Some (1, ui_publishError ui (tick_error_text MissingEndMarker) u)
         else if \<not> good (dc_stream d) then Some (1, ui_publishError ui (io_error_text path) u)
         else playback_ui_loop ops eof good ui path fuel d u
       })"

record 'u playback_result =
  pr_ui :: 'u
  pr_open_failed :: bool
  pr_code :: int

text \<open>\<open>input\<close> is the adapter over the opened file; \<open>None\<close> where the file cannot be opened, which is thrown.\<close>

definition runPlaybackMode ::
    "'s stream_ops \<Rightarrow> ('s \<Rightarrow> bool) \<Rightarrow> ('s \<Rightarrow> bool) \<Rightarrow> 's option \<Rightarrow> nat \<Rightarrow> 'u ui_ops \<Rightarrow> program_options \<Rightarrow> 'u
       \<Rightarrow> 'u playback_result option" where
  "runPlaybackMode ops eof good input fuel ui options u =
     (let u = publish_source ui (computePlaybackTilemapSourceLabel options) (ui_start ui u);
          wait = (\<lambda>code u. do {
            (_, u) \<leftarrow> ui_wait ui u;
            Some \<lparr>pr_ui = u, pr_open_failed = False, pr_code = code\<rparr>
          })
      in case input of
          None \<Rightarrow> do {
            (_, u) \<leftarrow> ui_wait ui (ui_requestStop ui u);
            Some \<lparr>pr_ui = u, pr_open_failed = True, pr_code = 1\<rparr>
          }
        | Some s \<Rightarrow> do {
            (ok, d) \<leftarrow> canReadHeader ops (new_decoder s);
            if \<not> ok then wait 1 (ui_publishError ui (header_error_text MissingHeader) u)
            else do {
              (r, d) \<leftarrow> readHeader ops d;
              (case r of
                 Inl e \<Rightarrow> wait 1 (ui_publishError ui (header_error_text e) u)
               | Inr _ \<Rightarrow> do {
                   h \<leftarrow> decoder_header d;
                   (code, u) \<leftarrow> playback_ui_loop ops eof good ui (po_play_replay options) fuel d (ui_publishHeader ui h u);
                   wait code u
                 })
            }
          })"

subsection \<open>One round of the live loop\<close>

text \<open>What a user interface has been shown when it has been given a tick after the other.\<close>

definition show_ticks :: "'u ui_ops \<Rightarrow> tick_frame list \<Rightarrow> 'u \<Rightarrow> 'u" where
  "show_ticks ui ts = fold (ui_publishTick ui) ts"

lemma show_ticks_simps [simp]: "show_ticks ui [] u = u" "show_ticks ui (t # ts) u = show_ticks ui ts (ui_publishTick ui t u)"
  by (simp_all add: show_ticks_def)

definition live_round ::
    "'m machine_ops \<Rightarrow> uniform \<Rightarrow> 's writer_ops option \<Rightarrow> 'm match \<Rightarrow> 's \<Rightarrow> 'm match \<Rightarrow> tick_frame \<Rightarrow> world
       \<Rightarrow> cli_error + unit \<Rightarrow> 's \<Rightarrow> bool" where
  "live_round mo uniform_int writer m s m1 t w r s1 \<longleftrightarrow> match_step mo uniform_int m = Some m1
     \<and> tick_fromWorldState (mt_world m1) = Some (t, w) \<and> write_record writer (encodeReplayTick t []) s = Some (r, s1)"

lemma live_loop_cases:
  assumes "live_loop mo uniform_int writer ui (Suc fuel) m judge s u = Some (e, m', s', u', ticks)"
  obtains (stop) "ui_shouldStop ui u = (True, u')" "e = ExitSignal" "m' = m" "s' = s" "ticks = []"
  | (failed) m1 t w err where "ui_shouldStop ui u = (False, u')" "live_round mo uniform_int writer m s m1 t w (Inl err) s'"
      "e = ExitError err" "m' = m1\<lparr>mt_world := w\<rparr>" "ticks = []"
  | (final) m1 t w u1 draw judge' where "ui_shouldStop ui u = (False, u1)"
      "live_round mo uniform_int writer m s m1 t w (Inr ()) s'" "u' = ui_publishTick ui t u1"
      "shouldDraw w judge = (draw, judge')"
      "gameOver w \<and> e = ExitGameOver \<and> m' = m1\<lparr>mt_world := w\<rparr>
        \<or> \<not> gameOver w \<and> draw \<and> e = ExitDraw \<and> m' = m1\<lparr>mt_world := markRuleDraw w\<rparr>"
      "ticks = [t]"
  | (continue) m1 t w s1 u1 judge' rest where "ui_shouldStop ui u = (False, u1)"
      "live_round mo uniform_int writer m s m1 t w (Inr ()) s1" "shouldDraw w judge = (False, judge')" "\<not> gameOver w"
      "live_loop mo uniform_int writer ui fuel (m1\<lparr>mt_world := w\<rparr>) judge' s1 (ui_publishTick ui t u1)
        = Some (e, m', s', u', rest)"
      "ticks = t # rest"
proof -
  obtain halt u1 where h: "ui_shouldStop ui u = (halt, u1)" by (cases "ui_shouldStop ui u")
  show thesis
  proof (cases halt)
    case True
    then show thesis using assms h by (intro stop) auto
  next
    case False
    then obtain m1 t w r s1 where st: "live_round mo uniform_int writer m s m1 t w r s1"
      using assms h by (auto simp: live_round_def Let_def bind_eq_Some_conv)
    note S = st [unfolded live_round_def]
    obtain draw judge' where d: "shouldDraw w judge = (draw, judge')" by (cases "shouldDraw w judge")
    show thesis
    proof (cases r)
      case (Inl err)
      then show thesis using assms S st h False by (intro failed [of m1 t w err]) (auto simp: Let_def)
    next
      case (Inr x)
      show thesis
      proof (cases "gameOver w \<or> draw")
        case True
        then show thesis using assms S st h Inr d False
          by (intro final [of u1 m1 t w draw judge']) (auto simp: Let_def split: if_splits)
      next
        case go: False
        then obtain rest where "live_loop mo uniform_int writer ui fuel (m1\<lparr>mt_world := w\<rparr>) judge' s1 (ui_publishTick ui t u1)
            = Some (e, m', s', u', rest)" "ticks = t # rest"
          using assms S Inr d h False by (auto simp: Let_def bind_eq_Some_conv)
        then show thesis using st Inr d go h False by (intro continue [of u1 m1 t w s1 judge' rest]) auto
      qed
    qed
  qed
qed

lemma live_loop_round:
  assumes "ui_shouldStop ui u = (False, u1)" "live_round mo uniform_int writer m s m1 t w (Inr ()) s1"
    "shouldDraw w judge = (draw, judge')"
  shows "live_loop mo uniform_int writer ui (Suc fuel) m judge s u =
    (if gameOver w then Some (ExitGameOver, m1\<lparr>mt_world := w\<rparr>, s1, ui_publishTick ui t u1, [t])
     else if draw then Some (ExitDraw, m1\<lparr>mt_world := markRuleDraw w\<rparr>, s1, ui_publishTick ui t u1, [t])
     else map_option (\<lambda>(e, m, s, u, rest). (e, m, s, u, t # rest))
       (live_loop mo uniform_int writer ui fuel (m1\<lparr>mt_world := w\<rparr>) judge' s1 (ui_publishTick ui t u1)))"
  using assms by (cases "live_loop mo uniform_int writer ui fuel (m1\<lparr>mt_world := w\<rparr>) judge' s1 (ui_publishTick ui t u1)")
    (auto simp: live_round_def Let_def)

lemma live_round_done:
  assumes "live_round mo uniform_int (Some ops) m s m1 t w r s1" "\<not> gameOver (mt_world m)"
  obtains c where "round_done mo uniform_int m m1 t w c" "wr_chunk ops c s = Some (r, s1)"
  using assms by (auto simp: live_round_def round_done_def write_record_def bind_eq_Some_conv)

text \<open>
  The headless loop takes the rounds that the live loop takes, with the same writer and the same judge, when it
  is not signalled. What stops the live one is not of its concern: it has run out of fuel then.
\<close>

lemma headless_loop_round:
  assumes "round_done mo uniform_int m m1 t w c" "wr_chunk ops c s = Some (Inr (), s1)" "shouldDraw w judge = (draw, judge')"
  shows "headless_loop mo uniform_int ops (\<lambda>_. False) (Suc fuel) n m judge s =
    (if gameOver w then Some (ExitGameOver, m1\<lparr>mt_world := w\<rparr>, s1, [(t, c)])
     else if draw then Some (ExitDraw, m1\<lparr>mt_world := markRuleDraw w\<rparr>, s1, [(t, c)])
     else map_option (\<lambda>(e, m, s, rest). (e, m, s, (t, c) # rest))
       (headless_loop mo uniform_int ops (\<lambda>_. False) fuel (n + 1) (m1\<lparr>mt_world := w\<rparr>) judge' s1))"
  using assms by (cases "headless_loop mo uniform_int ops (\<lambda>_. False) fuel (n + 1) (m1\<lparr>mt_world := w\<rparr>) judge' s1")
    (auto simp: round_done_def Let_def)

lemma live_loop_headless:
  assumes "live_loop mo uniform_int (Some ops) ui fuel m judge s u = Some (e, m', s', u', ticks)"
    "\<not> gameOver (mt_world m)" "\<forall>err. e \<noteq> ExitError err"
  shows "\<exists>fuel' e' pairs. headless_loop mo uniform_int ops (\<lambda>_. False) fuel' n m judge s = Some (e', m', s', pairs)
    \<and> map fst pairs = ticks \<and> (\<forall>err. e' \<noteq> ExitError err)"
  using assms
proof (induction fuel arbitrary: n m judge s u ticks)
  case 0
  then show ?case by (intro exI [of _ 0]) simp
next
  case (Suc fuel)
  from Suc.prems(1) show ?case
  proof (cases rule: live_loop_cases)
    case stop
    then show ?thesis by (intro exI [of _ 0]) simp
  next
    case (failed m1 t w err)
    then show ?thesis using Suc.prems by blast
  next
    case (final m1 t w u1 draw judge')
    obtain c where c: "round_done mo uniform_int m m1 t w c" "wr_chunk ops c s = Some (Inr (), s')"
      using live_round_done [OF final(2) Suc.prems(2)] .
    note R = headless_loop_round [OF c final(4), of 0 n]
    have "\<exists>e'. headless_loop mo uniform_int ops (\<lambda>_. False) (Suc 0) n m judge s = Some (e', m', s', [(t, c)])
        \<and> (\<forall>err. e' \<noteq> ExitError err)"
      unfolding R using final(5) by auto
    then show ?thesis using final(6) by fastforce
  next
    case (continue m1 t w s1 u1 judge' rest)
    obtain c where c: "round_done mo uniform_int m m1 t w c" "wr_chunk ops c s = Some (Inr (), s1)"
      using live_round_done [OF continue(2) Suc.prems(2)] .
    obtain fuel' e' pairs where IH:
      "headless_loop mo uniform_int ops (\<lambda>_. False) fuel' (n + 1) (m1\<lparr>mt_world := w\<rparr>) judge' s1 = Some (e', m', s', pairs)"
      "map fst pairs = rest" "\<forall>err. e' \<noteq> ExitError err"
      using Suc.IH [OF continue(5), of "n + 1"] continue(4) Suc.prems(3) by auto
    have "headless_loop mo uniform_int ops (\<lambda>_. False) (Suc fuel') n m judge s = Some (e', m', s', (t, c) # pairs)"
      unfolding headless_loop_round [OF c continue(3), of fuel' n] using continue(4) IH(1) by simp
    then show ?thesis using IH(2,3) continue(6) by (intro exI [of _ "Suc fuel'"] exI [of _ e'] exI [of _ "(t, c) # pairs"]) simp
  qed
qed

text \<open>What a user interface that never stops has been shown by the loop.\<close>

context steady_ui begin

lemma live_loop_shown:
  "live_loop mo uniform_int writer ui fuel m judge s u = Some (e, m', s', u', ticks) \<Longrightarrow> u' = show_ticks ui ticks u"
proof (induction fuel arbitrary: m judge s u ticks)
  case (Suc fuel)
  from Suc.prems show ?case by (cases rule: live_loop_cases) (auto dest!: Suc.IH)
qed simp

end

subsection \<open>The whole recording\<close>

lemma live_record_result:
  assumes "live_record mo uniform_int writer ui fuel m judge s u = Some (Inr run)"
  obtains e s1 s2 s3 s4 u2 where
    "header_fromWorld (mt_world m) = Some (lr_header run)"
    "write_record writer (encodeReplayHeader (lr_header run) []) s = Some (Inr (), s1)"
    "live_loop mo uniform_int writer ui fuel m judge s1 (ui_publishHeader ui (lr_header run) u)
       = Some (e, lr_match run, s2, u2, lr_ticks run)"
    "e \<noteq> ExitNoFuel" "\<forall>err. e \<noteq> ExitError err"
    "endMarker_fromWorld (mt_world (lr_match run)) = Some (lr_end run)"
    "write_record writer (Some (encodeReplayEndMarker (lr_end run) [])) s2 = Some (Inr (), s3)"
    "(case writer of None \<Rightarrow> Some (Inr (), s3) | Some ops \<Rightarrow> wr_finish ops s3) = Some (Inr (), s4)"
    "ui_wait ui (ui_publishEnd ui (lr_end run) u2) = Some (lr_code run, lr_ui run)"
    "(case writer of None \<Rightarrow> Some s4 | Some ops \<Rightarrow> wr_close ops s4) = Some (lr_sink run)"
proof -
  note D = assms [unfolded live_record_def Let_def]
  obtain h r1 s1 where h: "header_fromWorld (mt_world m) = Some h"
    "write_record writer (encodeReplayHeader h []) s = Some (r1, s1)"
    using D by (auto simp: bind_eq_Some_conv)
  have r1: "r1 = Inr ()" using D h by (cases r1) auto
  obtain e m' s2 u2 ticks where l: "live_loop mo uniform_int writer ui fuel m judge s1 (ui_publishHeader ui h u)
      = Some (e, m', s2, u2, ticks)"
    using D h r1 by (auto simp: bind_eq_Some_conv)
  have e: "e \<noteq> ExitNoFuel" "\<forall>err. e \<noteq> ExitError err" using D h r1 l by auto
  have D2: "do {
       end_marker \<leftarrow> endMarker_fromWorld (mt_world m');
       (r, s) \<leftarrow> write_record writer (Some (encodeReplayEndMarker end_marker [])) s2;
       (case r of
          Inl err \<Rightarrow> map_option (\<lambda>s. Inl (err, s, u2)) (case writer of None \<Rightarrow> Some s | Some ops \<Rightarrow> wr_close ops s)
        | Inr _ \<Rightarrow> do {
            (r, s) \<leftarrow> (case writer of None \<Rightarrow> Some (Inr (), s) | Some ops \<Rightarrow> wr_finish ops s);
            (case r of
               Inl err \<Rightarrow> map_option (\<lambda>s. Inl (err, s, u2)) (case writer of None \<Rightarrow> Some s | Some ops \<Rightarrow> wr_close ops s)
             | Inr _ \<Rightarrow> do {
                 (code, u) \<leftarrow> ui_wait ui (ui_publishEnd ui end_marker u2);
                 s \<leftarrow> (case writer of None \<Rightarrow> Some s | Some ops \<Rightarrow> wr_close ops s);
                 Some (Inr \<lparr>lr_header = h, lr_ticks = ticks, lr_end = end_marker, lr_code = code,
                   lr_match = m', lr_sink = s, lr_ui = u\<rparr>)
               })
          })
     } = Some (Inr run)"
    using D h r1 l e by (cases e) auto
  obtain em r3 s3 where em: "endMarker_fromWorld (mt_world m') = Some em"
    "write_record writer (Some (encodeReplayEndMarker em [])) s2 = Some (r3, s3)"
    using D2 by (auto simp: bind_eq_Some_conv)
  have r3: "r3 = Inr ()" using D2 em by (cases r3) auto
  obtain r4 s4 where f: "(case writer of None \<Rightarrow> Some (Inr (), s3) | Some ops \<Rightarrow> wr_finish ops s3) = Some (r4, s4)"
    using D2 em r3 by (auto simp: bind_eq_Some_conv split: option.split_asm)
  have r4: "r4 = Inr ()" using D2 em r3 f by (cases r4) (auto simp: bind_eq_Some_conv)
  obtain code u3 where w: "ui_wait ui (ui_publishEnd ui em u2) = Some (code, u3)"
    using D2 em r3 f r4 by (auto simp: bind_eq_Some_conv)
  obtain s5 where c: "(case writer of None \<Rightarrow> Some s4 | Some ops \<Rightarrow> wr_close ops s4) = Some s5"
    using D2 em r3 f r4 w by (auto simp: bind_eq_Some_conv)
  have "run = \<lparr>lr_header = h, lr_ticks = ticks, lr_end = em, lr_code = code, lr_match = m', lr_sink = s5, lr_ui = u3\<rparr>"
    using D2 em r3 f r4 w c by auto
  then show thesis using that h r1 l e em r3 f r4 w c by simp
qed

text \<open>The headless runner records the same match in the same way.\<close>

lemma live_record_headless:
  assumes "live_record mo uniform_int (Some ops) ui fuel m judge s u = Some (Inr run)" "\<not> gameOver (mt_world m)"
  shows "\<exists>fuel' r. headless_record mo uniform_int ops (\<lambda>_. False) fuel' m judge s = Some (Inr r)
    \<and> hr_header r = lr_header run \<and> hr_ticks r = lr_ticks run \<and> hr_end r = lr_end run \<and> hr_sink r = lr_sink run"
proof -
  obtain e s1 s2 s3 s4 u2 where S:
    "header_fromWorld (mt_world m) = Some (lr_header run)"
    "write_record (Some ops) (encodeReplayHeader (lr_header run) []) s = Some (Inr (), s1)"
    "live_loop mo uniform_int (Some ops) ui fuel m judge s1 (ui_publishHeader ui (lr_header run) u)
       = Some (e, lr_match run, s2, u2, lr_ticks run)"
    "\<forall>err. e \<noteq> ExitError err"
    "endMarker_fromWorld (mt_world (lr_match run)) = Some (lr_end run)"
    "write_record (Some ops) (Some (encodeReplayEndMarker (lr_end run) [])) s2 = Some (Inr (), s3)"
    "wr_finish ops s3 = Some (Inr (), s4)" "wr_close ops s4 = Some (lr_sink run)"
    using live_record_result [OF assms(1)] by simp metis
  obtain fuel' e' pairs where L: "headless_loop mo uniform_int ops (\<lambda>_. False) fuel' 0 m judge s1
      = Some (e', lr_match run, s2, pairs)" "map fst pairs = lr_ticks run" "\<forall>err. e' \<noteq> ExitError err"
    using live_loop_headless [OF S(3) assms(2) S(4), of 0] by blast
  have "headless_record mo uniform_int ops (\<lambda>_. False) fuel' m judge s
      = Some (Inr \<lparr>hr_exit = e', hr_header = lr_header run, hr_ticks = map fst pairs, hr_end = lr_end run,
          hr_match = lr_match run, hr_sink = lr_sink run\<rparr>)"
    using S L(1,3) by (cases e') (auto simp: headless_record_def Let_def write_record_def bind_eq_Some_conv)
  then show ?thesis using L(2) by (intro exI conjI) (assumption, simp_all)
qed

text \<open>What a user interface that never stops has been shown by a whole run.\<close>

definition show_replay :: "'u ui_ops \<Rightarrow> replay_header \<Rightarrow> tick_frame list \<Rightarrow> end_marker \<Rightarrow> 'u \<Rightarrow> 'u" where
  "show_replay ui h ts e u = ui_publishEnd ui e (show_ticks ui ts (ui_publishHeader ui h u))"

context steady_ui begin

lemma live_record_shown:
  assumes "live_record mo uniform_int writer ui fuel m judge s u = Some (Inr run)"
  shows "lr_ui run = show_replay ui (lr_header run) (lr_ticks run) (lr_end run) u"
proof -
  obtain e s1 s2 u2 where
    l: "live_loop mo uniform_int writer ui fuel m judge s1 (ui_publishHeader ui (lr_header run) u)
       = Some (e, lr_match run, s2, u2, lr_ticks run)"
    and w: "ui_wait ui (ui_publishEnd ui (lr_end run) u2) = Some (lr_code run, lr_ui run)"
    using live_record_result [OF assms] by metis
  show ?thesis using live_loop_shown [OF l] w by (simp add: show_replay_def waits)
qed

end

text \<open>
  The run from the options on: what is in the replay file, whatever the user interface does, and what a user
  interface that never stops has been shown.
\<close>

context runtime_env begin

lemma runLive_output:
  assumes P: "platform_ok pf" and Z: "zstd_stream z valid taken_of given_of pending decompress"
    and U: "uniform_int = pf_uniform pf" and fresh: "\<forall>path s. open_out path = Some s \<longrightarrow> os_data s = []"
    and w: "createWorldFromOptions pf p = Some (Inr w)"
    and size: "tm_width (w_map w) \<le> 255" "tm_height (w_map w) \<le> 255" "tm_width (w_map w) * tm_height (w_map w) \<le> 4096"
    and run: "runLiveMode mo pf z open_out ent fuel ui p u = Some res" "lv_records res = Some (h, ts, e)"
    and named: "po_replay_file p \<noteq> []" and logs: "\<forall>t\<in>set ts. length (fr_logs t) \<le> 64"
  shows "(\<exists>out. lv_written res = Some out
      \<and> (if po_output_zstd p then decompress (os_data out) else Some (os_data out)) = Some (replay_bytes h ts e))
    \<and> header_ok h \<and> (\<forall>t\<in>set ts. frame_ok t) \<and> end_ok e
    \<and> map fr_tick ts = map (\<lambda>i. word_of_nat (Suc i)) [0..<length ts]"
proof -
  let ?m = "new_match w ent :: 'm match" and ?j = "createRuleDrawJudgeFromOptions p"
    and ?u = "publish_source ui (computeTilemapSourceLabel p) (ui_start ui u)"
  note L = createWorld_legal [where 'm = 'm, OF P w, of ent]
  have R: "round_ok ?m" using L size by (simp add: round_ok_def new_match_def map_size_def)
  have B: "map_bits_ok (w_map (mt_world ?m))" "w_tick (mt_world ?m) = 0" "\<not> gameOver (mt_world ?m)"
    using L size by (simp_all add: new_match_def gameOver_def)
  obtain stream where opened: "openReplayFile open_out (po_replay_file p) = Inr (Some stream)"
    using run w named by (auto simp: runLiveMode_def Let_def openReplayFile_def dest: failed_no_records split: option.splits)
  then have empty: "os_data stream = []"
    using fresh named by (auto simp: openReplayFile_def split: option.splits)
  show ?thesis
  proof (cases "po_output_zstd p")
    case False
    then obtain lr where lr: "live_record mo uniform_int (Some raw_writer) ui fuel ?m ?j stream ?u = Some lr"
      "live_result_of ui Some lr = Some res"
      using run(1) w opened by (auto simp: runLiveMode_def Let_def U bind_eq_Some_conv)
    then obtain r where r: "lr = Inr r"
      using run(2) by (cases lr) (auto simp: live_result_of_def dest: failed_no_records)
    obtain fuel' hr where hr: "headless_record mo uniform_int raw_writer (\<lambda>_. False) fuel' ?m ?j stream = Some (Inr hr)"
      "hr_header hr = lr_header r" "hr_ticks hr = lr_ticks r" "hr_end hr = lr_end r" "hr_sink hr = lr_sink r"
      using live_record_headless [OF lr(1) [unfolded r] B(3)] by blast
    show ?thesis
      using headless_record_output [OF raw.chunk_writer_axioms TrueI empty R B(1) hr(1)]
        hr(2-) lr(2) run(2) r logs B(2) False by (fastforce simp: live_result_of_def)
  next
    case True
    then obtain s where s: "zstd_writer_new z (po_output_zstd_level p) stream = Inr s"
      using run w opened by (auto simp: runLiveMode_def Let_def dest: failed_no_records split: sum.splits)
    obtain lr where lr: "live_record mo uniform_int (Some (zstd_writer z)) ui fuel ?m ?j s ?u = Some lr"
      "live_result_of ui (\<lambda>s. Some (zw_stream s)) lr = Some res"
      using run(1) w opened s True by (auto simp: runLiveMode_def Let_def U bind_eq_Some_conv)
    then obtain r where r: "lr = Inr r"
      using run(2) by (cases lr) (auto simp: live_result_of_def dest: failed_no_records)
    obtain fuel' hr where hr: "headless_record mo uniform_int (zstd_writer z) (\<lambda>_. False) fuel' ?m ?j s = Some (Inr hr)"
      "hr_header hr = lr_header r" "hr_ticks hr = lr_ticks r" "hr_end hr = lr_end r" "hr_sink hr = lr_sink r"
      using live_record_headless [OF lr(1) [unfolded r] B(3)] by blast
    note new = zstd_stream.writer_new_ok [OF Z s empty]
    show ?thesis
      using headless_record_output [OF zstd_stream.zstd_chunk_writer [OF Z] conjunct1 [OF new] conjunct2 [OF new] R B(1) hr(1)]
        hr(2-) lr(2) run(2) r logs B(2) True by (fastforce simp: live_result_of_def)
  qed
qed

end

context steady_ui begin

lemma source_not_shown [simp]: "publish_source ui label u = u"
  by (simp add: publish_source_def no_source)

lemma live_result_shown:
  "live_record mo uniform_int writer ui fuel m judge s u = Some lr
     \<Longrightarrow> live_result_of ui sink lr = Some res \<Longrightarrow> lv_records res = Some (h, ts, e)
     \<Longrightarrow> lv_ui res = show_replay ui h ts e u"
  by (cases lr) (auto simp: live_result_of_def live_record_shown dest: failed_no_records)

lemma runLive_shown:
  assumes "runLiveMode mo pf z open_out ent fuel ui p u = Some res" "lv_records res = Some (h, ts, e)"
  shows "lv_ui res = show_replay ui h ts e (ui_start ui u)"
proof -
  obtain r where r: "createWorldFromOptions pf p = Some r"
    using assms(1) by (auto simp: runLiveMode_def Let_def bind_eq_Some_conv)
  show ?thesis
    using assms r
    by (auto simp: runLiveMode_def Let_def bind_eq_Some_conv intro: live_result_shown dest: failed_no_records split: sum.split_asm option.split_asm if_split_asm)
qed

end

subsection \<open>Playback refines the loop without a user interface\<close>

fun show_published :: "'u ui_ops \<Rightarrow> string \<Rightarrow> published \<Rightarrow> 'u \<Rightarrow> 'u" where
  "show_published ui path (PubHeader h) = ui_publishHeader ui h"
| "show_published ui path (PubTick t) = ui_publishTick ui t"
| "show_published ui path (PubEnd e) = ui_publishEnd ui e"
| "show_published ui path (PubError e) = ui_publishError ui (tick_error_text e)"
| "show_published ui path PubIOError = ui_publishError ui (io_error_text path)"

text \<open>Whatever the user interface does, what happens is what the loop does in some number of rounds.\<close>

lemma playback_ui_loop_refines:
  "playback_ui_loop ops eof good ui path fuel d u = Some (code, u')
     \<Longrightarrow> \<exists>rounds pub. rounds \<le> fuel \<and> playback_loop ops eof good rounds d = Some (pub, code)"
proof (induction fuel arbitrary: d u)
  case (Suc fuel)
  obtain halt u1 where h: "ui_shouldStop ui u = (halt, u1)" by (cases "ui_shouldStop ui u")
  show ?case
  proof (cases "halt \<or> ended d")
    case True
    then show ?thesis using Suc.prems h
      by (cases halt) (auto simp: bind_eq_Some_conv intro: exI [of _ 0] exI [of _ 1])
  next
    case False
    then obtain ok d1 where c: "canReadNextRecord ops d = Some (ok, d1)"
      using Suc.prems h by (auto simp: bind_eq_Some_conv)
    show ?thesis
    proof (cases ok)
      case True
      then obtain r d2 where n: "nextTick ops d1 = Some (r, d2)"
        using Suc.prems h False c by (auto simp: bind_eq_Some_conv)
      show ?thesis
      proof (cases r)
        case (ReadTick t)
        then obtain rounds pub where "rounds \<le> fuel" "playback_loop ops eof good rounds d2 = Some (pub, code)"
          using Suc.IH [of d2 "ui_publishTick ui t u1"] Suc.prems h False c n True by auto
        then show ?thesis using False c n True ReadTick by (intro exI [of _ "Suc rounds"]) simp
      qed (use Suc.prems h False c n True in \<open>auto simp: bind_eq_Some_conv intro!: exI [of _ 1]\<close>)
    next
      case waits: False
      show ?thesis
      proof (cases "eof (dc_stream d1) \<or> \<not> good (dc_stream d1)")
        case True
        then show ?thesis using Suc.prems h False c waits
          by (intro exI [of _ 1]) (auto split: if_split_asm)
      next
        case more: False
        then obtain rounds pub where "rounds \<le> fuel" "playback_loop ops eof good rounds d1 = Some (pub, code)"
          using Suc.IH [of d1 u1] Suc.prems h False c waits by auto
        then show ?thesis using False c waits more by (intro exI [of _ "Suc rounds"]) simp
      qed
    qed
  qed
qed simp

context steady_ui begin

text \<open>A user interface that never stops is shown all that the loop publishes, when the loop ends by itself.\<close>

lemma playback_ui_loop_shown:
  "playback_loop ops eof good fuel d = Some (pub, code) \<Longrightarrow> \<exists>p\<in>set pub. \<forall>t. p \<noteq> PubTick t
     \<Longrightarrow> playback_ui_loop ops eof good ui path fuel d u = Some (code, fold (show_published ui path) pub u)"
proof (induction fuel arbitrary: d u pub)
  case (Suc fuel)
  show ?case
  proof (cases "ended d")
    case False
    then obtain ok d1 where c: "canReadNextRecord ops d = Some (ok, d1)"
      using Suc.prems by (auto simp: bind_eq_Some_conv)
    show ?thesis
    proof (cases ok)
      case True
      then obtain r d2 where n: "nextTick ops d1 = Some (r, d2)"
        using Suc.prems False c by (auto simp: bind_eq_Some_conv)
      show ?thesis
      proof (cases r)
        case (ReadTick t)
        then obtain rest where "playback_loop ops eof good fuel d2 = Some (rest, code)" "pub = PubTick t # rest"
          using Suc.prems(1) False c n True by (auto simp: bind_eq_Some_conv)
        then show ?thesis using Suc.IH [of d2 rest "ui_publishTick ui t u"] Suc.prems(2) False c n True ReadTick
          by (simp add: never_stops)
      qed (use Suc.prems False c n True in \<open>auto simp: bind_eq_Some_conv never_stops\<close>)
    next
      case waits: False
      then show ?thesis using Suc.IH [of d1 pub u] Suc.prems False c
        by (auto simp: never_stops split: if_split_asm)
    qed
  qed (use Suc.prems in \<open>auto simp: bind_eq_Some_conv never_stops\<close>)
qed simp

end

context steady_ui begin

lemma runPlaybackMode_shown:
  assumes "runPlayback ops eof good fuel s = Some (PubHeader h # pub, code)" "\<exists>p\<in>set pub. \<forall>t. p \<noteq> PubTick t"
  shows "runPlaybackMode ops eof good (Some s) fuel ui p u = Some \<lparr>pr_ui =
      fold (show_published ui (po_play_replay p)) pub (ui_publishHeader ui h (ui_start ui u)),
      pr_open_failed = False, pr_code = code\<rparr>"
proof -
  obtain ok d where c: "canReadHeader ops (new_decoder s) = Some (ok, d)"
    using assms(1) by (auto simp: runPlayback_def bind_eq_Some_conv)
  then have ok: ok using assms(1) by (auto simp: runPlayback_def split: if_splits)
  obtain r d1 where r: "readHeader ops d = Some (r, d1)"
    using assms(1) c ok by (auto simp: runPlayback_def bind_eq_Some_conv)
  then have r': "r = Inr ()" using assms(1) c ok by (cases r) (auto simp: runPlayback_def)
  then have l: "decoder_header d1 = Some h" "playback_loop ops eof good fuel d1 = Some (pub, code)"
    using assms(1) c ok r by (auto simp: runPlayback_def bind_eq_Some_conv)
  show ?thesis
    using playback_ui_loop_shown [OF l(2) assms(2), of "po_play_replay p" "ui_publishHeader ui h (ui_start ui u)"] c ok r r' l(1)
    by (simp add: runPlaybackMode_def Let_def waits)
qed

lemma show_published_ticks: "fold (show_published ui path) (map PubTick ts) u = show_ticks ui ts u"
  by (induction ts arbitrary: u) simp_all

lemma runPlaybackMode_replay:
  assumes "runPlayback ops eof good fuel s = Some (PubHeader h # map PubTick ts @ [PubEnd e], code)"
  shows "runPlaybackMode ops eof good (Some s) fuel ui p u = Some \<lparr>pr_ui = show_replay ui h ts e (ui_start ui u),
      pr_open_failed = False, pr_code = code\<rparr>"
  using runPlaybackMode_shown [OF assms, of p u] by (simp add: show_published_ticks show_replay_def)

end

subsection \<open>The same match without a user interface\<close>

text \<open>
  With a user interface that never stops, live mode takes the rounds of a headless run that gets no signal, and
  hands the same chunks to the writer.
\<close>

context steady_ui begin

lemma headless_loop_live:
  assumes "headless_loop mo uniform_int ops (\<lambda>_. False) fuel n m judge s = Some (e, m', s', pairs)"
    "\<not> gameOver (mt_world m)"
  shows "live_loop mo uniform_int (Some ops) ui fuel m judge s u
    = Some (e, m', s', show_ticks ui (map fst pairs) u, map fst pairs)"
  using assms
proof (induction fuel arbitrary: n m judge s u pairs)
  case (Suc fuel)
  have step: "write_record (Some ops) (encodeReplayTick t []) s = Some (r, s1)"
    if "round_done mo uniform_int m m1 t w c" "wr_chunk ops c s = Some (r, s1)" for m1 t w c r s1
    using that by (simp add: round_done_def write_record_def)
  from Suc.prems(1) show ?case
  proof (cases rule: headless_loop_cases)
    case over
    then show ?thesis using Suc.prems(2) by simp
  next
    case (failed m1 t w c err)
    then show ?thesis using step [OF failed(1,2)] by (simp add: round_done_def never_stops Let_def)
  next
    case (final m1 t w c draw judge')
    then show ?thesis using step [OF final(1,2)] headless_loop_round [OF final(1,2,3), of fuel n] Suc.prems(1)
      by (auto simp: round_done_def never_stops Let_def split: if_split_asm)
  next
    case (continue m1 t w c s1 judge' rest)
    then show ?thesis
      using step [OF continue(1,2)] Suc.IH [OF continue(5), of "ui_publishTick ui t u"]
      by (simp add: round_done_def never_stops Let_def)
  qed
qed simp

lemma headless_record_live:
  assumes "headless_record mo uniform_int ops (\<lambda>_. False) fuel m judge s = Some (Inr r)"
    "\<not> gameOver (mt_world m)" "hr_exit r \<noteq> ExitNoFuel"
  shows "live_record mo uniform_int (Some ops) ui fuel m judge s u = Some (Inr
    \<lparr>lr_header = hr_header r, lr_ticks = hr_ticks r, lr_end = hr_end r,
     lr_code = 0, lr_match = hr_match r, lr_sink = hr_sink r, lr_ui = show_replay ui (hr_header r) (hr_ticks r) (hr_end r) u\<rparr>)"
proof -
  obtain e c s1 s2 s3 s4 pairs where H:
    "header_fromWorld (mt_world m) = Some (hr_header r)" "encodeReplayHeader (hr_header r) [] = Some c"
    "wr_chunk ops c s = Some (Inr (), s1)"
    "headless_loop mo uniform_int ops (\<lambda>_. False) fuel 0 m judge s1 = Some (hr_exit r, hr_match r, s2, pairs)"
    "map fst pairs = hr_ticks r" "\<forall>err. hr_exit r \<noteq> ExitError err"
    "endMarker_fromWorld (mt_world (hr_match r)) = Some (hr_end r)"
    "wr_chunk ops (encodeReplayEndMarker (hr_end r) []) s2 = Some (Inr (), s3)"
    "wr_finish ops s3 = Some (Inr (), s4)" "wr_close ops s4 = Some (hr_sink r)"
    using headless_record_result [OF assms(1)] by metis
  show ?thesis
    using H assms(3) headless_loop_live [OF H(4) assms(2), of "ui_publishHeader ui (hr_header r) u"]
    by (cases "hr_exit r") (simp_all add: live_record_def Let_def write_record_def show_replay_def waits)
qed

end

subsection \<open>The order of the calls\<close>

text \<open>
  Both modes publish the header once and first, then ticks, then at most one end marker, so what a
  user interface keeps in that order holds of it when a mode is left.
\<close>

definition left_in_order :: "(parse_phase \<Rightarrow> 'u \<Rightarrow> bool) \<Rightarrow> 'u live_result \<Rightarrow> bool" where
  "left_in_order stage res \<longleftrightarrow> (\<exists>ph. stage ph (lv_ui res) \<and> (lv_records res \<noteq> None \<longrightarrow> ph = PhaseEnd))"

context staged_ui begin

lemma source_kept: "stage ph u \<Longrightarrow> stage ph (publish_source ui label u)"
  using source by (auto simp: publish_source_def split: option.split)

lemma asked_kept: "stage ph u \<Longrightarrow> ui_shouldStop ui u = (stop, u') \<Longrightarrow> stage ph u'"
  using asked [of ph u] by simp

lemma live_loop_kept:
  "live_loop mo uniform_int writer ui fuel m judge s u = Some (e, m', s', u', ticks) \<Longrightarrow> stage PhaseTick u \<Longrightarrow> stage PhaseTick u'"
proof (induction fuel arbitrary: m judge s u ticks)
  case (Suc fuel)
  from Suc.prems(1) show ?case
  proof (cases rule: live_loop_cases)
    case (continue m1 t w s1 u1 judge' rest)
    then show ?thesis using Suc.IH [OF continue(5)] tick asked_kept [OF Suc.prems(2)] by blast
  qed (use Suc.prems(2) asked_kept tick in blast)+
qed simp

lemma live_record_kept:
  assumes "live_record mo uniform_int writer ui fuel m judge s u = Some r" "stage PhaseHeader u"
    "\<forall>h. header_fromWorld (mt_world m) = Some h \<longrightarrow> fits h"
  shows "case r of Inl (e, s, u) \<Rightarrow> \<exists>ph. stage ph u | Inr run \<Rightarrow> stage PhaseEnd (lr_ui run)"
proof (cases r)
  case (Inr run)
  obtain e s1 s2 u2 where L: "header_fromWorld (mt_world m) = Some (lr_header run)"
    "live_loop mo uniform_int writer ui fuel m judge s1 (ui_publishHeader ui (lr_header run) u)
       = Some (e, lr_match run, s2, u2, lr_ticks run)"
    "ui_wait ui (ui_publishEnd ui (lr_end run) u2) = Some (lr_code run, lr_ui run)"
    using live_record_result [OF assms(1) [unfolded Inr]] by metis
  have "stage PhaseTick u2" using live_loop_kept [OF L(2)] header [OF assms(2)] assms(3) L(1) by blast
  then show ?thesis using wait [OF end_marker L(3)] Inr by simp
next
  case (Inl x)
  obtain err s' u' where x: "x = (err, s', u')" by (cases x)
  note D = assms(1) [unfolded Inl x live_record_def Let_def]
  obtain h r1 s1 where h: "header_fromWorld (mt_world m) = Some h"
    "write_record writer (encodeReplayHeader h []) s = Some (r1, s1)"
    using D by (auto simp: bind_eq_Some_conv)
  have unit: "a \<noteq> Inr () \<longleftrightarrow> (\<exists>err. a = Inl err)" for a :: "cli_error + unit" by (cases a) auto
  have "\<exists>ph. stage ph u'"
  proof (cases r1)
    case (Inl a)
    then show ?thesis using D h assms(2) by auto
  next
    case (Inr a)
    then obtain e m' s2 u2 ticks where l: "live_loop mo uniform_int writer ui fuel m judge s1 (ui_publishHeader ui h u)
        = Some (e, m', s2, u2, ticks)"
      using D h by (auto simp: bind_eq_Some_conv)
    have k: "stage PhaseTick u2" using live_loop_kept [OF l] header [OF assms(2)] assms(3) h(1) by blast
    have "u' = u2"
      using D h Inr l unit by (auto simp: bind_eq_Some_conv split: loop_exit.split_asm sum.split_asm)
    then show ?thesis using k by blast
  qed
  then show ?thesis using Inl x by simp
qed

lemma live_failed_kept: "live_failed ui e out u = Some res \<Longrightarrow> stage ph u \<Longrightarrow> left_in_order stage res"
  using wait [OF request, of ph u] by (fastforce simp: live_failed_def left_in_order_def bind_eq_Some_conv)

lemma live_result_kept:
  assumes "live_record mo uniform_int writer ui fuel m judge s u = Some r" "live_result_of ui sink r = Some res"
    "stage PhaseHeader u" "\<forall>h. header_fromWorld (mt_world m) = Some h \<longrightarrow> fits h"
  shows "left_in_order stage res"
  using live_record_kept [OF assms(1,3,4)] assms(2)
  by (cases r) (auto simp: live_result_of_def left_in_order_def dest: live_failed_kept)

lemma runLive_kept:
  assumes run: "runLiveMode mo pf z open_out ent fuel ui p u = Some res" and u: "stage PhaseHeader u"
    and fit: "\<forall>w h. createWorldFromOptions pf p = Some (Inr w) \<longrightarrow> header_fromWorld w = Some h \<longrightarrow> fits h"
  shows "left_in_order stage res"
proof -
  obtain r where r: "createWorldFromOptions pf p = Some r"
    using run by (auto simp: runLiveMode_def Let_def bind_eq_Some_conv)
  have u0: "stage PhaseHeader (publish_source ui (computeTilemapSourceLabel p) (ui_start ui u))"
    using source_kept start u by blast
  note failed = live_failed_kept [OF _ u0]
  show ?thesis
  proof (cases r)
    case (Inl e)
    then show ?thesis using run r failed by (simp add: runLiveMode_def Let_def)
  next
    case (Inr w)
    have w: "\<forall>h. header_fromWorld (mt_world (new_match w ent)) = Some h \<longrightarrow> fits h"
      using fit r Inr by (simp add: new_match_def)
    note k = live_result_kept [OF _ _ u0 w]
    show ?thesis
      using run r Inr
      by (auto simp: runLiveMode_def Let_def bind_eq_Some_conv intro: failed k
          split: sum.split_asm option.split_asm if_split_asm)
  qed
qed

lemma playback_ui_loop_kept:
  "playback_ui_loop ops eof good ui path fuel d u = Some (code, u') \<Longrightarrow> stage PhaseTick u \<Longrightarrow> \<exists>ph. stage ph u'"
proof (induction fuel arbitrary: d u)
  case (Suc fuel)
  obtain halt u1 where h: "ui_shouldStop ui u = (halt, u1)" by (cases "ui_shouldStop ui u")
  have k: "stage PhaseTick u1" using asked_kept [OF Suc.prems(2) h] .
  have e: "\<exists>ph. stage ph (ui_publishEnd ui em u1)" "\<exists>ph. stage ph (ui_publishError ui msg u1)" "\<exists>ph. stage ph u1" for em msg
    using end_marker [OF k] error [OF k] k by blast+
  have IH: "playback_ui_loop ops eof good ui path fuel d' u1 = Some (code, u') \<Longrightarrow> \<exists>ph. stage ph u'"
    "playback_ui_loop ops eof good ui path fuel d' (ui_publishTick ui t u1) = Some (code, u') \<Longrightarrow> \<exists>ph. stage ph u'" for d' t
    using Suc.IH k tick by blast+
  show ?case
  proof (cases "halt \<or> ended d")
    case True
    then show ?thesis using Suc.prems(1) h e by (auto simp: bind_eq_Some_conv split: if_split_asm)
  next
    case False
    then obtain ok d1 where c: "canReadNextRecord ops d = Some (ok, d1)"
      using Suc.prems(1) h by (auto simp: bind_eq_Some_conv)
    show ?thesis
    proof (cases ok)
      case True
      then obtain r d2 where n: "nextTick ops d1 = Some (r, d2)"
        using Suc.prems(1) h False c by (auto simp: bind_eq_Some_conv)
      show ?thesis using Suc.prems(1) h False c True n e IH by (cases r) (auto simp: bind_eq_Some_conv)
    qed (use Suc.prems(1) h False c e IH in \<open>auto split: if_split_asm\<close>)
  qed
qed simp

lemma runPlayback_kept:
  assumes "runPlaybackMode ops eof good input fuel ui p u = Some res" "stage PhaseHeader u"
    "\<forall>s h. input = Some s \<longrightarrow> runPlayback ops eof good 0 s = Some ([PubHeader h], 0) \<longrightarrow> fits h"
  shows "\<exists>ph. stage ph (pr_ui res)"
proof -
  have u0: "stage PhaseHeader (publish_source ui (computePlaybackTilemapSourceLabel p) (ui_start ui u))"
    using source_kept start assms(2) by blast
  show ?thesis
  proof (cases input)
    case None
    then show ?thesis
      using assms(1) wait [OF request [OF u0]] by (fastforce simp: runPlaybackMode_def Let_def bind_eq_Some_conv)
  next
    case (Some s)
    obtain ok d where c: "canReadHeader ops (new_decoder s) = Some (ok, d)"
      using assms(1) Some by (auto simp: runPlaybackMode_def Let_def bind_eq_Some_conv)
    show ?thesis
    proof (cases ok)
      case False
      then show ?thesis using assms(1) Some c wait [OF error [OF u0]]
        by (fastforce simp: runPlaybackMode_def Let_def bind_eq_Some_conv)
    next
      case True
      then obtain r d1 where r: "readHeader ops d = Some (r, d1)"
        using assms(1) Some c by (auto simp: runPlaybackMode_def Let_def bind_eq_Some_conv)
      show ?thesis
      proof (cases r)
        case (Inl e)
        then show ?thesis using assms(1) Some c True r wait [OF error [OF u0]]
          by (fastforce simp: runPlaybackMode_def Let_def bind_eq_Some_conv)
      next
        case (Inr x)
        then obtain h code u2 where l: "decoder_header d1 = Some h"
          "playback_ui_loop ops eof good ui (po_play_replay p) fuel d1
             (ui_publishHeader ui h (publish_source ui (computePlaybackTilemapSourceLabel p) (ui_start ui u))) = Some (code, u2)"
          "ui_wait ui u2 = Some (fst (the (ui_wait ui u2)), pr_ui res)"
          using assms(1) Some c True r by (auto simp: runPlaybackMode_def Let_def bind_eq_Some_conv)
        have "fits h" using assms(3) Some c True r Inr l(1) by (simp add: runPlayback_def)
        then obtain ph where "stage ph u2" using playback_ui_loop_kept [OF l(2)] header [OF u0] by blast
        then show ?thesis using wait [OF _ l(3)] by blast
      qed
    qed
  qed
qed

end

end
