(* ===== verification/Tui.thy ===== *)
theory Tui
  imports Plain_UI Tilemap Text_Stream
begin

text \<open>
  What the terminal user interface draws (the functions of the unnamed namespace of \<open>src/tui.cpp\<close>). The
  elements of the ftxui library are kept as the calls that build them (\<open>element\<close>); the size of the terminal
  and the boxes of the layout come from the library and are parameters. A drawing function has no result
  where an assertion fails, an index is out of range or a negative capacity is reserved.
\<close>

subsection \<open>Elements\<close>

datatype color = RGB nat nat nat

datatype decoration =
    Color color | Bold | Dim | Yframe | ReflectLogBox | Flex | SizeWidth int | SizeHeight int

datatype element =
    Text string
  | Hbox "element list"
  | Vbox "element list"
  | Window element element
  | Separator
  | Decorated element decoration

definition min_map_window_outer_height :: int where "min_map_window_outer_height = 2"
definition min_map_content_width :: int where "min_map_content_width = 15"
definition info_panel_preferred_min_width :: int where "info_panel_preferred_min_width = 28"

definition color_plain :: color where "color_plain = RGB 190 190 190"
definition color_unit :: color where "color_unit = RGB 255 255 255"
definition color_bullet_p1 :: color where "color_bullet_p1 = RGB 255 120 120"
definition color_bullet_p2 :: color where "color_bullet_p2 = RGB 130 210 255"
definition color_base_p1 :: color where "color_base_p1 = RGB 220 90 90"
definition color_base_p2 :: color where "color_base_p2 = RGB 110 170 255"
definition color_resource :: color where "color_resource = RGB 245 208 74"
definition color_obstacle :: color where "color_obstacle = RGB 130 130 130"
definition color_water :: color where "color_water = RGB 95 170 255"
definition color_win :: color where "color_win = RGB 92 201 110"
definition color_loss :: color where "color_loss = RGB 229 96 96"
definition color_terminated :: color where "color_terminated = RGB 237 189 86"

subsection \<open>The state of the display\<close>

record viewport_size =
  vp_width :: int
  vp_height :: int
  vp_panel_width :: int
  vp_panel_height :: int

definition default_viewport :: viewport_size where
  "default_viewport = \<lparr>vp_width = 5, vp_height = 5, vp_panel_width = 5, vp_panel_height = 5\<rparr>"

record camera_state =
  cam_x :: int
  cam_y :: int
  cam_viewport :: viewport_size

record rendered_log_line =
  ll_text :: string
  ll_is_continuation :: bool

record replay_progress =
  rg_phase :: parse_phase
  rg_header :: replay_header
  rg_current_tick :: tick_frame
  rg_end_marker :: end_marker

record playback_state =
  ps_progress :: replay_progress
  ps_log_history :: "log_entry list"
  ps_last_error :: string
  ps_tilemap_source :: string

definition default_tick :: tick_frame where
  "default_tick = \<lparr>fr_tick = 0, fr_players = (\<lparr>rp_id = 0, rp_base_energy = 0, rp_base_capture_counter = 0\<rparr>,
       \<lparr>rp_id = 0, rp_base_energy = 0, rp_base_capture_counter = 0\<rparr>),
     fr_units = [], fr_bullets = [], fr_logs = []\<rparr>"

definition new_progress :: replay_progress where
  "new_progress = \<lparr>rg_phase = PhaseHeader, rg_header = default_header, rg_current_tick = default_tick,
     rg_end_marker = default_end_marker\<rparr>"

definition new_playback_state :: playback_state where
  "new_playback_state = \<lparr>ps_progress = new_progress, ps_log_history = [], ps_last_error = [],
     ps_tilemap_source = ''(unknown)''\<rparr>"

definition ps_hasHeader :: "playback_state \<Rightarrow> bool" where
  "ps_hasHeader ps \<longleftrightarrow> rg_phase (ps_progress ps) \<noteq> PhaseHeader"

definition currentTick :: "playback_state \<Rightarrow> u32" where
  "currentTick ps = (if rg_phase (ps_progress ps) = PhaseHeader then 0 else fr_tick (rg_current_tick (ps_progress ps)))"

subsection \<open>The cells of the map\<close>

definition isInBounds :: "replay_tilemap \<Rightarrow> int \<Rightarrow> int \<Rightarrow> bool" where
  "isInBounds m x y \<longleftrightarrow> x \<ge> 0 \<and> y \<ge> 0 \<and> x < uint (rt_width m) \<and> y < uint (rt_height m)"

definition tileAt :: "replay_tilemap \<Rightarrow> int \<Rightarrow> int \<Rightarrow> tile_flags option" where
  "tileAt m x y =
     (let i = y * uint (rt_width m) + x
      in if 0 \<le> i \<and> i < int (length (rt_tiles m)) then Some (rt_tiles m ! nat i) else None)"

definition findUnitAt :: "tick_frame \<Rightarrow> int \<Rightarrow> int \<Rightarrow> replay_unit option" where
  "findUnitAt t x y = find (\<lambda>u. uint (ru_x u) = x \<and> uint (ru_y u) = y) (fr_units t)"

definition findBulletAt :: "tick_frame \<Rightarrow> int \<Rightarrow> int \<Rightarrow> replay_bullet option" where
  "findBulletAt t x y = find (\<lambda>b. uint (rb_x b) = x \<and> uint (rb_y b) = y) (fr_bullets t)"

record map_cell_visual =
  mc_glyph :: char
  mc_fg :: color
  mc_emphasize :: bool

definition cell :: "char \<Rightarrow> color \<Rightarrow> bool \<Rightarrow> map_cell_visual" where
  "cell glyph fg emphasize = \<lparr>mc_glyph = glyph, mc_fg = fg, mc_emphasize = emphasize\<rparr>"

definition describeMapCell :: "playback_state \<Rightarrow> int \<Rightarrow> int \<Rightarrow> map_cell_visual option" where
  "describeMapCell ps x y = do {
     fail_fast_assert (ps_hasHeader ps);
     let m = rh_tilemap (rg_header (ps_progress ps));
     let t = rg_current_tick (ps_progress ps);
     fail_fast_assert (isInBounds m x y);
     tile \<leftarrow> tileAt m x y;
     Some (case findUnitAt t x y of
         Some u \<Rightarrow> cell (if ru_player_id u = 1 then CHR ''A'' else CHR ''V'') color_unit True
       | None \<Rightarrow> (case findBulletAt t x y of
           Some b \<Rightarrow> cell CHR ''*'' (if rb_player_id b = 1 then color_bullet_p1 else color_bullet_p2) True
         | None \<Rightarrow>
             if tf_is_base tile then cell CHR ''B'' (if tf_side tile = 1 then color_base_p1 else color_base_p2) False
             else if tf_is_resource tile then cell CHR ''$'' color_resource False
             else if tf_terrain tile = OBSTACLE then cell CHR ''#'' color_obstacle False
             else if tf_terrain tile = WATER then cell CHR ''~'' color_water False
             else cell CHR ''.'' color_plain False))
   }"

subsection \<open>The camera\<close>

definition clampCamera :: "playback_state \<Rightarrow> camera_state \<Rightarrow> camera_state" where
  "clampCamera ps c =
     (if \<not> ps_hasHeader ps
      then c\<lparr>cam_x := 0, cam_y := 0, cam_viewport := (cam_viewport c)\<lparr>vp_width := min_map_content_width, vp_height := 1\<rparr>\<rparr>
      else let m = rh_tilemap (rg_header (ps_progress ps));
               max_x = max 0 (uint (rt_width m) - vp_width (cam_viewport c));
               max_y = max 0 (uint (rt_height m) - vp_height (cam_viewport c))
        in c\<lparr>cam_x := min (max (cam_x c) 0) max_x, cam_y := min (max (cam_y c) 0) max_y\<rparr>)"

text \<open>\<open>dimx\<close> and \<open>dimy\<close> are what \<open>ftxui::Terminal::Size()\<close> returns.\<close>

definition computeViewportSize :: "int \<Rightarrow> int \<Rightarrow> playback_state \<Rightarrow> viewport_size" where
  "computeViewportSize dimx dimy ps =
     (let terminal_cols = max 1 dimx;
          terminal_rows = max 1 dimy;
          map_content_max_rows = max 1 (terminal_rows - min_map_window_outer_height);
          can_show_info_panel = terminal_cols > info_panel_preferred_min_width + min_map_content_width;
          reserved_info_width = (if can_show_info_panel then info_panel_preferred_min_width else 0);
          map_outer_max_width = terminal_cols - reserved_info_width;
          map_content_max_cols = max 1 ((map_outer_max_width - 1) div 2)
      in if \<not> ps_hasHeader ps
         then default_viewport\<lparr>vp_panel_width := min_map_content_width, vp_panel_height := map_content_max_rows\<rparr>
         else let m = rh_tilemap (rg_header (ps_progress ps));
                  panel_height = map_content_max_rows;
                  panel_width = (if can_show_info_panel
                    then max min_map_content_width (min (min map_content_max_cols panel_height) (uint (rt_width m)))
                    else max min_map_content_width map_content_max_cols)
           in \<lparr>vp_width = min (uint (rt_width m)) (max min_map_content_width panel_width),
               vp_height = min (uint (rt_height m)) (max 1 panel_height),
               vp_panel_width = panel_width, vp_panel_height = panel_height\<rparr>)"

subsection \<open>The log lines\<close>

text \<open>There is no result where \<open>back\<close> is called on an empty vector.\<close>

definition appendRenderedLogLines :: "log_entry \<Rightarrow> rendered_log_line list \<Rightarrow> rendered_log_line list option" where
  "appendRenderedLogLines entry out =
     (let group = map (\<lambda>line. \<lparr>ll_text = line, ll_is_continuation = True\<rparr>) (format_log_lines entry);
          out = out @ rev group
      in if out = [] then None else Some (butlast out @ [(last out)\<lparr>ll_is_continuation := False\<rparr>]))"

text \<open>The loop over the history, newest entry first.\<close>

fun collect_lines :: "log_entry list \<Rightarrow> int \<Rightarrow> rendered_log_line list \<Rightarrow> rendered_log_line list option" where
  "collect_lines [] rows out = Some out"
| "collect_lines (e # es) rows out = do {
     out \<leftarrow> appendRenderedLogLines e out;
     if int (length out) \<ge> rows then Some out else collect_lines es rows out
   }"

definition collectVisibleLogLines :: "playback_state \<Rightarrow> int \<Rightarrow> rendered_log_line list option" where
  "collectVisibleLogLines ps available_rows =
     (if available_rows \<le> 0 then Some []
      else do {
        out \<leftarrow> collect_lines (rev (ps_log_history ps)) available_rows [];
        if out = [] then Some [\<lparr>ll_text = ''(no logs yet)'', ll_is_continuation = False\<rparr>]
        else Some (rev (if int (length out) > available_rows then take (nat available_rows) out else out))
      })"

subsection \<open>The panels\<close>

definition renderGameStatusLine :: "playback_state \<Rightarrow> element" where
  "renderGameStatusLine ps =
     (if length (ps_last_error ps) > 0
      then Decorated (Decorated (Text (''Decode error: '' @ ps_last_error ps)) (Color color_loss)) Bold
      else if rg_phase (ps_progress ps) = PhaseEnd then
        (let e = rg_end_marker (ps_progress ps)
         in if em_termination e = EndCompleted
            then Hbox [Text ''Game over: '',
              Decorated (Decorated (Text (''P'' @ fmt_nat (em_winner_player_id e) @ '' wins'')) (Color color_win)) Bold]
            else if em_termination e = EndRuleDraw
            then Decorated (Decorated (Text ''Game over: draw'') (Color color_terminated)) Bold
            else Decorated (Decorated (Text ''Replay terminated early (unfinished)'') (Color color_terminated)) Bold)
      else Text ''Replay stream running'')"

definition log_line_element :: "rendered_log_line \<Rightarrow> element" where
  "log_line_element line = (if ll_is_continuation line then Decorated (Text (ll_text line)) Dim else Text (ll_text line))"

definition renderLogPanel :: "playback_state \<Rightarrow> int \<Rightarrow> element option" where
  "renderLogPanel ps available_rows = do {
     visible_lines \<leftarrow> collectVisibleLogLines ps available_rows;
     Some (Window (Text ''Runtime logs'')
       (Decorated (Decorated (Vbox (map log_line_element visible_lines)) Yframe) ReflectLogBox))
   }"

definition renderInfoPanel :: "playback_state \<Rightarrow> camera_state \<Rightarrow> int \<Rightarrow> element option" where
  "renderInfoPanel ps c available_rows = do {
     let status_panel = Window (Text ''Info'') (Vbox
       [Text ''W/A/S/D or arrow keys: move view'',
        Text ''Q/Esc: quit'',
        Separator,
        Text (''Current tick: '' @ dec_padded 4 (unat (currentTick ps))),
        Text (ps_tilemap_source ps),
        renderGameStatusLine ps,
        Text (''View origin: ('' @ dec_int (cam_x c) @ '', '' @ dec_int (cam_y c) @ '') - (''
          @ dec_int (cam_x c + vp_width (cam_viewport c) - 1) @ '', ''
          @ dec_int (cam_y c + vp_height (cam_viewport c) - 1) @ '')'')]);
     log_panel \<leftarrow> renderLogPanel ps available_rows;
     Some (Vbox [status_panel, Decorated log_panel Flex])
   }"

definition renderMapCell :: "playback_state \<Rightarrow> int \<Rightarrow> int \<Rightarrow> element option" where
  "renderMapCell ps x y = do {
     v \<leftarrow> describeMapCell ps x y;
     let cell = Decorated (Text [mc_glyph v]) (Color (mc_fg v));
     Some (if mc_emphasize v then Decorated cell Bold else cell)
   }"

fun map_option_list :: "('a \<Rightarrow> 'b option) \<Rightarrow> 'a list \<Rightarrow> 'b list option" where
  "map_option_list f [] = Some []"
| "map_option_list f (x # xs) = do { y \<leftarrow> f x; ys \<leftarrow> map_option_list f xs; Some (y # ys) }"

text \<open>\<open>reserve\<close> takes a \<open>size_t\<close>: a negative \<open>int\<close> is more than any vector can hold, and the call throws.\<close>

definition reserve_ok :: "int \<Rightarrow> unit option" where
  "reserve_ok n = (if n < 0 then None else Some ())"

text \<open>One row: a blank in front of every cell but the first.\<close>

definition render_row :: "playback_state \<Rightarrow> camera_state \<Rightarrow> int \<Rightarrow> element option" where
  "render_row ps c dy = do {
     reserve_ok (vp_width (cam_viewport c) * 2 - 1);
     columns \<leftarrow> map_option_list (\<lambda>dx. do {
         e \<leftarrow> renderMapCell ps (cam_x c + dx) (cam_y c + dy);
         Some (if dx > 0 then [Text '' '', e] else [e])
       }) [0..vp_width (cam_viewport c) - 1];
     Some (Hbox (concat columns))
   }"

definition renderMapPanel :: "playback_state \<Rightarrow> camera_state \<Rightarrow> element option" where
  "renderMapPanel ps c =
     (if \<not> ps_hasHeader ps
      then Some (Window (Text ''Map'') (Vbox [Text ''(waiting for replay stream...)'']))
      else do {
        reserve_ok (vp_height (cam_viewport c));
        rows \<leftarrow> map_option_list (render_row ps c) [0..vp_height (cam_viewport c) - 1];
        let m = rh_tilemap (rg_header (ps_progress ps));
        Some (Window
          (Text (''Map '' @ fmt_nat (rt_width m) @ ''x'' @ fmt_nat (rt_height m) @ ''  Tick ''
            @ dec_padded 4 (unat (currentTick ps))))
          (Decorated (Decorated (Vbox rows) (SizeWidth (vp_panel_width (cam_viewport c) * 2 - 1)))
            (SizeHeight (vp_panel_height (cam_viewport c)))))
      })"

subsection \<open>The log panel shows the last lines of the history\<close>

definition entry_lines :: "log_entry \<Rightarrow> rendered_log_line list" where
  "entry_lines e = (case format_log_lines e of
       [] \<Rightarrow> []
     | l # ls \<Rightarrow> \<lparr>ll_text = l, ll_is_continuation = False\<rparr>
         # map (\<lambda>line. \<lparr>ll_text = line, ll_is_continuation = True\<rparr>) ls)"

text \<open>The specification: all lines of all entries, in order, cut to the last ones that fit.\<close>

definition visible_log_lines :: "log_entry list \<Rightarrow> int \<Rightarrow> rendered_log_line list" where
  "visible_log_lines history rows =
     (let all = concat (map entry_lines history)
      in if rows \<le> 0 then []
         else if all = [] then [\<lparr>ll_text = ''(no logs yet)'', ll_is_continuation = False\<rparr>]
         else drop (length all - nat rows) all)"

lemma format_log_lines_nonempty: "format_log_lines e \<noteq> []"
  by (simp add: format_log_lines_def Let_def split_beta)

lemma appendRenderedLogLines_lines: "appendRenderedLogLines e out = Some (out @ rev (entry_lines e))"
  using format_log_lines_nonempty [of e]
  by (cases "format_log_lines e") (simp_all add: appendRenderedLogLines_def entry_lines_def butlast_append)

lemma collect_lines_prefix:
  "0 < rows \<Longrightarrow> \<exists>rest. collect_lines es rows out = Some (out @ rest)
     \<and> (es \<noteq> [] \<longrightarrow> rest \<noteq> []) \<and> take (nat rows) (out @ rest) = take (nat rows) (out @ concat (map (\<lambda>e. rev (entry_lines e)) es))"
proof (induction es arbitrary: out)
  case (Cons e es)
  have ne: "entry_lines e \<noteq> []"
    using format_log_lines_nonempty [of e] by (simp add: entry_lines_def split: list.splits)
  let ?out = "out @ rev (entry_lines e)"
  show ?case
  proof (cases "int (length ?out) \<ge> rows")
    case True
    then show ?thesis using ne by (simp add: appendRenderedLogLines_lines)
  next
    case False
    obtain rest where "collect_lines es rows ?out = Some (?out @ rest)"
      "take (nat rows) (?out @ rest) = take (nat rows) (?out @ concat (map (\<lambda>e. rev (entry_lines e)) es))"
      using Cons.IH [OF Cons.prems, of ?out] by blast
    then show ?thesis using False ne
      by (intro exI [of _ "rev (entry_lines e) @ rest"]) (simp add: appendRenderedLogLines_lines)
  qed
qed simp

lemma rev_entry_lines: "concat (map (\<lambda>e. rev (entry_lines e)) (rev es)) = rev (concat (map entry_lines es))"
  by (induction es) simp_all

lemma collectVisibleLogLines_spec:
  "collectVisibleLogLines ps rows = Some (visible_log_lines (ps_log_history ps) rows)"
proof (cases "rows \<le> 0")
  case False
  let ?h = "ps_log_history ps" and ?all = "concat (map entry_lines (ps_log_history ps))"
  obtain out where out: "collect_lines (rev ?h) rows [] = Some out" "?h \<noteq> [] \<longrightarrow> out \<noteq> []"
    "take (nat rows) out = take (nat rows) (rev ?all)"
    using collect_lines_prefix [of rows "rev ?h" "[]"] False by (auto simp: rev_entry_lines)
  have e: "out = [] \<longleftrightarrow> ?all = []"
  proof
    assume "?all = []"
    then have "take (nat rows) out = []" using out(3) by simp
    then show "out = []" using False by (cases out) auto
  qed (use out(2) in auto)
  have "rev (take (nat rows) out) = drop (length ?all - nat rows) ?all" by (simp add: out(3) rev_take)
  then show ?thesis using False out(1) e
    by (auto simp: collectVisibleLogLines_def visible_log_lines_def Let_def)
qed (simp add: collectVisibleLogLines_def visible_log_lines_def)

subsection \<open>The map panel is always within the map\<close>

text \<open>A header that the map panel can show: every cell has its tile, and a map with rows has columns.\<close>

definition drawable :: "replay_tilemap \<Rightarrow> bool" where
  "drawable m \<longleftrightarrow> unat (rt_width m) * unat (rt_height m) \<le> length (rt_tiles m) \<and> (rt_width m = 0 \<longrightarrow> rt_height m = 0)"

definition ps_drawable :: "playback_state \<Rightarrow> bool" where
  "ps_drawable ps \<longleftrightarrow> (ps_hasHeader ps \<longrightarrow> drawable (rh_tilemap (rg_header (ps_progress ps))))"

definition camera_within :: "playback_state \<Rightarrow> camera_state \<Rightarrow> bool" where
  "camera_within ps c \<longleftrightarrow> (ps_hasHeader ps \<longrightarrow>
     (let m = rh_tilemap (rg_header (ps_progress ps)) in
       0 \<le> cam_x c \<and> cam_x c + vp_width (cam_viewport c) \<le> uint (rt_width m)
       \<and> 0 \<le> cam_y c \<and> cam_y c + vp_height (cam_viewport c) \<le> uint (rt_height m)
       \<and> (0 < uint (rt_width m) \<longrightarrow> 0 < vp_width (cam_viewport c)) \<and> 0 \<le> vp_height (cam_viewport c)))"

lemma map_option_list_Some: "(\<forall>x\<in>set xs. \<exists>y. f x = Some y) \<Longrightarrow> \<exists>ys. map_option_list f xs = Some ys"
  by (induction xs) auto

lemma tileAt_bounds:
  assumes "isInBounds m x y" "drawable m"
  shows "\<exists>t. tileAt m x y = Some t"
proof -
  have "y * uint (rt_width m) + x < (y + 1) * uint (rt_width m)" using assms(1) by (simp add: isInBounds_def algebra_simps)
  also have "\<dots> \<le> uint (rt_height m) * uint (rt_width m)"
    using assms(1) by (intro mult_right_mono) (simp_all add: isInBounds_def)
  also have "\<dots> = int (unat (rt_width m) * unat (rt_height m))" by (simp add: mult.commute)
  also have "\<dots> \<le> int (length (rt_tiles m))" using assms(2) by (simp only: drawable_def of_nat_le_iff)
  finally show ?thesis using assms(1) by (simp add: tileAt_def Let_def isInBounds_def)
qed

lemma describeMapCell_ok:
  assumes "ps_hasHeader ps" "ps_drawable ps" "isInBounds (rh_tilemap (rg_header (ps_progress ps))) x y"
  shows "\<exists>v. describeMapCell ps x y = Some v"
  using tileAt_bounds [OF assms(3)] assms by (auto simp: describeMapCell_def ps_drawable_def Let_def fail_fast_assert_def)

lemma renderMapPanel_ok:
  assumes "ps_drawable ps" "camera_within ps c"
  shows "\<exists>e. renderMapPanel ps c = Some e"
proof (cases "ps_hasHeader ps")
  case True
  let ?m = "rh_tilemap (rg_header (ps_progress ps))" and ?v = "cam_viewport c"
  have C: "0 \<le> cam_x c" "cam_x c + vp_width ?v \<le> uint (rt_width ?m)" "0 \<le> cam_y c"
    "cam_y c + vp_height ?v \<le> uint (rt_height ?m)" "0 < uint (rt_width ?m) \<longrightarrow> 0 < vp_width ?v" "0 \<le> vp_height ?v"
    using assms(2) True by (simp_all add: camera_within_def Let_def)
  have row: "\<exists>e. render_row ps c dy = Some e" if dy: "dy \<in> set [0..vp_height ?v - 1]" for dy
  proof -
    have h: "0 \<le> dy" "dy < vp_height ?v" using dy by auto
    then have "uint (rt_height ?m) \<noteq> 0" using C(3,4) by linarith
    then have "uint (rt_width ?m) \<noteq> 0"
      using assms(1) True by (auto simp: ps_drawable_def drawable_def uint_0_iff)
    then have w: "0 < vp_width ?v" using C(5) uint_ge_0 [of "rt_width ?m"] by linarith
    have "\<exists>cols. map_option_list (\<lambda>dx. do {
        e \<leftarrow> renderMapCell ps (cam_x c + dx) (cam_y c + dy);
        Some (if dx > 0 then [Text '' '', e] else [e]) }) [0..vp_width ?v - 1] = Some cols"
    proof (rule map_option_list_Some, rule ballI)
      fix dx assume dx: "dx \<in> set [0..vp_width ?v - 1]"
      have "isInBounds ?m (cam_x c + dx) (cam_y c + dy)"
        using dx h C(1-4) by (simp add: isInBounds_def)
      from describeMapCell_ok [OF True assms(1) this]
      show "\<exists>y. do { e \<leftarrow> renderMapCell ps (cam_x c + dx) (cam_y c + dy);
        Some (if dx > 0 then [Text '' '', e] else [e]) } = Some y" by (auto simp: renderMapCell_def Let_def)
    qed
    then show ?thesis using w by (auto simp: render_row_def reserve_ok_def)
  qed
  have "\<exists>rows. map_option_list (render_row ps c) [0..vp_height ?v - 1] = Some rows"
    by (rule map_option_list_Some) (use row in blast)
  then obtain rows where rows: "map_option_list (render_row ps c) [0..vp_height ?v - 1] = Some rows" by blast
  have "reserve_ok (vp_height ?v) = Some ()" using C(6) by (simp add: reserve_ok_def)
  then show ?thesis unfolding renderMapPanel_def Let_def using True rows by simp
qed (simp add: renderMapPanel_def)

lemma clamp_within:
  "0 \<le> min (max x 0) (max 0 (w - v)) \<and> (v \<le> w \<longrightarrow> min (max x 0) (max 0 (w - v)) + v \<le> w)" for x w v :: int
  by (auto simp: min_def max_def)

lemma viewport_shape:
  assumes "ps_hasHeader ps" "m = rh_tilemap (rg_header (ps_progress ps))"
  shows "\<exists>pw ph. computeViewportSize dimx dimy ps = \<lparr>vp_width = min (uint (rt_width m)) (max 15 pw),
    vp_height = min (uint (rt_height m)) (max 1 ph), vp_panel_width = pw, vp_panel_height = ph\<rparr>"
  unfolding computeViewportSize_def Let_def min_map_content_width_def assms(2)
  using assms(1) by (simp only: if_False simp_thms) blast

lemma viewport_within:
  assumes "ps_hasHeader ps" "m = rh_tilemap (rg_header (ps_progress ps))" "v = computeViewportSize dimx dimy ps"
  shows "vp_width v \<le> uint (rt_width m)" "vp_height v \<le> uint (rt_height m)"
    "0 < uint (rt_width m) \<longrightarrow> 0 < vp_width v" "0 \<le> vp_height v"
proof -
  obtain pw ph where v: "vp_width v = min (uint (rt_width m)) (max 15 pw)" "vp_height v = min (uint (rt_height m)) (max 1 ph)"
    using viewport_shape [OF assms(1,2), of dimx dimy] assms(3) by auto
  show "vp_width v \<le> uint (rt_width m)" "vp_height v \<le> uint (rt_height m)"
    "0 < uint (rt_width m) \<longrightarrow> 0 < vp_width v" "0 \<le> vp_height v"
    unfolding v by (simp_all add: min_def max_def)
qed

lemma clampCamera_within:
  assumes "ps_hasHeader ps \<longrightarrow> (let m = rh_tilemap (rg_header (ps_progress ps)); v = cam_viewport c in
      vp_width v \<le> uint (rt_width m) \<and> vp_height v \<le> uint (rt_height m)
      \<and> (0 < uint (rt_width m) \<longrightarrow> 0 < vp_width v) \<and> 0 \<le> vp_height v)"
  shows "camera_within ps (clampCamera ps c)"
  using assms clamp_within by (simp add: camera_within_def clampCamera_def Let_def)

lemma clamped_camera_within:
  "camera_within ps (clampCamera ps (c\<lparr>cam_viewport := computeViewportSize dimx dimy ps\<rparr>))"
  using viewport_within [OF _ refl refl, of ps dimx dimy] by (intro clampCamera_within) (simp add: Let_def)

text \<open>The clamp of a key press keeps within the map what was within it, for the viewport it has.\<close>

lemma clamp_keeps_within:
  "camera_within ps c \<Longrightarrow> cam_viewport c' = cam_viewport c \<Longrightarrow> camera_within ps (clampCamera ps c')"
  by (intro clampCamera_within) (auto simp: camera_within_def Let_def)

lemma renderInfoPanel_ok: "\<exists>e. renderInfoPanel ps c rows = Some e"
  by (simp add: renderInfoPanel_def renderLogPanel_def collectVisibleLogLines_spec Let_def)

end
