(* ===== verification/Tui_Runner.thy ===== *)
theory Tui_Runner
  imports Tui
begin

text \<open>
  \<open>TuiRunner\<close> (\<open>include/corertt/tui.h\<close>, the end of \<open>src/tui.cpp\<close>): the state that the main thread and the
  thread of the terminal share under a mutex, the state of the second thread, its event handler and its
  renderer, and the operations of the main thread. What the second thread does between two operations of the
  main thread is a schedule, a parameter: the ftxui library decides when events are delivered, when the root
  is rendered and where the layout puts the boxes.
\<close>

subsection \<open>The state\<close>

text \<open>
  \<open>tu_exited\<close>: the screen loop was told to exit. \<open>tu_faulted\<close>: a drawing function had no result, which ends the
  process. \<open>tu_moment\<close> counts the operations of the main thread. The box of the log panel is its first and
  last row.
\<close>

record tui =
  tu_progress :: replay_progress
  tu_last_error :: string
  tu_tilemap_source :: string
  tu_joinable :: bool
  tu_stop_requested :: bool
  tu_camera :: camera_state
  tu_box :: "int \<times> int"
  tu_playback :: playback_state
  tu_exited :: bool
  tu_faulted :: bool
  tu_moment :: nat

definition new_camera :: camera_state where
  "new_camera = \<lparr>cam_x = 0, cam_y = 0, cam_viewport = default_viewport\<rparr>"

definition tui_new :: tui where
  "tui_new = \<lparr>tu_progress = new_progress, tu_last_error = [], tu_tilemap_source = [], tu_joinable = False,
     tu_stop_requested = False, tu_camera = new_camera, tu_box = (0, 0), tu_playback = new_playback_state,
     tu_exited = False, tu_faulted = False, tu_moment = 0\<rparr>"

definition availableRows :: "int \<times> int \<Rightarrow> int" where
  "availableRows box = snd box - fst box + 1"

subsection \<open>The terminal thread\<close>

datatype event = Custom | Key char | Escape | ArrowUp | ArrowDown | ArrowLeft | ArrowRight | OtherEvent

definition max_log_history :: nat where "max_log_history = 120"

text \<open>What a custom event does under the lock.\<close>

definition sync_playback :: "tui \<Rightarrow> playback_state \<Rightarrow> playback_state" where
  "sync_playback t ps =
     (let prev_tick = currentTick ps;
          ps = (if rg_phase (tu_progress t) \<noteq> rg_phase (ps_progress ps) then ps\<lparr>ps_progress := tu_progress t\<rparr>
                else if rg_phase (tu_progress t) \<noteq> PhaseHeader
                then ps\<lparr>ps_progress := (ps_progress ps)\<lparr>rg_current_tick := rg_current_tick (tu_progress t)\<rparr>\<rparr>
                else ps);
          ps = (if length (tu_last_error t) > 0 then ps\<lparr>ps_last_error := tu_last_error t\<rparr> else ps);
          ps = (if length (tu_tilemap_source t) > 0 then ps\<lparr>ps_tilemap_source := tu_tilemap_source t\<rparr> else ps)
      in if rg_phase (ps_progress ps) \<noteq> PhaseHeader \<and> fr_tick (rg_current_tick (ps_progress ps)) \<noteq> prev_tick
         then let history = ps_log_history ps @ fr_logs (rg_current_tick (ps_progress ps))
              in ps\<lparr>ps_log_history := (if length history > 2 * max_log_history
                   then drop (length history - max_log_history) history else history)\<rparr>
         else ps)"

definition tui_shouldStop :: "tui \<Rightarrow> bool" where
  "tui_shouldStop t \<longleftrightarrow> tu_joinable t \<and> tu_stop_requested t"

definition move_camera :: "int \<Rightarrow> int \<Rightarrow> tui \<Rightarrow> tui" where
  "move_camera dx dy t = t\<lparr>tu_camera := clampCamera (tu_playback t)
     ((tu_camera t)\<lparr>cam_x := cam_x (tu_camera t) + dx, cam_y := cam_y (tu_camera t) + dy\<rparr>)\<rparr>"

text \<open>The handler answers whether it has used the event.\<close>

definition handle_event :: "event \<Rightarrow> tui \<Rightarrow> bool \<times> tui" where
  "handle_event e t =
     (if e = Custom then
        (if tu_stop_requested t \<or> tui_shouldStop t then (True, t\<lparr>tu_exited := True\<rparr>)
         else (True, t\<lparr>tu_playback := sync_playback t (tu_playback t)\<rparr>))
      else if e = Key CHR ''q'' \<or> e = Key CHR ''Q'' \<or> e = Escape then
        (True, (if tu_joinable t then t\<lparr>tu_stop_requested := True\<rparr> else t)\<lparr>tu_exited := True\<rparr>)
      else let
        (moved, t) = (if e = Key CHR ''w'' \<or> e = Key CHR ''W'' \<or> e = ArrowUp then (True, move_camera 0 (- 1) t) else (False, t));
        (moved, t) = (if e = Key CHR ''s'' \<or> e = Key CHR ''S'' \<or> e = ArrowDown then (True, move_camera 0 1 t) else (moved, t));
        (moved, t) = (if e = Key CHR ''a'' \<or> e = Key CHR ''A'' \<or> e = ArrowLeft then (True, move_camera (- 1) 0 t) else (moved, t));
        (moved, t) = (if e = Key CHR ''d'' \<or> e = Key CHR ''D'' \<or> e = ArrowRight then (True, move_camera 1 0 t) else (moved, t))
      in (moved, t))"

text \<open>
  The renderer. It asks for the size of the terminal twice: \<open>dimx\<close> and \<open>dimy\<close> for the viewport, \<open>cols\<close> for the
  choice of the panels.
\<close>

definition render_root :: "int \<Rightarrow> int \<Rightarrow> int \<Rightarrow> tui \<Rightarrow> (element \<times> tui) option" where
  "render_root dimx dimy cols t = do {
     let ps = tu_playback t;
     let camera = clampCamera ps ((tu_camera t)\<lparr>cam_viewport := computeViewportSize dimx dimy ps\<rparr>);
     let t = t\<lparr>tu_camera := camera\<rparr>;
     map_panel \<leftarrow> renderMapPanel ps camera;
     if max 1 cols \<le> info_panel_preferred_min_width + min_map_content_width then Some (map_panel, t)
     else do {
       info_panel \<leftarrow> renderInfoPanel ps camera (availableRows (tu_box t));
       Some (Hbox [map_panel, Decorated info_panel Flex], t)
     }
   }"

datatype ui_action = Event event | Render int int int | Layout int int

definition run_action :: "ui_action \<Rightarrow> tui \<Rightarrow> tui" where
  "run_action a t =
     (if \<not> tu_joinable t \<or> tu_exited t \<or> tu_faulted t then t
      else (case a of
          Event e \<Rightarrow> snd (handle_event e t)
        | Render dimx dimy cols \<Rightarrow> (case render_root dimx dimy cols t of
            None \<Rightarrow> t\<lparr>tu_faulted := True\<rparr>
          | Some (_, t) \<Rightarrow> t)
        | Layout y_min y_max \<Rightarrow> t\<lparr>tu_box := (y_min, y_max)\<rparr>))"

subsection \<open>The operations of the main thread\<close>

text \<open>\<open>sched n\<close> is what the terminal thread does before the \<open>n\<close>-th operation of the main thread.\<close>

definition ui_turn :: "(nat \<Rightarrow> ui_action list) \<Rightarrow> tui \<Rightarrow> tui" where
  "ui_turn sched t = (fold run_action (sched (tu_moment t)) t)\<lparr>tu_moment := tu_moment t + 1\<rparr>"

definition tui_start :: "tui \<Rightarrow> tui" where
  "tui_start t = (if tu_joinable t then t
     else t\<lparr>tu_joinable := True, tu_stop_requested := False, tu_camera := new_camera, tu_box := (0, 0),
       tu_playback := new_playback_state, tu_exited := False\<rparr>)"

definition tui_publishHeader :: "replay_header \<Rightarrow> tui \<Rightarrow> tui" where
  "tui_publishHeader h t = t\<lparr>tu_progress := (tu_progress t)\<lparr>rg_phase := PhaseTick, rg_header := h\<rparr>\<rparr>"

definition tui_publishTick :: "tick_frame \<Rightarrow> tui \<Rightarrow> tui" where
  "tui_publishTick tick t = t\<lparr>tu_progress := (tu_progress t)\<lparr>rg_current_tick := tick\<rparr>\<rparr>"

definition tui_publishEnd :: "end_marker \<Rightarrow> tui \<Rightarrow> tui" where
  "tui_publishEnd e t = t\<lparr>tu_progress := (tu_progress t)\<lparr>rg_phase := PhaseEnd, rg_end_marker := e\<rparr>\<rparr>"

definition tui_publishError :: "string \<Rightarrow> tui \<Rightarrow> tui" where
  "tui_publishError message t = t\<lparr>tu_last_error := message\<rparr>"

definition tui_publishTilemapSource :: "string \<Rightarrow> tui \<Rightarrow> tui" where
  "tui_publishTilemapSource source t = t\<lparr>tu_tilemap_source := source\<rparr>"

definition tui_requestStop :: "tui \<Rightarrow> tui" where
  "tui_requestStop t = (if tu_joinable t then t\<lparr>tu_stop_requested := True\<rparr> else t)"

text \<open>
  \<open>join\<close> returns when the screen loop has exited; there is no result where the terminal thread's next
  actions do not make it exit.
\<close>

definition tui_wait :: "(nat \<Rightarrow> ui_action list) \<Rightarrow> tui \<Rightarrow> (int \<times> tui) option" where
  "tui_wait sched t =
     (if \<not> tu_joinable t then Some (0, t)
      else let t = ui_turn sched t
           in if tu_exited t then Some (0, t\<lparr>tu_joinable := False\<rparr>) else None)"

definition tui_ops :: "(nat \<Rightarrow> ui_action list) \<Rightarrow> tui ui_ops" where
  "tui_ops sched =
     \<lparr>ui_start = tui_start, ui_wait = tui_wait sched,
      ui_publishHeader = (\<lambda>h t. tui_publishHeader h (ui_turn sched t)),
      ui_publishTick = (\<lambda>tick t. tui_publishTick tick (ui_turn sched t)),
      ui_publishEnd = (\<lambda>e t. tui_publishEnd e (ui_turn sched t)),
      ui_publishError = (\<lambda>message t. tui_publishError message (ui_turn sched t)),
      ui_shouldStop = (\<lambda>t. let t = ui_turn sched t in (tui_shouldStop t, t)),
      ui_requestStop = (\<lambda>t. tui_requestStop (ui_turn sched t)),
      ui_publishTilemapSource = Some (\<lambda>source t. tui_publishTilemapSource source (ui_turn sched t))\<rparr>"

subsection \<open>What never fails\<close>

text \<open>
  The history is bounded, the camera is within the map for the viewport it has, and everything that is shown
  or waits to be shown can be drawn: then no drawing function fails.
\<close>

definition camera_kept :: "tui \<Rightarrow> bool" where
  "camera_kept t \<longleftrightarrow> 0 \<le> cam_x (tu_camera t) \<and> 0 \<le> cam_y (tu_camera t)"

definition tui_inv :: "tui \<Rightarrow> bool" where
  "tui_inv t \<longleftrightarrow> \<not> tu_faulted t \<and> camera_kept t
     \<and> drawable (rh_tilemap (rg_header (tu_progress t)))
     \<and> drawable (rh_tilemap (rg_header (ps_progress (tu_playback t))))
     \<and> length (ps_log_history (tu_playback t)) \<le> 2 * max_log_history"

lemma clampCamera_kept: "0 \<le> cam_x (clampCamera ps c) \<and> 0 \<le> cam_y (clampCamera ps c)"
  by (simp add: clampCamera_def Let_def)

lemma move_camera_simps [simp]:
  "tu_playback (move_camera dx dy t) = tu_playback t" "tu_progress (move_camera dx dy t) = tu_progress t"
  "tu_faulted (move_camera dx dy t) = tu_faulted t" "tu_stop_requested (move_camera dx dy t) = tu_stop_requested t"
  "tu_joinable (move_camera dx dy t) = tu_joinable t" "tu_exited (move_camera dx dy t) = tu_exited t"
  "camera_kept (move_camera dx dy t)"
  using clampCamera_kept by (simp_all add: move_camera_def camera_kept_def)

lemma new_playback_values [simp]:
  "ps_log_history new_playback_state = []" "rg_phase (ps_progress new_playback_state) = PhaseHeader"
  "ps_progress new_playback_state = new_progress" "\<not> ps_hasHeader new_playback_state"
  by (simp_all add: new_playback_state_def new_progress_def ps_hasHeader_def)

lemma default_drawable [simp]: "drawable (rh_tilemap (rg_header new_progress))"
  by (simp add: new_progress_def default_header_def drawable_def)

lemma sync_playback_progress:
  "ps_progress (sync_playback t ps) =
     (if rg_phase (tu_progress t) \<noteq> rg_phase (ps_progress ps) then tu_progress t
      else if rg_phase (tu_progress t) \<noteq> PhaseHeader
      then (ps_progress ps)\<lparr>rg_current_tick := rg_current_tick (tu_progress t)\<rparr> else ps_progress ps)"
  by (simp add: sync_playback_def Let_def)

lemma sync_playback_history:
  "ps_log_history (sync_playback t ps) = ps_log_history ps
   \<or> (let h = ps_log_history ps @ fr_logs (rg_current_tick (ps_progress (sync_playback t ps)))
      in ps_log_history (sync_playback t ps) = (if length h > 2 * max_log_history then drop (length h - max_log_history) h else h))"
  by (simp add: sync_playback_def Let_def)

lemma sync_playback_bounded:
  assumes "length (ps_log_history ps) \<le> 2 * max_log_history"
  shows "length (ps_log_history (sync_playback t ps)) \<le> 2 * max_log_history"
  using sync_playback_history [of t ps] assms by (auto simp: Let_def max_log_history_def split: if_splits)

lemma move_camera_inv [simp]: "tui_inv t \<Longrightarrow> tui_inv (move_camera dx dy t)"
  by (simp add: tui_inv_def)

lemma sync_inv: "tui_inv t \<Longrightarrow> tui_inv (t\<lparr>tu_playback := sync_playback t (tu_playback t)\<rparr>)"
  using sync_playback_bounded [of "tu_playback t" t]
  by (simp add: tui_inv_def sync_playback_progress camera_kept_def)

lemma handle_event_inv: "tui_inv t \<Longrightarrow> tui_inv (snd (handle_event e t))"
proof (cases "e = Custom")
  case True
  have "tui_inv t \<Longrightarrow> tui_inv (t\<lparr>tu_exited := True\<rparr>)" by (simp add: tui_inv_def camera_kept_def)
  then show "tui_inv t \<Longrightarrow> ?thesis" using True sync_inv [of t] by (simp add: handle_event_def)
next
  case False
  assume inv: "tui_inv t"
  have quit: "tui_inv ((if tu_joinable t then t\<lparr>tu_stop_requested := True\<rparr> else t)\<lparr>tu_exited := True\<rparr>)"
    using inv by (simp add: tui_inv_def camera_kept_def)
  have two: "tui_inv (snd (if P then (True, move_camera dx dy (snd p)) else p))" if "tui_inv (snd p)" for P dx dy p
    using that by simp
  show ?thesis
    using False quit inv unfolding handle_event_def Let_def split_beta
    by (simp only: if_False if_True simp_thms snd_conv two split: if_split) simp
qed

lemma render_root_ok: "tui_inv t \<Longrightarrow> \<exists>e t'. render_root dimx dimy cols t = Some (e, t') \<and> tui_inv t'"
proof -
  assume inv: "tui_inv t"
  let ?ps = "tu_playback t"
  let ?c = "clampCamera ?ps ((tu_camera t)\<lparr>cam_viewport := computeViewportSize dimx dimy ?ps\<rparr>)"
  have "ps_drawable ?ps" using inv by (simp add: tui_inv_def ps_drawable_def)
  then obtain e where e: "renderMapPanel ?ps ?c = Some e" using renderMapPanel_ok clamped_camera_within by blast
  have "tui_inv (t\<lparr>tu_camera := ?c\<rparr>)"
    using inv clampCamera_kept by (simp add: tui_inv_def camera_kept_def)
  then show ?thesis
    using e renderInfoPanel_ok [of ?ps ?c "availableRows (tu_box t)"] by (auto simp: render_root_def Let_def)
qed

lemma run_action_inv: "tui_inv t \<Longrightarrow> tui_inv (run_action a t)"
proof (cases a)
  case (Render dimx dimy cols)
  then show "tui_inv t \<Longrightarrow> ?thesis" using render_root_ok [of t dimx dimy cols] by (auto simp: run_action_def)
next
  case (Event e)
  then show "tui_inv t \<Longrightarrow> ?thesis" by (simp add: run_action_def handle_event_inv)
qed (simp add: run_action_def, simp add: tui_inv_def camera_kept_def)

lemma actions_inv: "tui_inv t \<Longrightarrow> tui_inv (fold run_action as t)"
  by (induction as arbitrary: t) (simp_all add: run_action_inv)

lemma ui_turn_inv: "tui_inv t \<Longrightarrow> tui_inv (ui_turn sched t)"
  using actions_inv [of t] by (auto simp: ui_turn_def tui_inv_def camera_kept_def)

subsection \<open>What is shown catches up with what is published\<close>

text \<open>
  The steps that the two modes take, in the order they take them: the header is published first and once, then
  ticks, then the end marker. The terminal thread acts at any moment.
\<close>

inductive tui_step :: "tui \<Rightarrow> tui \<Rightarrow> bool" where
  start: "tui_step t (tui_start t)"
| action: "tui_step t (run_action a t)"
| moment: "tui_step t (t\<lparr>tu_moment := n\<rparr>)"
| header: "rg_phase (tu_progress t) = PhaseHeader \<Longrightarrow> tui_step t (tui_publishHeader h t)"
| tick: "rg_phase (tu_progress t) = PhaseTick \<Longrightarrow> tui_step t (tui_publishTick tick t)"
| end_marker: "rg_phase (tu_progress t) = PhaseTick \<Longrightarrow> tui_step t (tui_publishEnd e t)"
| error: "tui_step t (tui_publishError message t)"
| source: "tui_step t (tui_publishTilemapSource source t)"
| request: "tui_step t (tui_requestStop t)"
| join: "tu_exited t \<Longrightarrow> tui_step t (t\<lparr>tu_joinable := False\<rparr>)"

inductive_cases tui_stepE: "tui_step t t'"

inductive tui_reachable :: "tui \<Rightarrow> bool" where
  init: "tui_reachable tui_new"
| step: "tui_reachable t \<Longrightarrow> tui_step t t' \<Longrightarrow> tui_reachable t'"

text \<open>How far the display may be behind: it has a header or an end marker only if it is the published one.\<close>

definition behind :: "replay_progress \<Rightarrow> replay_progress \<Rightarrow> bool" where
  "behind shown published \<longleftrightarrow>
     (case rg_phase shown of
        PhaseHeader \<Rightarrow> shown = new_progress
      | PhaseTick \<Rightarrow> rg_phase published \<noteq> PhaseHeader \<and> rg_header shown = rg_header published
          \<and> rg_end_marker shown = default_end_marker
      | PhaseEnd \<Rightarrow> rg_phase published = PhaseEnd \<and> shown = published)
     \<and> (rg_phase published = PhaseHeader \<longrightarrow> published = new_progress)
     \<and> (rg_phase published = PhaseTick \<longrightarrow> rg_end_marker published = default_end_marker)"

definition tui_behind :: "tui \<Rightarrow> bool" where
  "tui_behind t \<longleftrightarrow> behind (ps_progress (tu_playback t)) (tu_progress t)"

lemma behind_new: "behind new_progress new_progress"
  by (simp add: behind_def new_progress_def)

lemma sync_catches_up:
  "behind (ps_progress ps) (tu_progress t) \<Longrightarrow> ps_progress (sync_playback t ps) = tu_progress t"
  by (cases "rg_phase (ps_progress ps)"; cases "rg_phase (tu_progress t)")
    (auto simp: behind_def sync_playback_progress)

lemma behind_refl: "behind shown published \<Longrightarrow> behind published published"
  by (cases "rg_phase published") (auto simp: behind_def)

lemma handle_event_shared: "tu_progress (snd (handle_event e t)) = tu_progress t"
  "tu_playback (snd (handle_event e t)) = tu_playback t \<or> e = Custom \<and> tu_playback (snd (handle_event e t)) = sync_playback t (tu_playback t)"
proof -
  have two: "tu_progress (snd (if P then (True, move_camera dx dy (snd p)) else p)) = tu_progress (snd p)"
    "tu_playback (snd (if P then (True, move_camera dx dy (snd p)) else p)) = tu_playback (snd p)" for P dx dy p
    by simp_all
  show "tu_progress (snd (handle_event e t)) = tu_progress t"
    "tu_playback (snd (handle_event e t)) = tu_playback t \<or> e = Custom \<and> tu_playback (snd (handle_event e t)) = sync_playback t (tu_playback t)"
    unfolding handle_event_def Let_def split_beta by (simp_all only: snd_conv two split: if_split) simp_all
qed

lemma run_action_behind: "tui_behind t \<Longrightarrow> tui_behind (run_action a t)"
proof (cases a)
  case (Event e)
  assume b: "tui_behind t"
  then have "tui_behind (snd (handle_event e t))"
    using handle_event_shared [of e t] sync_catches_up [of "tu_playback t" t] behind_refl by (auto simp: tui_behind_def)
  then show ?thesis using b Event by (simp add: run_action_def)
next
  case (Render dimx dimy cols)
  then show "tui_behind t \<Longrightarrow> ?thesis"
    by (auto simp: run_action_def tui_behind_def render_root_def Let_def bind_eq_Some_conv split: option.split if_splits)
qed (simp add: run_action_def, simp add: tui_behind_def)

lemma tui_step_behind: "tui_step t t' \<Longrightarrow> tui_behind t \<Longrightarrow> tui_behind t'"
proof (induction rule: tui_step.induct)
  case (start t)
  then show ?case using behind_refl
    by (auto simp: tui_behind_def tui_start_def) (auto simp: behind_def new_progress_def)
next
  case (header t h)
  then show ?case
    by (auto simp: tui_behind_def tui_publishHeader_def behind_def new_progress_def split: parse_phase.splits)
next
  case (tick t tick)
  then show ?case
    by (auto simp: tui_behind_def tui_publishTick_def behind_def new_progress_def split: parse_phase.splits)
next
  case (end_marker t e)
  then show ?case
    by (auto simp: tui_behind_def tui_publishEnd_def behind_def new_progress_def split: parse_phase.splits)
qed (simp_all add: run_action_behind, simp_all add: tui_behind_def tui_publishError_def tui_publishTilemapSource_def tui_requestStop_def)

lemma reachable_behind: "tui_reachable t \<Longrightarrow> tui_behind t"
proof (induction rule: tui_reachable.induct)
  case (step t t')
  then show ?case using tui_step_behind by blast
qed (simp add: tui_behind_def tui_new_def behind_new)

subsection \<open>The operations keep both\<close>

definition fits_screen :: "replay_header \<Rightarrow> bool" where
  "fits_screen h \<longleftrightarrow> drawable (rh_tilemap h)"

definition tui_stage :: "parse_phase \<Rightarrow> tui \<Rightarrow> bool" where
  "tui_stage ph t \<longleftrightarrow> tui_inv t \<and> tui_reachable t \<and> rg_phase (tu_progress t) = ph"

lemma run_action_progress: "tu_progress (run_action a t) = tu_progress t"
proof (cases a)
  case (Render dimx dimy cols)
  then show ?thesis
    by (auto simp: run_action_def render_root_def Let_def bind_eq_Some_conv split: option.split if_splits)
qed (simp_all add: run_action_def handle_event_shared)

lemma actions_reachable:
  "tui_reachable t \<Longrightarrow> tui_reachable (fold run_action as t) \<and> tu_progress (fold run_action as t) = tu_progress t"
proof (induction as arbitrary: t)
  case (Cons a as)
  from Cons.IH [OF tui_reachable.step [OF Cons.prems tui_step.action]] show ?case by (simp add: run_action_progress)
qed simp

lemma ui_turn_stage: "tui_stage ph t \<Longrightarrow> tui_stage ph (ui_turn sched t)"
  using actions_reachable [of t "sched (tu_moment t)"] ui_turn_inv [of t sched]
  by (auto simp: tui_stage_def ui_turn_def intro: tui_reachable.step [OF _ tui_step.moment])

lemma stage_step: "tui_stage ph t \<Longrightarrow> tui_step t t' \<Longrightarrow> tui_inv t' \<Longrightarrow> rg_phase (tu_progress t') = ph' \<Longrightarrow> tui_stage ph' t'"
  by (auto simp: tui_stage_def intro: tui_reachable.step)

lemma stage_new: "tui_stage PhaseHeader tui_new"
  by (simp add: tui_stage_def tui_reachable.init)
    (simp add: tui_inv_def tui_new_def camera_kept_def new_camera_def new_progress_def default_header_def drawable_def
      new_playback_state_def)

interpretation tui: staged_ui "tui_ops sched" tui_stage fits_screen
proof
  show "tui_stage PhaseHeader u \<Longrightarrow> tui_stage PhaseHeader (ui_start (tui_ops sched) u)" for u
    using stage_step [OF _ tui_step.start, of PhaseHeader u PhaseHeader]
    by (simp add: tui_ops_def tui_start_def tui_stage_def tui_inv_def camera_kept_def new_camera_def)
  show "tui_stage ph u \<Longrightarrow> ui_wait (tui_ops sched) u = Some (code, u') \<Longrightarrow> tui_stage ph u'" for ph u code u'
    using ui_turn_stage [of ph u sched] stage_step [OF _ tui_step.join, of ph "ui_turn sched u" ph]
    by (auto simp: tui_ops_def tui_wait_def Let_def tui_stage_def tui_inv_def camera_kept_def split: if_splits)
  show "tui_stage PhaseHeader u \<Longrightarrow> fits_screen h \<Longrightarrow> tui_stage PhaseTick (ui_publishHeader (tui_ops sched) h u)" for u h
    using ui_turn_stage [of PhaseHeader u sched] stage_step [OF _ tui_step.header, of PhaseHeader "ui_turn sched u" h PhaseTick]
    by (simp add: tui_ops_def tui_publishHeader_def tui_stage_def tui_inv_def fits_screen_def camera_kept_def)
  show "tui_stage PhaseTick u \<Longrightarrow> tui_stage PhaseTick (ui_publishTick (tui_ops sched) t u)" for u t
    using ui_turn_stage [of PhaseTick u sched] stage_step [OF _ tui_step.tick, of PhaseTick "ui_turn sched u" t PhaseTick]
    by (simp add: tui_ops_def tui_publishTick_def tui_stage_def tui_inv_def camera_kept_def)
  show "tui_stage PhaseTick u \<Longrightarrow> tui_stage PhaseEnd (ui_publishEnd (tui_ops sched) e u)" for u e
    using ui_turn_stage [of PhaseTick u sched] stage_step [OF _ tui_step.end_marker, of PhaseTick "ui_turn sched u" e PhaseEnd]
    by (simp add: tui_ops_def tui_publishEnd_def tui_stage_def tui_inv_def camera_kept_def)
  show "tui_stage ph u \<Longrightarrow> tui_stage ph (ui_publishError (tui_ops sched) message u)" for ph u message
    using ui_turn_stage [of ph u sched] stage_step [OF _ tui_step.error, of ph "ui_turn sched u" message ph]
    by (simp add: tui_ops_def tui_publishError_def tui_stage_def tui_inv_def camera_kept_def)
  show "tui_stage ph u \<Longrightarrow> tui_stage ph (snd (ui_shouldStop (tui_ops sched) u))" for ph u
    using ui_turn_stage [of ph u sched] by (simp add: tui_ops_def Let_def)
  show "tui_stage ph u \<Longrightarrow> tui_stage ph (ui_requestStop (tui_ops sched) u)" for ph u
    using ui_turn_stage [of ph u sched] stage_step [OF _ tui_step.request, of ph "ui_turn sched u" ph]
    by (simp add: tui_ops_def tui_requestStop_def tui_stage_def tui_inv_def camera_kept_def)
  show "tui_stage ph u \<Longrightarrow> ui_publishTilemapSource (tui_ops sched) = Some publish \<Longrightarrow> tui_stage ph (publish label u)"
    for ph u publish label
    using ui_turn_stage [of ph u sched] stage_step [OF _ tui_step.source, of ph "ui_turn sched u" label ph]
    by (auto simp: tui_ops_def tui_publishTilemapSource_def tui_stage_def tui_inv_def camera_kept_def)
qed

subsection \<open>Catching up, and leaving\<close>

lemma custom_shows_published:
  assumes "tui_reachable t" "tu_joinable t" "\<not> tu_exited t" "\<not> tu_faulted t" "\<not> tu_stop_requested t"
  shows "ps_progress (tu_playback (run_action (Event Custom) t)) = tu_progress t"
  using assms sync_catches_up [of "tu_playback t" t] reachable_behind [OF assms(1)]
  by (simp add: run_action_def handle_event_def tui_shouldStop_def tui_behind_def)

text \<open>A tick that was not shown yet has its log entries at the end of the history.\<close>

lemma custom_appends_logs:
  assumes "tui_reachable t" "tu_joinable t" "\<not> tu_exited t" "\<not> tu_faulted t" "\<not> tu_stop_requested t"
    "rg_phase (tu_progress t) \<noteq> PhaseHeader" "fr_tick (rg_current_tick (tu_progress t)) \<noteq> currentTick (tu_playback t)"
    "length (fr_logs (rg_current_tick (tu_progress t))) \<le> max_log_history"
  shows "\<exists>earlier. ps_log_history (tu_playback (run_action (Event Custom) t)) = earlier @ fr_logs (rg_current_tick (tu_progress t))"
proof -
  let ?h = "ps_log_history (tu_playback t)" and ?l = "fr_logs (rg_current_tick (tu_progress t))"
  have p: "ps_progress (sync_playback t (tu_playback t)) = tu_progress t"
    using sync_catches_up reachable_behind [OF assms(1)] by (simp add: tui_behind_def)
  have h: "ps_log_history (sync_playback t (tu_playback t))
      = (if length (?h @ ?l) > 2 * max_log_history then drop (length (?h @ ?l) - max_log_history) (?h @ ?l) else ?h @ ?l)"
    using p assms(6,7) by (auto simp: sync_playback_def Let_def split: if_split_asm)
  have "drop (length (?h @ ?l) - max_log_history) (?h @ ?l) = drop (length (?h @ ?l) - max_log_history) ?h @ ?l"
    using assms(8) by simp
  then show ?thesis using h assms(2-5) by (simp add: run_action_def handle_event_def tui_shouldStop_def)
qed

lemma actions_exited: "tu_exited t \<Longrightarrow> fold run_action as t = t"
  by (induction as) (simp_all add: run_action_def)

lemma handle_event_stop: "tu_stop_requested t \<Longrightarrow> tu_stop_requested (snd (handle_event e t))"
  "tu_joinable (snd (handle_event e t)) = tu_joinable t"
proof -
  have two: "tu_stop_requested (snd (if P then (True, move_camera dx dy (snd p)) else p)) = tu_stop_requested (snd p)"
    "tu_joinable (snd (if P then (True, move_camera dx dy (snd p)) else p)) = tu_joinable (snd p)" for P dx dy p
    by simp_all
  show "tu_stop_requested t \<Longrightarrow> tu_stop_requested (snd (handle_event e t))"
    "tu_joinable (snd (handle_event e t)) = tu_joinable t"
    unfolding handle_event_def Let_def split_beta by (simp_all only: snd_conv two split: if_split) simp_all
qed

lemma run_action_stop:
  "tu_stop_requested t \<Longrightarrow> tu_stop_requested (run_action a t)" "tu_joinable (run_action a t) = tu_joinable t"
  by (cases a; auto simp: run_action_def handle_event_stop render_root_def Let_def bind_eq_Some_conv
      split: option.split if_split_asm)+

lemma requested_stop_exits:
  "tui_inv t \<Longrightarrow> tu_joinable t \<Longrightarrow> tu_stop_requested t \<Longrightarrow> Event Custom \<in> set as \<Longrightarrow> tu_exited (fold run_action as t)"
proof (induction as arbitrary: t)
  case (Cons a as)
  show ?case
  proof (cases "tu_exited t \<or> a = Event Custom")
    case True
    then have "tu_exited (run_action a t)"
      using Cons.prems by (auto simp: run_action_def handle_event_def tui_inv_def)
    then show ?thesis by (simp add: actions_exited)
  next
    case False
    then show ?thesis using Cons.IH [of "run_action a t"] Cons.prems run_action_inv run_action_stop by auto
  qed
qed simp

lemma actions_joinable: "tu_joinable (fold run_action as t) = tu_joinable t"
  by (induction as arbitrary: t) (simp_all add: run_action_stop)

text \<open>The custom event that \<open>requestStop\<close> posts ends the screen loop, so the wait that follows returns.\<close>

lemma stop_request_ends_wait:
  assumes "tui_inv t" "Event Custom \<in> set (sched (tu_moment t + 1))"
  shows "\<exists>t'. ui_wait (tui_ops sched) (ui_requestStop (tui_ops sched) t) = Some (0, t') \<and> \<not> tu_joinable t'"
proof -
  let ?t = "tui_requestStop (ui_turn sched t)"
  have j: "tu_joinable ?t = tu_joinable t" and m: "tu_moment ?t = tu_moment t + 1"
    by (simp_all add: tui_requestStop_def ui_turn_def actions_joinable)
  have i: "tui_inv ?t" using ui_turn_inv [OF assms(1), of sched] by (simp add: tui_requestStop_def tui_inv_def camera_kept_def)
  show ?thesis
  proof (cases "tu_joinable t")
    case True
    have "tu_stop_requested ?t" using True by (simp add: tui_requestStop_def ui_turn_def actions_joinable)
    then have "tu_exited (ui_turn sched ?t)"
      using requested_stop_exits [OF i] True j m assms(2) by (simp add: ui_turn_def)
    then show ?thesis using j True by (simp add: tui_ops_def tui_wait_def Let_def)
  next
    case False
    then show ?thesis using j by (simp add: tui_ops_def tui_wait_def)
  qed
qed

subsection \<open>A terminal that is left open\<close>

definition quits :: "event \<Rightarrow> bool" where
  "quits e \<longleftrightarrow> e \<in> {Key CHR ''q'', Key CHR ''Q'', Escape}"

definition quiet :: "ui_action list \<Rightarrow> bool" where
  "quiet as \<longleftrightarrow> (\<forall>e. Event e \<in> set as \<longrightarrow> \<not> quits e)"

definition tui_open :: "parse_phase \<Rightarrow> nat \<Rightarrow> tui \<Rightarrow> bool" where
  "tui_open ph n t \<longleftrightarrow> tui_stage ph t \<and> tu_joinable t \<and> \<not> tu_exited t \<and> \<not> tu_stop_requested t \<and> tu_moment t = n"

lemma tui_openD: "tui_open ph n t \<Longrightarrow> tui_stage ph t" "tui_open ph n t \<Longrightarrow> tui_inv t"
  by (simp_all add: tui_open_def tui_stage_def)

lemma handle_event_open:
  assumes "\<not> quits e" "\<not> tu_stop_requested t"
  shows "tu_exited (snd (handle_event e t)) = tu_exited t" "\<not> tu_stop_requested (snd (handle_event e t))"
    "tu_moment (snd (handle_event e t)) = tu_moment t"
proof -
  have k: "tu_moment (move_camera dx dy t) = tu_moment t" for dx dy t by (simp add: move_camera_def)
  have two: "tu_exited (snd (if P then (True, move_camera dx dy (snd p)) else p)) = tu_exited (snd p)"
    "tu_stop_requested (snd (if P then (True, move_camera dx dy (snd p)) else p)) = tu_stop_requested (snd p)"
    "tu_moment (snd (if P then (True, move_camera dx dy (snd p)) else p)) = tu_moment (snd p)" for P dx dy p
    by (simp_all add: k)
  have q: "\<not> (e = Key CHR ''q'' \<or> e = Key CHR ''Q'' \<or> e = Escape)" using assms(1) by (simp add: quits_def)
  show "tu_exited (snd (handle_event e t)) = tu_exited t" "\<not> tu_stop_requested (snd (handle_event e t))"
    "tu_moment (snd (handle_event e t)) = tu_moment t"
    unfolding handle_event_def Let_def split_beta using q assms(2)
    by (simp_all only: snd_conv two if_False split: if_split) (simp_all add: tui_shouldStop_def k)
qed

lemma run_action_open:
  assumes "tui_open ph n t" "\<forall>e. a = Event e \<longrightarrow> \<not> quits e"
  shows "tui_open ph n (run_action a t)"
proof -
  have t: "tui_stage ph t" "tu_joinable t" "\<not> tu_exited t" "\<not> tu_stop_requested t" "tu_moment t = n"
    using assms(1) by (simp_all add: tui_open_def)
  have s: "tui_stage ph (run_action a t)"
    using stage_step [OF t(1) tui_step.action] run_action_inv t(1) by (simp add: tui_stage_def run_action_progress)
  have j: "tu_joinable (run_action a t)" using t(2) by (simp add: run_action_stop)
  have "\<not> tu_exited (run_action a t) \<and> \<not> tu_stop_requested (run_action a t) \<and> tu_moment (run_action a t) = n"
  proof (cases a)
    case (Event e)
    then show ?thesis using handle_event_open [of e t] assms(2) t by (simp add: run_action_def)
  next
    case (Render dimx dimy cols)
    then show ?thesis using t
      by (auto simp: run_action_def render_root_def Let_def bind_eq_Some_conv split: option.split if_splits)
  qed (use t in \<open>simp add: run_action_def\<close>)
  then show ?thesis using s j by (simp add: tui_open_def)
qed

lemma actions_open: "tui_open ph n t \<Longrightarrow> quiet as \<Longrightarrow> tui_open ph n (fold run_action as t)"
proof (induction as arbitrary: t)
  case (Cons a as)
  have "quiet as" "\<forall>e. a = Event e \<longrightarrow> \<not> quits e" using Cons.prems(2) by (auto simp: quiet_def)
  then show ?case using Cons.IH run_action_open [OF Cons.prems(1)] by simp
qed simp

lemma ui_turn_open: "tui_open ph n t \<Longrightarrow> quiet (sched n) \<Longrightarrow> tui_open ph (Suc n) (ui_turn sched t)"
  using actions_open [of ph n t "sched n"] ui_turn_stage [of ph t sched]
  by (simp add: tui_open_def ui_turn_def)

lemma quit_exits:
  "tui_inv t \<Longrightarrow> tu_joinable t \<Longrightarrow> Event e \<in> set as \<Longrightarrow> quits e \<Longrightarrow> tu_exited (fold run_action as t)"
proof (induction as arbitrary: t)
  case (Cons a as)
  show ?case
  proof (cases "tu_exited t \<or> a = Event e")
    case True
    then have "tu_exited (run_action a t)"
      using Cons.prems by (auto simp: run_action_def handle_event_def tui_inv_def quits_def)
    then show ?thesis by (simp add: actions_exited)
  next
    case False
    then show ?thesis using Cons.IH [of "run_action a t"] Cons.prems run_action_inv run_action_stop by auto
  qed
qed simp

text \<open>The operations of the main thread on a terminal that is left open.\<close>

lemma open_start: "tui_open PhaseHeader 0 (ui_start (tui_ops sched) tui_new)"
  using tui.start [OF stage_new] by (simp add: tui_open_def tui_ops_def tui_start_def tui_new_def)

lemma open_source:
  assumes "tui_open ph n t" "quiet (sched n)" "ui_publishTilemapSource (tui_ops sched) = Some publish"
  shows "tui_open ph (Suc n) (publish label t)"
  using ui_turn_open [where sched = sched, OF assms(1,2)] tui.source [OF tui_openD(1) [OF assms(1)] assms(3)] assms(3)
  by (auto simp: tui_open_def tui_ops_def tui_publishTilemapSource_def)

lemma open_header:
  assumes "tui_open PhaseHeader n t" "quiet (sched n)" "fits_screen h"
  shows "tui_open PhaseTick (Suc n) (ui_publishHeader (tui_ops sched) h t)"
  using ui_turn_open [where sched = sched, OF assms(1,2)] tui.header [OF tui_openD(1) [OF assms(1)] assms(3), of sched]
  by (simp add: tui_open_def tui_ops_def tui_publishHeader_def)

lemma open_asked:
  assumes "tui_open ph n t" "quiet (sched n)"
  shows "\<exists>t'. ui_shouldStop (tui_ops sched) t = (False, t') \<and> tui_open ph (Suc n) t'"
  using ui_turn_open [where sched = sched, OF assms] by (simp add: tui_open_def tui_ops_def Let_def tui_shouldStop_def)

lemma open_tick:
  assumes "tui_open PhaseTick n t" "quiet (sched n)"
  shows "tui_open PhaseTick (Suc n) (ui_publishTick (tui_ops sched) tick t)"
  using ui_turn_open [where sched = sched, OF assms(1,2)] tui.tick [OF tui_openD(1) [OF assms(1)], of sched tick]
  by (simp add: tui_open_def tui_ops_def tui_publishTick_def)

lemma open_end:
  assumes "tui_open PhaseTick n t" "quiet (sched n)"
  shows "tui_open PhaseEnd (Suc n) (ui_publishEnd (tui_ops sched) e t)"
  using ui_turn_open [where sched = sched, OF assms(1,2)] tui.end_marker [OF tui_openD(1) [OF assms(1)], of sched e]
  by (simp add: tui_open_def tui_ops_def tui_publishEnd_def)

lemma open_wait:
  assumes "tui_open ph n t" "Event e \<in> set (sched n)" "quits e"
  shows "\<exists>t'. ui_wait (tui_ops sched) t = Some (0, t') \<and> tui_stage ph t'"
proof -
  have "tu_exited (ui_turn sched t)"
    using quit_exits [OF tui_openD(2) [OF assms(1)] _ assms(2,3)] assms(1) by (simp add: tui_open_def ui_turn_def)
  then obtain t' where "ui_wait (tui_ops sched) t = Some (0, t')"
    using assms(1) by (simp add: tui_ops_def tui_wait_def Let_def tui_open_def)
  then show ?thesis using tui.wait [OF tui_openD(1) [OF assms(1)]] by blast
qed

subsection \<open>A map without columns\<close>

text \<open>
  The decoder accepts a header whose map has rows and no columns. Drawing it reserves a negative number of
  columns.
\<close>

lemma no_columns_not_drawn:
  assumes "ps_hasHeader (tu_playback t)" "rt_width (rh_tilemap (rg_header (ps_progress (tu_playback t)))) = 0"
    "rt_height (rh_tilemap (rg_header (ps_progress (tu_playback t)))) \<noteq> 0"
  shows "render_root dimx dimy cols t = None"
proof -
  let ?ps = "tu_playback t"
  let ?c = "clampCamera ?ps ((tu_camera t)\<lparr>cam_viewport := computeViewportSize dimx dimy ?ps\<rparr>)"
  have v: "cam_viewport ?c = computeViewportSize dimx dimy ?ps" using assms(1) by (simp add: clampCamera_def Let_def)
  obtain pw ph where s: "vp_width (cam_viewport ?c) = 0"
    "vp_height (cam_viewport ?c) = min (uint (rt_height (rh_tilemap (rg_header (ps_progress ?ps))))) (max 1 ph)"
    using viewport_shape [OF assms(1) refl, of dimx dimy] v assms(2) by auto
  have "0 < uint (rt_height (rh_tilemap (rg_header (ps_progress ?ps))))"
    using assms(3) uint_0_iff [of "rt_height (rh_tilemap (rg_header (ps_progress ?ps)))"]
      uint_ge_0 [of "rt_height (rh_tilemap (rg_header (ps_progress ?ps)))"] by linarith
  then have "0 < vp_height (cam_viewport ?c)" using s(2) by (simp add: min_def max_def)
  then obtain rows where rows: "[0..vp_height (cam_viewport ?c) - 1] = 0 # rows" by (simp add: upto_rec1)
  have "render_row ?ps ?c 0 = None" by (simp add: render_row_def reserve_ok_def s(1))
  then have "map_option_list (render_row ?ps ?c) [0..vp_height (cam_viewport ?c) - 1] = None" unfolding rows by simp
  then have "renderMapPanel ?ps ?c = None"
    using assms(1) unfolding renderMapPanel_def by (simp only: not_not if_False) (cases "reserve_ok (vp_height (cam_viewport ?c))", simp_all)
  then show ?thesis by (simp add: render_root_def Let_def)
qed

lemma no_columns_faults:
  assumes "tui_stage PhaseTick t" "tu_joinable t" "\<not> tu_exited t" "\<not> tu_stop_requested t"
    "rt_width (rh_tilemap (rg_header (tu_progress t))) = 0" "rt_height (rh_tilemap (rg_header (tu_progress t))) \<noteq> 0"
  shows "tu_faulted (run_action (Render dimx dimy cols) (run_action (Event Custom) t))"
proof -
  have t: "tui_reachable t" "\<not> tu_faulted t" "rg_phase (tu_progress t) = PhaseTick"
    using assms(1) by (simp_all add: tui_stage_def tui_inv_def)
  let ?t = "run_action (Event Custom) t"
  have p: "ps_progress (tu_playback ?t) = tu_progress t" by (rule custom_shows_published) (use t assms in simp_all)
  then have "render_root dimx dimy cols ?t = None"
    using no_columns_not_drawn [of ?t dimx dimy cols] t assms by (simp add: ps_hasHeader_def)
  moreover have "tu_joinable ?t" "\<not> tu_exited ?t" "\<not> tu_faulted ?t"
    using assms t by (simp_all add: run_action_def handle_event_def tui_shouldStop_def)
  ultimately show ?thesis by (simp add: run_action_def [of "Render dimx dimy cols"])
qed

end
