(* ===== verification/Interactive.thy ===== *)
theory Interactive
  imports Live_Mode Tui_Runner
begin

text \<open>
  The interactive program as a whole (\<open>createUI\<close> and \<open>main\<close> of \<open>src/cli/main.cpp\<close>), and what its modes do
  with each of the two user interfaces.
\<close>

subsection \<open>The program\<close>

text \<open>The file named on the command line, read through \<open>IstreamAdapter\<close>.\<close>

definition playback_input :: "platform \<Rightarrow> program_options \<Rightarrow> istream_adapter option" where
  "playback_input pf options =
     map_option (\<lambda>bytes. istream_adapter_new (istream_of bytes)) (pf_file pf (po_play_replay options))"

definition input_eof :: "istream_adapter \<Rightarrow> bool" where
  "input_eof s \<longleftrightarrow> is_eof (ia_stream s)"

definition input_good :: "istream_adapter \<Rightarrow> bool" where
  "input_good s \<longleftrightarrow> istream_good (ia_stream s)"

definition run_mode ::
    "'m machine_ops \<Rightarrow> platform \<Rightarrow> 'c zstd_ops \<Rightarrow> (string \<Rightarrow> ostream option) \<Rightarrow> (nat \<Rightarrow> seed) \<Rightarrow> nat
       \<Rightarrow> 'u ui_ops \<Rightarrow> program_options \<Rightarrow> 'u \<Rightarrow> int option" where
  "run_mode mo pf z open_out ent fuel ui options u =
     (if po_play_replay options \<noteq> []
      then map_option pr_code (runPlaybackMode (istream_ops (pf_ndebug pf)) input_eof input_good
        (playback_input pf options) fuel ui options u)
      else map_option lv_code (runLiveMode mo pf z open_out ent fuel ui options u))"

text \<open>The exit code of \<open>main\<close>. \<open>sched\<close> is what the terminal thread does, where there is one.\<close>

definition interactive_main ::
    "'m machine_ops \<Rightarrow> platform \<Rightarrow> 'c zstd_ops \<Rightarrow> (string \<Rightarrow> ostream option) \<Rightarrow> (nat \<Rightarrow> seed) \<Rightarrow> nat
       \<Rightarrow> (nat \<Rightarrow> ui_action list) \<Rightarrow> cli_args option \<Rightarrow> int option" where
  "interactive_main mo pf z open_out ent fuel sched args =
     (case parseOptions (pf_device pf) Interactive args of
        Inl _ \<Rightarrow> Some 1
      | Inr options \<Rightarrow>
          if po_step_interval_ms options < 0 then Some 1
          else (case po_ui_mode options of
              Tui \<Rightarrow> run_mode mo pf z open_out ent fuel (tui_ops sched) options tui_new
            | Plain \<Rightarrow> run_mode mo pf z open_out ent fuel plain_ui_ops options plain_ui_new))"

subsection \<open>Headers that fit on the screen\<close>

lemma created_header_fits:
  assumes "platform_ok pf" "createWorldFromOptions pf p = Some (Inr w)" "header_fromWorld w = Some h"
    "tm_width (w_map w) \<le> 255" "tm_height (w_map w) \<le> 255"
  shows "fits_screen h"
proof -
  note L = createWorld_legal [where 'm = unit and ent = "\<lambda>_. undefined", OF assms(1,2)]
  then have wi: "winv w" using turn_invD(1) by (auto simp: match_ok_def running_ok_def new_match_def)
  have B: "map_bits_ok (w_map w)" using L assms(4,5) by simp
  have ok: "header_ok h" using header_fromWorld_ok [OF wi B] assms(3) by auto
  have "0 < tm_width (w_map w)"
    using wi by (auto simp: winv_in_flight_def static_ok_def bases_on_map_def dest: spec [of _ P1])
  moreover have "rt_width (rh_tilemap h) = word_of_int (tm_width (w_map w))"
    using assms(3) by (auto simp: header_fromWorld_def Let_def bind_eq_Some_conv)
  ultimately have "rt_width (rh_tilemap h) \<noteq> 0"
    using small_u16 [of "tm_width (w_map w)"] assms(4) by auto
  then show ?thesis using ok by (simp add: fits_screen_def drawable_def header_ok_def tilemap_ok_def tileCount_def)
qed

lemma read_list_length: "read_list n f s = Some (xs, s') \<Longrightarrow> length xs = n"
  by (induction n arbitrary: s xs) (auto simp: bind_eq_Some_conv)

lemma decoded_tiles: "decodeTilemap ops s = Some (Inr m, s') \<Longrightarrow> length (rt_tiles m) = tileCount m"
  by (auto simp: decodeTilemap_def Let_def split_beta bind_eq_Some_conv tileCount_def dest!: read_list_length split: if_split_asm)

lemma decoded_payload_tiles:
  assumes "decodeHeaderPayload ops v s = Some (Inr h, s')"
  shows "length (rt_tiles (rh_tilemap h)) = tileCount (rh_tilemap h)"
proof -
  obtain r s1 where t: "decodeTilemap ops s = Some (r, s1)"
    using assms by (auto simp: decodeHeaderPayload_def bind_eq_Some_conv)
  then obtain m where m: "r = Inr m" using assms by (cases r) (auto simp: decodeHeaderPayload_def)
  then obtain g s2 where "decodeGameRules ops s1 = Some (g, s2)"
    using assms t by (auto simp: decodeHeaderPayload_def bind_eq_Some_conv)
  then have "rh_tilemap h = m" using assms t m by (cases g) (auto simp: decodeHeaderPayload_def)
  then show ?thesis using decoded_tiles [of ops s m s1] t m by simp
qed

lemma decoded_header_tiles:
  "decodeReplayHeader ops s = Some (Inr h, s') \<Longrightarrow> length (rt_tiles (rh_tilemap h)) = tileCount (rh_tilemap h)"
  by (auto simp: decodeReplayHeader_def Let_def split_beta bind_eq_Some_conv
      dest!: decoded_payload_tiles split: if_split_asm)

text \<open>A header that playback accepts has its tiles; the map of one with rows but no columns cannot be drawn.\<close>

lemma published_header_fits:
  assumes "runPlayback ops eof good n s = Some (PubHeader h # pub, code)"
    "rt_width (rh_tilemap h) = 0 \<longrightarrow> rt_height (rh_tilemap h) = 0"
  shows "fits_screen h"
proof -
  obtain ok d where c: "canReadHeader ops (new_decoder s) = Some (ok, d)"
    using assms(1) by (auto simp: runPlayback_def bind_eq_Some_conv)
  then have ok: ok using assms(1) by (auto simp: runPlayback_def split: if_split_asm)
  obtain r d1 where r: "readHeader ops d = Some (r, d1)"
    using assms(1) c ok by (auto simp: runPlayback_def bind_eq_Some_conv)
  then have r': "r = Inr ()" using assms(1) c ok by (cases r) (auto simp: runPlayback_def)
  then have h: "decoder_header d1 = Some h" using assms(1) c ok r by (auto simp: runPlayback_def bind_eq_Some_conv)
  obtain d0 r0 s' where d0: "decodeReplayHeader ops (dc_stream d0) = Some (r0, s')"
    "(case r0 of Inl e \<Rightarrow> Some (Inl e, d0\<lparr>dc_stream := s'\<rparr>)
      | Inr h \<Rightarrow> Some (Inr (), d0\<lparr>dc_stream := s', dc_header := h, dc_phase := PhaseTick\<rparr>)) = Some (Inr (), d1)"
    using r r' by (auto simp: readHeader_def bind_eq_Some_conv split: if_split_asm)
  then have "decodeReplayHeader ops (dc_stream d0) = Some (Inr h, s')"
    using h by (cases r0) (auto simp: decoder_header_def hasHeader_def)
  from decoded_header_tiles [OF this] show ?thesis using assms(2) by (simp add: fits_screen_def drawable_def tileCount_def)
qed

subsection \<open>What the modes do\<close>

lemma live_on_terminal:
  assumes "platform_ok pf" "createWorldFromOptions pf p = Some (Inr w)" "tm_width (w_map w) \<le> 255" "tm_height (w_map w) \<le> 255"
    "runLiveMode mo pf z open_out ent fuel (tui_ops sched) p tui_new = Some res"
  shows "tui_inv (lv_ui res) \<and> tui_reachable (lv_ui res)
    \<and> (lv_records res \<noteq> None \<longrightarrow> rg_phase (tu_progress (lv_ui res)) = PhaseEnd)"
proof -
  have "\<forall>w h. createWorldFromOptions pf p = Some (Inr w) \<longrightarrow> header_fromWorld w = Some h \<longrightarrow> fits_screen h"
    using created_header_fits [OF assms(1)] assms(2-4) by auto
  from staged_ui.runLive_kept [OF tui.staged_ui_axioms assms(5) stage_new this] show ?thesis
    by (auto simp: left_in_order_def tui_stage_def)
qed

lemma playback_on_terminal:
  assumes "runPlaybackMode ops eof good input fuel (tui_ops sched) p tui_new = Some res"
    "\<forall>s h. input = Some s \<longrightarrow> runPlayback ops eof good 0 s = Some ([PubHeader h], 0)
       \<longrightarrow> rt_width (rh_tilemap h) = 0 \<longrightarrow> rt_height (rh_tilemap h) = 0"
  shows "tui_inv (pr_ui res) \<and> tui_reachable (pr_ui res)"
proof -
  have "\<forall>s h. input = Some s \<longrightarrow> runPlayback ops eof good 0 s = Some ([PubHeader h], 0) \<longrightarrow> fits_screen h"
  proof (intro allI impI)
    fix s h assume s: "input = Some s" "runPlayback ops eof good 0 s = Some ([PubHeader h], 0)"
    show "fits_screen h" by (rule published_header_fits [OF s(2)]) (use assms(2) s in blast)
  qed
  from staged_ui.runPlayback_kept [OF tui.staged_ui_axioms assms(1) stage_new this] show ?thesis by (auto simp: tui_stage_def)
qed

text \<open>
  The terminal does not disturb the match: as long as it is left open, live mode goes through the same rounds as
  with a user interface that cannot stop it. The main thread takes two operations for each tick.
\<close>

context steady_ui begin

lemma open_loop:
  "live_loop mo uniform_int writer ui fuel m judge s u = Some (e, m', s', u', ticks) \<Longrightarrow> e \<noteq> ExitNoFuel \<Longrightarrow> \<forall>err. e \<noteq> ExitError err
     \<Longrightarrow> tui_open PhaseTick n t \<Longrightarrow> \<forall>k. n \<le> k \<longrightarrow> k < n + 2 * length ticks \<longrightarrow> quiet (sched k)
     \<Longrightarrow> \<exists>t'. live_loop mo uniform_int writer (tui_ops sched) fuel m judge s t = Some (e, m', s', t', ticks)
           \<and> tui_open PhaseTick (n + 2 * length ticks) t'"
proof (induction fuel arbitrary: m judge s u ticks n t)
  case (Suc fuel)
  have round: "\<exists>t1. ui_shouldStop (tui_ops sched) t = (False, t1)
      \<and> tui_open PhaseTick (n + 2) (ui_publishTick (tui_ops sched) tick t1)" if "ticks \<noteq> []" for tick
  proof -
    have q: "quiet (sched n)" "quiet (sched (Suc n))"
      using Suc.prems(5) that by (auto simp: neq_Nil_conv)
    obtain t1 where t1: "ui_shouldStop (tui_ops sched) t = (False, t1)" "tui_open PhaseTick (Suc n) t1"
      using open_asked [where sched = sched, OF Suc.prems(4) q(1)] by blast
    then show ?thesis using open_tick [where sched = sched, OF t1(2) q(2), of tick] by auto
  qed
  from Suc.prems(1) show ?case
  proof (cases rule: live_loop_cases)
    case stop
    then show ?thesis by simp
  next
    case (failed m1 tick w err)
    then show ?thesis using Suc.prems(3) by blast
  next
    case (final m1 tick w u1 draw judge')
    obtain t1 where t1: "ui_shouldStop (tui_ops sched) t = (False, t1)"
      "tui_open PhaseTick (n + 2) (ui_publishTick (tui_ops sched) tick t1)"
      using round final(6) by blast
    show ?thesis using final(5,6) t1(2) live_loop_round [OF t1(1) final(2,4), of fuel] by auto
  next
    case (continue m1 tick w s1 u1 judge' rest)
    obtain t1 where t1: "ui_shouldStop (tui_ops sched) t = (False, t1)"
      "tui_open PhaseTick (n + 2) (ui_publishTick (tui_ops sched) tick t1)"
      using round continue(6) by blast
    obtain t' where "live_loop mo uniform_int writer (tui_ops sched) fuel (m1\<lparr>mt_world := w\<rparr>) judge' s1
        (ui_publishTick (tui_ops sched) tick t1) = Some (e, m', s', t', rest)" "tui_open PhaseTick (n + 2 + 2 * length rest) t'"
      using Suc.IH [OF continue(5) Suc.prems(2,3) t1(2)] Suc.prems(5) continue(6) by auto
    then show ?thesis using continue(4,6) live_loop_round [OF t1(1) continue(2,3), of fuel] by simp
  qed
qed simp

lemma open_record:
  assumes "live_record mo uniform_int writer ui fuel m judge s u = Some (Inr run)"
    "tui_open PhaseHeader 1 t" "fits_screen (lr_header run)" "\<forall>k<2 * length (lr_ticks run) + 3. quiet (sched k)"
    "Event q \<in> set (sched (2 * length (lr_ticks run) + 3))" "quits q"
  shows "\<exists>t'. live_record mo uniform_int writer (tui_ops sched) fuel m judge s t = Some (Inr
    \<lparr>lr_header = lr_header run, lr_ticks = lr_ticks run, lr_end = lr_end run, lr_code = 0, lr_match = lr_match run,
     lr_sink = lr_sink run, lr_ui = t'\<rparr>) \<and> tui_stage PhaseEnd t'"
proof (rule live_record_result [OF assms(1)], goal_cases)
  case R: (1 e s1 s2 s3 s4 u2)
  let ?T = "length (lr_ticks run)"
  have h: "tui_open PhaseTick 2 (ui_publishHeader (tui_ops sched) (lr_header run) t)"
    using open_header [where sched = sched, OF assms(2) _ assms(3)] assms(4) by (simp flip: One_nat_def)
  obtain t2 where t2: "live_loop mo uniform_int writer (tui_ops sched) fuel m judge s1
      (ui_publishHeader (tui_ops sched) (lr_header run) t) = Some (e, lr_match run, s2, t2, lr_ticks run)"
    "tui_open PhaseTick (2 + 2 * ?T) t2"
    using open_loop [OF R(3-5) h, of sched] assms(4) by auto
  have "tui_open PhaseEnd (2 * ?T + 3) (ui_publishEnd (tui_ops sched) (lr_end run) t2)"
    using open_end [where sched = sched, OF t2(2)] assms(4) by (simp add: eval_nat_numeral)
  from open_wait [where sched = sched, OF this assms(5,6)] obtain t' where
    t': "ui_wait (tui_ops sched) (ui_publishEnd (tui_ops sched) (lr_end run) t2) = Some (0, t')" "tui_stage PhaseEnd t'" by blast
  show ?case using R t2(1) t' by (cases e) (simp_all add: live_record_def Let_def)
qed

lemma runLive_undisturbed:
  assumes run: "runLiveMode mo pf z open_out ent fuel ui p u = Some res" "lv_records res = Some (h, ts, e)"
    and fit: "\<forall>w h. createWorldFromOptions pf p = Some (Inr w) \<longrightarrow> header_fromWorld w = Some h \<longrightarrow> fits_screen h"
    and sched: "\<forall>k<2 * length ts + 3. quiet (sched k)" "Event q \<in> set (sched (2 * length ts + 3))" "quits q"
  shows "\<exists>res'. runLiveMode mo pf z open_out ent fuel (tui_ops sched) p tui_new = Some res'
    \<and> lv_records res' = Some (h, ts, e) \<and> lv_written res' = lv_written res \<and> lv_error res' = None \<and> lv_code res' = 0
    \<and> tui_stage PhaseEnd (lv_ui res')"
proof -
  define label where "label = computeTilemapSourceLabel p"
  let ?t = "publish_source (tui_ops sched) label (ui_start (tui_ops sched) tui_new)"
  have t: "tui_open PhaseHeader 1 ?t"
    using open_source [where sched = sched, OF open_start, of _ label] sched(1)
    by (simp add: publish_source_def tui_ops_def)
  have u: "publish_source ui label (ui_start ui u) = ui_start ui u" for u by (simp add: publish_source_def no_source)
  obtain r where r: "createWorldFromOptions pf p = Some r"
    using run(1) by (auto simp: runLiveMode_def Let_def bind_eq_Some_conv)
  then obtain w where w: "createWorldFromOptions pf p = Some (Inr w)"
    using run by (cases r) (auto simp: runLiveMode_def Let_def dest: failed_no_records)
  note D = run(1) [unfolded runLiveMode_def Let_def w label_def [symmetric] u]
  have one: "\<exists>res'. do { r \<leftarrow> live_record mo (pf_uniform pf) writer (tui_ops sched) fuel (new_match w ent) judge s ?t;
        live_result_of (tui_ops sched) sink r } = Some res'
      \<and> lv_records res' = Some (h, ts, e) \<and> lv_written res' = lv_written res \<and> lv_error res' = None \<and> lv_code res' = 0
      \<and> tui_stage PhaseEnd (lv_ui res')"
    if L: "do { r \<leftarrow> live_record mo (pf_uniform pf) writer ui fuel (new_match w ent) judge s (ui_start ui u);
        live_result_of ui sink r } = Some res" for writer :: "'s writer_ops option" and judge s sink
  proof -
    obtain x where x: "live_record mo (pf_uniform pf) writer ui fuel (new_match w ent) judge s (ui_start ui u) = Some x"
      "live_result_of ui sink x = Some res"
      using L by (auto simp: bind_eq_Some_conv)
    then obtain run where "x = Inr run"
      using run(2) by (cases x) (auto simp: live_result_of_def dest: failed_no_records)
    then have r: "live_record mo (pf_uniform pf) writer ui fuel (new_match w ent) judge s (ui_start ui u) = Some (Inr run)"
      "lv_records res = Some (lr_header run, lr_ticks run, lr_end run)" "lv_written res = sink (lr_sink run)"
      using x by (auto simp: live_result_of_def)
    have "header_fromWorld w = Some (lr_header run)"
      using live_record_result [OF r(1)] by (metis new_match_def match.select_convs(1))
    then have "fits_screen (lr_header run)" using fit w by blast
    from open_record [where sched = sched, OF r(1) t this _ _ sched(3)] r(2,3) run(2) sched(1,2) show ?thesis
      by (auto simp: live_result_of_def)
  qed
  show ?thesis
  proof (cases "openReplayFile open_out (po_replay_file p)")
    case (Inl err)
    then show ?thesis using D run(2) by (auto dest: failed_no_records)
  next
    case (Inr opened)
    show ?thesis
    proof (cases opened)
      case None
      then show ?thesis using D Inr one by (simp add: runLiveMode_def w label_def [symmetric])
    next
      case (Some stream)
      show ?thesis
      proof (cases "po_output_zstd p")
        case True
        then obtain s where "zstd_writer_new z (po_output_zstd_level p) stream = Inr s"
          using D Inr Some run(2) by (cases "zstd_writer_new z (po_output_zstd_level p) stream") (auto dest: failed_no_records)
        then show ?thesis using D Inr Some True one by (simp add: runLiveMode_def w label_def [symmetric])
      next
        case False
        then show ?thesis using D Inr Some one by (simp add: runLiveMode_def w label_def [symmetric])
      qed
    qed
  qed
qed

end

end
