(* ===== verification/Map_Text_Roundtrip.thy ===== *)
theory Map_Text_Roundtrip
  imports Map_Text_Sound
begin

text \<open>
  A map that was loaded from a text file is printed as a text file that loads to the same map. The sides
  of the bases are not printed: the scan finds them again.
\<close>

declare split_paired_All [simp del] split_paired_Ex [simp del]

subsection \<open>The tiles of a loaded map\<close>

definition tile_text :: "tile \<Rightarrow> bool" where
  "tile_text t \<longleftrightarrow> (\<exists>c f. text_char t = Some c \<and> text_tile c = Some f \<and> f new_tile = t)"

lemma new_tile_text: "tile_text new_tile"
  by (simp add: tile_text_def text_char_def text_tile_def new_tile_def)

lemma text_tile_text: "text_tile c = Some f \<Longrightarrow> tile_text (f new_tile)"
  by (auto simp: text_tile_def tile_text_def text_char_def new_tile_def EMPTY_def WATER_def OBSTACLE_def
      split: if_splits)

lemma tile_text_char: "tile_text t \<Longrightarrow> \<exists>c. text_char t = Some c \<and> \<not> is_space c \<and> c \<noteq> CHR 0x0A"
  by (auto simp: tile_text_def text_tile_def is_space_def split: if_splits)

text \<open>The tiles outside \<open>V\<close> have not been written yet.\<close>

definition written :: "(pos_t \<times> pos_t) set \<Rightarrow> tilemap \<Rightarrow> bool" where
  "written V m \<longleftrightarrow> tilemap_wf m \<and> (\<forall>q t. tileOf m q = Some t \<longrightarrow> tile_text t \<and> (q \<notin> V \<longrightarrow> t = new_tile))"

lemma written_new: "0 \<le> w \<Longrightarrow> 0 \<le> h \<Longrightarrow> written {} (new_tilemap w h)"
proof -
  assume "0 \<le> w" "0 \<le> h"
  then have wf: "tilemap_wf (new_tilemap w h)" by (rule new_tilemap_wf)
  have "list_all (\<lambda>t. t = new_tile) (tm_tiles (new_tilemap w h))" by (simp add: new_tilemap_def list_all_iff)
  then show ?thesis using wf new_tile_text unfolding list_all_tileOf [OF wf] written_def by blast
qed

lemma written_tile:
  assumes "load_text_tile z m = Some (Inr m')" "written V m" "fst z \<notin> V"
  shows "written (insert (fst z) V) m'"
proof -
  obtain p c where z: "z = (p, c)" by (cases z)
  obtain f where f: "text_tile c = Some f" "updTile p f m = Some m'"
    using assms(1) by (auto simp: z load_text_tile_def bind_eq_Some_conv split: option.splits)
  have wf: "tilemap_wf m" "tilemap_wf m'" using assms(2) updTile_frame(5) [OF f(2)] by (simp_all add: written_def)
  obtain t where t: "tileOf m p = Some t" using updTile_inb [OF f(2)] by (cases "tileOf m p") auto
  then have "t = new_tile" using assms(2,3) z by (simp add: written_def)
  then have "tileOf m' p = Some (f new_tile)" using tileOf_updTile [OF f(2) wf(1), of p] t by simp
  then show ?thesis
    using assms(2) z wf(2) text_tile_text [OF f(1)] tileOf_updTile [OF f(2) wf(1)]
    unfolding written_def by (metis fst_conv insert_iff option.inject)
qed

lemma written_row:
  assumes "load_text_row w y (l, iss, m) = Some (Inr (l', iss', m'))" "written {q. snd q \<in> Y} m" "y \<notin> Y"
  shows "written {q. snd q \<in> insert y Y} m'"
proof -
  let ?xs = "zip (row_positions w y) l'"
  note R = load_text_row_run [OF assms(1)]
  have dist: "distinct (map fst ?xs)"
    unfolding row_fst [OF R(1)] by (simp add: row_positions_def distinct_map inj_on_def)
  have "written ({q. snd q \<in> Y} \<union> fst ` set ?xs) m'"
    using R(2)
  proof (rule try_fold_invariant)
    fix ys zs :: "((pos_t \<times> pos_t) \<times> char) list" and z s t
    assume a: "?xs = ys @ z # zs" "written ({q. snd q \<in> Y} \<union> fst ` set ys) s" "load_text_tile z s = Some (Inr t)"
    have "z \<in> set ?xs" unfolding a(1) by simp
    then have "snd (fst z) = y" by (rule row_snd)
    moreover have "fst z \<notin> fst ` set ys" using dist unfolding a(1) by auto
    ultimately have "fst z \<notin> {q. snd q \<in> Y} \<union> fst ` set ys" using assms(3) by auto
    from written_tile [OF a(3,2) this] show "written ({q. snd q \<in> Y} \<union> fst ` set (ys @ [z])) t"
      by simp
  qed (use assms(2) in simp)
  then show ?thesis using row_snd [of _ w y l'] unfolding written_def by blast
qed

lemma written_rows:
  assumes "load_text_rows w h iss m = Some (Inr m')" "written {} m"
  shows "written {q. snd q \<in> set [0..h - 1]} m'"
proof -
  obtain l iss' where "try_fold (load_text_row w) [0..h - 1] ([], iss, m) = Some (Inr (l, iss', m'))"
    by (rule load_text_rows_run [OF assms(1)])
  then have "written {q. snd q \<in> set [0..h - 1]} (snd (snd (l, iss', m')))"
  proof (rule try_fold_invariant)
    fix ys y zs s t
    assume a: "[0..h - 1] = ys @ y # zs" "written {q. snd q \<in> set ys} (snd (snd s))" "load_text_row w y s = Some (Inr t)"
    obtain l i m1 l' i' m1' where st: "s = (l, i, m1)" "t = (l', i', m1')" by (cases s, cases t)
    have "y \<notin> set ys" using distinct_upto [of 0 "h - 1"] unfolding a(1) by simp
    then show "written {q. snd q \<in> set (ys @ [y])} (snd (snd t))"
      using written_row [of w y l i m1 l' i' m1' "set ys"] a(2,3) st by simp
  qed (use assms(2) in simp)
  then show ?thesis by simp
qed

subsection \<open>Printing\<close>

definition cell :: "tilemap \<Rightarrow> pos_t \<times> pos_t \<Rightarrow> string" where
  "cell m p = [the (text_char (the (tileOf m p))), if fst p = tm_width m - 1 then CHR 0x0A else CHR '' '']"

definition text_row :: "tilemap \<Rightarrow> int \<Rightarrow> string" where
  "text_row m y = concat (map (cell m) (row_positions (tm_width m) y))"

definition map_text :: "tilemap \<Rightarrow> string" where
  "map_text m = dec_int (tm_width m) @ '' '' @ dec_int (tm_height m) @ [CHR 0x0A]
     @ concat (map (text_row m) [0..tm_height m - 1])"

lemma save_text_tiles_cells:
  assumes "\<And>p. p \<in> set ps \<Longrightarrow> \<exists>t. tileOf m p = Some t \<and> text_char t \<noteq> None"
  shows "save_text_tiles m ps os = Some (Inr (), os @ concat (map (cell m) ps))"
  using assms
proof (induction ps arbitrary: os)
  case (Cons p ps)
  obtain t c where "tileOf m p = Some t" "text_char t = Some c" using Cons.prems [of p] by auto
  then have "save_text_tile m p os = Some (Inr (), os @ cell m p)" by (simp add: save_text_tile_def cell_def)
  then show ?case using Cons by simp
qed simp

lemma concat_map_concat: "concat (map f (concat (map g xs))) = concat (map (\<lambda>x. concat (map f (g x))) xs)"
  by (induction xs) simp_all

lemma row_major_row_positions: "row_major m = concat (map (row_positions (tm_width m)) [0..tm_height m - 1])"
  by (simp add: row_major_def row_positions_def [abs_def])

lemma saveAsText_text:
  assumes "tilemap_wf m" "list_all (\<lambda>t. text_char t \<noteq> None) (tm_tiles m)"
  shows "saveAsText m [] = Some (Inr (), map_text m)"
proof -
  have "\<exists>t. tileOf m p = Some t \<and> text_char t \<noteq> None" if "p \<in> set (row_major m)" for p
  proof -
    have "tm_inb m p" using that set_row_major by blast
    then obtain t where "tileOf m p = Some t" by (cases "tileOf m p") auto
    then show ?thesis using assms(2) unfolding list_all_tileOf [OF assms(1)] by blast
  qed
  moreover have "concat (map (cell m) (row_major m)) = concat (map (text_row m) [0..tm_height m - 1])"
    by (simp add: row_major_row_positions concat_map_concat text_row_def [abs_def])
  ultimately show ?thesis by (simp add: saveAsText_def save_text_tiles_cells map_text_def)
qed

text \<open>A printed row, without its spaces, is the characters of its tiles.\<close>

lemma text_row_line:
  assumes "0 < tm_width m" "\<And>x. 0 \<le> x \<Longrightarrow> x < tm_width m \<Longrightarrow> \<exists>t. tileOf m (x, y) = Some t \<and> tile_text t"
  obtains l where "text_row m y = l @ [CHR 0x0A]" "CHR 0x0A \<notin> set l"
    "filter (\<lambda>c. \<not> is_space c) l = map (\<lambda>p. the (text_char (the (tileOf m p)))) (row_positions (tm_width m) y)"
proof -
  let ?w = "tm_width m" and ?ch = "\<lambda>p. the (text_char (the (tileOf m p)))"
  let ?l = "concat (map (\<lambda>x. [?ch (x, y), CHR '' '']) [0..?w - 2]) @ [?ch (?w - 1, y)]"
  have up: "[0..?w - 1] = [0..?w - 2] @ [?w - 1]" using assms(1) upto_rec2 [of 0 "?w - 1"] by simp
  have ch: "\<not> is_space (?ch (x, y)) \<and> ?ch (x, y) \<noteq> CHR 0x0A" if "0 \<le> x" "x < ?w" for x
    using assms(2) [OF that] tile_text_char by fastforce
  have cells: "concat (map (cell m) (map (\<lambda>x. (x, y)) xs)) = concat (map (\<lambda>x. [?ch (x, y), CHR '' '']) xs)"
    if "\<forall>x\<in>set xs. x < ?w - 1" for xs
    using that by (induction xs) (auto simp: cell_def)
  have "text_row m y = ?l @ [CHR 0x0A]"
    using cells [of "[0..?w - 2]"] by (simp add: text_row_def row_positions_def up cell_def)
  moreover have nl: "CHR 0x0A \<notin> set (concat (map (\<lambda>x. [?ch (x, y), CHR '' '']) xs))"
    if "\<forall>x\<in>set xs. 0 \<le> x \<and> x < ?w" for xs
    using that
  proof (induction xs)
    case (Cons x xs)
    then have "?ch (x, y) \<noteq> CHR 0x0A" using ch [of x] by simp
    then show ?case using Cons not_sym by auto
  qed simp
  have "CHR 0x0A \<notin> set ?l"
    using nl [of "[0..?w - 2]"] not_sym [OF conjunct2 [OF ch [of "?w - 1"]]] assms(1) by simp
  moreover have "filter (\<lambda>c. \<not> is_space c) (concat (map (\<lambda>x. [?ch (x, y), CHR '' '']) xs)) = map (\<lambda>x. ?ch (x, y)) xs"
    if "\<forall>x\<in>set xs. 0 \<le> x \<and> x < ?w" for xs
    using that ch by (induction xs) (auto simp: is_space_def)
  then have "filter (\<lambda>c. \<not> is_space c) ?l = map ?ch (row_positions ?w y)"
    using ch [of "?w - 1"] assms(1) by (simp add: row_positions_def up comp_def)
  ultimately show thesis using that by blast
qed

subsection \<open>Reading it back\<close>

text \<open>\<open>copied V m0 m\<close>: on \<open>V\<close> the tiles are those of \<open>m0\<close>, elsewhere they are new.\<close>

definition copied :: "(pos_t \<times> pos_t) set \<Rightarrow> tilemap \<Rightarrow> tilemap \<Rightarrow> bool" where
  "copied V m0 m \<longleftrightarrow> tilemap_wf m \<and> tm_width m = tm_width m0 \<and> tm_height m = tm_height m0
     \<and> tm_base_size m = tm_base_size m0
     \<and> (\<forall>q. tm_inb m0 q \<longrightarrow> tileOf m q = (if q \<in> V then tileOf m0 q else Some new_tile))"

lemma copied_inb: "copied V m0 m \<Longrightarrow> tm_inb m = tm_inb m0"
  by (rule ext) (simp add: copied_def tm_inb_def)

lemma copied_new:
  "tilemap_wf m0 \<Longrightarrow> tm_base_size m0 = 0 \<Longrightarrow> copied {} m0 (new_tilemap (tm_width m0) (tm_height m0))"
proof -
  assume a: "tilemap_wf m0" "tm_base_size m0 = 0"
  let ?n = "new_tilemap (tm_width m0) (tm_height m0)"
  have wf: "tilemap_wf ?n" using a by (intro new_tilemap_wf) (simp_all add: tilemap_wf_def)
  have "list_all (\<lambda>t. t = new_tile) (tm_tiles ?n)" by (simp add: new_tilemap_def list_all_iff)
  then have n: "\<And>q t. tileOf ?n q = Some t \<Longrightarrow> t = new_tile" unfolding list_all_tileOf [OF wf] by blast
  have "tileOf ?n q = Some new_tile" if "tm_inb m0 q" for q
  proof -
    have "tm_inb ?n q" using that by (simp add: tm_inb_def)
    then obtain t where "tileOf ?n q = Some t" by (cases "tileOf ?n q") auto
    then show ?thesis using n by simp
  qed
  then show ?thesis using wf a(2) by (simp add: copied_def) (simp add: new_tilemap_def)
qed

lemma tilemap_tiles_eq:
  assumes "tilemap_wf m" "tilemap_wf m'" "tm_width m' = tm_width m" "tm_height m' = tm_height m"
    "tm_base_size m' = tm_base_size m" "\<And>q. tm_inb m q \<Longrightarrow> tileOf m' q = tileOf m q"
  shows "m' = m"
proof -
  have len: "length (tm_tiles m') = length (tm_tiles m)" using assms(1-4) by (simp add: tilemap_wf_def)
  have "tm_tiles m' ! i = tm_tiles m ! i" if i: "i < length (tm_tiles m)" for i
  proof -
    have r: "row_major m' = row_major m" using assms(3,4) by (rule row_major_cong)
    have "row_major m ! i \<in> set (row_major m)" using i row_major_length [OF assms(1)] by simp
    then have "tm_inb m (row_major m ! i)" using set_row_major by blast
    then show ?thesis
      using row_major_tile [OF assms(1) i] row_major_tile [OF assms(2), of i] assms(6) r i len by simp
  qed
  then have "tm_tiles m' = tm_tiles m" using len by (intro nth_equalityI) simp_all
  then show ?thesis using assms(3-5) by simp
qed

lemma copied_tile:
  assumes "copied V m0 m" "tileOf m0 p = Some t" "tile_text t" "p \<notin> V"
  shows "\<exists>m'. load_text_tile (p, the (text_char t)) m = Some (Inr m') \<and> copied (insert p V) m0 m'"
proof -
  obtain c f where c: "text_char t = Some c" "text_tile c = Some f" "f new_tile = t"
    using assms(3) by (auto simp: tile_text_def)
  have inb: "tm_inb m0 p" using tileOf_inb [OF assms(2)] .
  then have new: "tileOf m p = Some new_tile" using assms(1,4) by (simp add: copied_def)
  obtain m' where m': "updTile p f m = Some m'" using inb copied_inb [OF assms(1)] by (cases "updTile p f m") auto
  have wf: "tilemap_wf m" using assms(1) by (simp add: copied_def)
  have "copied (insert p V) m0 m'"
    using assms(1,2) updTile_frame [OF m'] tileOf_updTile [OF m' wf] new c(3)
    by (simp add: copied_def)
  then show ?thesis using new m' c(1,2) by (simp add: load_text_tile_def)
qed

lemma copied_tiles:
  assumes "copied V m0 m" "distinct ps" "\<forall>p\<in>set ps. p \<notin> V \<and> (\<exists>t. tileOf m0 p = Some t \<and> tile_text t)"
  shows "\<exists>m'. try_fold load_text_tile (zip ps (map (\<lambda>p. the (text_char (the (tileOf m0 p)))) ps)) m = Some (Inr m')
    \<and> copied (V \<union> set ps) m0 m'"
  using assms
proof (induction ps arbitrary: V m)
  case (Cons p ps)
  obtain t where t: "tileOf m0 p = Some t" "tile_text t" using Cons.prems(3) by auto
  obtain m1 where m1: "load_text_tile (p, the (text_char t)) m = Some (Inr m1)" "copied (insert p V) m0 m1"
    using copied_tile [OF Cons.prems(1) t] Cons.prems(3) by auto
  show ?case using Cons.IH [OF m1(2)] Cons.prems(2,3) m1(1) t(1) by auto
qed simp

definition text_map :: "tilemap \<Rightarrow> bool" where
  "text_map m \<longleftrightarrow> (\<forall>q t. tileOf m q = Some t \<longrightarrow> tile_text t)"

lemma text_map_tile: "text_map m \<Longrightarrow> tileOf m q = Some t \<Longrightarrow> tile_text t"
  by (simp add: text_map_def)

lemma copied_row:
  assumes "copied {q. snd q \<in> Y} m0 m" "y \<notin> Y" "0 \<le> y" "y < tm_height m0" "0 < tm_width m0"
    "text_map m0"
  shows "\<exists>l' m'. load_text_row (tm_width m0) y (l, \<lparr>ss_rest = text_row m0 y @ cs, ss_eof = False, ss_fail = False\<rparr>, m)
      = Some (Inr (l', \<lparr>ss_rest = cs, ss_eof = False, ss_fail = False\<rparr>, m'))
    \<and> copied {q. snd q \<in> insert y Y} m0 m'"
proof -
  have tiles: "\<exists>t. tileOf m0 (x, y) = Some t \<and> tile_text t" if "0 \<le> x" "x < tm_width m0" for x
  proof -
    have "tm_inb m0 (x, y)" using that assms(3,4) by (simp add: tm_inb_def)
    then obtain t where "tileOf m0 (x, y) = Some t" by (cases "tileOf m0 (x, y)") auto
    then show ?thesis using text_map_tile [OF assms(6)] by blast
  qed
  obtain line where line: "text_row m0 y = line @ [CHR 0x0A]" "CHR 0x0A \<notin> set line"
    "filter (\<lambda>c. \<not> is_space c) line = map (\<lambda>p. the (text_char (the (tileOf m0 p)))) (row_positions (tm_width m0) y)"
    by (rule text_row_line [OF assms(5) tiles])
  have ps: "distinct (row_positions (tm_width m0) y)" by (simp add: row_positions_def distinct_map inj_on_def)
  have "\<forall>p\<in>set (row_positions (tm_width m0) y). p \<notin> {q. snd q \<in> Y} \<and> (\<exists>t. tileOf m0 p = Some t \<and> tile_text t)"
    using tiles assms(2) by (auto simp: row_positions_def)
  from copied_tiles [OF assms(1) ps this] obtain m' where m': "try_fold load_text_tile
      (zip (row_positions (tm_width m0) y) (filter (\<lambda>c. \<not> is_space c) line)) m = Some (Inr m')"
    "copied ({q. snd q \<in> Y} \<union> set (row_positions (tm_width m0) y)) m0 m'"
    unfolding line(3) by blast
  have len: "int (length (filter (\<lambda>c. \<not> is_space c) line)) = tm_width m0"
    unfolding line(3) using assms(5) by (simp add: row_positions_def)
  have "copied {q. snd q \<in> insert y Y} m0 m'"
    using m'(2) by (fastforce simp: copied_def row_positions_def tm_inb_def)
  then show ?thesis
    using get_line_feed [OF line(2), of cs l] m'(1) len line(1) by (simp add: load_text_row_def)
qed

lemma copied_rows:
  assumes "copied {q. snd q \<in> Y} m0 m" "0 < tm_width m0" "text_map m0" "distinct ys" "\<forall>y\<in>set ys. y \<notin> Y \<and> 0 \<le> y \<and> y < tm_height m0"
  shows "\<exists>l' m'. try_fold (load_text_row (tm_width m0)) ys
      (l, \<lparr>ss_rest = concat (map (text_row m0) ys), ss_eof = False, ss_fail = False\<rparr>, m)
      = Some (Inr (l', \<lparr>ss_rest = [], ss_eof = False, ss_fail = False\<rparr>, m'))
    \<and> copied {q. snd q \<in> Y \<union> set ys} m0 m'"
  using assms(1,4,5)
proof (induction ys arbitrary: Y m l)
  case (Cons y ys)
  obtain l1 m1 where m1: "load_text_row (tm_width m0) y
      (l, \<lparr>ss_rest = text_row m0 y @ concat (map (text_row m0) ys), ss_eof = False, ss_fail = False\<rparr>, m)
      = Some (Inr (l1, \<lparr>ss_rest = concat (map (text_row m0) ys), ss_eof = False, ss_fail = False\<rparr>, m1))"
    "copied {q. snd q \<in> insert y Y} m0 m1"
    using copied_row [OF Cons.prems(1) _ _ _ assms(2,3), where y = y and l = l and cs = "concat (map (text_row m0) ys)"] Cons.prems(3) by auto
  have "\<forall>y'\<in>set ys. y' \<notin> insert y Y \<and> 0 \<le> y' \<and> y' < tm_height m0" using Cons.prems(2,3) by auto
  from Cons.IH [OF m1(2) _ this, of l1] Cons.prems(2) m1(1) show ?case by auto
qed auto

lemma load_map_text:
  assumes P: "map_plain m0" and T: "text_map m0" and d: "0 < tm_width m0" "0 < tm_height m0"
  shows "load_text_string (map_text m0) = assign_bases (tm_width m0) (tm_height m0) m0"
proof -
  let ?w = "tm_width m0" and ?h = "tm_height m0" and ?body = "concat (map (text_row m0) [0..tm_height m0 - 1])"
  have wf: "tilemap_wf m0" "tm_base_size m0 = 0" "?w < 32768" "?h < 32768" using P by (simp_all add: map_plain_def)
  have nd: "\<not> is_digit (CHR '' '')" "\<not> is_digit (CHR 0x0A)" "is_space (CHR '' '')" by (simp_all add: is_digit_def is_space_def)
  have r1: "read_int (istringstream_new (map_text m0))
      = (Some ?w, \<lparr>ss_rest = '' '' @ dec_int ?h @ CHR 0x0A # ?body, ss_eof = False, ss_fail = False\<rparr>)"
    using read_dec_int [of ?w "CHR '' ''" "[]" "dec_int ?h @ CHR 0x0A # ?body"] d wf nd
    by (simp add: map_text_def istringstream_new_def INT_MAX_def)
  have r2: "read_int \<lparr>ss_rest = '' '' @ dec_int ?h @ CHR 0x0A # ?body, ss_eof = False, ss_fail = False\<rparr>
      = (Some ?h, \<lparr>ss_rest = CHR 0x0A # ?body, ss_eof = False, ss_fail = False\<rparr>)"
    using d wf nd by (intro read_dec_int) (simp_all add: INT_MAX_def)
  have ig: "ignore_line \<lparr>ss_rest = CHR 0x0A # ?body, ss_eof = False, ss_fail = False\<rparr>
      = \<lparr>ss_rest = ?body, ss_eof = False, ss_fail = False\<rparr>"
    by (simp add: ignore_line_def ss_good_def)
  obtain l' m' where m': "try_fold (load_text_row ?w) [0..?h - 1]
      ([], \<lparr>ss_rest = ?body, ss_eof = False, ss_fail = False\<rparr>, new_tilemap ?w ?h)
      = Some (Inr (l', \<lparr>ss_rest = [], ss_eof = False, ss_fail = False\<rparr>, m'))"
    "copied {q. snd q \<in> set [0..?h - 1]} m0 m'"
    using copied_rows [of "{}" m0 "new_tilemap ?w ?h" "[0..?h - 1]" "[]"] copied_new [OF wf(1,2)] d T by auto
  have "m' = m0"
    by (rule tilemap_tiles_eq [OF wf(1)]) (use m'(2) in \<open>auto simp: copied_def tm_inb_def\<close>)
  then have rows: "load_text_rows ?w ?h \<lparr>ss_rest = ?body, ss_eof = False, ss_fail = False\<rparr> (new_tilemap ?w ?h)
      = Some (Inr m0)"
    using m'(1) by (simp add: load_text_rows_def)
  have "map_text m0 \<noteq> []" "\<not> ?w * ?h < 0" using d by (simp_all add: map_text_def not_less)
  then show ?thesis
    using r1 r2 ig rows d wf by (simp add: load_text_string_def load_text_sized_def pos_of_int_id)
qed

subsection \<open>Round trip\<close>

lemma map_text_cleared:
  assumes "tilemap_wf m0" "cleared m = m0" shows "map_text m = map_text m0"
proof -
  have "text_char (the (tileOf m p)) = text_char (the (tileOf m0 p))" if p: "tm_inb m0 p" for p
  proof -
    obtain t where "tileOf m p = Some t" using p cleared_facts(3) [OF assms(2)] by (cases "tileOf m p") auto
    then show ?thesis using cleared_facts(5) [OF assms(2,1), of p] by (simp add: text_char_def)
  qed
  then have "cell m p = cell m0 p" if "p \<in> set (row_positions (tm_width m0) y)" "0 \<le> y" "y < tm_height m0" for p y
    using that cleared_facts(1) [OF assms(2)] by (auto simp: cell_def row_positions_def tm_inb_def)
  then have "text_row m y = text_row m0 y" if "0 \<le> y" "y < tm_height m0" for y
    using that cleared_facts(1) [OF assms(2)] by (simp add: text_row_def cong: map_cong)
  then have "map (text_row m) [0..tm_height m0 - 1] = map (text_row m0) [0..tm_height m0 - 1]" by (intro map_cong) auto
  then show ?thesis unfolding map_text_def cleared_facts(1,2) [OF assms(2)] by (simp only:)
qed

lemma save_load_text:
  assumes "load_text_string text = Some (Inr m)" "0 < tm_width m" "0 < tm_height m"
  shows "saveAsText m [] = Some (Inr (), map_text m)" "load_text_string (map_text m) = Some (Inr m)"
proof -
  obtain w h iss where s: "load_text_sized w h iss = Some (Inr m)"
    using assms(1) by (auto simp: load_text_string_def bind_eq_Some_conv split: if_splits prod.splits)
  obtain m0 where m0: "map_plain m0" "tm_width m0 = tm_width m" "tm_height m0 = tm_height m"
    "assign_bases (tm_width m0) (tm_height m0) m0 = Some (Inr m)"
    "load_text_rows w h iss (new_tilemap (pos_of_int w) (pos_of_int h)) = Some (Inr m0)"
    by (rule load_text_sized_plain [OF s assms(2,3)])
  have "plain_like (new_tilemap (pos_of_int w) (pos_of_int h)) m0" using load_text_rows_plain [OF m0(5)] by blast
  then have "0 \<le> pos_of_int w" "0 \<le> pos_of_int h" using m0(2,3) assms(2,3) by (simp_all add: plain_like_def)
  then have W: "written {q. snd q \<in> set [0..h - 1]} m0" by (intro written_rows [OF m0(5)] written_new)
  obtain cs c m1 where I: "assign_inv m0 (row_major m0) cs (c, int (length cs), m1)" "m = m1\<lparr>tm_base_size := pos_of_int c\<rparr>"
    using assign_bases_inv [OF m0(1,4)] by blast
  then have c: "cleared m = m0" by (auto simp: assign_inv_def cleared_def)
  have wf0: "tilemap_wf m0" using m0(1) by (simp add: map_plain_def)
  have T: "text_map m0" using W unfolding written_def text_map_def by blast
  have wf: "tilemap_wf m" using cleared_facts(4) [OF c] wf0 by simp
  have "text_char t \<noteq> None" if t: "tileOf m q = Some t" for q t
  proof -
    have "tileOf m0 q = Some (t\<lparr>t_side := 0\<rparr>)" using t cleared_facts(5) [OF c wf0] by simp
    then have "tile_text (t\<lparr>t_side := 0\<rparr>)" by (rule text_map_tile [OF T])
    then show ?thesis by (auto simp: tile_text_def text_char_def split: if_splits)
  qed
  then have "list_all (\<lambda>t. text_char t \<noteq> None) (tm_tiles m)" unfolding list_all_tileOf [OF wf] by blast
  then show "saveAsText m [] = Some (Inr (), map_text m)" by (rule saveAsText_text [OF wf])
  show "load_text_string (map_text m) = Some (Inr m)"
    using load_map_text [OF m0(1) T] m0(2-4) assms(2,3) map_text_cleared [OF wf0 c] by simp
qed

subsection \<open>The choice of the format\<close>

definition bytes_of_text :: "string \<Rightarrow> byte list" where
  "bytes_of_text = map of_char"

lemma char_of_byte: "char_of (unat (of_char c :: byte)) = c"
proof -
  have "(of_char c :: byte) = word_of_nat (of_char c)" by (rule of_nat_of_char [symmetric])
  moreover have "of_char c < (2 :: nat) ^ LENGTH(8)" by simp
  ultimately have "unat (of_char c :: byte) = of_char c" by (simp only: word_of_nat_unat_le)
  then show ?thesis by simp
qed

lemma text_of_bytes [simp]: "text_of (bytes_of_text s) = s"
  by (simp add: text_of_def bytes_of_text_def comp_def char_of_byte)

lemma load_text_file:
  assumes "is_digit (hd s)" "s \<noteq> []"
  shows "tilemap_load ndebug (istream_of (bytes_of_text s)) = load_text_string s"
proof -
  obtain c cs where s: "s = c # cs" using assms(2) by (cases s) auto
  have "istream_good (istream_of bs)" for bs by (simp add: istream_good_def istream_of_def)
  then show ?thesis
    using assms(1) text_of_bytes [of s]
    by (simp add: tilemap_load_def tilemap_loadText_def istream_of_def s bytes_of_text_def char_of_byte)
qed

lemma load_binary_file:
  "\<not> is_digit (char_of (unat b)) \<Longrightarrow>
     tilemap_load ndebug (istream_of (b # bs)) = tilemap_loadBinary ndebug (istream_of (b # bs))"
  by (simp add: tilemap_load_def istream_good_def istream_of_def)

lemma load_map_file: "tilemap_load ndebug (istream_of (map_bytes m)) = tilemap_loadBinary ndebug (istream_of (map_bytes m))"
proof -
  have "map_bytes m = 0x43 # tl (map_bytes m)" by (simp add: map_bytes_def tilemap_binary_magic_def)
  then show ?thesis using load_binary_file [of "0x43" ndebug "tl (map_bytes m)"] by (simp add: is_digit_def)
qed

lemma save_load_text_file:
  assumes "tilemap_loadText i = Some (Inr m)" "0 < tm_width m" "0 < tm_height m"
  shows "saveAsText m [] = Some (Inr (), map_text m)
    \<and> tilemap_load ndebug (istream_of (bytes_of_text (map_text m))) = Some (Inr m)"
proof -
  have l: "load_text_string (text_of (is_data i)) = Some (Inr m)"
    using assms(1) by (auto simp: tilemap_loadText_def split: if_splits)
  have "dec_digits (nat (tm_width m)) \<noteq> []" "is_digit (hd (dec_digits (nat (tm_width m))))"
    using dec_digits_digits [of "nat (tm_width m)"] by (cases "dec_digits (nat (tm_width m))"; simp)+
  then have "map_text m \<noteq> []" "is_digit (hd (map_text m))"
    using assms(2) by (simp_all add: map_text_def dec_int_def)
  then show ?thesis using save_load_text [OF l assms(2,3)] load_text_file [of "map_text m" ndebug] by simp
qed

end
