(* ===== verification/Samples.thy ===== *)
theory Samples
  imports Interactive Map_Text_Roundtrip
begin

text \<open>
  Concrete worlds, contexts and replays at which the properties of the development are applied:
  variants of \<open>sample_world\<close> (a 4 by 4 map with two bases of 2 by 2 tiles and three units each).
\<close>

lemma sample_world_ok:
  "turn_inv sample_world" "io_ok sample_world" "capture_inv sample_world" "w_reason sample_world = Ongoing"
  using new_world_ok [OF sample_map_ok first_choice_ok sample_world_new] by simp_all

lemma sample_units: "w_units sample_world = [0, 1, 2, 3, 4, 5]"
  by code_simp

lemma sample_unit: "w_uheap sample_world 0 = Some (new_unit 1 P1 0 0 100)"
  by code_simp

lemma sample_unit2: "w_uheap sample_world 2 = Some (new_unit 3 P1 1 0 100)"
  by code_simp

lemma sample_rules: "w_rules sample_world = default_rules\<lparr>gr_width := 4, gr_height := 4, gr_base_size := 2\<rparr>"
  by code_simp

lemma script_machine_ok: "machine_ok script_ops"
  by (simp add: machine_ok_def script_ops_def)

subsection \<open>A player with energy and a damaged unit in its base\<close>

definition worn_unit :: game_unit where
  "worn_unit = (new_unit 1 P1 0 0 100)\<lparr>u_energy := 50, u_health := 60\<rparr>"

definition funded_world :: world where
  "funded_world = upd_player P1 (\<lambda>p. p\<lparr>p_base_energy := 2000\<rparr>)
     (sample_world\<lparr>w_uheap := (w_uheap sample_world)(0 \<mapsto> worn_unit)\<rparr>)"

lemma funded_world_ok: "turn_inv funded_world" "io_ok funded_world"
proof -
  have "turn_inv (sample_world\<lparr>w_uheap := (w_uheap sample_world)(0 \<mapsto> worn_unit)\<rparr>)"
    by (rule turn_inv_upd_unit [OF sample_world_ok(1) sample_unit])
      (simp_all add: worn_unit_def unit_stats_ok_def sample_rules maxHealth_def maxCapacity_def default_rules_def)
  then show "turn_inv funded_world" unfolding funded_world_def by (rule turn_inv_upd_player) simp_all
  show "io_ok funded_world"
    using sample_world_ok(2) unfolding funded_world_def by (simp add: io_ok_simps)
qed

lemma funded_target: "target_unit funded_world P1 1 0 worn_unit"
  by (simp add: target_unit_def valid_id_def max_units_def funded_world_def upd_player_def sample_units worn_unit_def)

definition unit_sim :: "script sim" where
  "unit_sim = \<lparr>s_world = funded_world,
     s_ctx = fresh_ctx\<lparr>c_unit := Some 0, c_visible_tiles := replicate 25 True\<rparr>,
     s_machine = \<lparr>sc_calls = [], sc_args = [7, 7], sc_result = 0\<rparr>\<rparr>"

lemma unit_sim_ok: "sim_ok unit_sim" "is_unit unit_sim" "ctx_unit unit_sim = Some worn_unit"
  using funded_world_ok
  by (simp_all add: sim_ok_def unit_sim_def is_unit_def ctx_unit_def fresh_ctx_def MAX_LOG_QUOTA_def)
    (simp_all add: funded_world_def upd_player_def sample_units visionRange_def worn_unit_def new_unit_def
      no_upgrades_def sample_rules default_rules_def)

subsection \<open>Units on the move and a shot\<close>

definition marching_world :: world where
  "marching_world = sample_world\<lparr>w_uheap := (w_uheap sample_world)
     (2 \<mapsto> (new_unit 3 P1 1 0 100)\<lparr>u_pending_move := Some Right,
            u_pending_attack := \<lparr>pa_damage = 10, pa_direction = Right\<rparr>\<rparr>)\<rparr>"

lemma marching_world_ok: "turn_inv marching_world"
  unfolding marching_world_def
  by (rule turn_inv_upd_unit [OF sample_world_ok(1) sample_unit2])
    (simp_all add: unit_stats_ok_def new_unit_def maxCapacity_def maxHealth_def)

lemma marching_shot: "map_option (\<lambda>w. length (w_bullets w)) (processBulletMovement marching_world) = Some 0"
  by code_simp

definition targeted_world :: world where
  "targeted_world = sample_world\<lparr>w_bheap := (w_bheap sample_world)
     (9 \<mapsto> \<lparr>b_x = 0, b_y = 0, b_direction = Left, b_player = P2, b_damage = 150\<rparr>)\<rparr>"

subsection \<open>A replay\<close>

definition sample_tick :: tick_frame where
  "sample_tick = \<lparr>fr_tick = 1, fr_players = (\<lparr>rp_id = 1, rp_base_energy = 300, rp_base_capture_counter = 0\<rparr>,
       \<lparr>rp_id = 2, rp_base_energy = 0, rp_base_capture_counter = 2\<rparr>),
     fr_units = [\<lparr>ru_id = 1, ru_player_id = 1, ru_x = 0, ru_y = 0, ru_health = 60, ru_attack_cooldown = 0,
       ru_upgrades = 0, ru_energy = 300\<rparr>],
     fr_bullets = [\<lparr>rb_x = 3, rb_y = 1, rb_direction = 2, rb_player_id = 2, rb_damage = 10\<rparr>],
     fr_logs = [unitCreationLog 1 2 3]\<rparr>"

definition sample_header :: replay_header where
  "sample_header = \<lparr>rh_version = replay_version,
     rh_tilemap = \<lparr>rt_width = 2, rt_height = 1, rt_base_size = 1,
       rt_tiles = [\<lparr>tf_terrain = 0, tf_side = 1, tf_is_resource = False, tf_is_base = True\<rparr>,
                   \<lparr>tf_terrain = 3, tf_side = 0, tf_is_resource = True, tf_is_base = False\<rparr>]\<rparr>,
     rh_game_rules = default_rules\<rparr>"

definition sample_end :: end_marker where
  "sample_end = \<lparr>em_termination = EndCompleted, em_winner_player_id = 2\<rparr>"

lemma sample_replay_ok: "frame_ok sample_tick" "header_ok sample_header" "end_ok sample_end"
  by (simp_all add: frame_ok_def sample_tick_def unitCreationLog_def toBytes_def header_ok_def sample_header_def
      tilemap_ok_def tileCount_def tilemapEncodedSize_def tile_flags_wf_def sizeof_game_rules_def sample_end_def end_ok_def)

lemma sample_round_ok: "round_ok sample_match"
proof -
  have "map_size sample_world = (4, 4)" by code_simp
  then show ?thesis
    using sample_match_ok sample_world_ok(4) by (simp add: round_ok_def sample_match_def new_match_def)
qed

lemma sample_bits: "map_bits_ok (w_map sample_world)"
  by code_simp

text \<open>
  One turn. The players have no programs, so the turn logs two
  exceptions of the bases and six of the units.
\<close>

lemma sample_turn: "map_option (\<lambda>m. (w_tick (mt_world m), length (w_logs (mt_world m)), gameOver (mt_world m)))
    (match_step script_ops first_choice sample_match) = Some (1, 8, False)"
  by code_simp

lemma sample_start: "\<not> gameOver sample_world" "w_tick sample_world = 0"
  using new_world_ok [OF sample_map_ok first_choice_ok sample_world_new] by (simp_all add: gameOver_def)

text \<open>One round of a match whose programs cannot be started, under a judge that draws at turn 1.\<close>

lemma one_round:
  assumes step: "match_step mo uniform_int m = Some m1" "runtime_env uniform_int mo" "round_ok m" "\<not> gameOver (mt_world m)"
    and m1: "w_tick (mt_world m1) = 1" "length (w_logs (mt_world m1)) = 8" "\<not> gameOver (mt_world m1)"
    and B: "map_bits_ok (w_map (mt_world m))" and s: "\<not> os_bad s" "os_room s = None" "os_flushes s"
  shows "\<exists>r t. headless_record mo uniform_int raw_writer (\<lambda>_. False) 2 m (MaxTicks 1) s = Some (Inr r)
    \<and> hr_ticks r = [t] \<and> length (fr_logs t) = 8 \<and> fr_tick t = w_tick (mt_world m) + 1 \<and> hr_exit r = ExitDraw"
proof -
  obtain t where t: "tick_fromWorldState (mt_world m1) = Some (t, (mt_world m1)\<lparr>w_logs := []\<rparr>)"
    "length (fr_logs t) = 8" "frame_ok t" "fr_tick t = w_tick (mt_world m) + 1"
    using runtime_env.headless_round [OF step(2,3,4,1)] m1(2) by auto
  have "winv (mt_world m)" using step(3) turn_invD(1) by (auto simp: round_ok_def match_ok_def running_ok_def)
  then obtain h where h: "header_fromWorld (mt_world m) = Some h" "header_ok h"
    using header_fromWorld_ok B by blast
  have g: "gameOver ((mt_world m1)\<lparr>w_logs := []\<rparr>) = False" using m1(3) by (simp add: gameOver_def)
  have wr: "\<exists>s'. wr_chunk raw_writer bs s = Some (Inr (), s') \<and> \<not> os_bad s' \<and> os_room s' = None \<and> os_flushes s'"
    if "\<not> os_bad s" "os_room s = None" "os_flushes s" for bs and s :: ostream
    using that by (simp add: raw_writer_def writeBytesToStream_def os_write_def Let_def)
  obtain s1 where s1: "wr_chunk raw_writer (header_bytes h) s = Some (Inr (), s1)"
    "\<not> os_bad s1" "os_room s1 = None" "os_flushes s1"
    using wr [OF s] by blast
  obtain s2 where s2: "wr_chunk raw_writer (tick_bytes t) s1 = Some (Inr (), s2)"
    "\<not> os_bad s2" "os_room s2 = None" "os_flushes s2"
    using wr [OF s1(2-4)] by blast
  have n: "(2 :: nat) = Suc 1" by simp
  let ?m = "m1\<lparr>mt_world := markRuleDraw ((mt_world m1)\<lparr>w_logs := []\<rparr>)\<rparr>"
  have loop: "headless_loop mo uniform_int raw_writer (\<lambda>_. False) 2 0 m (MaxTicks 1) s1 = Some (ExitDraw, ?m, s2, [(t, tick_bytes t)])"
    unfolding n headless_loop.simps
    using step m1(1) t(1) s2(1) encodeReplayTick_bytes [OF t(3), of "[]"] by (simp add: Let_def g)
  have e: "endMarker_fromWorld (markRuleDraw ((mt_world m1)\<lparr>w_logs := []\<rparr>)) = Some endMarker_ruleDraw"
    using m1(3) by (simp add: endMarker_fromWorld_def markRuleDraw_def gameOver_def)
  obtain s3 where s3: "wr_chunk raw_writer (end_bytes endMarker_ruleDraw) s2 = Some (Inr (), s3)"
    "\<not> os_bad s3" "os_room s3 = None" "os_flushes s3"
    using wr [OF s2(2-4)] by blast
  have f: "wr_finish raw_writer s3 = Some (Inr (), s3)" "wr_close raw_writer s3 = Some s3"
    using s3 by (simp_all add: raw_writer_def raw_finish_def os_flush_def)
  show ?thesis
    using loop h(1) e t(2,4) s1(1) s3(1) f encodeReplayHeader_bytes [OF h(2), of "[]"]
    by (simp add: headless_record_def Let_def encodeReplayEndMarker_bytes)
qed

lemma sample_run_facts:
  "\<exists>r t. headless_record script_ops first_choice raw_writer (\<lambda>_. False) 2 sample_match (MaxTicks 1) (ostream_new None True)
      = Some (Inr r) \<and> hr_ticks r = [t] \<and> length (fr_logs t) = 8 \<and> fr_tick t = 1"
proof -
  obtain m1 where m1: "match_step script_ops first_choice sample_match = Some m1"
    "w_tick (mt_world m1) = 1" "length (w_logs (mt_world m1)) = 8" "\<not> gameOver (mt_world m1)"
    using sample_turn by auto
  have w: "mt_world sample_match = sample_world" by (simp add: sample_match_def new_match_def)
  show ?thesis
    using one_round [OF m1(1) first.runtime_env_axioms sample_round_ok _ m1(2-4), of "ostream_new None True"] sample_start sample_bits w
    by (fastforce simp: ostream_new_def)
qed

text \<open>A run that is told to stop after its first turn.\<close>

lemma sample_stopped_run:
  "\<exists>e m' s' ticks. headless_loop script_ops first_choice raw_writer (\<lambda>_. True) 10001 0 sample_match
     createDynamicTurnLimitRuleDrawJudge (ostream_new None True) = Some (e, m', s', ticks)"
proof -
  obtain m1 where m1: "match_step script_ops first_choice sample_match = Some m1"
    "length (w_logs (mt_world m1)) = 8" "\<not> gameOver (mt_world m1)"
    using sample_turn by auto
  have w: "mt_world sample_match = sample_world" by (simp add: sample_match_def new_match_def)
  obtain t where t: "tick_fromWorldState (mt_world m1) = Some (t, (mt_world m1)\<lparr>w_logs := []\<rparr>)" "frame_ok t"
    using first.headless_round [OF sample_round_ok _ m1(1)] m1(2) sample_start w by auto
  have n: "(10001 :: nat) = Suc 10000" by simp
  show ?thesis
    unfolding n headless_loop.simps
    using m1(1) t(1) sample_start w encodeReplayTick_bytes [OF t(2), of "[]"]
    by (simp add: Let_def raw_writer_def writeBytesToStream_def os_write_def ostream_new_def split: sum.splits)
qed

subsection \<open>A match from files\<close>

definition sample_file :: "string \<Rightarrow> byte list option" where
  "sample_file path = (if path = ''sample.map'' then Some (map_bytes sample_map) else Some [0x7F, 0x45, 0x4C, 0x46])"

definition sample_platform :: platform where
  "sample_platform = \<lparr>pf_ndebug = False, pf_file = sample_file, pf_device = \<lparr>seed_s0 = 3, seed_s1 = 4\<rparr>,
     pf_global = \<lparr>seed_s0 = 1, seed_s1 = 2\<rparr>, pf_shuffle = (\<lambda>xs _. xs), pf_coord = (\<lambda>s. (0, s)), pf_uniform = first_choice\<rparr>"

definition sample_args :: cli_args where
  "sample_args = \<lparr>a_width = None, a_height = None, a_base_size = None, a_resources = None, a_unit_health = None,
     a_natural_energy_rate = None, a_resource_zone_energy_rate = None, a_attack_cooldown = None,
     a_capacity_lv1 = None, a_capacity_lv2 = None, a_vision_lv1 = None, a_vision_lv2 = None,
     a_capacity_upgrade_cost = None, a_vision_upgrade_cost = None, a_damage_upgrade_cost = None,
     a_manufact_cost = None, a_capture_turn_threshold = None, a_p1_base = None, a_p1_unit = None,
     a_p2_base = None, a_p2_unit = None, a_map = Some ''sample.map'', a_seed = None, a_replay_file = None,
     a_output_zstd = False, a_max_ticks = Some 1, a_dynamic_draw = False, a_worker_mode = False,
     a_step_interval_ms = None, a_ui_mode = None, a_play_replay = None\<rparr>"

definition sample_options :: program_options where
  "sample_options = projr (parseOptions (pf_device sample_platform) Headless (Some sample_args))"

lemma sample_options: "parseOptions (pf_device sample_platform) Headless (Some sample_args) = Inr sample_options"
proof -
  have "\<not> isl (parseOptions (pf_device sample_platform) Headless (Some sample_args))" by code_simp
  then show ?thesis by (cases "parseOptions (pf_device sample_platform) Headless (Some sample_args)") (auto simp: sample_options_def)
qed

lemma sample_bytes_loaded: "load_binary_from list_ops (map_bytes sample_map) = Some (Inr sample_map, [])"
  by code_simp

lemma sample_map_loaded: "tilemap_load False (istream_of (map_bytes sample_map)) = Some (Inr sample_map)"
proof -
  have "map_bytes sample_map = 0x43 # tl (map_bytes sample_map)" by (simp add: map_bytes_def tilemap_binary_magic_def)
  then show ?thesis using load_binary_file [of "0x43" False "tl (map_bytes sample_map)"] loadBinary_list [of False "map_bytes sample_map"]
    by (simp add: sample_bytes_loaded is_digit_def)
qed

lemma sample_map_legal: "map_legal sample_map"
  using loadBinary_sound [of False "map_bytes sample_map" sample_map] loadBinary_list [of False "map_bytes sample_map"]
  by (simp add: sample_bytes_loaded)

definition loaded_world :: world where
  "loaded_world = upd_player P2 (\<lambda>p. p\<lparr>p_base_elf := [0x7F, 0x45, 0x4C, 0x46], p_unit_elf := [0x7F, 0x45, 0x4C, 0x46]\<rparr>)
     (upd_player P1 (\<lambda>p. p\<lparr>p_base_elf := [0x7F, 0x45, 0x4C, 0x46], p_unit_elf := [0x7F, 0x45, 0x4C, 0x46]\<rparr>) sample_world)"

text \<open>A machine that accepts no program.\<close>

definition refusing_ops :: "script machine_ops" where
  "refusing_ops = script_ops\<lparr>mo_construct := (\<lambda>elf. Inl RV_INVALID_PROGRAM)\<rparr>"

lemma refusing_machine_ok: "machine_ok refusing_ops"
  by (simp add: machine_ok_def refusing_ops_def script_ops_def)

lemma loaded_turn: "map_option (\<lambda>m. (w_tick (mt_world m), length (w_logs (mt_world m)), gameOver (mt_world m)))
    (match_step refusing_ops first_choice (new_match loaded_world (\<lambda>_. \<lparr>seed_s0 = 0, seed_s1 = 0\<rparr>))) = Some (1, 8, False)"
  by code_simp

lemma sample_option_values:
  "po_map_file sample_options = ''sample.map''" "po_rules sample_options = default_rules"
  "po_p1_base sample_options = ''player1_base.elf''" "po_p1_unit sample_options = ''player1_unit.elf''"
  "po_p2_base sample_options = ''player2_base.elf''" "po_p2_unit sample_options = ''player2_unit.elf''"
  "po_replay_file sample_options = ''''" "\<not> po_output_zstd sample_options" "\<not> po_worker_mode sample_options"
  "createRuleDrawJudgeFromOptions sample_options = MaxTicks 1"
  by code_simp+

lemma sample_platform_ok: "platform_ok sample_platform"
  by (simp add: platform_ok_def sample_platform_def shuffle_ok_def coord_ok_def first_choice_ok)

lemma sample_created: "createWorldFromOptions sample_platform sample_options = Some (Inr loaded_world)"
  using sample_map_loaded new_world_dimensions [of first_choice sample_map default_rules] sample_world_new
  by (simp add: createWorldFromOptions_def sample_option_values loadTilemap_def sample_platform_def sample_file_def
      Let_def set_dimensions_def [symmetric] load_program_def loadBinary_def setPlayerProgram_def side_of_def loaded_world_def)

definition sample_env :: "store headless_env" where
  "sample_env = \<lparr>he_platform = sample_platform, he_zstd = store_ops, he_open = (\<lambda>_. None),
     he_stdout = ostream_new None True, he_stdout_tty = False, he_signal = (\<lambda>_. False),
     he_version = ''0.1'', he_commit = ''0'', he_zstd_version = 10506\<rparr>"

lemma loaded_size: "tm_width (w_map loaded_world) = 4" "tm_height (w_map loaded_world) = 4"
  by code_simp+

lemma loaded_record:
  obtains r t where "headless_record refusing_ops first_choice raw_writer (\<lambda>_. False) 2
      (new_match loaded_world (\<lambda>_. \<lparr>seed_s0 = 0, seed_s1 = 0\<rparr>)) (MaxTicks 1) (ostream_new None True) = Some (Inr r)"
    "hr_ticks r = [t]" "length (fr_logs t) = 8" "hr_exit r = ExitDraw"
proof -
  let ?m = "new_match loaded_world (\<lambda>_. \<lparr>seed_s0 = 0, seed_s1 = 0\<rparr>) :: script match"
  note L = createWorld_legal [where 'm = script, OF sample_platform_ok sample_created, of "\<lambda>_. \<lparr>seed_s0 = 0, seed_s1 = 0\<rparr>"]
  have R: "round_ok ?m" "map_bits_ok (w_map (mt_world ?m))" "\<not> gameOver (mt_world ?m)"
    using L loaded_size by (simp_all add: round_ok_def new_match_def map_size_def gameOver_def)
  obtain m1 where m1: "match_step refusing_ops first_choice ?m = Some m1"
    "w_tick (mt_world m1) = 1" "length (w_logs (mt_world m1)) = 8" "\<not> gameOver (mt_world m1)"
    using loaded_turn by auto
  have env: "runtime_env first_choice refusing_ops" by (rule runtime_envI [OF first_choice_ok refusing_machine_ok])
  show thesis
    using one_round [OF m1(1) env R(1,3) m1(2-4) R(2), of "ostream_new None True"] by (auto simp: ostream_new_def intro: that)
qed

lemma loaded_run:
  "\<exists>res h t e. runHeadlessLiveMode refusing_ops sample_env (\<lambda>_. \<lparr>seed_s0 = 0, seed_s1 = 0\<rparr>) 2 sample_options = Some res
     \<and> hl_records res = Some (h, [t], e) \<and> length (fr_logs t) = 8 \<and> hl_code res = 0"
proof (rule loaded_record, goal_cases)
  case r: (1 r t)
  then show ?case
    using sample_created
    by (simp add: runHeadlessLiveMode_def sample_env_def openReplayFile_def sample_option_values Let_def
        sample_platform_def headless_result_of_def id_def)
qed

text \<open>The same match in the interactive program, recorded to a file.\<close>

definition live_options :: program_options where
  "live_options = sample_options\<lparr>po_replay_file := ''match.replay''\<rparr>"

lemma live_option_values: "po_replay_file live_options = ''match.replay''" "\<not> po_output_zstd live_options"
  "createRuleDrawJudgeFromOptions live_options = MaxTicks 1"
  "createWorldFromOptions sample_platform live_options = Some (Inr loaded_world)"
proof -
  have same: "po_map_file live_options = po_map_file sample_options" "po_rules live_options = po_rules sample_options"
    "po_p1_base live_options = po_p1_base sample_options" "po_p1_unit live_options = po_p1_unit sample_options"
    "po_p2_base live_options = po_p2_base sample_options" "po_p2_unit live_options = po_p2_unit sample_options"
    by (simp_all add: live_options_def)
  show "po_replay_file live_options = ''match.replay''" "\<not> po_output_zstd live_options"
    by (simp_all add: live_options_def sample_option_values)
  show "createRuleDrawJudgeFromOptions live_options = MaxTicks 1"
    using sample_option_values(10) by (simp add: createRuleDrawJudgeFromOptions_def live_options_def split: if_split_asm)
  show "createWorldFromOptions sample_platform live_options = Some (Inr loaded_world)"
    using sample_created unfolding createWorldFromOptions_def same sample_option_values(1) by simp
qed

lemma loaded_live_run:
  "\<exists>res h t e. runLiveMode refusing_ops sample_platform store_ops (\<lambda>_. Some (ostream_new None True)) (\<lambda>_. \<lparr>seed_s0 = 0, seed_s1 = 0\<rparr>) 2
       plain_ui_ops live_options plain_ui_new = Some res
     \<and> lv_records res = Some (h, [t], e) \<and> length (fr_logs t) = 8"
proof (rule loaded_record, goal_cases)
  case r: (1 r t)
  have over: "\<not> gameOver (mt_world (new_match loaded_world (\<lambda>_. \<lparr>seed_s0 = 0, seed_s1 = 0\<rparr>)))"
    using createWorld_legal [where 'm = script, OF sample_platform_ok sample_created, of "\<lambda>_. \<lparr>seed_s0 = 0, seed_s1 = 0\<rparr>"]
    by (simp add: new_match_def gameOver_def)
  have open_ok: "openReplayFile (\<lambda>_. Some (ostream_new None True)) ''match.replay'' = Inr (Some (ostream_new None True))"
    by (simp add: openReplayFile_def)
  have u: "publish_source plain_ui_ops label u = u" for label u by (simp add: publish_source_def plain.no_source)
  show ?case
    using r plain.headless_record_live [OF r(1) over, of "ui_start plain_ui_ops plain_ui_new"] open_ok
    by (simp add: runLiveMode_def live_option_values Let_def sample_platform_def [THEN arg_cong [of _ _ pf_uniform]] u
        live_result_of_def)
qed

text \<open>A terminal to which a header and a tick have been published and which has not seen them yet.\<close>

definition shown_tui :: tui where
  "shown_tui = tui_publishTick sample_tick (tui_publishHeader sample_header (tui_start tui_new))"

lemma shown_tui_ok:
  "tui_reachable shown_tui" "tu_joinable shown_tui" "\<not> tu_exited shown_tui" "\<not> tu_faulted shown_tui" "\<not> tu_stop_requested shown_tui"
  "rg_phase (tu_progress shown_tui) \<noteq> PhaseHeader" "rg_current_tick (tu_progress shown_tui) = sample_tick"
  "fr_tick sample_tick \<noteq> currentTick (tu_playback shown_tui) \<and> length (fr_logs sample_tick) \<le> 120" "tui_inv shown_tui"
proof -
  note S = shown_tui_def tui_publishTick_def tui_publishHeader_def tui_start_def tui_new_def new_progress_def
  have 1: "tui_reachable (tui_publishHeader sample_header (tui_start tui_new))"
    by (rule tui_reachable.step [OF tui_reachable.step [OF tui_reachable.init tui_step.start] tui_step.header])
      (simp add: tui_start_def tui_new_def new_progress_def)
  show "tui_reachable shown_tui" unfolding shown_tui_def
    by (rule tui_reachable.step [OF 1 tui_step.tick]) (simp add: tui_publishHeader_def)
  show "tu_joinable shown_tui" "\<not> tu_exited shown_tui" "\<not> tu_faulted shown_tui" "\<not> tu_stop_requested shown_tui"
    "rg_phase (tu_progress shown_tui) \<noteq> PhaseHeader" "rg_current_tick (tu_progress shown_tui) = sample_tick"
    by (simp_all add: S)
  show "fr_tick sample_tick \<noteq> currentTick (tu_playback shown_tui) \<and> length (fr_logs sample_tick) \<le> 120" by code_simp
  have "drawable (rh_tilemap sample_header)" by code_simp
  then show "tui_inv shown_tui"
    by (simp add: tui_inv_def S camera_kept_def new_camera_def new_playback_state_def drawable_def default_header_def)
qed

subsection \<open>No options at all\<close>

definition no_args :: cli_args where
  "no_args = sample_args\<lparr>a_map := None, a_max_ticks := None\<rparr>"

definition unset_options :: program_options where
  "unset_options = projr (parseOptions \<lparr>seed_s0 = 3, seed_s1 = 4\<rparr> Headless (Some no_args))"

lemma no_options: "parseOptions \<lparr>seed_s0 = 3, seed_s1 = 4\<rparr> Headless (Some no_args) = Inr unset_options"
proof -
  have "\<not> isl (parseOptions \<lparr>seed_s0 = 3, seed_s1 = 4\<rparr> Headless (Some no_args))" by code_simp
  then show ?thesis
    by (cases "parseOptions \<lparr>seed_s0 = 3, seed_s1 = 4\<rparr> Headless (Some no_args)") (auto simp: unset_options_def)
qed

lemma unset_option_values:
  "po_width unset_options = 64" "po_height unset_options = 64" "po_map_file unset_options = []"
  "po_resources unset_options = 5" "po_p1_base unset_options = ''player1_base.elf''"
  "po_p1_unit unset_options = ''player1_unit.elf''" "po_p2_base unset_options = ''player2_base.elf''"
  "po_p2_unit unset_options = ''player2_unit.elf''"
  by code_simp+

lemma sample_elf: "path \<noteq> ''sample.map'' \<Longrightarrow> elf_file sample_platform path"
  by (simp add: elf_file_def sample_platform_def sample_file_def)

subsection \<open>A text map\<close>

definition sample_text :: string where
  "sample_text = concat (map (\<lambda>l. l @ [CHR 0x0A]) [''5 4'', ''BB$..'', ''B B . . #'', ''#..BB'', ''...BB''])"

definition sample_text_map :: tilemap where
  "sample_text_map = \<lparr>tm_width = 5, tm_height = 4, tm_base_size = 2,
     tm_tiles = (let e = new_tile; k = new_tile\<lparr>t_terrain := OBSTACLE\<rparr>; r = new_tile\<lparr>t_is_resource := True\<rparr>;
                     a = new_tile\<lparr>t_is_base := True, t_side := 1\<rparr>; b = new_tile\<lparr>t_is_base := True, t_side := 2\<rparr>
       in [a, a, r, e, e, a, a, e, e, k, k, e, e, b, b, e, e, e, b, b])\<rparr>"

lemma sample_text_loaded: "tilemap_loadText (istream_of (bytes_of_text sample_text)) = Some (Inr sample_text_map)"
proof -
  have "load_text_string sample_text = Some (Inr sample_text_map)" by code_simp
  then show ?thesis by (simp add: tilemap_loadText_def istream_of_def istream_good_def text_of_bytes)
qed

end
