(* ===== verification/Corelib_Memory.thy ===== *)
theory Corelib_Memory
  imports Prelude
begin

text \<open>
  The freestanding functions on memory, strings and characters of the C library for player programs
  (\<open>corelib/corelib.c\<close>). Memory is a list of bytes and a pointer an index into it; an access outside of it
  has no result, nor has a signed overflow. \<open>char\<close> is unsigned on this target.
\<close>

subsection \<open>Memory\<close>

definition load :: "byte list \<Rightarrow> nat \<Rightarrow> byte option" where
  "load mem p = (if p < length mem then Some (mem ! p) else None)"

definition put :: "byte list \<Rightarrow> nat \<Rightarrow> byte \<Rightarrow> byte list option" where
  "put mem p v = (if p < length mem then Some (mem[p := v]) else None)"

lemma put_length: "put mem p v = Some mem' \<Longrightarrow> length mem' = length mem"
  by (auto simp: put_def split: if_splits)

lemma load_bound: "load mem p = Some v \<Longrightarrow> p < length mem"
  by (simp add: load_def split: if_splits)

function strlen_from :: "byte list \<Rightarrow> nat \<Rightarrow> int \<Rightarrow> int option" where
  "strlen_from mem str len = (case load mem (str + nat len) of
       None \<Rightarrow> None
     | Some c \<Rightarrow> if len < 0 then None else if c = 0 then Some len else strlen_from mem str (len + 1))"
  by pat_completeness auto
termination
  by (relation "measure (\<lambda>(mem, str, len). length mem - nat len)") (auto simp: load_def split: if_splits)

declare strlen_from.simps [simp del]

definition c_strlen :: "byte list \<Rightarrow> nat \<Rightarrow> int option" where
  "c_strlen mem str = strlen_from mem str 0"

function c_strcpy :: "nat \<Rightarrow> nat \<Rightarrow> byte list \<Rightarrow> byte list option" where
  "c_strcpy dest src mem = (case load mem src of
       None \<Rightarrow> None
     | Some c \<Rightarrow> (case put mem dest c of
         None \<Rightarrow> None
       | Some mem' \<Rightarrow> if c = 0 then Some mem' else c_strcpy (dest + 1) (src + 1) mem'))"
  by pat_completeness auto
termination
  by (relation "measure (\<lambda>(dest, src, mem). length mem - src)") (auto simp: load_def dest!: put_length split: if_splits)

declare c_strcpy.simps [simp del]

text \<open>The loops over \<open>size_t i\<close> from \<open>i\<close> to \<open>i + k\<close>.\<close>

fun memcpy_loop :: "nat \<Rightarrow> nat \<Rightarrow> nat \<Rightarrow> nat \<Rightarrow> byte list \<Rightarrow> byte list option" where
  "memcpy_loop d s i 0 mem = Some mem"
| "memcpy_loop d s i (Suc k) mem = do {
     v \<leftarrow> load mem (s + i);
     mem \<leftarrow> put mem (d + i) v;
     memcpy_loop d s (i + 1) k mem
   }"

definition c_memcpy :: "nat \<Rightarrow> nat \<Rightarrow> nat \<Rightarrow> byte list \<Rightarrow> byte list option" where
  "c_memcpy dest src n mem = memcpy_loop dest src 0 n mem"

fun memset_loop :: "nat \<Rightarrow> byte \<Rightarrow> nat \<Rightarrow> nat \<Rightarrow> byte list \<Rightarrow> byte list option" where
  "memset_loop d val i 0 mem = Some mem"
| "memset_loop d val i (Suc k) mem = do { mem \<leftarrow> put mem (d + i) val; memset_loop d val (i + 1) k mem }"

definition c_memset :: "nat \<Rightarrow> u32 \<Rightarrow> nat \<Rightarrow> byte list \<Rightarrow> byte list option" where
  "c_memset dest value n mem = memset_loop dest (ucast value) 0 n mem"

fun memcmp_loop :: "byte list \<Rightarrow> nat \<Rightarrow> nat \<Rightarrow> nat \<Rightarrow> nat \<Rightarrow> int option" where
  "memcmp_loop mem b1 b2 i 0 = Some 0"
| "memcmp_loop mem b1 b2 i (Suc k) = do {
     x \<leftarrow> load mem (b1 + i);
     y \<leftarrow> load mem (b2 + i);
     if x \<noteq> y then Some (uint x - uint y) else memcmp_loop mem b1 b2 (i + 1) k
   }"

definition c_memcmp :: "byte list \<Rightarrow> nat \<Rightarrow> nat \<Rightarrow> nat \<Rightarrow> int option" where
  "c_memcmp mem buf1 buf2 n = memcmp_loop mem buf1 buf2 0 n"

function c_strcmp :: "byte list \<Rightarrow> nat \<Rightarrow> nat \<Rightarrow> int option" where
  "c_strcmp mem str1 str2 = (case load mem str1 of
       None \<Rightarrow> None
     | Some x \<Rightarrow> (case load mem str2 of
         None \<Rightarrow> None
       | Some y \<Rightarrow> if x \<noteq> 0 \<and> x = y then c_strcmp mem (str1 + 1) (str2 + 1) else Some (uint x - uint y)))"
  by pat_completeness auto
termination
  by (relation "measure (\<lambda>(mem, str1, str2). length mem - str1)") (auto simp: load_def split: if_splits)

declare c_strcmp.simps [simp del]

fun strncmp_loop :: "byte list \<Rightarrow> nat \<Rightarrow> nat \<Rightarrow> nat \<Rightarrow> nat \<Rightarrow> int option" where
  "strncmp_loop mem str1 str2 i 0 = Some 0"
| "strncmp_loop mem str1 str2 i (Suc k) = do {
     x \<leftarrow> load mem (str1 + i);
     y \<leftarrow> load mem (str2 + i);
     if x \<noteq> y \<or> x = 0 then Some (uint x - uint y) else strncmp_loop mem str1 str2 (i + 1) k
   }"

definition c_strncmp :: "byte list \<Rightarrow> nat \<Rightarrow> nat \<Rightarrow> nat \<Rightarrow> int option" where
  "c_strncmp mem str1 str2 n = strncmp_loop mem str1 str2 0 n"

subsection \<open>Characters and numbers\<close>

definition c_isalpha :: "int \<Rightarrow> bool" where
  "c_isalpha c \<longleftrightarrow> c \<ge> 65 \<and> c \<le> 90 \<or> c \<ge> 97 \<and> c \<le> 122"

definition c_isdigit :: "int \<Rightarrow> bool" where
  "c_isdigit c \<longleftrightarrow> c \<ge> 48 \<and> c \<le> 57"

definition c_isalnum :: "int \<Rightarrow> bool" where
  "c_isalnum c \<longleftrightarrow> c_isalpha c \<or> c_isdigit c"

definition c_isblank :: "int \<Rightarrow> bool" where
  "c_isblank c \<longleftrightarrow> c = 32 \<or> c = 9"

definition c_iscntrl :: "int \<Rightarrow> bool" where
  "c_iscntrl c \<longleftrightarrow> c \<ge> 0 \<and> c \<le> 31 \<or> c = 127"

definition c_isgraph :: "int \<Rightarrow> bool" where
  "c_isgraph c \<longleftrightarrow> c \<ge> 33 \<and> c \<le> 126"

definition c_islower :: "int \<Rightarrow> bool" where
  "c_islower c \<longleftrightarrow> c \<ge> 97 \<and> c \<le> 122"

definition c_isprint :: "int \<Rightarrow> bool" where
  "c_isprint c \<longleftrightarrow> c \<ge> 32 \<and> c \<le> 126"

definition c_ispunct :: "int \<Rightarrow> bool" where
  "c_ispunct c \<longleftrightarrow> c_isgraph c \<and> \<not> c_isalnum c"

definition c_isspace :: "int \<Rightarrow> bool" where
  "c_isspace c \<longleftrightarrow> c = 32 \<or> c = 9 \<or> c = 10 \<or> c = 13 \<or> c = 12 \<or> c = 11"

definition c_isupper :: "int \<Rightarrow> bool" where
  "c_isupper c \<longleftrightarrow> c \<ge> 65 \<and> c \<le> 90"

definition c_isxdigit :: "int \<Rightarrow> bool" where
  "c_isxdigit c \<longleftrightarrow> c_isdigit c \<or> c \<ge> 65 \<and> c \<le> 70 \<or> c \<ge> 97 \<and> c \<le> 102"

definition c_tolower :: "int \<Rightarrow> int" where
  "c_tolower c = (if c_isupper c then c + (97 - 65) else c)"

definition c_toupper :: "int \<Rightarrow> int" where
  "c_toupper c = (if c_islower c then c - (97 - 65) else c)"

text \<open>\<open>int\<close> and \<open>long int\<close> have 32 bits on this target.\<close>

definition negate_int :: "int \<Rightarrow> int option" where
  "negate_int x = (if x = - (2 ^ 31) then None else Some (- x))"

definition c_abs :: "int \<Rightarrow> int option" where
  "c_abs x = (if x < 0 then negate_int x else Some x)"

definition c_labs :: "int \<Rightarrow> int option" where
  "c_labs x = (if x < 0 then negate_int x else Some x)"

subsection \<open>Strings in memory\<close>

text \<open>\<open>str\<close> points to the characters of \<open>s\<close> and a terminator.\<close>

definition string_at :: "byte list \<Rightarrow> nat \<Rightarrow> byte list \<Rightarrow> bool" where
  "string_at mem str s \<longleftrightarrow> 0 \<notin> set s \<and> take (length s + 1) (drop str mem) = s @ [0]"

definition bytes_at :: "byte list \<Rightarrow> nat \<Rightarrow> byte list \<Rightarrow> bool" where
  "bytes_at mem p s \<longleftrightarrow> take (length s) (drop p mem) = s"

lemma bytes_at_Cons: "bytes_at mem p (c # s) \<longleftrightarrow> load mem p = Some c \<and> bytes_at mem (Suc p) s"
proof (cases "p < length mem")
  case True
  then have "drop p mem = mem ! p # drop (Suc p) mem" by (rule Cons_nth_drop_Suc [symmetric])
  then show ?thesis using True by (auto simp: bytes_at_def load_def)
qed (simp add: bytes_at_def load_def)

lemma bytes_at_Nil [simp]: "bytes_at mem p []"
  by (simp add: bytes_at_def)

lemma string_at_bytes: "string_at mem str s \<longleftrightarrow> 0 \<notin> set s \<and> bytes_at mem str (s @ [0])"
  by (simp add: string_at_def bytes_at_def)

lemma bytes_at_nth: "bytes_at mem p s \<Longrightarrow> i < length s \<Longrightarrow> load mem (p + i) = Some (s ! i)"
proof (induction s arbitrary: p i)
  case (Cons c s)
  then show ?case using Cons.IH [of "Suc p" "i - 1"] by (cases i) (auto simp: bytes_at_Cons)
qed simp

lemma bytes_at_iff: "bytes_at mem p s \<longleftrightarrow> (\<forall>i<length s. load mem (p + i) = Some (s ! i))"
proof
  show "\<forall>i<length s. load mem (p + i) = Some (s ! i) \<Longrightarrow> bytes_at mem p s"
  proof (induction s arbitrary: p)
    case (Cons c s)
    have "load mem (Suc p + i) = Some (s ! i)" if "i < length s" for i using Cons.prems that by (auto dest: spec [of _ "Suc i"])
    then show ?case using Cons.IH [of "Suc p"] Cons.prems by (auto simp: bytes_at_Cons dest: spec [of _ 0])
  qed simp
qed (use bytes_at_nth in blast)

lemma strlen_from_string:
  "0 \<notin> set s \<Longrightarrow> bytes_at mem (str + k) (s @ [0]) \<Longrightarrow> strlen_from mem str (int k) = Some (int k + int (length s))"
proof (induction s arbitrary: k)
  case Nil
  then show ?case by (subst strlen_from.simps) (simp add: bytes_at_Cons)
next
  case (Cons c s)
  then have "strlen_from mem str (int k + 1) = Some (int k + 1 + int (length s))"
    using Cons.IH [of "k + 1"] by (simp add: bytes_at_Cons add.commute)
  then show ?case using Cons.prems by (subst strlen_from.simps) (simp add: bytes_at_Cons)
qed

lemma c_strlen_string: "string_at mem str s \<Longrightarrow> c_strlen mem str = Some (int (length s))"
  using strlen_from_string [of s mem str 0] by (simp add: string_at_bytes c_strlen_def)

text \<open>Copying forward, without overlap or downwards in memory.\<close>

definition overwrite :: "byte list \<Rightarrow> nat \<Rightarrow> byte list \<Rightarrow> byte list" where
  "overwrite mem d s = take d mem @ s @ drop (d + length s) mem"

lemma overwrite_Nil [simp]: "overwrite mem d [] = mem"
  by (simp add: overwrite_def)

lemma overwrite_length: "d + length s \<le> length mem \<Longrightarrow> length (overwrite mem d s) = length mem"
  by (simp add: overwrite_def)

lemma overwrite_step: "d < length mem \<Longrightarrow> overwrite (mem[d := c]) (Suc d) s = overwrite mem d (c # s)"
  by (simp add: overwrite_def take_Suc_conv_app_nth list_update_append)

lemma load_overwrite:
  assumes "d + length s \<le> length mem"
  shows "load (overwrite mem d s) p = (if d \<le> p \<and> p < d + length s then Some (s ! (p - d)) else load mem p)"
  using assms by (auto simp: load_def overwrite_def nth_append)

lemma bytes_at_overwrite: "d + length s \<le> length mem \<Longrightarrow> bytes_at (overwrite mem d s) d s"
  by (simp add: bytes_at_iff load_overwrite)

lemma bytes_at_apart:
  "d + length s \<le> length mem \<Longrightarrow> p + length t \<le> d \<or> d + length s \<le> p \<Longrightarrow> bytes_at mem p t
     \<Longrightarrow> bytes_at (overwrite mem d s) p t"
  by (auto simp: bytes_at_iff load_overwrite)

lemma load_put: "put mem d c = Some mem' \<Longrightarrow> load mem' p = (if p = d then Some c else load mem p)"
  by (auto simp: put_def load_def split: if_splits)

lemma memcpy_loop_bytes:
  "bytes_at mem (src + i) s \<Longrightarrow> dest + i + length s \<le> length mem \<Longrightarrow> dest \<le> src \<or> src + i + length s \<le> dest + i
     \<Longrightarrow> memcpy_loop dest src i (length s) mem = Some (overwrite mem (dest + i) s)"
proof (induction s arbitrary: i mem)
  case (Cons c s)
  have p: "put mem (dest + i) c = Some (mem[dest + i := c])" using Cons.prems(2) by (simp add: put_def)
  have "bytes_at (mem[dest + i := c]) (src + Suc i) s"
    using Cons.prems(1,3) by (auto simp: bytes_at_Cons bytes_at_iff load_put [OF p])
  then have "memcpy_loop dest src (Suc i) (length s) (mem[dest + i := c])
      = Some (overwrite (mem[dest + i := c]) (Suc (dest + i)) s)"
    using Cons.IH [of "mem[dest + i := c]" "Suc i"] Cons.prems(2,3) by fastforce
  then show ?case using Cons.prems p by (simp add: bytes_at_Cons overwrite_step)
qed simp

lemma c_strcpy_bytes:
  "0 \<notin> set s \<Longrightarrow> bytes_at mem src (s @ [0]) \<Longrightarrow> dest + length s < length mem \<Longrightarrow> dest \<le> src \<or> src + length s < dest
     \<Longrightarrow> c_strcpy dest src mem = Some (overwrite mem dest (s @ [0]))"
proof (induction s arbitrary: dest src mem)
  case Nil
  then have "put mem dest 0 = Some (mem[dest := 0])" by (simp add: put_def)
  then show ?case using Nil overwrite_step [of dest mem 0 "[]"]
    by (subst c_strcpy.simps) (simp add: bytes_at_Cons)
next
  case (Cons c s)
  have p: "put mem dest c = Some (mem[dest := c])" using Cons.prems(3) by (simp add: put_def)
  have "bytes_at (mem[dest := c]) (Suc src) (s @ [0])"
    using Cons.prems(2,4) by (auto simp: bytes_at_Cons bytes_at_iff load_put [OF p])
  then have "c_strcpy (Suc dest) (Suc src) (mem[dest := c]) = Some (overwrite (mem[dest := c]) (Suc dest) (s @ [0]))"
    using Cons.IH [of "mem[dest := c]" "Suc src" "Suc dest"] Cons.prems by auto
  then show ?case using Cons.prems p by (subst c_strcpy.simps) (auto simp: bytes_at_Cons overwrite_step)
qed

text \<open>The order of two strings is that of their first difference, the terminator included.\<close>

lemma c_strcmp_prefix:
  "0 \<notin> set s \<Longrightarrow> bytes_at mem a (s @ [x]) \<Longrightarrow> bytes_at mem b (s @ [y]) \<Longrightarrow> x \<noteq> y \<or> x = 0
     \<Longrightarrow> c_strcmp mem a b = Some (uint x - uint y)"
proof (induction s arbitrary: a b)
  case Nil
  then show ?case by (subst c_strcmp.simps) (auto simp: bytes_at_Cons)
next
  case (Cons c s)
  then show ?case using Cons.IH [of "Suc a" "Suc b"] by (subst c_strcmp.simps) (auto simp: bytes_at_Cons)
qed

lemma c_strcmp_equal: "string_at mem a s \<Longrightarrow> string_at mem b s \<Longrightarrow> c_strcmp mem a b = Some 0"
  using c_strcmp_prefix [of s mem a 0 b 0] by (simp add: string_at_bytes)

lemma string_apart:
  assumes "string_at mem a s" "string_at mem b t" "s \<noteq> t"
  obtains p x y where "0 \<notin> set p" "bytes_at mem a (p @ [x])" "bytes_at mem b (p @ [y])" "x \<noteq> y"
proof -
  have "\<exists>p x y. 0 \<notin> set p \<and> bytes_at mem a (p @ [x]) \<and> bytes_at mem b (p @ [y]) \<and> x \<noteq> y"
    using assms
  proof (induction s arbitrary: t a b)
    case Nil
    then obtain y u where "t = y # u" by (cases t) auto
    then show ?case using Nil by (intro exI [of _ "[]"]) (auto simp: string_at_bytes bytes_at_Cons)
  next
    case (Cons c s)
    show ?case
    proof (cases t)
      case Nil
      then show ?thesis using Cons.prems by (intro exI [of _ "[]"]) (auto simp: string_at_bytes bytes_at_Cons)
    next
      case (Cons d u)
      show ?thesis
      proof (cases "c = d")
        case True
        then obtain p x y where "0 \<notin> set p" "bytes_at mem (Suc a) (p @ [x])" "bytes_at mem (Suc b) (p @ [y])" "x \<noteq> y"
          using Cons.IH [of "Suc a" "Suc b" u] Cons.prems Cons by (auto simp: string_at_bytes bytes_at_Cons)
        then show ?thesis using Cons.prems Cons True
          by (intro exI [of _ "c # p"] exI [of _ x] exI [of _ y]) (auto simp: string_at_bytes bytes_at_Cons)
      next
        case False
        then show ?thesis using Cons.prems Cons by (intro exI [of _ "[]"]) (auto simp: string_at_bytes bytes_at_Cons)
      qed
    qed
  qed
  then show thesis using that by blast
qed

lemma c_strcmp_zero_iff:
  assumes "string_at mem a s" "string_at mem b t"
  shows "\<exists>r. c_strcmp mem a b = Some r \<and> (r = 0 \<longleftrightarrow> s = t)"
proof (cases "s = t")
  case True
  then show ?thesis using c_strcmp_equal assms by simp
next
  case False
  obtain p x y where "0 \<notin> set p" "bytes_at mem a (p @ [x])" "bytes_at mem b (p @ [y])" "x \<noteq> y"
    using string_apart [OF assms False] .
  then show ?thesis using c_strcmp_prefix [of p mem a x b y] False word_uint_eq_iff [of x y] by simp
qed

end
