(* ===== verification/Corelib_Format.thy ===== *)
theory Corelib_Format
  imports Corelib_Memory Replay_Log Text_Stream
begin

text \<open>
  The formatter of the C library for player programs (\<open>vfmt_str\<close> and \<open>logf\<close> in \<open>corelib/corelib.c\<close>), and
  the specification it meets: it prints what its conversions stand for, cut to what fits in front of the
  terminator. A write outside of the buffer, a signed overflow or an argument of the wrong type has no result.
\<close>

subsection \<open>The formatter\<close>

text \<open>An argument of \<open>va_arg\<close>: a 32-bit value, or a pointer to the given characters and a terminator.\<close>

datatype fmt_arg = ArgWord u32 | ArgString "byte list"

definition dec_byte :: "nat \<Rightarrow> byte" where
  "dec_byte d = 48 + of_nat d"

definition hex_byte :: "nat \<Rightarrow> byte" where
  "hex_byte d = (if d < 10 then 48 + of_nat d else 97 + of_nat (d - 10))"

text \<open>The loop that counts digits: \<open>tmp\<close> is a signed \<open>int\<close>.\<close>

function digit_count :: "int \<Rightarrow> int \<Rightarrow> nat" where
  "digit_count base tmp = (if tmp > 0 \<and> base > 1 then Suc (digit_count base (tmp div base)) else 0)"
  by pat_completeness auto
termination
proof (relation "measure (\<lambda>(base, tmp). nat tmp)", goal_cases)
  case (2 base tmp)
  then have "tmp div base < tmp" by (intro int_div_less_self) simp_all
  then show ?case using 2 by simp
qed simp

declare digit_count.simps [simp del]

text \<open>The loop that writes them, from the last digit to the first; \<open>lim\<close> is \<open>end\<close>.\<close>

fun put_digits :: "nat \<Rightarrow> (nat \<Rightarrow> byte) \<Rightarrow> int \<Rightarrow> nat \<Rightarrow> nat \<Rightarrow> nat \<Rightarrow> byte list \<Rightarrow> byte list option" where
  "put_digits base digit lim p 0 val buf = Some buf"
| "put_digits base digit lim p (Suc i) val buf = do {
     buf \<leftarrow> (if int (p + i) < lim then put buf (p + i) (digit (val mod base)) else Some buf);
     put_digits base digit lim p i (val div base) buf
   }"

definition put_char :: "int \<Rightarrow> byte \<Rightarrow> nat \<times> byte list \<Rightarrow> (nat \<times> byte list) option" where
  "put_char lim c = (\<lambda>(p, buf).
     if int p < lim then do { buf \<leftarrow> put buf p c; Some (p + 1, buf) } else Some (p, buf))"

text \<open>\<open>*p++ = c\<close> where the code does not test \<open>p\<close>.\<close>

definition push_char :: "byte \<Rightarrow> nat \<times> byte list \<Rightarrow> (nat \<times> byte list) option" where
  "push_char c = (\<lambda>(p, buf). do { buf \<leftarrow> put buf p c; Some (p + 1, buf) })"

definition write_unsigned_decimal :: "int \<Rightarrow> u32 \<Rightarrow> nat \<times> byte list \<Rightarrow> (nat \<times> byte list) option" where
  "write_unsigned_decimal lim val = (\<lambda>(p, buf).
     if val = 0 then put_char lim 48 (p, buf)
     else do {
       let len = digit_count 10 (sint val);
       buf \<leftarrow> put_digits 10 dec_byte lim p len (unat val) buf;
       Some (p + len, buf)
     })"

definition write_hex :: "int \<Rightarrow> u32 \<Rightarrow> nat \<times> byte list \<Rightarrow> (nat \<times> byte list) option" where
  "write_hex lim val = (\<lambda>(p, buf).
     if val = 0 then put_char lim 48 (p, buf)
     else do {
       let len = digit_count 16 (sint val);
       buf \<leftarrow> put_digits 16 hex_byte lim p len (unat val) buf;
       Some (p + len, buf)
     })"

fun put_nibbles :: "int \<Rightarrow> nat \<Rightarrow> nat \<Rightarrow> u32 \<Rightarrow> byte list \<Rightarrow> byte list option" where
  "put_nibbles lim p 0 val buf = Some buf"
| "put_nibbles lim p (Suc i) val buf = do {
     buf \<leftarrow> (if int (p + i) < lim then put buf (p + i) (hex_byte (unat (drop_bit (i * 4) val AND 0xF))) else Some buf);
     put_nibbles lim p i val buf
   }"

definition write_pointer :: "int \<Rightarrow> u32 \<Rightarrow> nat \<times> byte list \<Rightarrow> (nat \<times> byte list) option" where
  "write_pointer lim val st = do {
     st \<leftarrow> put_char lim 48 st;
     (p, buf) \<leftarrow> put_char lim 120 st;
     buf \<leftarrow> put_nibbles lim p 8 val buf;
     Some (p + 8, buf)
   }"

fun copy_string :: "int \<Rightarrow> byte list \<Rightarrow> nat \<times> byte list \<Rightarrow> (nat \<times> byte list) option" where
  "copy_string lim [] st = Some st"
| "copy_string lim (c # cs) st =
     (if c \<noteq> 0 \<and> int (fst st) < lim then do { st \<leftarrow> push_char c st; copy_string lim cs st } else Some st)"

text \<open>
  One conversion: the argument list it leaves, what it has written, and whether the test of \<open>p\<close> against
  \<open>end\<close> after the chain of conversions is reached (the others go on with the loop).
\<close>

definition convert :: "int \<Rightarrow> byte \<Rightarrow> fmt_arg list \<Rightarrow> nat \<times> byte list \<Rightarrow> (bool \<times> fmt_arg list \<times> nat \<times> byte list) option" where
  "convert lim d args st =
     (if d = 37 then do { st \<leftarrow> push_char 37 st; Some (False, args, st) }
      else if d = 115 then
        (case args of ArgString val # args \<Rightarrow> do { st \<leftarrow> copy_string lim val st; Some (False, args, st) } | _ \<Rightarrow> None)
      else if d = 99 then
        (case args of ArgWord val # args \<Rightarrow> do { st \<leftarrow> push_char (ucast val) st; Some (False, args, st) } | _ \<Rightarrow> None)
      else if d = 100 then
        (case args of ArgWord val # args \<Rightarrow>
           if sint val < 0 then do {
             st \<leftarrow> push_char 45 st;
             val \<leftarrow> negate_int (sint val);
             st \<leftarrow> write_unsigned_decimal lim (word_of_int val) st;
             Some (True, args, st)
           }
           else do { st \<leftarrow> write_unsigned_decimal lim val st; Some (True, args, st) }
         | _ \<Rightarrow> None)
      else if d = 117 then
        (case args of ArgWord val # args \<Rightarrow> do { st \<leftarrow> write_unsigned_decimal lim val st; Some (True, args, st) } | _ \<Rightarrow> None)
      else if d = 120 then
        (case args of ArgWord val # args \<Rightarrow> do { st \<leftarrow> write_hex lim val st; Some (val \<noteq> 0, args, st) } | _ \<Rightarrow> None)
      else if d = 112 then
        (case args of ArgWord val # args \<Rightarrow> do { st \<leftarrow> write_pointer lim val st; Some (True, args, st) } | _ \<Rightarrow> None)
      else do {
        st \<leftarrow> put_char lim 37 st;
        st \<leftarrow> put_char lim d st;
        Some (True, args, st)
      })"

text \<open>The loop over the format string, which ends at the first zero or at the end of the list.\<close>

fun vfmt_loop :: "int \<Rightarrow> byte list \<Rightarrow> fmt_arg list \<Rightarrow> nat \<times> byte list \<Rightarrow> (nat \<times> byte list) option" where
  "vfmt_loop lim [] args st = Some st"
| "vfmt_loop lim [c] args st =
     (if c = 0 \<or> \<not> int (fst st) < lim then Some st else push_char c st)"
| "vfmt_loop lim (c # d # f) args st =
     (if c = 0 \<or> \<not> int (fst st) < lim then Some st
      else if c \<noteq> 37 then do { st \<leftarrow> push_char c st; vfmt_loop lim (d # f) args st }
      else if d = 0 then push_char 37 st
      else do {
        (tested, args, p, buf) \<leftarrow> convert lim d args st;
        if tested \<and> \<not> int p < lim then Some (nat lim, buf) else vfmt_loop lim f args (p, buf)
      })"

definition vfmt_str :: "byte list \<Rightarrow> nat \<Rightarrow> byte list \<Rightarrow> fmt_arg list \<Rightarrow> (byte list \<times> nat) option" where
  "vfmt_str buffer buffer_size fmt args = do {
     (p, buf) \<leftarrow> vfmt_loop (int buffer_size - 1) fmt args (0, take buffer_size buffer);
     buf \<leftarrow> put buf p 0;
     Some (buf @ drop buffer_size buffer, p)
   }"

text \<open>\<open>fmt_str\<close> only collects its arguments.\<close>

definition fmt_str :: "byte list \<Rightarrow> nat \<Rightarrow> byte list \<Rightarrow> fmt_arg list \<Rightarrow> (byte list \<times> nat) option" where
  "fmt_str buffer buffer_size fmt args = vfmt_str buffer buffer_size fmt args"

text \<open>\<open>logf\<close>: the bytes that are handed to \<open>log\<close>, or \<open>None\<close> where there are none.\<close>

definition logf_message :: "byte list \<Rightarrow> byte list \<Rightarrow> fmt_arg list \<Rightarrow> byte list option option" where
  "logf_message buffer fmt args = do {
     (buffer, len) \<leftarrow> vfmt_str buffer 513 fmt args;
     let len = (if len > 512 then 512 else len);
     Some (if len > 0 then Some (take len buffer) else None)
   }"

subsection \<open>What is printed\<close>

fun hex_string :: "nat \<Rightarrow> byte list" where
  "hex_string n = (if n < 16 then [hex_byte n] else hex_string (n div 16) @ [hex_byte (n mod 16)])"

declare hex_string.simps [simp del]

text \<open>
  What the code prints for a conversion where it prints what is documented. There is no value for
  \<open>%u\<close> and \<open>%x\<close> of values from \<open>2 ^ 31\<close> on and for \<open>%p\<close>, nor where the code has no defined behaviour:
  \<open>%d\<close> of \<open>INT_MIN\<close>, or an argument of another type. The documentation itself is stated below (\<open>fmt_output\<close>).
\<close>

definition printable :: "byte \<Rightarrow> fmt_arg list \<Rightarrow> (byte list \<times> fmt_arg list) option" where
  "printable d args =
     (if d = 37 then Some ([37], args)
      else if d = 115 then (case args of ArgString val # args \<Rightarrow> Some (takeWhile (\<lambda>c. c \<noteq> 0) val, args) | _ \<Rightarrow> None)
      else if d = 99 then (case args of ArgWord val # args \<Rightarrow> Some ([ucast val], args) | _ \<Rightarrow> None)
      else if d = 100 then
        (case args of ArgWord val # args \<Rightarrow>
           if sint val = - (2 ^ 31) then None else Some (toBytes (dec_int (sint val)), args) | _ \<Rightarrow> None)
      else if d = 117 then
        (case args of ArgWord val # args \<Rightarrow>
           if unat val < 2 ^ 31 then Some (toBytes (dec_digits (unat val)), args) else None | _ \<Rightarrow> None)
      else if d = 120 then
        (case args of ArgWord val # args \<Rightarrow>
           if unat val < 2 ^ 31 then Some (hex_string (unat val), args) else None | _ \<Rightarrow> None)
      else if d = 112 then None
      else Some ([37, d], args))"

fun printable_output :: "byte list \<Rightarrow> fmt_arg list \<Rightarrow> byte list option" where
  "printable_output [] args = Some []"
| "printable_output [c] args = (if c = 0 then Some [] else Some [c])"
| "printable_output (c # d # f) args =
     (if c = 0 then Some []
      else if c \<noteq> 37 then map_option ((#) c) (printable_output (d # f) args)
      else if d = 0 then Some [37]
      else do {
        (s, args) \<leftarrow> printable d args;
        rest \<leftarrow> printable_output f args;
        Some (s @ rest)
      })"

subsection \<open>Writing behind the cursor\<close>

text \<open>
  A step prints \<open>s\<close>: what fits is written, and the cursor moves by the whole length, or at least to the end.
\<close>

definition prints :: "nat \<Rightarrow> byte list \<Rightarrow> (nat \<times> byte list \<Rightarrow> (nat \<times> byte list) option) \<Rightarrow> bool" where
  "prints n s step \<longleftrightarrow> (\<forall>p buf. p \<le> n \<longrightarrow> n < length buf
     \<longrightarrow> (\<exists>q. step (p, buf) = Some (q, overwrite buf p (take (n - p) s)) \<and> min q n = min (p + length s) n))"

lemma overwrite_append:
  "p + length a \<le> length buf \<Longrightarrow> overwrite (overwrite buf p a) (p + length a) b = overwrite buf p (a @ b)"
  by (simp add: overwrite_def add.assoc add.commute [of "length b"])

lemma put_overwrite: "p < length buf \<Longrightarrow> put buf p c = Some (overwrite buf p [c])"
  using overwrite_step [of p buf c "[]"] by (simp add: put_def)

text \<open>The last \<open>k\<close> digits of a number.\<close>

fun digits_of :: "nat \<Rightarrow> (nat \<Rightarrow> byte) \<Rightarrow> nat \<Rightarrow> nat \<Rightarrow> byte list" where
  "digits_of base digit 0 v = []"
| "digits_of base digit (Suc k) v = digits_of base digit k (v div base) @ [digit (v mod base)]"

lemma digits_of_length [simp]: "length (digits_of base digit k v) = k"
  by (induction k arbitrary: v) simp_all

lemma overwrite_last:
  assumes "p + length s < length buf"
  shows "overwrite (buf[p + length s := d]) p s = overwrite buf p (s @ [d])"
proof -
  have "drop (p + length s) (buf[p + length s := d]) = d # drop (Suc (p + length s)) buf"
    using assms by (simp add: Cons_nth_drop_Suc [symmetric])
  then show ?thesis by (simp add: overwrite_def)
qed

lemma put_digits_prints:
  "p \<le> n \<Longrightarrow> n < length buf
     \<Longrightarrow> put_digits base digit (int n) p k val buf = Some (overwrite buf p (take (n - p) (digits_of base digit k val)))"
proof (induction k arbitrary: val buf)
  case (Suc k)
  let ?s = "digits_of base digit k (val div base)" and ?d = "digit (val mod base)"
  show ?case
  proof (cases "p + k < n")
    case True
    then have "put buf (p + k) ?d = Some (buf[p + k := ?d])" using Suc.prems by (simp add: put_def)
    moreover have "overwrite (buf[p + k := ?d]) p ?s = overwrite buf p (?s @ [?d])"
      using overwrite_last [of p ?s buf ?d] True Suc.prems by simp
    ultimately show ?thesis using Suc.IH [of "buf[p + k := ?d]" "val div base"] Suc.prems True by simp
  next
    case False
    then show ?thesis using Suc.IH [of buf "val div base"] Suc.prems by simp
  qed
qed simp

lemma toBytes_simps [simp]: "toBytes [] = []" "toBytes (c # s) = of_char c # toBytes s" "toBytes (s @ t) = toBytes s @ toBytes t"
  by (simp_all add: toBytes_def)

lemma dec_char_byte: "d < 10 \<Longrightarrow> of_char (dec_char d) = dec_byte d"
proof -
  assume "d < 10"
  then have "d = 0 \<or> d = 1 \<or> d = 2 \<or> d = 3 \<or> d = 4 \<or> d = 5 \<or> d = 6 \<or> d = 7 \<or> d = 8 \<or> d = 9" by arith
  then show ?thesis by (elim disjE) (simp_all add: dec_char_def dec_byte_def)
qed

lemma dec_digits_count: "0 < n \<Longrightarrow> digits_of 10 dec_byte (digit_count 10 (int n)) n = toBytes (dec_digits n)"
proof (induction n rule: dec_digits.induct)
  case (1 n)
  have step: "digit_count 10 (int n) = Suc (digit_count 10 (int (n div 10)))"
    using 1(2) by (subst digit_count.simps) (simp add: zdiv_int)
  show ?case
  proof (cases "n < 10")
    case True
    then have "digit_count 10 (int (n div 10)) = 0" by (subst digit_count.simps) simp
    then show ?thesis using True by (simp add: step dec_digits.simps [of n] dec_char_byte)
  next
    case False
    then show ?thesis using 1(1) by (simp add: step dec_digits.simps [of n] dec_char_byte)
  qed
qed

lemma hex_digits_count: "0 < n \<Longrightarrow> digits_of 16 hex_byte (digit_count 16 (int n)) n = hex_string n"
proof (induction n rule: hex_string.induct)
  case (1 n)
  have step: "digit_count 16 (int n) = Suc (digit_count 16 (int (n div 16)))"
    using 1(2) by (subst digit_count.simps) (simp add: zdiv_int)
  show ?case
  proof (cases "n < 16")
    case True
    then have "digit_count 16 (int (n div 16)) = 0" by (subst digit_count.simps) simp
    then show ?thesis using True by (simp add: step hex_string.simps [of n])
  next
    case False
    then show ?thesis using 1(1) by (simp add: step hex_string.simps [of n])
  qed
qed

subsection \<open>Every conversion prints what it stands for\<close>

lemma push_char_ok: "p < length buf \<Longrightarrow> push_char c (p, buf) = Some (p + 1, overwrite buf p [c])"
  by (simp add: push_char_def put_overwrite)

lemma put_char_ok:
  "n < length buf \<Longrightarrow> p \<le> n \<Longrightarrow> put_char (int n) c (p, buf) = Some (min (p + 1) n, overwrite buf p (take (n - p) [c]))"
  by (cases "p < n") (simp_all add: put_char_def put_overwrite Suc_leI min_absorb1)

lemma put_char_prints: "prints n [c] (put_char (int n) c)"
  by (simp add: prints_def put_char_ok)

lemma sint_small: "unat v < 2 ^ 31 \<Longrightarrow> sint v = int (unat v)" for v :: u32
proof -
  assume "unat v < 2 ^ 31"
  then have "unat v < 2147483648" by simp
  then have "int (unat v) < 2147483648" by linarith
  then have u: "uint v < 2 ^ 31" "0 \<le> uint v" by simp_all
  have "signed_take_bit 31 (uint v) = uint v" by (rule signed_take_bit_int_eq_self) (use u in \<open>simp_all, linarith\<close>)
  then show ?thesis by (simp add: sint_uint)
qed

lemma digits_print:
  fixes v :: u32
  assumes "unat v < 2 ^ 31" "v \<noteq> 0" "digits_of base digit (digit_count (int base) (int (unat v))) (unat v) = s"
  shows "prints n s (\<lambda>(p, buf). do {
     let len = digit_count (int base) (sint v);
     buf \<leftarrow> put_digits base digit (int n) p len (unat v) buf;
     Some (p + len, buf) })"
proof -
  have "length s = digit_count (int base) (sint v)" using assms(3) sint_small [OF assms(1)] by auto
  moreover have "digits_of base digit (digit_count (int base) (sint v)) (unat v) = s"
    using assms(3) sint_small [OF assms(1)] by simp
  ultimately show ?thesis by (simp add: prints_def put_digits_prints Let_def)
qed

lemma write_unsigned_decimal_prints:
  assumes "unat v < 2 ^ 31"
  shows "prints n (toBytes (dec_digits (unat v))) (write_unsigned_decimal (int n) v)"
proof (cases "v = 0")
  case True
  have "toBytes (dec_digits 0) = [48]" by (simp add: dec_digits.simps dec_char_def)
  then show ?thesis using True put_char_prints [of n 48]
    by (simp add: write_unsigned_decimal_def prints_def)
next
  case False
  then have "digits_of 10 dec_byte (digit_count (int 10) (int (unat v))) (unat v) = toBytes (dec_digits (unat v))"
    using dec_digits_count [of "unat v"] by (simp add: unat_gt_0)
  from digits_print [OF assms False this] False show ?thesis by (simp add: write_unsigned_decimal_def)
qed

lemma write_hex_prints:
  assumes "unat v < 2 ^ 31"
  shows "prints n (hex_string (unat v)) (write_hex (int n) v)"
proof (cases "v = 0")
  case True
  have "hex_string 0 = [48]" by (simp add: hex_string.simps hex_byte_def)
  then show ?thesis using True put_char_prints [of n 48] by (simp add: write_hex_def prints_def)
next
  case False
  then have "digits_of 16 hex_byte (digit_count (int 16) (int (unat v))) (unat v) = hex_string (unat v)"
    using hex_digits_count [of "unat v"] by (simp add: unat_gt_0)
  from digits_print [OF assms False this] False show ?thesis by (simp add: write_hex_def)
qed

lemma copy_string_ok:
  "p \<le> n \<Longrightarrow> n < length buf \<Longrightarrow> copy_string (int n) s (p, buf)
     = Some (min (p + length (takeWhile (\<lambda>c. c \<noteq> 0) s)) n, overwrite buf p (take (n - p) (takeWhile (\<lambda>c. c \<noteq> 0) s)))"
proof (induction s arbitrary: p buf)
  case (Cons c s)
  show ?case
  proof (cases "c \<noteq> 0 \<and> p < n")
    case True
    then have "copy_string (int n) s (Suc p, overwrite buf p [c]) = Some
       (min (Suc p + length (takeWhile (\<lambda>c. c \<noteq> 0) s)) n,
        overwrite (overwrite buf p [c]) (Suc p) (take (n - Suc p) (takeWhile (\<lambda>c. c \<noteq> 0) s)))"
      using Cons.IH [of "Suc p" "overwrite buf p [c]"] Cons.prems by (simp add: overwrite_length)
    then show ?thesis
      using True Cons.prems overwrite_append [of p "[c]" buf "take (n - Suc p) (takeWhile (\<lambda>c. c \<noteq> 0) s)"]
      by (simp add: push_char_ok take_Cons' )
  qed (use Cons.prems in auto)
qed simp

text \<open>The steps that are followed by the test of the cursor, and those that are not.\<close>

definition printed :: "nat \<Rightarrow> nat \<Rightarrow> byte list \<Rightarrow> byte list \<Rightarrow> bool \<times> fmt_arg list \<times> nat \<times> byte list \<Rightarrow> fmt_arg list \<Rightarrow> bool" where
  "printed n p buf s r args \<longleftrightarrow> (case r of (tested, args', q, buf') \<Rightarrow> args' = args \<and> buf' = overwrite buf p (take (n - p) s)
     \<and> min q n = min (p + length s) n \<and> (\<not> tested \<longrightarrow> q \<le> n))"

lemma negative_decimal:
  fixes v :: u32
  assumes "sint v < 0" "sint v \<noteq> - (2 ^ 31)"
  shows "negate_int (sint v) = Some (- sint v)" "unat (word_of_int (- sint v) :: u32) = nat (- sint v)"
    "nat (- sint v) < 2 ^ 31"
proof -
  have "- (2 ^ 31) \<le> sint v" using sint_range_size [of v] by (simp add: word_size)
  then have b: "- sint v < 2147483648" using assms(2) by simp
  show "negate_int (sint v) = Some (- sint v)" using assms by (simp add: negate_int_def)
  have n: "nat (- sint v) < 2147483648" using b by linarith
  then show "nat (- sint v) < 2 ^ 31" by simp
  have "word_of_int (- sint v) = (word_of_nat (nat (- sint v)) :: u32)" using assms(1) by simp
  then show "unat (word_of_int (- sint v) :: u32) = nat (- sint v)"
    using n by (simp only:) (rule word_of_nat_unat_le, simp)
qed

lemma overwrite_first:
  "p < n \<Longrightarrow> n < length buf
     \<Longrightarrow> overwrite (overwrite buf p [c]) (Suc p) (take (n - Suc p) s) = overwrite buf p (take (n - p) (c # s))"
  using overwrite_append [of p "[c]" buf "take (n - Suc p) s"] by (simp add: take_Cons')

lemma printed_step:
  assumes "prints n s step" "p \<le> n" "n < length buf"
  shows "\<exists>q buf'. step (p, buf) = Some (q, buf') \<and> printed n p buf s (True, args, q, buf') args"
  using assms by (fastforce simp: prints_def printed_def)

lemma printed_after:
  assumes "prints n s step" "p < n" "n < length buf"
  shows "\<exists>q buf'. step (Suc p, overwrite buf p [c]) = Some (q, buf') \<and> printed n p buf (c # s) (True, args, q, buf') args"
proof -
  have "Suc p \<le> n" "n < length (overwrite buf p [c])" using assms by (simp_all add: overwrite_length)
  then obtain q where "step (Suc p, overwrite buf p [c]) = Some (q, overwrite (overwrite buf p [c]) (Suc p) (take (n - Suc p) s))"
    "min q n = min (Suc p + length s) n"
    using assms(1) [unfolded prints_def, rule_format, of "Suc p" "overwrite buf p [c]"] by blast
  then show ?thesis using overwrite_first [OF assms(2,3)] by (auto simp: printed_def)
qed

lemma convert_prints:
  assumes c: "printable d args = Some (s, args')" and p: "p < n" "n < length buf"
  shows "\<exists>r. convert (int n) d args (p, buf) = Some r \<and> printed n p buf s r args'"
proof -
  have push: "\<And>c. push_char c (p, buf) = Some (Suc p, overwrite buf p [c])" using p by (simp add: push_char_ok)
  have one: "\<And>c a. printed n p buf [c] (False, a, Suc p, overwrite buf p [c]) a"
    using p by (auto simp: printed_def take_Cons')
  consider "d = 37" | "d = 115" | "d = 99" | "d = 100" | "d = 117" | "d = 120" | "d = 112"
    | "d \<notin> {37, 115, 99, 100, 117, 120, 112}" by blast
  then show ?thesis
  proof cases
    case 1
    then show ?thesis using c push one [of 37 args] by (auto simp: printable_def convert_def)
  next
    case 2
    then obtain v where v: "args = ArgString v # args'" "s = takeWhile (\<lambda>c. c \<noteq> 0) v"
      using c by (auto simp: printable_def split: list.splits fmt_arg.splits)
    then show ?thesis using 2 copy_string_ok [of p n buf v] p by (simp add: convert_def printed_def)
  next
    case 3
    then obtain v where "args = ArgWord v # args'" "s = [ucast v]"
      using c by (auto simp: printable_def split: list.splits fmt_arg.splits)
    then show ?thesis using 3 push one by (simp add: convert_def)
  next
    case 4
    then obtain v where v: "args = ArgWord v # args'" "sint v \<noteq> - (2 ^ 31)" "s = toBytes (dec_int (sint v))"
      using c by (auto simp: printable_def split: list.splits fmt_arg.splits if_split_asm)
    show ?thesis
    proof (cases "sint v < 0")
      case True
      note N = negative_decimal [OF True v(2)]
      have s: "s = 45 # toBytes (dec_digits (nat (- sint v)))" using True v(3) by (simp add: dec_int_def)
      have "prints n (toBytes (dec_digits (nat (- sint v)))) (write_unsigned_decimal (int n) (word_of_int (- sint v)))"
        using write_unsigned_decimal_prints [of "word_of_int (- sint v)" n] N by simp
      from printed_after [OF this p, of 45 args'] show ?thesis
        using 4 v(1) True push N(1) by (auto simp: convert_def s)
    next
      case False
      have u: "unat v < 2 ^ 31"
      proof -
        have "sint v < 2147483648" using sint_range_size [of v] by (simp add: word_size)
        then have "unat (word_of_nat (nat (sint v)) :: u32) = nat (sint v)" by (intro word_of_nat_unat_le) simp
        then have "unat v = nat (sint v)" using False by simp
        then show ?thesis using \<open>sint v < 2147483648\<close> by simp
      qed
      have "s = toBytes (dec_digits (unat v))" using False v(3) sint_small [OF u] by (simp add: dec_int_def)
      then show ?thesis
        using printed_step [OF write_unsigned_decimal_prints [OF u] _ p(2), of p args'] 4 v(1) False p(1)
        by (auto simp: convert_def)
    qed
  next
    case 5
    then obtain v where v: "args = ArgWord v # args'" "unat v < 2 ^ 31" "s = toBytes (dec_digits (unat v))"
      using c by (auto simp: printable_def split: list.splits fmt_arg.splits if_split_asm)
    then show ?thesis using printed_step [OF write_unsigned_decimal_prints [OF v(2)] _ p(2), of p args'] 5 p(1)
      by (auto simp: convert_def)
  next
    case 6
    then obtain v where v: "args = ArgWord v # args'" "unat v < 2 ^ 31" "s = hex_string (unat v)"
      using c by (auto simp: printable_def split: list.splits fmt_arg.splits if_split_asm)
    then obtain q buf' where q: "write_hex (int n) v (p, buf) = Some (q, buf')" "printed n p buf s (True, args', q, buf') args'"
      using printed_step [OF write_hex_prints [OF v(2)] _ p(2), of p args'] p(1) by auto
    have "q \<le> n" if "v = 0"
      using q(1) that p put_char_ok [OF p(2), of p 48] by (simp add: write_hex_def)
    then show ?thesis using 6 v(1) q by (auto simp: convert_def printed_def)
  next
    case 7
    then show ?thesis using c by (simp add: printable_def)
  next
    case 8
    then have s: "s = [37, d]" "args' = args" using c by (auto simp: printable_def)
    have "put_char (int n) 37 (p, buf) = Some (Suc p, overwrite buf p [37])"
      using put_char_ok [OF p(2), of p 37] p(1) by (simp add: min_absorb1 take_Cons')
    then show ?thesis using printed_after [OF put_char_prints p, of d 37 args] 8 s by (auto simp: convert_def)
  qed
qed

text \<open>The loop, from any cursor in front of the end.\<close>

lemma vfmt_loop_prints:
  "printable_output f args = Some out \<Longrightarrow> p \<le> n \<Longrightarrow> n < length buf
     \<Longrightarrow> vfmt_loop (int n) f args (p, buf) = Some (min (p + length out) n, overwrite buf p (take (n - p) out))"
proof (induction f args arbitrary: out p buf rule: printable_output.induct)
  case (2 c args)
  then show ?case by (auto simp: push_char_ok min_absorb1 take_Cons')
next
  case (3 c d f args)
  show ?case
  proof (cases "c = 0 \<or> p = n")
    case True
    then show ?thesis using 3(3-) by auto
  next
    case run: False
    then have p: "p < n" using 3(4) by simp
    show ?thesis
    proof (cases "c = 37")
      case False
      then obtain o1 where o1: "printable_output (d # f) args = Some o1" "out = c # o1" using 3(3) run by auto
      then have "vfmt_loop (int n) (d # f) args (Suc p, overwrite buf p [c])
          = Some (min (Suc p + length o1) n, overwrite (overwrite buf p [c]) (Suc p) (take (n - Suc p) o1))"
        using 3(1) [of o1 "Suc p" "overwrite buf p [c]"] run False p 3(5) by (simp add: overwrite_length)
      then show ?thesis using False run p 3(5) o1(2) overwrite_first [OF p 3(5)] by (simp add: push_char_ok)
    next
      case percent: True
      show ?thesis
      proof (cases "d = 0")
        case True
        then show ?thesis using 3(3,5) run percent p by (auto simp: push_char_ok min_absorb1 take_Cons')
      next
        case False
        obtain s args' o1 where o1: "printable d args = Some (s, args')" "printable_output f args' = Some o1" "out = s @ o1"
          using 3(3) run percent False by (auto simp: bind_eq_Some_conv)
        obtain r where r: "convert (int n) d args (p, buf) = Some r" "printed n p buf s r args'"
          using convert_prints [OF o1(1) p 3(5)] by blast
        obtain tested q where q: "r = (tested, args', q, overwrite buf p (take (n - p) s))"
          "min q n = min (p + length s) n" "\<not> tested \<longrightarrow> q \<le> n"
          using r(2) by (cases r) (auto simp: printed_def)
        show ?thesis
        proof (cases "q < n")
          case True
          then have ps: "q = p + length s" "p + length s < n" using q(2) by (auto simp: min_def split: if_splits)
          then have "vfmt_loop (int n) f args' (q, overwrite buf p s)
              = Some (min (q + length o1) n, overwrite (overwrite buf p s) q (take (n - q) o1))"
            using 3(2) [OF _ _ _ o1(1) refl o1(2), of q "overwrite buf p s"] run percent False 3(5)
            by (simp add: overwrite_length)
          then show ?thesis
            using run percent False r(1) q(1) ps o1(3) p 3(5) overwrite_append [of p s buf "take (n - q) o1"]
            by (simp add: diff_diff_left)
        next
          case full: False
          then have ps: "n \<le> p + length s" using q(2) by (auto simp: min_def split: if_splits)
          then have out: "min (p + length out) n = n" "take (n - p) out = take (n - p) s" using o1(3) by simp_all
          show ?thesis
          proof (cases tested)
            case True
            then show ?thesis using run percent False r(1) q(1) out full p by simp
          next
            case no: False
            then have "q = n" using q(3) full by simp
            moreover have "vfmt_loop (int n) f args' (n, b) = Some (n, b)" for b by (cases "(int n, f, args', (n, b))" rule: vfmt_loop.cases) simp_all
            ultimately show ?thesis using run percent False r(1) q(1) out no p by simp
          qed
        qed
      qed
    qed
  qed
qed simp

subsection \<open>The whole buffer\<close>

lemma vfmt_str_prints:
  assumes "printable_output fmt args = Some out" "0 < sz" "sz \<le> length buffer"
  shows "vfmt_str buffer sz fmt args = Some (overwrite buffer 0 (take (sz - 1) out @ [0]), min (length out) (sz - 1))"
proof -
  let ?n = "sz - 1" and ?b = "take sz buffer" and ?s = "take (sz - 1) out"
  have n: "int sz - 1 = int ?n" "?n < length ?b" using assms(2,3) by simp_all
  have l: "vfmt_loop (int ?n) fmt args (0, ?b) = Some (min (length out) ?n, overwrite ?b 0 ?s)"
    using vfmt_loop_prints [OF assms(1), of 0 ?n ?b] n(2) by simp
  have len: "length ?s = min (length out) ?n" by simp
  have "length ?s < length (overwrite ?b 0 ?s)" using n(2) by (subst overwrite_length) (auto simp: len min_def)
  then have "put (overwrite ?b 0 ?s) (min (length out) ?n) 0 = Some (overwrite ?b 0 (?s @ [0]))"
    using put_overwrite [of "length ?s" "overwrite ?b 0 ?s" 0] overwrite_append [of 0 ?s ?b "[0]"] n(2)
    by (auto simp: len min_le_iff_disj)
  moreover have "overwrite ?b 0 (?s @ [0]) @ drop sz buffer = overwrite buffer 0 (?s @ [0])"
  proof -
    have "length (?s @ [0]) \<le> sz" using assms(2) by simp
    then have "drop (length (?s @ [0])) (take sz buffer) @ drop sz buffer = drop (length (?s @ [0])) buffer"
      by (metis append_take_drop_id drop_append drop_drop diff_is_0_eq drop_0 length_take min.absorb2 assms(3))
    then show ?thesis by (simp add: overwrite_def)
  qed
  ultimately show ?thesis using l by (simp add: vfmt_str_def n(1))
qed

text \<open>A message is at most 512 bytes long, the limit of the system call.\<close>

lemma logf_message_prints:
  assumes "printable_output fmt args = Some out" "length stack = 513"
  shows "logf_message stack fmt args = Some (if out = [] then None else Some (take 512 out))"
proof -
  have "take (min (length out) 512) (overwrite stack 0 (take 512 out @ [0])) = take 512 out"
    by (cases "length out \<le> 512") (simp_all add: overwrite_def)
  then show ?thesis using vfmt_str_prints [OF assms(1), of 513 stack] assms(2) by (auto simp: logf_message_def Let_def)
qed

text \<open>What \<open>corelib/autotest/fmt_str_behavior.c\<close> expects of \<open>fmt_str\<close>, all but its largest number, run by the model.\<close>

definition fmt_test :: "nat \<Rightarrow> string \<Rightarrow> fmt_arg list \<Rightarrow> (byte list \<times> nat) option" where
  "fmt_test n fmt args = map_option (\<lambda>(buffer, len). (takeWhile (\<lambda>c. c \<noteq> 0) buffer, len))
     (fmt_str (replicate n 255) n (toBytes fmt) args)"

lemma fmt_str_behavior:
  "fmt_test 32 ''hello'' [] = Some (toBytes ''hello'', 5)"
  "fmt_test 32 ''d=%d u=%u x=%x c=%c s=%s %%'' [ArgWord (- 42), ArgWord 42, ArgWord 0x1AF, ArgWord 90, ArgString (toBytes ''ok'')]
     = Some (toBytes ''d=-42 u=42 x=1af c=Z s=ok %'', 27)"
  "fmt_test 32 ''p=%p'' [ArgWord 0] = Some (toBytes ''p=0x00000000'', 12)"
  "fmt_test 32 ''unsupported:%q:end'' [ArgWord 123] = Some (toBytes ''unsupported:%q:end'', 18)"
  "fmt_test 32 ''tail%'' [] = Some (toBytes ''tail%'', 5)"
  "fmt_test 8 ''abcdefghi'' [] = Some (toBytes ''abcdefg'', 7)"
  "fmt_test 1 ''abc'' [] = Some ([], 0)"
  by code_simp+

subsection \<open>What is documented\<close>

text \<open>
  The conversions as \<open>corelib.h\<close> and \<open>docs/corelib.md\<close> list them, for every value; an unknown one stands for
  itself. Only an argument that is missing or has another type leaves no value.
\<close>

definition conversion :: "byte \<Rightarrow> fmt_arg list \<Rightarrow> (byte list \<times> fmt_arg list) option" where
  "conversion d args =
     (if d = 37 then Some ([37], args)
      else if d = 115 then (case args of ArgString val # args \<Rightarrow> Some (takeWhile (\<lambda>c. c \<noteq> 0) val, args) | _ \<Rightarrow> None)
      else if d = 99 then (case args of ArgWord val # args \<Rightarrow> Some ([ucast val], args) | _ \<Rightarrow> None)
      else if d = 100 then (case args of ArgWord val # args \<Rightarrow> Some (toBytes (dec_int (sint val)), args) | _ \<Rightarrow> None)
      else if d = 117 then (case args of ArgWord val # args \<Rightarrow> Some (toBytes (dec_digits (unat val)), args) | _ \<Rightarrow> None)
      else if d = 120 then (case args of ArgWord val # args \<Rightarrow> Some (hex_string (unat val), args) | _ \<Rightarrow> None)
      else if d = 112 then
        (case args of ArgWord val # args \<Rightarrow>
           Some (toBytes ''0x'' @ map (\<lambda>i. hex_byte (unat val div 16 ^ i mod 16)) (rev [0..<8]), args) | _ \<Rightarrow> None)
      else Some ([37, d], args))"

fun fmt_output :: "byte list \<Rightarrow> fmt_arg list \<Rightarrow> byte list option" where
  "fmt_output [] args = Some []"
| "fmt_output [c] args = (if c = 0 then Some [] else Some [c])"
| "fmt_output (c # d # f) args =
     (if c = 0 then Some []
      else if c \<noteq> 37 then map_option ((#) c) (fmt_output (d # f) args)
      else if d = 0 then Some [37]
      else do {
        (s, args) \<leftarrow> conversion d args;
        rest \<leftarrow> fmt_output f args;
        Some (s @ rest)
      })"

text \<open>
  The conversions that the code does not print as documented: \<open>%d\<close> of \<open>INT_MIN\<close>, \<open>%u\<close> and \<open>%x\<close> from \<open>2 ^ 31\<close> on,
  every \<open>%p\<close>; and the formats that meet none of them.
\<close>

definition misprinted :: "byte \<Rightarrow> fmt_arg list \<Rightarrow> bool" where
  "misprinted d args = (case args of
     ArgWord val # _ \<Rightarrow> d = 100 \<and> sint val = - (2 ^ 31) \<or> (d = 117 \<or> d = 120) \<and> 2 ^ 31 \<le> unat val \<or> d = 112
   | _ \<Rightarrow> False)"

fun well_printed :: "byte list \<Rightarrow> fmt_arg list \<Rightarrow> bool" where
  "well_printed [] args \<longleftrightarrow> True"
| "well_printed [c] args \<longleftrightarrow> True"
| "well_printed (c # d # f) args \<longleftrightarrow>
     (if c = 0 then True
      else if c \<noteq> 37 then well_printed (d # f) args
      else if d = 0 then True
      else \<not> misprinted d args
        \<and> (case conversion d args of None \<Rightarrow> True | Some r \<Rightarrow> well_printed f (snd r)))"

lemma printable_conversion: "conversion d args = Some r \<Longrightarrow> \<not> misprinted d args \<Longrightarrow> printable d args = Some r"
  by (auto simp: conversion_def printable_def misprinted_def split: list.splits fmt_arg.splits if_split_asm)

lemma printable_documented:
  "fmt_output f args = Some out \<Longrightarrow> well_printed f args \<Longrightarrow> printable_output f args = Some out"
proof (induction f args arbitrary: out rule: fmt_output.induct)
  case (3 c d f args)
  show ?case
  proof (cases "c = 0 \<or> c \<noteq> 37 \<or> d = 0")
    case True
    then show ?thesis using 3 by (auto split: if_splits)
  next
    case False
    then obtain s args' rest where c: "conversion d args = Some (s, args')" "fmt_output f args' = Some rest" "out = s @ rest"
      using 3(3) by (auto simp: bind_eq_Some_conv)
    then have "well_printed f args'" "\<not> misprinted d args" using 3(4) False by auto
    then show ?thesis using False c 3(2) [OF _ _ _ c(1) refl c(2)] printable_conversion [OF c(1)] by simp
  qed
qed (auto split: if_splits)

subsection \<open>Where the formatter does not do what is documented\<close>

text \<open>A value with the top bit is negative in the loop that counts digits: no digit is printed.\<close>

lemma large_digit_count: "2 ^ 31 \<le> unat v \<Longrightarrow> digit_count base (sint v) = 0" for v :: u32
proof -
  assume v: "2 ^ 31 \<le> unat v"
  have "\<not> 0 \<le> sint v"
  proof
    assume nn: "0 \<le> sint v"
    have "sint v < 2147483648" using sint_range_size [of v] by (simp add: word_size)
    then have "unat (word_of_nat (nat (sint v)) :: u32) = nat (sint v)" by (intro word_of_nat_unat_le) simp
    then show False using nn v \<open>sint v < 2147483648\<close> by simp
  qed
  then show ?thesis by (subst digit_count.simps) simp
qed

lemma large_unsigned_prints_nothing:
  assumes "2 ^ 31 \<le> unat v" "1 < sz" "sz \<le> length buffer" "d = 117 \<or> d = 120"
  shows "vfmt_str buffer sz [37, d] [ArgWord v] = Some (overwrite buffer 0 [0], 0)"
proof -
  have v: "v \<noteq> 0" using assms(1) by auto
  have "write_unsigned_decimal lim v st = Some st" "write_hex lim v st = Some st" for lim st
    using large_digit_count [OF assms(1)] v by (cases st; simp add: write_unsigned_decimal_def write_hex_def)+
  then have "vfmt_loop (int sz - 1) [37, d] [ArgWord v] (0, take sz buffer) = Some (0, take sz buffer)"
    using assms(2,4) v by (auto simp: convert_def)
  moreover have "put (take sz buffer) 0 0 = Some (overwrite (take sz buffer) 0 [0])"
    using assms(2,3) by (intro put_overwrite) simp
  moreover have "overwrite (take sz buffer) 0 [0] @ drop sz buffer = overwrite buffer 0 [0]"
    using assms(2,3) by (cases buffer; cases sz) (simp_all add: overwrite_def)
  ultimately show ?thesis by (simp add: vfmt_str_def)
qed

text \<open>\<open>%p\<close> of \<open>0x12345678\<close> is printed as \<open>0x87654321\<close>.\<close>

lemma pointer_digits_reversed:
  "vfmt_str (replicate 12 1) 12 [37, 112] [ArgWord 0x12345678]
     = Some (toBytes ''0x87654321'' @ [0, 1], 10)"
  by code_simp

text \<open>A buffer of no bytes is written to.\<close>

lemma empty_buffer_is_written: "vfmt_str buffer 0 fmt args = None"
  by (cases "(int 0 - 1, fmt, args, (0 :: nat, [] :: byte list))" rule: vfmt_loop.cases)
    (auto simp: vfmt_str_def put_def)

end
