(* ===== verification/Corelib_Calls.thy ===== *)
theory Corelib_Calls
  imports Corelib_Format Runtime_Safe
begin

text \<open>
  The system calls as a player program makes them: the wrappers of \<open>corelib/corelib.c\<close> and the structures and
  constants of \<open>corelib/corelib.h\<close>, together with the handlers of the runtime. A wrapper is the registers it
  loads; what it returns is the register that the handler writes.
\<close>

unbundle bit_operations_syntax

subsection \<open>The wrappers\<close>

text \<open>The number in \<open>a7\<close> and the values in \<open>a0\<close> and \<open>a1\<close>.\<close>

record ecall_request =
  rq_call :: nat
  rq_args :: "u32 list"

definition request :: "nat \<Rightarrow> u32 list \<Rightarrow> ecall_request" where
  "request n args = \<lparr>rq_call = n, rq_args = args\<rparr>"

definition lib_abort :: ecall_request where "lib_abort = request 0x00 []"
definition lib_log :: "u32 \<Rightarrow> u32 \<Rightarrow> ecall_request" where "lib_log str n = request 0x01 [str, n]"
definition lib_meta :: "u32 \<Rightarrow> ecall_request" where "lib_meta info = request 0x0F [info]"
definition lib_turn :: ecall_request where "lib_turn = request 0x10 []"
definition lib_dev_info :: ecall_request where "lib_dev_info = request 0x11 []"
definition lib_read_sensor :: "u32 \<Rightarrow> ecall_request" where "lib_read_sensor data = request 0x12 [data]"
definition lib_recv_msg :: "u32 \<Rightarrow> u32 \<Rightarrow> ecall_request" where "lib_recv_msg data max_len = request 0x13 [data, max_len]"
definition lib_send_msg :: "u32 \<Rightarrow> u32 \<Rightarrow> ecall_request" where "lib_send_msg data len = request 0x14 [data, len]"
definition lib_pos :: ecall_request where "lib_pos = request 0x15 []"
definition lib_manufact :: "u32 \<Rightarrow> ecall_request" where "lib_manufact i = request 0x20 [i]"
definition lib_repair :: "u32 \<Rightarrow> ecall_request" where "lib_repair i = request 0x21 [i]"
definition lib_upgrade :: "u32 \<Rightarrow> u32 \<Rightarrow> ecall_request" where "lib_upgrade i type = request 0x22 [i, type]"
definition lib_fire :: "u32 \<Rightarrow> u32 \<Rightarrow> ecall_request" where "lib_fire direction pw = request 0x30 [direction, pw]"
definition lib_move :: "u32 \<Rightarrow> ecall_request" where "lib_move direction = request 0x31 [direction]"
definition lib_deposit :: "u32 \<Rightarrow> ecall_request" where "lib_deposit amount = request 0x32 [amount]"
definition lib_withdraw :: "u32 \<Rightarrow> ecall_request" where "lib_withdraw amount = request 0x33 [amount]"
definition lib_malloc :: "u32 \<Rightarrow> ecall_request" where "lib_malloc n = request 0x40 [n]"
definition lib_calloc :: "u32 \<Rightarrow> u32 \<Rightarrow> ecall_request" where "lib_calloc nmemb n = request 0x41 [nmemb, n]"
definition lib_realloc :: "u32 \<Rightarrow> u32 \<Rightarrow> ecall_request" where "lib_realloc ptr n = request 0x42 [ptr, n]"
definition lib_free :: "u32 \<Rightarrow> ecall_request" where "lib_free ptr = request 0x43 [ptr]"
definition lib_meminfo :: "u32 \<Rightarrow> ecall_request" where "lib_meminfo info = request 0x44 [info]"
definition lib_rand :: ecall_request where "lib_rand = request 0x4F []"

text \<open>\<open>log_str\<close>, and \<open>logf\<close> with its message at the address \<open>buffer\<close>: \<open>Inl\<close> of a result without a call.\<close>

definition lib_log_str :: "byte list \<Rightarrow> nat \<Rightarrow> ecall_request option" where
  "lib_log_str mem str = map_option (\<lambda>n. lib_log (word_of_nat str) (word_of_int n)) (c_strlen mem str)"

definition lib_logf :: "u32 \<Rightarrow> byte list \<Rightarrow> byte list \<Rightarrow> fmt_arg list \<Rightarrow> (int + ecall_request) option" where
  "lib_logf buffer stack fmt args = map_option (\<lambda>m. case m of
       None \<Rightarrow> Inl 0
     | Some message \<Rightarrow> Inr (lib_log buffer (word_of_nat (length message)))) (logf_message stack fmt args)"

text \<open>The macro \<open>assert\<close>, in both builds: the calls that it makes. Its text is a string constant at \<open>str\<close>.\<close>

definition assert_text :: "string \<Rightarrow> string \<Rightarrow> nat \<Rightarrow> string" where
  "assert_text expr source line = ''Assertion failed: '' @ expr @ '' in '' @ source @ '':'' @ dec_digits line @ [CHR 0x0A]"

definition lib_assert :: "bool \<Rightarrow> bool \<Rightarrow> u32 \<Rightarrow> string \<Rightarrow> string \<Rightarrow> nat \<Rightarrow> ecall_request list" where
  "lib_assert ndebug holds str expr source line =
     (if ndebug \<or> holds then []
      else [lib_log str (word_of_nat (length (assert_text expr source line))), lib_abort])"

text \<open>A machine that has loaded the registers, and the call.\<close>

definition issued :: "'m machine_ops \<Rightarrow> ecall_request \<Rightarrow> 'm sim \<Rightarrow> bool" where
  "issued mo rq s \<longleftrightarrow> (\<forall>k<length (rq_args rq). sysarg mo s k = rq_args rq ! k)"

definition perform :: "'m machine_ops \<Rightarrow> uniform \<Rightarrow> ecall_request \<Rightarrow> 'm sim \<Rightarrow> 'm sim option" where
  "perform mo uniform_int rq s = dispatch mo uniform_int (rq_call rq) s"

lemmas lib_defs = request_def lib_abort_def lib_log_def lib_meta_def lib_turn_def lib_dev_info_def lib_read_sensor_def
  lib_recv_msg_def lib_send_msg_def lib_pos_def lib_manufact_def lib_repair_def lib_upgrade_def lib_fire_def lib_move_def
  lib_deposit_def lib_withdraw_def lib_malloc_def lib_calloc_def lib_realloc_def lib_free_def lib_meminfo_def lib_rand_def

text \<open>Every wrapper reaches the handler of its name.\<close>

lemma perform_handlers:
  "perform mo uniform_int lib_abort s = ecall_abort mo s"
  "perform mo uniform_int (lib_log str n) s = ecall_log mo s"
  "perform mo uniform_int (lib_meta info) s = ecall_meta mo s"
  "perform mo uniform_int lib_turn s = ecall_turn mo s"
  "perform mo uniform_int lib_dev_info s = ecall_dev_info mo s"
  "perform mo uniform_int (lib_read_sensor data) s = ecall_read_sensor mo s"
  "perform mo uniform_int (lib_recv_msg data len) s = ecall_recv_msg mo s"
  "perform mo uniform_int (lib_send_msg data len) s = ecall_send_msg mo s"
  "perform mo uniform_int lib_pos s = ecall_pos mo s"
  "perform mo uniform_int (lib_manufact i) s = ecall_manufact mo uniform_int s"
  "perform mo uniform_int (lib_repair i) s = ecall_repair mo s"
  "perform mo uniform_int (lib_upgrade i type) s = ecall_upgrade mo s"
  "perform mo uniform_int (lib_fire direction pw) s = ecall_fire mo s"
  "perform mo uniform_int (lib_move direction) s = ecall_move mo s"
  "perform mo uniform_int (lib_deposit amount) s = ecall_deposit mo s"
  "perform mo uniform_int (lib_withdraw amount) s = ecall_withdraw mo s"
  "perform mo uniform_int lib_rand s = ecall_rand mo s"
  by (simp_all add: perform_def lib_defs dispatch_def)

lemma perform_heap:
  "perform mo uniform_int (lib_malloc n) s = Some (s\<lparr>s_machine := mo_heap_call mo 0x40 (s_machine s)\<rparr>)"
  "perform mo uniform_int (lib_calloc m n) s = Some (s\<lparr>s_machine := mo_heap_call mo 0x41 (s_machine s)\<rparr>)"
  "perform mo uniform_int (lib_realloc p n) s = Some (s\<lparr>s_machine := mo_heap_call mo 0x42 (s_machine s)\<rparr>)"
  "perform mo uniform_int (lib_free p) s = Some (s\<lparr>s_machine := mo_heap_call mo 0x43 (s_machine s)\<rparr>)"
  "perform mo uniform_int (lib_meminfo p) s = Some (s\<lparr>s_machine := mo_heap_call mo 0x44 (s_machine s)\<rparr>)"
  by (simp_all add: perform_def lib_defs dispatch_def)

subsection \<open>The structures\<close>

record device_info =
  di_id :: u8
  di_upgrades :: u8
  di_health :: u8
  di_energy :: u16

text \<open>The unions of \<open>dev_info\<close> and \<open>pos\<close>: bit-fields from the lowest bit on, bytes from the lowest on.\<close>

definition device_info_of :: "u32 \<Rightarrow> device_info" where
  "device_info_of r = \<lparr>di_id = ucast (r AND 31), di_upgrades = ucast (drop_bit 5 r AND 7),
     di_health = ucast (drop_bit 8 r), di_energy = ucast (drop_bit 16 r)\<rparr>"

record pos_info =
  pi_x :: u8
  pi_y :: u8
  pi_reserved :: "byte list"

definition pos_info_of :: "u32 \<Rightarrow> pos_info" where
  "pos_info_of r = \<lparr>pi_x = ucast r, pi_y = ucast (drop_bit 8 r),
     pi_reserved = [ucast (drop_bit 16 r), ucast (drop_bit 24 r)]\<rparr>"

record sensor_data =
  sd_visible :: bool
  sd_terrain :: u8
  sd_is_base :: bool
  sd_is_resource :: bool
  sd_has_unit :: bool
  sd_has_bullet :: bool
  sd_alliance_unit :: bool

definition sensor_data_of :: "byte \<Rightarrow> sensor_data" where
  "sensor_data_of b = \<lparr>sd_visible = bit b 0, sd_terrain = drop_bit 1 b AND 3, sd_is_base = bit b 3, sd_is_resource = bit b 4,
     sd_has_unit = bit b 5, sd_has_bullet = bit b 6, sd_alliance_unit = bit b 7\<rparr>"

record game_info_struct =
  gi_map_width :: u8
  gi_map_height :: u8
  gi_base_size :: u8
  gi_unit_health :: u8
  gi_natural_energy_rate :: u8
  gi_resource_zone_energy_rate :: u8
  gi_attack_cooldown :: u8
  gi_capture_turn_threshold :: u8
  gi_vision_lv1 :: u8
  gi_vision_lv2 :: u8
  gi_capacity_lv1 :: u16
  gi_capacity_lv2 :: u16
  gi_capacity_upgrade_cost :: u16
  gi_vision_upgrade_cost :: u16
  gi_damage_upgrade_cost :: u16
  gi_manufact_cost :: u16
  gi_reserved :: "byte list"

definition le16_at :: "byte list \<Rightarrow> nat \<Rightarrow> u16" where
  "le16_at bs i = ucast (bs ! i) OR push_bit 8 (ucast (bs ! (i + 1)))"

text \<open>The 32 bytes of the structure; the 16-bit members start at offset 10.\<close>

definition game_info_of :: "byte list \<Rightarrow> game_info_struct option" where
  "game_info_of bs = (if length bs \<noteq> 32 then None else Some
     \<lparr>gi_map_width = bs ! 0, gi_map_height = bs ! 1, gi_base_size = bs ! 2, gi_unit_health = bs ! 3,
      gi_natural_energy_rate = bs ! 4, gi_resource_zone_energy_rate = bs ! 5, gi_attack_cooldown = bs ! 6,
      gi_capture_turn_threshold = bs ! 7, gi_vision_lv1 = bs ! 8, gi_vision_lv2 = bs ! 9,
      gi_capacity_lv1 = le16_at bs 10, gi_capacity_lv2 = le16_at bs 12, gi_capacity_upgrade_cost = le16_at bs 14,
      gi_vision_upgrade_cost = le16_at bs 16, gi_damage_upgrade_cost = le16_at bs 18, gi_manufact_cost = le16_at bs 20,
      gi_reserved = drop 22 bs\<rparr>)"

subsection \<open>The constants\<close>

definition DIR_UP :: int where "DIR_UP = 0"
definition DIR_RIGHT :: int where "DIR_RIGHT = 1"
definition DIR_DOWN :: int where "DIR_DOWN = 2"
definition DIR_LEFT :: int where "DIR_LEFT = 3"

definition DIR_X_OFFSET_OF :: "int \<Rightarrow> int" where
  "DIR_X_OFFSET_OF dir = (if dir = DIR_RIGHT then 1 else if dir = DIR_LEFT then -1 else 0)"

definition DIR_Y_OFFSET_OF :: "int \<Rightarrow> int" where
  "DIR_Y_OFFSET_OF dir = (if dir = DIR_DOWN then 1 else if dir = DIR_UP then -1 else 0)"

definition UPGRADE_CAPACITY :: u8 where "UPGRADE_CAPACITY = 0"
definition UPGRADE_VISION :: u8 where "UPGRADE_VISION = 1"
definition UPGRADE_DAMAGE :: u8 where "UPGRADE_DAMAGE = 2"

definition HAS_UPGRADE :: "u8 \<Rightarrow> u8 \<Rightarrow> bool" where
  "HAS_UPGRADE upgrades upg \<longleftrightarrow> upgrades AND push_bit (unat upg) 1 \<noteq> 0"

definition TERRAIN_EMPTY :: u8 where "TERRAIN_EMPTY = 0"
definition TERRAIN_WATER :: u8 where "TERRAIN_WATER = 1"
definition TERRAIN_OBSTACLE :: u8 where "TERRAIN_OBSTACLE = 3"

fun EC_of :: "action_result \<Rightarrow> int" where
  "EC_of OK = 0"
| "EC_of INVALID_POINTER = -1"
| "EC_of INVALID_UNIT = -2"
| "EC_of INSUFFICIENT_ENERGY = -3"
| "EC_of ON_COOLDOWN = -4"
| "EC_of CAPACITY_FULL = -5"
| "EC_of INVALID_ID = -6"
| "EC_of OUT_OF_RANGE = -7"
| "EC_of UNSUPPORTED_RUNTIME = -8"

subsection \<open>Both sides agree\<close>

lemma constants_agree:
  "direction_of DIR_UP = Some Up" "direction_of DIR_RIGHT = Some Right"
  "direction_of DIR_DOWN = Some Down" "direction_of DIR_LEFT = Some Left"
  "TERRAIN_WATER = WATER" "TERRAIN_OBSTACLE = OBSTACLE" "EC_of r = action_result_code r"
  by (simp_all add: DIR_UP_def DIR_RIGHT_def DIR_DOWN_def DIR_LEFT_def TERRAIN_WATER_def TERRAIN_OBSTACLE_def
      WATER_def OBSTACLE_def) (cases r; simp)

lemma offsets_agree:
  "direction_of d = Some dir \<Longrightarrow> getDirectionOffset dir = (DIR_X_OFFSET_OF d, DIR_Y_OFFSET_OF d)"
  by (auto simp: DIR_X_OFFSET_OF_def DIR_Y_OFFSET_OF_def DIR_UP_def DIR_RIGHT_def DIR_DOWN_def DIR_LEFT_def split: if_split_asm)

lemma and_masks: "x AND 31 = take_bit 5 x" "x AND 7 = take_bit 3 x" "x AND 3 = take_bit 2 x" for x :: "('n::len) word"
  by (simp_all add: take_bit_eq_mask mask_eq_exp_minus_1)

lemma device_info_of_word:
  assumes "i < 32" "up < 8"
  shows "device_info_of (dev_info_word i up health energy) = \<lparr>di_id = i, di_upgrades = up, di_health = health, di_energy = energy\<rparr>"
proof -
  have i: "take_bit 5 i = i" and up: "take_bit 3 up = up"
    using assms by (simp_all add: word_unat_eq_iff unsigned_take_bit_eq take_bit_nat_eq_self word_less_nat_alt)
  have low: "\<not> bit i n" if "5 \<le> n" for n by (subst i [symmetric]) (use that in \<open>simp add: bit_simps\<close>)
  have low': "\<not> bit up n" if "3 \<le> n" for n by (subst up [symmetric]) (use that in \<open>simp add: bit_simps\<close>)
  note D = device_info_of_def dev_info_word_def and_masks i up
  let ?r = "dev_info_word i up health energy"
  have "ucast (?r AND 31) = i"
    unfolding D by (rule bit_word_eqI) (subst (2) i [symmetric], auto simp: bit_simps dest: bit_imp_le_length)
  moreover have "ucast (drop_bit 5 ?r AND 7) = up"
    unfolding D by (rule bit_word_eqI) (subst (2) up [symmetric], auto simp: bit_simps low dest: bit_imp_le_length)
  moreover have "ucast (drop_bit 8 ?r) = health" unfolding D by (rule bit_word_eqI) (auto simp: bit_simps low low' dest: bit_imp_le_length)
  moreover have "ucast (drop_bit 16 ?r) = energy" unfolding D by (rule bit_word_eqI) (auto simp: bit_simps low low' dest: bit_imp_le_length)
  ultimately show ?thesis by (simp add: device_info_of_def)
qed

lemma pos_info_of_word:
  "pos_info_of (ucast x OR push_bit 8 (ucast y)) = \<lparr>pi_x = x, pi_y = y, pi_reserved = [0, 0]\<rparr>"
proof -
  let ?r = "ucast x OR push_bit 8 (ucast y) :: u32"
  have "(ucast ?r :: u8) = x" by (rule bit_word_eqI) (auto simp: bit_simps dest: bit_imp_le_length)
  moreover have "(ucast (drop_bit 8 ?r) :: u8) = y" by (rule bit_word_eqI) (auto simp: bit_simps dest: bit_imp_le_length)
  moreover have "(ucast (drop_bit 16 ?r) :: u8) = 0" by (rule bit_word_eqI) (auto simp: bit_simps dest: bit_imp_le_length)
  moreover have "(ucast (drop_bit 24 ?r) :: u8) = 0" by (rule bit_word_eqI) (auto simp: bit_simps dest: bit_imp_le_length)
  ultimately show ?thesis by (simp add: pos_info_of_def)
qed

lemma le16_at_bytes: "bs ! i = ucast v \<Longrightarrow> bs ! Suc i = ucast (drop_bit 8 v) \<Longrightarrow> le16_at bs i = v" for v :: u16
  by (rule bit_word_eqI) (auto simp: le16_at_def bit_simps)

text \<open>The structure that the rules of a match stand for.\<close>

definition info_of_rules :: "game_rules \<Rightarrow> game_info_struct" where
  "info_of_rules r = \<lparr>gi_map_width = gr_width r, gi_map_height = gr_height r, gi_base_size = gr_base_size r,
     gi_unit_health = gr_unit_health r, gi_natural_energy_rate = gr_natural_energy_rate r,
     gi_resource_zone_energy_rate = gr_resource_zone_energy_rate r, gi_attack_cooldown = gr_attack_cooldown r,
     gi_capture_turn_threshold = gr_capture_turn_threshold r, gi_vision_lv1 = gr_vision_lv1 r,
     gi_vision_lv2 = gr_vision_lv2 r, gi_capacity_lv1 = gr_capacity_lv1 r, gi_capacity_lv2 = gr_capacity_lv2 r,
     gi_capacity_upgrade_cost = gr_capacity_upgrade_cost r, gi_vision_upgrade_cost = gr_vision_upgrade_cost r,
     gi_damage_upgrade_cost = gr_damage_upgrade_cost r, gi_manufact_cost = gr_manufact_cost r,
     gi_reserved = replicate 10 0\<rparr>"

lemma game_info_of_bytes: "game_info_of (game_info r) = Some (info_of_rules r)"
proof -
  have "length (game_info r) = 32" by (simp add: game_info_def u16_le_def)
  moreover have "le16_at (game_info r) 10 = gr_capacity_lv1 r" "le16_at (game_info r) 12 = gr_capacity_lv2 r"
    "le16_at (game_info r) 14 = gr_capacity_upgrade_cost r" "le16_at (game_info r) 16 = gr_vision_upgrade_cost r"
    "le16_at (game_info r) 18 = gr_damage_upgrade_cost r" "le16_at (game_info r) 20 = gr_manufact_cost r"
    by (rule le16_at_bytes; simp add: game_info_def u16_le_def nth_append)+
  ultimately show ?thesis by (simp add: game_info_of_def game_info_def u16_le_def info_of_rules_def)
qed

text \<open>One tile as the runtime encodes it, and as a program decodes it.\<close>

definition sensor_pack :: "u8 \<Rightarrow> bool \<Rightarrow> bool \<Rightarrow> bool \<Rightarrow> bool \<Rightarrow> bool \<Rightarrow> byte" where
  "sensor_pack terrain base resource unit bullet alliance =
     1 OR push_bit 1 (terrain AND 3) OR (if base then 0x08 else 0) OR (if resource then 0x10 else 0)
       OR (if unit then 0x20 else 0) OR (if bullet then 0x40 else 0) OR (if alliance then 0x80 else 0)"

lemma sensor_pack_all:
  "list_all (\<lambda>te. list_all (\<lambda>b. list_all (\<lambda>r. list_all (\<lambda>u. list_all (\<lambda>l. list_all (\<lambda>a.
     sensor_data_of (sensor_pack te b r u l a) = \<lparr>sd_visible = True, sd_terrain = te, sd_is_base = b, sd_is_resource = r,
       sd_has_unit = u, sd_has_bullet = l, sd_alliance_unit = a\<rparr>)
     [True, False]) [True, False]) [True, False]) [True, False]) [True, False]) [0, 1, 2, 3]"
  by code_simp

lemma sensor_pack_unpack:
  assumes "te < 4"
  shows "sensor_data_of (sensor_pack te b r u l a) = \<lparr>sd_visible = True, sd_terrain = te, sd_is_base = b, sd_is_resource = r,
    sd_has_unit = u, sd_has_bullet = l, sd_alliance_unit = a\<rparr>"
proof -
  have "unat te < 4" using assms by (simp add: word_less_nat_alt)
  then have "unat te \<in> {0, 1, 2, 3}" by auto
  then have te: "te \<in> set [0, 1, 2, 3]" by (auto simp: word_unat_eq_iff)
  have bool: "p \<in> set [True, False]" for p by simp
  show ?thesis
    by (rule sensor_pack_all [unfolded list_all_iff, rule_format, OF te bool bool bool bool bool])
qed

lemma sensor_data_of_byte:
  assumes "sensor_byte w s t = Some b" "t_terrain t < 4"
  shows "sensor_data_of b = \<lparr>sd_visible = True, sd_terrain = t_terrain t, sd_is_base = t_is_base t,
     sd_is_resource = t_is_resource t, sd_has_unit = (\<exists>a. t_occupant t = OCCUPIED_BY_UNIT a),
     sd_has_bullet = (\<exists>a. t_occupant t = OCCUPIED_BY_BULLET a),
     sd_alliance_unit = (\<exists>a u. t_occupant t = OCCUPIED_BY_UNIT a \<and> w_uheap w a = Some u \<and> u_player u = s)\<rparr>"
proof -
  have "b = sensor_pack (t_terrain t) (t_is_base t) (t_is_resource t) (\<exists>a. t_occupant t = OCCUPIED_BY_UNIT a)
    (\<exists>a. t_occupant t = OCCUPIED_BY_BULLET a) (\<exists>a u. t_occupant t = OCCUPIED_BY_UNIT a \<and> w_uheap w a = Some u \<and> u_player u = s)"
    using assms(1) by (cases "t_occupant t") (auto simp: sensor_byte_def sensor_pack_def bind_eq_Some_conv)
  then show ?thesis using sensor_pack_unpack [OF assms(2)] by simp
qed

subsection \<open>What a unit is told about itself\<close>

lemma sim_unit_id:
  assumes "sim_ok s" "ctx_unit s = Some u"
  shows "is_unit s" "u_id u < 32"
proof -
  obtain a where a: "c_unit (s_ctx s) = Some a" "w_uheap (s_world s) a = Some u"
    using assms(2) by (auto simp: ctx_unit_def split: option.splits)
  then have "a \<in> set (w_units (s_world s))" using assms(1) by (simp add: sim_ok_def)
  moreover have "winv (s_world s)" using assms(1) turn_invD(1) by (simp add: sim_ok_def)
  ultimately have "unat (u_id u) \<le> max_units" using a(2) wf_heap_unit'(3) [OF winv_heap] by blast
  then show "u_id u < 32" by (simp add: word_less_nat_alt max_units_def)
  show "is_unit s" using a(1) by (simp add: is_unit_def)
qed

lemma upgrades_byte_bits: "upgrades_byte up < 8"
  "HAS_UPGRADE (upgrades_byte up) UPGRADE_CAPACITY = up_capacity up"
  "HAS_UPGRADE (upgrades_byte up) UPGRADE_VISION = up_vision up"
  "HAS_UPGRADE (upgrades_byte up) UPGRADE_DAMAGE = up_damage up"
  by (cases "up_capacity up"; cases "up_vision up"; cases "up_damage up";
      simp add: upgrades_byte_def HAS_UPGRADE_def UPGRADE_CAPACITY_def UPGRADE_VISION_def UPGRADE_DAMAGE_def)+

lemma dev_info_of_unit:
  assumes "sim_ok s" "ctx_unit s = Some u"
  shows "\<exists>r. perform mo uniform_int lib_dev_info s = Some (set_word mo r s)
    \<and> device_info_of r = \<lparr>di_id = u_id u, di_upgrades = upgrades_byte (u_upgrades u), di_health = u_health u, di_energy = u_energy u\<rparr>"
  by (intro exI conjI, simp add: perform_handlers ecall_dev_info_def sim_unit_id(1) [OF assms] assms(2))
    (rule device_info_of_word [OF sim_unit_id(2) [OF assms] upgrades_byte_bits(1)])

lemma pos_of_unit:
  assumes "sim_ok s" "ctx_unit s = Some u"
  shows "\<exists>r. perform mo uniform_int lib_pos s = Some (set_word mo r s)
    \<and> pos_info_of r = \<lparr>pi_x = word_of_int (fst (u_pos u)), pi_y = word_of_int (snd (u_pos u)), pi_reserved = [0, 0]\<rparr>"
  by (intro exI conjI, simp add: perform_handlers ecall_pos_def sim_unit_id(1) [OF assms] assms(2) split_beta)
    (simp add: pos_info_of_word)

lemma meta_of_rules:
  "\<exists>bytes. perform mo uniform_int (lib_meta info) s =
      Some (case mo_copy_to_guest mo (s_machine s) (sysarg mo s 0) bytes of
          None \<Rightarrow> set_result mo INVALID_POINTER s | Some m \<Rightarrow> set_result mo OK (s\<lparr>s_machine := m\<rparr>))
    \<and> game_info_of bytes = Some (info_of_rules (w_rules (s_world s)))"
  by (intro exI [of _ "game_info (w_rules (s_world s))"])
    (simp add: perform_handlers ecall_meta_def game_info_of_bytes split: option.split)

text \<open>What a program is to be told about a tile.\<close>

definition sensor_of_tile :: "world \<Rightarrow> side \<Rightarrow> tile \<Rightarrow> sensor_data" where
  "sensor_of_tile w s t = \<lparr>sd_visible = True, sd_terrain = t_terrain t, sd_is_base = t_is_base t,
     sd_is_resource = t_is_resource t, sd_has_unit = (\<exists>a. t_occupant t = OCCUPIED_BY_UNIT a),
     sd_has_bullet = (\<exists>a. t_occupant t = OCCUPIED_BY_BULLET a),
     sd_alliance_unit = (\<exists>a u. t_occupant t = OCCUPIED_BY_UNIT a \<and> w_uheap w a = Some u \<and> u_player u = s)\<rparr>"

lemma window_nth:
  assumes "in_window rng c"
  shows "[(dx, dy). dy \<leftarrow> [0..rng - 1], dx \<leftarrow> [0..rng - 1]] ! cell_index rng c = c"
    "length [(dx, dy). dy \<leftarrow> [0..rng - 1], dx \<leftarrow> [0..rng - 1]] = nat (rng * rng)"
proof -
  obtain a b where ab: "c = (a, b)" by (cases c)
  then have r: "0 \<le> a" "a < rng" "0 \<le> b" "b < rng" using assms by (simp_all add: in_window_def)
  define x y n where "x = nat a" and "y = nat b" and "n = nat rng"
  then have c: "c = (int x, int y)" "int x < rng" "int y < rng" and n: "rng = int n" using ab r by simp_all
  have l: "[(dx, dy). dy \<leftarrow> [0..rng - 1], dx \<leftarrow> [0..rng - 1]]
      = concat (map (\<lambda>y. map (\<lambda>x. (int x, int y)) [0..<n]) [0..<n])"
    by (simp add: n upto_from_0 comp_def)
  have i: "cell_index rng c = y * n + x" by (simp add: cell_index_def c n nat_add_distrib nat_mult_distrib)
  have xy: "x < n" "y < n" using c n by simp_all
  have "y * n + x < n * n" using in_window_index [OF assms] i n by (simp add: nat_mult_distrib)
  moreover have "(y * n + x) div n = y" "(y * n + x) mod n = x" using xy by simp_all
  ultimately show "[(dx, dy). dy \<leftarrow> [0..rng - 1], dx \<leftarrow> [0..rng - 1]] ! cell_index rng c = c"
    unfolding l i using nth_concat_rows [of "y * n + x" n n "\<lambda>y x. (int x, int y)"] c(1) by simp
  show "length [(dx, dy). dy \<leftarrow> [0..rng - 1], dx \<leftarrow> [0..rng - 1]] = nat (rng * rng)"
    unfolding l by (simp add: length_concat comp_def sum_list_triv n nat_mult_distrib)
qed

text \<open>The bytes that a unit gets from \<open>read_sensor\<close>: every visible tile of its window, and nothing of the others.\<close>

definition window_told :: "'m sim \<Rightarrow> int \<Rightarrow> pos_t \<times> pos_t \<Rightarrow> byte list \<Rightarrow> bool" where
  "window_told s rng topleft bytes \<longleftrightarrow> length bytes = nat (rng * rng) \<and> (\<forall>c. in_window rng c \<longrightarrow>
     (let p = shift topleft c; seen = isInBounds (s_world s) p \<and> c_visible_tiles (s_ctx s) ! cell_index rng c;
          d = sensor_data_of (bytes ! cell_index rng c)
      in if seen then \<exists>t. world_tile (s_world s) p = Some t \<and> d = sensor_of_tile (s_world s) (c_player (s_ctx s)) t
         else \<not> sd_visible d))"

lemma read_sensor_of_unit:
  assumes S: "sim_ok s" and u: "ctx_unit s = Some u" and terrain: "list_all (\<lambda>t. t_terrain t < 4) (tm_tiles (w_map (s_world s)))"
    and rng: "rng = visionRange (w_rules (s_world s)) u"
  shows "\<exists>bytes. perform mo uniform_int (lib_read_sensor data) s =
      Some (case mo_copy_to_guest mo (s_machine s) (sysarg mo s 0) bytes of
          None \<Rightarrow> set_result mo INVALID_POINTER s
        | Some m \<Rightarrow> set_word mo (word_of_nat (nat (rng * rng))) (penalize mo (nat (rng * rng)) (s\<lparr>s_machine := m\<rparr>)))
    \<and> window_told s rng (u_x u - rng div 2, u_y u - rng div 2) bytes"
proof -
  let ?tl = "(u_x u - rng div 2, u_y u - rng div 2)"
  let ?cells = "[(dx, dy). dy \<leftarrow> [0..rng - 1], dx \<leftarrow> [0..rng - 1]]"
  note U = sim_unit_id(1) [OF S u]
  have w: "sensor_window s = Some (rng, ?tl)" using U u by (simp add: sensor_window_def Let_def rng)
  obtain bytes where b: "traverse (sensor_tile s rng ?tl) ?cells = Some bytes"
  proof -
    have "sensor_tile s rng ?tl c \<noteq> None" if "c \<in> set ?cells" for c
      by (rule sensor_tile_total [OF S U u rng]) (use that in \<open>auto simp: in_window_def\<close>)
    then show thesis using traverse_total [of ?cells "sensor_tile s rng ?tl"] that by blast
  qed
  have "window_told s rng ?tl bytes"
  proof (cases "0 < rng")
    case False
    then have "rng = 0" using visionRange_bound(1) [of "w_rules (s_world s)" u] rng by simp
    then show ?thesis using b by (auto simp: window_told_def in_window_def)
  next
    case True
    then have in0: "in_window rng (0, 0)" by (simp add: in_window_def)
    have len: "length bytes = nat (rng * rng)" using traverse_length [OF b] window_nth(2) [OF in0] by simp
    show ?thesis unfolding window_told_def Let_def
    proof (intro conjI len allI impI)
      fix c assume c: "in_window rng c"
      let ?p = "shift ?tl c" and ?i = "cell_index rng c"
      have at: "sensor_tile s rng ?tl c = Some (bytes ! ?i)"
        using traverse_nth [OF b, of ?i] in_window_index [OF c] window_nth [OF c] by simp
      show "if isInBounds (s_world s) ?p \<and> c_visible_tiles (s_ctx s) ! ?i
        then \<exists>t. world_tile (s_world s) ?p = Some t
          \<and> sensor_data_of (bytes ! ?i) = sensor_of_tile (s_world s) (c_player (s_ctx s)) t
        else \<not> sd_visible (sensor_data_of (bytes ! ?i))"
      proof (cases "isInBounds (s_world s) ?p \<and> c_visible_tiles (s_ctx s) ! ?i")
        case True
        then obtain t where t: "world_tile (s_world s) ?p = Some t"
            "sensor_byte (s_world s) (c_player (s_ctx s)) t = Some (bytes ! ?i)"
          using at U by (auto simp: sensor_tile_def Let_def bind_eq_Some_conv split: if_splits)
        have "tilemap_wf (w_map (s_world s))"
          using S by (auto simp: sim_ok_def turn_inv_def winv_in_flight_def static_ok_def)
        then have "t_terrain t < 4" using terrain t(1) list_all_tileOf unfolding world_tile_def by metis
        then show ?thesis using True t sensor_data_of_byte [OF t(2)] by (simp add: sensor_of_tile_def)
      next
        case False
        then have "bytes ! ?i = 0" using at U by (auto simp: sensor_tile_def Let_def bind_eq_Some_conv split: if_splits)
        then show ?thesis unfolding if_not_P [OF False] by (simp add: sensor_data_of_def)
      qed
    qed
  qed
  then show ?thesis using b w by (intro exI [of _ bytes]) (simp add: perform_handlers ecall_read_sensor_def Let_def split: option.split)
qed

end
