(* ===== verification/Harvester.thy ===== *)
theory Harvester
  imports Corelib_Calls
begin

text \<open>
  The harvesting player of \<open>corelib/example/harvester.c\<close>: its static variables as a record, each of its functions,
  and one round of the loop of \<open>main\<close> as a function of what the system calls answer, which gives the calls that
  it makes. An access outside of an array has no result; an \<open>int\<close> is unbounded (none of them comes near its limits
  within \<open>2 ^ 30\<close> turns).
\<close>

subsection \<open>Arrays\<close>

definition MAX_MAP_SIZE :: nat where "MAX_MAP_SIZE = 64"
definition MAX_CELLS :: nat where "MAX_CELLS = 4096"
definition MAX_SENSORS :: nat where "MAX_SENSORS = 81"

definition list_at :: "'a list \<Rightarrow> int \<Rightarrow> 'a option" where
  "list_at xs i = (if 0 \<le> i \<and> i < int (length xs) then Some (xs ! nat i) else None)"

definition list_put :: "'a list \<Rightarrow> int \<Rightarrow> 'a \<Rightarrow> 'a list option" where
  "list_put xs i v = (if 0 \<le> i \<and> i < int (length xs) then Some (xs[nat i := v]) else None)"

definition grid_at :: "'a list list \<Rightarrow> int \<Rightarrow> int \<Rightarrow> 'a option" where
  "grid_at g y x = do { row \<leftarrow> list_at g y; list_at row x }"

definition grid_put :: "'a list list \<Rightarrow> int \<Rightarrow> int \<Rightarrow> 'a \<Rightarrow> 'a list list option" where
  "grid_put g y x v = do { row \<leftarrow> list_at g y; row \<leftarrow> list_put row x v; list_put g y row }"

text \<open>A loop that returns true at the first element that satisfies its test.\<close>

fun first_true :: "('a \<Rightarrow> bool option) \<Rightarrow> 'a list \<Rightarrow> bool option" where
  "first_true f [] = Some False"
| "first_true f (x # xs) = do { b \<leftarrow> f x; if b then Some True else first_true f xs }"

subsection \<open>The static variables\<close>

datatype hv_mode = ModeExplore | ModeToResource | ModeToBase | ModeScout

record harvester =
  hv_width :: int
  hv_height :: int
  hv_known :: "bool list list"
  hv_terrain :: "u8 list list"
  hv_resource :: "bool list list"
  hv_base :: "bool list list"
  hv_sensors :: "sensor_data list"
  hv_home :: "(int \<times> int) option"
  hv_last_pos :: "int \<times> int"
  hv_stuck_turns :: int
  hv_wait_turns :: int
  hv_scout_turns :: int
  hv_harvest_cycles :: int
  hv_dirs :: "int list"
  hv_pending :: "int \<times> int"
  hv_draws :: nat

definition blank_sensor :: sensor_data where
  "blank_sensor = \<lparr>sd_visible = False, sd_terrain = 0, sd_is_base = False, sd_is_resource = False, sd_has_unit = False,
     sd_has_bullet = False, sd_alliance_unit = False\<rparr>"

text \<open>Before the first turn, with what \<open>meta\<close> has told; \<open>hv_draws\<close> counts the calls of \<open>rand\<close>.\<close>

definition hv_start :: "game_info_struct \<Rightarrow> harvester" where
  "hv_start g =
     \<lparr>hv_width = uint (gi_map_width g), hv_height = uint (gi_map_height g),
      hv_known = replicate MAX_MAP_SIZE (replicate MAX_MAP_SIZE False),
      hv_terrain = replicate MAX_MAP_SIZE (replicate MAX_MAP_SIZE 0),
      hv_resource = replicate MAX_MAP_SIZE (replicate MAX_MAP_SIZE False),
      hv_base = replicate MAX_MAP_SIZE (replicate MAX_MAP_SIZE False),
      hv_sensors = replicate MAX_SENSORS blank_sensor,
      hv_home = None, hv_last_pos = (-1, -1), hv_stuck_turns = 0, hv_wait_turns = 0, hv_scout_turns = 0,
      hv_harvest_cycles = 0, hv_dirs = [0, 0, 0, 0], hv_pending = (-1, -1), hv_draws = 0\<rparr>"

fun modeNameOf :: "hv_mode \<Rightarrow> string" where
  "modeNameOf ModeToResource = ''to_resource''"
| "modeNameOf ModeToBase = ''to_base''"
| "modeNameOf ModeScout = ''scout''"
| "modeNameOf ModeExplore = ''explore''"

subsection \<open>The map as it is known\<close>

definition toIndex :: "harvester \<Rightarrow> int \<Rightarrow> int \<Rightarrow> int" where
  "toIndex s x y = y * hv_width s + x"

definition inBounds :: "harvester \<Rightarrow> int \<Rightarrow> int \<Rightarrow> bool" where
  "inBounds s x y \<longleftrightarrow> x \<ge> 0 \<and> x < hv_width s \<and> y \<ge> 0 \<and> y < hv_height s"

definition isWalkableKnown :: "harvester \<Rightarrow> int \<Rightarrow> int \<Rightarrow> bool option" where
  "isWalkableKnown s x y =
     (if \<not> inBounds s x y then Some False
      else do {
        known \<leftarrow> grid_at (hv_known s) y x;
        if \<not> known then Some False
        else do {
          terrain \<leftarrow> grid_at (hv_terrain s) y x;
          Some (terrain \<noteq> TERRAIN_WATER \<and> terrain \<noteq> TERRAIN_OBSTACLE)
        }
      })"

definition cellHasVisibleUnit :: "harvester \<Rightarrow> int \<Rightarrow> int \<Rightarrow> int \<Rightarrow> int \<Rightarrow> int \<Rightarrow> bool option" where
  "cellHasVisibleUnit s target_x target_y self_x self_y radius =
     (let side = radius * 2 + 1; sx = target_x - self_x + radius; sy = target_y - self_y + radius
      in if sx < 0 \<or> sx \<ge> side \<or> sy < 0 \<or> sy \<ge> side then Some False
         else do {
           cell \<leftarrow> list_at (hv_sensors s) (sy * side + sx);
           if \<not> sd_visible cell then Some False else Some (sd_has_unit cell)
         })"

definition isVisibleOtherUnit :: "harvester \<Rightarrow> int \<Rightarrow> int \<Rightarrow> int \<Rightarrow> int \<Rightarrow> int \<Rightarrow> bool option" where
  "isVisibleOtherUnit s target_x target_y self_x self_y radius =
     (let side = radius * 2 + 1; sx = target_x - self_x + radius; sy = target_y - self_y + radius
      in if sx < 0 \<or> sx \<ge> side \<or> sy < 0 \<or> sy \<ge> side then Some False
         else do {
           cell \<leftarrow> list_at (hv_sensors s) (sy * side + sx);
           if \<not> sd_visible cell then Some False
           else if \<not> sd_has_unit cell then Some False
           else Some (\<not> (target_x = self_x \<and> target_y = self_y))
         })"

definition isPathWalkable :: "harvester \<Rightarrow> int \<Rightarrow> int \<Rightarrow> int \<Rightarrow> int \<Rightarrow> int \<Rightarrow> bool option" where
  "isPathWalkable s x y self_x self_y radius = do {
     walkable \<leftarrow> isWalkableKnown s x y;
     if \<not> walkable then Some False
     else do {
       other \<leftarrow> isVisibleOtherUnit s x y self_x self_y radius;
       Some (\<not> other)
     }
   }"

definition hasUnknownNeighbor :: "harvester \<Rightarrow> int \<Rightarrow> int \<Rightarrow> bool option" where
  "hasUnknownNeighbor s x y = first_true (\<lambda>dir.
     let nx = x + DIR_X_OFFSET_OF dir; ny = y + DIR_Y_OFFSET_OF dir
     in if \<not> inBounds s nx ny then Some False else map_option Not (grid_at (hv_known s) ny nx)) [0, 1, 2, 3]"

definition hasKnownResource :: "harvester \<Rightarrow> bool option" where
  "hasKnownResource s = first_true (\<lambda>y. first_true (\<lambda>x. grid_at (hv_resource s) y x) [0..hv_width s - 1]) [0..hv_height s - 1]"

definition hasKnownBase :: "harvester \<Rightarrow> bool option" where
  "hasKnownBase s = first_true (\<lambda>y. first_true (\<lambda>x. grid_at (hv_base s) y x) [0..hv_width s - 1]) [0..hv_height s - 1]"

text \<open>\<open>rand n\<close> is what the \<open>n\<close>-th call of \<open>rand\<close> answers.\<close>

definition shuffle_step :: "(nat \<Rightarrow> u32) \<Rightarrow> nat \<Rightarrow> harvester \<Rightarrow> harvester" where
  "shuffle_step rand i s =
     (let j = unat (rand (hv_draws s)) mod (i + 1); tmp = hv_dirs s ! i
      in s\<lparr>hv_draws := hv_draws s + 1, hv_dirs := (hv_dirs s)[i := hv_dirs s ! j, j := tmp]\<rparr>)"

definition fillRandomDirOrder :: "(nat \<Rightarrow> u32) \<Rightarrow> harvester \<Rightarrow> harvester" where
  "fillRandomDirOrder rand s = fold (shuffle_step rand) [3, 2, 1] (s\<lparr>hv_dirs := [0, 1, 2, 3]\<rparr>)"

text \<open>A division by a width of 0 has no result.\<close>

definition isTargetCell :: "harvester \<Rightarrow> hv_mode \<Rightarrow> int \<Rightarrow> int \<Rightarrow> int \<Rightarrow> bool option" where
  "isTargetCell s mode target_x target_y idx =
     (if hv_width s = 0 then None
      else let x = idx mod hv_width s; y = idx div hv_width s
        in case mode of
             ModeToResource \<Rightarrow> grid_at (hv_resource s) y x
           | ModeToBase \<Rightarrow> do {
               known \<leftarrow> hasKnownBase s;
               if known then grid_at (hv_base s) y x else Some (x = target_x \<and> y = target_y)
             }
           | _ \<Rightarrow> hasUnknownNeighbor s x y)"


subsection \<open>The two searches\<close>

text \<open>
  The queue is the part of \<open>bfs_queue\<close> in front of \<open>tail\<close>; the two other arrays are those of the cells that a
  search initialises.
\<close>

record bfs =
  bq_cells :: "int list"
  bq_head :: nat
  bq_visited :: "bool list"
  bq_first :: "int list"

definition bfs_push :: "int \<Rightarrow> bfs \<Rightarrow> bfs option" where
  "bfs_push n b = (if length (bq_cells b) < MAX_CELLS then Some (b\<lparr>bq_cells := bq_cells b @ [n]\<rparr>) else None)"

text \<open>One direction of the inner loop.\<close>

definition bfs_visit :: "(int \<Rightarrow> int \<Rightarrow> bool option) \<Rightarrow> int \<Rightarrow> int \<Rightarrow> int \<Rightarrow> int \<Rightarrow> bfs \<Rightarrow> bfs option" where
  "bfs_visit walk w start idx dir b = do {
     let nx = idx mod w + DIR_X_OFFSET_OF dir;
     let ny = idx div w + DIR_Y_OFFSET_OF dir;
     walkable \<leftarrow> walk nx ny;
     if \<not> walkable then Some b
     else do {
       let nidx = ny * w + nx;
       seen \<leftarrow> list_at (bq_visited b) nidx;
       if seen then Some b
       else do {
         first \<leftarrow> (if idx = start then Some dir else list_at (bq_first b) idx);
         visited \<leftarrow> list_put (bq_visited b) nidx True;
         firsts \<leftarrow> list_put (bq_first b) nidx first;
         bfs_push nidx (b\<lparr>bq_visited := visited, bq_first := firsts\<rparr>)
       }
     }
   }"

definition bfs_measure :: "bfs \<Rightarrow> nat" where
  "bfs_measure b = length (filter Not (bq_visited b)) + (length (bq_cells b) - bq_head b)"

lemma list_atD: "list_at xs i = Some x \<Longrightarrow> nat i < length xs \<and> xs ! nat i = x"
  by (auto simp: list_at_def split: if_splits)

lemma list_put_Some: "list_put xs i v = Some ys \<longleftrightarrow> 0 \<le> i \<and> i < int (length xs) \<and> ys = xs[nat i := v]"
  by (auto simp: list_put_def)

lemma bfs_visit_measure:
  assumes "bfs_visit walk w start idx dir b = Some b'" "bq_head b \<le> length (bq_cells b)"
  shows "bfs_measure b' \<le> bfs_measure b \<and> bq_head b' = bq_head b \<and> bq_head b' \<le> length (bq_cells b')"
proof -
  have "length (filter Not ((bq_visited b)[i := True])) < length (filter Not (bq_visited b))"
    if "i < length (bq_visited b)" "\<not> bq_visited b ! i" for i
    using that by (rule count_unvisited_decreases)
  from this [of "nat ((idx div w + DIR_Y_OFFSET_OF dir) * w + (idx mod w + DIR_X_OFFSET_OF dir))"] show ?thesis
    using assms by (auto simp: bfs_visit_def bfs_measure_def Let_def bind_eq_Some_conv list_put_Some bfs_push_def
        dest: list_atD split: if_splits)
qed

lemma bfs_expand_measure:
  assumes "foldM (bfs_visit walk w start idx) dirs b = Some b'" "bq_head b \<le> length (bq_cells b)"
  shows "bfs_measure b' \<le> bfs_measure b \<and> bq_head b' = bq_head b \<and> bq_head b' \<le> length (bq_cells b')"
  using foldM_invariant [OF assms(1), where I = "\<lambda>c. bfs_measure c \<le> bfs_measure b \<and> bq_head c = bq_head b \<and> bq_head c \<le> length (bq_cells c)"]
    bfs_visit_measure assms(2) by fastforce

text \<open>The loop: the cell that satisfies the test, if there is one.\<close>

function bfs_loop ::
    "(int \<Rightarrow> bool option) \<Rightarrow> (int \<Rightarrow> int \<Rightarrow> bool option) \<Rightarrow> int list \<Rightarrow> int \<Rightarrow> int \<Rightarrow> bfs \<Rightarrow> (int option \<times> bfs) option" where
  "bfs_loop target walk dirs w start b =
     (if \<not> bq_head b < length (bq_cells b) then Some (None, b)
      else do {
        let idx = bq_cells b ! bq_head b;
        let b = b\<lparr>bq_head := bq_head b + 1\<rparr>;
        hit \<leftarrow> target idx;
        if hit then Some (Some idx, b)
        else do {
          b \<leftarrow> foldM (bfs_visit walk w start idx) dirs b;
          bfs_loop target walk dirs w start b
        }
      })"
  by pat_completeness auto

termination
proof (relation "measure (\<lambda>(target, walk, dirs, w, start, b). bfs_measure b)", goal_cases)
  case (2 target walk dirs w start b idx b1 hit b2)
  then have "bfs_measure b2 \<le> bfs_measure b1" using bfs_expand_measure [of walk w start idx dirs b1 b2] by simp
  then show ?case using 2 by (simp add: bfs_measure_def)
qed simp

declare bfs_loop.simps [simp del]

definition bfs_start :: "int \<Rightarrow> int \<Rightarrow> bfs option" where
  "bfs_start cells start =
     (if cells > int MAX_CELLS then None
      else do {
        visited \<leftarrow> list_put (replicate (nat cells) False) start True;
        bfs_push start \<lparr>bq_cells = [], bq_head = 0, bq_visited = visited, bq_first = replicate (nat cells) (-1)\<rparr>
      })"

definition bfsDirToMode ::
    "(nat \<Rightarrow> u32) \<Rightarrow> int \<Rightarrow> int \<Rightarrow> int \<Rightarrow> int \<Rightarrow> int \<Rightarrow> hv_mode \<Rightarrow> int \<Rightarrow> int \<Rightarrow> harvester \<Rightarrow> (int \<times> harvester) option" where
  "bfsDirToMode rand start_x start_y self_x self_y radius mode target_x target_y s = do {
     let start = toIndex s start_x start_y;
     let s = fillRandomDirOrder rand s;
     b \<leftarrow> bfs_start (hv_width s * hv_height s) start;
     (found, b) \<leftarrow> bfs_loop (isTargetCell s mode target_x target_y)
       (\<lambda>x y. isPathWalkable s x y self_x self_y radius) (hv_dirs s) (hv_width s) start b;
     (case found of
        Some idx \<Rightarrow> do {
          dir \<leftarrow> list_at (bq_first b) idx;
          Some (dir, s\<lparr>hv_pending := (idx mod hv_width s, idx div hv_width s)\<rparr>)
        }
      | None \<Rightarrow> Some (-1, s\<lparr>hv_pending := (-1, -1)\<rparr>))
   }"

definition nearestResourceDir :: "(nat \<Rightarrow> u32) \<Rightarrow> int \<Rightarrow> int \<Rightarrow> int \<Rightarrow> int \<Rightarrow> int \<Rightarrow> harvester \<Rightarrow> (int \<times> harvester) option" where
  "nearestResourceDir rand start_x start_y self_x self_y radius =
     bfsDirToMode rand start_x start_y self_x self_y radius ModeToResource (-1) (-1)"

definition frontierDir :: "(nat \<Rightarrow> u32) \<Rightarrow> int \<Rightarrow> int \<Rightarrow> int \<Rightarrow> int \<Rightarrow> int \<Rightarrow> harvester \<Rightarrow> (int \<times> harvester) option" where
  "frontierDir rand start_x start_y self_x self_y radius =
     bfsDirToMode rand start_x start_y self_x self_y radius ModeExplore (-1) (-1)"

definition pointDir ::
    "(nat \<Rightarrow> u32) \<Rightarrow> int \<Rightarrow> int \<Rightarrow> int \<Rightarrow> int \<Rightarrow> int \<Rightarrow> int \<Rightarrow> int \<Rightarrow> harvester \<Rightarrow> (int \<times> harvester) option" where
  "pointDir rand start_x start_y target_x target_y self_x self_y radius s =
     (if \<not> inBounds s target_x target_y then Some (-1, s)
      else do {
        walkable \<leftarrow> isPathWalkable s target_x target_y self_x self_y radius;
        if \<not> walkable \<and> \<not> (target_x = self_x \<and> target_y = self_y) then Some (-1, s)
        else do {
          let start = toIndex s start_x start_y;
          let target = toIndex s target_x target_y;
          let s = fillRandomDirOrder rand s;
          b \<leftarrow> bfs_start (hv_width s * hv_height s) start;
          (found, b) \<leftarrow> bfs_loop (\<lambda>idx. Some (idx = target))
            (\<lambda>x y. isPathWalkable s x y self_x self_y radius) (hv_dirs s) (hv_width s) start b;
          (case found of
             Some idx \<Rightarrow> do { dir \<leftarrow> list_at (bq_first b) idx; Some (dir, s) }
           | None \<Rightarrow> Some (-1, s))
        }
      })"


subsection \<open>What is around\<close>

definition hv_isInResource :: "harvester \<Rightarrow> pos_info \<Rightarrow> bool option" where
  "hv_isInResource s p =
     (if \<not> inBounds s (uint (pi_x p)) (uint (pi_y p)) then Some False
      else grid_at (hv_resource s) (uint (pi_y p)) (uint (pi_x p)))"

definition hv_isInBase :: "harvester \<Rightarrow> pos_info \<Rightarrow> bool option" where
  "hv_isInBase s p =
     (if \<not> inBounds s (uint (pi_x p)) (uint (pi_y p)) then Some False
      else grid_at (hv_base s) (uint (pi_y p)) (uint (pi_x p)))"

definition capacityOf :: "device_info \<Rightarrow> int" where
  "capacityOf info = (if HAS_UPGRADE (di_upgrades info) UPGRADE_CAPACITY then 1000 else 200)"

definition radiusOf :: "device_info \<Rightarrow> int" where
  "radiusOf info = (if HAS_UPGRADE (di_upgrades info) UPGRADE_VISION then 4 else 2)"

definition centerIsBase :: "sensor_data list \<Rightarrow> int \<Rightarrow> bool option" where
  "centerIsBase data radius = do {
     let side = radius * 2 + 1;
     cell \<leftarrow> list_at data (radius * side + radius);
     Some (if \<not> sd_visible cell then False else sd_is_base cell)
   }"

definition localStepBlocked :: "sensor_data list \<Rightarrow> int \<Rightarrow> int \<Rightarrow> bool option" where
  "localStepBlocked data radius dir =
     (let side = radius * 2 + 1;
          nidx = (radius + DIR_Y_OFFSET_OF dir) * side + (radius + DIR_X_OFFSET_OF dir)
      in if nidx < 0 \<or> nidx \<ge> side * side then Some True
         else do {
           cell \<leftarrow> list_at data nidx;
           Some (if \<not> sd_visible cell then False
                 else if sd_terrain cell = TERRAIN_WATER \<or> sd_terrain cell = TERRAIN_OBSTACLE then True
                 else sd_has_unit cell)
         })"

definition shouldYieldToBlocker :: "harvester \<Rightarrow> int \<Rightarrow> int \<Rightarrow> int \<Rightarrow> int \<Rightarrow> int \<Rightarrow> bool option" where
  "shouldYieldToBlocker s self_x self_y dir radius current_turn = do {
     let nx = self_x + DIR_X_OFFSET_OF dir;
     let ny = self_y + DIR_Y_OFFSET_OF dir;
     unit \<leftarrow> cellHasVisibleUnit s nx ny self_x self_y radius;
     Some (if \<not> unit then False
           else if self_x > nx \<or> (self_x = nx \<and> self_y > ny) then True
           else (self_x + self_y + current_turn) mod 2 = 0)
   }"

fun first_open :: "sensor_data list \<Rightarrow> int \<Rightarrow> int list \<Rightarrow> int option" where
  "first_open data radius [] = Some (-1)"
| "first_open data radius (dir # dirs) = do {
     blocked \<leftarrow> localStepBlocked data radius dir;
     if \<not> blocked then Some dir else first_open data radius dirs
   }"

definition localFallbackDir :: "(nat \<Rightarrow> u32) \<Rightarrow> int \<Rightarrow> harvester \<Rightarrow> (int \<times> harvester) option" where
  "localFallbackDir rand radius s = do {
     let s = fillRandomDirOrder rand s;
     dir \<leftarrow> first_open (hv_sensors s) radius (hv_dirs s);
     Some (dir, s)
   }"

subsection \<open>Sharing the map\<close>

definition CELL_EMPTY :: u8 where "CELL_EMPTY = 0"
definition CELL_WATER :: u8 where "CELL_WATER = 1"
definition CELL_OBSTACLE :: u8 where "CELL_OBSTACLE = 2"
definition PACKET_MAP_DELTA :: byte where "PACKET_MAP_DELTA = 1"

definition encodedTerrain :: "u8 \<Rightarrow> u8" where
  "encodedTerrain terrain =
     (if terrain = TERRAIN_WATER then CELL_WATER else if terrain = TERRAIN_OBSTACLE then CELL_OBSTACLE else CELL_EMPTY)"

definition packCellBits :: "sensor_data \<Rightarrow> u8" where
  "packCellBits cell = encodedTerrain (sd_terrain cell) OR (if sd_is_resource cell then push_bit 2 1 else 0)
     OR (if sd_is_base cell then push_bit 3 1 else 0)"

definition applyPackedCell :: "int \<Rightarrow> int \<Rightarrow> u8 \<Rightarrow> harvester \<Rightarrow> harvester option" where
  "applyPackedCell x y bits s =
     (if \<not> inBounds s x y then Some s
      else do {
        known \<leftarrow> grid_put (hv_known s) y x True;
        let t = bits AND 3;
        terrain \<leftarrow> grid_put (hv_terrain s) y x
          (if t = CELL_WATER then TERRAIN_WATER else if t = CELL_OBSTACLE then TERRAIN_OBSTACLE else TERRAIN_EMPTY);
        resource \<leftarrow> (if bits AND push_bit 2 1 \<noteq> 0 then grid_put (hv_resource s) y x True else Some (hv_resource s));
        base \<leftarrow> (if bits AND push_bit 3 1 \<noteq> 0 then grid_put (hv_base s) y x True else Some (hv_base s));
        Some (s\<lparr>hv_known := known, hv_terrain := terrain, hv_resource := resource, hv_base := base\<rparr>)
      })"

fun apply_cells :: "byte list \<Rightarrow> nat \<Rightarrow> harvester \<Rightarrow> harvester option" where
  "apply_cells (x # y # bits # rest) (Suc n) s = do {
     s \<leftarrow> applyPackedCell (uint x) (uint y) bits s;
     apply_cells rest n s
   }"
| "apply_cells bytes (Suc n) s = None"
| "apply_cells bytes 0 s = Some s"

text \<open>One message: the bytes that \<open>recv_msg\<close> has written.\<close>

definition process_message :: "byte list \<Rightarrow> harvester \<Rightarrow> harvester option" where
  "process_message msg s =
     (if length msg < 2 then Some s
      else if msg ! 0 = PACKET_MAP_DELTA then
        (let count = unat (msg ! 1); expected = 2 + count * 3
         in if expected > length msg then Some s else apply_cells (drop 2 msg) count s)
      else Some s)"

text \<open>The messages up to the first answer that is not positive.\<close>

definition processMessages :: "byte list list \<Rightarrow> harvester \<Rightarrow> harvester option" where
  "processMessages msgs = foldM process_message (takeWhile (\<lambda>m. m \<noteq> []) msgs)"

text \<open>The cells of the window, row by row, with the position on the map and what the sensor says.\<close>

definition window_cells :: "pos_info \<Rightarrow> int \<Rightarrow> (int \<times> int \<times> int) list" where
  "window_cells p radius =
     (let side = radius * 2 + 1
      in [(sy * side + sx, uint (pi_x p) + (sx - radius), uint (pi_y p) + (sy - radius)).
            sy \<leftarrow> [0..side - 1], sx \<leftarrow> [0..side - 1]])"

text \<open>
  The cells of a packet: those that are visible and on the map. At most 81 cells can be visible, so
  the test of the count against 127 never ends a row early; it is kept as it is.
\<close>

fun packet_cells :: "harvester \<Rightarrow> (int \<times> int \<times> int) list \<Rightarrow> (u8 \<times> u8 \<times> u8) list \<Rightarrow> (u8 \<times> u8 \<times> u8) list option" where
  "packet_cells s [] cells = Some cells"
| "packet_cells s ((idx, gx, gy) # rest) cells = do {
     cell \<leftarrow> list_at (hv_sensors s) idx;
     if \<not> sd_visible cell \<or> \<not> inBounds s gx gy \<or> length cells \<ge> 127 then packet_cells s rest cells
     else packet_cells s rest (cells @ [(word_of_int gx, word_of_int gy, packCellBits cell)])
   }"

definition packet_bytes :: "(u8 \<times> u8 \<times> u8) list \<Rightarrow> byte list" where
  "packet_bytes cells = PACKET_MAP_DELTA # word_of_nat (length cells) # concat (map (\<lambda>(x, y, bits). [x, y, bits]) cells)"

definition broadcastVisibleMap :: "pos_info \<Rightarrow> device_info \<Rightarrow> harvester \<Rightarrow> byte list option option" where
  "broadcastVisibleMap p info s = do {
     cells \<leftarrow> packet_cells s (window_cells p (radiusOf info)) [];
     Some (if length cells > 0 then Some (packet_bytes cells) else None)
   }"

definition record_cell :: "int \<times> int \<times> int \<Rightarrow> harvester \<Rightarrow> harvester option" where
  "record_cell c s = (case c of (idx, gx, gy) \<Rightarrow> do {
     cell \<leftarrow> list_at (hv_sensors s) idx;
     if \<not> sd_visible cell \<or> \<not> inBounds s gx gy then Some s
     else do {
       known \<leftarrow> grid_put (hv_known s) gy gx True;
       terrain \<leftarrow> grid_put (hv_terrain s) gy gx (sd_terrain cell);
       resource \<leftarrow> (if sd_is_resource cell then grid_put (hv_resource s) gy gx True else Some (hv_resource s));
       base \<leftarrow> (if sd_is_base cell then grid_put (hv_base s) gy gx True else Some (hv_base s));
       Some (s\<lparr>hv_known := known, hv_terrain := terrain, hv_resource := resource, hv_base := base\<rparr>)
     }
   })"

text \<open>\<open>sensed\<close> is what \<open>read_sensor\<close> writes: there is no result where it does not fit into the array.\<close>

definition updateMap :: "sensor_data list \<Rightarrow> pos_info \<Rightarrow> device_info \<Rightarrow> harvester \<Rightarrow> harvester option" where
  "updateMap sensed p info s =
     (if length sensed > length (hv_sensors s) then None
      else foldM record_cell (window_cells p (radiusOf info))
        (s\<lparr>hv_sensors := sensed @ drop (length sensed) (hv_sensors s)\<rparr>))"

subsection \<open>One turn\<close>

text \<open>What the system calls of a turn answer, and the calls with an effect that it makes.\<close>

record turn_input =
  ti_turn :: int
  ti_pos :: pos_info
  ti_info :: device_info
  ti_messages :: "byte list list"
  ti_sensed :: "sensor_data list"
  ti_deposit :: int
  ti_info_after :: device_info

datatype guest_call = CallLog string "fmt_arg list" | CallDeposit int | CallSend "byte list" | CallMove int

definition log_line :: "string \<Rightarrow> string" where "log_line text = text @ [CHR 0x0A]"

definition int_arg_of :: "int \<Rightarrow> fmt_arg" where "int_arg_of n = ArgWord (word_of_int n)"

definition note_position :: "int \<Rightarrow> int \<Rightarrow> harvester \<Rightarrow> harvester" where
  "note_position x y s =
     s\<lparr>hv_stuck_turns := (if hv_last_pos s = (x, y) then hv_stuck_turns s + 1 else 0), hv_last_pos := (x, y)\<rparr>"

text \<open>The deposit in the base.\<close>

definition deposit_step :: "turn_input \<Rightarrow> bool \<Rightarrow> harvester \<Rightarrow> guest_call list \<times> device_info \<times> harvester" where
  "deposit_step t in_base s =
     (let energy = uint (di_energy (ti_info t))
      in if in_base \<and> energy > 0 then
           (if ti_deposit t \<noteq> 0
            then ([CallDeposit energy, CallLog (log_line ''[hv] t=%d deposit(%d)=%d'')
                    [int_arg_of (ti_turn t), int_arg_of energy, int_arg_of (ti_deposit t)]], ti_info_after t, s)
            else let cycles = hv_harvest_cycles s + 1
              in ([CallDeposit energy], ti_info_after t,
                  s\<lparr>hv_harvest_cycles := cycles,
                    hv_scout_turns := (if cycles mod 3 = 0 then 100 else hv_scout_turns s)\<rparr>))
         else ([], ti_info t, s))"

definition chooseMode :: "device_info \<Rightarrow> int \<Rightarrow> bool \<Rightarrow> harvester \<Rightarrow> hv_mode option" where
  "chooseMode info return_threshold in_resource s =
     (if hv_scout_turns s > 0 \<and> uint (di_energy info) < return_threshold then Some ModeScout
      else do {
        known \<leftarrow> hasKnownResource s;
        Some (if known then
                (if uint (di_energy info) \<ge> return_threshold then ModeToBase
                 else if in_resource then ModeExplore
                 else ModeToResource)
              else ModeExplore)
      })"

definition chooseDir :: "(nat \<Rightarrow> u32) \<Rightarrow> int \<Rightarrow> int \<Rightarrow> int \<Rightarrow> hv_mode \<Rightarrow> bool \<Rightarrow> harvester \<Rightarrow> (int \<times> harvester) option" where
  "chooseDir rand x y radius mode in_resource s =
     (case mode of
        ModeToBase \<Rightarrow> do {
          let home = (case hv_home s of Some h \<Rightarrow> h | None \<Rightarrow> (0, 0));
          (dir, s) \<leftarrow> bfsDirToMode rand x y x y radius ModeToBase (fst home) (snd home) s;
          if dir < 0 then pointDir rand x y (fst home) (snd home) x y radius s else Some (dir, s)
        }
      | ModeToResource \<Rightarrow> do {
          (dir, s) \<leftarrow> nearestResourceDir rand x y x y radius s;
          if dir < 0 then frontierDir rand x y x y radius s else Some (dir, s)
        }
      | ModeScout \<Rightarrow> do {
          (dir, s) \<leftarrow> frontierDir rand x y x y radius s;
          if dir < 0 then do {
            known \<leftarrow> hasKnownResource s;
            if known then nearestResourceDir rand x y x y radius s else Some (dir, s)
          }
          else Some (dir, s)
        }
      | ModeExplore \<Rightarrow> if \<not> in_resource then frontierDir rand x y x y radius s else Some (-1, s))"

text \<open>Waiting for another unit, and the way around a blocked step.\<close>

definition avoidBlocker :: "(nat \<Rightarrow> u32) \<Rightarrow> int \<Rightarrow> int \<Rightarrow> int \<Rightarrow> int \<Rightarrow> int \<Rightarrow> harvester \<Rightarrow> (int \<times> harvester) option" where
  "avoidBlocker rand x y radius current_turn dir s = do {
     yields \<leftarrow> (if dir \<ge> 0 then shouldYieldToBlocker s x y dir radius current_turn else Some False);
     let s = (if yields \<and> hv_stuck_turns s \<ge> 1 then s\<lparr>hv_wait_turns := 2\<rparr> else s);
     blocked \<leftarrow> (if dir < 0 then Some True else localStepBlocked (hv_sensors s) radius dir);
     if blocked \<and> hv_stuck_turns s \<ge> 2 \<and> hv_wait_turns s = 0 then localFallbackDir rand radius s else Some (dir, s)
   }"

text \<open>The last decision: wait, move, or complain.\<close>

definition hv_act :: "turn_input \<Rightarrow> int \<Rightarrow> int \<Rightarrow> harvester \<Rightarrow> (guest_call list \<times> harvester) option" where
  "hv_act t radius dir s =
     (if hv_wait_turns s > 0 then Some ([], s\<lparr>hv_wait_turns := hv_wait_turns s - 1\<rparr>)
      else do {
        blocked \<leftarrow> (if dir \<ge> 0 then localStepBlocked (hv_sensors s) radius dir else Some True);
        Some (if \<not> blocked then ([CallMove dir], s)
              else if hv_stuck_turns s \<ge> 3
              then ([CallLog (log_line ''[hv] t=%d no-move (blocked or no path)'') [int_arg_of (ti_turn t)]], s)
              else ([], s))
      })"

definition status_call :: "turn_input \<Rightarrow> int \<Rightarrow> int \<Rightarrow> device_info \<Rightarrow> hv_mode \<Rightarrow> int \<Rightarrow> harvester \<Rightarrow> guest_call list" where
  "status_call t x y info mode dir s =
     (if ti_turn t \<le> 20 \<or> ti_turn t mod 25 = 0 \<or> hv_stuck_turns s \<ge> 3
      then [CallLog (log_line ''[hv] t=%d pos=(%d,%d) e=%d mode=%s dir=%d stuck=%d wait=%d scout=%d target=(%d,%d)'')
        [int_arg_of (ti_turn t), int_arg_of x, int_arg_of y, int_arg_of (uint (di_energy info)),
         ArgString (toBytes (modeNameOf mode)), int_arg_of dir, int_arg_of (hv_stuck_turns s), int_arg_of (hv_wait_turns s),
         int_arg_of (hv_scout_turns s), int_arg_of (fst (hv_pending s)), int_arg_of (snd (hv_pending s))]]
      else [])"

definition hv_turn :: "(nat \<Rightarrow> u32) \<Rightarrow> turn_input \<Rightarrow> harvester \<Rightarrow> (guest_call list \<times> harvester) option" where
  "hv_turn rand t s = do {
     let p = ti_pos t;
     let x = uint (pi_x p);
     let y = uint (pi_y p);
     s \<leftarrow> processMessages (ti_messages t) s;
     let s = (if hv_home s = None then s\<lparr>hv_home := Some (x, y)\<rparr> else s);
     s \<leftarrow> updateMap (ti_sensed t) p (ti_info t) s;
     let radius = radiusOf (ti_info t);
     let s = note_position x y s;
     center \<leftarrow> centerIsBase (hv_sensors s) radius;
     in_base \<leftarrow> (if center then Some True else hv_isInBase s p);
     in_resource \<leftarrow> hv_isInResource s p;
     let return_threshold = (capacityOf (ti_info t) * 9) div 10;
     let (deposits, info, s) = deposit_step t in_base s;
     mode \<leftarrow> chooseMode info return_threshold in_resource s;
     (dir, s) \<leftarrow> chooseDir rand x y radius mode in_resource s;
     (dir, s) \<leftarrow> avoidBlocker rand x y radius (ti_turn t) dir s;
     let s = (if mode = ModeScout \<and> hv_scout_turns s > 0 then s\<lparr>hv_scout_turns := hv_scout_turns s - 1\<rparr> else s);
     sent \<leftarrow> broadcastVisibleMap p info s;
     let status = status_call t x y info mode dir s;
     (moves, s) \<leftarrow> hv_act t radius dir s;
     Some (deposits @ (case sent of None \<Rightarrow> [] | Some msg \<Rightarrow> [CallSend msg]) @ status @ moves, s)
   }"

text \<open>
  \<open>main\<close>: nothing happens where \<open>meta\<close> fails, and the loop goes on without a turn while the turn number is
  the one of the turn before.
\<close>

fun hv_main :: "(nat \<Rightarrow> u32) \<Rightarrow> turn_input list \<Rightarrow> int \<Rightarrow> harvester \<Rightarrow> (guest_call list \<times> harvester) option" where
  "hv_main rand [] last_turn s = Some ([], s)"
| "hv_main rand (t # ts) last_turn s =
     (if ti_turn t = last_turn then hv_main rand ts last_turn s
      else do {
        (calls, s) \<leftarrow> hv_turn rand t s;
        (rest, s) \<leftarrow> hv_main rand ts (ti_turn t) s;
        Some (calls @ rest, s)
      })"

definition harvester_main ::
    "(nat \<Rightarrow> u32) \<Rightarrow> int \<Rightarrow> game_info_struct \<Rightarrow> turn_input list \<Rightarrow> (guest_call list \<times> harvester) option" where
  "harvester_main rand meta_result g ts = (if meta_result \<noteq> 0 then Some ([], hv_start g) else hv_main rand ts 0 (hv_start g))"

end
