(* ===== verification/Harvester_Search.thy ===== *)
theory Harvester_Search
  imports Harvester
begin

text \<open>
  The search of the harvesting player finds a nearest cell. A walk is a sequence of steps over cells that can be
  walked on; the specification of the search is that it ends with the first direction of a shortest walk to a
  cell that satisfies the test, and without one exactly if no walk leads to such a cell.
\<close>

subsection \<open>Walks\<close>

text \<open>A step in a direction from one cell to another, both by their index.\<close>

definition cell_step :: "(int \<Rightarrow> int \<Rightarrow> bool) \<Rightarrow> int \<Rightarrow> int \<Rightarrow> int \<Rightarrow> int \<Rightarrow> bool" where
  "cell_step W w dir c n \<longleftrightarrow>
     (let x = c mod w + DIR_X_OFFSET_OF dir; y = c div w + DIR_Y_OFFSET_OF dir in W x y \<and> n = y * w + x)"

text \<open>A walk of \<open>k\<close> steps whose first direction is \<open>d\<close>, or \<open>-1\<close> where there is no step.\<close>

inductive walk_to :: "(int \<Rightarrow> int \<Rightarrow> bool) \<Rightarrow> int \<Rightarrow> int \<Rightarrow> nat \<Rightarrow> int \<Rightarrow> int \<Rightarrow> bool" for W w start where
  stay: "walk_to W w start 0 (-1) start"
| step: "walk_to W w start k d c \<Longrightarrow> dir \<in> {0, 1, 2, 3} \<Longrightarrow> cell_step W w dir c n
    \<Longrightarrow> walk_to W w start (Suc k) (if k = 0 then dir else d) n"

inductive_cases walk_to_0E: "walk_to W w start 0 d c"
inductive_cases walk_to_SucE: "walk_to W w start (Suc k) d c"

lemma walk_to_1:
  assumes "walk_to W w start (Suc 0) dir n"
  shows "dir \<in> {0, 1, 2, 3}" "cell_step W w dir start n"
proof -
  from assms obtain d c e where "walk_to W w start 0 d c" "e \<in> {0, 1, 2, 3}" "cell_step W w e c n" "dir = e"
    by (elim walk_to_SucE) simp
  then show "dir \<in> {0, 1, 2, 3}" "cell_step W w dir start n" by (blast elim: walk_to_0E)+
qed

subsection \<open>The invariant\<close>

definition search_ok ::
    "(int \<Rightarrow> bool option) \<Rightarrow> (int \<Rightarrow> int \<Rightarrow> bool option) \<Rightarrow> int \<Rightarrow> int \<Rightarrow> int \<Rightarrow> (int \<Rightarrow> bool) \<Rightarrow> (int \<Rightarrow> int \<Rightarrow> bool) \<Rightarrow> bool" where
  "search_ok target walk w h start T W \<longleftrightarrow> 0 < w \<and> 0 < h \<and> w * h \<le> 4096 \<and> 0 \<le> start \<and> start < w * h
     \<and> (\<forall>x y. walk x y = Some (W x y)) \<and> (\<forall>x y. W x y \<longrightarrow> 0 \<le> x \<and> x < w \<and> 0 \<le> y \<and> y < h)
     \<and> (\<forall>c. 0 \<le> c \<longrightarrow> c < w * h \<longrightarrow> target c = Some (T c))"

text \<open>
  The cells in the queue are the visited ones. Each has its distance \<open>lev\<close> and the first direction of a walk
  of that length. The first \<open>j\<close> are finished: they fail the test and their neighbours are visited. The others
  are in order of their distance, which is at most one more than that of the next one.
\<close>

definition bfs_ok :: "int \<Rightarrow> int \<Rightarrow> int \<Rightarrow> (int \<Rightarrow> bool) \<Rightarrow> (int \<Rightarrow> int \<Rightarrow> bool) \<Rightarrow> (int \<Rightarrow> nat) \<Rightarrow> nat \<Rightarrow> bfs \<Rightarrow> bool" where
  "bfs_ok w h start T W lev j b \<longleftrightarrow>
     length (bq_visited b) = nat (w * h) \<and> length (bq_first b) = nat (w * h)
     \<and> distinct (bq_cells b) \<and> start \<in> set (bq_cells b) \<and> j \<le> length (bq_cells b)
     \<and> (\<forall>c\<in>set (bq_cells b). 0 \<le> c \<and> c < w * h)
     \<and> (\<forall>c. 0 \<le> c \<longrightarrow> c < w * h \<longrightarrow> bq_visited b ! nat c = (c \<in> set (bq_cells b)))
     \<and> (\<forall>c\<in>set (bq_cells b). walk_to W w start (lev c) (bq_first b ! nat c) c
          \<and> (\<forall>k d. walk_to W w start k d c \<longrightarrow> lev c \<le> k))
     \<and> (\<forall>c\<in>set (take j (bq_cells b)). \<not> T c \<and> (\<forall>dir\<in>{0, 1, 2, 3}. \<forall>n. cell_step W w dir c n \<longrightarrow> n \<in> set (bq_cells b)))
     \<and> sorted (map lev (drop j (bq_cells b)))
     \<and> (\<forall>c\<in>set (drop j (bq_cells b)). lev c \<le> Suc (lev (bq_cells b ! j)))"

lemma bfs_okD:
  assumes "bfs_ok w h start T W lev j b"
  shows "length (bq_visited b) = nat (w * h)" "length (bq_first b) = nat (w * h)"
    "distinct (bq_cells b)" "start \<in> set (bq_cells b)" "j \<le> length (bq_cells b)"
    "\<forall>c\<in>set (bq_cells b). 0 \<le> c \<and> c < w * h"
    "\<forall>c. 0 \<le> c \<longrightarrow> c < w * h \<longrightarrow> bq_visited b ! nat c = (c \<in> set (bq_cells b))"
    "\<forall>c\<in>set (bq_cells b). walk_to W w start (lev c) (bq_first b ! nat c) c \<and> (\<forall>k d. walk_to W w start k d c \<longrightarrow> lev c \<le> k)"
    "\<forall>c\<in>set (take j (bq_cells b)). \<not> T c \<and> (\<forall>dir\<in>{0, 1, 2, 3}. \<forall>n. cell_step W w dir c n \<longrightarrow> n \<in> set (bq_cells b))"
    "sorted (map lev (drop j (bq_cells b)))" "\<forall>c\<in>set (drop j (bq_cells b)). lev c \<le> Suc (lev (bq_cells b ! j))"
  using assms unfolding bfs_ok_def by blast+

lemma cell_step_range:
  assumes "cell_step W w dir c n" "\<forall>x y. W x y \<longrightarrow> 0 \<le> x \<and> x < w \<and> 0 \<le> y \<and> y < h" "0 < w"
  shows "0 \<le> n \<and> n < w * h"
proof -
  obtain x y where xy: "0 \<le> x" "x < w" "0 \<le> y" "y < h" "n = y * w + x"
    using assms by (auto simp: cell_step_def Let_def)
  have "y * w + x < (y + 1) * w" using xy by (simp add: algebra_simps)
  also have "\<dots> \<le> h * w" using xy assms(3) by (intro mult_right_mono) simp_all
  finally show ?thesis using xy assms(3) by (simp add: mult.commute)
qed

text \<open>A walk to a cell that is not visited leaves the finished cells through the queue.\<close>

lemma walk_through_queue:
  assumes "bfs_ok w h start T W lev j b" "walk_to W w start k d c" "c \<notin> set (bq_cells b)"
  shows "\<exists>k' d' c'. c' \<in> set (drop j (bq_cells b)) \<and> walk_to W w start k' d' c' \<and> k' < k"
  using assms(2,3)
proof (induction rule: walk_to.induct)
  case stay
  then show ?case using bfs_okD(4) [OF assms(1)] by simp
next
  case (step k d c dir n)
  show ?case
  proof (cases "c \<in> set (bq_cells b)")
    case True
    then have "c \<notin> set (take j (bq_cells b))" using bfs_okD(9) [OF assms(1)] step.hyps(2,3) step.prems by blast
    then have "c \<in> set (drop j (bq_cells b))" using True by (metis Un_iff append_take_drop_id set_append)
    then show ?thesis using step.hyps(1) by blast
  next
    case False
    then show ?thesis using step.IH less_SucI by blast
  qed
qed

lemma queue_minimal:
  assumes "bfs_ok w h start T W lev j b" "c \<in> set (drop j (bq_cells b))"
  shows "lev (bq_cells b ! j) \<le> lev c"
proof -
  obtain q qs where q: "drop j (bq_cells b) = q # qs" using assms(2) by (cases "drop j (bq_cells b)") auto
  then have "q = bq_cells b ! j" by (metis nth_via_drop)
  then show ?thesis using bfs_okD(10) [OF assms(1)] assms(2) q by auto
qed

text \<open>No walk to a cell that is not visited is shorter than one more than the distance of the next cell.\<close>

lemma unvisited_far:
  assumes "bfs_ok w h start T W lev j b" "walk_to W w start k d c" "c \<notin> set (bq_cells b)"
  shows "Suc (lev (bq_cells b ! j)) \<le> k"
proof -
  obtain k' d' c' where c': "c' \<in> set (drop j (bq_cells b))" "walk_to W w start k' d' c'" "k' < k"
    using walk_through_queue [OF assms] by blast
  then have "lev c' \<le> k'" using bfs_okD(8) [OF assms(1)] set_drop_subset [of j "bq_cells b"] by blast
  then show ?thesis using queue_minimal [OF assms(1) c'(1)] c'(3) by linarith
qed


subsection \<open>One direction\<close>

lemma queue_room:
  assumes "bfs_ok w h start T W lev j b" "0 \<le> n" "n < w * h" "n \<notin> set (bq_cells b)" "w * h \<le> 4096"
  shows "length (bq_cells b) < MAX_CELLS"
proof -
  have "set (bq_cells b) \<subset> {0..<w * h}" using bfs_okD(6) [OF assms(1)] assms(2-4) by (auto simp: subset_eq)
  then have "card (set (bq_cells b)) < card {0..<w * h}" by (rule psubset_card_mono [rotated]) simp
  then show ?thesis using distinct_card [OF bfs_okD(3) [OF assms(1)]] assms(5) by (simp add: MAX_CELLS_def)
qed

text \<open>The state after a cell has been pushed.\<close>

definition pushed_state :: "int \<Rightarrow> int \<Rightarrow> bfs \<Rightarrow> bfs" where
  "pushed_state n first b = b\<lparr>bq_cells := bq_cells b @ [n], bq_visited := (bq_visited b)[nat n := True],
     bq_first := (bq_first b)[nat n := first]\<rparr>"

lemma pushed_ok:
  assumes S: "search_ok target walk w h start T W" and I: "bfs_ok w h start T W lev j b"
    and j: "j < length (bq_cells b)" "idx = bq_cells b ! j"
    and dir: "dir \<in> {0, 1, 2, 3}" "cell_step W w dir idx n" and n: "n \<notin> set (bq_cells b)"
    and first: "first = (if idx = start then dir else bq_first b ! nat idx)"
  shows "bfs_ok w h start T W (lev(n := Suc (lev idx))) j (pushed_state n first b)"
proof -
  note D = bfs_okD [OF I]
  let ?lev = "lev(n := Suc (lev idx))" and ?b = "pushed_state n first b"
  have r: "0 \<le> n" "n < w * h" using cell_step_range [OF dir(2), of h] S by (simp_all add: search_ok_def)
  have i: "idx \<in> set (bq_cells b)" using j by simp
  have wi: "walk_to W w start (lev idx) (bq_first b ! nat idx) idx" "\<And>k d. walk_to W w start k d idx \<Longrightarrow> lev idx \<le> k"
    using D(8) i by blast+
  have lev0: "lev idx = 0 \<longleftrightarrow> idx = start"
  proof
    assume "lev idx = 0"
    then show "idx = start" using wi(1) by (auto elim: walk_to_0E)
  next
    assume "idx = start"
    then show "lev idx = 0" using wi(2) walk_to.stay [of W w start] by fastforce
  qed
  have old: "?lev c = lev c" if "c \<in> set (bq_cells b)" for c using that n by auto
  have first_old: "(bq_first b)[nat n := first] ! nat c = bq_first b ! nat c" if "c \<in> set (bq_cells b)" for c
    using that n r D(6) by (subst nth_list_update_neq) (auto simp: eq_nat_nat_iff)
  have walk: "walk_to W w start (Suc (lev idx)) first n"
    using walk_to.step [OF D(8) [rule_format, OF i, THEN conjunct1] dir] lev0 by (simp add: first)
  have len: "nat n < nat (w * h)" using r by simp
  show ?thesis unfolding bfs_ok_def
  proof (intro conjI)
    show "length (bq_visited ?b) = nat (w * h)" "length (bq_first ?b) = nat (w * h)" "distinct (bq_cells ?b)"
      "start \<in> set (bq_cells ?b)" "j \<le> length (bq_cells ?b)" "\<forall>c\<in>set (bq_cells ?b). 0 \<le> c \<and> c < w * h"
      using D(1-6) n r by (auto simp: pushed_state_def)
    show "\<forall>c. 0 \<le> c \<longrightarrow> c < w * h \<longrightarrow> bq_visited ?b ! nat c = (c \<in> set (bq_cells ?b))"
      using D(1,7) len r by (auto simp: pushed_state_def nth_list_update)
    show "\<forall>c\<in>set (bq_cells ?b). walk_to W w start (?lev c) (bq_first ?b ! nat c) c
        \<and> (\<forall>k d. walk_to W w start k d c \<longrightarrow> ?lev c \<le> k)"
    proof
      fix c assume "c \<in> set (bq_cells ?b)"
      then consider "c = n" | "c \<in> set (bq_cells b)" by (auto simp: pushed_state_def)
      then show "walk_to W w start (?lev c) (bq_first ?b ! nat c) c \<and> (\<forall>k d. walk_to W w start k d c \<longrightarrow> ?lev c \<le> k)"
      proof cases
        case 1
        then show ?thesis using walk len D(2) unvisited_far [OF I _ n] j(2) by (auto simp: pushed_state_def)
      next
        case 2
        then show ?thesis using D(8) old first_old by (simp add: pushed_state_def)
      qed
    qed
    show "\<forall>c\<in>set (take j (bq_cells ?b)). \<not> T c \<and> (\<forall>dir\<in>{0, 1, 2, 3}. \<forall>n. cell_step W w dir c n \<longrightarrow> n \<in> set (bq_cells ?b))"
      using D(9) j(1) by (auto simp: pushed_state_def)
    have q: "map ?lev (drop j (bq_cells b)) = map lev (drop j (bq_cells b))"
      using n by (auto dest: in_set_dropD)
    have "sorted (map ?lev (drop j (bq_cells b)))" unfolding q by (rule D(10))
    moreover have "\<forall>c\<in>set (drop j (bq_cells b)). lev c \<le> Suc (lev idx)" using D(11) j(2) by simp
    ultimately show "sorted (map ?lev (drop j (bq_cells ?b)))"
      using j(1) by (auto simp: pushed_state_def sorted_append)
    have "?lev (bq_cells ?b ! j) = lev idx" using old [OF i] j by (simp add: pushed_state_def nth_append)
    then show "\<forall>c\<in>set (drop j (bq_cells ?b)). ?lev c \<le> Suc (?lev (bq_cells ?b ! j))"
      using D(11) j old by (auto simp: pushed_state_def dest: in_set_dropD)
  qed
qed

lemma visit_ok:
  assumes S: "search_ok target walk w h start T W" and I: "bfs_ok w h start T W lev j b"
    and j: "j < length (bq_cells b)" "idx = bq_cells b ! j" and dir: "dir \<in> {0, 1, 2, 3}"
  shows "\<exists>lev' b'. bfs_visit walk w start idx dir b = Some b' \<and> bfs_ok w h start T W lev' j b' \<and> bq_head b' = bq_head b
    \<and> (\<exists>new. bq_cells b' = bq_cells b @ new) \<and> (\<forall>n. cell_step W w dir idx n \<longrightarrow> n \<in> set (bq_cells b'))"
proof -
  note D = bfs_okD [OF I]
  let ?x = "idx mod w + DIR_X_OFFSET_OF dir" and ?y = "idx div w + DIR_Y_OFFSET_OF dir"
  let ?n = "?y * w + ?x"
  have W: "walk ?x ?y = Some (W ?x ?y)" using S by (simp add: search_ok_def)
  have n: "cell_step W w dir idx n \<longleftrightarrow> W ?x ?y \<and> n = ?n" for n by (simp add: cell_step_def Let_def)
  show ?thesis
  proof (cases "W ?x ?y")
    case False
    then show ?thesis using W n I by (intro exI [of _ lev] exI [of _ b]) (simp add: bfs_visit_def Let_def)
  next
    case True
    then have r: "0 \<le> ?n" "?n < w * h" using cell_step_range [of W w dir idx ?n h] n S by (auto simp: search_ok_def)
    then have l: "list_at (bq_visited b) ?n = Some (?n \<in> set (bq_cells b))" using D(1,7) by (simp add: list_at_def)
    show ?thesis
    proof (cases "?n \<in> set (bq_cells b)")
      case seen: True
      then show ?thesis using W n I True l
        by (intro exI [of _ lev] exI [of _ b]) (simp add: bfs_visit_def Let_def)
    next
      case new: False
      define first where "first = (if idx = start then dir else bq_first b ! nat idx)"
      have i: "0 \<le> idx" "idx < w * h" using D(6) j by auto
      have "(if idx = start then Some dir else list_at (bq_first b) idx) = Some first"
        using i D(2) by (simp add: first_def list_at_def)
      then have "bfs_visit walk w start idx dir b = Some (pushed_state ?n first b)"
        using W True l new r D(1,2) queue_room [OF I r new] S
        by (simp add: bfs_visit_def Let_def list_put_def bfs_push_def pushed_state_def search_ok_def)
      then show ?thesis
        using pushed_ok [OF S I j dir _ new first_def] n True
        by (intro exI [of _ "lev(?n := Suc (lev idx))"] exI [of _ "pushed_state ?n first b"]) (simp add: pushed_state_def)
    qed
  qed
qed


lemma expand_ok:
  assumes S: "search_ok target walk w h start T W"
  shows "bfs_ok w h start T W lev j b \<Longrightarrow> j < length (bq_cells b) \<Longrightarrow> idx = bq_cells b ! j \<Longrightarrow> set dirs \<subseteq> {0, 1, 2, 3}
    \<Longrightarrow> \<exists>lev' b'. foldM (bfs_visit walk w start idx) dirs b = Some b' \<and> bfs_ok w h start T W lev' j b' \<and> bq_head b' = bq_head b
    \<and> (\<exists>new. bq_cells b' = bq_cells b @ new) \<and> (\<forall>dir\<in>set dirs. \<forall>n. cell_step W w dir idx n \<longrightarrow> n \<in> set (bq_cells b'))"
proof (induction dirs arbitrary: b lev)
  case Nil
  then show ?case by (intro exI [of _ lev] exI [of _ b]) simp
next
  case (Cons dir dirs)
  obtain lev1 b1 new1 where b1: "bfs_visit walk w start idx dir b = Some b1" "bfs_ok w h start T W lev1 j b1"
      "bq_head b1 = bq_head b" "bq_cells b1 = bq_cells b @ new1" "\<forall>n. cell_step W w dir idx n \<longrightarrow> n \<in> set (bq_cells b1)"
    using visit_ok [OF S Cons.prems(1-3), of dir] Cons.prems(4) by auto
  have j1: "j < length (bq_cells b1)" "idx = bq_cells b1 ! j" using Cons.prems(2,3) b1(4) by (simp_all add: nth_append)
  obtain lev2 b2 new2 where b2: "foldM (bfs_visit walk w start idx) dirs b1 = Some b2" "bfs_ok w h start T W lev2 j b2"
      "bq_head b2 = bq_head b1" "bq_cells b2 = bq_cells b1 @ new2"
      "\<forall>dir\<in>set dirs. \<forall>n. cell_step W w dir idx n \<longrightarrow> n \<in> set (bq_cells b2)"
    using Cons.IH [OF b1(2) j1] Cons.prems(4) by auto
  show ?case
    using b1 b2 by (intro exI [of _ lev2] exI [of _ b2] conjI) auto
qed

text \<open>The cell in front is finished.\<close>

lemma finished_ok:
  assumes I: "bfs_ok w h start T W lev j b" and j: "j < length (bq_cells b)" "idx = bq_cells b ! j"
    and T: "\<not> T idx" and nb: "\<forall>dir\<in>{0, 1, 2, 3}. \<forall>n. cell_step W w dir idx n \<longrightarrow> n \<in> set (bq_cells b)"
  shows "bfs_ok w h start T W lev (Suc j) b"
proof -
  note D = bfs_okD [OF I]
  have take: "take (Suc j) (bq_cells b) = take j (bq_cells b) @ [idx]" using j by (simp add: take_Suc_conv_app_nth)
  have drop: "drop j (bq_cells b) = idx # drop (Suc j) (bq_cells b)" using j by (simp add: Cons_nth_drop_Suc)
  show ?thesis unfolding bfs_ok_def
  proof (intro conjI)
    show "\<forall>c\<in>set (take (Suc j) (bq_cells b)).
        \<not> T c \<and> (\<forall>dir\<in>{0, 1, 2, 3}. \<forall>n. cell_step W w dir c n \<longrightarrow> n \<in> set (bq_cells b))"
      using D(9) T nb unfolding take by auto
    show "sorted (map lev (drop (Suc j) (bq_cells b)))" using D(10) unfolding drop by simp
    show "\<forall>c\<in>set (drop (Suc j) (bq_cells b)). lev c \<le> Suc (lev (bq_cells b ! Suc j))"
    proof
      fix c assume c: "c \<in> set (drop (Suc j) (bq_cells b))"
      then have "Suc j < length (bq_cells b)" by (cases "Suc j < length (bq_cells b)") auto
      then have "bq_cells b ! Suc j \<in> set (drop j (bq_cells b))" unfolding drop
        by (metis Cons_nth_drop_Suc list.set_intros)
      then have "lev idx \<le> lev (bq_cells b ! Suc j)" using queue_minimal [OF I] j(2) by simp
      moreover have "lev c \<le> Suc (lev idx)" using D(11) c j(2) unfolding drop by auto
      ultimately show "lev c \<le> Suc (lev (bq_cells b ! Suc j))" by linarith
    qed
  qed (use D(1-8) j(1) in \<open>simp_all\<close>)
qed

subsection \<open>The loop\<close>

definition found_nearest :: "int \<Rightarrow> int \<Rightarrow> int \<Rightarrow> (int \<Rightarrow> bool) \<Rightarrow> (int \<Rightarrow> int \<Rightarrow> bool) \<Rightarrow> int option \<Rightarrow> bfs \<Rightarrow> bool" where
  "found_nearest w h start T W found b \<longleftrightarrow> (case found of
     None \<Rightarrow> \<forall>k d c. walk_to W w start k d c \<longrightarrow> \<not> T c
   | Some c \<Rightarrow> T c \<and> 0 \<le> c \<and> c < int (length (bq_first b))
       \<and> (\<exists>k. walk_to W w start k (bq_first b ! nat c) c \<and> (\<forall>k' d' c'. walk_to W w start k' d' c' \<longrightarrow> T c' \<longrightarrow> k \<le> k')))"

lemma loop_exit:
  assumes I: "bfs_ok w h start T W lev (length (bq_cells b)) b"
  shows "found_nearest w h start T W None b"
proof -
  have "\<not> T c" if c: "walk_to W w start k d c" for k d c
  proof (cases "c \<in> set (bq_cells b)")
    case True
    then have "c \<in> set (take (length (bq_cells b)) (bq_cells b))" by simp
    then show ?thesis using bfs_okD(9) [OF I] by blast
  next
    case False
    then show ?thesis using walk_through_queue [OF I c] by simp
  qed
  then show ?thesis by (simp add: found_nearest_def)
qed

lemma loop_hit:
  assumes I: "bfs_ok w h start T W lev j b" and j: "j < length (bq_cells b)" "idx = bq_cells b ! j" and T: "T idx"
  shows "found_nearest w h start T W (Some idx) b"
proof -
  note D = bfs_okD [OF I]
  have i: "idx \<in> set (bq_cells b)" using j by simp
  have "lev idx \<le> k" if c: "walk_to W w start k d c" "T c" for k d c
  proof (cases "c \<in> set (bq_cells b)")
    case True
    then have "c \<in> set (drop j (bq_cells b))" using D(9) c(2) by (metis Un_iff append_take_drop_id set_append)
    then have "lev idx \<le> lev c" using queue_minimal [OF I] j(2) by simp
    then show ?thesis using D(8) True c(1) by (meson le_trans)
  next
    case False
    then show ?thesis using unvisited_far [OF I c(1)] j(2) by simp
  qed
  then show ?thesis using D(2,6,8) i T by (auto simp: found_nearest_def)
qed

lemma bfs_ok_head [simp]: "bfs_ok w h start T W lev j (b\<lparr>bq_head := k\<rparr>) = bfs_ok w h start T W lev j b"
  by (simp add: bfs_ok_def)

lemma bfs_loop_ok:
  assumes S: "search_ok target walk w h start T W" and dirs: "set dirs = {0, 1, 2, 3}"
  shows "bfs_ok w h start T W lev (bq_head b) b \<Longrightarrow>
    \<exists>found b'. bfs_loop target walk dirs w start b = Some (found, b') \<and> found_nearest w h start T W found b'"
proof (induction "bfs_measure b" arbitrary: b lev rule: less_induct)
  case less
  note I = less.prems
  show ?case
  proof (cases "bq_head b < length (bq_cells b)")
    case False
    then have "bq_head b = length (bq_cells b)" using bfs_okD(5) [OF I] by simp
    then show ?thesis using loop_exit [of w h start T W lev b] I by (simp add: bfs_loop.simps)
  next
    case True
    define idx where "idx = bq_cells b ! bq_head b"
    let ?b = "b\<lparr>bq_head := bq_head b + 1\<rparr>"
    have "0 \<le> idx" "idx < w * h" using bfs_okD(6) [OF I] True by (auto simp: idx_def)
    then have t: "target idx = Some (T idx)" using S by (simp add: search_ok_def)
    show ?thesis
    proof (cases "T idx")
      case hit: True
      then show ?thesis using loop_hit [of w h start T W lev "bq_head b" ?b idx] I True t
        by (simp add: bfs_loop.simps [of target walk dirs w start b] idx_def [symmetric] Let_def)
    next
      case miss: False
      obtain lev' b' new where b': "foldM (bfs_visit walk w start idx) dirs ?b = Some b'" "bfs_ok w h start T W lev' (bq_head b) b'"
          "bq_head b' = Suc (bq_head b)" "bq_cells b' = bq_cells b @ new"
          "\<forall>dir\<in>set dirs. \<forall>n. cell_step W w dir idx n \<longrightarrow> n \<in> set (bq_cells b')"
        using expand_ok [OF S, of lev "bq_head b" ?b idx dirs] I True dirs by (auto simp: idx_def)
      have "bfs_ok w h start T W lev' (bq_head b') b'" unfolding b'(3)
        using finished_ok [OF b'(2), of idx] True b'(4,5) miss dirs by (simp add: idx_def nth_append)
      moreover have "bfs_measure b' < bfs_measure b"
        using bfs_expand_measure [OF b'(1)] True by (auto simp: bfs_measure_def)
      ultimately show ?thesis using less.hyps b'(1) True t miss
        by (simp add: bfs_loop.simps [of target walk dirs w start b] idx_def [symmetric] Let_def)
    qed
  qed
qed

lemma bfs_start_ok:
  assumes S: "search_ok target walk w h start T W"
  shows "\<exists>b. bfs_start (w * h) start = Some b \<and> bq_head b = 0 \<and> bfs_ok w h start T W (\<lambda>_. 0) 0 b"
proof -
  have r: "0 \<le> start" "start < w * h" "w * h \<le> 4096" using S by (simp_all add: search_ok_def)
  then show ?thesis using walk_to.stay [of W w start]
    by (auto simp: bfs_start_def list_put_def bfs_push_def MAX_CELLS_def bfs_ok_def nth_list_update)
qed

text \<open>The two halves of a search together.\<close>

lemma search_nearest:
  assumes S: "search_ok target walk w h start T W" and dirs: "set dirs = {0, 1, 2, 3}"
  shows "\<exists>b found b'. bfs_start (w * h) start = Some b \<and> bfs_loop target walk dirs w start b = Some (found, b')
    \<and> found_nearest w h start T W found b'"
proof -
  obtain b where b: "bfs_start (w * h) start = Some b" "bq_head b = 0" "bfs_ok w h start T W (\<lambda>_. 0) 0 b"
    using bfs_start_ok [OF S] by blast
  then show ?thesis using bfs_loop_ok [OF S dirs, of "\<lambda>_. 0" b] by auto
qed

end
