(* ===== verification/Harvester_Turns.thy ===== *)
theory Harvester_Turns
  imports Harvester_Search "HOL-Library.Multiset"
begin

text \<open>
  The harvesting player stays inside its arrays. They have room for a map of 64 by 64 cells and a window of 9 by 9;
  on such a map every function of the player has a result, and its searches find the nearest cell.
\<close>

subsection \<open>The shape of the state\<close>

definition map_shaped :: "'a list list \<Rightarrow> bool" where
  "map_shaped g \<longleftrightarrow> length g = MAX_MAP_SIZE \<and> (\<forall>row\<in>set g. length row = MAX_MAP_SIZE)"

definition hv_ok :: "harvester \<Rightarrow> bool" where
  "hv_ok s \<longleftrightarrow> 0 < hv_width s \<and> hv_width s \<le> int MAX_MAP_SIZE \<and> 0 < hv_height s \<and> hv_height s \<le> int MAX_MAP_SIZE
     \<and> map_shaped (hv_known s) \<and> map_shaped (hv_terrain s) \<and> map_shaped (hv_resource s) \<and> map_shaped (hv_base s)
     \<and> length (hv_sensors s) = MAX_SENSORS"

lemma map_shapedD: "map_shaped g \<Longrightarrow> 0 \<le> y \<Longrightarrow> y < int MAX_MAP_SIZE \<Longrightarrow> nat y < length g \<and> length (g ! nat y) = MAX_MAP_SIZE"
  by (auto simp: map_shaped_def MAX_MAP_SIZE_def)

lemma grid_at_total:
  assumes "map_shaped g" "0 \<le> y" "y < int MAX_MAP_SIZE" "0 \<le> x" "x < int MAX_MAP_SIZE"
  shows "grid_at g y x = Some (g ! nat y ! nat x)"
  using map_shapedD [OF assms(1-3)] assms by (simp add: grid_at_def list_at_def nat_less_iff)

lemma grid_put_total:
  assumes "map_shaped g" "0 \<le> y" "y < int MAX_MAP_SIZE" "0 \<le> x" "x < int MAX_MAP_SIZE"
  shows "\<exists>g'. grid_put g y x v = Some g' \<and> map_shaped g'"
  using map_shapedD [OF assms(1-3)] assms
  by (auto simp: grid_put_def list_at_def list_put_def map_shaped_def nat_less_iff dest!: set_update_subset_insert [THEN subsetD])

lemma hv_start_ok:
  assumes "0 < gi_map_width g" "gi_map_width g \<le> 64" "0 < gi_map_height g" "gi_map_height g \<le> 64"
  shows "hv_ok (hv_start g)"
  using assms by (auto simp: hv_ok_def hv_start_def map_shaped_def MAX_MAP_SIZE_def word_less_def word_le_def)

lemma inBounds_range:
  "hv_ok s \<Longrightarrow> inBounds s x y \<Longrightarrow> 0 \<le> x \<and> x < int MAX_MAP_SIZE \<and> 0 \<le> y \<and> y < int MAX_MAP_SIZE"
  by (auto simp: hv_ok_def inBounds_def)

text \<open>The fields that a change of the others leaves alone.\<close>

lemma hv_ok_update [simp]:
  "hv_ok (s\<lparr>hv_home := a\<rparr>) = hv_ok s" "hv_ok (s\<lparr>hv_last_pos := b\<rparr>) = hv_ok s" "hv_ok (s\<lparr>hv_stuck_turns := c\<rparr>) = hv_ok s"
  "hv_ok (s\<lparr>hv_wait_turns := c\<rparr>) = hv_ok s" "hv_ok (s\<lparr>hv_scout_turns := c\<rparr>) = hv_ok s"
  "hv_ok (s\<lparr>hv_harvest_cycles := c\<rparr>) = hv_ok s" "hv_ok (s\<lparr>hv_dirs := d\<rparr>) = hv_ok s" "hv_ok (s\<lparr>hv_pending := b\<rparr>) = hv_ok s"
  "hv_ok (s\<lparr>hv_draws := n\<rparr>) = hv_ok s"
  by (simp_all add: hv_ok_def)

subsection \<open>The tests have a result\<close>

lemma isWalkableKnown_total:
  assumes "hv_ok s"
  shows "\<exists>b. isWalkableKnown s x y = Some b \<and> (b \<longrightarrow> inBounds s x y)"
  using inBounds_range [OF assms] assms by (auto simp: isWalkableKnown_def hv_ok_def grid_at_total)

lemma window_index:
  fixes sx sy side :: int
  assumes "0 \<le> sx" "sx < side" "0 \<le> sy" "sy < side" "side \<le> 9"
  shows "0 \<le> sy * side + sx \<and> sy * side + sx < int MAX_SENSORS"
proof -
  have "sy * side + sx < (sy + 1) * side" using assms by (simp add: algebra_simps)
  also have "\<dots> \<le> side * side" using assms by (intro mult_right_mono) auto
  also have "\<dots> \<le> 9 * 9" using assms by (intro mult_mono) auto
  finally show ?thesis using assms by (simp add: MAX_SENSORS_def)
qed

lemma sensor_at_total:
  assumes "hv_ok s" "0 \<le> i" "i < int MAX_SENSORS"
  shows "list_at (hv_sensors s) i = Some (hv_sensors s ! nat i)"
  using assms by (simp add: list_at_def hv_ok_def)

lemma isVisibleOtherUnit_total:
  assumes "hv_ok s" "radius \<le> 4"
  shows "\<exists>b. isVisibleOtherUnit s x y self_x self_y radius = Some b"
  using window_index [of "x - self_x + radius" "radius * 2 + 1" "y - self_y + radius"] sensor_at_total [OF assms(1)] assms(2)
  by (auto simp: isVisibleOtherUnit_def Let_def)

lemma cellHasVisibleUnit_total:
  assumes "hv_ok s" "radius \<le> 4"
  shows "\<exists>b. cellHasVisibleUnit s x y self_x self_y radius = Some b"
  using window_index [of "x - self_x + radius" "radius * 2 + 1" "y - self_y + radius"] sensor_at_total [OF assms(1)] assms(2)
  by (auto simp: cellHasVisibleUnit_def Let_def)

lemma isPathWalkable_total:
  assumes "hv_ok s" "radius \<le> 4"
  shows "\<exists>b. isPathWalkable s x y self_x self_y radius = Some b \<and> (b \<longrightarrow> inBounds s x y)"
  using isWalkableKnown_total [OF assms(1), of x y] isVisibleOtherUnit_total [OF assms, of x y self_x self_y]
  by (auto simp: isPathWalkable_def)

lemma first_true_total: "(\<And>x. x \<in> set xs \<Longrightarrow> \<exists>b. f x = Some b) \<Longrightarrow> \<exists>b. first_true f xs = Some b"
  by (induction xs) force+

lemma hasUnknownNeighbor_total:
  assumes "hv_ok s"
  shows "\<exists>b. hasUnknownNeighbor s x y = Some b"
  unfolding hasUnknownNeighbor_def
  by (rule first_true_total) (use inBounds_range [OF assms] assms in \<open>auto simp: Let_def hv_ok_def grid_at_total\<close>)

lemma hasKnownResource_total:
  assumes "hv_ok s"
  shows "\<exists>b. hasKnownResource s = Some b"
  unfolding hasKnownResource_def
  by (intro first_true_total) (use assms in \<open>auto simp: hv_ok_def grid_at_total\<close>)

lemma hasKnownBase_total:
  assumes "hv_ok s"
  shows "\<exists>b. hasKnownBase s = Some b"
  unfolding hasKnownBase_def
  by (intro first_true_total) (use assms in \<open>auto simp: hv_ok_def grid_at_total\<close>)

lemma index_split:
  fixes w h idx :: int
  assumes "0 < w" "0 \<le> idx" "idx < w * h"
  shows "0 \<le> idx mod w \<and> idx mod w < w \<and> 0 \<le> idx div w \<and> idx div w < h"
proof -
  have "w * (idx div w) < w * h" using mult_div_mod_eq [of w idx] pos_mod_sign [OF assms(1), of idx] assms(3) by linarith
  then show ?thesis using assms by (simp add: pos_imp_zdiv_nonneg_iff)
qed

lemma isTargetCell_total:
  assumes "hv_ok s" "0 \<le> idx" "idx < hv_width s * hv_height s"
  shows "\<exists>b. isTargetCell s mode tx ty idx = Some b"
proof -
  have w: "0 < hv_width s" using assms(1) by (simp add: hv_ok_def)
  note i = index_split [OF w assms(2,3)]
  have g: "idx div hv_width s < int MAX_MAP_SIZE" "idx mod hv_width s < int MAX_MAP_SIZE"
    using i assms(1) by (auto simp: hv_ok_def)
  show ?thesis
  proof (cases mode)
    case ModeToResource
    then show ?thesis using w i g assms(1) by (simp add: isTargetCell_def Let_def grid_at_total hv_ok_def)
  next
    case ModeToBase
    obtain k where "hasKnownBase s = Some k" using hasKnownBase_total [OF assms(1)] by blast
    then show ?thesis using ModeToBase w i g assms(1) by (simp add: isTargetCell_def Let_def grid_at_total hv_ok_def)
  qed (use w hasUnknownNeighbor_total [OF assms(1)] in \<open>simp_all add: isTargetCell_def Let_def\<close>)
qed

subsection \<open>The order of the directions\<close>

text \<open>The state but for the order and the count of draws.\<close>

definition same_world :: "harvester \<Rightarrow> harvester \<Rightarrow> bool" where
  "same_world s t \<longleftrightarrow> t = s\<lparr>hv_dirs := hv_dirs t, hv_draws := hv_draws t, hv_pending := hv_pending t\<rparr>"

text \<open>The order of the directions after some steps: still all four.\<close>

definition reordered :: "harvester \<Rightarrow> harvester \<Rightarrow> bool" where
  "reordered s t \<longleftrightarrow> mset (hv_dirs t) = mset [0, 1, 2, 3] \<and> same_world s t"

lemma shuffle_step_reordered:
  assumes "reordered s t" "i < 4"
  shows "reordered s (shuffle_step rand i t)"
proof -
  have l: "length (hv_dirs t) = 4" using assms(1) mset_eq_length [of "hv_dirs t" "[0, 1, 2, 3]"] by (simp add: reordered_def)
  have "unat (rand (hv_draws t)) mod Suc i < Suc i" by simp
  then have "unat (rand (hv_draws t)) mod Suc i < 4" using assms(2) by linarith
  then have "mset (hv_dirs (shuffle_step rand i t)) = mset (hv_dirs t)"
    using assms(2) l mset_swap [of "unat (rand (hv_draws t)) mod Suc i" "hv_dirs t" i] by (simp add: shuffle_step_def Let_def)
  moreover have "same_world s (shuffle_step rand i t)"
    using assms(1) by (cases s; cases t) (simp add: reordered_def same_world_def shuffle_step_def Let_def)
  ultimately show ?thesis using assms(1) by (simp add: reordered_def)
qed

lemma fillRandomDirOrder_reordered: "reordered s (fillRandomDirOrder rand s)"
proof -
  have "reordered s (s\<lparr>hv_dirs := [0, 1, 2, 3]\<rparr>)" by (simp add: reordered_def same_world_def)
  then show ?thesis by (simp add: fillRandomDirOrder_def shuffle_step_reordered)
qed

lemma fillRandomDirOrder_set: "set (hv_dirs (fillRandomDirOrder rand s)) = {0, 1, 2, 3}"
  using mset_eq_setD [of _ "[0, 1, 2, 3]"] fillRandomDirOrder_reordered [of s rand] unfolding reordered_def by fastforce


subsection \<open>The searches\<close>

lemma same_world_refl: "same_world s s"
  by (simp add: same_world_def)

lemma same_worldE:
  assumes "same_world s t"
  obtains d n p where "t = s\<lparr>hv_dirs := d, hv_draws := n, hv_pending := p\<rparr>"
  using assms unfolding same_world_def by blast

lemma same_world_tests:
  assumes "same_world s t"
  shows "inBounds t = inBounds s" "isWalkableKnown t = isWalkableKnown s" "isVisibleOtherUnit t = isVisibleOtherUnit s"
    "isPathWalkable t = isPathWalkable s" "hasUnknownNeighbor t = hasUnknownNeighbor s" "hasKnownBase t = hasKnownBase s"
    "hasKnownResource t = hasKnownResource s" "toIndex t = toIndex s" "hv_width t = hv_width s" "hv_height t = hv_height s"
    "hv_ok t = hv_ok s" "hv_sensors t = hv_sensors s"
proof -
  obtain d n p where t: "t = s\<lparr>hv_dirs := d, hv_draws := n, hv_pending := p\<rparr>" using same_worldE [OF assms] .
  show b: "inBounds t = inBounds s" unfolding t by (simp add: inBounds_def fun_eq_iff)
  show w: "isWalkableKnown t = isWalkableKnown s" using b unfolding t by (simp add: isWalkableKnown_def fun_eq_iff cong: if_cong)
  show v: "isVisibleOtherUnit t = isVisibleOtherUnit s" unfolding t by (simp add: isVisibleOtherUnit_def Let_def fun_eq_iff cong: if_cong)
  show "isPathWalkable t = isPathWalkable s" by (simp add: isPathWalkable_def fun_eq_iff w v cong: if_cong)
  show "hasUnknownNeighbor t = hasUnknownNeighbor s" using b unfolding t by (simp add: hasUnknownNeighbor_def Let_def fun_eq_iff cong: if_cong)
  show "hasKnownBase t = hasKnownBase s" "hasKnownResource t = hasKnownResource s" "toIndex t = toIndex s"
    "hv_width t = hv_width s" "hv_height t = hv_height s" "hv_ok t = hv_ok s" "hv_sensors t = hv_sensors s"
    unfolding t by (simp_all add: hasKnownBase_def hasKnownResource_def toIndex_def fun_eq_iff)
qed

lemma same_world_target:
  assumes "same_world s t"
  shows "isTargetCell t = isTargetCell s"
proof -
  obtain d n p where t: "t = s\<lparr>hv_dirs := d, hv_draws := n, hv_pending := p\<rparr>" using same_worldE [OF assms] .
  note e = same_world_tests(5,6) [OF assms, unfolded t]
  show ?thesis unfolding t by (intro ext) (simp add: isTargetCell_def Let_def e split: hv_mode.splits cong: if_cong)
qed

text \<open>The cells that can be walked on, and the cells that a search looks for, as the tests tell.\<close>

definition open_cell :: "harvester \<Rightarrow> int \<Rightarrow> int \<Rightarrow> int \<Rightarrow> int \<Rightarrow> int \<Rightarrow> bool" where
  "open_cell s self_x self_y radius x y \<longleftrightarrow> isPathWalkable s x y self_x self_y radius = Some True"

definition wanted_cell :: "harvester \<Rightarrow> hv_mode \<Rightarrow> int \<Rightarrow> int \<Rightarrow> int \<Rightarrow> bool" where
  "wanted_cell s mode tx ty c \<longleftrightarrow> isTargetCell s mode tx ty c = Some True"

lemma toIndex_range:
  assumes "hv_ok s" "inBounds s x y"
  shows "0 \<le> toIndex s x y \<and> toIndex s x y < hv_width s * hv_height s"
proof -
  have "y * hv_width s + x < (y + 1) * hv_width s" using assms(2) by (simp add: inBounds_def algebra_simps)
  also have "\<dots> \<le> hv_height s * hv_width s" using assms by (intro mult_right_mono) (auto simp: inBounds_def hv_ok_def)
  finally show ?thesis using assms by (simp add: toIndex_def inBounds_def mult.commute)
qed

lemma map_cells_bound:
  assumes "hv_ok s"
  shows "hv_width s * hv_height s \<le> 4096"
proof -
  have "hv_width s * hv_height s \<le> 64 * 64" using assms by (intro mult_mono) (auto simp: hv_ok_def MAX_MAP_SIZE_def)
  then show ?thesis by simp
qed

lemma search_ok_here:
  assumes "hv_ok s" "radius \<le> 4" "inBounds s x y"
    and "\<forall>c. 0 \<le> c \<longrightarrow> c < hv_width s * hv_height s \<longrightarrow> target c = Some (T c)"
  shows "search_ok target (\<lambda>x y. isPathWalkable s x y self_x self_y radius) (hv_width s) (hv_height s) (toIndex s x y)
    T (open_cell s self_x self_y radius)"
proof -
  have "isPathWalkable s u v self_x self_y radius = Some (open_cell s self_x self_y radius u v)"
    "open_cell s self_x self_y radius u v \<Longrightarrow> inBounds s u v" for u v
    using isPathWalkable_total [OF assms(1,2), of u v self_x self_y] by (auto simp: open_cell_def)
  then show ?thesis using toIndex_range [OF assms(1,3)] map_cells_bound [OF assms(1)] assms(1,4)
    by (simp add: search_ok_def hv_ok_def inBounds_def)
qed

text \<open>A direction is the first one of a shortest walk to a cell that is looked for; none is the answer if there is no walk.\<close>

definition shortest_way :: "harvester \<Rightarrow> int \<Rightarrow> int \<Rightarrow> int \<Rightarrow> int \<Rightarrow> (int \<Rightarrow> bool) \<Rightarrow> int \<Rightarrow> int option \<Rightarrow> bool" where
  "shortest_way s start self_x self_y radius T dir found \<longleftrightarrow>
     (let way = walk_to (open_cell s self_x self_y radius) (hv_width s) start
      in case found of
           Some c \<Rightarrow> T c \<and> (\<exists>k. way k dir c \<and> (\<forall>k' dir' c'. way k' dir' c' \<longrightarrow> T c' \<longrightarrow> k \<le> k'))
         | None \<Rightarrow> dir = -1 \<and> (\<forall>k' dir' c'. way k' dir' c' \<longrightarrow> \<not> T c'))"

lemma bfsDirToMode_nearest:
  assumes ok: "hv_ok s" "radius \<le> 4" "inBounds s x y"
  shows "\<exists>dir t found. bfsDirToMode rand x y self_x self_y radius mode tx ty s = Some (dir, t) \<and> same_world s t
    \<and> hv_pending t = (case found of Some c \<Rightarrow> (c mod hv_width s, c div hv_width s) | None \<Rightarrow> (-1, -1))
    \<and> shortest_way s (toIndex s x y) self_x self_y radius (wanted_cell s mode tx ty) dir found"
proof -
  let ?t = "fillRandomDirOrder rand s"
  have sw: "same_world s ?t" using fillRandomDirOrder_reordered by (simp add: reordered_def)
  note e = same_world_tests [OF sw] same_world_target [OF sw]
  have T: "\<forall>c. 0 \<le> c \<longrightarrow> c < hv_width s * hv_height s \<longrightarrow> isTargetCell s mode tx ty c = Some (wanted_cell s mode tx ty c)"
  proof (intro allI impI)
    fix c assume c: "0 \<le> c" "c < hv_width s * hv_height s"
    obtain r where "isTargetCell s mode tx ty c = Some r" using isTargetCell_total [OF ok(1) c] by blast
    then show "isTargetCell s mode tx ty c = Some (wanted_cell s mode tx ty c)" by (simp add: wanted_cell_def)
  qed
  obtain b found b' where b: "bfs_start (hv_width s * hv_height s) (toIndex s x y) = Some b"
      "bfs_loop (isTargetCell s mode tx ty) (\<lambda>x y. isPathWalkable s x y self_x self_y radius) (hv_dirs ?t) (hv_width s)
         (toIndex s x y) b = Some (found, b')"
      "found_nearest (hv_width s) (hv_height s) (toIndex s x y) (wanted_cell s mode tx ty) (open_cell s self_x self_y radius) found b'"
    using search_nearest [OF search_ok_here [OF ok T] fillRandomDirOrder_set] by blast
  have sw': "same_world s (?t\<lparr>hv_pending := p\<rparr>)" for p
    using sw by (auto elim!: same_worldE) (simp add: same_world_def)
  show ?thesis
  proof (cases found)
    case None
    then show ?thesis using b sw' by (intro exI [of _ "-1"] exI [of _ "?t\<lparr>hv_pending := (-1, -1)\<rparr>"] exI [of _ found])
        (simp add: bfsDirToMode_def Let_def e found_nearest_def shortest_way_def)
  next
    case (Some c)
    then show ?thesis using b sw'
      by (intro exI [of _ "bq_first b' ! nat c"] exI [of _ "?t\<lparr>hv_pending := (c mod hv_width s, c div hv_width s)\<rparr>"]
          exI [of _ found])
        (simp add: bfsDirToMode_def Let_def e found_nearest_def shortest_way_def list_at_def)
  qed
qed


lemma pointDir_nearest:
  assumes ok: "hv_ok s" "radius \<le> 4" "inBounds s x y"
  shows "\<exists>dir t found. pointDir rand x y tx ty self_x self_y radius s = Some (dir, t) \<and> same_world s t
    \<and> (dir = -1 \<or> shortest_way s (toIndex s x y) self_x self_y radius (\<lambda>c. c = toIndex s tx ty) dir found)"
proof -
  let ?t = "fillRandomDirOrder rand s"
  obtain b where b: "isPathWalkable s tx ty self_x self_y radius = Some b"
    using isPathWalkable_total [OF ok(1,2)] by blast
  have sw: "same_world s ?t" using fillRandomDirOrder_reordered by (simp add: reordered_def)
  note e = same_world_tests [OF sw]
  obtain q found q' where q: "bfs_start (hv_width s * hv_height s) (toIndex s x y) = Some q"
      "bfs_loop (\<lambda>idx. Some (idx = toIndex s tx ty)) (\<lambda>x y. isPathWalkable s x y self_x self_y radius) (hv_dirs ?t)
         (hv_width s) (toIndex s x y) q = Some (found, q')"
      "found_nearest (hv_width s) (hv_height s) (toIndex s x y) (\<lambda>c. c = toIndex s tx ty) (open_cell s self_x self_y radius) found q'"
    using search_nearest [OF search_ok_here [OF ok, of "\<lambda>c. Some (c = toIndex s tx ty)" "\<lambda>c. c = toIndex s tx ty" self_x self_y]
        fillRandomDirOrder_set [of rand s]] by auto
  show ?thesis
  proof (cases "inBounds s tx ty \<and> (b \<or> tx = self_x \<and> ty = self_y)")
    case False
    then show ?thesis using b same_world_refl by (intro exI [of _ "-1"] exI [of _ s]) (auto simp: pointDir_def)
  next
    case True
    then show ?thesis using b q sw
      by (intro exI [of _ "case found of None \<Rightarrow> -1 | Some c \<Rightarrow> bq_first q' ! nat c"] exI [of _ ?t] exI [of _ found])
        (auto simp: pointDir_def Let_def e found_nearest_def shortest_way_def list_at_def split: option.splits)
  qed
qed

lemma walk_to_dir: "walk_to W w start k dir c \<Longrightarrow> dir \<in> {-1, 0, 1, 2, 3}"
  by (induction rule: walk_to.induct) auto

lemma shortest_way_dir: "shortest_way s start self_x self_y radius T dir found \<Longrightarrow> dir \<in> {-1, 0, 1, 2, 3}"
  by (auto simp: shortest_way_def Let_def split: option.splits dest!: walk_to_dir)

subsection \<open>The window\<close>

lemma radiusOf_range: "radiusOf info = 2 \<or> radiusOf info = 4"
  by (simp add: radiusOf_def)

lemma localStepBlocked_total:
  assumes "length data = MAX_SENSORS" "radius = 2 \<or> radius = 4"
  shows "\<exists>b. localStepBlocked data radius dir = Some b"
  using assms by (auto simp: localStepBlocked_def Let_def list_at_def MAX_SENSORS_def)

lemma centerIsBase_total:
  assumes "length data = MAX_SENSORS" "radius = 2 \<or> radius = 4"
  shows "\<exists>b. centerIsBase data radius = Some b"
  using assms by (auto simp: centerIsBase_def list_at_def MAX_SENSORS_def)

lemma first_open_total:
  assumes "length data = MAX_SENSORS" "radius = 2 \<or> radius = 4"
  shows "\<exists>dir. first_open data radius dirs = Some dir \<and> dir \<in> insert (-1) (set dirs)"
proof (induction dirs)
  case (Cons dir dirs)
  obtain b where "localStepBlocked data radius dir = Some b" using localStepBlocked_total [OF assms] by blast
  then show ?case using Cons.IH by (cases b) auto
qed simp

text \<open>What a turn leaves alone: the size of the map and the shape of the arrays.\<close>

definition keeps :: "harvester \<Rightarrow> harvester \<Rightarrow> bool" where
  "keeps s t \<longleftrightarrow> hv_ok t \<and> hv_width t = hv_width s \<and> hv_height t = hv_height s"

lemma keeps_refl: "hv_ok s \<Longrightarrow> keeps s s"
  by (simp add: keeps_def)

lemma keeps_trans: "keeps s t \<Longrightarrow> keeps t u \<Longrightarrow> keeps s u"
  by (simp add: keeps_def)

lemma keeps_inBounds: "keeps s t \<Longrightarrow> inBounds t = inBounds s"
  by (simp add: keeps_def inBounds_def fun_eq_iff)

lemma same_world_keeps: "same_world s t \<Longrightarrow> hv_ok s \<Longrightarrow> keeps s t"
  by (simp add: keeps_def same_world_tests)

text \<open>Writing a cell of the four maps.\<close>

lemma write_cell_total:
  assumes "hv_ok s" "inBounds s x y"
  shows "\<exists>k t r b. grid_put (hv_known s) y x True = Some k \<and> grid_put (hv_terrain s) y x v = Some t
    \<and> (if p then grid_put (hv_resource s) y x True else Some (hv_resource s)) = Some r
    \<and> (if q then grid_put (hv_base s) y x True else Some (hv_base s)) = Some b
    \<and> keeps s (s\<lparr>hv_known := k, hv_terrain := t, hv_resource := r, hv_base := b\<rparr>)"
proof -
  note R = inBounds_range [OF assms]
  have "\<exists>k. grid_put (hv_known s) y x True = Some k \<and> map_shaped k"
    "\<exists>t. grid_put (hv_terrain s) y x v = Some t \<and> map_shaped t"
    "\<exists>r. (if p then grid_put (hv_resource s) y x True else Some (hv_resource s)) = Some r \<and> map_shaped r"
    "\<exists>b. (if q then grid_put (hv_base s) y x True else Some (hv_base s)) = Some b \<and> map_shaped b"
    using grid_put_total R assms(1) by (auto simp: hv_ok_def)
  then show ?thesis using assms(1) by (fastforce simp: keeps_def hv_ok_def)
qed

end
