(* ===== verification/Harvester_Runs.thy ===== *)
theory Harvester_Runs
  imports Harvester_Turns
begin

text \<open>
  A turn of the harvesting player, and its whole run, have a result on every map that fits into its arrays, whatever
  the messages of the other units say.
\<close>

subsection \<open>The messages and the window\<close>

lemma applyPackedCell_total:
  assumes "hv_ok s"
  shows "\<exists>t. applyPackedCell x y bits s = Some t \<and> keeps s t"
proof (cases "inBounds s x y")
  case True
  define v where "v = (if bits AND 3 = CELL_WATER then TERRAIN_WATER else if bits AND 3 = CELL_OBSTACLE then TERRAIN_OBSTACLE else TERRAIN_EMPTY)"
  obtain k t r b where e: "grid_put (hv_known s) y x True = Some k" "grid_put (hv_terrain s) y x v = Some t"
      "(if bits AND push_bit 2 1 \<noteq> 0 then grid_put (hv_resource s) y x True else Some (hv_resource s)) = Some r"
      "(if bits AND push_bit 3 1 \<noteq> 0 then grid_put (hv_base s) y x True else Some (hv_base s)) = Some b"
      "keeps s (s\<lparr>hv_known := k, hv_terrain := t, hv_resource := r, hv_base := b\<rparr>)"
    using write_cell_total [OF assms True] by metis
  then have "applyPackedCell x y bits s = Some (s\<lparr>hv_known := k, hv_terrain := t, hv_resource := r, hv_base := b\<rparr>)"
    unfolding applyPackedCell_def Let_def v_def [symmetric] e using True by simp
  then show ?thesis using e(5) by blast
qed (simp add: applyPackedCell_def assms keeps_refl)

lemma apply_cells_total:
  "3 * n \<le> length bytes \<Longrightarrow> hv_ok s \<Longrightarrow> \<exists>t. apply_cells bytes n s = Some t \<and> keeps s t"
proof (induction n arbitrary: bytes s)
  case 0
  then show ?case by (cases bytes rule: list.exhaust) (auto simp: keeps_refl)
next
  case (Suc n)
  then obtain x y bits rest where bytes: "bytes = x # y # bits # rest"
    by (auto simp: Suc_le_length_iff numeral_3_eq_3)
  obtain t where t: "applyPackedCell (uint x) (uint y) bits s = Some t" "keeps s t"
    using applyPackedCell_total [OF Suc.prems(2)] by blast
  then show ?case using Suc.IH [of rest t] Suc.prems(1) keeps_trans by (fastforce simp: bytes keeps_def)
qed

lemma process_message_total:
  assumes "hv_ok s"
  shows "\<exists>t. process_message msg s = Some t \<and> keeps s t"
proof -
  have "\<exists>t. apply_cells (drop 2 msg) (unat (msg ! 1)) s = Some t \<and> keeps s t" if "\<not> 2 + unat (msg ! 1) * 3 > length msg"
    using that by (intro apply_cells_total [OF _ assms]) simp
  then show ?thesis by (auto simp: process_message_def Let_def keeps_refl assms)
qed

lemma processMessages_total:
  assumes "hv_ok s"
  shows "\<exists>t. processMessages msgs s = Some t \<and> keeps s t"
  unfolding processMessages_def
  by (rule foldM_total [where I = "keeps s", OF keeps_refl [OF assms]]) (metis process_message_total keeps_trans keeps_def)

lemma window_cells_index:
  assumes "(i, gx, gy) \<in> set (window_cells p radius)" "radius \<le> 4"
  shows "0 \<le> i \<and> i < int MAX_SENSORS"
proof -
  obtain sx sy where "i = sy * (radius * 2 + 1) + sx" "0 \<le> sx" "sx < radius * 2 + 1" "0 \<le> sy" "sy < radius * 2 + 1"
    using assms(1) by (auto simp: window_cells_def Let_def)
  then show ?thesis using window_index [of sx "radius * 2 + 1" sy] assms(2) by simp
qed

lemma record_cell_total:
  assumes "hv_ok s" "c \<in> set (window_cells p radius)" "radius \<le> 4"
  shows "\<exists>t. record_cell c s = Some t \<and> keeps s t"
proof -
  obtain i gx gy where c: "c = (i, gx, gy)" by (cases c)
  have l: "list_at (hv_sensors s) i = Some (hv_sensors s ! nat i)"
    using sensor_at_total [OF assms(1)] window_cells_index [OF assms(2)[unfolded c] assms(3)] by simp
  show ?thesis
  proof (cases "inBounds s gx gy")
    case True
    show ?thesis
      using write_cell_total [OF assms(1) True, of "sd_terrain (hv_sensors s ! nat i)" "sd_is_resource (hv_sensors s ! nat i)"
          "sd_is_base (hv_sensors s ! nat i)"] keeps_refl [OF assms(1)]
      by (auto simp: record_cell_def c l)
  qed (simp add: record_cell_def c l keeps_refl assms(1))
qed

lemma updateMap_total:
  assumes "hv_ok s" "length sensed \<le> MAX_SENSORS"
  shows "\<exists>t. updateMap sensed p info s = Some t \<and> keeps s t"
proof -
  let ?s = "s\<lparr>hv_sensors := sensed @ drop (length sensed) (hv_sensors s)\<rparr>"
  have r: "radiusOf info \<le> 4" using radiusOf_range [of info] by auto
  have k: "keeps s ?s" using assms by (simp add: keeps_def hv_ok_def)
  have "\<exists>t. foldM record_cell (window_cells p (radiusOf info)) ?s = Some t \<and> keeps s t"
    by (rule foldM_total [where I = "keeps s", OF k])
      (metis record_cell_total [OF _ _ r] keeps_trans keeps_def)
  then show ?thesis using assms by (simp add: updateMap_def hv_ok_def)
qed

subsection \<open>The decisions\<close>

lemma in_tests_total:
  assumes "hv_ok s"
  shows "\<exists>b. hv_isInResource s p = Some b" "\<exists>b. hv_isInBase s p = Some b"
  using inBounds_range [OF assms] assms by (auto simp: hv_isInResource_def hv_isInBase_def hv_ok_def grid_at_total)

lemma chooseMode_total:
  assumes "hv_ok s"
  shows "\<exists>m. chooseMode info threshold in_resource s = Some m"
  using hasKnownResource_total [OF assms] by (auto simp: chooseMode_def)

text \<open>A search gives a direction, or \<open>-1\<close>.\<close>

lemma bfsDirToMode_total:
  assumes "hv_ok s" "radius \<le> 4" "inBounds s x y"
  shows "\<exists>dir t. bfsDirToMode rand x y self_x self_y radius mode tx ty s = Some (dir, t) \<and> same_world s t \<and> dir \<in> {-1, 0, 1, 2, 3}"
  using bfsDirToMode_nearest [OF assms] shortest_way_dir by meson

lemma pointDir_total:
  assumes "hv_ok s" "radius \<le> 4" "inBounds s x y"
  shows "\<exists>dir t. pointDir rand x y tx ty self_x self_y radius s = Some (dir, t) \<and> same_world s t \<and> dir \<in> {-1, 0, 1, 2, 3}"
proof -
  obtain dir t found where d: "pointDir rand x y tx ty self_x self_y radius s = Some (dir, t)" "same_world s t"
      "dir = -1 \<or> shortest_way s (toIndex s x y) self_x self_y radius (\<lambda>c. c = toIndex s tx ty) dir found"
    using pointDir_nearest [OF assms] by meson
  then show ?thesis using shortest_way_dir by blast
qed

text \<open>The first search, and the second one if that has found nothing.\<close>

lemma chooseDir_total:
  assumes ok: "hv_ok s" "radius \<le> 4" "inBounds s x y"
  shows "\<exists>dir t. chooseDir rand x y radius mode in_resource s = Some (dir, t) \<and> keeps s t \<and> hv_sensors t = hv_sensors s
    \<and> dir \<in> {-1, 0, 1, 2, 3}"
proof -
  define good where "good = (\<lambda>r. \<exists>dir t. r = Some (dir, t) \<and> keeps s t \<and> hv_sensors t = hv_sensors s \<and> dir \<in> {-1, 0, 1, 2, 3 :: int})"
  have kw: "keeps s u \<and> hv_sensors u = hv_sensors s" if "same_world s u" for u
    using same_world_keeps [OF that ok(1)] same_world_tests(12) [OF that] by simp
  have again: "good (bfsDirToMode rand x y x y radius m tx ty t)" "good (pointDir rand x y tx ty x y radius t)"
    if "keeps s t" "hv_sensors t = hv_sensors s" for m tx ty t
  proof -
    have t: "hv_ok t" "inBounds t x y" using that ok(3) keeps_inBounds by (auto simp: keeps_def)
    have kt: "keeps s u \<and> hv_sensors u = hv_sensors s" if "same_world t u" for u
      using keeps_trans [OF \<open>keeps s t\<close> same_world_keeps [OF that t(1)]] same_world_tests(12) [OF that] \<open>hv_sensors t = hv_sensors s\<close> by simp
    show "good (bfsDirToMode rand x y x y radius m tx ty t)" "good (pointDir rand x y tx ty x y radius t)"
      unfolding good_def using bfsDirToMode_total [OF t(1) ok(2) t(2)] pointDir_total [OF t(1) ok(2) t(2)] kt by meson+
  qed
  have then_search: "good (r \<bind> (\<lambda>(dir, t). if dir < 0 then f dir t else Some (dir, t)))"
    if r: "good r" and f: "\<And>dir t. dir \<in> {-1, 0, 1, 2, 3} \<Longrightarrow> keeps s t \<Longrightarrow> hv_sensors t = hv_sensors s \<Longrightarrow> good (f dir t)" for r f
  proof -
    obtain dir t where d: "r = Some (dir, t)" "keeps s t" "hv_sensors t = hv_sensors s" "dir \<in> {-1, 0, 1, 2, 3}"
      using r unfolding good_def by blast
    then show ?thesis using f [OF d(4,2,3)] by (auto simp: good_def)
  qed
  note base = again [OF keeps_refl [OF ok(1)] refl]
  have known: "good (hasKnownResource t \<bind> (\<lambda>known. if known then nearestResourceDir rand x y x y radius t else Some (dir, t)))"
    if d: "dir \<in> {-1, 0, 1, 2, 3}" "keeps s t" "hv_sensors t = hv_sensors s" for dir t
  proof -
    obtain b where "hasKnownResource t = Some b" using hasKnownResource_total d(2) unfolding keeps_def by blast
    then show ?thesis using again(1) [OF d(2,3)] d by (auto simp: nearestResourceDir_def good_def)
  qed
  have "good (chooseDir rand x y radius mode in_resource s)"
  proof (cases mode)
    case ModeToBase
    then show ?thesis unfolding chooseDir_def by (simp add: Let_def) (intro then_search base again)
  next
    case ModeToResource
    then show ?thesis unfolding chooseDir_def nearestResourceDir_def frontierDir_def by simp (intro then_search base again)
  next
    case ModeScout
    then show ?thesis using then_search [OF base(1) known] unfolding chooseDir_def by (simp add: frontierDir_def)
  next
    case ModeExplore
    then show ?thesis using base(1) keeps_refl [OF ok(1)] unfolding chooseDir_def by (auto simp: frontierDir_def good_def)
  qed
  then show ?thesis unfolding good_def .
qed


lemma shouldYieldToBlocker_total:
  assumes "hv_ok s" "radius \<le> 4"
  shows "\<exists>b. shouldYieldToBlocker s x y dir radius turn = Some b"
  using cellHasVisibleUnit_total [OF assms] unfolding shouldYieldToBlocker_def Let_def by (metis bind.bind_lunit)

lemma localFallbackDir_total:
  assumes "hv_ok s" "radius = 2 \<or> radius = 4"
  shows "\<exists>dir t. localFallbackDir rand radius s = Some (dir, t) \<and> keeps s t \<and> hv_sensors t = hv_sensors s \<and> dir \<in> {-1, 0, 1, 2, 3}"
proof -
  let ?t = "fillRandomDirOrder rand s"
  have sw: "same_world s ?t" using fillRandomDirOrder_reordered by (simp add: reordered_def)
  have "length (hv_sensors ?t) = MAX_SENSORS" using same_world_tests(12) [OF sw] assms(1) by (simp add: hv_ok_def)
  from first_open_total [OF this assms(2), of "hv_dirs ?t"]
  obtain dir where "first_open (hv_sensors ?t) radius (hv_dirs ?t) = Some dir" "dir \<in> {-1, 0, 1, 2, 3}"
    unfolding fillRandomDirOrder_set by blast
  then show ?thesis using same_world_keeps [OF sw assms(1)] same_world_tests(12) [OF sw] by (simp add: localFallbackDir_def Let_def)
qed

lemma avoidBlocker_total:
  assumes "hv_ok s" "radius = 2 \<or> radius = 4" "dir \<in> {-1, 0, 1, 2, 3}"
  shows "\<exists>dir' t. avoidBlocker rand x y radius turn dir s = Some (dir', t) \<and> keeps s t \<and> hv_sensors t = hv_sensors s
    \<and> dir' \<in> {-1, 0, 1, 2, 3}"
proof -
  have r: "radius \<le> 4" using assms(2) by auto
  obtain yields where yields: "(if dir \<ge> 0 then shouldYieldToBlocker s x y dir radius turn else Some False) = Some yields"
    using shouldYieldToBlocker_total [OF assms(1) r, of x y dir turn] by (cases "0 \<le> dir") auto
  define t where "t = (if yields \<and> hv_stuck_turns s \<ge> 1 then s\<lparr>hv_wait_turns := 2\<rparr> else s)"
  have t: "keeps s t" "hv_sensors t = hv_sensors s" "hv_ok t" using assms(1) by (simp_all add: t_def keeps_def)
  obtain blocked where blocked: "(if dir < 0 then Some True else localStepBlocked (hv_sensors t) radius dir) = Some blocked"
    using localStepBlocked_total [OF _ assms(2), of "hv_sensors t" dir] t(3) by (cases "dir < 0") (auto simp: hv_ok_def)
  obtain dir' u where u: "localFallbackDir rand radius t = Some (dir', u)" "keeps t u" "hv_sensors u = hv_sensors t" "dir' \<in> {-1, 0, 1, 2, 3}"
    using localFallbackDir_total [OF t(3) assms(2)] by blast
  have "avoidBlocker rand x y radius turn dir s =
      (if blocked \<and> hv_stuck_turns t \<ge> 2 \<and> hv_wait_turns t = 0 then Some (dir', u) else Some (dir, t))"
    unfolding avoidBlocker_def yields Let_def bind.bind_lunit t_def [symmetric] blocked u(1) by simp
  then show ?thesis using t u keeps_trans [OF t(1) u(2)] assms(3) by (cases "blocked \<and> hv_stuck_turns t \<ge> 2 \<and> hv_wait_turns t = 0") auto
qed

text \<open>The last step: a move is a move in one of the four directions, to a cell that is not seen to be blocked.\<close>

definition moves_ok :: "sensor_data list \<Rightarrow> int \<Rightarrow> guest_call list \<Rightarrow> bool" where
  "moves_ok data radius calls \<longleftrightarrow> (\<forall>c\<in>set calls. case c of
     CallMove dir \<Rightarrow> dir \<in> {0, 1, 2, 3} \<and> localStepBlocked data radius dir = Some False | _ \<Rightarrow> True)"

lemma moves_ok_append [simp]: "moves_ok data radius (xs @ ys) \<longleftrightarrow> moves_ok data radius xs \<and> moves_ok data radius ys"
  by (auto simp: moves_ok_def)

lemma moves_ok_no_move [simp]:
  "moves_ok data radius []" "moves_ok data radius (CallLog f args # cs) = moves_ok data radius cs"
  "moves_ok data radius (CallDeposit e # cs) = moves_ok data radius cs" "moves_ok data radius (CallSend m # cs) = moves_ok data radius cs"
  by (simp_all add: moves_ok_def)

lemma hv_act_total:
  assumes "hv_ok s" "radius = 2 \<or> radius = 4" "dir \<in> {-1, 0, 1, 2, 3}"
  shows "\<exists>calls u. hv_act t radius dir s = Some (calls, u) \<and> keeps s u \<and> hv_sensors u = hv_sensors s
    \<and> moves_ok (hv_sensors s) radius calls"
proof (cases "hv_wait_turns s > 0")
  case True
  then show ?thesis using assms(1) by (simp add: hv_act_def keeps_def)
next
  case False
  obtain blocked where blocked: "(if dir \<ge> 0 then localStepBlocked (hv_sensors s) radius dir else Some True) = Some blocked"
    using localStepBlocked_total [OF _ assms(2), of "hv_sensors s" dir] assms(1) by (cases "0 \<le> dir") (auto simp: hv_ok_def)
  have "moves_ok (hv_sensors s) radius [CallMove dir]" if "\<not> blocked"
    using that blocked assms(3) by (auto simp: moves_ok_def split: if_splits)
  then show ?thesis using False keeps_refl [OF assms(1)] unfolding hv_act_def blocked by (cases blocked) simp_all
qed

lemma deposit_step_keeps:
  assumes "hv_ok s" "deposit_step t in_base s = (calls, info, u)"
  shows "keeps s u \<and> hv_sensors u = hv_sensors s \<and> moves_ok data radius calls"
  using assms by (auto simp: deposit_step_def Let_def keeps_def split: if_splits)

subsection \<open>The packet\<close>

lemma packet_cells_total:
  assumes "hv_ok s" "\<forall>(i, gx, gy)\<in>set cs. 0 \<le> i \<and> i < int MAX_SENSORS"
  shows "\<exists>cells. packet_cells s cs acc = Some cells"
  using assms(2) by (induction cs arbitrary: acc) (auto simp: sensor_at_total [OF assms(1)])

lemma broadcastVisibleMap_total:
  assumes "hv_ok s"
  shows "\<exists>m. broadcastVisibleMap p info s = Some m"
proof -
  have "\<forall>(i, gx, gy)\<in>set (window_cells p (radiusOf info)). 0 \<le> i \<and> i < int MAX_SENSORS"
    using window_cells_index [of _ _ _ p "radiusOf info"] radiusOf_range [of info] by fastforce
  from packet_cells_total [OF assms this, of "[]"] show ?thesis by (auto simp: broadcastVisibleMap_def)
qed


subsection \<open>The turn and the run\<close>

text \<open>What the system calls promise for a turn: the unit is on the map, and its window has at most 81 cells.\<close>

definition turn_ok :: "harvester \<Rightarrow> turn_input \<Rightarrow> bool" where
  "turn_ok s t \<longleftrightarrow> inBounds s (uint (pi_x (ti_pos t))) (uint (pi_y (ti_pos t))) \<and> length (ti_sensed t) \<le> MAX_SENSORS"

lemma hv_turn_total:
  assumes "hv_ok s" "turn_ok s t"
  shows "\<exists>calls u. hv_turn rand t s = Some (calls, u) \<and> keeps s u \<and> moves_ok (hv_sensors u) (radiusOf (ti_info t)) calls"
proof -
  let ?p = "ti_pos t" and ?x = "uint (pi_x (ti_pos t))" and ?y = "uint (pi_y (ti_pos t))" and ?r = "radiusOf (ti_info t)"
  obtain s1 where s1: "processMessages (ti_messages t) s = Some s1" "keeps s s1"
    using processMessages_total [OF assms(1)] by blast
  define s2 where "s2 = (if hv_home s1 = None then s1\<lparr>hv_home := Some (?x, ?y)\<rparr> else s1)"
  have s2: "keeps s s2" "hv_ok s2" using s1(2) by (auto simp: s2_def keeps_def)
  obtain s3 where s3: "updateMap (ti_sensed t) ?p (ti_info t) s2 = Some s3" "keeps s2 s3"
    using updateMap_total [OF s2(2), of "ti_sensed t" ?p "ti_info t"] assms(2) unfolding turn_ok_def by blast
  define s4 where "s4 = note_position ?x ?y s3"
  have s4: "keeps s s4" using keeps_trans [OF s2(1) s3(2)] by (simp add: s4_def note_position_def keeps_def)
  then have ok4: "hv_ok s4" by (simp add: keeps_def)
  obtain center where center: "centerIsBase (hv_sensors s4) ?r = Some center"
    using centerIsBase_total [OF _ radiusOf_range] ok4 by (auto simp: hv_ok_def)
  obtain in_base where in_base: "(if center then Some True else hv_isInBase s4 ?p) = Some in_base"
    using in_tests_total(2) [OF ok4] by (cases center) auto
  obtain in_resource where in_resource: "hv_isInResource s4 ?p = Some in_resource" using in_tests_total(1) [OF ok4] by blast
  obtain deposits info s5 where d: "deposit_step t in_base s4 = (deposits, info, s5)" by (metis prod_cases3)
  note s5 = deposit_step_keeps [OF ok4 d]
  have ok5: "hv_ok s5" "keeps s s5" using s5 keeps_trans [OF s4] by (auto simp: keeps_def)
  obtain mode where mode: "chooseMode info ((capacityOf (ti_info t) * 9) div 10) in_resource s5 = Some mode"
    using chooseMode_total [OF ok5(1)] by blast
  have r: "?r \<le> 4" using radiusOf_range [of "ti_info t"] by auto
  have "inBounds s5 ?x ?y" using assms(2) keeps_inBounds [OF ok5(2)] by (simp add: turn_ok_def)
  from chooseDir_total [OF ok5(1) r this] obtain dir s6 where
    s6: "chooseDir rand ?x ?y ?r mode in_resource s5 = Some (dir, s6)" "keeps s5 s6" "hv_sensors s6 = hv_sensors s5" "dir \<in> {-1, 0, 1, 2, 3}"
    by blast
  obtain dir' s7 where s7: "avoidBlocker rand ?x ?y ?r (ti_turn t) dir s6 = Some (dir', s7)" "keeps s6 s7" "hv_sensors s7 = hv_sensors s6"
      "dir' \<in> {-1, 0, 1, 2, 3}"
    using avoidBlocker_total [OF _ radiusOf_range s6(4)] s6(2) unfolding keeps_def by blast
  define s8 where "s8 = (if mode = ModeScout \<and> hv_scout_turns s7 > 0 then s7\<lparr>hv_scout_turns := hv_scout_turns s7 - 1\<rparr> else s7)"
  have s8: "keeps s s8" "hv_ok s8" "hv_sensors s8 = hv_sensors s4"
    using s5 s6(2,3) s7(2,3) ok5(2) by (auto simp: s8_def keeps_def)
  obtain sent where sent: "broadcastVisibleMap ?p info s8 = Some sent" using broadcastVisibleMap_total [OF s8(2)] by blast
  obtain moves s9 where s9: "hv_act t ?r dir' s8 = Some (moves, s9)" "keeps s8 s9" "hv_sensors s9 = hv_sensors s8" "moves_ok (hv_sensors s8) ?r moves"
    using hv_act_total [OF s8(2) radiusOf_range s7(4)] by blast
  have "hv_turn rand t s =
      Some (deposits @ (case sent of None \<Rightarrow> [] | Some msg \<Rightarrow> [CallSend msg]) @ status_call t ?x ?y info mode dir' s8 @ moves, s9)"
    unfolding hv_turn_def Let_def s1(1) bind.bind_lunit s2_def [symmetric] s3(1) s4_def [symmetric] center in_base in_resource d
      prod.case mode s6(1) s7(1) s8_def [symmetric] sent s9(1) ..
  moreover have "keeps s s9" using keeps_trans [OF s8(1) s9(2)] .
  moreover have "moves_ok (hv_sensors s9) ?r
      (deposits @ (case sent of None \<Rightarrow> [] | Some msg \<Rightarrow> [CallSend msg]) @ status_call t ?x ?y info mode dir' s8 @ moves)"
    using s5 s8(3) s9(3,4) by (simp add: status_call_def split: option.split)
  ultimately show ?thesis by blast
qed

text \<open>A move of the run, without the window that it has been decided on.\<close>

lemma moves_ok_dir: "moves_ok data radius calls \<Longrightarrow> CallMove dir \<in> set calls \<Longrightarrow> dir \<in> {0, 1, 2, 3}"
  by (auto simp: moves_ok_def)

lemma hv_main_total:
  assumes "hv_ok s" "\<forall>t\<in>set ts. turn_ok s t"
  shows "\<exists>calls u. hv_main rand ts last_turn s = Some (calls, u) \<and> keeps s u \<and> (\<forall>dir. CallMove dir \<in> set calls \<longrightarrow> dir \<in> {0, 1, 2, 3})"
  using assms
proof (induction ts arbitrary: s last_turn)
  case Nil
  then show ?case by (simp add: keeps_refl)
next
  case (Cons t ts)
  obtain calls u where u: "hv_turn rand t s = Some (calls, u)" "keeps s u" "moves_ok (hv_sensors u) (radiusOf (ti_info t)) calls"
    using hv_turn_total [OF Cons.prems(1)] Cons.prems(2) by (meson list.set_intros(1))
  have "turn_ok u = turn_ok s" using keeps_inBounds [OF u(2)] by (simp add: turn_ok_def fun_eq_iff)
  then obtain calls' v where v: "hv_main rand ts (ti_turn t) u = Some (calls', v)" "keeps u v"
      "\<forall>dir. CallMove dir \<in> set calls' \<longrightarrow> dir \<in> {0, 1, 2, 3}"
    using Cons.IH [of u "ti_turn t"] u(2) Cons.prems(2) by (auto simp: keeps_def)
  obtain calls0 v0 where v0: "hv_main rand ts last_turn s = Some (calls0, v0)" "keeps s v0"
      "\<forall>dir. CallMove dir \<in> set calls0 \<longrightarrow> dir \<in> {0, 1, 2, 3}"
    using Cons.IH [of s last_turn] Cons.prems by auto
  have "\<forall>dir. CallMove dir \<in> set (calls @ calls') \<longrightarrow> dir \<in> {0, 1, 2, 3}"
    using moves_ok_dir [OF u(3)] v(3) unfolding set_append by blast
  then show ?case using u(1) v(1) keeps_trans [OF u(2) v(2)] v0 by (cases "ti_turn t = last_turn") simp_all
qed

end
