(* ===== verification/Harvester_Sharing.thy ===== *)
theory Harvester_Sharing
  imports Harvester_Runs
begin

text \<open>
  The map is shared: a unit that receives the packet of another one records on its map what it would have recorded
  if it had stood there and seen the window itself.
\<close>

subsection \<open>One cell\<close>

definition legal_terrain :: "u8 \<Rightarrow> bool" where
  "legal_terrain t \<longleftrightarrow> t = TERRAIN_EMPTY \<or> t = TERRAIN_WATER \<or> t = TERRAIN_OBSTACLE"

text \<open>The two lower bits of a packed cell are its terrain, the next two its flags.\<close>

lemma packCellBits_decode:
  "packCellBits cell AND 3 = encodedTerrain (sd_terrain cell)"
  "packCellBits cell AND push_bit 2 1 \<noteq> 0 \<longleftrightarrow> sd_is_resource cell"
  "packCellBits cell AND push_bit 3 1 \<noteq> 0 \<longleftrightarrow> sd_is_base cell"
  by (auto simp: packCellBits_def encodedTerrain_def CELL_EMPTY_def CELL_WATER_def CELL_OBSTACLE_def)

lemma decode_encoded:
  assumes "legal_terrain t"
  shows "(if encodedTerrain t = CELL_WATER then TERRAIN_WATER else if encodedTerrain t = CELL_OBSTACLE then TERRAIN_OBSTACLE
    else TERRAIN_EMPTY) = t"
  using assms by (auto simp: legal_terrain_def encodedTerrain_def CELL_EMPTY_def CELL_WATER_def CELL_OBSTACLE_def
      TERRAIN_EMPTY_def TERRAIN_WATER_def TERRAIN_OBSTACLE_def)

lemma record_is_apply:
  assumes "list_at (hv_sensors s) i = Some cell" "sd_visible cell" "inBounds s gx gy" "legal_terrain (sd_terrain cell)"
  shows "record_cell (i, gx, gy) s = applyPackedCell gx gy (packCellBits cell) s"
  unfolding record_cell_def applyPackedCell_def Let_def packCellBits_decode decode_encoded [OF assms(4)]
  using assms(1-3) by simp

text \<open>The window takes no part in it.\<close>

lemma map_option_bind_out: "map_option h (m \<bind> f) = m \<bind> (\<lambda>x. map_option h (f x))"
  by (cases m) simp_all

lemma sensors_last:
  "s\<lparr>hv_sensors := d, hv_known := k, hv_terrain := t, hv_resource := r, hv_base := b\<rparr> =
   s\<lparr>hv_known := k, hv_terrain := t, hv_resource := r, hv_base := b, hv_sensors := d\<rparr>"
  by simp

lemma applyPackedCell_sensors:
  "applyPackedCell x y bits (s\<lparr>hv_sensors := d\<rparr>) = map_option (\<lambda>t. t\<lparr>hv_sensors := d\<rparr>) (applyPackedCell x y bits s)"
proof (cases "inBounds s x y")
  case True
  then have "inBounds (s\<lparr>hv_sensors := d\<rparr>) x y" by (simp add: inBounds_def)
  moreover have "hv_known (s\<lparr>hv_sensors := d\<rparr>) = hv_known s" "hv_terrain (s\<lparr>hv_sensors := d\<rparr>) = hv_terrain s"
    "hv_resource (s\<lparr>hv_sensors := d\<rparr>) = hv_resource s" "hv_base (s\<lparr>hv_sensors := d\<rparr>) = hv_base s" by simp_all
  ultimately show ?thesis using True unfolding applyPackedCell_def Let_def map_option_bind_out sensors_last
    by (simp only: not_True_eq_False if_False map_option_bind_out option.map)
next
  case False
  then have "\<not> inBounds (s\<lparr>hv_sensors := d\<rparr>) x y" by (simp add: inBounds_def)
  then show ?thesis using False by (simp add: applyPackedCell_def)
qed

definition apply_packed :: "u8 \<times> u8 \<times> u8 \<Rightarrow> harvester \<Rightarrow> harvester option" where
  "apply_packed c s = (case c of (x, y, bits) \<Rightarrow> applyPackedCell (uint x) (uint y) bits s)"

lemma apply_packed_eq: "apply_packed (x, y, bits) s = applyPackedCell (uint x) (uint y) bits s"
  by (simp add: apply_packed_def)

lemma apply_packed_sensors:
  "foldM apply_packed cells (s\<lparr>hv_sensors := d\<rparr>) = map_option (\<lambda>t. t\<lparr>hv_sensors := d\<rparr>) (foldM apply_packed cells s)"
proof (induction cells arbitrary: s)
  case (Cons c cells)
  obtain x y bits where c: "c = (x, y, bits)" by (cases c)
  show ?case using Cons.IH by (cases "applyPackedCell (uint x) (uint y) bits s") (simp_all add: c apply_packed_eq applyPackedCell_sensors)
qed simp

subsection \<open>The packet\<close>

definition packed_cell :: "harvester \<Rightarrow> int \<times> int \<times> int \<Rightarrow> u8 \<times> u8 \<times> u8" where
  "packed_cell s c = (case c of (i, gx, gy) \<Rightarrow> (word_of_int gx, word_of_int gy, packCellBits (hv_sensors s ! nat i)))"

definition seen_cell :: "harvester \<Rightarrow> int \<times> int \<times> int \<Rightarrow> bool" where
  "seen_cell s c = (case c of (i, gx, gy) \<Rightarrow> sd_visible (hv_sensors s ! nat i) \<and> inBounds s gx gy)"

lemma packet_cells_eq:
  assumes "hv_ok s" "\<forall>(i, gx, gy)\<in>set cs. 0 \<le> i \<and> i < int MAX_SENSORS" "length acc + length cs \<le> 127"
  shows "packet_cells s cs acc = Some (acc @ map (packed_cell s) (filter (seen_cell s) cs))"
  using assms(2,3)
proof (induction cs arbitrary: acc)
  case (Cons c cs)
  obtain i gx gy where c: "c = (i, gx, gy)" by (cases c)
  have l: "list_at (hv_sensors s) i = Some (hv_sensors s ! nat i)" using sensor_at_total [OF assms(1)] Cons.prems(1) by (simp add: c)
  show ?case
  proof (cases "seen_cell s c")
    case True
    then show ?thesis using Cons.IH [of "acc @ [packed_cell s c]"] Cons.prems by (simp add: c l seen_cell_def packed_cell_def)
  next
    case False
    then show ?thesis using Cons.IH [of acc] Cons.prems by (auto simp: c l seen_cell_def)
  qed
qed simp

lemma apply_cells_eq:
  "apply_cells (concat (map (\<lambda>(x, y, bits). [x, y, bits]) cells)) (length cells) s = foldM apply_packed cells s"
proof (induction cells arbitrary: s)
  case (Cons c cells)
  obtain x y bits where c: "c = (x, y, bits)" by (cases c)
  have "apply_cells (concat (map (\<lambda>(x, y, bits). [x, y, bits]) cells)) (length cells) = foldM apply_packed cells"
    by (rule ext) (rule Cons.IH)
  then show ?case by (simp add: c apply_packed_eq)
qed simp

lemma packet_length: "length (concat (map (\<lambda>(x, y, bits). [x, y, bits]) cells)) = 3 * length cells"
  by (induction cells) auto

lemma process_packet:
  assumes "length cells \<le> 127"
  shows "process_message (packet_bytes cells) s = foldM apply_packed cells s"
proof -
  have "unat (word_of_nat (length cells) :: byte) = length cells"
    using assms by (simp add: unsigned_of_nat take_bit_nat_eq_self)
  then show ?thesis using apply_cells_eq [of cells s]
    by (simp add: process_message_def packet_bytes_def Let_def packet_length)
qed

lemma window_length:
  assumes "radius = 2 \<or> radius = 4"
  shows "length (window_cells p radius) \<le> 81"
  using assms by (auto simp: window_cells_def Let_def length_concat o_def sum_list_triv)

text \<open>Recording the window is applying the packed cells.\<close>

lemma foldM_record:
  assumes "hv_sensors t = hv_sensors s" "hv_width t = hv_width s" "hv_height t = hv_height s" "hv_ok s"
    "\<forall>(i, gx, gy)\<in>set cs. 0 \<le> i \<and> i < int MAX_SENSORS" "\<forall>cell\<in>set (hv_sensors s). legal_terrain (sd_terrain cell)"
  shows "foldM record_cell cs t = foldM apply_packed (map (packed_cell s) (filter (seen_cell s) cs)) t"
  using assms(1-3,5)
proof (induction cs arbitrary: t)
  case (Cons c cs)
  obtain i gx gy where c: "c = (i, gx, gy)" by (cases c)
  then have i: "0 \<le> i" "i < int MAX_SENSORS" using Cons.prems(4) by auto
  let ?cell = "hv_sensors s ! nat i"
  have l: "list_at (hv_sensors t) i = Some ?cell" using sensor_at_total [OF assms(4) i] Cons.prems(1) by simp
  have b: "inBounds t = inBounds s" using Cons.prems(2,3) by (simp add: inBounds_def fun_eq_iff)
  have "?cell \<in> set (hv_sensors s)" using i assms(4) by (simp add: hv_ok_def)
  then have legal: "legal_terrain (sd_terrain ?cell)" using assms(6) by blast
  show ?case
  proof (cases "seen_cell s c")
    case False
    then have "record_cell c t = Some t" by (simp add: c record_cell_def l b seen_cell_def)
    then show ?thesis using False Cons.IH [OF Cons.prems(1-3)] Cons.prems(4) by simp
  next
    case True
    then have v: "sd_visible ?cell" "inBounds s gx gy" by (simp_all add: c seen_cell_def)
    have "uint (word_of_int gx :: u8) = gx" "uint (word_of_int gy :: u8) = gy"
      using inBounds_range [OF assms(4) v(2)] by (simp_all add: uint_word_of_int MAX_MAP_SIZE_def)
    then have "record_cell c t = apply_packed (packed_cell s c) t"
      using record_is_apply [OF l v(1) _ legal] v(2) by (simp add: c apply_packed_eq packed_cell_def b)
    moreover have "hv_sensors u = hv_sensors t \<and> hv_width u = hv_width t \<and> hv_height u = hv_height t"
      if "apply_packed (packed_cell s c) t = Some u" for u
      using that by (auto simp: packed_cell_def c apply_packed_eq applyPackedCell_def Let_def bind_eq_Some_conv split: if_splits)
    ultimately show ?thesis using True Cons.IH Cons.prems
      by (cases "apply_packed (packed_cell s c) t") simp_all
  qed
qed simp

lemma map_is_shared:
  assumes s: "hv_ok s" "\<forall>cell\<in>set (hv_sensors s). legal_terrain (sd_terrain cell)"
    and r: "hv_ok r" "hv_width r = hv_width s" "hv_height r = hv_height s"
    and sent: "broadcastVisibleMap p info s = Some (Some msg)"
  shows "\<exists>u. process_message msg r = Some u \<and> updateMap (hv_sensors s) p info r = Some (u\<lparr>hv_sensors := hv_sensors s\<rparr>)"
proof -
  let ?cs = "window_cells p (radiusOf info)"
  define cells where "cells = map (packed_cell s) (filter (seen_cell s) ?cs)"
  have cs: "\<forall>(i, gx, gy)\<in>set ?cs. 0 \<le> i \<and> i < int MAX_SENSORS"
    using window_cells_index [of _ _ _ p "radiusOf info"] radiusOf_range [of info] by fastforce
  have len: "length ?cs \<le> 81" by (rule window_length [OF radiusOf_range])
  have "packet_cells s ?cs [] = Some cells" using packet_cells_eq [OF s(1) cs, of "[]"] len by (simp add: cells_def)
  then have msg: "msg = packet_bytes cells" using sent by (auto simp: broadcastVisibleMap_def split: if_splits)
  have "length cells \<le> 127" using le_trans [OF length_filter_le [of "seen_cell s" ?cs] len] by (simp add: cells_def)
  then have pm: "process_message msg r = foldM apply_packed cells r" by (simp add: msg process_packet)
  obtain u where u: "process_message msg r = Some u" using process_message_total [OF r(1)] by blast
  have "updateMap (hv_sensors s) p info r = foldM record_cell ?cs (r\<lparr>hv_sensors := hv_sensors s\<rparr>)"
    using s(1) r(1) by (simp add: updateMap_def hv_ok_def)
  also have "\<dots> = foldM apply_packed cells (r\<lparr>hv_sensors := hv_sensors s\<rparr>)"
    unfolding cells_def using foldM_record [OF _ _ _ s(1) cs s(2), of "r\<lparr>hv_sensors := hv_sensors s\<rparr>"] r(2,3) by simp
  finally show ?thesis using u pm by (simp add: apply_packed_sensors)
qed

subsection \<open>Maps that do not fit\<close>

text \<open>On a map of more than 64 columns a cell beyond them is on the map and outside of the arrays.\<close>

lemma wide_map_leaves_arrays:
  assumes "map_shaped (hv_known s)" "64 < hv_width s" "0 < hv_height s"
  shows "applyPackedCell 64 0 bits s = None"
  using assms map_shapedD [OF assms(1), of 0]
  by (simp add: applyPackedCell_def inBounds_def grid_put_def list_at_def list_put_def MAX_MAP_SIZE_def)

subsection \<open>A sample\<close>

definition sample_info :: game_info_struct where
  "sample_info = (info_of_rules default_rules)\<lparr>gi_map_width := 64, gi_map_height := 64\<rparr>"

text \<open>A known map without obstacles, with a resource at the right of the corner.\<close>

definition sample_harvester :: harvester where
  "sample_harvester = (hv_start sample_info)\<lparr>hv_known := replicate 64 (replicate 64 True),
     hv_resource := (False # True # replicate 62 False) # replicate 63 (replicate 64 False)\<rparr>"

lemma sample_harvester_ok: "hv_ok sample_harvester" "inBounds sample_harvester 0 0"
  by (auto simp: sample_harvester_def sample_info_def hv_start_def hv_ok_def map_shaped_def MAX_MAP_SIZE_def inBounds_def)

lemma sample_harvester_cells:
  "open_cell sample_harvester 0 0 2 1 0" "wanted_cell sample_harvester ModeToResource (-1) (-1) 1"
  "\<not> wanted_cell sample_harvester ModeToResource (-1) (-1) 0" "\<not> wanted_cell sample_harvester ModeToResource (-1) (-1) 64"
  "\<not> open_cell sample_harvester 0 0 2 0 (-1)" "\<not> open_cell sample_harvester 0 0 2 (-1) 0"
  by code_simp+

text \<open>The only shortest way to it begins to the right.\<close>

lemma sample_way:
  assumes "shortest_way sample_harvester 0 0 0 2 (wanted_cell sample_harvester ModeToResource (-1) (-1)) dir found"
  shows "dir = 1"
proof -
  let ?W = "open_cell sample_harvester 0 0 2" and ?T = "wanted_cell sample_harvester ModeToResource (-1) (-1)"
  have w: "hv_width sample_harvester = 64" by (simp add: sample_harvester_def hv_start_def sample_info_def)
  have "cell_step ?W 64 1 0 1" using sample_harvester_cells(1)
    by (simp add: cell_step_def DIR_X_OFFSET_OF_def DIR_Y_OFFSET_OF_def DIR_UP_def DIR_RIGHT_def DIR_DOWN_def DIR_LEFT_def)
  then have "walk_to ?W 64 0 (Suc 0) (if 0 = (0 :: nat) then 1 else -1) 1" by (intro walk_to.step [OF walk_to.stay]) simp_all
  then have one: "walk_to ?W 64 0 1 1 1" by simp
  obtain c k where c: "?T c" "walk_to ?W 64 0 k dir c" "k \<le> 1"
    using assms one sample_harvester_cells(2) w by (cases found) (auto simp: shortest_way_def Let_def)
  show ?thesis
  proof (cases "k = 0")
    case True
    then show ?thesis using c sample_harvester_cells(3) by (auto elim: walk_to_0E)
  next
    case False
    then have "walk_to ?W 64 0 (Suc 0) dir c" using c by (simp add: le_Suc_eq)
    note d = walk_to_1 [OF this]
    have "\<not> cell_step ?W 64 0 0 c" "\<not> cell_step ?W 64 3 0 c" "cell_step ?W 64 2 0 c \<Longrightarrow> c = 64"
      using sample_harvester_cells(5,6)
      by (simp_all add: cell_step_def DIR_X_OFFSET_OF_def DIR_Y_OFFSET_OF_def DIR_UP_def DIR_RIGHT_def DIR_DOWN_def DIR_LEFT_def)
    then have "dir \<noteq> 0" "dir \<noteq> 3" "dir \<noteq> 2" using d(2) c(1) sample_harvester_cells(4) by blast+
    then show ?thesis using d(1) by blast
  qed
qed

text \<open>A turn in the corner, with an empty window and a message that is cut.\<close>

definition sample_turn_input :: turn_input where
  "sample_turn_input = \<lparr>ti_turn = 1, ti_pos = \<lparr>pi_x = 0, pi_y = 0, pi_reserved = [0, 0]\<rparr>,
     ti_info = \<lparr>di_id = 1, di_upgrades = 0, di_health = 100, di_energy = 0\<rparr>, ti_messages = [[1, 2, 0, 0, 0]],
     ti_sensed = replicate 25 blank_sensor, ti_deposit = 0, ti_info_after = \<lparr>di_id = 1, di_upgrades = 0, di_health = 100, di_energy = 0\<rparr>\<rparr>"

lemma sample_turn_input_ok: "turn_ok (hv_start sample_info) sample_turn_input"
  by (simp add: turn_ok_def sample_turn_input_def hv_start_def sample_info_def inBounds_def MAX_SENSORS_def)

text \<open>A window in which one cell is visible: water.\<close>

definition sample_observer :: harvester where
  "sample_observer = sample_harvester\<lparr>hv_sensors := blank_sensor\<lparr>sd_visible := True, sd_terrain := TERRAIN_WATER\<rparr> # replicate 80 blank_sensor\<rparr>"

lemma sample_observer_ok:
  "hv_ok sample_observer" "\<forall>cell\<in>set (hv_sensors sample_observer). legal_terrain (sd_terrain cell)"
  "hv_width sample_harvester = hv_width sample_observer" "hv_height sample_harvester = hv_height sample_observer"
  using sample_harvester_ok(1)
  by (auto simp: sample_observer_def hv_ok_def MAX_SENSORS_def legal_terrain_def blank_sensor_def TERRAIN_EMPTY_def)

lemma sample_observer_sends:
  "broadcastVisibleMap \<lparr>pi_x = 3, pi_y = 3, pi_reserved = [0, 0]\<rparr> \<lparr>di_id = 1, di_upgrades = 0, di_health = 100, di_energy = 0\<rparr> sample_observer
     = Some (Some [1, 1, 1, 1, 1])"
  by code_simp

end
