(* ===== verification/Spec2Isabelle.thy ===== *)
theory Spec2Isabelle
  imports Samples Map_Generate World_Start Harvester_Sharing
begin

text \<open>
  A verification development for core-rtt, a turn-based strategy game in which two players' programs
  run inside RISC-V sandboxes, and whose matches are recorded as replays. The program is C++: options
  (\<open>src/cli/parser.cpp\<close>) and map files (\<open>src/tilemap.cpp\<close>) or the map generator (with \<open>src/noise.cpp\<close>) give a
  world (\<open>src/cli/world_loader.cpp\<close>); a match (\<open>src/world.cpp\<close>, \<open>src/entity.cpp\<close>, \<open>src/runtime.cpp\<close>) is
  stepped turn by turn by a headless or an interactive runner (\<open>src/cli\<close>); each turn becomes a replay record
  (\<open>src/replay.cpp\<close>) that a writer puts into a file (\<open>src/cli/replay_writer.cpp\<close>) and a user interface shows
  (\<open>src/plain_ui.cpp\<close>, \<open>src/tui.cpp\<close>); a replay is decoded again from a stream (\<open>src/stream_adapter.cpp\<close>,
  \<open>src/buffer.cpp\<close>). The players' programs are written against a C library (\<open>corelib\<close>).

  \<^bold>\<open>Conventions.\<close> Integers have the width of the source (\<open>8 word\<close> to \<open>64 word\<close>), except positions, which are
  \<open>int\<close>: the invariant keeps every stored position on the map, whose sides fit 8 bits, so \<open>int16_t\<close> arithmetic
  on them does not wrap. Doubles (noise) are reals. A definition returns \<open>None\<close> where an assertion of the source
  fails or its behaviour is undefined (an index out of range, a freed object read, a signed overflow), and an error
  of the program is a value (\<open>action_result\<close>, \<open>stopped_reason\<close>, \<open>decode_error\<close>, \<open>cli_error\<close>, a map error). Units
  and bullets live in two heaps of the world record, so that the raw pointers of tiles, of the players' arrays and
  of the owning vectors are addresses, and erasing an element frees its address. There is one exception to \<open>None\<close> for
  undefined behaviour: \<open>perlin_new\<close> doubles the permutation of the noise, although \<open>src/noise.cpp:40\<close> inserts a
  range of a vector into that vector, which the library leaves undefined. Debug and release builds differ in
  the heavy assertions: the flag \<open>so_ndebug\<close> of an adapter (\<open>pf_ndebug\<close> of a platform) says which build is meant.

  \<^bold>\<open>Parameters.\<close> What is not code of the repository: the RISC-V machine (\<open>machine_ops\<close>, the library libriscv),
  the compressor (\<open>zstd_ops\<close>, whose documented contract is the locale \<open>zstd_stream\<close>), \<open>std::shuffle\<close> and the
  distributions of the standard library (assumed to permute and to stay in their range), seeds from
  \<open>std::random_device\<close>, the files that can be read and written (\<open>platform\<close>), the values that argparse finds on
  the command line (\<open>cli_args\<close>), the moments of a termination signal, and what the FTXUI library does in the
  terminal thread between two operations of the main thread (a schedule of events, redraws and layouts, with the
  size of the terminal at each of them).

  \<^bold>\<open>Theories.\<close>
    \<^item> \<open>Prelude\<close>: word names, the fail-fast option, \<open>foldM\<close> and \<open>traverse\<close> with their rules. \<open>Text_Stream\<close>: the
      \<open>std::istringstream\<close> that the text loader uses, decimal text.
    \<^item> \<open>Game_Rules\<close>, \<open>Xoroshiro\<close>, \<open>Tile_Codec\<close>, \<open>Entity\<close>, \<open>Tilemap\<close>, \<open>Replay_Log\<close>: the data of
      the files with those names, with validation, seed text, the generator and the text of log lines.
    \<^item> \<open>Stream_Adapter\<close> and \<open>Buffer\<close>: the two adapters, the interface \<open>stream_adapter\<close> that both keep
      (a stream shows a list of bytes of which a prefix is buffered) with an interpretation for each, and the
      readers and writers over any adapter. \<open>list_ops\<close> is the reference stream, a plain list.
    \<^item> \<open>Map_Binary\<close>, \<open>Map_Text\<close>, \<open>Map_Load\<close>: the loaders and printers of map files. \<open>Map_Text_Sound\<close> and
      \<open>Map_Text_Roundtrip\<close>: what the text loader accepts, and that printed maps read back. \<open>Noise\<close> and
      \<open>Map_Generate\<close>: Perlin noise with its calibration, and the generator.
    \<^item> \<open>World\<close>: the world record, queries, logs, verdicts, spawning, the constructor. \<open>World_Inv\<close>: the
      invariant \<open>winv\<close> and one lemma for each kind of change to it. \<open>World_New\<close> and \<open>World_Start\<close>: the constructor
      establishes it, on generated maps too.
    \<^item> \<open>World_Bullets\<close>, \<open>World_Movement\<close> (with \<open>World_Movement_Rules\<close>, the rules of the source comment as
      an inductive relation, and \<open>World_Movement_Exec\<close>, that the algorithm realises them), \<open>World_Base\<close>
      (capture, energy, base actions) and \<open>World_Actions\<close> (their branches, the interface \<open>base_action\<close>).
    \<^item> \<open>Vision\<close>: the search of \<open>Unit::step\<close>, against reachability.
    \<^item> \<open>Runtime\<close> and \<open>Runtime_Safe\<close>: the system calls, their dispatch and the run loop; the interfaces
      \<open>runtime_env\<close> and \<open>syscall_table\<close>, under which every handler keeps the invariant.
    \<^item> \<open>World_Turn\<close>, \<open>World_Step\<close>: one turn with the programs of both players.
    \<^item> \<open>Replay_Codec\<close>, \<open>Replay_Roundtrip\<close>, \<open>Replay_Safe\<close>, \<open>Replay_Stream\<close>, \<open>Replay_Playback\<close>: records,
      encoders and decoders; what an encoder writes; that a decoder over any adapter equals the one over a
      list and is total; the decoder as a state machine and the playback loop. \<open>Replay_World\<close>: the records
      of a running match.
    \<^item> \<open>Cli_Options\<close>, \<open>World_Loader\<close>: options with every check, and the world that they describe.
      \<open>Replay_Writer\<close>: the raw and the zstd writer, with the interface \<open>chunk_writer\<close>. \<open>Draw_Judge\<close>: the judges,
      with the interface \<open>bounded_judge\<close>. \<open>Headless\<close>: the headless runner as a whole.
    \<^item> \<open>Plain_UI\<close>: the interface of a user interface (a record of its operations, with the contracts \<open>steady_ui\<close>
      and \<open>staged_ui\<close>) and the plain one. \<open>Live_Mode\<close>: the two modes of the interactive program over any user
      interface; a live run takes the rounds of a headless one. \<open>Tui\<close>: the drawing functions of the terminal.
      \<open>Tui_Runner\<close>: the terminal as a shared state with two threads, its reachable states (\<open>tui_step\<close>), its
      invariant. \<open>Interactive\<close>: the program as a whole.
    \<^item> \<open>Corelib_Memory\<close>, \<open>Corelib_Format\<close>, \<open>Corelib_Calls\<close>: the C library of the players: strings and memory,
      the formatter against its documentation (and the conversions that it gets wrong), the system calls together with the handlers that they reach.
    \<^item> \<open>Harvester\<close>: the sample player \<open>corelib/example/harvester.c\<close>, its static variables as a record and a turn as a
      function from the answers of the system calls to the calls that it makes. \<open>Harvester_Search\<close>: the
      invariant of its breadth-first search and that it finds a nearest cell. \<open>Harvester_Turns\<close> and
      \<open>Harvester_Runs\<close>: every function has a result on a map that fits into the arrays. \<open>Harvester_Sharing\<close>:
      the packets by which units share their maps.
    \<^item> \<open>Samples\<close>: the concrete worlds, records and scripts that the witnesses use.

  \<^bold>\<open>Fuel.\<close> The queues of the movement and vision searches and the loops of the library are proved to end. A
  simulation makes at most \<open>max_cycles\<close> system calls, because every one takes a cycle of that budget. The loops of
  the runners have a number of rounds; with the dynamic judge 10000 rounds are shown to be enough. The playback loop
  runs as long as the user lets it: its fuel is the number of times \<open>shouldStop\<close> is false. A wait for a terminal
  that is never told to exit has no result.

  \<^bold>\<open>Not modelled.\<close> The sleep between two steps of the interactive modes, the texts that exceptions carry (their
  values are), splitting \<open>argv\<close> (argparse), what FTXUI paints from the elements it is given, the mutex itself (an
  operation under it is one step), the start-up code \<open>_start\<close> of the C library and the allocator behind its heap
  calls (libriscv), the other sample players and self-tests of \<open>corelib\<close>, the JavaScript tools and the Rust guest
  library. They are listed in the manifest with their reasons.
\<close>

section \<open>A match\<close>

text \<open>C1: One turn of a running match (\<open>World::step\<close> with the programs of both players, whatever they
  do, and any generator), if it has a result, keeps the invariant of a match. Units: a living unit stands on the
  tile and in the array entry that refer to it, a tile or an entry that refers to a unit refers to one that is
  there, and no two units of a player share an id. Bullets: a bullet in flight stands on the tile that refers to
  it. (The converse does not hold of the code: a tile may keep a pointer to a bullet that is gone, the defect at
  \<open>src/world.cpp:189\<close>, and a turn that dereferences it has no result.) Living units are in bounds of health and
  capacity, logs and messages have legal sizes, quotas and capture counters are bounded. The turn advances the
  tick by one, a victory it declares has a winner, and the map keeps its size.\<close>

theorem turn_keeps_invariant:
  assumes "uniform_ok uniform_int" "machine_ok mo" "match_ok m" "match_step mo uniform_int m = Some m'"
  shows "match_ok m' \<and> map_size (mt_world m') = map_size (mt_world m)
    \<and> (\<not> gameOver (mt_world m) \<longrightarrow>
         w_tick (mt_world m') = w_tick (mt_world m) + 1 \<and> verdict_ok (mt_world m'))"
  using runtime_env.match_step_ok [OF runtime_envI [OF assms(1,2)] assms(3,4)] by simp

theorem turn_keeps_invariant_witness:
  "\<exists>m'. match_step script_ops first_choice sample_match = Some m' \<and> match_ok m' \<and> w_tick (mt_world m') = 1"
proof -
  obtain m' where m': "match_step script_ops first_choice sample_match = Some m'" "w_tick (mt_world m') = 1"
    using sample_turn by auto
  then show ?thesis
    using turn_keeps_invariant [OF first_choice_ok script_machine_ok sample_match_ok m'(1)] by simp
qed

text \<open>C2: Whatever the options say and whatever the files hold, a world that \<open>createWorldFromOptions\<close> builds is a
  legal start of a match: the invariant holds, nobody has won, the tick is 0. Its map comes from a binary
  file, a text file or the generator. A generated map has the requested size.\<close>

theorem created_world_is_legal:
  assumes "platform_ok pf" "createWorldFromOptions pf p = Some (Inr w)"
  shows "match_ok (new_match w ent :: 'm match) \<and> w_reason w = Ongoing \<and> w_tick w = 0
    \<and> (po_map_file p = [] \<longrightarrow> map_size w = (pos_of_int (po_width p), pos_of_int (po_height p)))"
  using createWorld_legal [where 'm = 'm, OF assms, of ent] by simp

theorem created_world_is_legal_witness:
  "createWorldFromOptions sample_platform sample_options = Some (Inr loaded_world)
     \<and> match_ok (new_match loaded_world (\<lambda>_. \<lparr>seed_s0 = 0, seed_s1 = 0\<rparr>) :: script match)"
  using created_world_is_legal [OF sample_platform_ok sample_created, of "\<lambda>_. \<lparr>seed_s0 = 0, seed_s1 = 0\<rparr>"] sample_created
  by blast

text \<open>C3: With options that the parser has accepted, no map file, sides of at least 16, a number of resource
  clusters whose tenfold fits an \<open>int\<close>, and four ELF files in place, a world of the requested size is built,
  whatever the seeds and the draws are.\<close>

theorem accepted_options_create_world:
  assumes "platform_ok pf" "parseOptions device mode args = Inr p"
    "16 \<le> po_width p" "16 \<le> po_height p" "po_map_file p = []"
    "INT_MIN \<le> po_resources p * 10" "po_resources p * 10 \<le> INT_MAX"
    "\<forall>path\<in>{po_p1_base p, po_p1_unit p, po_p2_base p, po_p2_unit p}. elf_file pf path"
  shows "\<exists>w. createWorldFromOptions pf p = Some (Inr w) \<and> map_size w = (po_width p, po_height p)"
  by (rule createWorld_total [OF assms(1) parseOptions_ok [OF assms(2)] assms(3-8)])

theorem accepted_options_create_world_witness:
  "\<exists>p w. parseOptions \<lparr>seed_s0 = 3, seed_s1 = 4\<rparr> Headless (Some no_args) = Inr p
     \<and> createWorldFromOptions sample_platform p = Some (Inr w) \<and> map_size w = (64, 64)"
proof -
  note p = no_options
  have "\<exists>w. createWorldFromOptions sample_platform unset_options = Some (Inr w)
      \<and> map_size w = (po_width unset_options, po_height unset_options)"
    by (rule accepted_options_create_world [OF sample_platform_ok p])
      (simp_all add: unset_option_values INT_MIN_def INT_MAX_def sample_elf)
  then show ?thesis using p by (auto simp: unset_option_values)
qed

text \<open>C4: Options that the parser accepts are consistent: on any map of legal size their rules pass
  \<open>GameRules::validate\<close>, the sizes are within bounds, there is a seed exactly when no map file is given, at
  most one draw rule is chosen, and playback, replay output, compression and worker mode do not contradict one
  another. No rule value is changed when it is narrowed.\<close>

theorem accepted_options_consistent:
  assumes "parseOptions device mode (Some a) = Inr p"
  shows "options_ok mode p \<and> values_of_rules (po_rules p) = rule_values_of a"
  using parseOptions_ok [OF assms] parseOptions_values [OF assms] by blast

theorem accepted_options_consistent_witness:
  "options_ok Headless sample_options \<and> po_rules sample_options = default_rules"
  using accepted_options_consistent [OF sample_options] sample_option_values by blast

text \<open>C5: What the headless runner writes is what playback shows, from the options to the screen. Let a world
  be built from the options, on a map of at most 255 by 255 and 4096 tiles, and let the run end without a thrown
  error, whatever the programs do and whenever signals come. If no tick has more than 64 log entries, then the
  file, decompressed where compression was asked for, publishes exactly the header, the ticks and the end marker
  of the run when it is read back through \<open>IstreamAdapter\<close> in a debug or release build, with exit code 0; the
  ticks are numbered from one upwards.\<close>

theorem headless_output_plays_back:
  assumes "platform_ok (he_platform env)" "machine_ok mo"
    "zstd_stream (he_zstd env) valid taken_of given_of pending decompress"
    "os_data (he_stdout env) = []" "\<forall>path s. he_open env path = Some s \<longrightarrow> os_data s = []"
    "createWorldFromOptions (he_platform env) p = Some (Inr w)"
    "tm_width (w_map w) \<le> 255" "tm_height (w_map w) \<le> 255" "tm_width (w_map w) * tm_height (w_map w) \<le> 4096"
    "runHeadlessLiveMode mo env ent fuel p = Some res" "hl_records res = Some (h, ts, e)"
    "\<forall>t\<in>set ts. length (fr_logs t) \<le> 64" "length ts < rounds"
  shows "\<exists>out bytes. hl_written res = Some out
    \<and> (if po_output_zstd p then decompress (os_data out) else Some (os_data out)) = Some bytes
    \<and> runPlayback (istream_ops ndebug) eof good rounds (istream_adapter_new (istream_of bytes))
        = Some (PubHeader h # map PubTick ts @ [PubEnd e], 0)
    \<and> map fr_tick ts = map (\<lambda>i. word_of_nat (Suc i)) [0..<length ts]"
proof -
  have env: "runtime_env (pf_uniform (he_platform env)) mo"
    using assms(1,2) by (intro runtime_envI) (simp_all add: platform_ok_def)
  note O = runtime_env.runHeadless_output [OF env assms(1,3) refl assms(4-12)]
  have "ia_view (istream_adapter_new (istream_of (replay_bytes h ts e))) (replay_bytes h ts e @ []) 0 0"
    using istream_adapter_new_view [of "replay_bytes h ts e"] by simp
  from istream.runPlayback_bytes [OF _ _ _ assms(13) this] O show ?thesis by blast
qed

theorem headless_output_plays_back_witness:
  "\<exists>res h t e out bytes. runHeadlessLiveMode refusing_ops sample_env (\<lambda>_. \<lparr>seed_s0 = 0, seed_s1 = 0\<rparr>) 2 sample_options = Some res
     \<and> hl_written res = Some out \<and> os_data out = bytes
     \<and> runPlayback (istream_ops False) (\<lambda>_. False) (\<lambda>_. True) 2 (istream_adapter_new (istream_of bytes))
         = Some ([PubHeader h, PubTick t, PubEnd e], 0)
     \<and> length (fr_logs t) = 8 \<and> fr_tick t = 1"
proof -
  obtain res h t e where r: "runHeadlessLiveMode refusing_ops sample_env (\<lambda>_. \<lparr>seed_s0 = 0, seed_s1 = 0\<rparr>) 2 sample_options = Some res"
    "hl_records res = Some (h, [t], e)" "length (fr_logs t) = 8"
    using loaded_run by blast
  have z: "zstd_stream (he_zstd sample_env) store_valid fst (fst \<circ> snd) (length \<circ> snd \<circ> snd) unstore"
    using store.zstd_stream_axioms by (simp add: sample_env_def)
  have env: "he_platform sample_env = sample_platform" "os_data (he_stdout sample_env) = []" "he_open sample_env = (\<lambda>_. None)"
    by (simp_all add: sample_env_def ostream_new_def)
  have "\<exists>out bytes. hl_written res = Some out
      \<and> (if po_output_zstd sample_options then unstore (os_data out) else Some (os_data out)) = Some bytes
      \<and> runPlayback (istream_ops False) (\<lambda>_. False) (\<lambda>_. True) 2 (istream_adapter_new (istream_of bytes))
          = Some (PubHeader h # map PubTick [t] @ [PubEnd e], 0)
      \<and> map fr_tick [t] = map (\<lambda>i. word_of_nat (Suc i)) [0..<length [t]]"
    by (rule headless_output_plays_back [where w = loaded_world, OF _ refusing_machine_ok z _ _ _ _ _ _ r(1,2)])
      (use sample_platform_ok sample_created loaded_size env r(3) in simp_all)
  then show ?thesis using r sample_option_values(8) by auto
qed

text \<open>C6: The zstd writer loses nothing, for every compressor that keeps the promises of the library: chunks
  that were written without an error and finished without an error decompress to their concatenation. Both
  loops return, whatever the stream does.\<close>

theorem zstd_writer_recovers:
  assumes "zstd_stream z valid taken_of given_of pending decompress"
    "zstd_writer_new z level stream = Inr s" "os_data stream = []"
  shows "\<exists>r s'. write_chunks (zstd_writer z) chunks s = Some (r, s')
    \<and> (r = Inr () \<longrightarrow> decompress (os_data (zw_stream s')) = Some (concat chunks))"
  using chunk_writer.write_chunks_recovers [OF zstd_stream.zstd_chunk_writer [OF assms(1)]]
    zstd_stream.writer_new_ok [OF assms] by fastforce

theorem zstd_writer_recovers_witness:
  "\<exists>s r s'. zstd_writer_new store_ops 12 (ostream_new None True) = Inr s
     \<and> write_chunks (zstd_writer store_ops) [[1, 2], [], [3]] s = Some (r, s')
     \<and> (r = Inr () \<longrightarrow> unstore (os_data (zw_stream s')) = Some [1, 2, 3])"
proof -
  obtain s where s: "zstd_writer_new store_ops 12 (ostream_new None True) = Inr s"
    by (simp add: zstd_writer_new_def validateZstdCompressionLevel_def store_ops_def)
  from zstd_writer_recovers [OF store.zstd_stream_axioms s, of "[[1, 2], [], [3]]"] s
  show ?thesis by (simp add: ostream_new_def)
qed



section \<open>The interactive program\<close>



text \<open>C9: The terminal does not disturb a live match on a map of at most 255 by 255 (the sizes that the header of a
  replay, which is what the terminal shows, can hold). Whenever live mode with the plain user interface goes to its
  end on such a map, live mode with the terminal does so too, for every behaviour of the second thread (keys that move the view,
  redraws at any size of the terminal, layouts, at any moment) that leaves the match alone until the end marker has
  been published and quits then: it plays the same match, writes the same file, throws nothing, returns 0, and no
  drawing function has failed on the way.\<close>

theorem terminal_does_not_disturb:
  assumes "platform_ok pf" "createWorldFromOptions pf p = Some (Inr w)" "tm_width (w_map w) \<le> 255" "tm_height (w_map w) \<le> 255"
    "runLiveMode mo pf z open_out ent fuel plain_ui_ops p plain_ui_new = Some res" "lv_records res = Some (h, ts, e)"
    "\<forall>k<2 * length ts + 3. quiet (sched k)" "Event key \<in> set (sched (2 * length ts + 3))" "quits key"
  shows "\<exists>res'. runLiveMode mo pf z open_out ent fuel (tui_ops sched) p tui_new = Some res'
    \<and> lv_records res' = Some (h, ts, e) \<and> lv_written res' = lv_written res \<and> lv_error res' = None \<and> lv_code res' = 0
    \<and> \<not> tu_faulted (lv_ui res') \<and> rg_phase (tu_progress (lv_ui res')) = PhaseEnd"
proof -
  have "\<forall>w h. createWorldFromOptions pf p = Some (Inr w) \<longrightarrow> header_fromWorld w = Some h \<longrightarrow> fits_screen h"
    using created_header_fits [OF assms(1)] assms(2-4) by auto
  from plain.runLive_undisturbed [where sched = sched, OF assms(5,6) this assms(7-9)]
  show ?thesis by (auto simp: tui_stage_def tui_inv_def)
qed

theorem terminal_does_not_disturb_witness:
  "\<exists>res'. runLiveMode refusing_ops sample_platform store_ops (\<lambda>_. Some (ostream_new None True)) (\<lambda>_. \<lparr>seed_s0 = 0, seed_s1 = 0\<rparr>) 2
      (tui_ops (\<lambda>k. if k = 5 then [Event Custom, Render 80 25 80, Event Escape] else [Event ArrowDown, Render 20 10 20, Event Custom]))
      live_options tui_new = Some res' \<and> lv_code res' = 0 \<and> \<not> tu_faulted (lv_ui res')"
proof -
  obtain res h t e where r: "runLiveMode refusing_ops sample_platform store_ops (\<lambda>_. Some (ostream_new None True)) (\<lambda>_. \<lparr>seed_s0 = 0, seed_s1 = 0\<rparr>) 2
      plain_ui_ops live_options plain_ui_new = Some res" "lv_records res = Some (h, [t], e)"
    using loaded_live_run by blast
  show ?thesis
    using terminal_does_not_disturb [OF sample_platform_ok live_option_values(4) _ _ r,
        of "\<lambda>k. if k = 5 then [Event Custom, Render 80 25 80, Event Escape] else [Event ArrowDown, Render 20 10 20, Event Custom]" Escape]
      loaded_size by (auto simp: quiet_def quits_def)
qed

text \<open>C10: The display catches up. In every state of the terminal that the operations and events of a run can
  reach, while the second thread runs, the event that the main thread posts after each publication makes the display
  show the header, the tick and the end marker that were published last, however many publications were missed in
  between; and if the tick is new, its log entries (up to the 120 that are kept) end the history of the log panel.\<close>

theorem terminal_catches_up:
  assumes "tui_reachable t" "tu_joinable t" "\<not> tu_exited t" "\<not> tu_faulted t" "\<not> tu_stop_requested t"
    "t' = run_action (Event Custom) t"
  shows "ps_progress (tu_playback t') = tu_progress t
    \<and> (rg_phase (tu_progress t) \<noteq> PhaseHeader \<longrightarrow> fr_tick (rg_current_tick (tu_progress t)) \<noteq> currentTick (tu_playback t)
        \<longrightarrow> length (fr_logs (rg_current_tick (tu_progress t))) \<le> 120
        \<longrightarrow> (\<exists>earlier. ps_log_history (tu_playback t') = earlier @ fr_logs (rg_current_tick (tu_progress t))))"
  using custom_shows_published [OF assms(1-5)] custom_appends_logs [OF assms(1-5)]
  by (simp add: assms(6) max_log_history_def)

theorem terminal_catches_up_witness:
  "\<exists>earlier. ps_log_history (tu_playback (run_action (Event Custom) shown_tui)) = earlier @ fr_logs sample_tick
     \<and> ps_progress (tu_playback (run_action (Event Custom) shown_tui)) = tu_progress shown_tui"
  using terminal_catches_up [OF shown_tui_ok(1-5) refl] shown_tui_ok(6-) by auto

text \<open>C11: Asking the terminal to stop ends the wait for it. From every state that satisfies the invariant of the
  terminal, after \<open>requestStop\<close> the wait returns 0 and the thread has been joined, provided that the event that
  \<open>requestStop\<close> posts is delivered during the wait, whatever else happens before and after it.\<close>

theorem stop_ends_the_wait:
  assumes "tui_inv t" "Event Custom \<in> set (sched (tu_moment t + 1))"
  shows "\<exists>t'. ui_wait (tui_ops sched) (ui_requestStop (tui_ops sched) t) = Some (0, t') \<and> \<not> tu_joinable t'"
  by (rule stop_request_ends_wait [where sched = sched, OF assms])

theorem stop_ends_the_wait_witness:
  "\<exists>t'. ui_wait (tui_ops (\<lambda>_. [Render 80 24 80, Event ArrowUp, Event Custom])) (ui_requestStop
      (tui_ops (\<lambda>_. [Render 80 24 80, Event ArrowUp, Event Custom])) shown_tui) = Some (0, t') \<and> \<not> tu_joinable t'"
  by (rule stop_ends_the_wait) (use shown_tui_ok(9) in simp_all)

text \<open>C12: The log panel shows the end of the log history: all lines of all entries in order, every first line of an
  entry plain and the others dimmed, cut to the last ones that fit in the rows of the panel (none where there is no
  row, a placeholder where there is no entry). The search of \<open>collectVisibleLogLines\<close>, which goes backwards and
  stops early, always has a result and computes exactly that.\<close>

theorem log_panel_shows_last_lines:
  "collectVisibleLogLines ps rows = Some (visible_log_lines (ps_log_history ps) rows)
   \<and> renderLogPanel ps rows = Some (Window (Text ''Runtime logs'')
       (Decorated (Decorated (Vbox (map log_line_element (visible_log_lines (ps_log_history ps) rows))) Yframe) ReflectLogBox))"
  by (simp add: renderLogPanel_def collectVisibleLogLines_spec)

section \<open>The phases of a turn\<close>

text \<open>C13: The movement phase does what its rules say. On a well-formed world it cannot fail; destroyed units
  are removed; every remaining unit either makes its intended move, when no rule cancels it (impassable
  target, a bullet on it, two units with one target, an idle or oncoming occupant, an occupant whose own
  move is cancelled), or stays; and the world is well formed again with nothing else changed.\<close>

theorem movement_follows_the_rules:
  assumes "winv w"
  shows "\<exists>w1 w'. cleanup_units w = Some w1 \<and> processUnitMovement w = Some w'
    \<and> winv w' \<and> settled w' \<and> move_frame w1 w'
    \<and> (\<forall>a u. a \<in> set (w_units w1) \<longrightarrow> w_uheap w1 a = Some u \<longrightarrow>
          (\<forall>p. moves w1 a p \<longrightarrow>
             w_uheap w' a = Some (u\<lparr>u_pending_move := None, u_x := fst p, u_y := snd p\<rparr>))
          \<and> ((\<forall>p. \<not> moves w1 a p) \<longrightarrow> w_uheap w' a = Some (u\<lparr>u_pending_move := None\<rparr>)))"
  using processUnitMovement_correct [OF assms] by blast

theorem movement_follows_the_rules_witness:
  "\<exists>w'. processUnitMovement marching_world = Some w' \<and> winv w' \<and> settled w'"
  using movement_follows_the_rules [OF turn_invD(1) [OF marching_world_ok]] by blast

text \<open>C14: The queue that propagates cancelled moves ends and computes the least closed set: a move stays
  active exactly when no chain of dependencies leads from it to a cancelled move.\<close>

theorem cancellation_is_reachability:
  assumes "length blocked_by = length active0"
    "\<forall>j<length blocked_by. \<forall>i\<in>set (blocked_by ! j). i < length active0"
  shows "\<exists>active. cancel_loop blocked_by (filter (\<lambda>i. \<not> active0 ! i) [0..<length active0]) active0 = Some active
    \<and> length active = length active0
    \<and> (\<forall>i<length active0. active ! i \<longleftrightarrow> \<not> killed blocked_by active0 i)"
  by (rule cancel_loop_correct [OF assms])

theorem cancellation_is_reachability_witness:
  "\<not> killed [[1], [2], [], []] [True, True, True, True] 3 \<and> killed [[1], [2], [], []] [False, True, True, True] 2"
proof -
  have a: "cancel_loop [[1], [2], [], []] (filter (\<lambda>i. \<not> [True, True, True, True] ! i) [0..<length [True, True, True, True]])
      [True, True, True, True] = Some [True, True, True, True]" by code_simp
  have b: "cancel_loop [[1], [2], [], []] (filter (\<lambda>i. \<not> [False, True, True, True] ! i) [0..<length [False, True, True, True]])
      [False, True, True, True] = Some [False, False, False, True]" by code_simp
  have len: "length [[1], [2], [], []] = length [b, True, True, True]" for b :: bool by simp
  have closed: "\<forall>j<length [[1], [2], [], []]. \<forall>i\<in>set ([[1], [2], [], []] ! j). i < length [b, True, True, True]"
    for b by (simp add: All_less_Suc)
  from cancellation_is_reachability [OF len closed] a
  have "\<forall>i<length [True, True, True, True]. [True, True, True, True] ! i
      \<longleftrightarrow> \<not> killed [[1], [2], [], []] [True, True, True, True] i" by (metis option.inject)
  from spec [OF this, of 3] have one: "\<not> killed [[1], [2], [], []] [True, True, True, True] 3" by simp
  from cancellation_is_reachability [OF len closed] b
  have "\<forall>i<length [False, True, True, True]. [False, False, False, True] ! i
      \<longleftrightarrow> \<not> killed [[1], [2], [], []] [False, True, True, True] i" by (metis option.inject)
  from spec [OF this, of 2] have two: "killed [[1], [2], [], []] [False, True, True, True] 2" by simp
  show ?thesis using one two by (rule conjI)
qed

text \<open>C15: The bullet phase (five sub-steps, with the pending attacks committed after the first, then the
  erasure of spent bullets) keeps the world well formed, changes no tick, log, rule, base or verdict, and
  leaves only bullets with damage.\<close>

theorem bullet_phase_invariant:
  assumes "winv w" "processBulletMovement w = Some w'"
  shows "winv w' \<and> bullet_frame w w'
    \<and> (\<forall>b\<in>set (w_bullets w'). \<exists>bl. w_bheap w' b = Some bl \<and> b_damage bl \<noteq> 0)"
  using processBulletMovement_winv [OF assms] .

theorem bullet_phase_invariant_witness:
  "\<exists>w'. processBulletMovement marching_world = Some w' \<and> winv w' \<and> w_bullets w' = []"
proof -
  obtain w' where "processBulletMovement marching_world = Some w'" "w_bullets w' = []"
    using marching_shot by auto
  then show ?thesis using bullet_phase_invariant [OF turn_invD(1) [OF marching_world_ok]] by blast
qed

text \<open>C16: A bullet that reaches a tile has exactly the effect of the rules: nothing on a free tile; on a
  unit, the smaller of damage and health is taken from both, and a unit with less health than the bullet has
  damage is unlinked from its tile and slot (one whose health equals the damage is left at zero health and stays
  linked); on a bullet, the smaller damage is taken from both, and the bullet
  on the tile is unlinked from it if nothing is left of it.\<close>

theorem collision_follows_the_rules:
  assumes "tilemap_wf (w_map w)" "occ w p \<noteq> Some (OCCUPIED_BY_BULLET a)"
    "handleBulletCollision a p w = Some w'"
  shows "collision_effect a p w w' \<and> bullet_frame w w'"
  using collision_correct [OF assms] by blast

theorem collision_follows_the_rules_witness:
  "\<exists>w'. handleBulletCollision 9 (0, 0) targeted_world = Some w' \<and> collision_effect 9 (0, 0) targeted_world w'"
proof -
  have "handleBulletCollision 9 (0, 0) targeted_world \<noteq> None \<and> tilemap_wf (w_map targeted_world)
      \<and> occ targeted_world (0, 0) = Some (OCCUPIED_BY_UNIT 0)" by code_simp
  then show ?thesis
    using collision_follows_the_rules [of targeted_world "(0, 0)" 9] by auto
qed

text \<open>C17: Of the three phases that begin a turn only the bullet phase can fail: the movement phase and the capture
  check have results on every world that the bullet phase leaves, and the world that the programs of the players
  are then run on satisfies the invariant of a turn. (Running the programs is not part of the three phases.)\<close>

theorem phases_after_bullets_succeed:
  assumes "turn_inv w" "io_ok w" "\<not> gameOver w" "capture_inv w" "processBulletMovement (turn_start w) = Some w1"
  shows "\<exists>w2 w3. processUnitMovement w1 = Some w2 \<and> world_phases w = Some w3 \<and> turn_inv w2
    \<and> capture_outcome w2 w3 \<and> turn_inv w3 \<and> io_ok w3 \<and> (gameOver w3 \<or> capture_inv w3)"
  using world_phases_ok [OF assms] by blast

theorem phases_after_bullets_succeed_witness:
  "\<exists>w3. world_phases sample_world = Some w3 \<and> turn_inv w3"
proof -
  have "processBulletMovement (turn_start sample_world) \<noteq> None" by code_simp
  then obtain w1 where "processBulletMovement (turn_start sample_world) = Some w1" by blast
  from phases_after_bullets_succeed [OF sample_world_ok(1,2) sample_start(1) sample_world_ok(3) this]
  show ?thesis by blast
qed

text \<open>C18: The capture check: with \<open>c\<close> the number of consecutive turns a base would have been held, a base
  held for the threshold is lost; both at once continue the match one turn short of it; otherwise the
  counters are those numbers. It always has a result.\<close>

theorem capture_check_outcome:
  assumes "winv w" "w_reason w = Ongoing" "capture_inv w"
  shows "\<exists>w'. checkBaseCaptureCondition w = Some w' \<and> capture_outcome w w' \<and> winv w'
    \<and> (w_reason w' = Ongoing \<longrightarrow> capture_inv w')"
  using checkBaseCapture_correct [OF assms] by blast

theorem capture_check_outcome_witness:
  "\<exists>w'. checkBaseCaptureCondition sample_world = Some w' \<and> capture_outcome sample_world w'"
  using capture_check_outcome [OF turn_invD(1) [OF sample_world_ok(1)] sample_world_ok(4,3)] by blast



text \<open>C20: Energy collection does not wrap around: under rules with capacities of at most 65279, every unit has
  afterwards, as numbers, the smaller of its capacity and its energy plus the gain, which is 1 at every turn of the
  natural rate (0 at others, and always if the rate is 0) plus the rate of the resource zone on a resource tile.\<close>

theorem energy_gain_does_not_wrap:
  assumes "turn_inv w" "unat (gr_capacity_lv1 (w_rules w)) \<le> 65279" "unat (gr_capacity_lv2 (w_rules w)) \<le> 65279"
    "a \<in> set (w_units w)"
  shows "\<exists>w' u v t. collectEnergy w = Some w' \<and> w_uheap w a = Some u \<and> world_tile w (u_pos u) = Some t
    \<and> w_uheap w' a = Some v
    \<and> unat (u_energy v) = min (unat (u_energy u) + gain_of w t) (unat (maxCapacity (w_rules w) u))"
  by (rule collectEnergy_numbers [OF assms])

theorem energy_gain_does_not_wrap_witness:
  "\<exists>w' v. collectEnergy funded_world = Some w' \<and> w_uheap w' 0 = Some v \<and> unat (u_energy v) \<le> 200"
proof -
  have c: "unat (gr_capacity_lv1 (w_rules funded_world)) \<le> 65279" "unat (gr_capacity_lv2 (w_rules funded_world)) \<le> 65279"
    "0 \<in> set (w_units funded_world)" "w_uheap funded_world 0 = Some worn_unit"
    "unat (maxCapacity (w_rules funded_world) worn_unit) = 200"
    by (simp_all add: funded_world_def upd_player_def sample_units sample_rules default_rules_def worn_unit_def
        maxCapacity_def new_unit_def no_upgrades_def)
  show ?thesis using energy_gain_does_not_wrap [OF funded_world_ok(1) c(1-3)] c(4,5) by auto
qed

text \<open>C21: The breadth-first search for a unit's vision always ends and sees exactly the cells of the window
  that are connected to the unit by tiles that are not obstacles.\<close>

theorem vision_is_reachability:
  assumes "0 < rng"
  shows "\<exists>vis. compute_vision m rng x y = Some vis \<and> length vis = nat (rng * rng)
    \<and> (\<forall>c. in_window rng c \<longrightarrow> vis ! cell_index rng c = sees m rng (x - rng div 2, y - rng div 2) c)"
  by (rule compute_vision_sees [OF assms])

theorem vision_is_reachability_witness:
  "\<exists>vis. compute_vision sample_map 3 0 0 = Some vis \<and> length vis = 9"
  using vision_is_reachability [of 3 sample_map 0 0] by auto

section \<open>Base actions\<close>

text \<open>C22: Manufacturing a unit, on every branch: too little energy, an id out of range or in use, and else a
  new unit with that id on a free tile of the base for exactly the cost. With no free tile in the base
  there is no result: the assertion of \<open>_spawnUnitAtBase\<close> fails.\<close>

theorem manufacture_branches:
  assumes "turn_inv w" "uniform_ok uniform_int"
  shows "if p_base_energy (w_players w s) < gr_manufact_cost (w_rules w)
     then manufactureUnit uniform_int s i w = Some (INSUFFICIENT_ENERGY, w)
     else if \<not> (valid_id i \<and> unused_id w s i) then manufactureUnit uniform_int s i w = Some (INVALID_ID, w)
     else if base_full w s then manufactureUnit uniform_int s i w = None
     else \<exists>w' p. manufactureUnit uniform_int s i w = Some (OK, w') \<and> turn_inv w'
        \<and> p \<in> set (base_tiles w s) \<and> occ w p = Some NOT_OCCUPIED
        \<and> w_uheap w' = (w_uheap w)(w_next w \<mapsto> new_unit i s (fst p) (snd p) (gr_unit_health (w_rules w)))
        \<and> p_base_energy (w_players w' s) = p_base_energy (w_players w s) - gr_manufact_cost (w_rules w)
        \<and> p_base_energy (w_players w' (opponent s)) = p_base_energy (w_players w (opponent s))"
  using manufactureUnit_cases [OF assms, of s i] by (auto split: if_split)

theorem manufacture_branches_witness:
  "manufactureUnit first_choice P1 1 funded_world = Some (INVALID_ID, funded_world)"
proof -
  have c: "\<not> p_base_energy (w_players funded_world P1) < gr_manufact_cost (w_rules funded_world)" by code_simp
  have "\<not> unused_id funded_world P1 1" using funded_target by (auto simp: unused_id_def target_unit_def)
  then show ?thesis using manufacture_branches [OF funded_world_ok(1) first_choice_ok, of P1 1] c by simp
qed

text \<open>C23: No base action creates energy, for either player, and one that does not answer \<open>OK\<close> leaves the
  world as it was.\<close>

theorem base_actions_never_create_energy:
  assumes "turn_inv w" "uniform_ok uniform_int"
    "act \<in> {manufactureUnit uniform_int s i, repairUnit s i, upgradeUnit s i type}" "act w = Some (r, w')"
  shows "p_base_energy (w_players w' t) \<le> p_base_energy (w_players w t) \<and> (r \<noteq> OK \<longrightarrow> w' = w)"
proof -
  have R: "std_random uniform_int" using assms(2) by unfold_locales
  consider "act = manufactureUnit uniform_int s i" | "act = repairUnit s i" | "act = upgradeUnit s i type"
    using assms(3) by blast
  then have "base_action act s (\<lambda>w. gr_manufact_cost (w_rules w)) \<or> (\<exists>price. base_action act s price)"
    using std_random.manufact_action [OF R] repair.base_action_axioms upgrade.base_action_axioms by cases blast+
  then obtain price where B: "base_action act s price" by blast
  show ?thesis
    using base_action.energy_never_grows [OF B assms(1,4)] base_action.refused [OF B assms(1,4)] by blast
qed

theorem base_actions_never_create_energy_witness:
  "\<exists>r w'. repairUnit P1 1 funded_world = Some (r, w') \<and> p_base_energy (w_players w' P1) \<le> 2000"
proof -
  have "repairUnit P1 1 funded_world \<noteq> None" by code_simp
  then obtain r w' where r: "repairUnit P1 1 funded_world = Some (r, w')" by fastforce
  have "p_base_energy (w_players funded_world P1) = 2000" by code_simp
  then show ?thesis
    using base_actions_never_create_energy [where act = "repairUnit P1 1" and s = P1 and i = 1 and t = P1,
        OF funded_world_ok(1) first_choice_ok _ r] r by auto
qed

section \<open>Programs and their system calls\<close>

text \<open>C24: The step of a unit cannot fail: whatever system calls a unit's program makes, with whatever arguments,
  \<open>Unit::step\<close> has a result and keeps the invariant of the running match. (This is about the step itself; an
  attack that it leaves pending is carried out by the next bullet phase, which fails for a shot over the edge of the
  map, \<open>src/world.cpp:773\<close>.)\<close>

theorem unit_programs_never_fault:
  assumes "uniform_ok uniform_int" "machine_ok mo" "running_ok m" "a \<in> set (w_units (mt_world m))"
  shows "\<exists>m'. unit_step mo uniform_int a m = Some m' \<and> running_ok m'
    \<and> action_frame (mt_world m) (mt_world m')"
  by (rule runtime_env.unit_step_ok [OF runtime_envI [OF assms(1,2)] assms(3,4)])

theorem unit_programs_never_fault_witness:
  "\<exists>m'. unit_step script_ops first_choice 0 sample_match = Some m' \<and> running_ok m'"
proof -
  have "running_ok sample_match" "0 \<in> set (w_units (mt_world sample_match))"
    using sample_match_ok by (simp_all add: match_ok_def sample_match_def new_match_def sample_units)
  then show ?thesis using unit_programs_never_fault [OF first_choice_ok script_machine_ok] by blast
qed

text \<open>C25: Every system call, by its number, keeps the invariant of the simulation: the world's invariant,
  legal logs and messages, a log quota of at most 4096, the caller's identity. Nothing of the past is lost:
  logs and units are only added.\<close>

theorem system_calls_keep_invariant:
  assumes "uniform_ok uniform_int" "machine_ok mo" "sim_ok s" "dispatch mo uniform_int n s = Some s'"
  shows "sim_ok s' \<and> sim_frame s s'"
  using runtime_env.dispatch_ok [OF runtime_envI [OF assms(1,2)], of n] assms(3,4)
  unfolding handler_ok_def by blast

theorem system_calls_keep_invariant_witness:
  "\<exists>s'. dispatch script_ops first_choice 0x32 unit_sim = Some s' \<and> sim_ok s'"
proof -
  have "dispatch script_ops first_choice 0x32 unit_sim \<noteq> None" by code_simp
  then show ?thesis
    using system_calls_keep_invariant [OF first_choice_ok script_machine_ok unit_sim_ok(1), of "0x32"] by blast
qed

section \<open>Replays\<close>



text \<open>C27: Playback is safe on every file: whatever its bytes, however long the user lets it run, every call of
  the loop has a result.\<close>

theorem playback_never_faults:
  "\<exists>published code. runPlayback (istream_ops ndebug) eof good rounds (istream_adapter_new (istream_of bs))
     = Some (published, code)"
  by (rule istream.runPlayback_total [OF istream_adapter_new_view])



text \<open>C29: A record of an unknown type is never reported. In front of one, the test answers false without consuming
  anything, so \<open>nextTick\<close> and its \<open>UnknownRecordType\<close> are not reached: however many rounds the loop of playback
  makes, it publishes nothing but a missing end marker or an I/O error. While the input is good and not at its end,
  it publishes nothing at all and goes on testing the same record for as long as the user lets it.\<close>

theorem unknown_record_stalls:
  assumes "stream_adapter ops view" "view (dc_stream d) (b # bs) k p" "dc_phase d = PhaseTick"
    "b \<noteq> record_type_tick" "b \<noteq> record_type_end"
  shows "(\<exists>s. canReadNextRecord ops d = Some (False, d\<lparr>dc_stream := s\<rparr>) \<and> view s (b # bs) 0 p)
    \<and> (\<exists>published code. playback_loop ops eof good rounds d = Some (published, code)
        \<and> published \<in> {[], [PubError MissingEndMarker], [PubIOError]}
        \<and> ((\<forall>s. view s (b # bs) 0 p \<longrightarrow> \<not> eof s \<and> good s) \<longrightarrow> published = []))"
proof -
  have "\<not> record_complete (b # bs)" using unknown_record_incomplete [of "b # bs"] assms(4,5) by simp
  then show ?thesis
    using stream_adapter.canReadNextRecord_view [OF assms(1-3)]
      stream_adapter.unknown_record_loop [OF assms(1,4,5,2,3), of eof good rounds] by auto
qed

theorem unknown_record_stalls_witness:
  "\<exists>code. playback_loop (istream_ops True) (\<lambda>_. False) (\<lambda>_. True) 1000
       ((new_decoder (istream_adapter_new (istream_of [7, 0])))\<lparr>dc_phase := PhaseTick\<rparr>) = Some ([], code)"
  using unknown_record_stalls [OF istream.stream_adapter_axioms [where ndebug = True],
      of "(new_decoder (istream_adapter_new (istream_of [7, 0])))\<lparr>dc_phase := PhaseTick\<rparr>" 7 "[0]" 0 0
        "\<lambda>_. False" "\<lambda>_. True" 1000] istream_adapter_new_view [of "[7, 0]"]
  by (auto simp: new_decoder_def record_type_tick_def record_type_end_def)

section \<open>Maps\<close>

text \<open>C30: A binary map file reads back. Saving a legal map with bases succeeds, and \<open>Tilemap::load\<close> recognises the
  file as binary and gives the same map, in a debug or release build.\<close>

theorem binary_map_roundtrip:
  assumes "map_legal m" "0 < tm_base_size m"
  shows "\<exists>bs. saveAsBinary m [] = Some (Inr (), bs) \<and> tilemap_load ndebug (istream_of bs) = Some (Inr m)"
  using save_load_binary [OF assms] load_map_file [of ndebug m] by auto

theorem binary_map_roundtrip_witness:
  "\<exists>bs. saveAsBinary sample_map [] = Some (Inr (), bs) \<and> tilemap_load True (istream_of bs) = Some (Inr sample_map)"
  using binary_map_roundtrip [OF sample_map_legal, of True] by (simp add: sample_map_def)

text \<open>C31: The binary loader on an arbitrary file, debug or release: if no tile byte after the header marks a base of
  side 0, it has a result, and a map that it accepts is legal: the sizes are in range, every tile is legal, and the
  base tiles of each player are none or exactly a square of the declared size, or at most one tile where the
  declared size is not positive (such a size is not refused, nor is a map without bases).\<close>

theorem binary_loader_sound:
  assumes "\<forall>b\<in>set (drop 15 bs). t_is_base (tile_of_byte b) \<longrightarrow> t_side (tile_of_byte b) \<noteq> 0"
  shows "\<exists>r. tilemap_loadBinary ndebug (istream_of bs) = Some r \<and> (\<forall>m. r = Inr m \<longrightarrow> map_legal m \<and> bases_single m)"
  using loadBinary_answers [OF assms, of ndebug] loadBinary_sound loadBinary_single by blast

theorem binary_loader_sound_witness:
  "\<exists>r. tilemap_loadBinary True (istream_of (tilemap_binary_magic @ [2, 4, 0])) = Some r
     \<and> (\<forall>m. r = Inr m \<longrightarrow> map_legal m \<and> bases_single m)"
  by (rule binary_loader_sound) (simp add: tilemap_binary_magic_def)

text \<open>C32: A text map that was loaded, with positive sizes, can be printed, and what is printed is recognised as text
  and loads to the same map, with the sides and the size of the bases found again.\<close>

theorem text_map_roundtrip:
  assumes "tilemap_loadText i = Some (Inr m)" "0 < tm_width m" "0 < tm_height m"
  shows "\<exists>t. saveAsText m [] = Some (Inr (), t) \<and> tilemap_load ndebug (istream_of (bytes_of_text t)) = Some (Inr m)"
  using save_load_text_file [OF assms] by blast

theorem text_map_roundtrip_witness:
  "\<exists>m t. tilemap_loadText (istream_of (bytes_of_text sample_text)) = Some (Inr m)
     \<and> saveAsText m [] = Some (Inr (), t) \<and> tilemap_load False (istream_of (bytes_of_text t)) = Some (Inr m)"
  using text_map_roundtrip [OF sample_text_loaded, of False] sample_text_loaded by (auto simp: sample_text_map_def)

text \<open>C33: A text map that the loader accepts, with positive sizes, is sound: as many tiles as the sizes say, every tile
  legal, every base tile with an owner, and the base tiles of each player none or exactly a square of the common
  size, which is positive exactly if there is a base. (Whether there are two is not tested: the comment at
  \<open>src/tilemap.cpp:283\<close> says more than the code does.)\<close>

theorem text_loader_sound:
  assumes "tilemap_loadText i = Some (Inr m)" "0 < tm_width m" "0 < tm_height m"
  shows "map_sound m \<and> bases_placed m"
  by (rule loadText_placed [OF assms])

theorem text_loader_sound_witness: "map_sound sample_text_map \<and> bases_placed sample_text_map"
  by (rule text_loader_sound [OF sample_text_loaded]) (simp_all add: sample_text_map_def)

text \<open>C34: The generator succeeds for every legal configuration, whatever the shuffle and the distributions draw. The
  map has the requested sizes and two bases, the squares in the upper left and the lower right corner, every tile
  of them empty ground; no other tile has an owner; resources lie on empty tiles outside the bases.\<close>

theorem generated_map_layout:
  assumes "shuffle_ok shuffle" "coord_ok draw" "uniform_ok uniform_int" "config_ok c"
  shows "\<exists>m. tilemap_generate shuffle draw uniform_int c = Some (Inr m) \<and> tm_width m = cfg_width c
    \<and> tm_height m = cfg_height c \<and> tm_base_size m = cfg_base_size c
    \<and> (\<forall>q t. tileOf m q = Some t \<longrightarrow> generated_tile c q t) \<and> map_sound m \<and> (\<forall>s. \<exists>q. base_at m s q)"
proof -
  obtain m where m: "tilemap_generate shuffle draw uniform_int c = Some (Inr m)" "tiles_satisfy (generated_tile c) m"
    "sized c m" "tm_base_size m = cfg_base_size c"
    using generate_total [OF assms] by blast
  then show ?thesis
    using generated_map_sound [OF assms(4) m(2-4)] tiles_satisfyD [OF m(2)] by (simp add: sized_def)
qed

theorem generated_map_layout_witness:
  "\<exists>m. tilemap_generate (\<lambda>xs _. xs) (\<lambda>s. (0, s)) first_choice (default_config \<lparr>seed_s0 = 3, seed_s1 = 4\<rparr>) = Some (Inr m)
     \<and> tm_width m = 32 \<and> tm_base_size m = 5 \<and> map_sound m"
proof -
  let ?c = "default_config \<lparr>seed_s0 = 3, seed_s1 = 4\<rparr>"
  have c: "config_ok ?c" using default_noise_ok by (simp add: config_ok_def default_config_def INT_MIN_def INT_MAX_def)
  have "shuffle_ok (\<lambda>xs _. xs)" "coord_ok (\<lambda>s. (0, s))" by (simp_all add: shuffle_ok_def coord_ok_def)
  from generated_map_layout [OF this first_choice_ok c] show ?thesis by (auto simp: default_config_def)
qed

text \<open>C35: The calibrated noise is the empirical distribution function of its samples. After \<open>calibrate\<close> with \<open>n\<close>
  samples, the raw Perlin noise at a point of the sampled area is defined and between 0 and 1, and
  \<open>uniform_noise\<close> is the share of the samples below it.\<close>

theorem uniform_noise_is_quantile:
  assumes "shuffle_ok shuffle" "coord_ok draw" "noise_params_ok scale octaves persistence" "0 < n"
    "0 \<le> x" "x \<le> 1000" "0 \<le> y" "y \<le> 1000"
  shows "\<exists>g samples raw. calibrate draw scale octaves persistence n (uniform_noise_new shuffle rng) = Some g
    \<and> un_cdf g = sort samples \<and> length samples = nat n \<and> raw_noise g x y = Some raw \<and> 0 \<le> raw \<and> raw \<le> 1
    \<and> uniform_noise g x y = Some (real (length (filter (\<lambda>v. v < raw) samples)) / real (nat n))"
proof -
  obtain g samples where g: "calibrate draw scale octaves persistence n (uniform_noise_new shuffle rng) = Some g"
    "noise_gen_ok g" "un_calibrated g" "un_cdf g = sort samples" "length samples = nat n"
    using calibrate_ok [OF assms(1-4)] by blast
  then have "samples \<noteq> []" using assms(4) by auto
  from uniform_noise_range [OF g(2-4) this assms(5-8)] g show ?thesis by auto
qed

theorem uniform_noise_is_quantile_witness:
  "\<exists>g v. calibrate (\<lambda>s. (0, s)) (15 / 100) 3 (4 / 10) 10000 (uniform_noise_new (\<lambda>xs _. xs) \<lparr>seed_s0 = 3, seed_s1 = 4\<rparr>) = Some g
     \<and> uniform_noise g 7 9 = Some v"
  using uniform_noise_is_quantile [of "\<lambda>xs _. xs" "\<lambda>s. (0, s)" "15 / 100" 3 "4 / 10" 10000 7 9] default_noise_ok
  by (fastforce simp: shuffle_ok_def coord_ok_def)

section \<open>The library of the players\<close>

text \<open>C36: The formatter of the C library prints what is documented, except for the conversions that it gets wrong. Let
  a format and its arguments have a documented output and contain no \<open>%p\<close>, no \<open>%u\<close> or \<open>%x\<close> of a value from
  \<open>2 ^ 31\<close> on, and no \<open>%d\<close> of \<open>INT_MIN\<close> (these four are the defects at \<open>corelib.c:23\<close>, \<open>85\<close>, \<open>100\<close> and \<open>126\<close>).
  Then \<open>vfmt_str\<close> into a buffer of at least one byte writes as much of the documented output as fits, the terminator
  behind it, and no byte behind that. It returns the number of bytes that it has written in front of the terminator,
  which is the documented length of the whole output only where that fits. \<open>logf\<close> hands the first 512 bytes of the
  output to \<open>log\<close>.\<close>

theorem player_output_is_formatted:
  assumes "fmt_output fmt args = Some out" "well_printed fmt args" "0 < sz" "sz \<le> length buffer" "length stack = 513"
  shows "vfmt_str buffer sz fmt args
      = Some (take (sz - 1) out @ [0] @ drop (length (take (sz - 1) out) + 1) buffer, min (length out) (sz - 1))
    \<and> logf_message stack fmt args = Some (if out = [] then None else Some (take 512 out))"
  using vfmt_str_prints [OF printable_documented [OF assms(1,2)] assms(3,4)]
    logf_message_prints [OF printable_documented [OF assms(1,2)] assms(5)] by (simp add: overwrite_def)

theorem player_output_is_formatted_witness:
  "vfmt_str (replicate 12 9) 10 (toBytes ''u%d: %s!'') [ArgWord (- 7), ArgString (toBytes ''moving'')]
     = Some (toBytes ''u-7: movi'' @ [0, 9, 9], 9)"
proof -
  have "fmt_output (toBytes ''u%d: %s!'') [ArgWord (- 7), ArgString (toBytes ''moving'')] = Some (toBytes ''u-7: moving!'')"
    "well_printed (toBytes ''u%d: %s!'') [ArgWord (- 7), ArgString (toBytes ''moving'')]" by code_simp+
  from player_output_is_formatted [OF this, of 10 "replicate 12 9" "replicate 513 0"] show ?thesis
    by (simp add: toBytes_def numeral_2_eq_2)
qed



section \<open>The harvesting player\<close>

text \<open>C38: The searches of the harvesting player end and find a nearest cell. On every map that fits into its arrays,
  from every position on the map and whatever the random order of the directions, \<open>bfsDirToMode\<close> answers with the
  first direction of a shortest walk to a cell that its mode looks for, over cells that are known to be free, and
  remembers that cell; it answers \<open>-1\<close> if it stands on such a cell, and if no walk leads to one.\<close>

theorem harvester_takes_a_shortest_way:
  assumes "hv_ok s" "radius \<le> 4" "inBounds s x y"
  shows "\<exists>dir t found. bfsDirToMode rand x y self_x self_y radius mode tx ty s = Some (dir, t) \<and> same_world s t
    \<and> hv_pending t = (case found of Some c \<Rightarrow> (c mod hv_width s, c div hv_width s) | None \<Rightarrow> (-1, -1))
    \<and> shortest_way s (toIndex s x y) self_x self_y radius (wanted_cell s mode tx ty) dir found"
  by (rule bfsDirToMode_nearest [OF assms])

theorem harvester_takes_a_shortest_way_witness:
  "\<exists>t. bfsDirToMode (\<lambda>_. 0) 0 0 0 0 2 ModeToResource (-1) (-1) sample_harvester = Some (1, t)"
proof -
  have "toIndex sample_harvester 0 0 = 0" by (simp add: toIndex_def)
  then show ?thesis
    using harvester_takes_a_shortest_way [OF sample_harvester_ok(1) _ sample_harvester_ok(2),
        of 2 "\<lambda>_. 0" 0 0 ModeToResource "-1" "-1"] sample_way by fastforce
qed

text \<open>C39: The harvesting player never leaves its arrays. On a map of at most 64 by 64 cells, if every position is on the
  map and no window has more than 81 cells, its \<open>main\<close> has a result for every sequence of turns, whatever the
  other units send and whatever \<open>rand\<close> answers, and it moves in the four directions only.\<close>

theorem harvester_stays_in_its_arrays:
  assumes "0 < gi_map_width g" "gi_map_width g \<le> 64" "0 < gi_map_height g" "gi_map_height g \<le> 64"
    and "\<forall>t\<in>set ts. turn_ok (hv_start g) t"
  shows "\<exists>calls s. harvester_main rand meta_result g ts = Some (calls, s)
    \<and> (\<forall>dir. CallMove dir \<in> set calls \<longrightarrow> dir \<in> {0, 1, 2, 3})"
  using hv_main_total [OF hv_start_ok [OF assms(1-4)] assms(5), of rand 0] by (auto simp: harvester_main_def)

theorem harvester_stays_in_its_arrays_witness:
  "\<exists>calls s. harvester_main (\<lambda>_. 0) 0 sample_info [sample_turn_input] = Some (calls, s)"
  using harvester_stays_in_its_arrays [of sample_info "[sample_turn_input]" "\<lambda>_. 0" 0] sample_turn_input_ok
  by (auto simp: sample_info_def)

text \<open>C40: Shared maps are as good as seen ones. A unit that reads the packet another one has sent with
  \<open>broadcastVisibleMap\<close> knows afterwards exactly what \<open>updateMap\<close> would have told it at the place of the
  sender: the terrain and the marks for resources and bases.\<close>

theorem harvester_map_is_shared:
  assumes "hv_ok s" "\<forall>cell\<in>set (hv_sensors s). legal_terrain (sd_terrain cell)"
    and "hv_ok r" "hv_width r = hv_width s" "hv_height r = hv_height s"
    and "broadcastVisibleMap p info s = Some (Some msg)"
  shows "\<exists>u. process_message msg r = Some u \<and> updateMap (hv_sensors s) p info r = Some (u\<lparr>hv_sensors := hv_sensors s\<rparr>)"
  by (rule map_is_shared [OF assms])

theorem harvester_map_is_shared_witness:
  "\<exists>u. process_message [1, 1, 1, 1, 1] sample_harvester = Some u"
  using harvester_map_is_shared [OF sample_observer_ok(1,2) sample_harvester_ok(1) sample_observer_ok(3,4) sample_observer_sends]
  by blast

section \<open>Further facts\<close>

text \<open>Called by a unit, every system call has a result: none of them can reach an assertion or a dangling
  pointer.\<close>

lemma unit_system_calls_succeed:
  assumes "uniform_ok uniform_int" "machine_ok mo" "sim_ok s" "is_unit s"
  shows "\<exists>s'. dispatch mo uniform_int n s = Some s'"
  using runtime_env.dispatch_ok [OF runtime_envI [OF assms(1,2)], of n] assms(3,4)
  unfolding handler_ok_def by blast

text \<open>Depositing, on every branch: once a turn, a positive amount that the unit holds, in its own base;
  the unit loses the amount and the base gains it, saturating at 65535.\<close>

lemma deposit_branches:
  assumes "sim_ok s" "is_unit s" "ctx_unit s = Some u" "n = int_arg mo s 0" "held = uint (u_energy u)"
    "stock = uint (p_base_energy (ctx_player s))"
  shows "\<exists>s'. ecall_deposit mo s = Some s' \<and> sim_ok s'
    \<and> (if f_deposit_withdraw (c_flags (s_ctx s)) then s' = set_result mo ON_COOLDOWN s
       else if n < 1 then s' = set_result mo OUT_OF_RANGE s
       else if n > held then s' = set_result mo INSUFFICIENT_ENERGY s
       else if \<not> isInBase (s_world s) (u_pos u) (c_player (s_ctx s)) then s' = set_result mo INVALID_UNIT s
       else s_machine s' = s_machine (set_result mo OK s)
         \<and> ctx_unit s' = Some (u\<lparr>u_energy := word_of_int (held - n)\<rparr>)
         \<and> uint (p_base_energy (ctx_player s')) = min 65535 (stock + n))"
  using ecall_deposit_unit [OF assms] by (auto split: if_split_asm)

text \<open>The test for an end record asks for two of its three bytes. A file cut after two passes the test and
  is then rejected.\<close>

lemma short_end_record_passes_test:
  "canReadNextRecord list_ops ((new_decoder [record_type_end, b])\<lparr>dc_phase := PhaseTick\<rparr>)
     = Some (True, (new_decoder [record_type_end, b])\<lparr>dc_phase := PhaseTick\<rparr>)
   \<and> (\<exists>d. nextTick list_ops ((new_decoder [record_type_end, b])\<lparr>dc_phase := PhaseTick\<rparr>)
        = Some (ReadError TruncatedEndMarker, d))"
  using short_end_record [of b]
  by (simp add: canReadNextRecord_def nextTick_def new_decoder_def hasHeader_def ended_def heavy_check_def)
    (simp add: list_ops_def)

text \<open>In a turn, every move is to a cell that the window does not show to be blocked.\<close>

lemma harvester_moves_to_free_cells:
  assumes "hv_ok s" "turn_ok s t"
  shows "\<exists>calls u. hv_turn rand t s = Some (calls, u) \<and> hv_ok u
    \<and> (\<forall>dir. CallMove dir \<in> set calls \<longrightarrow> localStepBlocked (hv_sensors u) (radiusOf (ti_info t)) dir = Some False)"
  using hv_turn_total [OF assms, of rand] by (fastforce simp: keeps_def moves_ok_def)

text \<open>Repairing a living unit, on every branch: it must stand in its base and be damaged, the base must
  have two units of energy for every point of health, and then it is healed to its maximum for exactly
  that price.\<close>

lemma repair_branches:
  assumes "turn_inv w" "target_unit w s i a u"
  shows "if \<not> isInBase w (u_pos u) s \<or> u_health u = maxHealth (w_rules w) u
     then repairUnit s i w = Some (INVALID_UNIT, w)
     else if p_base_energy (w_players w s) < repair_cost w u then repairUnit s i w = Some (INSUFFICIENT_ENERGY, w)
     else \<exists>w'. repairUnit s i w = Some (OK, w')
        \<and> pay_and_upd s (repair_cost w u) a (\<lambda>u. u\<lparr>u_health := maxHealth (w_rules w) u\<rparr>) w w'"
  using repairUnit_cases(2-4) [OF assms(1,2)] by (auto split: if_split)

text \<open>Upgrading a living unit, on every branch: it must stand in its base, the type must exist, the unit
  must not have the upgrade yet and the base must afford it; then it has it, for exactly its price.\<close>

lemma upgrade_branches:
  assumes "turn_inv w" "target_unit w s i a u"
  shows "if \<not> isInBase w (u_pos u) s then upgradeUnit s i type w = Some (INVALID_UNIT, w)
     else case upgrade_type_of type of
         None \<Rightarrow> upgradeUnit s i type w = Some (OUT_OF_RANGE, w)
       | Some ty \<Rightarrow>
           if has_upgrade ty (u_upgrades u) then upgradeUnit s i type w = Some (INVALID_UNIT, w)
           else if p_base_energy (w_players w s) < upgrade_cost ty (w_rules w)
             then upgradeUnit s i type w = Some (INSUFFICIENT_ENERGY, w)
           else \<exists>w'. upgradeUnit s i type w = Some (OK, w') \<and> pay_and_upd s (upgrade_cost ty (w_rules w)) a
                  (\<lambda>u. u\<lparr>u_upgrades := add_upgrade ty (u_upgrades u)\<rparr>) w w'"
  using upgradeUnit_cases(2-6) [OF assms(1,2), of type] by (auto split: if_split option.split)

text \<open>Withdrawing, on every branch: once a turn, a positive amount that the base holds, in the unit's own
  base; the base loses the whole amount, the unit keeps what its capacity has room for.\<close>

lemma withdraw_branches:
  assumes "sim_ok s" "is_unit s" "ctx_unit s = Some u" "n = int_arg mo s 0" "held = uint (u_energy u)"
    "stock = uint (p_base_energy (ctx_player s))" "room = uint (maxCapacity (w_rules (s_world s)) u)"
  shows "\<exists>s'. ecall_withdraw mo s = Some s' \<and> sim_ok s'
    \<and> (if f_deposit_withdraw (c_flags (s_ctx s)) then s' = set_result mo ON_COOLDOWN s
       else if n < 1 then s' = set_result mo OUT_OF_RANGE s
       else if n > stock then s' = set_result mo INSUFFICIENT_ENERGY s
       else if \<not> isInBase (s_world s) (u_pos u) (c_player (s_ctx s)) then s' = set_result mo INVALID_UNIT s
       else s_machine s' = s_machine (set_result mo OK s)
         \<and> ctx_unit s' = Some (u\<lparr>u_energy := word_of_int (min room (held + n))\<rparr>)
         \<and> uint (p_base_energy (ctx_player s')) = stock - n)"
  using ecall_withdraw_unit [OF assms] by (auto split: if_split_asm)

text \<open>\<open>nextTick\<close> after a successful \<open>canReadNextRecord\<close> always has a result, also in a release build,
  where its own test is compiled out: the bytes it reads are buffered by then.\<close>

lemma tested_read_is_safe:
  assumes "ia_view (dc_stream d) bs k p" "dc_phase d = PhaseTick"
    "canReadNextRecord (istream_ops ndebug) d = Some (True, d1)"
  shows "\<exists>r d2. nextTick (istream_ops ndebug) d1 = Some (r, d2)"
proof -
  have c: "record_complete bs"
    using istream.canReadNextRecord_view [OF assms(1,2), of ndebug] assms(3) by auto
  obtain r rest where "read_record list_ops bs = Some (r, rest)" using read_record_result [OF c] .
  from istream.playback_step [OF assms(1,2) c this, of ndebug] assms(3) show ?thesis
    by (metis option.inject prod.inject surj_pair)
qed

text \<open>Printing a seed gives 32 lower-case hexadecimal digits that are recognised as a raw seed, and reading
  it gives the seed back.\<close>

lemma seed_roundtrip:
  "is_raw_seed_format (seed_toString s) \<and> seed_fromString (seed_toString s) = s"
  using seed_toString_raw seed_fromString_toString by simp

text \<open>The constructor \<open>World::World\<close> establishes the invariant on every usable map: six units, three
  of each player on free tiles of its base with distinct ids, no bullets, no verdict, tick 0.\<close>

lemma constructor_establishes_invariant:
  assumes "map_ok m" "uniform_ok uniform_int" "new_world uniform_int m rules rng = Some w"
  shows "match_ok (new_match w entropy) \<and> w_reason w = Ongoing \<and> w_tick w = 0
    \<and> length (w_units w) = 6 \<and> w_bullets w = []"
  using new_world_ok [OF assms] new_match_ok [OF assms] by simp

text \<open>A header reads back.\<close>

lemma header_roundtrip:
  assumes "header_ok h"
  shows "\<exists>bs. encodeReplayHeader h [] = Some bs
    \<and> (\<exists>s p. decodeReplayHeader (istream_ops ndebug) (istream_adapter_new (istream_of (bs @ rest))) = Some (Inr h, s)
         \<and> ia_view s rest 0 p)"
  using encodeReplayHeader_bytes [OF assms, of "[]"]
    istream.decodeReplayHeader_view [where ndebug = ndebug, OF istream_adapter_new_view [of "header_bytes h @ rest"]]
    decodeReplayHeader_bytes [OF assms, of rest] by (fastforce dest: read_relD)

text \<open>An end marker reads back.\<close>

lemma end_marker_roundtrip:
  assumes "end_ok e"
  shows "\<exists>kind bs. encodeReplayEndMarker e [] = kind # bs \<and> kind = record_type_end
    \<and> (\<exists>s p. decodeReplayEndMarker (istream_ops ndebug) (istream_adapter_new (istream_of (bs @ rest))) = Some (Inr e, s)
         \<and> ia_view s rest 0 p)"
  using encodeReplayEndMarker_bytes [of e "[]"]
    istream.decodeReplayEndMarker_view [where ndebug = ndebug, OF istream_adapter_new_view [of "tl (end_bytes e) @ rest"]]
    decodeReplayEndMarker_bytes [OF assms, of rest] by (fastforce dest: read_relD simp: end_bytes_def)

text \<open>Decoding is safe on every input. Over an arbitrary list of bytes, read through \<open>IstreamAdapter\<close> or
  \<open>MemoryStreamAdapter\<close>, in a debug or a release build, the header decoder never reads outside what is
  buffered and always answers, and all four answers are the same.\<close>

lemma header_decoder_total:
  "\<exists>r s s'. decodeReplayHeader (istream_ops ndebug) (istream_adapter_new (istream_of bs)) = Some (r, s)
     \<and> decodeReplayHeader (memory_ops ndebug') (memory_stream_new bs) = Some (r, s')"
proof -
  obtain r rest where r: "decodeReplayHeader list_ops bs = Some (r, rest)"
    using decodeReplayHeader_total [of bs] by (auto simp: leaves_def)
  show ?thesis
    using istream.decodeReplayHeader_view [where ndebug = ndebug, OF istream_adapter_new_view [of bs]]
      memory.decodeReplayHeader_view [where ndebug = ndebug', OF memory_stream_new_view [of bs]] r
    by (auto dest!: read_relD)
qed

text \<open>Likewise for the payload of a tick.\<close>

lemma tick_decoder_total:
  "\<exists>r s s'. decodeReplayTickPayload (istream_ops ndebug) t (istream_adapter_new (istream_of bs)) = Some (r, s)
     \<and> decodeReplayTickPayload (memory_ops ndebug') t (memory_stream_new bs) = Some (r, s')"
proof -
  obtain r rest where r: "decodeReplayTickPayload list_ops t bs = Some (r, rest)"
    using decodeReplayTickPayload_total [of t bs] by (auto simp: leaves_def)
  show ?thesis
    using istream.decodeReplayTickPayload_view [where ndebug = ndebug and t = t, OF istream_adapter_new_view [of bs]]
      memory.decodeReplayTickPayload_view [where ndebug = ndebug' and t = t, OF memory_stream_new_view [of bs]] r
    by (auto dest!: read_relD)
qed

text \<open>The tick record of a well-formed world is one the decoder accepts, on maps of at most 4096 tiles: at
  most 30 living units, at most one bullet per tile, legal log payloads. Only the number of logs is not
  bounded by the invariant.\<close>

lemma snapshot_is_decodable:
  assumes "winv w" "io_ok w" "tm_width (w_map w) * tm_height (w_map w) \<le> 4096" "length (w_logs w) \<le> 64"
  shows "\<exists>t. tick_fromWorldState w = Some (t, w\<lparr>w_logs := []\<rparr>) \<and> frame_ok t \<and> fr_tick t = w_tick w"
  using tick_fromWorldState_ok [OF assms(1-3)] assms(4) by blast

text \<open>The dynamic judge's verdict depends only on which kinds of events have been seen: its limit is 1000
  turns plus 500 or 2000 for each kind, so between 1000 and 10000, and it never wraps.\<close>

lemma dynamic_judge_limit:
  assumes "limit_ok j"
  shows "\<exists>j'. shouldDraw w (DynamicTurnLimit j)
      = (limit_of (merge_events (tl_seen j) (w_events w)) \<le> unat (w_tick w), DynamicTurnLimit j')
    \<and> limit_ok j' \<and> tl_seen j' = merge_events (tl_seen j) (w_events w)
    \<and> 1000 \<le> limit_of (tl_seen j') \<and> limit_of (tl_seen j') \<le> 10000"
  using dynamic_verdict [OF assms, of w] limit_of_bounds by metis

text \<open>The packed tile byte: unpacking what was packed gives the tile back, packing what was unpacked gives
  the byte back up to its two reserved bits, and every unpacked tile has legal fields.\<close>

lemma tile_codec_roundtrip:
  "(tile_flags_wf f \<longrightarrow> tile_unpack (tile_pack f) = f) \<and> tile_pack (tile_unpack b) = b AND 0b00111111
     \<and> tile_flags_wf (tile_unpack b)"
  using tile_unpack_pack tile_pack_unpack tile_unpack_wf by blast

text \<open>The step of the random generator is a bijection of its state.\<close>

lemma generator_step_bijective:
  "bij (\<lambda>s. snd (xoro_next s))"
  by (rule o_bij [of xoro_state_prev]) (simp_all add: fun_eq_iff xoro_prev_next xoro_next_prev)

text \<open>The default rules are valid, and the rules the constructor puts together are checked by the same
  test.\<close>

lemma default_rules_accepted:
  "rules_validate default_rules
     \<and> (new_world uniform_int m rules rng \<noteq> None \<longrightarrow>
          rules_validate (rules\<lparr>gr_width := word_of_int (tm_width m), gr_height := word_of_int (tm_height m),
            gr_base_size := word_of_int (tm_base_size m)\<rparr>))"
  using default_rules_valid by (auto simp: new_world_def Let_def split: if_splits)

end
